(* ===== verification/Prelude.thy ===== *)
theory Prelude
  imports Complex_Main
begin

text \<open>
  Shared vocabulary of the hippo development: optional values as Rust's \<open>Option\<close>
  combinators treat them, 64-bit saturation, the \<open>serde_json::Value\<close> tree, SQL aggregates
  over lists of rows, association lists, and two locales used by every stateful component:
  \<open>invariant_run\<close> (a step function that keeps an invariant keeps it over any run) and
  \<open>codec\<close> (an encoder and a decoder that hands back the unread rest of the bytes).
\<close>

named_theorems hippo_defs \<open>definitions that are unfolded to evaluate the model\<close>

subsection \<open>Rust options\<close>

text \<open>\<open>Option::max\<close> orders \<open>None\<close> below every \<open>Some\<close>.\<close>

fun opt_max :: "int option \<Rightarrow> int option \<Rightarrow> int option" where
  "opt_max None b = b"
| "opt_max a None = a"
| "opt_max (Some x) (Some y) = Some (max x y)"

text \<open>\<open>Option::or\<close>.\<close>

fun opt_or :: "'a option \<Rightarrow> 'a option \<Rightarrow> 'a option" where
  "opt_or (Some x) _ = Some x"
| "opt_or None b = b"

text \<open>\<open>Option::unwrap_or\<close>.\<close>

fun unwrap_or :: "'a option \<Rightarrow> 'a \<Rightarrow> 'a" where
  "unwrap_or (Some x) _ = x"
| "unwrap_or None d = d"

lemma opt_max_None [simp]: "opt_max a None = a"
  by (cases a) simp_all

lemma opt_max_ge:
  "opt_max a b = Some m \<Longrightarrow> a = Some x \<Longrightarrow> x \<le> m"
  "opt_max a b = Some m \<Longrightarrow> b = Some y \<Longrightarrow> y \<le> m"
  by (cases a; cases b; simp; fail)+

lemma opt_max_cases:
  assumes "opt_max a b = Some m"
  shows "a = Some m \<or> b = Some m"
  using assms by (cases a; cases b) (auto simp: max_def split: if_splits)

subsection \<open>Fallible code\<close>

text \<open>
  A \<open>Result\<close> is a sum, \<open>Inl\<close> the error. \<open>rbind\<close> is the question mark operator, \<open>ensure\<close> the macro
  of \<open>anyhow\<close>, \<open>ok_of\<close> is \<open>Result::ok\<close>.
\<close>

definition rbind :: "'e + 'a \<Rightarrow> ('a \<Rightarrow> 'e + 'b) \<Rightarrow> 'e + 'b" where
  "rbind m f = (case m of Inl e \<Rightarrow> Inl e | Inr x \<Rightarrow> f x)"

definition ensure :: "bool \<Rightarrow> 'e \<Rightarrow> 'e + unit" where
  "ensure b e = (if b then Inr () else Inl e)"

definition ok_of :: "'e + 'a \<Rightarrow> 'a option" where
  "ok_of m = (case m of Inl _ \<Rightarrow> None | Inr x \<Rightarrow> Some x)"

lemma rbind_simps [simp]:
  "rbind (Inl e) f = Inl e"
  "rbind (Inr x) f = f x"
  by (simp_all add: rbind_def)

lemma rbind_Inr: "rbind m f = Inr y \<longleftrightarrow> (\<exists>x. m = Inr x \<and> f x = Inr y)"
  by (cases m) simp_all

lemma rbind_cong [fundef_cong]:
  "m = m' \<Longrightarrow> (\<And>x. m' = Inr x \<Longrightarrow> f x = g x) \<Longrightarrow> rbind m f = rbind m' g"
  by (cases m') simp_all

lemma ensure_simps [simp]:
  "b \<Longrightarrow> ensure b e = Inr ()"
  "\<not> b \<Longrightarrow> ensure b e = Inl e"
  by (simp_all add: ensure_def)

lemma ensure_Inr: "ensure b e = Inr u \<longleftrightarrow> b"
  by (simp add: ensure_def)

lemma ok_of_simps [simp]: "ok_of (Inl e) = None" "ok_of (Inr x) = Some x"
  by (simp_all add: ok_of_def)

text \<open>A procedure changes a state and may fail; an error leaves the state as it is at that point.\<close>

type_synonym ('s, 'a) proc = "'s \<Rightarrow> (string + 'a) \<times> 's"

definition p_ret :: "'a \<Rightarrow> ('s, 'a) proc" where
  "p_ret x s = (Inr x, s)"

definition p_lift :: "string + 'a \<Rightarrow> ('s, 'a) proc" where
  "p_lift r s = (r, s)"

definition p_bind :: "('s, 'a) proc \<Rightarrow> ('a \<Rightarrow> ('s, 'b) proc) \<Rightarrow> ('s, 'b) proc" where
  "p_bind m f s = (case m s of (Inl e, s') \<Rightarrow> (Inl e, s') | (Inr x, s') \<Rightarrow> f x s')"

lemma p_ret_eq [simp]: "p_ret x s = (Inr x, s)"
  by (simp add: p_ret_def)

lemma p_lift_eq [simp]: "p_lift r s = (r, s)"
  by (simp add: p_lift_def)

lemma p_bind_simps [simp]:
  "m s = (Inl e, s') \<Longrightarrow> p_bind m f s = (Inl e, s')"
  "m s = (Inr x, s') \<Longrightarrow> p_bind m f s = f x s'"
  by (simp_all add: p_bind_def)

lemma p_bind_cases:
  assumes "p_bind m f s = (r, t)"
  obtains (err) e where "m s = (Inl e, t)" "r = Inl e" | (ok) x s1 where "m s = (Inr x, s1)" "f x s1 = (r, t)"
  using assms that unfolding p_bind_def by (auto split: prod.splits sum.splits)

lemma p_bind_Inr: "p_bind m f s = (Inr y, t) \<longleftrightarrow> (\<exists>x s'. m s = (Inr x, s') \<and> f x s' = (Inr y, t))"
  by (auto simp: p_bind_def split: prod.splits sum.splits)

text \<open>A loop of procedures, left at the first error; and the properties of a state that a procedure keeps, whether it fails or not.\<close>

fun p_each :: "('a \<Rightarrow> ('s, unit) proc) \<Rightarrow> 'a list \<Rightarrow> ('s, unit) proc" where
  "p_each f [] = p_ret ()"
| "p_each f (x # xs) = p_bind (f x) (\<lambda>_. p_each f xs)"

definition p_keeps :: "('s \<Rightarrow> bool) \<Rightarrow> ('s, 'a) proc \<Rightarrow> bool" where
  "p_keeps P m \<longleftrightarrow> (\<forall>s. P s \<longrightarrow> P (snd (m s)))"

named_theorems keeping \<open>procedures that keep a property of the state\<close>

lemma p_keepsD: "p_keeps P m \<Longrightarrow> P s \<Longrightarrow> m s = (r, t) \<Longrightarrow> P t"
  by (auto simp: p_keeps_def dest: spec[of _ s])

lemma p_keeps_ret [keeping]: "p_keeps P (p_ret x)"
  by (simp add: p_keeps_def)

lemma p_keeps_lift [keeping]: "p_keeps P (p_lift r)"
  by (simp add: p_keeps_def)

lemma p_keeps_bind [keeping]: "p_keeps P m \<Longrightarrow> (\<And>x. p_keeps P (f x)) \<Longrightarrow> p_keeps P (p_bind m f)"
  unfolding p_keeps_def p_bind_def by (auto split: prod.split sum.split)

lemma p_keeps_if [keeping]: "p_keeps P m \<Longrightarrow> p_keeps P n \<Longrightarrow> p_keeps P (if b then m else n)"
  by simp

lemma p_keeps_option [keeping]: "p_keeps P m \<Longrightarrow> (\<And>x. p_keeps P (f x)) \<Longrightarrow> p_keeps P (case c of None \<Rightarrow> m | Some x \<Rightarrow> f x)"
  by (cases c) simp_all

lemma p_keeps_sum [keeping]: "(\<And>e. p_keeps P (m e)) \<Longrightarrow> (\<And>x. p_keeps P (f x)) \<Longrightarrow> p_keeps P (case c of Inl e \<Rightarrow> m e | Inr x \<Rightarrow> f x)"
  by (cases c) simp_all

lemma p_keeps_each: "(\<And>x. x \<in> set xs \<Longrightarrow> p_keeps P (f x)) \<Longrightarrow> p_keeps P (p_each f xs)"
  by (induction xs) (auto intro!: keeping)

lemma p_each_establishes:
  assumes "p_each f xs s = (Inr (), t)" "x \<in> set xs" "I s" "\<And>y. y \<in> set xs \<Longrightarrow> p_keeps I (f y)" "\<And>y. y \<in> set xs \<Longrightarrow> p_keeps P (f y)"
    "\<And>u v. I u \<Longrightarrow> f x u = (Inr (), v) \<Longrightarrow> P v"
  shows "P t"
  using assms
proof (induction xs arbitrary: s)
  case (Cons y ys)
  obtain u where u: "f y s = (Inr (), u)" "p_each f ys u = (Inr (), t)" using Cons.prems(1) by (auto simp: p_bind_Inr)
  have i: "I u" using p_keepsD[OF Cons.prems(4) Cons.prems(3) u(1)] by simp
  show ?case
  proof (cases "x = y")
    case True
    then show ?thesis using p_keepsD[OF p_keeps_each, of ys P f u _ t] Cons.prems(5,6)[of] Cons.prems(3,6) u by auto
  next
    case False
    then show ?thesis using Cons.IH[OF u(2)] Cons.prems i by auto
  qed
qed simp

subsection \<open>Machine integers\<close>

text \<open>
  Timestamps are \<open>i64\<close> epoch milliseconds; they are modelled as \<open>int\<close>, far inside the
  64-bit range. The places where the source asks for a saturating or narrowing operation
  are written with these bounds.
\<close>

definition i64_min :: int where "i64_min = - (2 ^ 63)"
definition i64_max :: int where "i64_max = 2 ^ 63 - 1"
definition u32_max :: int where "u32_max = 2 ^ 32 - 1"
definition u64_max :: int where "u64_max = 2 ^ 64 - 1"

lemmas int_bounds = i64_min_def i64_max_def u32_max_def u64_max_def

definition sat_i64 :: "int \<Rightarrow> int" where
  "sat_i64 x = max i64_min (min i64_max x)"

definition sat_u64 :: "int \<Rightarrow> int" where
  "sat_u64 x = max 0 (min u64_max x)"

lemma sat_i64_range: "i64_min \<le> sat_i64 x \<and> sat_i64 x \<le> i64_max"
  by (simp add: sat_i64_def int_bounds)

lemma sat_i64_id: "i64_min \<le> x \<Longrightarrow> x \<le> i64_max \<Longrightarrow> sat_i64 x = x"
  by (simp add: sat_i64_def)

lemma sat_u64_id: "0 \<le> x \<Longrightarrow> x \<le> u64_max \<Longrightarrow> sat_u64 x = x"
  by (simp add: sat_u64_def)

subsection \<open>SQL aggregates over rows\<close>

text \<open>\<open>SELECT MAX(c)\<close> and \<open>MIN(c)\<close>: \<open>NULL\<close> on no rows.\<close>

fun sql_max :: "int list \<Rightarrow> int option" where
  "sql_max [] = None"
| "sql_max (x # xs) = opt_max (Some x) (sql_max xs)"

fun sql_min :: "int list \<Rightarrow> int option" where
  "sql_min [] = None"
| "sql_min (x # xs) = Some (case sql_min xs of None \<Rightarrow> x | Some m \<Rightarrow> min x m)"

lemma sql_max_None [simp]: "sql_max xs = None \<longleftrightarrow> xs = []"
proof (cases xs)
  case (Cons x ys)
  then show ?thesis by (cases "sql_max ys") simp_all
qed simp

lemma sql_max_Some: "sql_max xs = Some m \<Longrightarrow> m \<in> set xs \<and> (\<forall>x \<in> set xs. x \<le> m)"
proof (induction xs arbitrary: m)
  case (Cons x xs)
  then show ?case by (cases "sql_max xs") (auto simp: max_def split: if_splits)
qed simp

lemma sql_max_exists: "x \<in> set xs \<Longrightarrow> \<exists>m. sql_max xs = Some m \<and> x \<le> m"
  by (metis empty_iff list.set(1) not_None_eq sql_max_None sql_max_Some)

lemma sql_min_None [simp]: "sql_min xs = None \<longleftrightarrow> xs = []"
  by (cases xs) simp_all

lemma sql_min_Some: "sql_min xs = Some m \<Longrightarrow> m \<in> set xs \<and> (\<forall>x \<in> set xs. m \<le> x)"
proof (induction xs arbitrary: m)
  case (Cons x xs)
  then show ?case by (cases "sql_min xs") (auto simp: min_def split: if_splits)
qed simp

text \<open>\<open>COUNT(*)\<close> over the rows that pass a \<open>WHERE\<close> clause.\<close>

definition sql_count :: "('r \<Rightarrow> bool) \<Rightarrow> 'r list \<Rightarrow> int" where
  "sql_count p rows = int (length (filter p rows))"

lemma sql_count_nonneg [simp]: "0 \<le> sql_count p rows"
  by (simp add: sql_count_def)

lemma sql_count_zero: "sql_count p rows = 0 \<longleftrightarrow> (\<forall>r \<in> set rows. \<not> p r)"
  by (simp add: sql_count_def filter_empty_conv)

subsection \<open>Association lists\<close>

text \<open>
  A table or map whose order is observable: updating a present key keeps its place, a new
  key is appended.
\<close>

fun al_put :: "'k \<Rightarrow> 'v \<Rightarrow> ('k \<times> 'v) list \<Rightarrow> ('k \<times> 'v) list" where
  "al_put k v [] = [(k, v)]"
| "al_put k v ((k', v') # xs) = (if k = k' then (k, v) # xs else (k', v') # al_put k v xs)"

fun al_del :: "'k \<Rightarrow> ('k \<times> 'v) list \<Rightarrow> ('k \<times> 'v) list" where
  "al_del k [] = []"
| "al_del k ((k', v') # xs) = (if k = k' then al_del k xs else (k', v') # al_del k xs)"

lemma map_of_al_put [simp]: "map_of (al_put k v xs) = (map_of xs)(k \<mapsto> v)"
  by (induction xs) (auto simp: fun_eq_iff)

lemma map_of_al_del [simp]: "map_of (al_del k xs) = (map_of xs)(k := None)"
  by (induction xs) (auto simp: fun_eq_iff)

lemma dom_al_put: "fst ` set (al_put k v xs) = insert k (fst ` set xs)"
  by (induction k v xs rule: al_put.induct) auto

lemma distinct_al_put: "distinct (map fst xs) \<Longrightarrow> distinct (map fst (al_put k v xs))"
  by (induction k v xs rule: al_put.induct) (auto simp: dom_al_put)

lemma dom_al_del: "fst ` set (al_del k xs) = fst ` set xs - {k}"
  by (induction k xs rule: al_del.induct) auto

lemma distinct_al_del: "distinct (map fst xs) \<Longrightarrow> distinct (map fst (al_del k xs))"
  by (induction k xs rule: al_del.induct) (auto simp: dom_al_del)

subsection \<open>JSON values\<close>

text \<open>
  \<open>serde_json::Value\<close>. A number is an integer or a finite double (a rational); an object
  lists its members in iteration order.
\<close>

datatype json =
    JNull
  | JBool bool
  | JInt int
  | JFloat rat
  | JStr string
  | JArr "json list"
  | JObj "(string \<times> json) list"

fun j_get :: "json \<Rightarrow> string \<Rightarrow> json option" where
  "j_get (JObj ms) k = map_of ms k"
| "j_get _ _ = None"

fun as_str :: "json \<Rightarrow> string option" where
  "as_str (JStr s) = Some s"
| "as_str _ = None"

fun as_array :: "json \<Rightarrow> json list option" where
  "as_array (JArr xs) = Some xs"
| "as_array _ = None"

fun as_object :: "json \<Rightarrow> (string \<times> json) list option" where
  "as_object (JObj ms) = Some ms"
| "as_object _ = None"

fun as_bool :: "json \<Rightarrow> bool option" where
  "as_bool (JBool b) = Some b"
| "as_bool _ = None"

text \<open>\<open>Value::as_i64\<close>: an integer number that fits \<open>i64\<close>.\<close>

fun as_i64 :: "json \<Rightarrow> int option" where
  "as_i64 (JInt n) = (if i64_min \<le> n \<and> n \<le> i64_max then Some n else None)"
| "as_i64 _ = None"

definition str_field :: "json \<Rightarrow> string \<Rightarrow> string option" where
  "str_field v k = Option.bind (j_get v k) as_str"

definition opt_json :: "('a \<Rightarrow> json) \<Rightarrow> 'a option \<Rightarrow> json" where
  "opt_json f x = (case x of None \<Rightarrow> JNull | Some y \<Rightarrow> f y)"

subsection \<open>Runs of a step function\<close>

text \<open>
  A component is a state and a step per event. An invariant kept by every step holds after
  any sequence of events, and a measure no step lowers is no lower after it.
\<close>

locale invariant_run =
  fixes step :: "'s \<Rightarrow> 'e \<Rightarrow> 's"
    and inv :: "'s \<Rightarrow> bool"
  assumes inv_step: "inv s \<Longrightarrow> inv (step s e)"
begin

lemma run_inv: "inv s \<Longrightarrow> inv (foldl step s es)"
  by (induction es arbitrary: s) (simp_all add: inv_step)

lemma run_prefix_inv: "inv s \<Longrightarrow> inv (foldl step s (take n es))"
  by (rule run_inv)

end

locale monotone_run = invariant_run step inv
  for step :: "'s \<Rightarrow> 'e \<Rightarrow> 's" and inv :: "'s \<Rightarrow> bool" +
  fixes level :: "'s \<Rightarrow> 'm :: preorder"
  assumes level_step: "inv s \<Longrightarrow> level s \<le> level (step s e)"
begin

lemma run_mono: "inv s \<Longrightarrow> level s \<le> level (foldl step s es)"
proof (induction es arbitrary: s)
  case (Cons e es)
  have "level s \<le> level (step s e)"
    using Cons.prems by (rule level_step)
  also have "\<dots> \<le> level (foldl step (step s e) es)"
    using Cons.prems by (intro Cons.IH inv_step)
  finally show ?case by simp
qed simp

end

text \<open>
  A step that settles its event, which a later step of an event it does not clash with leaves settled: a batch without
  clashes settles all of its events.
\<close>

locale covering = invariant_run step inv
  for step :: "'s \<Rightarrow> 'e \<Rightarrow> 's" and inv :: "'s \<Rightarrow> bool" +
  fixes settled :: "'e \<Rightarrow> 's \<Rightarrow> bool" and clash :: "'e \<Rightarrow> 'e \<Rightarrow> bool"
  assumes settles: "inv s \<Longrightarrow> settled e (step s e)"
    and keeps: "inv s \<Longrightarrow> settled e s \<Longrightarrow> \<not> clash e f \<Longrightarrow> settled e (step s f)"
begin

lemma run_keeps:
  "inv s \<Longrightarrow> settled e s \<Longrightarrow> (\<And>f. f \<in> set es \<Longrightarrow> \<not> clash e f) \<Longrightarrow> settled e (foldl step s es)"
  by (induction es arbitrary: s) (simp_all add: inv_step keeps)

lemma run_settled:
  "inv s \<Longrightarrow> sorted_wrt (\<lambda>e f. \<not> clash e f) es \<Longrightarrow> e \<in> set es \<Longrightarrow> settled e (foldl step s es)"
proof (induction es arbitrary: s)
  case (Cons f es)
  show ?case
  proof (cases "e \<in> set es")
    case True
    then show ?thesis using Cons by (simp add: inv_step)
  next
    case False
    then have "e = f" using Cons.prems(3) by simp
    then show ?thesis
      using Cons.prems by (auto intro!: run_keeps settles inv_step)
  qed
qed simp

end

text \<open>Replay: when processing a settled event again changes nothing, a whole batch is idempotent.\<close>

locale settling = covering step inv settled clash
  for step :: "'s \<Rightarrow> 'e \<Rightarrow> 's" and inv :: "'s \<Rightarrow> bool" and settled :: "'e \<Rightarrow> 's \<Rightarrow> bool" and clash :: "'e \<Rightarrow> 'e \<Rightarrow> bool" +
  assumes stable: "inv s \<Longrightarrow> settled e s \<Longrightarrow> step s e = s"
begin

lemma run_stable: "inv s \<Longrightarrow> (\<And>e. e \<in> set es \<Longrightarrow> settled e s) \<Longrightarrow> foldl step s es = s"
  by (induction es) (simp_all add: stable)

lemma resume:
  assumes "inv s" and "sorted_wrt (\<lambda>e f. \<not> clash e f) es"
  shows "foldl step (foldl step s (take k es)) es = foldl step s es"
proof -
  have p: "sorted_wrt (\<lambda>e f. \<not> clash e f) (take k es)"
    using assms(2) by (metis append_take_drop_id sorted_wrt_append)
  have "foldl step (foldl step s (take k es)) (take k es) = foldl step s (take k es)"
    by (rule run_stable) (use assms(1) p run_inv run_settled in auto)
  then have "foldl step (foldl step s (take k es)) (take k es @ drop k es) = foldl step s (take k es @ drop k es)"
    by (simp only: foldl_append)
  then show ?thesis by simp
qed

lemma rerun:
  assumes "inv s" and "sorted_wrt (\<lambda>e f. \<not> clash e f) es"
  shows "foldl step (foldl step s es) es = foldl step s es"
  by (rule run_stable) (use assms run_inv run_settled in auto)

end

subsection \<open>Codecs\<close>

text \<open>
  A decoder takes a prefix of the input and returns the rest; the law says it reads back
  exactly what the encoder wrote, whatever follows.
\<close>

locale codec =
  fixes enc :: "'a \<Rightarrow> 'b list"
    and dec :: "'b list \<Rightarrow> ('a \<times> 'b list) option"
    and ok :: "'a \<Rightarrow> bool"
  assumes dec_enc: "ok x \<Longrightarrow> dec (enc x @ rest) = Some (x, rest)"
begin

fun dec_n :: "nat \<Rightarrow> 'b list \<Rightarrow> ('a list \<times> 'b list) option" where
  "dec_n 0 bs = Some ([], bs)"
| "dec_n (Suc n) bs = (case dec bs of None \<Rightarrow> None
     | Some (x, r) \<Rightarrow> (case dec_n n r of None \<Rightarrow> None | Some (xs, r') \<Rightarrow> Some (x # xs, r')))"

lemma dec_n_enc:
  "list_all ok xs \<Longrightarrow> dec_n (length xs) (concat (map enc xs) @ rest) = Some (xs, rest)"
  by (induction xs) (simp_all add: dec_enc)

lemma enc_inj: "ok x \<Longrightarrow> ok y \<Longrightarrow> enc x = enc y \<Longrightarrow> x = y"
  by (metis append_Nil2 dec_enc option.inject prod.inject)

end

end
