(* ===== verification/RustText.thy ===== *)
theory RustText
  imports Prelude
begin

text \<open>
  Rust's \<open>str\<close> operations that the program uses. A Rust string is its UTF-8 bytes, so a
  \<open>string\<close> here is a list of bytes and \<open>length\<close> is Rust's \<open>len\<close>. A byte is a continuation
  byte when its two high bits are 10; the characters of a string start at the other bytes.
\<close>

subsection \<open>Characters\<close>

definition is_cont :: "char \<Rightarrow> bool" where
  "is_cont c = (128 \<le> (of_char c :: nat) \<and> (of_char c :: nat) < 192)"

text \<open>\<open>str::is_char_boundary\<close>.\<close>

definition is_char_boundary :: "string \<Rightarrow> nat \<Rightarrow> bool" where
  "is_char_boundary s i = (i = 0 \<or> i = length s \<or> (i < length s \<and> \<not> is_cont (s ! i)))"

text \<open>\<open>s.chars().take(n).collect()\<close>: the first \<open>n\<close> characters, each with its continuation bytes.\<close>

function chars_take :: "nat \<Rightarrow> string \<Rightarrow> string" where
  "chars_take 0 s = []"
| "chars_take (Suc n) [] = []"
| "chars_take (Suc n) (c # cs) = c # takeWhile is_cont cs @ chars_take n (dropWhile is_cont cs)"
  by pat_completeness auto
termination
  by (relation "measure fst") auto

text \<open>\<open>s.chars().count()\<close>.\<close>

definition chars_count :: "string \<Rightarrow> nat" where
  "chars_count s = length (filter (\<lambda>c. \<not> is_cont c) s)"

lemma chars_take_prefix: "\<exists>r. s = chars_take n s @ r"
proof (induction n s rule: chars_take.induct)
  case (3 n c cs)
  then obtain r where "dropWhile is_cont cs = chars_take n (dropWhile is_cont cs) @ r" ..
  then have "c # cs = c # takeWhile is_cont cs @ chars_take n (dropWhile is_cont cs) @ r"
    by (metis takeWhile_dropWhile_id)
  then show ?case by auto
qed auto

lemma chars_take_length: "length (chars_take n s) \<le> length s"
  by (metis chars_take_prefix length_append le_add1)

lemma filter_takeWhile_cont: "filter (\<lambda>c. \<not> is_cont c) (takeWhile is_cont s) = []"
  by (simp add: filter_empty_conv) (meson set_takeWhileD)

lemma chars_take_count: "chars_count (chars_take n s) \<le> n"
proof (induction n s rule: chars_take.induct)
  case (3 n c cs)
  then show ?case by (simp add: chars_count_def filter_takeWhile_cont)
qed (simp_all add: chars_count_def)

text \<open>
  A string that starts with a character is unchanged when it has no more than \<open>n\<close> of them.
\<close>

lemma chars_take_all:
  "s = [] \<or> \<not> is_cont (hd s) \<Longrightarrow> chars_count s \<le> n \<Longrightarrow> chars_take n s = s"
proof (induction n s rule: chars_take.induct)
  case (1 s)
  then show ?case by (cases s) (auto simp: chars_count_def)
next
  case (3 n c cs)
  let ?d = "dropWhile is_cont cs"
  have "filter (\<lambda>c. \<not> is_cont c) cs = filter (\<lambda>c. \<not> is_cont c) ?d"
    by (metis append_Nil filter_append filter_takeWhile_cont takeWhile_dropWhile_id)
  with "3.prems" have "chars_count ?d \<le> n"
    by (simp add: chars_count_def)
  moreover have "?d = [] \<or> \<not> is_cont (hd ?d)"
    using hd_dropWhile by blast
  ultimately show ?case using "3.IH" by simp
qed simp

subsection \<open>UTF-8\<close>

text \<open>\<open>String::from_utf8\<close> accepts exactly the well-formed sequences.\<close>

definition cont_nat :: "nat \<Rightarrow> bool" where
  "cont_nat b = (128 \<le> b \<and> b < 192)"

fun utf8_valid :: "nat list \<Rightarrow> bool" where
  "utf8_valid [] = True"
| "utf8_valid (a # r) =
     (if a < 128 then utf8_valid r
      else case r of [] \<Rightarrow> False
      | b # r1 \<Rightarrow>
          if 194 \<le> a \<and> a \<le> 223 then cont_nat b \<and> utf8_valid r1
          else (case r1 of [] \<Rightarrow> False
          | c # r2 \<Rightarrow>
              if 224 \<le> a \<and> a \<le> 239 then cont_nat b \<and> (a = 224 \<longrightarrow> 160 \<le> b) \<and> (a = 237 \<longrightarrow> b < 160)
                 \<and> cont_nat c \<and> utf8_valid r2
              else (case r2 of [] \<Rightarrow> False
              | d # r3 \<Rightarrow> 240 \<le> a \<and> a \<le> 244 \<and> cont_nat b \<and> (a = 240 \<longrightarrow> 144 \<le> b) \<and> (a = 244 \<longrightarrow> b < 144)
                 \<and> cont_nat c \<and> cont_nat d \<and> utf8_valid r3)))"

subsection \<open>White space\<close>

text \<open>
  The number of bytes of the white-space character a string starts with, 0 if it starts with
  another character (Unicode's \<open>White_Space\<close> property, which \<open>str::trim\<close> uses).
\<close>

definition ws1 :: "nat \<Rightarrow> bool" where
  "ws1 a = ((9 \<le> a \<and> a \<le> 13) \<or> a = 32)"

definition ws2 :: "nat \<Rightarrow> nat \<Rightarrow> bool" where
  "ws2 a b = (a = 194 \<and> (b = 133 \<or> b = 160))"

definition ws3 :: "nat \<Rightarrow> nat \<Rightarrow> nat \<Rightarrow> bool" where
  "ws3 a b c = ((a = 225 \<and> b = 154 \<and> c = 128)
     \<or> (a = 226 \<and> b = 128 \<and> ((128 \<le> c \<and> c \<le> 138) \<or> c = 168 \<or> c = 169 \<or> c = 175))
     \<or> (a = 226 \<and> b = 129 \<and> c = 159)
     \<or> (a = 227 \<and> b = 128 \<and> c = 128))"

fun ws_len :: "nat list \<Rightarrow> nat" where
  "ws_len [] = 0"
| "ws_len [a] = (if ws1 a then 1 else 0)"
| "ws_len [a, b] = (if ws1 a then 1 else if ws2 a b then 2 else 0)"
| "ws_len (a # b # c # _) = (if ws1 a then 1 else if ws2 a b then 2 else if ws3 a b c then 3 else 0)"

text \<open>The same at the end of a string: its bytes in reverse.\<close>

fun ws_len_rev :: "nat list \<Rightarrow> nat" where
  "ws_len_rev [] = 0"
| "ws_len_rev [c] = (if ws1 c then 1 else 0)"
| "ws_len_rev [c, b] = (if ws1 c then 1 else if ws2 b c then 2 else 0)"
| "ws_len_rev (c # b # a # _) = (if ws1 c then 1 else if ws2 b c then 2 else if ws3 a b c then 3 else 0)"

definition bytes_of :: "string \<Rightarrow> nat list" where
  "bytes_of s = map of_char s"

lemma length_bytes_of [simp]: "length (bytes_of s) = length s"
  by (simp add: bytes_of_def)

lemma ws_len_le: "ws_len bs \<le> length bs"
  by (induction bs rule: ws_len.induct) auto

function trim_start :: "string \<Rightarrow> string" where
  "trim_start s = (let n = ws_len (bytes_of (take 3 s)) in if n = 0 then s else trim_start (drop n s))"
  by pat_completeness auto
termination
proof (relation "measure length")
  fix s :: string and n
  assume n: "n = ws_len (bytes_of (take 3 s))" and pos: "n \<noteq> 0"
  have "n \<le> length s"
    using ws_len_le[of "bytes_of (take 3 s)"] n by simp
  then show "(drop n s, s) \<in> measure length"
    using pos by (cases s) auto
qed simp

declare trim_start.simps [simp del]

function trim_rev :: "string \<Rightarrow> string" where
  "trim_rev s = (let n = ws_len_rev (bytes_of (take 3 s)) in if n = 0 then s else trim_rev (drop n s))"
  by pat_completeness auto
termination
proof (relation "measure length")
  fix s :: string and n
  assume n: "n = ws_len_rev (bytes_of (take 3 s))" and pos: "n \<noteq> 0"
  then have "s \<noteq> []"
    by (auto simp: bytes_of_def)
  then show "(drop n s, s) \<in> measure length"
    using pos by simp
qed simp

declare trim_rev.simps [simp del]

text \<open>\<open>str::trim\<close>.\<close>

definition trim :: "string \<Rightarrow> string" where
  "trim s = rev (trim_rev (rev (trim_start s)))"

lemma trim_start_suffix: "\<exists>p. s = p @ trim_start s"
proof (induction s rule: trim_start.induct)
  case (1 s)
  let ?n = "ws_len (bytes_of (take 3 s))"
  show ?case
  proof (cases "?n = 0")
    case True
    then show ?thesis by (simp add: trim_start.simps[of s])
  next
    case False
    then obtain p where "drop ?n s = p @ trim_start (drop ?n s)"
      using "1" by blast
    then have "s = (take ?n s @ p) @ trim_start (drop ?n s)"
      by (metis append.assoc append_take_drop_id)
    then show ?thesis
      using False by (metis trim_start.simps)
  qed
qed

subsection \<open>Searching and splitting\<close>

fun starts_with :: "string \<Rightarrow> string \<Rightarrow> bool" where
  "starts_with s [] = True"
| "starts_with [] (p # ps) = False"
| "starts_with (c # cs) (p # ps) = (c = p \<and> starts_with cs ps)"

definition strip_prefix :: "string \<Rightarrow> string \<Rightarrow> string option" where
  "strip_prefix s p = (if starts_with s p then Some (drop (length p) s) else None)"

definition ends_with :: "string \<Rightarrow> string \<Rightarrow> bool" where
  "ends_with s p = starts_with (rev s) (rev p)"

definition strip_suffix :: "string \<Rightarrow> string \<Rightarrow> string option" where
  "strip_suffix s p = (if ends_with s p then Some (take (length s - length p) s) else None)"

lemma starts_with_iff: "starts_with s p \<longleftrightarrow> (\<exists>r. s = p @ r)"
  by (induction s p rule: starts_with.induct) auto

lemma ends_with_iff: "ends_with s p \<longleftrightarrow> (\<exists>r. s = r @ p)"
  unfolding ends_with_def starts_with_iff
  by (metis rev_append rev_rev_ident)

text \<open>\<open>str::split_once\<close> on one character: before and after its first occurrence.\<close>

fun split_once :: "char \<Rightarrow> string \<Rightarrow> (string \<times> string) option" where
  "split_once d [] = None"
| "split_once d (c # cs) =
     (if c = d then Some ([], cs)
      else case split_once d cs of None \<Rightarrow> None | Some (a, b) \<Rightarrow> Some (c # a, b))"

lemma split_once_Some: "split_once d s = Some (a, b) \<Longrightarrow> s = a @ d # b \<and> d \<notin> set a"
  by (induction s arbitrary: a) (auto split: if_splits option.splits)

text \<open>\<open>str::contains\<close> on a string.\<close>

fun str_contains :: "string \<Rightarrow> string \<Rightarrow> bool" where
  "str_contains [] p = (p = [])"
| "str_contains (c # cs) p = (starts_with (c # cs) p \<or> str_contains cs p)"

text \<open>\<open>str::split_inclusive\<close> on newlines, and \<open>str::lines\<close>: the newline is dropped from each
  piece that has one, and so is a carriage return just before it.\<close>

fun split_inclusive :: "string \<Rightarrow> string list" where
  "split_inclusive [] = []"
| "split_inclusive (c # cs) =
     (if c = CHR 0x0A then [c] # split_inclusive cs
      else case split_inclusive cs of [] \<Rightarrow> [[c]] | l # ls \<Rightarrow> (c # l) # ls)"

definition drop_line_end :: "string \<Rightarrow> string" where
  "drop_line_end l = (case strip_suffix l [CHR 0x0A] of
     None \<Rightarrow> l
   | Some l' \<Rightarrow> unwrap_or (strip_suffix l' [CHR 0x0D]) l')"

definition lines :: "string \<Rightarrow> string list" where
  "lines s = map drop_line_end (split_inclusive s)"

lemma concat_split_inclusive: "concat (split_inclusive s) = s"
  by (induction s) (auto split: list.splits)

text \<open>\<open>[String]::join\<close>.\<close>

fun join :: "string \<Rightarrow> string list \<Rightarrow> string" where
  "join sep [] = []"
| "join sep [x] = x"
| "join sep (x # y # ys) = x @ sep @ join sep (y # ys)"

subsection \<open>Numbers\<close>

text \<open>\<open>format!("{n}")\<close> on integers, and truncating division.\<close>

fun nat_str :: "nat \<Rightarrow> string" where
  "nat_str n = (if n < 10 then [char_of (48 + n)] else nat_str (n div 10) @ [char_of (48 + n mod 10)])"

declare nat_str.simps [simp del]

definition int_str :: "int \<Rightarrow> string" where
  "int_str i = (if i < 0 then ''-'' @ nat_str (nat (- i)) else nat_str (nat i))"

definition trunc_div :: "int \<Rightarrow> int \<Rightarrow> int" where
  "trunc_div a b = sgn a * sgn b * (\<bar>a\<bar> div \<bar>b\<bar>)"

definition trunc_rem :: "int \<Rightarrow> int \<Rightarrow> int" where
  "trunc_rem a b = a - b * trunc_div a b"

lemma nat_str_nonempty: "nat_str n \<noteq> []"
  by (subst nat_str.simps) simp

lemma nat_str_digits: "c \<in> set (nat_str n) \<Longrightarrow> 48 \<le> (of_char c :: nat) \<and> (of_char c :: nat) \<le> 57"
proof (induction n rule: nat_str.induct)
  case (1 n)
  show ?case
  proof (cases "n < 10")
    case True
    then show ?thesis using 1(2) by (subst (asm) nat_str.simps) simp
  next
    case False
    then have "c \<in> set (nat_str (n div 10)) \<or> c = char_of (48 + n mod 10)" using 1(2) by (subst (asm) nat_str.simps) auto
    then show ?thesis using 1(1)[OF False] by auto
  qed
qed

definition digits_value :: "string \<Rightarrow> nat" where
  "digits_value = foldl (\<lambda>v c. 10 * v + (of_char c - 48)) 0"

lemma digits_value_nat_str: "digits_value (nat_str n) = n"
proof (induction n rule: nat_str.induct)
  case (1 n)
  then show ?case by (subst nat_str.simps) (auto simp: digits_value_def)
qed

lemma nat_str_inj: "nat_str m = nat_str n \<Longrightarrow> m = n"
  using digits_value_nat_str by metis

end
