(* ===== verification/CaptureHealth.thy ===== *)
theory CaptureHealth
  imports RustText "HOL-Library.Monad_Syntax"
begin

text \<open>
  Capture-health semantics shared by the watchdog and \<open>hippo doctor\<close>: the liveness signal of a
  source and the single retry on a busy database (\<open>hippo-daemon/src/lib.rs\<close>), the idle test for
  the shell (\<open>shell_health.rs\<close>), and the browser extension's connectivity with the Firefox
  profile lookup behind it (\<open>browser_health.rs\<close>).
\<close>

subsection \<open>lib.rs\<close>

text \<open>Only the three probed sources count a successful probe as a sign of life.\<close>

definition latest_capture_signal ::
  "string \<Rightarrow> int option \<Rightarrow> int option \<Rightarrow> int option \<Rightarrow> int option" where
  "latest_capture_signal source last_event_ts probe_last_run_ts probe_ok =
     (if (source = ''shell'' \<or> source = ''claude-tool'' \<or> source = ''browser'') \<and> probe_ok = Some 1
      then opt_max last_event_ts probe_last_run_ts
      else last_event_ts)"

lemma latest_capture_signal_ge_event:
  "latest_capture_signal src ev pr ok = Some m \<Longrightarrow> ev = Some e \<Longrightarrow> e \<le> m"
  by (auto simp: latest_capture_signal_def dest: opt_max_ge(1) split: if_splits)

lemma latest_capture_signal_from:
  "latest_capture_signal src ev pr ok = Some m \<Longrightarrow> ev = Some m \<or> (pr = Some m \<and> ok = Some 1)"
  by (auto simp: latest_capture_signal_def dest: opt_max_cases split: if_splits)

text \<open>The part of \<open>rusqlite::Error\<close> the program looks at.\<close>

datatype sqlite_error = DatabaseBusy | SqliteError string

fun is_sqlite_busy :: "sqlite_error \<Rightarrow> bool" where
  "is_sqlite_busy DatabaseBusy = True"
| "is_sqlite_busy (SqliteError _) = False"

definition is_missing_source_health_table_error :: "sqlite_error \<Rightarrow> bool" where
  "is_missing_source_health_table_error e = (case e of
     DatabaseBusy \<Rightarrow> False
   | SqliteError msg \<Rightarrow> str_contains msg ''no such table: source_health'')"

text \<open>
  \<open>f\<close> is the \<open>FnMut\<close> closure: each call transforms the outside state. A busy first attempt is
  retried exactly once, any other error is returned at once.
\<close>

definition with_busy_retry ::
  "('s \<Rightarrow> (sqlite_error + 'a) \<times> 's) \<Rightarrow> 's \<Rightarrow> (sqlite_error + 'a) \<times> 's" where
  "with_busy_retry f s = (case f s of
     (Inr v, s') \<Rightarrow> (Inr v, s')
   | (Inl e, s') \<Rightarrow> if is_sqlite_busy e then f s' else (Inl e, s'))"

lemma with_busy_retry_first: "f s = (Inr v, s') \<Longrightarrow> with_busy_retry f s = (Inr v, s')"
  by (simp add: with_busy_retry_def)

lemma with_busy_retry_error: "f s = (Inl (SqliteError m), s') \<Longrightarrow>
    with_busy_retry f s = (Inl (SqliteError m), s')"
  by (simp add: with_busy_retry_def)

lemma with_busy_retry_busy: "f s = (Inl DatabaseBusy, s') \<Longrightarrow> with_busy_retry f s = f s'"
  by (simp add: with_busy_retry_def)

subsection \<open>shell\_health.rs\<close>

definition SHELL_IDLE_WINDOW_MS :: int where
  [hippo_defs]: "SHELL_IDLE_WINDOW_MS = 600000"

definition SHELL_IDLE_SUPPRESSION_BACKSTOP_MS :: int where
  [hippo_defs]: "SHELL_IDLE_SUPPRESSION_BACKSTOP_MS = 86400000"

text \<open>The columns of the \<open>events\<close> table that the health queries read.\<close>

record health_event =
  he_timestamp :: int
  he_source_kind :: string
  he_probe_tag :: "string option"

definition shell_real_activity_recent :: "health_event list \<Rightarrow> int \<Rightarrow> int \<Rightarrow> bool" where
  "shell_real_activity_recent events now_ms window_ms =
     (case sql_max (map he_timestamp
             (filter (\<lambda>e. he_source_kind e = ''shell'' \<and> he_probe_tag e = None) events)) of
        None \<Rightarrow> False
      | Some ts \<Rightarrow> now_ms - ts \<le> window_ms)"

text \<open>The query's maximum is the right test: it is recent iff some real shell event is.\<close>

lemma shell_real_activity_recent_iff:
  "shell_real_activity_recent events now w \<longleftrightarrow>
     (\<exists>e \<in> set events. he_source_kind e = ''shell'' \<and> he_probe_tag e = None \<and> now - he_timestamp e \<le> w)"
  (is "?L \<longleftrightarrow> ?R")
proof -
  let ?real = "filter (\<lambda>e. he_source_kind e = ''shell'' \<and> he_probe_tag e = None) events"
  show ?thesis
  proof (cases "sql_max (map he_timestamp ?real)")
    case None
    then have "?real = []" by simp
    with None show ?thesis
      unfolding shell_real_activity_recent_def by (auto simp: filter_empty_conv)
  next
    case (Some m)
    note mx = sql_max_Some[OF Some]
    from mx obtain e where "e \<in> set ?real" "he_timestamp e = m" by auto
    moreover have "he_timestamp e' \<le> m" if "e' \<in> set ?real" for e'
      using mx that by auto
    ultimately show ?thesis
      unfolding shell_real_activity_recent_def using Some by fastforce
  qed
qed

subsection \<open>browser\_health.rs: connectivity\<close>

definition BROWSER_HEARTBEAT_STALE_MS :: int where
  [hippo_defs]: "BROWSER_HEARTBEAT_STALE_MS = 300000 + 120000"

definition BROWSER_EVENT_WARN_SECS :: int where
  [hippo_defs]: "BROWSER_EVENT_WARN_SECS = 420"

datatype BrowserExtensionConnectivity =
  FirefoxNotRunning | Connected | Disconnected | NeverConnected

definition browser_heartbeat_fresh :: "int \<Rightarrow> int \<Rightarrow> bool" where
  "browser_heartbeat_fresh heartbeat_ts_ms now_ms =
     (now_ms - heartbeat_ts_ms \<le> BROWSER_HEARTBEAT_STALE_MS)"

definition browser_extension_connectivity ::
  "bool \<Rightarrow> int option \<Rightarrow> int \<Rightarrow> BrowserExtensionConnectivity" where
  "browser_extension_connectivity firefox_running heartbeat_age_secs event_age_secs =
     (if \<not> firefox_running then FirefoxNotRunning
      else if event_age_secs \<le> BROWSER_EVENT_WARN_SECS then Connected
      else case heartbeat_age_secs of
        None \<Rightarrow> NeverConnected
      | Some age \<Rightarrow> if age * 1000 \<le> BROWSER_HEARTBEAT_STALE_MS then Connected else Disconnected)"

fun browser_capture_state_label ::
  "BrowserExtensionConnectivity \<Rightarrow> int \<Rightarrow> int option \<Rightarrow> string" where
  "browser_capture_state_label FirefoxNotRunning _ _ = ''Firefox not running''"
| "browser_capture_state_label NeverConnected _ _ = ''extension never heartbeated''"
| "browser_capture_state_label Disconnected _ _ = ''extension disconnected from daemon''"
| "browser_capture_state_label Connected event_age_secs probe_ok =
     (if event_age_secs \<le> BROWSER_EVENT_WARN_SECS then ''events flowing normally''
      else if probe_ok = Some 0 then ''extension connected; synthetic probe failing''
      else if probe_ok = Some 1 then ''extension connected; probe OK, user events idle''
      else ''extension connected; event cadence stale'')"

lemma connectivity_Connected_iff:
  "browser_extension_connectivity ff hb ev = Connected \<longleftrightarrow>
     ff \<and> (ev \<le> 420 \<or> (\<exists>age. hb = Some age \<and> age \<le> 420))"
  by (auto simp: browser_extension_connectivity_def hippo_defs split: option.splits)

text \<open>
  The watchdog's test on milliseconds and the doctor's on whole seconds agree: a heartbeat that
  is fresh in milliseconds is connected when its age is rounded down to seconds.
\<close>

lemma fresh_heartbeat_connected:
  assumes "browser_heartbeat_fresh hb now" and "ff"
  shows "browser_extension_connectivity ff (Some ((now - hb) div 1000)) ev = Connected"
proof -
  have "now - hb \<le> 420000"
    using assms(1) by (simp add: browser_heartbeat_fresh_def hippo_defs)
  then have "(now - hb) div 1000 \<le> 420"
    by linarith
  then show ?thesis
    using assms(2) by (simp add: connectivity_Connected_iff)
qed

subsection \<open>browser\_health.rs: the Firefox profile\<close>

record FirefoxProfileEntry =
  fp_name :: "string option"
  fp_path :: "string option"
  fp_is_relative :: bool

text \<open>One line of \<open>profiles.ini\<close>: the loop body over the finished profiles and the open section.\<close>

definition parse_profile_line ::
  "FirefoxProfileEntry list \<times> FirefoxProfileEntry option \<Rightarrow> string \<Rightarrow>
   FirefoxProfileEntry list \<times> FirefoxProfileEntry option" where
  "parse_profile_line st line0 = (case st of (profiles, current) \<Rightarrow>
     (let line = trim line0 in
      case (do { s \<leftarrow> strip_prefix line ''[''; strip_suffix s '']'' }) of
        Some section \<Rightarrow>
          ((case current of
              Some e \<Rightarrow> if fp_path e \<noteq> None then profiles @ [e] else profiles
            | None \<Rightarrow> profiles),
           (if starts_with section ''Profile''
            then Some \<lparr>fp_name = None, fp_path = None, fp_is_relative = True\<rparr> else None))
      | None \<Rightarrow>
          (case current of
             None \<Rightarrow> (profiles, current)
           | Some e \<Rightarrow>
               (case split_once (CHR ''='') line of
                  None \<Rightarrow> (profiles, current)
                | Some (key, val) \<Rightarrow>
                    (profiles, Some
                      (if trim key = ''Name'' then e\<lparr>fp_name := Some (trim val)\<rparr>
                       else if trim key = ''Path'' then e\<lparr>fp_path := Some (trim val)\<rparr>
                       else if trim key = ''IsRelative'' then e\<lparr>fp_is_relative := (trim val \<noteq> ''0'')\<rparr>
                       else e))))))"

definition parse_firefox_profiles_ini :: "string \<Rightarrow> FirefoxProfileEntry list" where
  "parse_firefox_profiles_ini content =
     (case foldl parse_profile_line ([], None) (lines content) of
        (profiles, current) \<Rightarrow>
          (case current of
             Some e \<Rightarrow> if fp_path e \<noteq> None then profiles @ [e] else profiles
           | None \<Rightarrow> profiles))"

text \<open>\<open>Path::join\<close>: an absolute second path replaces the first.\<close>

definition path_join :: "string \<Rightarrow> string \<Rightarrow> string" where
  "path_join base p =
     (if starts_with p ''/'' then p
      else if base = [] \<or> last base = CHR ''/'' then base @ p
      else base @ ''/'' @ p)"

definition resolve_firefox_profile_path :: "string \<Rightarrow> FirefoxProfileEntry \<Rightarrow> string" where
  "resolve_firefox_profile_path firefox_root entry =
     (let path = unwrap_or (fp_path entry) [] in
      if fp_is_relative entry then path_join firefox_root path else path)"

text \<open>\<open>read\<close> is the file system: the text of a file, or \<open>None\<close> when it cannot be read.\<close>

definition firefox_dev_edition_profile_dir :: "(string \<Rightarrow> string option) \<Rightarrow> string \<Rightarrow> string option" where
  "firefox_dev_edition_profile_dir read home =
     (let firefox_root = path_join home ''Library/Application Support/Firefox'' in do {
        content \<leftarrow> read (path_join firefox_root ''profiles.ini'');
        (let profiles = parse_firefox_profiles_ini content in
         case find (\<lambda>e. fp_name e = Some ''dev-edition-default'') profiles of
           Some e \<Rightarrow> Some (resolve_firefox_profile_path firefox_root e)
         | None \<Rightarrow>
             (case find (\<lambda>e. case fp_path e of None \<Rightarrow> False | Some p \<Rightarrow> str_contains p ''dev-edition'') profiles of
                Some e \<Rightarrow> Some (resolve_firefox_profile_path firefox_root e)
              | None \<Rightarrow> None)) })"

definition firefox_unsigned_install_allowed :: "(string \<Rightarrow> string option) \<Rightarrow> string \<Rightarrow> bool" where
  "firefox_unsigned_install_allowed read prefs_js = (case read prefs_js of
     None \<Rightarrow> False
   | Some content \<Rightarrow>
       list_ex (\<lambda>line0. case strip_prefix (trim line0)
                  ''user_pref(\"xpinstall.signatures.required\",'' of
                None \<Rightarrow> False
              | Some rest \<Rightarrow> starts_with (trim rest) ''false)'') (lines content))"

lemma parse_profile_line_paths:
  assumes "\<forall>e \<in> set (fst st). fp_path e \<noteq> None"
  shows "\<forall>e \<in> set (fst (parse_profile_line st l)). fp_path e \<noteq> None"
proof (cases st)
  case (Pair ps cur)
  then show ?thesis
    using assms by (auto simp: parse_profile_line_def Let_def split: option.splits if_splits prod.splits)
qed

text \<open>Sections without a \<open>Path\<close> never become profiles: parsing is a run of lines.\<close>

interpretation ini: invariant_run parse_profile_line "\<lambda>st. \<forall>e \<in> set (fst st). fp_path e \<noteq> None"
  by unfold_locales (rule parse_profile_line_paths)

lemma parse_firefox_profiles_ini_paths:
  "e \<in> set (parse_firefox_profiles_ini content) \<Longrightarrow> fp_path e \<noteq> None"
proof -
  assume e: "e \<in> set (parse_firefox_profiles_ini content)"
  obtain ps cur where f: "foldl parse_profile_line ([], None) (lines content) = (ps, cur)"
    by fastforce
  have "\<forall>e \<in> set ps. fp_path e \<noteq> None"
    using ini.run_inv[of "([], None)" "lines content"] f by simp
  with e f show ?thesis
    by (auto simp: parse_firefox_profiles_ini_def split: option.splits if_splits)
qed

end
