(* ===== verification/EnrichmentState.thy ===== *)
theory EnrichmentState
  imports Prelude
begin

text \<open>
  The operator's enrichment pause (\<open>hippo-core/src/enrichment_state.rs\<close>): reading the state file,
  the fail-closed reading of a damaged file, and the atomic idempotent write. \<open>serde_json\<close> is
  the pair of parameters \<open>parse\<close> and \<open>print\<close>; the file system is what a read returns and which of
  the three writing steps fails.
\<close>

record EnrichmentState =
  es_paused :: bool
  es_changed_at_ms :: int

datatype StateRead = Missing | Valid EnrichmentState | Invalid string

fun is_paused :: "StateRead \<Rightarrow> bool" where
  "is_paused Missing = False"
| "is_paused (Valid s) = es_paused s"
| "is_paused (Invalid _) = True"

fun changed_at_ms :: "StateRead \<Rightarrow> int option" where
  "changed_at_ms (Valid s) = Some (es_changed_at_ms s)"
| "changed_at_ms _ = None"

text \<open>What \<open>read_to_string\<close> finds at the state path.\<close>

datatype state_file = FileAbsent | FileText string | FileUnreadable string

fun read_state :: "(string \<Rightarrow> string + EnrichmentState) \<Rightarrow> state_file \<Rightarrow> StateRead" where
  "read_state parse (FileText text) =
     (case parse text of Inr s \<Rightarrow> Valid s | Inl e \<Rightarrow> Invalid e)"
| "read_state parse FileAbsent = Missing"
| "read_state parse (FileUnreadable e) = Invalid e"

text \<open>The errors of creating the directory, writing the temporary file and renaming it.\<close>

record write_faults =
  wf_mkdir :: "string option"
  wf_tmp :: "string option"
  wf_rename :: "string option"

definition write_state ::
  "(string \<Rightarrow> string + EnrichmentState) \<Rightarrow> (EnrichmentState \<Rightarrow> string) \<Rightarrow> write_faults \<Rightarrow>
   state_file \<Rightarrow> bool \<Rightarrow> int \<Rightarrow> (string + EnrichmentState) \<times> state_file" where
  "write_state parse print io f paused now_ms =
     (let fresh =
        (let state = \<lparr>es_paused = paused, es_changed_at_ms = now_ms\<rparr> in
         case wf_mkdir io of Some e \<Rightarrow> (Inl e, f) | None \<Rightarrow>
        (case wf_tmp io of Some e \<Rightarrow> (Inl e, f) | None \<Rightarrow>
        (case wf_rename io of Some e \<Rightarrow> (Inl e, f) | None \<Rightarrow>
           (Inr state, FileText (print state)))))
      in case read_state parse f of
           Valid s \<Rightarrow> if es_paused s = paused then (Inr s, f) else fresh
         | _ \<Rightarrow> fresh)"

lemma write_state_error_keeps_file:
  "write_state parse print io f p now = (Inl e, f') \<Longrightarrow> f' = f"
  by (auto simp: write_state_def Let_def split: StateRead.splits option.splits if_splits)

lemma write_state_reads_back:
  assumes "\<And>s. parse (print s) = Inr s"
    and "write_state parse print io f p now = (Inr s, f')"
  shows "read_state parse f' = Valid s \<and> es_paused s = p"
  using assms(2)
  by (auto simp: write_state_def Let_def assms(1) split: StateRead.splits option.splits if_splits)

text \<open>A repeated request keeps the first transition's time.\<close>

lemma write_state_idempotent:
  assumes rt: "\<And>s. parse (print s) = Inr s"
    and w: "write_state parse print io f p now = (Inr s, f')"
  shows "write_state parse print io' f' p now' = (Inr s, f')"
  using write_state_reads_back[OF rt w] by (simp add: write_state_def)

end
