(* ===== verification/BackupTypes.thy ===== *)
theory BackupTypes
  imports RustText
begin

text \<open>
  The data of the backup subsystem (\<open>hippo-daemon/src/backup/\<close>): artifact kinds, the metadata and
  manifest entry of an artifact, \<open>status.json\<close>, the artifact id, and the check that a manifest
  entry names a plain file. \<open>chrono\<close>'s calendar is a parameter wherever a time is formatted.
\<close>

subsection \<open>artifact.rs, manifest.rs, status.rs: the records\<close>

datatype ArtifactKind = Full | Delta | Checkpoint

fun kind_as_str :: "ArtifactKind \<Rightarrow> string" where
  "kind_as_str Full = ''full''"
| "kind_as_str Delta = ''delta''"
| "kind_as_str Checkpoint = ''checkpoint''"

record ArtifactMeta =
  am_id :: string
  am_kind :: ArtifactKind
  am_label :: "string option"
  am_created_ms :: int
  am_base_id :: "string option"
  am_hippo_version :: string
  am_schema_version :: int
  am_db_sha256 :: string
  am_row_counts :: "(string \<times> int) list"

record ManifestEntry =
  me_meta :: ArtifactMeta
  me_file :: string
  me_ciphertext_sha256 :: string
  me_verified :: bool
  me_shipped_ms :: "int option"
  me_uploaded :: bool

type_synonym Manifest = "ManifestEntry list"

abbreviation me_id :: "ManifestEntry \<Rightarrow> string" where
  "me_id e \<equiv> am_id (me_meta e)"
abbreviation me_kind :: "ManifestEntry \<Rightarrow> ArtifactKind" where
  "me_kind e \<equiv> am_kind (me_meta e)"
abbreviation me_created_ms :: "ManifestEntry \<Rightarrow> int" where
  "me_created_ms e \<equiv> am_created_ms (me_meta e)"

record PendingUpload =
  pu_id :: string
  pu_shipped_ms :: int

record BackupStatus =
  bs_last_success_ms :: "int option"
  bs_last_scheduled_ms :: "int option"
  bs_last_kind :: "ArtifactKind option"
  bs_last_error :: "string option"
  bs_last_verify_ms :: "int option"
  bs_pending_upload :: "PendingUpload list"
  bs_outbox_count :: int

record BackupConfig =
  bc_destination :: string
  bc_recipient :: string

definition is_configured :: "BackupConfig \<Rightarrow> bool" where
  "is_configured c = (bc_destination c \<noteq> [] \<and> bc_recipient c \<noteq> [])"

subsection \<open>artifact.rs: the artifact id\<close>

definition is_digit :: "char \<Rightarrow> bool" where
  "is_digit c = (48 \<le> (of_char c :: nat) \<and> (of_char c :: nat) \<le> 57)"
definition is_upper :: "char \<Rightarrow> bool" where
  "is_upper c = (65 \<le> (of_char c :: nat) \<and> (of_char c :: nat) \<le> 90)"
definition is_lower :: "char \<Rightarrow> bool" where
  "is_lower c = (97 \<le> (of_char c :: nat) \<and> (of_char c :: nat) \<le> 122)"
definition is_ascii_alphanumeric :: "char \<Rightarrow> bool" where
  "is_ascii_alphanumeric c = (is_digit c \<or> is_upper c \<or> is_lower c)"
definition to_ascii_lowercase :: "char \<Rightarrow> char" where
  "to_ascii_lowercase c = (if is_upper c then char_of ((of_char c :: nat) + 32) else c)"

text \<open>
  The slug loop. A character outside ASCII becomes one dash; its UTF-8 bytes become one dash too,
  because a dash after a dash is skipped.
\<close>

fun slug_step :: "string \<Rightarrow> char \<Rightarrow> string" where
  "slug_step slug c0 =
     (let c1 = to_ascii_lowercase c0;
          c = (if is_ascii_alphanumeric c1 then c1 else CHR ''-'')
      in if c = CHR ''-'' \<and> (slug = [] \<or> last slug = CHR ''-'') then slug else slug @ [c])"

definition slug_of :: "string \<Rightarrow> string" where
  "slug_of label =
     rev (dropWhile (\<lambda>c. c = CHR ''-'') (rev (take 40 (foldl slug_step [] label))))"

text \<open>\<open>ts\<close> is \<open>chrono\<close>'s rendering of the creation time as \<open>YYYYMMDDTHHMMSSZ\<close>.\<close>

definition artifact_id :: "(int \<Rightarrow> string) \<Rightarrow> ArtifactKind \<Rightarrow> int \<Rightarrow> string option \<Rightarrow> string" where
  "artifact_id ts kind created_ms label =
     (let id = ''hippo-'' @ kind_as_str kind @ ''-'' @ ts created_ms in
      case label of
        None \<Rightarrow> id
      | Some l \<Rightarrow> (let slug = slug_of l in if slug = [] then id else id @ ''-'' @ slug))"

subsection \<open>run.rs: valid entries and pending uploads\<close>

definition ARTIFACT_EXT :: string where
  "ARTIFACT_EXT = ''.tar.zst.age''"
definition ENTRY_EXT :: string where
  "ENTRY_EXT = ''.entry.json''"

definition id_char :: "char \<Rightarrow> bool" where
  "id_char b = (is_ascii_alphanumeric b \<or> b = CHR ''-'')"

definition valid_entry :: "ManifestEntry \<Rightarrow> bool" where
  "valid_entry e = (let id = me_id e in
     starts_with id ''hippo-'' \<and> list_all id_char id \<and> me_file e = id @ ARTIFACT_EXT)"

definition pending_upload :: "Manifest \<Rightarrow> PendingUpload list" where
  "pending_upload m = map (\<lambda>e. \<lparr>pu_id = me_id e, pu_shipped_ms = unwrap_or (me_shipped_ms e) 0\<rparr>)
     (filter (\<lambda>e. \<not> me_uploaded e) m)"

lemma id_char_dash [simp]: "id_char (CHR ''-'')"
  by (simp add: id_char_def)

lemma id_chars_literal:
  "list_all id_char ''hippo-'' \<and> list_all id_char (kind_as_str k)"
  by (cases k) (simp_all add: id_char_def is_ascii_alphanumeric_def is_digit_def is_upper_def is_lower_def)

lemma slug_step_chars: "list_all id_char slug \<Longrightarrow> list_all id_char (slug_step slug c)"
  by (simp add: Let_def id_char_def)

interpretation slug: invariant_run slug_step "list_all id_char"
  by unfold_locales (rule slug_step_chars)

lemma slug_of_chars: "list_all id_char (slug_of l)"
proof -
  have "list_all id_char (foldl slug_step [] l)"
    by (rule slug.run_inv) simp
  then show ?thesis
    by (auto simp: slug_of_def list_all_iff dest!: set_dropWhileD in_set_takeD)
qed

lemma slug_of_length: "length (slug_of l) \<le> 40"
proof -
  have "length (dropWhile (\<lambda>c. c = CHR ''-'') (rev (take 40 (foldl slug_step [] l)))) \<le> 40"
    by (metis length_dropWhile_le length_rev length_take min.cobounded2 order_trans)
  then show ?thesis by (simp add: slug_of_def)
qed

lemma artifact_id_chars:
  "list_all id_char (ts ms) \<Longrightarrow> list_all id_char (artifact_id ts k ms l)"
  using id_chars_literal[of k] slug_of_chars
  by (auto simp: artifact_id_def Let_def split: option.splits)

lemma artifact_id_prefix: "starts_with (artifact_id ts k ms l) ''hippo-''"
  by (auto simp: artifact_id_def Let_def starts_with_iff split: option.splits)

text \<open>An id contains no path separator and no dot, so joined to a directory it stays inside it.\<close>

lemma id_char_not_path: "id_char c \<Longrightarrow> c \<noteq> CHR ''/'' \<and> c \<noteq> CHR ''.''"
  by (auto simp: id_char_def is_ascii_alphanumeric_def is_digit_def is_upper_def is_lower_def)

end
