(* ===== verification/Watchdog.thy ===== *)
theory Watchdog
  imports CaptureHealth EnrichmentState BackupTypes
begin

text \<open>
  The invariant checks of the capture watchdog (\<open>hippo-daemon/src/watchdog.rs\<close>): one function
  per invariant over the rows of \<open>source_health\<close> and the tables it queries, composed by
  \<open>check_invariants\<close> the way the source composes them, and the two suppressions applied to its
  result. The environment a check reads (the running processes, the pause lockfile, the
  clock) is an argument.
\<close>

subsection \<open>Rows and violations\<close>

record SourceHealthRow =
  sh_source :: string
  sh_last_event_ts :: "int option"
  sh_last_success_ts :: "int option"
  sh_last_error_ts :: "int option"
  sh_last_error_msg :: "string option"
  sh_consecutive_failures :: int
  sh_events_last_1h :: int
  sh_events_last_24h :: int
  sh_expected_min_per_hour :: "int option"
  sh_probe_ok :: "int option"
  sh_probe_lag_ms :: "int option"
  sh_probe_last_run_ts :: "int option"
  sh_last_heartbeat_ts :: "int option"
  sh_updated_at :: int

record InvariantViolation =
  iv_invariant_id :: string
  iv_source :: string
  iv_since_ms :: int
  iv_details :: json

type_synonym by_source = "string \<Rightarrow> SourceHealthRow option"

text \<open>Collecting the rows into a map by source: a later row of the same source wins.\<close>

definition index_rows :: "SourceHealthRow list \<Rightarrow> by_source" where
  "index_rows rows = map_of (rev (map (\<lambda>r. (sh_source r, r)) rows))"

lemma index_rows_Some: "index_rows rows s = Some r \<Longrightarrow> r \<in> set rows \<and> sh_source r = s"
  unfolding index_rows_def by (drule map_of_SomeD) auto

lemma index_rows_distinct:
  assumes "distinct (map sh_source rows)" and "r \<in> set rows"
  shows "index_rows rows (sh_source r) = Some r"
proof -
  have "distinct (map fst (rev (map (\<lambda>r. (sh_source r, r)) rows)))"
    using assms(1) by (simp add: rev_map[symmetric] comp_def)
  then show ?thesis
    unfolding index_rows_def using assms(2) by (intro map_of_is_SomeI) auto
qed

definition AUTO_RESOLVE_CLEAN_TICKS :: int where
  [hippo_defs]: "AUTO_RESOLVE_CLEAN_TICKS = 2"
definition PROBE_INTERVAL_MS :: int where
  [hippo_defs]: "PROBE_INTERVAL_MS = 300000"
definition LIVENESS_GRACE_MS :: int where
  [hippo_defs]: "LIVENESS_GRACE_MS = 120000"
definition SHELL_LIVENESS_STALE_MS :: int where
  [hippo_defs]: "SHELL_LIVENESS_STALE_MS = PROBE_INTERVAL_MS + LIVENESS_GRACE_MS"
definition BROWSER_ROUNDTRIP_STALE_MS :: int where
  [hippo_defs]: "BROWSER_ROUNDTRIP_STALE_MS = PROBE_INTERVAL_MS + LIVENESS_GRACE_MS"
definition AUTO_MEMORY_WATCHER_STALE_MS :: int where
  [hippo_defs]: "AUTO_MEMORY_WATCHER_STALE_MS = 15 * 60 * 1000"
definition AUTO_MEMORY_PROJECTION_STALE_MS :: int where
  [hippo_defs]: "AUTO_MEMORY_PROJECTION_STALE_MS = 30 * 60 * 1000"
definition AUTO_MEMORY_PROBE_REPOSITORY :: string where
  "AUTO_MEMORY_PROBE_REPOSITORY = ''hippo/__hippo_probe__''"
definition PROBE_STALE_MS :: int where
  [hippo_defs]: "PROBE_STALE_MS = 900000"

subsection \<open>The bench pause lockfile\<close>

text \<open>Times in nanoseconds; \<open>modified\<close> is the file's modification time, if it has one.\<close>

definition PAUSE_LOCKFILE_MAX_AGE :: int where
  "PAUSE_LOCKFILE_MAX_AGE = 30 * 60 * 1000000000"

definition is_pause_lockfile_active :: "int option \<Rightarrow> int \<Rightarrow> bool" where
  "is_pause_lockfile_active modified now = (case modified of
     None \<Rightarrow> False
   | Some m \<Rightarrow> if m \<le> now then now - m < PAUSE_LOCKFILE_MAX_AGE else True)"

definition bench_pause_window_active :: "string option \<Rightarrow> (string \<Rightarrow> int option) \<Rightarrow> int \<Rightarrow> bool" where
  "bench_pause_window_active home_dir modified now = (case home_dir of
     None \<Rightarrow> False
   | Some h \<Rightarrow> is_pause_lockfile_active
       (modified (path_join h ''.local/share/hippo-bench/pause.lock'')) now)"

subsection \<open>Liveness of the shell and the browser\<close>

definition check_i1_shell_liveness :: "by_source \<Rightarrow> int \<Rightarrow> bool \<Rightarrow> InvariantViolation option" where
  "check_i1_shell_liveness by_source now_ms recent = do {
     row \<leftarrow> by_source ''shell'';
     last_event \<leftarrow> latest_capture_signal ''shell'' (sh_last_event_ts row)
                     (sh_probe_last_run_ts row) (sh_probe_ok row);
     (let age_ms = now_ms - last_event in
      if sh_probe_ok row \<noteq> Some 1 then None
      else if \<not> recent \<and> age_ms < SHELL_IDLE_SUPPRESSION_BACKSTOP_MS then None
      else if age_ms > SHELL_LIVENESS_STALE_MS then
        Some \<lparr>iv_invariant_id = ''I-1'', iv_source = ''shell'', iv_since_ms = age_ms,
          iv_details = JObj [(''consecutive_failures'', JInt (sh_consecutive_failures row)),
                             (''events_last_1h'', JInt (sh_events_last_1h row))]\<rparr>
      else None) }"

definition check_i4_browser_roundtrip :: "by_source \<Rightarrow> int \<Rightarrow> bool \<Rightarrow> InvariantViolation option" where
  "check_i4_browser_roundtrip by_source now_ms firefox_running = do {
     row \<leftarrow> by_source ''browser'';
     (if \<not> firefox_running then None else do {
        last_event \<leftarrow> latest_capture_signal ''browser'' (sh_last_event_ts row)
                        (sh_probe_last_run_ts row) (sh_probe_ok row);
        heartbeat \<leftarrow> sh_last_heartbeat_ts row;
        (if \<not> browser_heartbeat_fresh heartbeat now_ms then None
         else let age_ms = now_ms - last_event in
           if age_ms > BROWSER_ROUNDTRIP_STALE_MS then
             Some \<lparr>iv_invariant_id = ''I-4'', iv_source = ''browser'', iv_since_ms = age_ms,
               iv_details = JObj [(''last_heartbeat_ts'', opt_json JInt (sh_last_heartbeat_ts row)),
                                  (''consecutive_failures'', JInt (sh_consecutive_failures row))]\<rparr>
           else None) }) }"

subsection \<open>Failure counters\<close>

definition check_i2_claude_session_proxy :: "by_source \<Rightarrow> int \<Rightarrow> InvariantViolation option" where
  "check_i2_claude_session_proxy by_source now_ms = do {
     row \<leftarrow> by_source ''agentic-session-claude'';
     last_event \<leftarrow> sh_last_event_ts row;
     (if sh_consecutive_failures row > 3 then
        Some \<lparr>iv_invariant_id = ''I-2'', iv_source = ''agentic-session-claude'',
          iv_since_ms = now_ms - last_event,
          iv_details = JObj [(''consecutive_failures'', JInt (sh_consecutive_failures row)),
                             (''note'', JStr ''proxy predicate; full JSONL check in T-4'')]\<rparr>
      else None) }"

definition coverage_proxy_since_ms :: "SourceHealthRow \<Rightarrow> int \<Rightarrow> int" where
  "coverage_proxy_since_ms row now_ms =
     (let since_ts = unwrap_or (sh_last_event_ts row) (sh_updated_at row)
      in max (sat_i64 (now_ms - since_ts)) 0)"

definition proxy_note :: string where
  "proxy_note = ''proxy predicate; full freshness check lives in hippo doctor''"

definition check_i11_opencode_coverage_proxy :: "by_source \<Rightarrow> int \<Rightarrow> InvariantViolation option" where
  "check_i11_opencode_coverage_proxy by_source now_ms = do {
     row \<leftarrow> by_source ''agentic-session-opencode'';
     (if sh_consecutive_failures row > 3 then
        Some \<lparr>iv_invariant_id = ''I-11'', iv_source = ''agentic-session-opencode'',
          iv_since_ms = coverage_proxy_since_ms row now_ms,
          iv_details = JObj [(''consecutive_failures'', JInt (sh_consecutive_failures row)),
                             (''note'', JStr proxy_note)]\<rparr>
      else None) }"

definition check_i13_codex_coverage_proxy :: "by_source \<Rightarrow> int \<Rightarrow> InvariantViolation option" where
  "check_i13_codex_coverage_proxy by_source now_ms = do {
     row \<leftarrow> by_source ''agentic-session-codex'';
     (if sh_consecutive_failures row > 3 then
        Some \<lparr>iv_invariant_id = ''I-13'', iv_source = ''agentic-session-codex'',
          iv_since_ms = coverage_proxy_since_ms row now_ms,
          iv_details = JObj [(''consecutive_failures'', JInt (sh_consecutive_failures row)),
                             (''note'', JStr proxy_note)]\<rparr>
      else None) }"

definition check_i15_cursor_coverage_proxy :: "by_source \<Rightarrow> int \<Rightarrow> InvariantViolation option" where
  "check_i15_cursor_coverage_proxy by_source now_ms = do {
     row \<leftarrow> by_source ''agentic-session-cursor'';
     (if sh_consecutive_failures row > 3 then
        Some \<lparr>iv_invariant_id = ''I-15'', iv_source = ''agentic-session-cursor'',
          iv_since_ms = coverage_proxy_since_ms row now_ms,
          iv_details = JObj [(''consecutive_failures'', JInt (sh_consecutive_failures row)),
                             (''note'', JStr proxy_note)]\<rparr>
      else None) }"

definition check_i12_brain_preflight_stuck :: "by_source \<Rightarrow> int \<Rightarrow> InvariantViolation option" where
  "check_i12_brain_preflight_stuck by_source now_ms = do {
     row \<leftarrow> by_source ''brain-preflight'';
     (if sh_consecutive_failures row > 12 then
        (let last = unwrap_or (opt_or (sh_last_event_ts row) (sh_last_success_ts row)) now_ms in
         Some \<lparr>iv_invariant_id = ''I-12'', iv_source = ''brain-preflight'', iv_since_ms = now_ms - last,
           iv_details = JObj [(''consecutive_failures'', JInt (sh_consecutive_failures row)),
             (''last_error_msg'', opt_json JStr (sh_last_error_msg row)),
             (''note'', JStr ''brain inference preflight has been failing repeatedly; check inference backend'')]\<rparr>)
      else None) }"

subsection \<open>Auto-memory\<close>

definition check_i17_auto_memory_watcher :: "by_source \<Rightarrow> int \<Rightarrow> InvariantViolation option" where
  "check_i17_auto_memory_watcher by_source now_ms = do {
     ingest \<leftarrow> by_source ''claude-auto-memory'';
     watcher \<leftarrow> by_source ''auto-memory-watcher'';
     ingest_ts \<leftarrow> sh_last_event_ts ingest;
     (if now_ms - ingest_ts > AUTO_MEMORY_WATCHER_STALE_MS * 4 then None
      else do {
        heartbeat \<leftarrow> opt_or (sh_last_heartbeat_ts watcher) (sh_last_success_ts watcher);
        (let age_ms = now_ms - heartbeat in
         if age_ms > AUTO_MEMORY_WATCHER_STALE_MS then
           Some \<lparr>iv_invariant_id = ''I-17'', iv_source = ''auto-memory-watcher'', iv_since_ms = age_ms,
             iv_details = JObj [(''last_heartbeat_ts'', opt_json JInt (sh_last_heartbeat_ts watcher)),
               (''ingest_last_event_ts'', opt_json JInt (sh_last_event_ts ingest)),
               (''note'', JStr ''FSEvents watcher or periodic reconcile may be stalled'')]\<rparr>
         else None) }) }"

definition check_i18_auto_memory_ingest_proxy :: "by_source \<Rightarrow> int \<Rightarrow> InvariantViolation option" where
  "check_i18_auto_memory_ingest_proxy by_source now_ms = do {
     row \<leftarrow> by_source ''claude-auto-memory'';
     (if sh_consecutive_failures row \<le> 3 then None
      else let since = unwrap_or (opt_or (sh_last_error_ts row) (sh_last_event_ts row)) now_ms in
        Some \<lparr>iv_invariant_id = ''I-18'', iv_source = ''claude-auto-memory'', iv_since_ms = now_ms - since,
          iv_details = JObj [(''consecutive_failures'', JInt (sh_consecutive_failures row)),
            (''last_error_msg'', opt_json JStr (sh_last_error_msg row))]\<rparr>) }"

record memory_document =
  md_id :: int
  md_repository :: string
  md_active_revision_id :: "int option"
  md_state :: string
  md_projection_status :: string
  md_updated_at :: int

text \<open>A table argument is \<open>None\<close> where \<open>sqlite_master\<close> does not list the table.\<close>

definition check_i19_stale_memory_projection ::
  "memory_document list option \<Rightarrow> int \<Rightarrow> int option \<Rightarrow> InvariantViolation option" where
  "check_i19_stale_memory_projection docs now_ms resumed_at_ms = (case docs of
     None \<Rightarrow> None
   | Some rows \<Rightarrow>
      (let cutoff = now_ms - AUTO_MEMORY_PROJECTION_STALE_MS;
           count = sql_count (\<lambda>d. md_state d = ''active'' \<and> md_projection_status d = ''pending''
                     \<and> md_repository d \<noteq> AUTO_MEMORY_PROBE_REPOSITORY
                     \<and> max (md_updated_at d) (unwrap_or resumed_at_ms 0) < cutoff) rows
       in if count = 0 then None
          else Some \<lparr>iv_invariant_id = ''I-19'', iv_source = ''claude-auto-memory'',
            iv_since_ms = AUTO_MEMORY_PROJECTION_STALE_MS,
            iv_details = JObj [(''stale_projection_count'', JInt count),
              (''note'', JStr ''active documents still pending enrichment projection'')]\<rparr>))"

record memory_chunk =
  mc_id :: int
  mc_revision_id :: int

record memory_revision =
  mr_id :: int
  mr_document_id :: int

text \<open>
  The links of a chunk after the left join: the node ids of its link rows, or one row whose
  node is \<open>NULL\<close> when it has none. \<open>links\<close> are the rows (node, chunk) of
  \<open>knowledge_node_memory_chunks\<close>.
\<close>

definition left_join_links :: "(int \<times> int) list \<Rightarrow> int \<Rightarrow> int option list" where
  "left_join_links links chunk_id =
     (let ns = map fst (filter (\<lambda>l. snd l = chunk_id) links)
      in if ns = [] then [None] else map Some ns)"

definition check_i20_orphaned_memory_chunk_links ::
  "(int \<times> int) list option \<Rightarrow> memory_chunk list \<Rightarrow> memory_revision list \<Rightarrow> memory_document list \<Rightarrow>
   int \<Rightarrow> InvariantViolation option" where
  "check_i20_orphaned_memory_chunk_links links chunks revisions docs now_ms = (case links of
     None \<Rightarrow> None
   | Some ls \<Rightarrow>
      (let count = int (length [(). mc \<leftarrow> chunks, node \<leftarrow> left_join_links ls (mc_id mc),
                     mr \<leftarrow> revisions, mr_id mr = mc_revision_id mc,
                     md \<leftarrow> docs, md_id md = mr_document_id mr,
                     md_active_revision_id md = Some (mr_id mr) \<and> md_state md = ''active''
                     \<and> md_repository md \<noteq> AUTO_MEMORY_PROBE_REPOSITORY \<and> node = None])
       in if count = 0 then None
          else Some \<lparr>iv_invariant_id = ''I-20'', iv_source = ''claude-auto-memory'', iv_since_ms = 0,
            iv_details = JObj [(''orphan_chunk_links'', JInt count), (''checked_at_ms'', JInt now_ms)]\<rparr>))"

subsection \<open>Backups, embeddings, duplicate nodes, probes\<close>

definition check_i21_backup_freshness :: "BackupStatus \<Rightarrow> bool \<Rightarrow> int \<Rightarrow> InvariantViolation option" where
  "check_i21_backup_freshness status configured now_ms =
     (let HOUR_MS = 3600000 in
      if \<not> configured then None
      else
        let stale_success = (case bs_last_success_ms status of
              None \<Rightarrow> True | Some t \<Rightarrow> now_ms - t > 36 * HOUR_MS);
            stale_pending = map pu_id
              (filter (\<lambda>p. now_ms - pu_shipped_ms p > 24 * HOUR_MS) (bs_pending_upload status))
        in if \<not> stale_success \<and> stale_pending = [] then None
           else Some \<lparr>iv_invariant_id = ''I-21'', iv_source = ''backup'',
             iv_since_ms = (case bs_last_success_ms status of None \<Rightarrow> 0 | Some t \<Rightarrow> now_ms - t),
             iv_details = JObj [(''last_success_older_than_36h'', JBool stale_success),
               (''last_success_ms'', opt_json JInt (bs_last_success_ms status)),
               (''pending_upload_older_than_24h'', JArr (map JStr stale_pending)),
               (''last_error'', opt_json JStr (bs_last_error status)),
               (''checked_at_ms'', JInt now_ms)]\<rparr>)"

record knowledge_node =
  kn_id :: int
  kn_content :: string
  kn_embed_text :: string
  kn_node_type :: string
  kn_created_at :: int

definition check_i14_embedding_orphans ::
  "int list option \<Rightarrow> knowledge_node list \<Rightarrow> int \<Rightarrow> int \<Rightarrow> int \<Rightarrow> InvariantViolation option" where
  "check_i14_embedding_orphans vector_rowids nodes now_ms stale_ms threshold = (case vector_rowids of
     None \<Rightarrow> None
   | Some rowids \<Rightarrow>
      (let cutoff = now_ms - stale_ms;
           orphans = filter (\<lambda>n. kn_created_at n < cutoff \<and> kn_id n \<notin> set rowids) nodes;
           orphan_count = int (length orphans);
           oldest_created = unwrap_or (sql_min (map kn_created_at orphans)) 0
       in if orphan_count > threshold then
            Some \<lparr>iv_invariant_id = ''I-14'', iv_source = ''embedding'',
              iv_since_ms = (if oldest_created > 0 then now_ms - oldest_created else 0),
              iv_details = JObj [(''orphan_count'', JInt orphan_count), (''threshold'', JInt threshold),
                (''stale_ms'', JInt stale_ms)]\<rparr>
          else None))"

text \<open>
  \<open>kas\<close> are the rows (segment, node) of \<open>knowledge_node_agentic_sessions\<close>. The join yields one key
  per pair of matching rows; a group is a key, and it counts when more than one row has it.
\<close>

definition segment_node_keys ::
  "(int \<times> int) list \<Rightarrow> knowledge_node list \<Rightarrow> (int \<times> string \<times> string \<times> string) list" where
  "segment_node_keys kas nodes =
     [(fst k, kn_content n, kn_embed_text n, kn_node_type n). k \<leftarrow> kas, n \<leftarrow> nodes, kn_id n = snd k]"

definition duplicate_groups :: "'k list \<Rightarrow> 'k list" where
  "duplicate_groups keys = filter (\<lambda>k. count_list keys k > 1) (remdups keys)"

definition check_i16_duplicate_agentic_nodes ::
  "(int \<times> int) list option \<Rightarrow> knowledge_node list \<Rightarrow> int \<Rightarrow> InvariantViolation option" where
  "check_i16_duplicate_agentic_nodes kas nodes threshold = (case kas of
     None \<Rightarrow> None
   | Some links \<Rightarrow>
      (let dup_group_count = int (length (duplicate_groups (segment_node_keys links nodes)))
       in if dup_group_count > threshold then
            Some \<lparr>iv_invariant_id = ''I-16'', iv_source = ''enrichment'', iv_since_ms = 0,
              iv_details = JObj [(''duplicate_group_count'', JInt dup_group_count),
                (''threshold'', JInt threshold),
                (''note'', JStr ''agentic segments carrying 2+ byte-identical knowledge nodes; re-enrichment dedup regression'')]\<rparr>
          else None))"

definition i8_row :: "int \<Rightarrow> bool \<Rightarrow> SourceHealthRow \<Rightarrow> InvariantViolation option" where
  "i8_row now_ms recent row = do {
     probe_run \<leftarrow> sh_probe_last_run_ts row;
     (let age_ms = now_ms - probe_run;
          is_stale = (age_ms > PROBE_STALE_MS);
          is_failing = (sh_probe_ok row = Some 0)
      in if sh_source row = ''shell'' \<and> is_stale \<and> \<not> is_failing \<and> \<not> recent
            \<and> age_ms < SHELL_IDLE_SUPPRESSION_BACKSTOP_MS
         then None
         else if is_stale \<or> is_failing then
           Some \<lparr>iv_invariant_id = ''I-8'', iv_source = sh_source row, iv_since_ms = age_ms,
             iv_details = JObj [(''probe_ok'', opt_json JInt (sh_probe_ok row)),
               (''probe_lag_ms'', opt_json JInt (sh_probe_lag_ms row)),
               (''probe_last_run_ts'', JInt probe_run),
               (''stale'', JBool is_stale), (''failing'', JBool is_failing)]\<rparr>
         else None) }"

definition check_i8_probe_freshness ::
  "SourceHealthRow list \<Rightarrow> int \<Rightarrow> bool \<Rightarrow> InvariantViolation list" where
  "check_i8_probe_freshness rows now_ms recent = List.map_filter (i8_row now_ms recent) rows"

subsection \<open>check\_invariants\<close>

definition push_opt :: "'a option \<Rightarrow> 'a list \<Rightarrow> 'a list" where
  "push_opt v vs = (case v of None \<Rightarrow> vs | Some x \<Rightarrow> vs @ [x])"

text \<open>The environment a run reads besides the database.\<close>

record watchdog_env =
  we_bench_paused :: bool
  we_firefox_running :: bool

definition check_invariants ::
  "watchdog_env \<Rightarrow> SourceHealthRow list \<Rightarrow> int \<Rightarrow> bool \<Rightarrow> InvariantViolation list" where
  "check_invariants env rows now_ms recent =
     (let by_source = index_rows rows;
          paused = we_bench_paused env;
          v1 = push_opt (check_i1_shell_liveness by_source now_ms recent) [];
          v2 = (if paused then v1 else push_opt (check_i2_claude_session_proxy by_source now_ms) v1);
          v3 = (if paused then v2
                else push_opt (check_i4_browser_roundtrip by_source now_ms (we_firefox_running env)) v2);
          v4 = (if paused then v3 else v3 @ check_i8_probe_freshness rows now_ms recent);
          v5 = (if paused then v4 else push_opt (check_i11_opencode_coverage_proxy by_source now_ms) v4);
          v6 = (if paused then v5 else push_opt (check_i13_codex_coverage_proxy by_source now_ms) v5);
          v7 = (if paused then v6 else push_opt (check_i15_cursor_coverage_proxy by_source now_ms) v6);
          v8 = push_opt (check_i12_brain_preflight_stuck by_source now_ms) v7;
          v9 = (if paused then v8 else push_opt (check_i17_auto_memory_watcher by_source now_ms) v8);
          v10 = (if paused then v9 else push_opt (check_i18_auto_memory_ingest_proxy by_source now_ms) v9)
      in v10)"

definition suppress_disabled_auto_memory_violations ::
  "InvariantViolation list \<Rightarrow> bool \<Rightarrow> InvariantViolation list" where
  "suppress_disabled_auto_memory_violations vs enabled =
     (if enabled then vs
      else filter (\<lambda>v. iv_source v \<noteq> ''claude-auto-memory'' \<and> iv_source v \<noteq> ''auto-memory-watcher'') vs)"

definition suppress_operator_paused_violations ::
  "InvariantViolation list \<Rightarrow> StateRead \<Rightarrow> InvariantViolation list" where
  "suppress_operator_paused_violations vs st =
     (if is_paused st
      then filter (\<lambda>v. iv_invariant_id v \<noteq> ''I-12'' \<and> iv_invariant_id v \<noteq> ''I-19'') vs
      else vs)"

subsection \<open>Facts about single checks\<close>

text \<open>What a reported violation says: its invariant, its source and a positive age.\<close>

lemmas check_defs =
  check_i1_shell_liveness_def check_i2_claude_session_proxy_def check_i4_browser_roundtrip_def
  check_i11_opencode_coverage_proxy_def check_i13_codex_coverage_proxy_def
  check_i15_cursor_coverage_proxy_def check_i12_brain_preflight_stuck_def
  check_i17_auto_memory_watcher_def check_i18_auto_memory_ingest_proxy_def

lemma set_push_opt [simp]: "set (push_opt v vs) = set_option v \<union> set vs"
  by (cases v) (auto simp: push_opt_def)

lemma check_names:
  "check_i1_shell_liveness bs now r = Some v \<Longrightarrow> iv_invariant_id v = ''I-1'' \<and> iv_source v = ''shell''"
  "check_i2_claude_session_proxy bs now = Some v \<Longrightarrow>
     iv_invariant_id v = ''I-2'' \<and> iv_source v = ''agentic-session-claude''"
  "check_i4_browser_roundtrip bs now ff = Some v \<Longrightarrow> iv_invariant_id v = ''I-4'' \<and> iv_source v = ''browser''"
  "check_i11_opencode_coverage_proxy bs now = Some v \<Longrightarrow>
     iv_invariant_id v = ''I-11'' \<and> iv_source v = ''agentic-session-opencode''"
  "check_i12_brain_preflight_stuck bs now = Some v \<Longrightarrow>
     iv_invariant_id v = ''I-12'' \<and> iv_source v = ''brain-preflight''"
  "check_i13_codex_coverage_proxy bs now = Some v \<Longrightarrow>
     iv_invariant_id v = ''I-13'' \<and> iv_source v = ''agentic-session-codex''"
  "check_i15_cursor_coverage_proxy bs now = Some v \<Longrightarrow>
     iv_invariant_id v = ''I-15'' \<and> iv_source v = ''agentic-session-cursor''"
  "check_i17_auto_memory_watcher bs now = Some v \<Longrightarrow>
     iv_invariant_id v = ''I-17'' \<and> iv_source v = ''auto-memory-watcher''"
  "check_i18_auto_memory_ingest_proxy bs now = Some v \<Longrightarrow>
     iv_invariant_id v = ''I-18'' \<and> iv_source v = ''claude-auto-memory''"
  by (auto simp: check_defs Let_def bind_eq_Some_conv split: if_splits)

lemma i8_row_Some:
  "i8_row now r row = Some v \<Longrightarrow>
     iv_invariant_id v = ''I-8'' \<and> iv_source v = sh_source row
     \<and> (\<exists>p. sh_probe_last_run_ts row = Some p \<and> iv_since_ms v = now - p
          \<and> (now - p > 900000 \<or> sh_probe_ok row = Some 0))"
  by (auto simp: i8_row_def Let_def bind_eq_Some_conv hippo_defs split: if_splits)

lemma set_map_filter: "set (List.map_filter f xs) = {y. \<exists>x \<in> set xs. f x = Some y}"
  by (induction xs) (auto simp: List.map_filter_def split: option.splits)

lemma map_filter_distinct:
  assumes "distinct (map g xs)" and "\<And>x y. f x = Some y \<Longrightarrow> h y = g x"
  shows "distinct (map h (List.map_filter f xs))"
  using assms(1)
proof (induction xs)
  case Nil
  then show ?case by (simp add: List.map_filter_def)
next
  case (Cons x xs)
  have cons: "List.map_filter f (x # xs)
      = (case f x of None \<Rightarrow> List.map_filter f xs | Some y \<Rightarrow> y # List.map_filter f xs)"
    by (simp add: List.map_filter_def split: option.splits)
  have sub: "h ` set (List.map_filter f xs) \<subseteq> g ` set xs"
    using assms(2) by (auto simp: set_map_filter image_iff)
  show ?case
  proof (cases "f x")
    case None
    then show ?thesis using Cons cons by simp
  next
    case (Some y)
    then have "h y \<notin> h ` set (List.map_filter f xs)"
      using assms(2)[OF Some] sub Cons.prems by auto
    then show ?thesis using Some Cons cons by simp
  qed
qed

definition pair_of :: "InvariantViolation \<Rightarrow> string \<times> string" where
  "pair_of v = (iv_invariant_id v, iv_source v)"

lemma distinct_push_opt:
  assumes "distinct (map g vs)" and "\<And>x. v = Some x \<Longrightarrow> g x \<notin> g ` set vs"
  shows "distinct (map g (push_opt v vs))"
  using assms by (cases v) (auto simp: push_opt_def)

text \<open>The violations of one call, invariant by invariant.\<close>

lemma check_invariants_set:
  "set (check_invariants env rows now recent) =
     set_option (check_i1_shell_liveness (index_rows rows) now recent)
     \<union> set_option (check_i12_brain_preflight_stuck (index_rows rows) now)
     \<union> (if we_bench_paused env then {} else
          set_option (check_i2_claude_session_proxy (index_rows rows) now)
          \<union> set_option (check_i4_browser_roundtrip (index_rows rows) now (we_firefox_running env))
          \<union> set (check_i8_probe_freshness rows now recent)
          \<union> set_option (check_i11_opencode_coverage_proxy (index_rows rows) now)
          \<union> set_option (check_i13_codex_coverage_proxy (index_rows rows) now)
          \<union> set_option (check_i15_cursor_coverage_proxy (index_rows rows) now)
          \<union> set_option (check_i17_auto_memory_watcher (index_rows rows) now)
          \<union> set_option (check_i18_auto_memory_ingest_proxy (index_rows rows) now))"
  by (auto simp: check_invariants_def Let_def)

lemma i8_ids: "v \<in> set (check_i8_probe_freshness rows now recent) \<Longrightarrow> iv_invariant_id v = ''I-8''"
  by (auto simp: check_i8_probe_freshness_def set_map_filter dest: i8_row_Some)

lemma check_i8_distinct:
  assumes "distinct (map sh_source rows)"
  shows "distinct (map pair_of (check_i8_probe_freshness rows now recent))"
  unfolding check_i8_probe_freshness_def
proof (rule map_filter_distinct[where g = "\<lambda>r. (''I-8'', sh_source r)"])
  show "distinct (map (\<lambda>r. (''I-8'', sh_source r)) rows)"
    using assms by (simp add: distinct_map inj_on_def)
next
  fix x y assume "i8_row now recent x = Some y"
  then show "pair_of y = (''I-8'', sh_source x)"
    by (simp add: pair_of_def i8_row_Some)
qed

subsection \<open>Properties\<close>

text \<open>
  Over rows with distinct sources, no two violations of one call of
  \<open>check_invariants\<close> have the same invariant and source, so the pair the auto-resolve loop keys on
  identifies a violation.
\<close>

theorem violations_distinct:
  assumes "distinct (map sh_source rows)"
  shows "distinct (map pair_of (check_invariants env rows now recent))"
proof -
  note n = check_names[THEN conjunct1]
  have e: "distinct (map pair_of (check_i8_probe_freshness rows now recent))"
    using assms by (rule check_i8_distinct)
  show ?thesis
  proof (cases "we_bench_paused env")
    case True
    then show ?thesis
      by (simp add: check_invariants_def Let_def)
        (intro distinct_push_opt; auto simp: pair_of_def dest!: n)
  next
    case False
    define v3 where "v3 = push_opt (check_i4_browser_roundtrip (index_rows rows) now (we_firefox_running env))
      (push_opt (check_i2_claude_session_proxy (index_rows rows) now)
        (push_opt (check_i1_shell_liveness (index_rows rows) now recent) []))"
    have d3: "distinct (map pair_of v3)"
      unfolding v3_def by (intro distinct_push_opt; auto simp: pair_of_def dest!: n)
    have s3: "v \<in> set v3 \<Longrightarrow> iv_invariant_id v \<in> {''I-1'', ''I-2'', ''I-4''}" for v
      unfolding v3_def by (auto dest!: n)
    define v4 where "v4 = v3 @ check_i8_probe_freshness rows now recent"
    have d4: "distinct (map pair_of v4)"
      using d3 e s3 i8_ids unfolding v4_def by (fastforce simp: pair_of_def)
    have s4: "v \<in> set v4 \<Longrightarrow> iv_invariant_id v \<in> {''I-1'', ''I-2'', ''I-4'', ''I-8''}" for v
      unfolding v4_def using s3 i8_ids by auto
    have "check_invariants env rows now recent =
        push_opt (check_i18_auto_memory_ingest_proxy (index_rows rows) now)
        (push_opt (check_i17_auto_memory_watcher (index_rows rows) now)
        (push_opt (check_i12_brain_preflight_stuck (index_rows rows) now)
        (push_opt (check_i15_cursor_coverage_proxy (index_rows rows) now)
        (push_opt (check_i13_codex_coverage_proxy (index_rows rows) now)
        (push_opt (check_i11_opencode_coverage_proxy (index_rows rows) now) v4)))))"
      using False by (simp add: check_invariants_def Let_def v3_def v4_def)
    then show ?thesis
      using d4 by (simp only:) (intro distinct_push_opt; auto simp: pair_of_def dest!: n s4)
  qed
qed

end
