(* ===== verification/Alarms.thy ===== *)
theory Alarms
  imports Watchdog
begin

text \<open>
  The alarm ledger \<open>capture_alarms\<close>: the rate limit, the auto-resolve loop and one whole watchdog
  cycle (\<open>hippo-daemon/src/watchdog.rs\<close>), the operator's list, ack and prune
  (\<open>hippo-daemon/src/commands.rs\<close>), and the health grade (\<open>hippo-daemon/src/health_score.rs\<close>).
  The column \<open>details_json\<close> is the value its text parses to, \<open>None\<close> when it does not parse.
\<close>

subsection \<open>Rows\<close>

record alarm =
  ca_id :: int
  ca_invariant_id :: string
  ca_raised_at :: int
  ca_details :: "json option"
  ca_acked_at :: "int option"
  ca_ack_note :: "string option"
  ca_resolved_at :: "int option"
  ca_clean_ticks :: int

definition active :: "alarm \<Rightarrow> bool" where
  "active a = (ca_acked_at a = None \<and> ca_resolved_at a = None)"

text \<open>\<open>UPDATE ... WHERE id = i AND p\<close>: the new table and the number of rows changed.\<close>

definition update_where :: "(alarm \<Rightarrow> bool) \<Rightarrow> (alarm \<Rightarrow> alarm) \<Rightarrow> alarm list \<Rightarrow> alarm list \<times> int" where
  "update_where p f as = (map (\<lambda>a. if p a then f a else a) as, sql_count p as)"

subsection \<open>Rate limiting\<close>

definition check_rate_limit :: "alarm list \<Rightarrow> string \<Rightarrow> int \<Rightarrow> int \<Rightarrow> bool" where
  "check_rate_limit alarms invariant_id now_ms rate_limit_ms =
     (let cutoff_ms = now_ms - rate_limit_ms
      in list_ex (\<lambda>a. ca_invariant_id a = invariant_id \<and> ca_acked_at a = None
           \<and> ca_resolved_at a = None \<and> ca_raised_at a > cutoff_ms) alarms)"

subsection \<open>Auto-resolution\<close>

text \<open>The source of an alarm, read from its details.\<close>

definition alarm_source :: "alarm \<Rightarrow> string option" where
  "alarm_source a = Option.bind (ca_details a) (\<lambda>d. str_field d ''source'')"

text \<open>
  The body of the loop for one active row of the snapshot: the updates are by row id on the
  live table, and the second component counts the resolved alarms.
\<close>

definition resolve_step ::
  "(string \<times> string) list \<Rightarrow> int \<Rightarrow> alarm list \<times> int \<Rightarrow> alarm \<Rightarrow> alarm list \<times> int" where
  "resolve_step violating now_ms st row = (case st of (table, resolved) \<Rightarrow>
     (case alarm_source row of
        None \<Rightarrow> (table, resolved)
      | Some source \<Rightarrow>
          if (ca_invariant_id row, source) \<in> set violating then
            (if ca_clean_ticks row \<noteq> 0
             then (fst (update_where (\<lambda>a. ca_id a = ca_id row) (\<lambda>a. a\<lparr>ca_clean_ticks := 0\<rparr>) table), resolved)
             else (table, resolved))
          else
            (let new_ticks = ca_clean_ticks row + 1 in
             if new_ticks \<ge> AUTO_RESOLVE_CLEAN_TICKS then
               (case update_where (\<lambda>a. ca_id a = ca_id row \<and> ca_resolved_at a = None)
                       (\<lambda>a. a\<lparr>ca_clean_ticks := new_ticks, ca_resolved_at := Some now_ms\<rparr>) table of
                  (table', updated) \<Rightarrow> (table', if updated > 0 then resolved + 1 else resolved))
             else (fst (update_where (\<lambda>a. ca_id a = ca_id row) (\<lambda>a. a\<lparr>ca_clean_ticks := new_ticks\<rparr>) table),
                   resolved))))"

definition auto_resolve_alarms ::
  "alarm list \<Rightarrow> InvariantViolation list \<Rightarrow> int \<Rightarrow> alarm list \<times> int" where
  "auto_resolve_alarms alarms current_violations now_ms =
     (let violating = map (\<lambda>v. (iv_invariant_id v, iv_source v)) current_violations
      in foldl (resolve_step violating now_ms) (alarms, 0) (filter active alarms))"

text \<open>What the loop does to one row, as a function of that row.\<close>

definition resolve_one :: "(string \<times> string) list \<Rightarrow> int \<Rightarrow> alarm \<Rightarrow> alarm" where
  "resolve_one violating now_ms a =
     (if \<not> active a then a
      else case alarm_source a of
        None \<Rightarrow> a
      | Some source \<Rightarrow>
          if (ca_invariant_id a, source) \<in> set violating then a\<lparr>ca_clean_ticks := 0\<rparr>
          else if ca_clean_ticks a + 1 \<ge> 2
               then a\<lparr>ca_clean_ticks := ca_clean_ticks a + 1, ca_resolved_at := Some now_ms\<rparr>
               else a\<lparr>ca_clean_ticks := ca_clean_ticks a + 1\<rparr>)"

lemma resolve_one_frame [simp]:
  "ca_id (resolve_one v now a) = ca_id a"
  "ca_invariant_id (resolve_one v now a) = ca_invariant_id a"
  "ca_raised_at (resolve_one v now a) = ca_raised_at a"
  "ca_details (resolve_one v now a) = ca_details a"
  "ca_acked_at (resolve_one v now a) = ca_acked_at a"
  by (simp_all add: resolve_one_def split: option.splits)

lemma alarm_record_same [simp]: "ca_clean_ticks a = t \<Longrightarrow> a\<lparr>ca_clean_ticks := t\<rparr> = a"
  by simp

text \<open>One step touches the row it is for and no other.\<close>

lemma map_by_id_cong:
  assumes "distinct (map ca_id table)" and "row \<in> set table" and "f row = g row"
  shows "map (\<lambda>a. if ca_id a = ca_id row then f a else a) table
       = map (\<lambda>a. if ca_id a = ca_id row then g a else a) table"
proof (rule map_cong[OF refl])
  fix a assume "a \<in> set table"
  then have "ca_id a = ca_id row \<Longrightarrow> a = row"
    using assms(1,2) by (meson distinct_map inj_onD)
  then show "(if ca_id a = ca_id row then f a else a) = (if ca_id a = ca_id row then g a else a)"
    using assms(3) by auto
qed

lemma map_by_id_same:
  assumes "distinct (map ca_id table)" and "row \<in> set table" and "f row = row"
  shows "map (\<lambda>a. if ca_id a = ca_id row then f a else a) table = table"
  using map_by_id_cong[OF assms(1,2), of f "\<lambda>a. a"] assms(3) by (simp add: if_distrib cong: if_cong)

lemma update_where_unresolved:
  assumes "distinct (map ca_id table)" and "row \<in> set table" and "ca_resolved_at row = None"
  shows "fst (update_where (\<lambda>a. ca_id a = ca_id row \<and> ca_resolved_at a = None) f table)
       = map (\<lambda>a. if ca_id a = ca_id row then f a else a) table"
  unfolding update_where_def fst_conv
proof (rule map_cong[OF refl])
  fix a assume "a \<in> set table"
  then have "ca_id a = ca_id row \<Longrightarrow> a = row"
    using assms(1,2) by (meson distinct_map inj_onD)
  then show "(if ca_id a = ca_id row \<and> ca_resolved_at a = None then f a else a)
      = (if ca_id a = ca_id row then f a else a)"
    using assms(3) by auto
qed

lemma resolve_step_at:
  assumes act: "active row" and d: "distinct (map ca_id table)" and m: "row \<in> set table"
  shows "fst (resolve_step v now (table, n) row)
       = map (\<lambda>a. if ca_id a = ca_id row then resolve_one v now a else a) table"
proof (cases "alarm_source row")
  case None
  then have "resolve_one v now row = row"
    by (simp add: resolve_one_def)
  then show ?thesis
    using None map_by_id_same[OF d m] by (simp add: resolve_step_def)
next
  case (Some source)
  have un: "ca_resolved_at row = None"
    using act by (simp add: active_def)
  show ?thesis
  proof (cases "(ca_invariant_id row, source) \<in> set v")
    case True
    then have one: "resolve_one v now row = row\<lparr>ca_clean_ticks := 0\<rparr>"
      using act Some by (simp add: resolve_one_def)
    show ?thesis
    proof (cases "ca_clean_ticks row = 0")
      case z: True
      then have "resolve_one v now row = row" using one by simp
      then show ?thesis
        using Some True z map_by_id_same[OF d m] by (simp add: resolve_step_def)
    next
      case False
      then show ?thesis
        using Some True map_by_id_cong[OF d m, of "\<lambda>a. a\<lparr>ca_clean_ticks := 0\<rparr>" "resolve_one v now"] one
        by (simp add: resolve_step_def update_where_def)
    qed
  next
    case False
    let ?k = "ca_clean_ticks row + 1"
    show ?thesis
    proof (cases "?k \<ge> 2")
      case True
      let ?f = "\<lambda>a. a\<lparr>ca_clean_ticks := ?k, ca_resolved_at := Some now\<rparr>"
      have one: "resolve_one v now row = ?f row"
        using act Some False True by (simp add: resolve_one_def)
      have "fst (resolve_step v now (table, n) row)
          = fst (update_where (\<lambda>a. ca_id a = ca_id row \<and> ca_resolved_at a = None) ?f table)"
        using Some False True by (simp add: resolve_step_def Let_def hippo_defs split: prod.split)
      then show ?thesis
        using update_where_unresolved[OF d m un, of ?f] map_by_id_cong[OF d m, of ?f "resolve_one v now"] one
        by simp
    next
      case k: False
      let ?f = "\<lambda>a. a\<lparr>ca_clean_ticks := ?k\<rparr>"
      have one: "resolve_one v now row = ?f row"
        using act Some False k by (simp add: resolve_one_def)
      show ?thesis
        using Some False k map_by_id_cong[OF d m, of ?f "resolve_one v now"] one
        by (simp add: resolve_step_def Let_def hippo_defs update_where_def)
    qed
  qed
qed

lemma resolve_fold:
  assumes "distinct (map ca_id table)" and "set rows \<subseteq> set table"
    and "list_all active rows" and "distinct (map ca_id rows)"
  shows "fst (foldl (resolve_step v now) (table, n) rows)
       = map (\<lambda>a. if ca_id a \<in> ca_id ` set rows then resolve_one v now a else a) table"
  using assms
proof (induction rows arbitrary: table n)
  case Nil
  then show ?case by simp
next
  case (Cons r rows)
  let ?g = "\<lambda>a. if ca_id a = ca_id r then resolve_one v now a else a"
  let ?t = "map ?g table"
  have r: "active r" "r \<in> set table"
    using Cons.prems(2,3) by simp_all
  define n' where "n' = snd (resolve_step v now (table, n) r)"
  have step: "resolve_step v now (table, n) r = (?t, n')"
    unfolding n'_def resolve_step_at[OF r(1) Cons.prems(1) r(2), of v now n, symmetric] by (rule prod.collapse[symmetric])
  have ids: "map ca_id ?t = map ca_id table"
    unfolding map_map by (rule map_cong) simp_all
  have notin: "ca_id r \<notin> ca_id ` set rows"
    using Cons.prems(4) by simp
  have fresh: "ca_id x \<noteq> ca_id r" if x: "x \<in> set rows" for x
  proof
    assume e: "ca_id x = ca_id r"
    have "ca_id x \<in> ca_id ` set rows"
      using x by (rule imageI)
    with e notin show False by simp
  qed
  have sub: "set rows \<subseteq> set ?t"
  proof
    fix x assume x: "x \<in> set rows"
    have g: "?g x = x"
      using fresh[OF x] by simp
    have "x \<in> set table"
      using x Cons.prems(2) by (simp add: subset_iff)
    then have "?g x \<in> set ?t"
      unfolding set_map by (rule imageI)
    then show "x \<in> set ?t"
      unfolding g .
  qed
  have "fst (foldl (resolve_step v now) (?t, n') rows)
      = map (\<lambda>a. if ca_id a \<in> ca_id ` set rows then resolve_one v now a else a) ?t"
  proof (rule Cons.IH)
    show "distinct (map ca_id ?t)" unfolding ids by (rule Cons.prems(1))
    show "set rows \<subseteq> set ?t" by (rule sub)
    show "list_all active rows" using Cons.prems(3) by simp
    show "distinct (map ca_id rows)" using Cons.prems(4) by simp
  qed
  also have "\<dots> = map (\<lambda>a. if ca_id a \<in> ca_id ` set (r # rows) then resolve_one v now a else a) table"
    unfolding map_map
  proof (rule map_cong[OF refl])
    fix a
    show "((\<lambda>a. if ca_id a \<in> ca_id ` set rows then resolve_one v now a else a) \<circ> ?g) a
        = (if ca_id a \<in> ca_id ` set (r # rows) then resolve_one v now a else a)"
      using notin by (cases "ca_id a = ca_id r") simp_all
  qed
  finally show ?case unfolding foldl_Cons step .
qed

text \<open>The loop over the snapshot is the row-wise function, for a table whose ids are unique.\<close>

lemma auto_resolve_map:
  assumes "distinct (map ca_id alarms)"
  shows "fst (auto_resolve_alarms alarms vs now)
       = map (resolve_one (map (\<lambda>v. (iv_invariant_id v, iv_source v)) vs) now) alarms"
proof -
  let ?v = "map (\<lambda>v. (iv_invariant_id v, iv_source v)) vs"
  have "distinct (map ca_id (filter active alarms))"
    using assms by (simp add: distinct_map_filter)
  then have "fst (foldl (resolve_step ?v now) (alarms, 0) (filter active alarms))
      = map (\<lambda>a. if ca_id a \<in> ca_id ` set (filter active alarms) then resolve_one ?v now a else a) alarms"
    using assms by (intro resolve_fold) (auto simp: list_all_iff)
  also have "\<dots> = map (resolve_one ?v now) alarms"
  proof (intro map_cong refl)
    fix a assume a: "a \<in> set alarms"
    show "(if ca_id a \<in> ca_id ` set (filter active alarms) then resolve_one ?v now a else a)
        = resolve_one ?v now a"
      using a assms by (auto simp: resolve_one_def image_iff)
  qed
  finally show ?thesis by (simp add: auto_resolve_alarms_def Let_def)
qed

subsection \<open>One watchdog cycle\<close>

record WatchdogConfig =
  wc_enabled :: bool
  wc_alarm_rate_limit_minutes :: int
  wc_auto_memory_enabled :: bool
  wc_orphan_stale_secs :: int
  wc_reaper_alarm_threshold :: int
  wc_dup_node_alarm_threshold :: int
  wc_backup_configured :: bool

text \<open>
  The tables a cycle reads and writes; \<open>wd_source_health\<close> is \<open>None\<close> while the table does not
  exist, \<open>wd_next_id\<close> is the next \<open>AUTOINCREMENT\<close> id, \<open>wd_log\<close> the alarm log (invariant and source
  of each line).
\<close>

record watchdog_db =
  wd_source_health :: "SourceHealthRow list option"
  wd_events :: "health_event list"
  wd_vector_rowids :: "int list option"
  wd_nodes :: "knowledge_node list"
  wd_agentic_links :: "(int \<times> int) list option"
  wd_documents :: "memory_document list option"
  wd_chunk_links :: "(int \<times> int) list option"
  wd_chunks :: "memory_chunk list"
  wd_revisions :: "memory_revision list"
  wd_alarms :: "alarm list"
  wd_next_id :: int
  wd_log :: "(string \<times> string) list"

definition new_health_row :: "string \<Rightarrow> int \<Rightarrow> SourceHealthRow" where
  "new_health_row src now_ms = \<lparr>sh_source = src, sh_last_event_ts = None, sh_last_success_ts = None,
     sh_last_error_ts = None, sh_last_error_msg = None, sh_consecutive_failures = 0,
     sh_events_last_1h = 0, sh_events_last_24h = 0, sh_expected_min_per_hour = None,
     sh_probe_ok = None, sh_probe_lag_ms = None, sh_probe_last_run_ts = None,
     sh_last_heartbeat_ts = None, sh_updated_at = now_ms\<rparr>"

definition insert_or_ignore_watchdog :: "int \<Rightarrow> SourceHealthRow list \<Rightarrow> SourceHealthRow list" where
  "insert_or_ignore_watchdog now_ms rows =
     (if list_ex (\<lambda>r. sh_source r = ''watchdog'') rows then rows
      else rows @ [new_health_row ''watchdog'' now_ms])"

definition update_watchdog_row ::
  "(SourceHealthRow \<Rightarrow> SourceHealthRow) \<Rightarrow> SourceHealthRow list \<Rightarrow> SourceHealthRow list" where
  "update_watchdog_row f rows = map (\<lambda>r. if sh_source r = ''watchdog'' then f r else r) rows"

text \<open>
  One attempt to insert an alarm row. The second component of the state says how the coming
  attempts end: \<open>None\<close> succeeds, \<open>Some e\<close> fails with \<open>e\<close>; an exhausted list means success.
\<close>

type_synonym insert_state = "watchdog_db \<times> sqlite_error option list"

definition insert_alarm :: "InvariantViolation \<Rightarrow> int \<Rightarrow> insert_state \<Rightarrow> (sqlite_error + unit) \<times> insert_state" where
  "insert_alarm v now_ms s = (case s of (db, faults) \<Rightarrow>
     (let row = \<lparr>ca_id = wd_next_id db, ca_invariant_id = iv_invariant_id v, ca_raised_at = now_ms,
            ca_details = Some (JObj [(''source'', JStr (iv_source v)), (''since_ms'', JInt (iv_since_ms v)),
                                     (''details'', iv_details v)]),
            ca_acked_at = None, ca_ack_note = None, ca_resolved_at = None, ca_clean_ticks = 0\<rparr>;
          ok = (Inr (), (db\<lparr>wd_alarms := wd_alarms db @ [row], wd_next_id := wd_next_id db + 1\<rparr>, tl faults))
      in case faults of
           Some e # rest \<Rightarrow> (Inl e, (db, rest))
         | _ \<Rightarrow> ok))"

text \<open>Step 4: one log line per violation, then a row unless the invariant is rate limited.\<close>

fun raise_alarms ::
  "int \<Rightarrow> int \<Rightarrow> InvariantViolation list \<Rightarrow> insert_state \<Rightarrow> (sqlite_error + unit) \<times> insert_state" where
  "raise_alarms now_ms limit_ms [] s = (Inr (), s)"
| "raise_alarms now_ms limit_ms (v # vs) (db, faults) =
     (let db1 = db\<lparr>wd_log := wd_log db @ [(iv_invariant_id v, iv_source v)]\<rparr> in
      if check_rate_limit (wd_alarms db1) (iv_invariant_id v) now_ms limit_ms
      then raise_alarms now_ms limit_ms vs (db1, faults)
      else case with_busy_retry (insert_alarm v now_ms) (db1, faults) of
             (Inr _, s') \<Rightarrow> raise_alarms now_ms limit_ms vs s'
           | (Inl e, s') \<Rightarrow> if is_sqlite_busy e then raise_alarms now_ms limit_ms vs s' else (Inl e, s'))"

text \<open>Step 3: everything the cycle asserts, in the order of the source.\<close>

definition cycle_violations ::
  "WatchdogConfig \<Rightarrow> watchdog_env \<Rightarrow> StateRead \<Rightarrow> BackupStatus \<Rightarrow> bool \<Rightarrow> SourceHealthRow list \<Rightarrow>
   watchdog_db \<Rightarrow> int \<Rightarrow> InvariantViolation list" where
  "cycle_violations cfg env pause_state backup activity_query_ok rows db now_ms =
     (let recent = (if activity_query_ok
                    then shell_real_activity_recent (wd_events db) now_ms SHELL_IDLE_WINDOW_MS else True);
          v0 = check_invariants env rows now_ms recent;
          v1 = suppress_disabled_auto_memory_violations v0 (wc_auto_memory_enabled cfg);
          v2 = suppress_operator_paused_violations v1 pause_state;
          v3 = push_opt (check_i14_embedding_orphans (wd_vector_rowids db) (wd_nodes db) now_ms
                 (wc_orphan_stale_secs cfg * 1000) (wc_reaper_alarm_threshold cfg)) v2;
          v4 = push_opt (check_i16_duplicate_agentic_nodes (wd_agentic_links db) (wd_nodes db)
                 (if wc_dup_node_alarm_threshold cfg \<le> i64_max
                  then wc_dup_node_alarm_threshold cfg else i64_max)) v3;
          v5 = (if wc_auto_memory_enabled cfg \<and> \<not> we_bench_paused env then
                  let resumed_at_ms = (case pause_state of
                        Valid st \<Rightarrow> if \<not> es_paused st then Some (es_changed_at_ms st) else None
                      | _ \<Rightarrow> None);
                      w = (if \<not> is_paused pause_state
                           then push_opt (check_i19_stale_memory_projection (wd_documents db) now_ms resumed_at_ms) v4
                           else v4)
                  in push_opt (check_i20_orphaned_memory_chunk_links (wd_chunk_links db) (wd_chunks db)
                       (wd_revisions db) (case wd_documents db of None \<Rightarrow> [] | Some d \<Rightarrow> d) now_ms) w
                else v4)
      in push_opt (check_i21_backup_freshness backup (wc_backup_configured cfg) now_ms) v5)"

text \<open>The whole cycle; a failing alarm insert that is not a lock ends it early.\<close>

definition watchdog_run ::
  "WatchdogConfig \<Rightarrow> watchdog_env \<Rightarrow> StateRead \<Rightarrow> BackupStatus \<Rightarrow> bool \<Rightarrow> sqlite_error option list \<Rightarrow>
   int \<Rightarrow> watchdog_db \<Rightarrow> (sqlite_error + unit) \<times> watchdog_db" where
  "watchdog_run cfg env pause_state backup activity_query_ok faults now_ms db =
     (if \<not> wc_enabled cfg then (Inr (), db)
      else case wd_source_health db of
        None \<Rightarrow> (Inr (), db\<lparr>wd_source_health := Some (insert_or_ignore_watchdog now_ms [])\<rparr>)
      | Some rows0 \<Rightarrow>
         (let rows = update_watchdog_row (\<lambda>r. r\<lparr>sh_updated_at := now_ms\<rparr>)
                       (insert_or_ignore_watchdog now_ms rows0);
              db1 = db\<lparr>wd_source_health := Some rows\<rparr>;
              violations = cycle_violations cfg env pause_state backup activity_query_ok rows db1 now_ms
          in case raise_alarms now_ms (wc_alarm_rate_limit_minutes cfg * 60 * 1000) violations (db1, faults) of
               (Inl e, (db2, _)) \<Rightarrow> (Inl e, db2)
             | (Inr _, (db2, _)) \<Rightarrow>
                 (Inr (), db2\<lparr>wd_alarms := fst (auto_resolve_alarms (wd_alarms db2) violations now_ms),
                    wd_source_health := Some (update_watchdog_row (\<lambda>r. r\<lparr>sh_last_success_ts := Some now_ms\<rparr>) rows)\<rparr>)))"

definition count_alarm_states :: "alarm list \<Rightarrow> int \<times> int" where
  "count_alarm_states alarms =
     (sql_count (\<lambda>a. ca_acked_at a = None \<and> ca_resolved_at a = None) alarms,
      sql_count (\<lambda>a. ca_acked_at a = None \<and> ca_resolved_at a \<noteq> None) alarms)"

subsection \<open>The operator's commands\<close>

definition handle_alarms_ack :: "int \<Rightarrow> int \<Rightarrow> string option \<Rightarrow> alarm list \<Rightarrow> alarm list \<times> string" where
  "handle_alarms_ack now_ms alarm_id note alarms =
     (case update_where (\<lambda>a. ca_id a = alarm_id \<and> ca_acked_at a = None)
             (\<lambda>a. a\<lparr>ca_acked_at := Some now_ms, ca_ack_note := note\<rparr>) alarms of
        (alarms', updated) \<Rightarrow> (alarms',
          if updated > 0 then ''Alarm '' @ int_str alarm_id @ '' acknowledged.''
          else ''Alarm '' @ int_str alarm_id @ '' not found or already acknowledged.''))"

definition handle_alarms_prune :: "int \<Rightarrow> alarm list \<Rightarrow> alarm list \<times> string" where
  "handle_alarms_prune now_ms alarms =
     (case update_where (\<lambda>a. ca_acked_at a = None \<and> ca_resolved_at a \<noteq> None)
             (\<lambda>a. a\<lparr>ca_acked_at := Some now_ms, ca_ack_note := Some ''auto-resolved''\<rparr>) alarms of
        (alarms', updated) \<Rightarrow> (alarms',
          if updated > 0
          then ''Pruned '' @ int_str updated @ '' auto-resolved alarm'' @ (if updated = 1 then [] else ''s'') @ ''.''
          else ''No auto-resolved alarms to prune.''))"

text \<open>The two sections of the list, and whether the command exits with 1.\<close>

definition handle_alarms_list :: "alarm list \<Rightarrow> alarm list \<times> alarm list \<times> bool" where
  "handle_alarms_list alarms =
     (let rows = sort_key ca_raised_at (filter (\<lambda>a. ca_acked_at a = None) alarms);
          act = filter (\<lambda>r. ca_resolved_at r = None) rows;
          resolved = sort_key (\<lambda>r. case ca_resolved_at r of None \<Rightarrow> 0 | Some t \<Rightarrow> - t)
                       (filter (\<lambda>r. ca_resolved_at r \<noteq> None) rows)
      in (act, resolved, act \<noteq> []))"

text \<open>\<open>text\<close> is the column's text, \<open>parsed\<close> what it parses to.\<close>

definition alarm_details_summary :: "string \<Rightarrow> json option \<Rightarrow> string" where
  "alarm_details_summary text parsed =
     (let truncated = chars_take 60 text in
      case parsed of None \<Rightarrow> truncated
      | Some v \<Rightarrow> (case str_field v ''source'' of None \<Rightarrow> truncated
        | Some source \<Rightarrow> (case Option.bind (j_get v ''since_ms'') as_i64 of None \<Rightarrow> truncated
          | Some ms \<Rightarrow>
             (let since_secs = trunc_div ms 1000;
                  hours = trunc_div since_secs 3600;
                  mins = trunc_div (trunc_rem since_secs 3600) 60
              in if hours > 0
                 then source @ '' silent '' @ int_str hours @ ''h '' @ int_str mins @ ''m''
                 else source @ '' silent '' @ int_str mins @ ''m''))))"

subsection \<open>Health grade\<close>

text \<open>Rust's \<open>u64\<close> saturating arithmetic.\<close>

definition compute_grade :: "int \<Rightarrow> int" where
  "compute_grade active_alarms = sat_u64 (100 - sat_u64 (active_alarms * 10))"

definition read_alarm_count :: "alarm list \<Rightarrow> int" where
  "read_alarm_count alarms =
     max 0 (sql_count (\<lambda>a. ca_acked_at a = None \<and> ca_resolved_at a = None) alarms)"

subsection \<open>The ledger as a state machine\<close>

text \<open>
  What happens to the ledger: a watchdog tick with the violations it found, an operator's ack,
  a prune. \<open>limit_ms\<close> is the configured rate limit.
\<close>

datatype ledger_event =
    Tick int "InvariantViolation list" "sqlite_error option list"
  | Ack int int "string option"
  | Prune int

fun ledger_step :: "int \<Rightarrow> watchdog_db \<Rightarrow> ledger_event \<Rightarrow> watchdog_db" where
  "ledger_step limit_ms db (Tick now_ms vs faults) =
     (case raise_alarms now_ms limit_ms vs (db, faults) of
        (Inl e, (db2, _)) \<Rightarrow> db2
      | (Inr _, (db2, _)) \<Rightarrow> db2\<lparr>wd_alarms := fst (auto_resolve_alarms (wd_alarms db2) vs now_ms)\<rparr>)"
| "ledger_step limit_ms db (Ack now_ms alarm_id note) =
     db\<lparr>wd_alarms := fst (handle_alarms_ack now_ms alarm_id note (wd_alarms db))\<rparr>"
| "ledger_step limit_ms db (Prune now_ms) =
     db\<lparr>wd_alarms := fst (handle_alarms_prune now_ms (wd_alarms db))\<rparr>"

lemma watchdog_run_ledger:
  "\<exists>vs db1. wd_alarms db1 = wd_alarms db
     \<and> (wd_alarms (snd (watchdog_run cfg env ps bk ok faults now db)) = wd_alarms db
        \<or> wd_alarms (snd (watchdog_run cfg env ps bk ok faults now db))
           = wd_alarms (ledger_step (wc_alarm_rate_limit_minutes cfg * 60 * 1000) db1 (Tick now vs faults)))"
proof (cases "wc_enabled cfg")
  case True
  show ?thesis
  proof (cases "wd_source_health db")
    case None
    then show ?thesis using True by (auto simp: watchdog_run_def)
  next
    case (Some rows0)
    define rows where "rows = update_watchdog_row (\<lambda>r. r\<lparr>sh_updated_at := now\<rparr>)
                       (insert_or_ignore_watchdog now rows0)"
    define db1 where "db1 = db\<lparr>wd_source_health := Some rows\<rparr>"
    define vs where "vs = cycle_violations cfg env ps bk ok rows db1 now"
    have "wd_alarms (snd (watchdog_run cfg env ps bk ok faults now db))
        = wd_alarms (ledger_step (wc_alarm_rate_limit_minutes cfg * 60 * 1000) db1 (Tick now vs faults))"
      using True Some
      by (simp add: watchdog_run_def Let_def rows_def[symmetric] db1_def[symmetric] vs_def[symmetric]
          split: prod.split sum.split)
    moreover have "wd_alarms db1 = wd_alarms db" by (simp add: db1_def)
    ultimately show ?thesis by blast
  qed
qed (auto simp: watchdog_run_def)

text \<open>
  The invariant: ids are unique and below the next one; an unresolved alarm has fewer than
  two clean ticks and a resolved one exactly two; two active alarms of one invariant were
  raised at least the rate limit apart.
\<close>

definition spaced :: "int \<Rightarrow> alarm \<Rightarrow> alarm \<Rightarrow> bool" where
  "spaced limit_ms a b = (active a \<and> active b \<and> ca_invariant_id a = ca_invariant_id b
     \<longrightarrow> ca_raised_at a + limit_ms \<le> ca_raised_at b)"

definition alarm_ok :: "int \<Rightarrow> alarm \<Rightarrow> bool" where
  "alarm_ok nxt a = (ca_id a < nxt
     \<and> (if ca_resolved_at a = None then ca_clean_ticks a = 0 \<or> ca_clean_ticks a = 1
        else ca_clean_ticks a = 2))"

definition ledger_inv :: "int \<Rightarrow> watchdog_db \<Rightarrow> bool" where
  "ledger_inv limit_ms db = (distinct (map ca_id (wd_alarms db))
     \<and> list_all (alarm_ok (wd_next_id db)) (wd_alarms db)
     \<and> sorted_wrt (spaced limit_ms) (wd_alarms db))"

lemma ledger_inv_map:
  assumes "ledger_inv limit db"
    and "\<And>a. ca_id (f a) = ca_id a \<and> ca_invariant_id (f a) = ca_invariant_id a
           \<and> ca_raised_at (f a) = ca_raised_at a"
    and "\<And>a. active (f a) \<Longrightarrow> active a"
    and "\<And>a. alarm_ok (wd_next_id db) a \<Longrightarrow> alarm_ok (wd_next_id db) (f a)"
  shows "ledger_inv limit (db\<lparr>wd_alarms := map f (wd_alarms db)\<rparr>)"
proof -
  have "ca_id \<circ> f = ca_id"
    using assms(2) by (simp add: fun_eq_iff)
  moreover have "sorted_wrt (spaced limit) (map f (wd_alarms db))"
    unfolding sorted_wrt_map
    by (rule sorted_wrt_mono_rel[of _ "spaced limit"]) (use assms in \<open>auto simp: spaced_def ledger_inv_def\<close>)
  moreover have "list_all (alarm_ok (wd_next_id db)) (map f (wd_alarms db))"
    using assms(1,4) by (auto simp: ledger_inv_def list_all_iff)
  ultimately show ?thesis
    using assms(1) by (simp add: ledger_inv_def)
qed

lemma ledger_inv_append:
  assumes "ledger_inv limit db" and "\<not> check_rate_limit (wd_alarms db) (ca_invariant_id row) now limit"
    and "ca_id row = wd_next_id db" and "ca_raised_at row = now"
    and "ca_resolved_at row = None" and "ca_clean_ticks row = 0"
  shows "ledger_inv limit (db\<lparr>wd_alarms := wd_alarms db @ [row], wd_next_id := wd_next_id db + 1\<rparr>)"
proof -
  have "ca_id a < wd_next_id db" if "a \<in> set (wd_alarms db)" for a
    using assms(1) that by (auto simp: ledger_inv_def list_all_iff alarm_ok_def)
  then have "distinct (map ca_id (wd_alarms db @ [row]))"
    using assms(1,3) by (force simp: ledger_inv_def)
  moreover have "list_all (alarm_ok (wd_next_id db + 1)) (wd_alarms db @ [row])"
    using assms by (auto simp: ledger_inv_def list_all_iff alarm_ok_def)
  moreover have "spaced limit a row" if "a \<in> set (wd_alarms db)" for a
    using assms(2,4) that by (auto simp: spaced_def check_rate_limit_def Let_def list_ex_iff active_def)
  ultimately show ?thesis
    using assms(1) by (auto simp: ledger_inv_def sorted_wrt_append)
qed

lemma ledger_inv_log [simp]: "ledger_inv limit (db\<lparr>wd_log := l\<rparr>) = ledger_inv limit db"
  by (simp add: ledger_inv_def)

lemma insert_alarm_inv:
  assumes "ledger_inv limit db" and "\<not> check_rate_limit (wd_alarms db) (iv_invariant_id v) now limit"
    and "insert_alarm v now (db, faults) = (r, (db', faults'))"
  shows "ledger_inv limit db' \<and> (\<forall>e. r = Inl e \<longrightarrow> db' = db)"
  using assms(3) ledger_inv_append[OF assms(1), of
      "\<lparr>ca_id = wd_next_id db, ca_invariant_id = iv_invariant_id v, ca_raised_at = now,
        ca_details = Some (JObj [(''source'', JStr (iv_source v)), (''since_ms'', JInt (iv_since_ms v)),
                                     (''details'', iv_details v)]),
        ca_acked_at = None, ca_ack_note = None, ca_resolved_at = None, ca_clean_ticks = 0\<rparr>" now] assms(1,2)
  by (auto simp: insert_alarm_def Let_def split: list.splits option.splits)

lemma busy_insert_inv:
  assumes "ledger_inv limit db" and "\<not> check_rate_limit (wd_alarms db) (iv_invariant_id v) now limit"
    and "with_busy_retry (insert_alarm v now) (db, faults) = (r, (db', faults'))"
  shows "ledger_inv limit db'"
proof -
  obtain r1 db1 f1 where one: "insert_alarm v now (db, faults) = (r1, (db1, f1))"
    by (metis surj_pair)
  note inv1 = insert_alarm_inv[OF assms(1,2) one]
  show ?thesis
  proof (cases r1)
    case (Inl e)
    then have "db1 = db" using inv1 by blast
    then show ?thesis
      using assms(3) one Inl insert_alarm_inv[OF assms(1,2), of f1 r db' faults'] assms(1)
      by (auto simp: with_busy_retry_def split: if_splits)
  next
    case (Inr u)
    then show ?thesis
      using assms(3) one inv1 by (simp add: with_busy_retry_def)
  qed
qed

lemma raise_alarms_inv:
  "ledger_inv limit db \<Longrightarrow> raise_alarms now limit vs (db, faults) = (r, (db', faults')) \<Longrightarrow> ledger_inv limit db'"
proof (induction vs arbitrary: db faults)
  case (Cons v vs)
  let ?db1 = "db\<lparr>wd_log := wd_log db @ [(iv_invariant_id v, iv_source v)]\<rparr>"
  show ?case
  proof (cases "check_rate_limit (wd_alarms ?db1) (iv_invariant_id v) now limit")
    case True
    then show ?thesis using Cons.prems Cons.IH[of ?db1 faults] by simp
  next
    case False
    obtain r1 db1 f1 where one: "with_busy_retry (insert_alarm v now) (?db1, faults) = (r1, (db1, f1))"
      by (metis surj_pair)
    have inv1: "ledger_inv limit db1"
      by (rule busy_insert_inv[OF _ _ one]) (use Cons.prems(1) False in simp_all)
    show ?thesis
      using Cons.prems(2) False one inv1 Cons.IH[OF inv1, of f1]
      by (auto simp: Let_def split: sum.splits if_splits)
  qed
qed simp

lemma resolve_one_active: "active (resolve_one v now a) \<Longrightarrow> active a"
  by (auto simp: resolve_one_def active_def split: option.splits if_splits)

lemma resolve_one_ok: "alarm_ok n a \<Longrightarrow> alarm_ok n (resolve_one v now a)"
  by (auto simp: resolve_one_def alarm_ok_def active_def split: option.splits if_splits)

lemma ledger_tick_inv:
  assumes inv: "ledger_inv limit db"
  shows "ledger_inv limit (ledger_step limit db (Tick now vs faults))"
proof -
  obtain r db2 f2 where r: "raise_alarms now limit vs (db, faults) = (r, (db2, f2))"
    by (metis surj_pair)
  have inv2: "ledger_inv limit db2"
    by (rule raise_alarms_inv[OF inv r])
  then have "distinct (map ca_id (wd_alarms db2))"
    by (simp add: ledger_inv_def)
  note mp = auto_resolve_map[OF this, of vs now]
  have "ledger_inv limit (db2\<lparr>wd_alarms := fst (auto_resolve_alarms (wd_alarms db2) vs now)\<rparr>)"
    unfolding mp
    by (rule ledger_inv_map[OF inv2]) (simp_all only: resolve_one_frame resolve_one_active resolve_one_ok simp_thms)
  then show ?thesis
    using r inv2 by (cases r) simp_all
qed

lemma ledger_ack_inv:
  assumes inv: "ledger_inv limit db"
  shows "ledger_inv limit (ledger_step limit db (Ack now i nt))"
  unfolding ledger_step.simps handle_alarms_ack_def update_where_def prod.case fst_conv
  by (rule ledger_inv_map[OF inv]) (auto simp: active_def alarm_ok_def split: if_splits)

lemma ledger_prune_inv:
  assumes inv: "ledger_inv limit db"
  shows "ledger_inv limit (ledger_step limit db (Prune now))"
  unfolding ledger_step.simps handle_alarms_prune_def update_where_def prod.case fst_conv
  by (rule ledger_inv_map[OF inv]) (auto simp: active_def alarm_ok_def split: if_splits)

lemma ledger_step_inv: "ledger_inv limit db \<Longrightarrow> ledger_inv limit (ledger_step limit db e)"
  by (cases e) (simp_all only: ledger_tick_inv ledger_ack_inv ledger_prune_inv)

interpretation ledger: invariant_run "ledger_step limit_ms" "ledger_inv limit_ms" for limit_ms
  by unfold_locales (rule ledger_step_inv)

text \<open>Row ids grow along every run, so the id of an alarm is never given to another.\<close>

lemma insert_alarm_next: "wd_next_id (fst s) \<le> wd_next_id (fst (snd (insert_alarm v now s)))"
  by (cases s) (auto simp: insert_alarm_def Let_def split: list.split option.split)

lemma busy_insert_next: "wd_next_id (fst s) \<le> wd_next_id (fst (snd (with_busy_retry (insert_alarm v now) s)))"
proof -
  obtain r s1 where one: "insert_alarm v now s = (r, s1)" by (metis surj_pair)
  have le1: "wd_next_id (fst s) \<le> wd_next_id (fst s1)"
    using insert_alarm_next[of s v now] one by simp
  show ?thesis
    using le1 one order_trans[OF le1 insert_alarm_next[of s1 v now]]
    by (cases r) (simp_all add: with_busy_retry_def)
qed

lemma raise_alarms_next: "wd_next_id db \<le> wd_next_id (fst (snd (raise_alarms now limit vs (db, faults))))"
proof (induction vs arbitrary: db faults)
  case (Cons v vs)
  let ?db1 = "db\<lparr>wd_log := wd_log db @ [(iv_invariant_id v, iv_source v)]\<rparr>"
  obtain r db2 f2 where one: "with_busy_retry (insert_alarm v now) (?db1, faults) = (r, (db2, f2))"
    by (metis surj_pair)
  have le: "wd_next_id db \<le> wd_next_id db2"
    using busy_insert_next[of "(?db1, faults)" v now] one by simp
  show ?case
    using Cons.IH[of ?db1 faults] one le order_trans[OF le Cons.IH[of db2 f2]]
    by (cases r) (simp_all add: Let_def)
qed simp

lemma ledger_step_next: "wd_next_id db \<le> wd_next_id (ledger_step limit db e)"
proof (cases e)
  case (Tick now vs faults)
  then show ?thesis
    using raise_alarms_next[of db now limit vs faults] by (auto split: prod.split sum.split)
qed simp_all

interpretation ledger_ids: monotone_run "ledger_step limit_ms" "ledger_inv limit_ms" wd_next_id for limit_ms
  by unfold_locales (rule ledger_step_next)

end
