(* ===== verification/HealthProperties.thy ===== *)
theory HealthProperties
  imports Alarms
begin

text \<open>
  Properties of the watchdog, the alarm ledger, the enrichment pause and the artifact id, over the
  definitions of \<open>Watchdog\<close>, \<open>Alarms\<close>, \<open>EnrichmentState\<close> and \<open>BackupTypes\<close>.
\<close>

subsection \<open>Concrete rows\<close>

definition shell_row :: "int option \<Rightarrow> int option \<Rightarrow> int option \<Rightarrow> SourceHealthRow" where
  "shell_row last_event probe_run probe_ok =
     (new_health_row ''shell'' 0)\<lparr>sh_last_event_ts := last_event, sh_probe_last_run_ts := probe_run,
        sh_probe_ok := probe_ok\<rparr>"

definition shell_event :: "int \<Rightarrow> health_event" where
  "shell_event ts = \<lparr>he_timestamp = ts, he_source_kind = ''shell'', he_probe_tag = None\<rparr>"

definition empty_db :: watchdog_db where
  "empty_db = \<lparr>wd_source_health = None, wd_events = [], wd_vector_rowids = None, wd_nodes = [],
     wd_agentic_links = None, wd_documents = None, wd_chunk_links = None, wd_chunks = [], wd_revisions = [],
     wd_alarms = [], wd_next_id = 1, wd_log = []\<rparr>"

definition some_violation :: "string \<Rightarrow> string \<Rightarrow> InvariantViolation" where
  "some_violation i src = \<lparr>iv_invariant_id = i, iv_source = src, iv_since_ms = 0, iv_details = JNull\<rparr>"

subsection \<open>Shell liveness\<close>

lemma i1_Some:
  assumes "check_i1_shell_liveness bs now recent = Some v"
  shows "\<exists>row last. bs ''shell'' = Some row \<and> sh_probe_ok row = Some 1 \<and> iv_since_ms v = now - last
    \<and> latest_capture_signal ''shell'' (sh_last_event_ts row) (sh_probe_last_run_ts row) (sh_probe_ok row) = Some last
    \<and> 420000 < now - last \<and> (recent \<or> 86400000 \<le> now - last)"
  using assms
  by (auto simp: check_i1_shell_liveness_def Let_def bind_eq_Some_conv hippo_defs split: if_splits)

text \<open>
  When the shell row's last event is the newest real shell event, I-1 is
  reported only while the last sign of life is more than 7 and at most 10 minutes old, or at least
  24 hours old: between ten minutes and a day of a dead pipe it is silent.
\<close>

theorem i1_outage_window:
  assumes "bs ''shell'' = Some row"
    and "sh_last_event_ts row = sql_max (map he_timestamp
           (filter (\<lambda>e. he_source_kind e = ''shell'' \<and> he_probe_tag e = None) events))"
    and "check_i1_shell_liveness bs now (shell_real_activity_recent events now SHELL_IDLE_WINDOW_MS) = Some v"
  shows "(420000 < iv_since_ms v \<and> iv_since_ms v \<le> 600000) \<or> 86400000 \<le> iv_since_ms v"
proof -
  let ?real = "filter (\<lambda>e. he_source_kind e = ''shell'' \<and> he_probe_tag e = None) events"
  obtain last where l: "iv_since_ms v = now - last" "420000 < now - last"
    "latest_capture_signal ''shell'' (sh_last_event_ts row) (sh_probe_last_run_ts row) (sh_probe_ok row) = Some last"
    "shell_real_activity_recent events now SHELL_IDLE_WINDOW_MS \<or> 86400000 \<le> now - last"
    using i1_Some[OF assms(3)] assms(1) by auto
  show ?thesis
  proof (cases "86400000 \<le> now - last")
    case False
    then have "shell_real_activity_recent events now SHELL_IDLE_WINDOW_MS"
      using l(4) by blast
    then obtain t where t: "sql_max (map he_timestamp ?real) = Some t" "now - t \<le> 600000"
      by (auto simp: shell_real_activity_recent_def hippo_defs split: option.splits)
    then have "t \<le> last"
      using latest_capture_signal_ge_event[OF l(3)] assms(2) by simp
    then show ?thesis using l t by linarith
  qed (use l in simp)
qed

lemma i1_outage_window_witness:
  "\<exists>v. check_i1_shell_liveness (index_rows [shell_row (Some 0) (Some 0) (Some 1)]) 500000
        (shell_real_activity_recent [shell_event 0] 500000 SHELL_IDLE_WINDOW_MS) = Some v
     \<and> ((420000 < iv_since_ms v \<and> iv_since_ms v \<le> 600000) \<or> 86400000 \<le> iv_since_ms v)"
proof -
  let ?bs = "index_rows [shell_row (Some 0) (Some 0) (Some 1)]"
  have bs: "?bs ''shell'' = Some (shell_row (Some 0) (Some 0) (Some 1))"
    by (simp add: index_rows_def shell_row_def new_health_row_def)
  have ev: "sh_last_event_ts (shell_row (Some 0) (Some 0) (Some 1)) = sql_max (map he_timestamp
           (filter (\<lambda>e. he_source_kind e = ''shell'' \<and> he_probe_tag e = None) [shell_event 0]))"
    by (simp add: shell_row_def shell_event_def)
  obtain v where v: "check_i1_shell_liveness ?bs 500000
        (shell_real_activity_recent [shell_event 0] 500000 SHELL_IDLE_WINDOW_MS) = Some v"
    unfolding check_i1_shell_liveness_def bs
    by (simp add: shell_row_def new_health_row_def shell_event_def latest_capture_signal_def
        shell_real_activity_recent_def Let_def hippo_defs)
  show ?thesis using i1_outage_window[OF bs ev v] v by blast
qed

subsection \<open>What each pause silences\<close>

text \<open>
  While the bench pause window is open a run reports nothing but shell
  liveness and the brain preflight, the two checks whose sources a bench does not stop.
\<close>

theorem bench_pause_silences:
  assumes "we_bench_paused env" and "v \<in> set (check_invariants env rows now recent)"
  shows "iv_invariant_id v = ''I-1'' \<or> iv_invariant_id v = ''I-12''"
  using assms check_names(1,5) by (auto simp: check_invariants_set)

definition preflight_row :: SourceHealthRow where
  "preflight_row = (new_health_row ''brain-preflight'' 0)\<lparr>sh_consecutive_failures := 13,
     sh_last_event_ts := Some 0, sh_probe_last_run_ts := Some 0, sh_probe_ok := Some 0\<rparr>"

lemma preflight_violation:
  "\<exists>v. check_i12_brain_preflight_stuck (index_rows [preflight_row]) 5 = Some v"
  by (simp add: check_i12_brain_preflight_stuck_def index_rows_def preflight_row_def new_health_row_def)

lemma bench_pause_silences_witness:
  "\<exists>v. v \<in> set (check_invariants \<lparr>we_bench_paused = True, we_firefox_running = True\<rparr> [preflight_row] 5 True)
     \<and> (iv_invariant_id v = ''I-1'' \<or> iv_invariant_id v = ''I-12'')"
proof -
  let ?env = "\<lparr>we_bench_paused = True, we_firefox_running = True\<rparr>"
  obtain v where "check_i12_brain_preflight_stuck (index_rows [preflight_row]) 5 = Some v"
    using preflight_violation by blast
  then have v: "v \<in> set (check_invariants ?env [preflight_row] 5 True)"
    by (simp add: check_invariants_set)
  show ?thesis
    using bench_pause_silences[OF _ v] v by auto
qed

text \<open>
  Outside the bench pause, a source whose last probe failed is reported
  by I-8 under its name, however idle the shell is.
\<close>

theorem failing_probe_reported:
  assumes "\<not> we_bench_paused env" and "row \<in> set rows"
    and "sh_probe_last_run_ts row = Some p" and "sh_probe_ok row = Some 0"
  shows "\<exists>v \<in> set (check_invariants env rows now recent).
     iv_invariant_id v = ''I-8'' \<and> iv_source v = sh_source row \<and> iv_since_ms v = now - p"
proof -
  obtain v where v: "i8_row now recent row = Some v"
    using assms(3,4) by (auto simp: i8_row_def Let_def)
  have "v \<in> set (check_invariants env rows now recent)"
    using v assms(1,2) by (auto simp: check_invariants_set check_i8_probe_freshness_def set_map_filter)
  moreover have "iv_invariant_id v = ''I-8'' \<and> iv_source v = sh_source row \<and> iv_since_ms v = now - p"
    using i8_row_Some[OF v] assms(3) by auto
  ultimately show ?thesis by blast
qed

lemma failing_probe_reported_witness:
  "\<exists>v \<in> set (check_invariants \<lparr>we_bench_paused = False, we_firefox_running = False\<rparr> [preflight_row] 5 False).
     iv_invariant_id v = ''I-8'' \<and> iv_source v = ''brain-preflight'' \<and> iv_since_ms v = 5"
  using failing_probe_reported[of "\<lparr>we_bench_paused = False, we_firefox_running = False\<rparr>" preflight_row
      "[preflight_row]" 0 5 False]
  by (simp add: preflight_row_def new_health_row_def)

text \<open>The invariants of the checks outside \<open>check_invariants\<close>.\<close>

lemma db_check_names:
  "check_i14_embedding_orphans vr ns now st th = Some v \<Longrightarrow> iv_invariant_id v = ''I-14''"
  "check_i16_duplicate_agentic_nodes kas ns th = Some v \<Longrightarrow> iv_invariant_id v = ''I-16''"
  "check_i19_stale_memory_projection docs now ra = Some v \<Longrightarrow> iv_invariant_id v = ''I-19''"
  "check_i20_orphaned_memory_chunk_links ls cs rs ds now = Some v \<Longrightarrow> iv_invariant_id v = ''I-20''"
  "check_i21_backup_freshness bk cf now = Some v \<Longrightarrow> iv_invariant_id v = ''I-21''"
  by (auto simp: check_i14_embedding_orphans_def check_i16_duplicate_agentic_nodes_def
      check_i19_stale_memory_projection_def check_i20_orphaned_memory_chunk_links_def
      check_i21_backup_freshness_def Let_def split: option.splits if_splits)

lemma not_I19: "v \<in> set (suppress_disabled_auto_memory_violations (check_invariants env rows now recent) en) \<Longrightarrow>
    iv_invariant_id v \<noteq> ''I-19''"
  using check_names i8_ids
  by (auto simp: suppress_disabled_auto_memory_violations_def check_invariants_set split: if_splits)

lemma cycle_violations_set:
  "set (cycle_violations cfg env ps bk ok rows db now) =
     set (suppress_operator_paused_violations (suppress_disabled_auto_memory_violations
       (check_invariants env rows now (if ok then shell_real_activity_recent (wd_events db) now SHELL_IDLE_WINDOW_MS else True))
       (wc_auto_memory_enabled cfg)) ps)
     \<union> set_option (check_i14_embedding_orphans (wd_vector_rowids db) (wd_nodes db) now
                 (wc_orphan_stale_secs cfg * 1000) (wc_reaper_alarm_threshold cfg))
     \<union> set_option (check_i16_duplicate_agentic_nodes (wd_agentic_links db) (wd_nodes db)
                 (if wc_dup_node_alarm_threshold cfg \<le> i64_max then wc_dup_node_alarm_threshold cfg else i64_max))
     \<union> (if wc_auto_memory_enabled cfg \<and> \<not> we_bench_paused env then
          (if is_paused ps then {} else set_option (check_i19_stale_memory_projection (wd_documents db) now
             (case ps of Valid st \<Rightarrow> if \<not> es_paused st then Some (es_changed_at_ms st) else None | _ \<Rightarrow> None)))
          \<union> set_option (check_i20_orphaned_memory_chunk_links (wd_chunk_links db) (wd_chunks db)
                       (wd_revisions db) (case wd_documents db of None \<Rightarrow> [] | Some d \<Rightarrow> d) now)
        else {})
     \<union> set_option (check_i21_backup_freshness bk (wc_backup_configured cfg) now)"
  by (simp add: cycle_violations_def Let_def Un_ac)

text \<open>
  A paused or unreadable pause state removes exactly the brain
  preflight and the stale projection from what a cycle would report without a state file.
\<close>

theorem operator_pause_silences:
  assumes "is_paused ps"
  shows "set (cycle_violations cfg env ps bk ok rows db now)
       = {v \<in> set (cycle_violations cfg env Missing bk ok rows db now).
            iv_invariant_id v \<noteq> ''I-12'' \<and> iv_invariant_id v \<noteq> ''I-19''}"
proof -
  let ?Q = "\<lambda>v. iv_invariant_id v \<noteq> ''I-12'' \<and> iv_invariant_id v \<noteq> ''I-19''"
  define X where "X = set (suppress_disabled_auto_memory_violations
       (check_invariants env rows now (if ok then shell_real_activity_recent (wd_events db) now SHELL_IDLE_WINDOW_MS else True))
       (wc_auto_memory_enabled cfg))"
  define A where "A = set_option (check_i14_embedding_orphans (wd_vector_rowids db) (wd_nodes db) now
                 (wc_orphan_stale_secs cfg * 1000) (wc_reaper_alarm_threshold cfg))
     \<union> set_option (check_i16_duplicate_agentic_nodes (wd_agentic_links db) (wd_nodes db)
                 (if wc_dup_node_alarm_threshold cfg \<le> i64_max then wc_dup_node_alarm_threshold cfg else i64_max))"
  define D where "D = set_option (check_i19_stale_memory_projection (wd_documents db) now None)"
  define C where "C = set_option (check_i20_orphaned_memory_chunk_links (wd_chunk_links db) (wd_chunks db)
                       (wd_revisions db) (case wd_documents db of None \<Rightarrow> [] | Some d \<Rightarrow> d) now)"
  define B where "B = set_option (check_i21_backup_freshness bk (wc_backup_configured cfg) now)"
  let ?en = "wc_auto_memory_enabled cfg \<and> \<not> we_bench_paused env"
  have p: "set (cycle_violations cfg env ps bk ok rows db now) = {v \<in> X. ?Q v} \<union> A \<union> (if ?en then C else {}) \<union> B"
    using assms by (simp add: cycle_violations_set suppress_operator_paused_violations_def X_def A_def B_def C_def Un_ac)
  have m: "set (cycle_violations cfg env Missing bk ok rows db now) = X \<union> A \<union> (if ?en then D \<union> C else {}) \<union> B"
    by (simp add: cycle_violations_set suppress_operator_paused_violations_def X_def A_def B_def C_def D_def Un_ac)
  have q: "\<forall>v \<in> A. ?Q v" "\<forall>v \<in> B. ?Q v" "\<forall>v \<in> C. ?Q v" "\<forall>v \<in> D. iv_invariant_id v = ''I-19''"
    unfolding A_def B_def C_def D_def using db_check_names by fastforce+
  show ?thesis
    unfolding p m using q by (cases ?en) auto
qed

definition watchdog_config :: WatchdogConfig where
  "watchdog_config = \<lparr>wc_enabled = True, wc_alarm_rate_limit_minutes = 60, wc_auto_memory_enabled = True,
     wc_orphan_stale_secs = 3600, wc_reaper_alarm_threshold = 50, wc_dup_node_alarm_threshold = 0,
     wc_backup_configured = False\<rparr>"

definition no_backup :: BackupStatus where
  "no_backup = \<lparr>bs_last_success_ms = None, bs_last_scheduled_ms = None, bs_last_kind = None, bs_last_error = None,
       bs_last_verify_ms = None, bs_pending_upload = [], bs_outbox_count = 0\<rparr>"

lemma operator_pause_silences_witness:
  "''I-12'' \<notin> iv_invariant_id ` set (cycle_violations watchdog_config
      \<lparr>we_bench_paused = False, we_firefox_running = False\<rparr> (Invalid ''bad'') no_backup True [preflight_row] empty_db 5)"
  using operator_pause_silences[of "Invalid ''bad''" watchdog_config
      "\<lparr>we_bench_paused = False, we_firefox_running = False\<rparr>" no_backup True "[preflight_row]" empty_db 5]
  by auto

subsection \<open>Checks over joins\<close>

lemma count_list_distinct: "distinct ks \<longleftrightarrow> (\<forall>k \<in> set ks. count_list ks k \<le> 1)"
proof (induction ks)
  case (Cons k ks)
  have "count_list ks k = 0 \<longleftrightarrow> k \<notin> set ks" by (rule count_list_0_iff)
  then show ?case using Cons by (auto simp: le_Suc_eq)
qed simp

lemma duplicate_groups_Nil: "duplicate_groups ks = [] \<longleftrightarrow> distinct ks"
  unfolding duplicate_groups_def count_list_distinct by (auto simp: filter_empty_conv not_less)

text \<open>
  With the default threshold of zero, I-16 is reported exactly when some
  segment carries the same content, embedding text and type twice.
\<close>

theorem duplicate_nodes_iff:
  "check_i16_duplicate_agentic_nodes (Some links) nodes 0 \<noteq> None \<longleftrightarrow> \<not> distinct (segment_node_keys links nodes)"
  unfolding duplicate_groups_Nil[symmetric]
  by (simp add: check_i16_duplicate_agentic_nodes_def Let_def)

text \<open>
  I-20 is reported exactly when an active document outside the probe
  repository has a chunk of its active revision that no knowledge node links to.
\<close>

theorem orphan_links_iff:
  "check_i20_orphaned_memory_chunk_links (Some ls) chunks revisions docs now \<noteq> None \<longleftrightarrow>
     (\<exists>mc \<in> set chunks. \<exists>mr \<in> set revisions. \<exists>md \<in> set docs.
        mr_id mr = mc_revision_id mc \<and> md_id md = mr_document_id mr
        \<and> md_active_revision_id md = Some (mr_id mr) \<and> md_state md = ''active''
        \<and> md_repository md \<noteq> AUTO_MEMORY_PROBE_REPOSITORY
        \<and> mc_id mc \<notin> snd ` set ls)"
proof -
  have none: "None \<in> set (left_join_links ls c) \<longleftrightarrow> c \<notin> snd ` set ls" for c
    by (auto simp: left_join_links_def Let_def filter_empty_conv)
  define R where "R = [(). mc \<leftarrow> chunks, node \<leftarrow> left_join_links ls (mc_id mc),
                     mr \<leftarrow> revisions, mr_id mr = mc_revision_id mc,
                     md \<leftarrow> docs, md_id md = mr_document_id mr,
                     md_active_revision_id md = Some (mr_id mr) \<and> md_state md = ''active''
                     \<and> md_repository md \<noteq> AUTO_MEMORY_PROBE_REPOSITORY \<and> node = None]"
  have "check_i20_orphaned_memory_chunk_links (Some ls) chunks revisions docs now \<noteq> None \<longleftrightarrow> R \<noteq> []"
    by (simp add: check_i20_orphaned_memory_chunk_links_def Let_def R_def[symmetric])
  also have "R \<noteq> [] \<longleftrightarrow> () \<in> set R"
    by (cases R) auto
  finally show ?thesis
    unfolding R_def none[symmetric] by (auto split: if_splits) blast+
qed

subsection \<open>The alarm ledger\<close>

lemma insert_alarm_ok:
  "insert_alarm v now (db, []) = (Inr (), (db\<lparr>wd_alarms := wd_alarms db @
     [\<lparr>ca_id = wd_next_id db, ca_invariant_id = iv_invariant_id v, ca_raised_at = now,
        ca_details = Some (JObj [(''source'', JStr (iv_source v)), (''since_ms'', JInt (iv_since_ms v)),
                                     (''details'', iv_details v)]),
        ca_acked_at = None, ca_ack_note = None, ca_resolved_at = None, ca_clean_ticks = 0\<rparr>],
      wd_next_id := wd_next_id db + 1\<rparr>, []))"
  by (simp add: insert_alarm_def Let_def)

definition raised_recently :: "int \<Rightarrow> int \<Rightarrow> string \<Rightarrow> alarm \<Rightarrow> bool" where
  "raised_recently now limit i a = (active a \<and> ca_invariant_id a = i \<and> now - limit < ca_raised_at a)"

text \<open>Without faults, raising only appends rows, logs every violation and covers every invariant.\<close>

lemma raise_alarms_ok:
  assumes "0 < limit"
  shows "\<exists>db' added. raise_alarms now limit vs (db, []) = (Inr (), (db', []))
    \<and> wd_alarms db' = wd_alarms db @ added
    \<and> wd_log db' = wd_log db @ map pair_of vs
    \<and> (\<forall>v \<in> set vs. \<exists>a \<in> set (wd_alarms db'). raised_recently now limit (iv_invariant_id v) a)"
proof (induction vs arbitrary: db)
  case Nil
  then show ?case by (intro exI[of _ db] exI[of _ "[]"]) simp
next
  case (Cons v vs)
  let ?db1 = "db\<lparr>wd_log := wd_log db @ [pair_of v]\<rparr>"
  have pr: "(iv_invariant_id v, iv_source v) = pair_of v" by (simp add: pair_of_def)
  show ?case
  proof (cases "check_rate_limit (wd_alarms ?db1) (iv_invariant_id v) now limit")
    case True
    obtain db' added where ih: "raise_alarms now limit vs (?db1, []) = (Inr (), (db', []))"
      "wd_alarms db' = wd_alarms ?db1 @ added" "wd_log db' = wd_log ?db1 @ map pair_of vs"
      "\<forall>v \<in> set vs. \<exists>a \<in> set (wd_alarms db'). raised_recently now limit (iv_invariant_id v) a"
      using Cons.IH[of ?db1] by blast
    have "\<exists>a \<in> set (wd_alarms db). raised_recently now limit (iv_invariant_id v) a"
      using True by (auto simp: check_rate_limit_def Let_def list_ex_iff raised_recently_def active_def)
    then show ?thesis
      using ih True by (intro exI[of _ db'] exI[of _ added]) (auto simp: Let_def pr)
  next
    case False
    obtain db2 row where ins: "insert_alarm v now (?db1, []) = (Inr (), (db2, []))"
      "wd_alarms db2 = wd_alarms db @ [row]" "wd_log db2 = wd_log ?db1"
      "raised_recently now limit (iv_invariant_id v) row"
      using assms by (simp add: insert_alarm_ok raised_recently_def active_def)
    obtain db' added where ih: "raise_alarms now limit vs (db2, []) = (Inr (), (db', []))"
      "wd_alarms db' = wd_alarms db2 @ added" "wd_log db' = wd_log db2 @ map pair_of vs"
      "\<forall>v \<in> set vs. \<exists>a \<in> set (wd_alarms db'). raised_recently now limit (iv_invariant_id v) a"
      using Cons.IH[of db2] by blast
    have "raise_alarms now limit (v # vs) (db, []) = (Inr (), (db', []))"
      using False ins(1) ih(1) by (simp add: Let_def pr with_busy_retry_def)
    then show ?thesis
      using ih ins by (intro exI[of _ db'] exI[of _ "row # added"]) auto
  qed
qed

text \<open>
  When the inserts succeed, after a cycle raised its alarms every
  violation has an active alarm of its invariant raised within the rate limit, every violation has
  a log line, and no earlier alarm is changed.
\<close>

theorem every_violation_alarmed:
  assumes "0 < limit"
  shows "\<exists>db' added. raise_alarms now limit vs (db, []) = (Inr (), (db', []))
    \<and> wd_alarms db' = wd_alarms db @ added \<and> wd_log db' = wd_log db @ map pair_of vs
    \<and> (\<forall>v \<in> set vs. \<exists>a \<in> set (wd_alarms db'). active a \<and> ca_invariant_id a = iv_invariant_id v
         \<and> now - limit < ca_raised_at a)"
  using raise_alarms_ok[OF assms] unfolding raised_recently_def .

lemma every_violation_alarmed_witness:
  "\<exists>db'. raise_alarms 7 3600000 [some_violation ''I-8'' ''shell'', some_violation ''I-8'' ''browser''] (empty_db, [])
      = (Inr (), (db', [])) \<and> wd_log db' = [(''I-8'', ''shell''), (''I-8'', ''browser'')]"
  using every_violation_alarmed[of 3600000 7 "[some_violation ''I-8'' ''shell'', some_violation ''I-8'' ''browser'']" empty_db]
  by (auto simp: empty_db_def pair_of_def some_violation_def)

text \<open>
  The auto-resolve loop never resolves an alarm whose invariant and
  source are still violated, and it puts its clean-tick count back to zero.
\<close>

theorem violating_alarm_stays:
  assumes "distinct (map ca_id alarms)" and "a \<in> set alarms" and "active a"
    and "alarm_source a = Some src" and "(ca_invariant_id a, src) \<in> set (map pair_of vs)"
  shows "a\<lparr>ca_clean_ticks := 0\<rparr> \<in> set (fst (auto_resolve_alarms alarms vs now))"
proof -
  have "map (\<lambda>v. (iv_invariant_id v, iv_source v)) vs = map pair_of vs"
    by (simp add: pair_of_def)
  then have "resolve_one (map (\<lambda>v. (iv_invariant_id v, iv_source v)) vs) now a = a\<lparr>ca_clean_ticks := 0\<rparr>"
    using assms(3-5) by (simp only: resolve_one_def if_True not_True_eq_False if_False option.case)
  then show ?thesis
    unfolding auto_resolve_map[OF assms(1)] using assms(2) by force
qed

definition some_alarm :: "int \<Rightarrow> string \<Rightarrow> string \<Rightarrow> int \<Rightarrow> alarm" where
  "some_alarm i iid src raised = \<lparr>ca_id = i, ca_invariant_id = iid, ca_raised_at = raised,
     ca_details = Some (JObj [(''source'', JStr src)]), ca_acked_at = None, ca_ack_note = None,
     ca_resolved_at = None, ca_clean_ticks = 1\<rparr>"

lemma alarm_source_some_alarm: "alarm_source (some_alarm i iid src raised) = Some src"
  by (simp add: alarm_source_def some_alarm_def str_field_def)

lemma violating_alarm_stays_witness:
  "(some_alarm 1 ''I-1'' ''shell'' 0)\<lparr>ca_clean_ticks := 0\<rparr>
     \<in> set (fst (auto_resolve_alarms [some_alarm 1 ''I-1'' ''shell'' 0] [some_violation ''I-1'' ''shell''] 9))"
  using violating_alarm_stays[of "[some_alarm 1 ''I-1'' ''shell'' 0]" "some_alarm 1 ''I-1'' ''shell'' 0" "''shell''"
      "[some_violation ''I-1'' ''shell'']" 9] alarm_source_some_alarm[of 1 "''I-1''" "''shell''" 0]
  by (simp add: some_alarm_def active_def pair_of_def some_violation_def)

text \<open>
  An active alarm with no clean tick whose pair two consecutive cycles
  do not violate is resolved at the second, whatever else the cycles report.
\<close>

theorem two_clean_ticks_resolve:
  assumes "distinct (map ca_id alarms)" and "a \<in> set alarms" and "active a"
    and "alarm_source a = Some src" and "ca_clean_ticks a = 0"
    and "(ca_invariant_id a, src) \<notin> set (map pair_of vs1)"
    and "(ca_invariant_id a, src) \<notin> set (map pair_of vs2)"
  shows "a\<lparr>ca_clean_ticks := 2, ca_resolved_at := Some now2\<rparr>
    \<in> set (fst (auto_resolve_alarms (fst (auto_resolve_alarms alarms vs1 now1)) vs2 now2))"
proof -
  have pm: "map (\<lambda>v. (iv_invariant_id v, iv_source v)) vs = map pair_of vs" for vs
    by (simp add: pair_of_def)
  let ?a1 = "a\<lparr>ca_clean_ticks := 1\<rparr>"
  have one: "resolve_one (map pair_of vs1) now1 a = ?a1"
    using assms(3-6) by (simp add: resolve_one_def)
  have src: "alarm_source ?a1 = Some src" "active ?a1"
    using assms(3,4) by (simp_all add: alarm_source_def active_def)
  have two: "resolve_one (map pair_of vs2) now2 ?a1 = a\<lparr>ca_clean_ticks := 2, ca_resolved_at := Some now2\<rparr>"
    using src assms(7) by (simp add: resolve_one_def)
  let ?mid = "map (resolve_one (map pair_of vs1) now1) alarms"
  have d: "distinct (map ca_id ?mid)"
    using assms(1) by (simp add: comp_def)
  have "?a1 \<in> set ?mid"
    using one assms(2) by force
  then have "resolve_one (map pair_of vs2) now2 ?a1 \<in> set (map (resolve_one (map pair_of vs2) now2) ?mid)"
    unfolding set_map[of "resolve_one (map pair_of vs2) now2"] by (rule imageI)
  then show ?thesis
    unfolding auto_resolve_map[OF assms(1)] pm auto_resolve_map[OF d] two .
qed

lemma two_clean_ticks_resolve_witness:
  "(some_alarm 1 ''I-1'' ''shell'' 0)\<lparr>ca_clean_ticks := 2, ca_resolved_at := Some 10\<rparr>
     \<in> set (fst (auto_resolve_alarms (fst (auto_resolve_alarms
          [(some_alarm 1 ''I-1'' ''shell'' 0)\<lparr>ca_clean_ticks := 0\<rparr>] [some_violation ''I-1'' ''browser''] 9)) [] 10))"
  using two_clean_ticks_resolve[of "[(some_alarm 1 ''I-1'' ''shell'' 0)\<lparr>ca_clean_ticks := 0\<rparr>]"
      "(some_alarm 1 ''I-1'' ''shell'' 0)\<lparr>ca_clean_ticks := 0\<rparr>" "''shell''" "[some_violation ''I-1'' ''browser'']" "[]" 10 9]
  by (simp add: some_alarm_def active_def pair_of_def some_violation_def alarm_source_def str_field_def)

lemma empty_ledger_inv: "ledger_inv limit empty_db"
  by (simp add: ledger_inv_def empty_db_def)

lemma sorted_wrt_pairs:
  "sorted_wrt P xs \<Longrightarrow> a \<in> set xs \<Longrightarrow> b \<in> set xs \<Longrightarrow> a = b \<or> P a b \<or> P b a"
  by (induction xs) auto

text \<open>
  C14 (alarms_spaced): from an empty ledger, after any ticks, acks and prunes with any insert
  faults, two different active alarms of one invariant were raised at least the rate limit apart,
  whatever their sources are.
\<close>

theorem alarms_spaced:
  assumes "a \<in> set (wd_alarms (foldl (ledger_step limit) empty_db events))"
    and "b \<in> set (wd_alarms (foldl (ledger_step limit) empty_db events))"
    and "a \<noteq> b" and "active a" and "active b" and "ca_invariant_id a = ca_invariant_id b"
  shows "limit \<le> \<bar>ca_raised_at a - ca_raised_at b\<bar>"
proof -
  have "ledger_inv limit (foldl (ledger_step limit) empty_db events)"
    by (rule ledger.run_inv[OF empty_ledger_inv])
  then have "sorted_wrt (spaced limit) (wd_alarms (foldl (ledger_step limit) empty_db events))"
    by (simp only: ledger_inv_def)
  from sorted_wrt_pairs[OF this assms(1,2)] assms(3) have "spaced limit a b \<or> spaced limit b a"
    by blast
  then show ?thesis
    using assms(4-6) by (auto simp: spaced_def)
qed

text \<open>A violation that lasts: one tick every rate-limit period.\<close>

definition sustained_ticks :: "int \<Rightarrow> int \<Rightarrow> InvariantViolation \<Rightarrow> nat \<Rightarrow> ledger_event list" where
  "sustained_ticks limit t0 v n = map (\<lambda>k. Tick (t0 + int k * limit) [v] []) [0..<n]"

definition sustained_inv :: "int \<Rightarrow> int \<Rightarrow> InvariantViolation \<Rightarrow> nat \<Rightarrow> watchdog_db \<Rightarrow> bool" where
  "sustained_inv limit t0 v n db = (distinct (map ca_id (wd_alarms db))
     \<and> list_all (\<lambda>a. ca_id a < wd_next_id db) (wd_alarms db) \<and> length (wd_alarms db) = n
     \<and> list_all (\<lambda>a. active a \<and> ca_invariant_id a = iv_invariant_id v \<and> alarm_source a = Some (iv_source v)
           \<and> ca_clean_ticks a = 0 \<and> ca_raised_at a + limit \<le> t0 + int n * limit) (wd_alarms db))"

lemma sustained_step:
  assumes inv: "sustained_inv limit t0 v n db" and "0 < limit"
  shows "sustained_inv limit t0 v (Suc n) (ledger_step limit db (Tick (t0 + int n * limit) [v] []))"
proof -
  let ?now = "t0 + int n * limit"
  let ?db1 = "db\<lparr>wd_log := wd_log db @ [(iv_invariant_id v, iv_source v)]\<rparr>"
  define row where "row = \<lparr>ca_id = wd_next_id db, ca_invariant_id = iv_invariant_id v, ca_raised_at = ?now,
        ca_details = Some (JObj [(''source'', JStr (iv_source v)), (''since_ms'', JInt (iv_since_ms v)),
                                     (''details'', iv_details v)]),
        ca_acked_at = None, ca_ack_note = None, ca_resolved_at = None, ca_clean_ticks = 0\<rparr>"
  define db2 where "db2 = ?db1\<lparr>wd_alarms := wd_alarms db @ [row], wd_next_id := wd_next_id db + 1\<rparr>"
  have "\<not> check_rate_limit (wd_alarms ?db1) (iv_invariant_id v) ?now limit"
    using inv by (auto simp: check_rate_limit_def Let_def list_ex_iff list_all_iff sustained_inv_def)
  then have raise: "raise_alarms ?now limit [v] (db, []) = (Inr (), (db2, []))"
    by (simp add: Let_def with_busy_retry_def insert_alarm_ok db2_def row_def)
  have row: "active row" "ca_invariant_id row = iv_invariant_id v" "alarm_source row = Some (iv_source v)"
    "ca_clean_ticks row = 0" "ca_raised_at row = ?now" "ca_id row = wd_next_id db"
    by (simp_all add: row_def active_def alarm_source_def str_field_def)
  have d: "distinct (map ca_id (wd_alarms db2))"
    using inv row(6) by (force simp: sustained_inv_def db2_def list_all_iff)
  have same: "resolve_one [(iv_invariant_id v, iv_source v)] ?now a = a" if "a \<in> set (wd_alarms db2)" for a
  proof -
    have "active a" "ca_invariant_id a = iv_invariant_id v" "alarm_source a = Some (iv_source v)" "ca_clean_ticks a = 0"
      using that inv row by (auto simp: sustained_inv_def db2_def list_all_iff)
    then show ?thesis by (simp add: resolve_one_def)
  qed
  have "fst (auto_resolve_alarms (wd_alarms db2) [v] ?now) = wd_alarms db2"
    unfolding auto_resolve_map[OF d] list.map using same by (rule map_idI)
  then have "ledger_step limit db (Tick ?now [v] []) = db2"
    using raise by (simp add: db2_def)
  moreover have "sustained_inv limit t0 v (Suc n) db2"
    unfolding sustained_inv_def
  proof (intro conjI d)
    show "list_all (\<lambda>a. ca_id a < wd_next_id db2) (wd_alarms db2)" "length (wd_alarms db2) = Suc n"
      using inv row(6) by (auto simp: sustained_inv_def db2_def list_all_iff)
    have le: "?now \<le> t0 + int (Suc n) * limit" "?now + limit \<le> t0 + int (Suc n) * limit"
      using assms(2) by (simp_all add: algebra_simps)
    have old: "ca_raised_at a + limit \<le> t0 + int (Suc n) * limit" if "a \<in> set (wd_alarms db)" for a
      using inv that le(1) by (force simp: sustained_inv_def list_all_iff)
    show "list_all (\<lambda>a. active a \<and> ca_invariant_id a = iv_invariant_id v \<and> alarm_source a = Some (iv_source v)
           \<and> ca_clean_ticks a = 0 \<and> ca_raised_at a + limit \<le> t0 + int (Suc n) * limit) (wd_alarms db2)"
      using inv row(1-5) le(2) old by (simp add: sustained_inv_def db2_def list_all_iff)
  qed
  ultimately show ?thesis by simp
qed

lemma sustained_run:
  "0 < limit \<Longrightarrow> sustained_inv limit t0 v n (foldl (ledger_step limit) empty_db (sustained_ticks limit t0 v n))"
proof (induction n)
  case 0
  then show ?case by (simp add: sustained_ticks_def sustained_inv_def empty_db_def)
next
  case (Suc n)
  then show ?case
    using sustained_step[of limit t0 v n] by (simp add: sustained_ticks_def)
qed

text \<open>
  One source violating one invariant, seen once per rate-limit
  period, adds an active alarm per period: after \<open>n\<close> periods \<open>n\<close> alarms are active, so ten
  periods take the health grade from 100 to 0.
\<close>

theorem sustained_violation_accumulates:
  assumes "0 < limit"
  shows "read_alarm_count (wd_alarms (foldl (ledger_step limit) empty_db (sustained_ticks limit t0 v n))) = int n
    \<and> compute_grade (read_alarm_count (wd_alarms (foldl (ledger_step limit) empty_db (sustained_ticks limit t0 v 10)))) = 0"
proof -
  have c: "read_alarm_count (wd_alarms (foldl (ledger_step limit) empty_db (sustained_ticks limit t0 v m))) = int m" for m
  proof -
    let ?as = "wd_alarms (foldl (ledger_step limit) empty_db (sustained_ticks limit t0 v m))"
    have "length ?as = m" "list_all active ?as"
      using sustained_run[OF assms, of t0 v m] by (auto simp: sustained_inv_def list_all_iff)
    moreover have "filter (\<lambda>a. ca_acked_at a = None \<and> ca_resolved_at a = None) ?as = ?as"
      using calculation(2) by (simp add: filter_id_conv list_all_iff active_def)
    ultimately show ?thesis by (simp add: read_alarm_count_def sql_count_def)
  qed
  show ?thesis by (simp add: c compute_grade_def sat_u64_def int_bounds)
qed

lemma sustained_violation_accumulates_witness:
  "read_alarm_count (wd_alarms (foldl (ledger_step 3600000) empty_db
     (sustained_ticks 3600000 0 (some_violation ''I-12'' ''brain-preflight'') 3))) = 3"
  using sustained_violation_accumulates[of 3600000 0 "some_violation ''I-12'' ''brain-preflight''" 3] by simp

lemma alarms_spaced_witness:
  "\<exists>a b. a \<noteq> b \<and> active a \<and> active b \<and> ca_invariant_id a = ca_invariant_id b
     \<and> 3600000 \<le> \<bar>ca_raised_at a - ca_raised_at b\<bar>"
proof -
  let ?v = "some_violation ''I-8'' ''shell''"
  let ?as = "wd_alarms (foldl (ledger_step 3600000) empty_db (sustained_ticks 3600000 0 ?v 2))"
  have inv: "sustained_inv 3600000 0 ?v 2 (foldl (ledger_step 3600000) empty_db (sustained_ticks 3600000 0 ?v 2))"
    by (rule sustained_run) simp
  then have len: "length ?as = 2" "distinct (map ca_id ?as)"
    by (simp_all add: sustained_inv_def)
  then obtain a b where ab: "?as = [a, b]"
    by (auto simp: length_Suc_conv numeral_2_eq_2)
  then have "a \<in> set ?as" "b \<in> set ?as" "a \<noteq> b" "active a" "active b" "ca_invariant_id a = ca_invariant_id b"
    using inv len by (auto simp: sustained_inv_def)
  then show ?thesis
    using alarms_spaced[of a 3600000 "sustained_ticks 3600000 0 ?v 2" b] by blast
qed

text \<open>
  The health grade is between 0 and 100, falls by ten per active alarm, and is 0
  exactly from ten alarms on.
\<close>

theorem grade_bounds:
  "0 \<le> compute_grade (read_alarm_count alarms) \<and> compute_grade (read_alarm_count alarms) \<le> 100
   \<and> compute_grade (read_alarm_count alarms) = max 0 (100 - 10 * read_alarm_count alarms)
   \<and> (compute_grade (read_alarm_count alarms) = 0 \<longleftrightarrow> 10 \<le> read_alarm_count alarms)"
proof -
  define n where "n = read_alarm_count alarms"
  have n: "0 \<le> n" by (simp add: n_def read_alarm_count_def)
  have g: "compute_grade n = max 0 (100 - 10 * n)"
    using n unfolding compute_grade_def sat_u64_def int_bounds by (simp add: min_def max_def)
  show ?thesis unfolding n_def[symmetric] g using n by auto
qed

subsection \<open>The enrichment pause\<close>

text \<open>
  A write that succeeds reads back as the requested state and makes a
  repetition of the request a no-op that keeps the first time; a write that fails leaves the file
  as it was. The reading of a file nobody can parse stays paused until a write succeeds.
\<close>

theorem pause_write_durable:
  assumes "\<And>s. parse (print s) = Inr s" and "write_state parse print io f p now = (r, f')"
  shows "(\<forall>e. r = Inl e \<longrightarrow> f' = f)
    \<and> (\<forall>s. r = Inr s \<longrightarrow> read_state parse f' = Valid s \<and> es_paused s = p
          \<and> write_state parse print io2 f' p now2 = (Inr s, f'))"
  using write_state_error_keeps_file[of parse print io f p now] write_state_reads_back[of parse print io f p now]
    write_state_idempotent[of parse print io f p now] assms
  by blast

definition tally_print :: "EnrichmentState \<Rightarrow> string" where
  "tally_print s = (if es_paused s then CHR ''p'' else CHR ''u'')
     # (if es_changed_at_ms s < 0 then CHR ''-'' else CHR ''+'') # replicate (nat \<bar>es_changed_at_ms s\<bar>) (CHR ''i'')"

fun tally_parse :: "string \<Rightarrow> string + EnrichmentState" where
  "tally_parse (a # b # r) = Inr \<lparr>es_paused = (a = CHR ''p''),
     es_changed_at_ms = (if b = CHR ''-'' then - int (length r) else int (length r))\<rparr>"
| "tally_parse _ = Inl ''EOF while parsing''"

lemma tally_roundtrip: "tally_parse (tally_print s) = Inr s"
  by (cases s) (simp add: tally_print_def)

lemma pause_write_durable_witness:
  "\<exists>s f'. write_state tally_parse tally_print \<lparr>wf_mkdir = None, wf_tmp = None, wf_rename = None\<rparr> (FileText ''x'') True 7
      = (Inr s, f') \<and> read_state tally_parse f' = Valid s \<and> es_paused s"
proof -
  let ?io = "\<lparr>wf_mkdir = None, wf_tmp = None, wf_rename = None\<rparr>"
  let ?s = "\<lparr>es_paused = True, es_changed_at_ms = 7\<rparr>"
  have w: "write_state tally_parse tally_print ?io (FileText ''x'') True 7 = (Inr ?s, FileText (tally_print ?s))"
    by (simp add: write_state_def Let_def)
  show ?thesis
    using pause_write_durable[OF tally_roundtrip w] w by auto
qed

subsection \<open>Distinct violations, on a stale shell row\<close>

lemma violations_distinct_witness:
  "distinct (map pair_of (check_invariants \<lparr>we_bench_paused = False, we_firefox_running = True\<rparr>
     [shell_row (Some 0) (Some 0) (Some 0), new_health_row ''browser'' 0] 500000 True))"
  by (rule violations_distinct) (simp add: shell_row_def new_health_row_def)

subsection \<open>Artifact ids\<close>

text \<open>
  Whatever the label, an entry named after an id that a run builds passes
  the check that guards every join of a manifest value to a path, and the label adds at most 41
  characters to the id.
\<close>

theorem artifact_id_valid:
  assumes "list_all id_char (ts ms)"
    and "me_id e = artifact_id ts kind ms label" and "me_file e = me_id e @ ARTIFACT_EXT"
  shows "valid_entry e \<and> length (me_id e) \<le> 17 + length (ts ms) + 41
    \<and> CHR ''/'' \<notin> set (me_id e) \<and> CHR ''.'' \<notin> set (me_id e)"
proof -
  have c: "list_all id_char (me_id e)"
    unfolding assms(2) by (rule artifact_id_chars[of ts, OF assms(1)])
  then have "CHR ''/'' \<notin> set (me_id e) \<and> CHR ''.'' \<notin> set (me_id e)"
    using id_char_not_path by (auto simp: list_all_iff)
  moreover have "length (me_id e) \<le> 17 + length (ts ms) + 41"
    unfolding assms(2)
    by (cases kind; cases label) (auto simp: artifact_id_def Let_def intro: order_trans[OF slug_of_length])
  moreover have "valid_entry e"
    using c assms(2,3) artifact_id_prefix[of ts kind ms label] by (simp add: valid_entry_def Let_def)
  ultimately show ?thesis by blast
qed

lemma artifact_id_valid_witness:
  "valid_entry ((\<lparr>me_meta = \<lparr>am_id = artifact_id (\<lambda>_. ''20260101T000000Z'') Checkpoint 5 (Some ''../before v2''),
       am_kind = Checkpoint, am_label = Some ''../before v2'', am_created_ms = 5, am_base_id = None,
       am_hippo_version = ''0'', am_schema_version = 29, am_db_sha256 = ''x'', am_row_counts = []\<rparr>,
     me_file = artifact_id (\<lambda>_. ''20260101T000000Z'') Checkpoint 5 (Some ''../before v2'') @ ARTIFACT_EXT,
     me_ciphertext_sha256 = ''y'', me_verified = True, me_shipped_ms = None, me_uploaded = False\<rparr>))"
  using artifact_id_valid[of "\<lambda>_. ''20260101T000000Z''" 5 _ Checkpoint "Some ''../before v2''"]
  by (simp add: id_char_def is_ascii_alphanumeric_def is_digit_def is_upper_def is_lower_def)

end
