(* ===== verification/Retention.thy ===== *)
theory Retention
  imports BackupTypes "HOL-Library.List_Lexorder" "HOL-Library.Char_ord"
begin

text \<open>
  The retention planner (\<open>hippo-daemon/src/backup/retention.rs\<close>): which verified artifacts a backup
  run deletes. \<open>chrono\<close>'s calendar is the parameter \<open>month\<close>: the UTC year and month of an epoch
  millisecond, \<open>None\<close> when the time cannot be represented.
\<close>

subsection \<open>Extremal elements of a list\<close>

text \<open>The earliest element with the least key, and \<open>Iterator::max_by_key\<close>, which returns the last
  element with the greatest key.\<close>

fun first_min :: "('a \<Rightarrow> int) \<Rightarrow> 'a list \<Rightarrow> 'a option" where
  "first_min f [] = None"
| "first_min f (x # xs) = (case first_min f xs of
     None \<Rightarrow> Some x | Some y \<Rightarrow> if f x \<le> f y then Some x else Some y)"

fun max_by_key :: "('a \<Rightarrow> int) \<Rightarrow> 'a list \<Rightarrow> 'a option" where
  "max_by_key f [] = None"
| "max_by_key f (x # xs) = (case max_by_key f xs of
     None \<Rightarrow> Some x | Some y \<Rightarrow> if f x > f y then Some x else Some y)"

lemma first_min_None [simp]: "first_min f xs = None \<longleftrightarrow> xs = []"
  by (cases xs) (auto split: option.splits)

lemma max_by_key_None [simp]: "max_by_key f xs = None \<longleftrightarrow> xs = []"
  by (cases xs) (auto split: option.splits)

lemma first_min_Some: "first_min f xs = Some x \<Longrightarrow> x \<in> set xs \<and> (\<forall>y \<in> set xs. f x \<le> f y)"
proof (induction xs arbitrary: x)
  case (Cons a xs)
  then show ?case by (cases "first_min f xs") (auto split: if_splits)
qed simp

lemma max_by_key_Some: "max_by_key f xs = Some x \<Longrightarrow> x \<in> set xs \<and> (\<forall>y \<in> set xs. f y \<le> f x)"
proof (induction xs arbitrary: x)
  case (Cons a xs)
  then show ?case by (cases "max_by_key f xs") (auto split: if_splits)
qed simp

text \<open>Dropping other elements does not change either.\<close>

lemma first_min_filter: "first_min f xs = Some x \<Longrightarrow> P x \<Longrightarrow> first_min f (filter P xs) = Some x"
proof (induction xs arbitrary: x)
  case (Cons a xs)
  show ?case
  proof (cases "first_min f xs")
    case None
    then show ?thesis using Cons.prems by simp
  next
    case (Some y)
    show ?thesis
    proof (cases "f a \<le> f y")
      case True
      then have "x = a" using Cons.prems Some by simp
      moreover have "f a \<le> f z" if "first_min f (filter P xs) = Some z" for z
        using first_min_Some[OF that] first_min_Some[OF Some] True by force
      ultimately show ?thesis using Cons.prems(2) by (auto split: option.splits)
    next
      case False
      then have "x = y" using Cons.prems Some by simp
      then show ?thesis using Cons.IH[of y] Some Cons.prems(2) False by simp
    qed
  qed
qed simp

lemma max_by_key_filter: "max_by_key f xs = Some x \<Longrightarrow> P x \<Longrightarrow> max_by_key f (filter P xs) = Some x"
proof (induction xs arbitrary: x)
  case (Cons a xs)
  show ?case
  proof (cases "max_by_key f xs")
    case None
    then show ?thesis using Cons.prems by simp
  next
    case (Some y)
    show ?thesis
    proof (cases "f a > f y")
      case True
      then have "x = a" using Cons.prems Some by simp
      moreover have "f z < f a" if "max_by_key f (filter P xs) = Some z" for z
        using max_by_key_Some[OF that] max_by_key_Some[OF Some] True by force
      ultimately show ?thesis using Cons.prems(2) by (auto split: option.splits)
    next
      case False
      then have "x = y" using Cons.prems Some by simp
      then show ?thesis using Cons.IH[of y] Some Cons.prems(2) False by simp
    qed
  qed
qed simp

lemma first_min_map: "first_min f (map g xs) = map_option g (first_min (\<lambda>x. f (g x)) xs)"
  by (induction xs) (auto split: option.splits)

subsection \<open>plan\_prune\<close>

definition DAY_MS :: int where [hippo_defs]: "DAY_MS = 86400000"
definition DELTA_KEEP_DAYS :: int where [hippo_defs]: "DELTA_KEEP_DAYS = 90"
definition FULL_KEEP_DAYS :: int where [hippo_defs]: "FULL_KEEP_DAYS = 365"
definition CHECKPOINT_KEEP_DAYS :: int where [hippo_defs]: "CHECKPOINT_KEEP_DAYS = 365"

definition within_days :: "int \<Rightarrow> ManifestEntry \<Rightarrow> int \<Rightarrow> bool" where
  "within_days now_ms e days = (now_ms - me_created_ms e \<le> days * DAY_MS)"

text \<open>
  References into the slice are compared by address, so an entry goes with its position. The
  fold is the \<open>BTreeMap\<close> loop: the first entry of a month takes the slot, a strictly earlier
  one replaces it.
\<close>

type_synonym entry_ref = "nat \<times> ManifestEntry"

definition fom_step ::
  "(int \<Rightarrow> (int \<times> int) option) \<Rightarrow> (int \<times> int \<Rightarrow> entry_ref option) \<Rightarrow> entry_ref \<Rightarrow>
   (int \<times> int \<Rightarrow> entry_ref option)" where
  "fom_step month m r = (case month (me_created_ms (snd r)) of
     None \<Rightarrow> m
   | Some k \<Rightarrow> (case m k of
       None \<Rightarrow> m(k \<mapsto> r)
     | Some slot \<Rightarrow> if me_created_ms (snd r) < me_created_ms (snd slot) then m(k \<mapsto> r) else m))"

definition verified_refs :: "ManifestEntry list \<Rightarrow> entry_ref list" where
  "verified_refs entries = filter (\<lambda>r. me_verified (snd r)) (enumerate 0 entries)"

definition first_of_month ::
  "(int \<Rightarrow> (int \<times> int) option) \<Rightarrow> ManifestEntry list \<Rightarrow> int \<times> int \<Rightarrow> entry_ref option" where
  "first_of_month month entries =
     foldl (fom_step month) (\<lambda>_. None) (filter (\<lambda>r. me_kind (snd r) = Full) (verified_refs entries))"

definition newest_uploaded_full :: "ManifestEntry list \<Rightarrow> string option" where
  "newest_uploaded_full entries = map_option me_id (max_by_key me_created_ms
     (filter (\<lambda>e. me_kind e = Full \<and> me_uploaded e) (filter me_verified entries)))"

definition kept_delta_bases :: "ManifestEntry list \<Rightarrow> int \<Rightarrow> string set" where
  "kept_delta_bases entries now_ms = set (List.map_filter (\<lambda>e. am_base_id (me_meta e))
     (filter (\<lambda>e. me_kind e = Delta \<and> within_days now_ms e DELTA_KEEP_DAYS) (filter me_verified entries)))"

definition keep_entry ::
  "(int \<Rightarrow> (int \<times> int) option) \<Rightarrow> ManifestEntry list \<Rightarrow> int \<Rightarrow> entry_ref \<Rightarrow> bool" where
  "keep_entry month entries now_ms r = (let e = snd r in case me_kind e of
     Delta \<Rightarrow> within_days now_ms e DELTA_KEEP_DAYS
   | Checkpoint \<Rightarrow> within_days now_ms e CHECKPOINT_KEEP_DAYS
   | Full \<Rightarrow> within_days now_ms e FULL_KEEP_DAYS
       \<or> (case month (me_created_ms e) of None \<Rightarrow> True
          | Some k \<Rightarrow> (case first_of_month month entries k of None \<Rightarrow> False | Some f \<Rightarrow> fst f = fst r))
       \<or> newest_uploaded_full entries = Some (me_id e)
       \<or> me_id e \<in> kept_delta_bases entries now_ms)"

definition plan_prune ::
  "(int \<Rightarrow> (int \<times> int) option) \<Rightarrow> ManifestEntry list \<Rightarrow> int \<Rightarrow> string list" where
  "plan_prune month entries now_ms =
     sort (map (\<lambda>r. me_id (snd r))
       (filter (\<lambda>r. \<not> keep_entry month entries now_ms r) (verified_refs entries)))"

subsection \<open>The planner without positions\<close>

text \<open>
  When ids are unique a position can be replaced by the entry itself, and the loop by the
  earliest verified full of the month.
\<close>

definition month_fulls ::
  "(int \<Rightarrow> (int \<times> int) option) \<Rightarrow> ManifestEntry list \<Rightarrow> int \<times> int \<Rightarrow> ManifestEntry list" where
  "month_fulls month es k =
     filter (\<lambda>e. me_verified e \<and> me_kind e = Full \<and> month (me_created_ms e) = Some k) es"

definition kept ::
  "(int \<Rightarrow> (int \<times> int) option) \<Rightarrow> ManifestEntry list \<Rightarrow> int \<Rightarrow> ManifestEntry \<Rightarrow> bool" where
  "kept month es now e = (case me_kind e of
     Delta \<Rightarrow> within_days now e DELTA_KEEP_DAYS
   | Checkpoint \<Rightarrow> within_days now e CHECKPOINT_KEEP_DAYS
   | Full \<Rightarrow> within_days now e FULL_KEEP_DAYS
       \<or> (case month (me_created_ms e) of None \<Rightarrow> True
          | Some k \<Rightarrow> first_min me_created_ms (month_fulls month es k) = Some e)
       \<or> newest_uploaded_full es = Some (me_id e)
       \<or> me_id e \<in> kept_delta_bases es now)"

lemma first_min_pick:
  "first_min f (s # r # xs) = first_min f ((if f r < f s then r else s) # xs)"
  by (cases "first_min f xs") auto

lemma fom_fold:
  "foldl (fom_step month) m rs k =
     first_min (\<lambda>r. me_created_ms (snd r))
       ((case m k of None \<Rightarrow> [] | Some s \<Rightarrow> [s]) @ filter (\<lambda>r. month (me_created_ms (snd r)) = Some k) rs)"
proof (induction rs arbitrary: m)
  case Nil
  then show ?case by (simp split: option.splits)
next
  case (Cons r rs)
  show ?case
  proof (cases "month (me_created_ms (snd r)) = Some k")
    case False
    then have "fom_step month m r k = m k"
      by (auto simp: fom_step_def split: option.splits)
    then show ?thesis using Cons[of "fom_step month m r"] False by simp
  next
    case True
    have "fom_step month m r k
        = Some (case m k of None \<Rightarrow> r | Some s \<Rightarrow> if me_created_ms (snd r) < me_created_ms (snd s) then r else s)"
      using True by (simp add: fom_step_def split: option.split)
    then show ?thesis
      using Cons[of "fom_step month m r"] True
      by (cases "m k") (simp_all only: foldl_Cons option.case append_Cons append_Nil filter.simps if_True simp_thms
          first_min_pick[of "\<lambda>r. me_created_ms (snd r)"])
  qed
qed

lemma map_snd_filter_enumerate: "map snd (filter (\<lambda>r. P (snd r)) (enumerate n xs)) = filter P xs"
  by (induction xs arbitrary: n) simp_all

lemma first_of_month_eq:
  "map_option snd (first_of_month month es k) = first_min me_created_ms (month_fulls month es k)"
proof -
  let ?P = "\<lambda>e. me_verified e \<and> me_kind e = Full \<and> month (me_created_ms e) = Some k"
  have "filter (\<lambda>r. month (me_created_ms (snd r)) = Some k)
      (filter (\<lambda>r. me_kind (snd r) = Full) (verified_refs es)) = filter (\<lambda>r. ?P (snd r)) (enumerate 0 es)"
    unfolding verified_refs_def filter_filter by (rule filter_cong) auto
  then have "first_of_month month es k
      = first_min (\<lambda>r. me_created_ms (snd r)) (filter (\<lambda>r. ?P (snd r)) (enumerate 0 es))"
    unfolding first_of_month_def fom_fold by (simp only: option.case append_Nil)
  then show ?thesis
    unfolding month_fulls_def map_snd_filter_enumerate[of ?P 0 es, symmetric] by (simp only: first_min_map)
qed

lemma enumerate_nth: "r \<in> set (enumerate 0 es) \<Longrightarrow> fst r < length es \<and> es ! fst r = snd r"
  by (cases r) (auto simp: in_set_enumerate_eq)

lemma refs_same:
  assumes "distinct (map me_id es)" and "a \<in> set (enumerate 0 es)" and "b \<in> set (enumerate 0 es)"
  shows "fst a = fst b \<longleftrightarrow> snd a = snd b"
  using enumerate_nth[OF assms(2)] enumerate_nth[OF assms(3)] assms(1)
  by (metis distinct_map nth_eq_iff_index_eq)

lemma first_of_month_ref: "first_of_month month es k = Some f \<Longrightarrow> f \<in> set (enumerate 0 es)"
  using first_min_Some[of "\<lambda>r. me_created_ms (snd r)"]
  by (fastforce simp: first_of_month_def fom_fold verified_refs_def)

lemma keep_entry_kept:
  assumes d: "distinct (map me_id es)" and r: "r \<in> set (enumerate 0 es)"
  shows "keep_entry month es now r = kept month es now (snd r)"
proof -
  have "(case first_of_month month es k of None \<Rightarrow> False | Some f \<Rightarrow> fst f = fst r)
      \<longleftrightarrow> first_min me_created_ms (month_fulls month es k) = Some (snd r)" for k
    using first_of_month_eq[of month es k, symmetric] refs_same[OF d first_of_month_ref r]
    by (cases "first_of_month month es k") auto
  then show ?thesis
    by (simp add: keep_entry_def kept_def Let_def split: ArtifactKind.split option.split)
qed

lemma plan_prune_set:
  assumes "distinct (map me_id es)"
  shows "set (plan_prune month es now)
       = me_id ` {e \<in> set es. me_verified e \<and> \<not> kept month es now e}"
proof -
  have "set (plan_prune month es now)
      = (\<lambda>r. me_id (snd r)) ` {r \<in> set (enumerate 0 es). me_verified (snd r) \<and> \<not> kept month es now (snd r)}"
    using keep_entry_kept[OF assms] by (auto simp: plan_prune_def verified_refs_def)
  also have "\<dots> = me_id ` (snd ` {r \<in> set (enumerate 0 es). me_verified (snd r) \<and> \<not> kept month es now (snd r)})"
    by (simp add: image_image)
  also have "snd ` {r \<in> set (enumerate 0 es). me_verified (snd r) \<and> \<not> kept month es now (snd r)}
      = {e \<in> set es. me_verified e \<and> \<not> kept month es now e}"
  proof -
    have "set es = snd ` set (enumerate 0 es)"
      by (metis list.set_map map_snd_enumerate)
    then show ?thesis by auto
  qed
  finally show ?thesis .
qed

definition survivors ::
  "(int \<Rightarrow> (int \<times> int) option) \<Rightarrow> ManifestEntry list \<Rightarrow> int \<Rightarrow> ManifestEntry list" where
  "survivors month es now = filter (\<lambda>e. me_id e \<notin> set (plan_prune month es now)) es"

lemma survivors_eq:
  assumes "distinct (map me_id es)"
  shows "survivors month es now = filter (\<lambda>e. me_verified e \<longrightarrow> kept month es now e) es"
  unfolding survivors_def
proof (rule filter_cong[OF refl])
  fix e assume e: "e \<in> set es"
  have "me_id e = me_id e' \<Longrightarrow> e = e'" if "e' \<in> set es" for e'
    using assms e that by (meson distinct_map inj_onD)
  then show "(me_id e \<notin> set (plan_prune month es now)) = (me_verified e \<longrightarrow> kept month es now e)"
    using e by (auto simp: plan_prune_set[OF assms])
qed

lemma kept_first_of_month:
  assumes "first_min me_created_ms (month_fulls month es k) = Some e"
  shows "kept month es now e \<and> e \<in> set es \<and> me_verified e \<and> me_kind e = Full
    \<and> month (me_created_ms e) = Some k"
  using assms first_min_Some[OF assms] by (simp add: kept_def month_fulls_def)

lemma newest_uploaded_full_Some:
  assumes "max_by_key me_created_ms (filter (\<lambda>e. me_kind e = Full \<and> me_uploaded e) (filter me_verified es)) = Some e"
  shows "kept month es now e \<and> e \<in> set es \<and> me_verified e \<and> me_kind e = Full \<and> me_uploaded e"
  using assms max_by_key_Some[OF assms] by (simp add: kept_def newest_uploaded_full_def)

text \<open>What decides whether an entry is kept is the same after the deletion.\<close>

lemma month_fulls_filter:
  "month_fulls month (filter P es) k = filter P (month_fulls month es k)"
  by (simp add: month_fulls_def conj_commute)

lemma first_of_month_survives:
  "first_min me_created_ms (month_fulls month (filter (\<lambda>e. me_verified e \<longrightarrow> kept month es now e) es) k)
   = first_min me_created_ms (month_fulls month es k)"
proof (cases "first_min me_created_ms (month_fulls month es k)")
  case None
  then show ?thesis by (simp add: month_fulls_filter)
next
  case (Some e)
  show ?thesis
    unfolding month_fulls_filter Some
    by (rule first_min_filter[OF Some]) (use kept_first_of_month[OF Some] in simp)
qed

lemma newest_survives:
  "newest_uploaded_full (filter (\<lambda>e. me_verified e \<longrightarrow> kept month es now e) es) = newest_uploaded_full es"
proof -
  let ?P = "\<lambda>e. me_verified e \<longrightarrow> kept month es now e"
  let ?fulls = "filter (\<lambda>e. me_kind e = Full \<and> me_uploaded e) (filter me_verified es)"
  have f: "filter (\<lambda>e. me_kind e = Full \<and> me_uploaded e) (filter me_verified (filter ?P es)) = filter ?P ?fulls"
    unfolding filter_filter by (rule filter_cong) auto
  have "max_by_key me_created_ms (filter ?P ?fulls) = max_by_key me_created_ms ?fulls"
  proof (cases "max_by_key me_created_ms ?fulls")
    case None
    then have "?fulls = []" by (simp only: max_by_key_None)
    then show ?thesis by simp
  next
    case (Some e)
    then show ?thesis
      using newest_uploaded_full_Some[OF Some] by (metis max_by_key_filter)
  qed
  then show ?thesis by (simp only: newest_uploaded_full_def f)
qed

lemma bases_survive:
  "kept_delta_bases (filter (\<lambda>e. me_verified e \<longrightarrow> kept month es now e) es) now = kept_delta_bases es now"
proof -
  have "filter (\<lambda>e. me_kind e = Delta \<and> within_days now e DELTA_KEEP_DAYS)
         (filter me_verified (filter (\<lambda>e. me_verified e \<longrightarrow> kept month es now e) es))
      = filter (\<lambda>e. me_kind e = Delta \<and> within_days now e DELTA_KEEP_DAYS) (filter me_verified es)"
    unfolding filter_filter by (rule filter_cong) (auto simp: kept_def)
  then show ?thesis by (simp only: kept_delta_bases_def)
qed

lemma kept_survivors:
  "distinct (map me_id es) \<Longrightarrow> kept month (survivors month es now) now e = kept month es now e"
  by (simp only: survivors_eq kept_def[of month _ now e] first_of_month_survives newest_survives bases_survive)

lemma survivors_distinct: "distinct (map me_id es) \<Longrightarrow> distinct (map me_id (survivors month es now))"
  by (simp add: survivors_def distinct_map_filter)

lemma newest_full_survives:
  assumes "distinct (map me_id es)"
    and "f \<in> set es" and "me_verified f" and "me_kind f = Full" and "me_uploaded f"
  shows "\<exists>g \<in> set (survivors month es now). me_verified g \<and> me_kind g = Full
           \<and> me_uploaded g \<and> me_created_ms f \<le> me_created_ms g"
proof -
  let ?fulls = "filter (\<lambda>e. me_kind e = Full \<and> me_uploaded e) (filter me_verified es)"
  have f: "f \<in> set ?fulls" using assms(2-5) by simp
  then have "?fulls \<noteq> []" by (metis empty_iff empty_set)
  then obtain g where g: "max_by_key me_created_ms ?fulls = Some g"
    by (meson max_by_key_None not_Some_eq)
  then show ?thesis
    using newest_uploaded_full_Some[OF g, of month now] max_by_key_Some[OF g] f
    by (intro bexI[of _ g]) (auto simp: survivors_eq[OF assms(1)])
qed

lemma month_full_survives:
  assumes "distinct (map me_id es)"
    and "f \<in> set es" and "me_verified f" and "me_kind f = Full" and "month (me_created_ms f) = Some k"
  shows "\<exists>g \<in> set (survivors month es now). me_verified g \<and> me_kind g = Full
           \<and> month (me_created_ms g) = Some k \<and> me_created_ms g \<le> me_created_ms f"
proof -
  let ?fulls = "month_fulls month es k"
  have f: "f \<in> set ?fulls" using assms(2-5) by (simp add: month_fulls_def)
  then obtain g where g: "first_min me_created_ms ?fulls = Some g"
    by (cases "first_min me_created_ms ?fulls") auto
  then show ?thesis
    using kept_first_of_month[OF g, of now] first_min_Some[OF g] f
    by (intro bexI[of _ g]) (auto simp: survivors_eq[OF assms(1)])
qed

text \<open>Only verified entries past the shortest retention are planned.\<close>

lemma plan_prune_old:
  assumes "distinct (map me_id es)" and "i \<in> set (plan_prune month es now)"
  shows "\<exists>e \<in> set es. me_id e = i \<and> me_verified e
    \<and> now - me_created_ms e > (if me_kind e = Delta then 90 else 365) * 86400000"
proof -
  obtain e where e: "e \<in> set es" "me_verified e" "\<not> kept month es now e" "me_id e = i"
    using assms(2) unfolding plan_prune_set[OF assms(1)] by blast
  have "now - me_created_ms e > (if me_kind e = Delta then 90 else 365) * 86400000"
    using e(3) by (cases "me_kind e") (simp_all add: kept_def within_days_def hippo_defs)
  then show ?thesis using e by blast
qed


text \<open>Entries for concrete instances, and a calendar of 30-day months.\<close>

definition example_entry :: "string \<Rightarrow> ArtifactKind \<Rightarrow> int \<Rightarrow> string option \<Rightarrow> ManifestEntry" where
  "example_entry eid kind created_ms base =
     \<lparr>me_meta = \<lparr>am_id = eid, am_kind = kind, am_label = None, am_created_ms = created_ms,
        am_base_id = base, am_hippo_version = ''0'', am_schema_version = 29, am_db_sha256 = ''x'',
        am_row_counts = []\<rparr>,
      me_file = eid @ ARTIFACT_EXT, me_ciphertext_sha256 = ''y'', me_verified = True,
      me_shipped_ms = Some 1, me_uploaded = True\<rparr>"

definition example_month :: "int \<Rightarrow> (int \<times> int) option" where
  "example_month ms = Some (2026, ms div (30 * DAY_MS))"

text \<open>Two old fulls of one month, a delta of the second, a recent full.\<close>

definition example_manifest :: Manifest where
  "example_manifest = [example_entry ''a'' Full 0 None, example_entry ''b'' Full 86400000 None,
     example_entry ''d'' Delta (395 * 86400000) (Some ''b''), example_entry ''n'' Full (399 * 86400000) None,
     example_entry ''c'' Full 172800000 None]"

subsection \<open>Properties\<close>

text \<open>
  C8 (prune_keeps_delta_bases): pruning never breaks a retained delta: after the planned ids are
  removed, every verified delta that is left still has its base full in the manifest.
\<close>

theorem prune_keeps_delta_bases:
  assumes "distinct (map me_id es)"
    and "d \<in> set (survivors month es now)" and "me_verified d" and "me_kind d = Delta"
    and "f \<in> set es" and "me_kind f = Full" and "am_base_id (me_meta d) = Some (me_id f)"
  shows "f \<in> set (survivors month es now)"
proof -
  have d: "d \<in> set es" "within_days now d DELTA_KEEP_DAYS"
    using assms(2-4) by (auto simp: survivors_eq[OF assms(1)] kept_def)
  have "me_id f \<in> kept_delta_bases es now"
    using d assms(3,4,7) by (force simp: kept_delta_bases_def List.map_filter_def)
  then show ?thesis
    using assms(5,6) by (simp add: survivors_eq[OF assms(1)] kept_def)
qed

lemma prune_keeps_delta_bases_witness:
  "example_entry ''b'' Full 86400000 None \<in> set (survivors example_month example_manifest (400 * 86400000))
   \<and> plan_prune example_month example_manifest (400 * 86400000) = [''c'']"
proof
  show "example_entry ''b'' Full 86400000 None \<in> set (survivors example_month example_manifest (400 * 86400000))"
    by (rule prune_keeps_delta_bases[where d = "example_entry ''d'' Delta (395 * 86400000) (Some ''b'')"]) code_simp+
  show "plan_prune example_month example_manifest (400 * 86400000) = [''c'']"
    by code_simp
qed

text \<open>
  While some verified full has been uploaded, pruning leaves one
  at least as new, and a month that had a verified full still has one at least as early.
\<close>

theorem prune_keeps_restorable_full:
  assumes "distinct (map me_id es)"
    and "f \<in> set es" and "me_verified f" and "me_kind f = Full"
  shows "(me_uploaded f \<longrightarrow> (\<exists>g \<in> set (survivors month es now). me_verified g \<and> me_kind g = Full
           \<and> me_uploaded g \<and> me_created_ms f \<le> me_created_ms g))
    \<and> (month (me_created_ms f) = Some k \<longrightarrow> (\<exists>g \<in> set (survivors month es now). me_verified g
           \<and> me_kind g = Full \<and> month (me_created_ms g) = Some k \<and> me_created_ms g \<le> me_created_ms f))"
  by (intro conjI impI newest_full_survives[OF assms] month_full_survives[OF assms])

lemma prune_keeps_restorable_full_witness:
  "\<exists>g \<in> set (survivors example_month example_manifest (400 * 86400000)). me_verified g \<and> me_kind g = Full
     \<and> example_month (me_created_ms g) = Some (2026, 0) \<and> me_created_ms g \<le> 172800000"
proof -
  have "distinct (map me_id example_manifest)"
    and "example_entry ''c'' Full 172800000 None \<in> set example_manifest"
    by code_simp+
  from prune_keeps_restorable_full[OF this, of example_month "400 * 86400000" "(2026, 0)"]
  show ?thesis
    by (simp add: example_entry_def example_month_def hippo_defs)
qed

text \<open>
  Planning again right after a deletion plans nothing: what the deleted
  entries protected was already gone.
\<close>

theorem prune_idempotent:
  assumes "distinct (map me_id es)"
  shows "plan_prune month (survivors month es now) now = []"
proof -
  have "set (plan_prune month (survivors month es now) now) = {}"
    unfolding plan_prune_set[OF survivors_distinct[OF assms]] kept_survivors[OF assms]
    by (auto simp: survivors_eq[OF assms])
  then show ?thesis by simp
qed

lemma prune_idempotent_witness:
  "plan_prune example_month example_manifest (400 * 86400000) = [''c'']
   \<and> plan_prune example_month (survivors example_month example_manifest (400 * 86400000)) (400 * 86400000) = []"
proof
  show "plan_prune example_month example_manifest (400 * 86400000) = [''c'']"
    by code_simp
  have "distinct (map me_id example_manifest)"
    by code_simp
  then show "plan_prune example_month (survivors example_month example_manifest (400 * 86400000)) (400 * 86400000) = []"
    by (rule prune_idempotent)
qed

end
