(* ===== verification/PageDiff.thy ===== *)
theory PageDiff
  imports RustText
begin

text \<open>
  The page-hash file and the page-level delta of a backup
  (\<open>hippo-daemon/src/backup/pagediff.rs\<close>). A file is the string of its bytes. SHA-256 is the
  parameter \<open>sha\<close>; where a property needs that two pages with one digest are the same page, it
  says so for the pages at hand. A database has less than \<open>2 ^ 64\<close> bytes.
\<close>

subsection \<open>Little-endian numbers\<close>

fun le_bytes :: "nat \<Rightarrow> nat \<Rightarrow> string" where
  "le_bytes 0 v = []"
| "le_bytes (Suc n) v = char_of (v mod 256) # le_bytes n (v div 256)"

fun of_le :: "string \<Rightarrow> nat" where
  "of_le [] = 0"
| "of_le (b # bs) = of_char b + 256 * of_le bs"

lemma length_le_bytes [simp]: "length (le_bytes n v) = n"
  by (induction n v rule: le_bytes.induct) simp_all

lemma of_le_bytes: "v < 256 ^ n \<Longrightarrow> of_le (le_bytes n v) = v"
proof (induction n v rule: le_bytes.induct)
  case (2 n v)
  then have "v div 256 < 256 ^ n"
    by (simp add: less_mult_imp_div_less mult.commute)
  with "2.IH" show ?case by simp
qed simp

subsection \<open>Readers\<close>

type_synonym 'a reader = "string \<Rightarrow> string + ('a \<times> string)"

definition read_exact :: "nat \<Rightarrow> string reader" where
  "read_exact n bs = (if length bs < n then Inl ''failed to fill whole buffer'' else Inr (take n bs, drop n bs))"

definition read_u32 :: "nat reader" where
  "read_u32 bs = rbind (read_exact 4 bs) (\<lambda>(b, r). Inr (of_le b, r))"

definition read_u64 :: "nat reader" where
  "read_u64 bs = rbind (read_exact 8 bs) (\<lambda>(b, r). Inr (of_le b, r))"

definition read_magic :: "string \<Rightarrow> unit reader" where
  "read_magic want bs = rbind (read_exact 8 bs) (\<lambda>(m, r). rbind (ensure (m = want) ''bad magic'') (\<lambda>_. Inr ((), r)))"

definition read_string :: "string reader" where
  "read_string bs =
     rbind (read_u32 bs) (\<lambda>(len, r).
     rbind (ensure (len \<le> 4096) ''base_id too long'') (\<lambda>_.
     rbind (read_exact len r) (\<lambda>(b, r').
     if utf8_valid (bytes_of b) then Inr (b, r') else Inl ''invalid utf-8 sequence'')))"

definition write_string :: "string \<Rightarrow> string + string" where
  "write_string s = (if length s < 2 ^ 32 then Inr (le_bytes 4 (length s) @ s)
     else Inl ''out of range integral type conversion attempted'')"

definition read_page_or_eof :: "nat \<Rightarrow> string option reader" where
  "read_page_or_eof n bs =
     (if n = 0 then Inr (Some [], bs)
      else if bs = [] then Inr (None, bs)
      else if length bs < n then Inl ''truncated page''
      else Inr (Some (take n bs), drop n bs))"

text \<open>The returned page count is a quotient of the length, so it fits its 64 bits.\<close>

definition db_geometry :: "string \<Rightarrow> string + (nat \<times> nat)" where
  "db_geometry db =
     rbind (read_exact 18 db) (\<lambda>(hdr, _).
     rbind (ensure (take 16 hdr = ''SQLite format 3'' @ [CHR 0x00]) ''not a SQLite database'') (\<lambda>_.
     let raw = of_char (hdr ! 16) * 256 + of_char (hdr ! 17);
         page_size = (if raw = 1 then 65536 else raw);
         len = length db
     in rbind (ensure (page_size > 0 \<and> len mod page_size = 0)
              ''database length is not a multiple of page_size'') (\<lambda>_.
        Inr (page_size, len div page_size))))"

subsection \<open>The page-hash file\<close>

record PageHashes =
  ph_base_id :: string
  ph_page_size :: nat
  ph_hashes :: "string list"

text \<open>The reading loop; \<open>db_geometry\<close> has excluded a page size of 0, where it would not end.\<close>

function read_pages :: "nat \<Rightarrow> string \<Rightarrow> string + string list" where
  "read_pages n bs =
     (if n = 0 then Inr []
      else rbind (read_page_or_eof n bs) (\<lambda>(p, r).
        case p of None \<Rightarrow> Inr []
        | Some page \<Rightarrow> rbind (read_pages n r) (\<lambda>ps. Inr (page # ps))))"
  by pat_completeness auto
termination
  by (relation "measure (\<lambda>(n, bs). length bs)") (auto simp: read_page_or_eof_def split: if_splits)

declare read_pages.simps [simp del]

definition compute_hashes :: "(string \<Rightarrow> string) \<Rightarrow> string \<Rightarrow> string \<Rightarrow> string + PageHashes" where
  "compute_hashes sha db base_id =
     rbind (db_geometry db) (\<lambda>(page_size, _).
     rbind (read_pages page_size db) (\<lambda>pages.
     Inr \<lparr>ph_base_id = base_id, ph_page_size = page_size, ph_hashes = map sha pages\<rparr>))"

definition HASH_MAGIC :: string where "HASH_MAGIC = ''HIPPOPH1''"
definition DIFF_MAGIC :: string where "DIFF_MAGIC = ''HIPPOPD1''"

definition write_hashes :: "PageHashes \<Rightarrow> string + string" where
  "write_hashes h = rbind (write_string (ph_base_id h)) (\<lambda>s.
     Inr (HASH_MAGIC @ le_bytes 4 (ph_page_size h) @ s @ le_bytes 8 (length (ph_hashes h))
          @ concat (ph_hashes h)))"

fun read_digests :: "nat \<Rightarrow> string list reader" where
  "read_digests 0 bs = Inr ([], bs)"
| "read_digests (Suc n) bs = rbind (read_exact 32 bs) (\<lambda>(h, r).
     rbind (read_digests n r) (\<lambda>(hs, r'). Inr (h # hs, r')))"

definition read_hashes :: "string \<Rightarrow> string + PageHashes" where
  "read_hashes bs =
     rbind (read_magic HASH_MAGIC bs) (\<lambda>(_, r1).
     rbind (read_u32 r1) (\<lambda>(page_size, r2).
     rbind (read_string r2) (\<lambda>(base_id, r3).
     rbind (read_u64 r3) (\<lambda>(count, r4).
     rbind (read_digests count r4) (\<lambda>(hashes, r5).
     rbind (ensure (r5 = []) ''trailing bytes in hash file'') (\<lambda>_.
     Inr \<lparr>ph_base_id = base_id, ph_page_size = page_size, ph_hashes = hashes\<rparr>))))))"

subsection \<open>The diff file\<close>

record DiffSummary =
  ds_changed_pages :: nat
  ds_new_page_count :: nat

definition hash_at :: "'p list \<Rightarrow> nat \<Rightarrow> 'p option" where
  "hash_at hs i = (if i < length hs then Some (hs ! i) else None)"

text \<open>The records of the writing loop from page \<open>i\<close> on.\<close>

fun diff_records :: "(string \<Rightarrow> string) \<Rightarrow> string list \<Rightarrow> nat \<Rightarrow> string list \<Rightarrow> (nat \<times> string) list" where
  "diff_records sha hs i [] = []"
| "diff_records sha hs i (p # ps) =
     (if hash_at hs i \<noteq> Some (sha p) then (i, p) # diff_records sha hs (Suc i) ps
      else diff_records sha hs (Suc i) ps)"

definition encode_record :: "nat \<times> string \<Rightarrow> string" where
  "encode_record r = le_bytes 8 (fst r) @ snd r"

definition write_diff ::
  "(string \<Rightarrow> string) \<Rightarrow> PageHashes \<Rightarrow> string \<Rightarrow> string + (string \<times> DiffSummary)" where
  "write_diff sha base new_db =
     rbind (db_geometry new_db) (\<lambda>(page_size, new_count).
     rbind (ensure (page_size = ph_page_size base) ''page_size changed; a full backup is required'') (\<lambda>_.
     rbind (write_string (ph_base_id base)) (\<lambda>s.
     rbind (read_pages page_size new_db) (\<lambda>pages.
     let recs = diff_records sha (ph_hashes base) 0 pages in
     Inr (DIFF_MAGIC @ le_bytes 4 page_size @ le_bytes 8 (length (ph_hashes base)) @ le_bytes 8 new_count
            @ s @ concat (map encode_record recs),
          \<lparr>ds_changed_pages = length recs, ds_new_page_count = new_count\<rparr>)))))"

record DiffReader =
  dr_page_size :: nat
  dr_base_page_count :: nat
  dr_new_page_count :: nat

definition open_diff :: "DiffReader reader" where
  "open_diff bs =
     rbind (read_magic DIFF_MAGIC bs) (\<lambda>(_, r1).
     rbind (read_u32 r1) (\<lambda>(page_size, r2).
     rbind (read_u64 r2) (\<lambda>(base_page_count, r3).
     rbind (read_u64 r3) (\<lambda>(new_page_count, r4).
     rbind (read_string r4) (\<lambda>(_, r5).
     rbind (ensure (page_size > 0) ''zero page_size in diff'') (\<lambda>_.
     Inr (\<lparr>dr_page_size = page_size, dr_base_page_count = base_page_count,
           dr_new_page_count = new_page_count\<rparr>, r5)))))))"

definition next_record :: "nat \<Rightarrow> (nat \<times> string) option reader" where
  "next_record page_size bs =
     rbind (read_page_or_eof 8 bs) (\<lambda>(no, r).
     case no of None \<Rightarrow> Inr (None, r)
     | Some n \<Rightarrow> rbind (read_exact page_size r) (\<lambda>(buf, r'). Inr (Some (of_le n, buf), r')))"

text \<open>
  The loop of \<open>apply_diff\<close> for the \<open>k\<close> pages from \<open>i\<close> on: the base from page \<open>i\<close>, the record read
  ahead and the rest of the diff; it returns what is written and the record left over.
\<close>

fun apply_loop ::
  "nat \<Rightarrow> nat \<Rightarrow> nat \<Rightarrow> nat \<Rightarrow> string \<Rightarrow> (nat \<times> string) option \<Rightarrow> string \<Rightarrow>
   string + (string \<times> (nat \<times> string) option)" where
  "apply_loop ps base_count 0 i base nxt diff = Inr ([], nxt)"
| "apply_loop ps base_count (Suc k) i base nxt diff =
     rbind (if i < base_count then read_exact ps base else Inr ([], base)) (\<lambda>(page, base').
     if map_option fst nxt = Some i
     then rbind (next_record ps diff) (\<lambda>(nxt', diff').
          rbind (apply_loop ps base_count k (Suc i) base' nxt' diff') (\<lambda>(out, last).
          Inr ((case nxt of Some (_, rec) \<Rightarrow> rec | None \<Rightarrow> []) @ out, last)))
     else rbind (ensure (i < base_count) ''diff lacks page beyond the base'') (\<lambda>_.
          rbind (apply_loop ps base_count k (Suc i) base' nxt diff) (\<lambda>(out, last).
          Inr (page @ out, last))))"

definition apply_diff :: "string \<Rightarrow> string \<Rightarrow> string + string" where
  "apply_diff base_db diff =
     rbind (open_diff diff) (\<lambda>(d, r).
     rbind (db_geometry base_db) (\<lambda>(base_ps, base_count).
     rbind (ensure (base_ps = dr_page_size d) ''page_size mismatch with base'') (\<lambda>_.
     rbind (ensure (base_count = dr_base_page_count d) ''base page count mismatch'') (\<lambda>_.
     rbind (next_record (dr_page_size d) r) (\<lambda>(nxt, r').
     rbind (apply_loop (dr_page_size d) base_count (dr_new_page_count d) 0 base_db nxt r') (\<lambda>(out, last).
     rbind (ensure (last = None) ''diff has out-of-order or excess records'') (\<lambda>_.
     Inr out)))))))"

text \<open>The record loop of \<open>hashes_after_diff\<close> over the slots.\<close>

function hash_loop ::
  "(string \<Rightarrow> string) \<Rightarrow> nat \<Rightarrow> string option list \<Rightarrow> string \<Rightarrow> string + string option list" where
  "hash_loop sha ps slots diff =
     rbind (next_record ps diff) (\<lambda>(rec, diff').
     case rec of None \<Rightarrow> Inr slots
     | Some (no, page) \<Rightarrow>
         if no < length slots then hash_loop sha ps (slots[no := Some (sha page)]) diff'
         else Inl ''diff record beyond new_page_count'')"
  by pat_completeness auto
termination
  by (relation "measure (\<lambda>(sha, ps, slots, diff). length diff)")
    (auto simp: next_record_def read_page_or_eof_def read_exact_def rbind_Inr split: if_splits option.splits)

declare hash_loop.simps [simp del]

fun collect_slots :: "string option list \<Rightarrow> string + string list" where
  "collect_slots [] = Inr []"
| "collect_slots (None # _) = Inl ''diff lacks page beyond the base''"
| "collect_slots (Some h # r) = rbind (collect_slots r) (\<lambda>hs. Inr (h # hs))"

definition hashes_after_diff :: "(string \<Rightarrow> string) \<Rightarrow> PageHashes \<Rightarrow> string \<Rightarrow> string + string list" where
  "hashes_after_diff sha base diff =
     rbind (open_diff diff) (\<lambda>(d, r).
     rbind (ensure (dr_page_size d = ph_page_size base) ''page_size mismatch with base'') (\<lambda>_.
     rbind (ensure (dr_base_page_count d = length (ph_hashes base)) ''base page count mismatch'') (\<lambda>_.
     rbind (hash_loop sha (dr_page_size d)
              (map (hash_at (ph_hashes base)) [0..<dr_new_page_count d]) r) collect_slots)))"

subsection \<open>Readers read back what was written\<close>

lemma read_exact_append [simp]: "length a = n \<Longrightarrow> read_exact n (a @ r) = Inr (a, r)"
  by (auto simp: read_exact_def)

lemma read_exact_Inr: "read_exact n bs = Inr (a, r) \<longleftrightarrow> bs = a @ r \<and> length a = n"
  by (auto simp: read_exact_def)

lemma read_u32_le [simp]: "v < 2 ^ 32 \<Longrightarrow> read_u32 (le_bytes 4 v @ r) = Inr (v, r)"
  by (simp add: read_u32_def of_le_bytes)

lemma read_u64_le [simp]: "v < 2 ^ 64 \<Longrightarrow> read_u64 (le_bytes 8 v @ r) = Inr (v, r)"
  by (simp add: read_u64_def of_le_bytes)

lemma read_magic_append [simp]: "length m = 8 \<Longrightarrow> read_magic m (m @ r) = Inr ((), r)"
  by (simp add: read_magic_def)

definition id_ok :: "string \<Rightarrow> bool" where
  "id_ok s = (length s \<le> 4096 \<and> utf8_valid (bytes_of s))"

lemma read_string_written:
  "id_ok s \<Longrightarrow> read_string (le_bytes 4 (length s) @ s @ r) = Inr (s, r)"
  by (simp add: read_string_def id_ok_def)

lemma write_string_ok: "id_ok s \<Longrightarrow> write_string s = Inr (le_bytes 4 (length s) @ s)"
  by (simp add: write_string_def id_ok_def)

interpretation u32: codec "le_bytes 4" "\<lambda>bs. ok_of (read_u32 bs)" "\<lambda>v. v < 2 ^ 32"
  by unfold_locales simp

interpretation u64: codec "le_bytes 8" "\<lambda>bs. ok_of (read_u64 bs)" "\<lambda>v. v < 2 ^ 64"
  by unfold_locales simp

interpretation base_id: codec "\<lambda>s. le_bytes 4 (length s) @ s" "\<lambda>bs. ok_of (read_string bs)" id_ok
  by unfold_locales (simp add: read_string_written)

interpretation digest: codec "\<lambda>h. h" "\<lambda>bs. ok_of (read_exact 32 bs)" "\<lambda>h. length h = 32"
  by unfold_locales simp

lemma read_digests_dec_n: "ok_of (read_digests n bs) = digest.dec_n n bs"
proof (induction n arbitrary: bs)
  case (Suc n)
  show ?case
  proof (cases "read_exact 32 bs")
    case (Inr x)
    obtain h r where x: "x = (h, r)" by fastforce
    show ?thesis
      using Inr x Suc[of r] by (cases "read_digests n r") (auto split: option.splits)
  qed simp
qed simp

lemma read_digests_concat:
  "list_all (\<lambda>h. length h = 32) hs \<Longrightarrow> read_digests (length hs) (concat hs @ r) = Inr (hs, r)"
  using digest.dec_n_enc[of hs r] read_digests_dec_n[of "length hs" "concat hs @ r"]
  by (cases "read_digests (length hs) (concat hs @ r)") simp_all

subsection \<open>Records and pages\<close>

lemma le_bytes_of_le: "le_bytes (length bs) (of_le bs) = bs"
  by (induction bs) (simp_all add: of_char_mod_256 char_of_eq_iff)

lemma of_le_less: "of_le bs < 256 ^ length bs"
proof (induction bs)
  case (Cons b bs)
  have "(of_char b :: nat) < 256" by simp
  moreover have "Suc (of_le bs) * 256 \<le> 256 ^ length bs * 256"
    using Cons by (simp only: mult_le_mono1 Suc_leI)
  ultimately show ?case
    unfolding of_le.simps length_Cons power_Suc mult_Suc by linarith
qed simp

definition record_ok :: "nat \<Rightarrow> nat \<times> string \<Rightarrow> bool" where
  "record_ok ps r = (fst r < 2 ^ 64 \<and> length (snd r) = ps)"

definition encode_records :: "(nat \<times> string) list \<Rightarrow> string" where
  "encode_records rs = concat (map encode_record rs)"

lemma encode_records_simps [simp]:
  "encode_records [] = []"
  "encode_records (r # rs) = encode_record r @ encode_records rs"
  by (simp_all add: encode_records_def)

lemma next_record_encoded [simp]:
  "record_ok ps r \<Longrightarrow> next_record ps (encode_record r @ d) = Inr (Some r, d)"
  by (simp add: next_record_def read_page_or_eof_def encode_record_def record_ok_def of_le_bytes
      flip: length_greater_0_conv)

lemma next_record_Nil [simp]: "next_record ps [] = Inr (None, [])"
  by (simp add: next_record_def read_page_or_eof_def)

interpretation diff_record: codec encode_record
  "\<lambda>bs. case next_record ps bs of Inr (Some r, d) \<Rightarrow> Some (r, d) | _ \<Rightarrow> None" "record_ok ps" for ps
  by unfold_locales simp

lemma next_record_Some:
  assumes "next_record ps bs = Inr (Some r, d)"
  shows "bs = encode_record r @ d \<and> record_ok ps r"
proof -
  obtain n r0 where n: "read_page_or_eof 8 bs = Inr (Some n, r0)" and
    r: "read_exact ps r0 = Inr (snd r, d)" "fst r = of_le n"
    using assms by (auto simp: next_record_def rbind_Inr split: option.splits)
  have b: "bs = n @ r0" "length n = 8"
    using n by (auto simp: read_page_or_eof_def split: if_splits)
  have "le_bytes 8 (of_le n) = n"
    using le_bytes_of_le[of n] b by simp
  moreover have "of_le n < 2 ^ 64"
    using of_le_less[of n] b by simp
  ultimately show ?thesis
    using b r by (simp add: encode_record_def record_ok_def read_exact_Inr)
qed

lemma next_record_None: "next_record ps bs = Inr (None, d) \<Longrightarrow> bs = [] \<and> d = []"
  by (auto simp: next_record_def read_page_or_eof_def rbind_Inr split: option.splits if_splits)

text \<open>A file of whole pages is the concatenation of its pages.\<close>

definition all_length :: "nat \<Rightarrow> string list \<Rightarrow> bool" where
  "all_length n ps = list_all (\<lambda>p. length p = n) ps"

lemma all_length_simps [simp]:
  "all_length n []"
  "all_length n (p # ps) \<longleftrightarrow> length p = n \<and> all_length n ps"
  by (simp_all add: all_length_def)

lemma length_concat_pages: "all_length n ps \<Longrightarrow> length (concat ps) = n * length ps"
  by (induction ps) simp_all

lemma read_pages_concat: "0 < n \<Longrightarrow> all_length n ps \<Longrightarrow> read_pages n (concat ps) = Inr ps"
proof (induction ps)
  case Nil
  then show ?case by (simp add: read_pages.simps[of n "[]"] read_page_or_eof_def)
next
  case (Cons p ps)
  then have "p \<noteq> []" by auto
  with Cons show ?case
    by (simp add: read_pages.simps[of n "p @ concat ps"] read_page_or_eof_def)
qed

lemma split_pages: "length bs = n * k \<Longrightarrow> \<exists>ps. bs = concat ps \<and> all_length n ps \<and> length ps = k"
proof (induction k arbitrary: bs)
  case (Suc k)
  then have "length (drop n bs) = n * k" by simp
  then obtain ps where ps: "drop n bs = concat ps" "all_length n ps" "length ps = k"
    using Suc.IH by blast
  have "bs = concat (take n bs # ps)"
    using ps(1) by (metis append_take_drop_id concat.simps(2))
  moreover have "all_length n (take n bs # ps)"
    using ps(2) Suc.prems by simp
  ultimately show ?case using ps(3) by (metis length_Cons)
qed simp

text \<open>The geometry of a database file: its page size and its pages.\<close>

lemma db_geometry_pages:
  assumes "db_geometry db = Inr (ps, n)"
  shows "\<exists>pages. db = concat pages \<and> all_length ps pages \<and> length pages = n \<and> 0 < ps \<and> ps \<le> 65536
    \<and> read_pages ps db = Inr pages"
proof -
  have ps: "0 < ps" "length db mod ps = 0" "n = length db div ps" "ps \<le> 65535 \<or> ps = 65536"
  proof -
    have lt: "(of_char a :: nat) * 256 + of_char b \<le> 65535" for a b
      using nat_of_char_less_256[of a] nat_of_char_less_256[of b] by linarith
    show "0 < ps" "length db mod ps = 0" "n = length db div ps" "ps \<le> 65535 \<or> ps = 65536"
      using assms lt by (auto simp: db_geometry_def rbind_Inr ensure_Inr Let_def split: if_splits)
  qed
  then have "length db = ps * n"
    by (metis mult_div_mod_eq add.right_neutral)
  then obtain pages where p: "db = concat pages" "all_length ps pages" "length pages = n"
    using split_pages by blast
  then show ?thesis
    using ps read_pages_concat[of ps pages] by (intro exI[of _ pages]) auto
qed

subsection \<open>The delta as an operation on pages\<close>

text \<open>
  The abstract meaning of a delta: the \<open>k\<close> pages from \<open>i\<close> on, taken from the records and otherwise
  from the old pages; \<open>None\<close> when a page is in neither or a record is not used. It works on pages
  and on digests of pages alike.
\<close>

fun patch :: "nat \<Rightarrow> nat \<Rightarrow> 'p list \<Rightarrow> (nat \<times> 'p) list \<Rightarrow> 'p list option" where
  "patch 0 i old rs = (if rs = [] then Some [] else None)"
| "patch (Suc k) i old ((j, p) # rs) =
     (if j = i then map_option (Cons p) (patch k (Suc i) (tl old) rs)
      else case old of [] \<Rightarrow> None | q # old' \<Rightarrow> map_option (Cons q) (patch k (Suc i) old' ((j, p) # rs)))"
| "patch (Suc k) i old [] =
     (case old of [] \<Rightarrow> None | q # old' \<Rightarrow> map_option (Cons q) (patch k (Suc i) old' []))"

lemma patch_map:
  "patch k i (map f old) (map (\<lambda>(j, p). (j, f p)) rs) = map_option (map f) (patch k i old rs)"
  by (induction k i old rs rule: patch.induct)
    (auto simp: option.map_comp comp_def map_tl[symmetric] split: list.splits)

definition pend :: "(nat \<times> 'p) option \<Rightarrow> (nat \<times> 'p) list \<Rightarrow> (nat \<times> 'p) list" where
  "pend nxt rs = (case nxt of None \<Rightarrow> rs | Some r \<Rightarrow> r # rs)"

lemma pend_simps [simp]: "pend None rs = rs" "pend (Some r) rs = r # rs"
  by (simp_all add: pend_def)

text \<open>Reading ahead: the next record of an encoded list.\<close>

lemma next_record_records:
  "list_all (record_ok ps) rs \<Longrightarrow> next_record ps (encode_records rs)
     = Inr (case rs of [] \<Rightarrow> None | r # _ \<Rightarrow> Some r, encode_records (tl rs))"
  by (cases rs) simp_all

lemma next_record_parse:
  assumes "next_record ps bs = Inr (nxt, d)"
  shows "(nxt = None \<longrightarrow> d = []) \<and> list_all (record_ok ps) (pend nxt [])
    \<and> bs = encode_records (pend nxt []) @ d"
proof (cases nxt)
  case None
  then show ?thesis using next_record_None[of ps bs d] assms by simp
next
  case (Some r)
  then show ?thesis using next_record_Some[of ps bs r d] assms by simp
qed

text \<open>The base cursor moves one page per step while it is inside the base.\<close>

lemma base_step:
  assumes "all_length ps old" and "length old = bc - i"
  shows "(if i < bc then read_exact ps (concat old) else Inr ([], concat old))
       = Inr (case old of [] \<Rightarrow> [] | q # _ \<Rightarrow> q, concat (tl old))"
  using assms by (cases old) auto

lemma base_next:
  assumes "all_length ps old" and "length old = bc - i"
  shows "all_length ps (tl old) \<and> length (tl old) = bc - Suc i \<and> (i < bc \<longleftrightarrow> old \<noteq> [])"
  using assms by (cases old) auto

lemma apply_loop_complete:
  assumes "patch k i old (pend nxt rs) = Some out" and "all_length ps old" and "length old = bc - i"
    and "list_all (record_ok ps) (pend nxt rs)" and "nxt = None \<longrightarrow> rs = []"
  shows "apply_loop ps bc k i (concat old) nxt (encode_records rs) = Inr (concat out, None)"
  using assms
proof (induction k arbitrary: i old nxt rs out)
  case 0
  then show ?case by (cases nxt) (auto split: if_splits)
next
  case (Suc k)
  note b = base_step[OF Suc.prems(2,3)] base_next[OF Suc.prems(2,3)]
  show ?case
  proof (cases "map_option fst nxt = Some i")
    case True
    then obtain p where n: "nxt = Some (i, p)" by auto
    then obtain out' where o: "patch k (Suc i) (tl old) rs = Some out'" "out = p # out'"
      using Suc.prems(1) by auto
    have ok: "list_all (record_ok ps) rs" using Suc.prems(4) n by simp
    let ?nxt = "case rs of [] \<Rightarrow> None | r # _ \<Rightarrow> Some r"
    have pe: "pend ?nxt (tl rs) = rs" by (cases rs) simp_all
    have "apply_loop ps bc k (Suc i) (concat (tl old)) ?nxt (encode_records (tl rs)) = Inr (concat out', None)"
      by (rule Suc.IH) (use o(1) b(2) ok pe in \<open>auto split: list.splits\<close>)
    then show ?thesis
      using n o(2) b(1) next_record_records[OF ok] by simp
  next
    case False
    obtain q old' where old: "old = q # old'"
      using Suc.prems(1,5) False by (cases old; cases nxt) auto
    obtain out' where o: "patch k (Suc i) old' (pend nxt rs) = Some out'" "out = q # out'"
      using Suc.prems(1,5) False old by (cases nxt) auto
    have "apply_loop ps bc k (Suc i) (concat old') nxt (encode_records rs) = Inr (concat out', None)"
      by (rule Suc.IH) (use o(1) b(2) old Suc.prems in auto)
    then show ?thesis
      using False o(2) b old by simp
  qed
qed

lemma apply_loop_sound:
  assumes "apply_loop ps bc k i (concat old) nxt diff = Inr (res, None)"
    and "all_length ps old" and "length old = bc - i"
    and "list_all (record_ok ps) (pend nxt [])" and "nxt = None \<longrightarrow> diff = []"
  shows "\<exists>rs out. diff = encode_records rs \<and> list_all (record_ok ps) (pend nxt rs) \<and> (nxt = None \<longrightarrow> rs = [])
    \<and> patch k i old (pend nxt rs) = Some out \<and> res = concat out \<and> all_length ps out"
  using assms
proof (induction k arbitrary: i old nxt diff res)
  case 0
  then show ?case by (intro exI[of _ "[]"]) simp
next
  case (Suc k)
  note b = base_step[OF Suc.prems(2,3)] base_next[OF Suc.prems(2,3)]
  show ?case
  proof (cases "map_option fst nxt = Some i")
    case True
    then obtain p where n: "nxt = Some (i, p)" by auto
    obtain nxt' diff' res' where r: "next_record ps diff = Inr (nxt', diff')"
      "apply_loop ps bc k (Suc i) (concat (tl old)) nxt' diff' = Inr (res', None)" "res = p @ res'"
      using Suc.prems(1) n b(1) by (auto simp: rbind_Inr)
    note np = next_record_parse[OF r(1)]
    obtain rs out where o: "diff' = encode_records rs" "list_all (record_ok ps) (pend nxt' rs)"
      "nxt' = None \<longrightarrow> rs = []" "patch k (Suc i) (tl old) (pend nxt' rs) = Some out"
      "res' = concat out" "all_length ps out"
      using Suc.IH[OF r(2)] b(2) np by blast
    have "diff = encode_records (pend nxt' rs)"
      using np o(1) by (cases nxt') simp_all
    moreover have "length p = ps"
      using Suc.prems(4) n by (simp add: record_ok_def)
    ultimately show ?thesis
      using o n r(3) Suc.prems(4)
      by (intro exI[of _ "pend nxt' rs"] exI[of _ "p # out"]) simp
  next
    case False
    then obtain q old' where old: "old = q # old'"
      using Suc.prems(1) b by (cases old) (auto simp: rbind_Inr ensure_Inr)
    obtain res' where r: "apply_loop ps bc k (Suc i) (concat old') nxt diff = Inr (res', None)" "res = q @ res'"
      using Suc.prems(1) False b old by (auto simp: rbind_Inr)
    obtain rs out where o: "diff = encode_records rs" "list_all (record_ok ps) (pend nxt rs)"
      "nxt = None \<longrightarrow> rs = []" "patch k (Suc i) old' (pend nxt rs) = Some out"
      "res' = concat out" "all_length ps out"
      using Suc.IH[OF r(1)] b(2) old Suc.prems by (auto simp del: pend_simps)
    have "patch (Suc k) i old (pend nxt rs) = Some (q # out)"
      using o(3,4) False old by (cases nxt) auto
    then show ?thesis
      using o r(2) Suc.prems(2) old by (intro exI[of _ rs] exI[of _ "q # out"]) simp
  qed
qed

subsection \<open>Digests after a delta\<close>

lemma patch_keys: "patch k i old rs = Some out \<Longrightarrow> r \<in> set rs \<Longrightarrow> i \<le> fst r \<and> fst r < i + k"
  by (induction k i old rs arbitrary: out r rule: patch.induct)
    (fastforce split: if_splits list.splits)+

lemma patch_length: "patch k i old rs = Some out \<Longrightarrow> length out = k"
  by (induction k i old rs arbitrary: out rule: patch.induct) (auto split: if_splits list.splits)

definition set_slot :: "'p option list \<Rightarrow> nat \<times> 'p \<Rightarrow> 'p option list" where
  "set_slot slots r = slots[fst r := Some (snd r)]"

lemma set_slot_pair [simp]: "set_slot slots (j, p) = slots[j := Some p]"
  by (simp add: set_slot_def)

lemma hash_at_tl: "hash_at (tl xs) j = hash_at xs (Suc j)"
  by (cases xs) (auto simp: hash_at_def)

lemma hash_at_Cons [simp]:
  "hash_at (x # xs) 0 = Some x"
  "hash_at (x # xs) (Suc j) = hash_at xs j"
  "hash_at [] j = None"
  by (simp_all add: hash_at_def)

lemma take_Suc_set_slot:
  "i < length slots \<Longrightarrow> take (Suc i) (slots[i := x]) = take i slots @ [x]"
  by (simp add: take_Suc_conv_app_nth)

text \<open>Slots filled in any order end as the patched list.\<close>

lemma patch_slots:
  "patch k i old rs = Some out \<Longrightarrow> length slots = i + k \<Longrightarrow> \<forall>j<k. slots ! (i + j) = hash_at old j \<Longrightarrow>
     foldl set_slot slots rs = take i slots @ map Some out"
proof (induction k i old rs arbitrary: out slots rule: patch.induct)
  case (1 i old rs)
  then show ?case by (simp split: if_splits)
next
  case (2 k i old j p rs)
  show ?case
  proof (cases "j = i")
    case True
    then obtain out' where o: "patch k (Suc i) (tl old) rs = Some out'" "out = p # out'"
      using "2.prems"(1) by auto
    have "foldl set_slot (slots[i := Some p]) rs = take (Suc i) (slots[i := Some p]) @ map Some out'"
    proof (rule "2.IH"(1)[OF True o(1)])
      show "\<forall>j<k. slots[i := Some p] ! (Suc i + j) = hash_at (tl old) j"
        using "2.prems"(3) by (auto simp: hash_at_tl dest: spec[of _ "Suc _"])
    qed (use "2.prems"(2) in simp)
    then show ?thesis
      using True o(2) "2.prems"(2) by (simp add: take_Suc_set_slot)
  next
    case False
    then obtain q old' out' where o: "old = q # old'" "patch k (Suc i) old' ((j, p) # rs) = Some out'" "out = q # out'"
      using "2.prems"(1) by (auto split: list.splits)
    have "slots ! i = Some q"
      using "2.prems"(3) o(1) by (auto dest: spec[of _ 0])
    then have t: "take (Suc i) slots = take i slots @ [Some q]"
      using "2.prems"(2) by (simp add: take_Suc_conv_app_nth)
    have "foldl set_slot slots ((j, p) # rs) = take (Suc i) slots @ map Some out'"
    proof (rule "2.IH"(2)[OF False o(1,2)])
      show "\<forall>j<k. slots ! (Suc i + j) = hash_at old' j"
        using "2.prems"(3) o(1) by (auto dest: spec[of _ "Suc _"])
    qed (use "2.prems"(2) in simp)
    then show ?thesis using t o(3) by simp
  qed
next
  case (3 k i old)
  then obtain q old' out' where o: "old = q # old'" "patch k (Suc i) old' [] = Some out'" "out = q # out'"
    by (auto split: list.splits)
  have "slots ! i = Some q"
    using "3.prems"(3) o(1) by (auto dest: spec[of _ 0])
  then have t: "take (Suc i) slots = take i slots @ [Some q]"
    using "3.prems"(2) by (simp add: take_Suc_conv_app_nth)
  have "foldl set_slot slots [] = take (Suc i) slots @ map Some out'"
  proof (rule "3.IH"[OF o(1,2)])
    show "\<forall>j<k. slots ! (Suc i + j) = hash_at old' j"
      using "3.prems"(3) o(1) by (auto dest: spec[of _ "Suc _"])
  qed (use "3.prems"(2) in simp)
  then show ?case using t o(3) by simp
qed

lemma hash_loop_records:
  "list_all (record_ok ps) rs \<Longrightarrow> \<forall>r \<in> set rs. fst r < length slots \<Longrightarrow>
     hash_loop sha ps slots (encode_records rs) = Inr (foldl set_slot slots (map (\<lambda>(j, p). (j, sha p)) rs))"
proof (induction rs arbitrary: slots)
  case Nil
  then show ?case by (simp add: hash_loop.simps[of sha ps slots "[]"])
next
  case (Cons r rs)
  obtain j p where r: "r = (j, p)" by fastforce
  show ?case
    using Cons.IH[of "slots[j := Some (sha p)]"] Cons.prems
    by (simp add: r hash_loop.simps[of sha ps slots "encode_record (j, p) @ encode_records rs"])
qed

lemma collect_slots_Some: "collect_slots (map Some hs) = Inr hs"
  by (induction hs) simp_all

text \<open>The digest loop computes the digests of what the page loop writes.\<close>

lemma hash_loop_patch:
  assumes "patch n 0 old rs = Some out" and "list_all (record_ok ps) rs"
  shows "rbind (hash_loop sha ps (map (hash_at (map sha old)) [0..<n]) (encode_records rs)) collect_slots
       = Inr (map sha out)"
proof -
  let ?rs = "map (\<lambda>(j, p). (j, sha p)) rs"
  let ?slots = "map (hash_at (map sha old)) [0..<n]"
  have "patch n 0 (map sha old) ?rs = Some (map sha out)"
    using assms(1) by (simp add: patch_map)
  from patch_slots[OF this, of ?slots]
  have "foldl set_slot ?slots ?rs = map Some (map sha out)" by simp
  moreover have "\<forall>r \<in> set rs. fst r < length ?slots"
    using patch_keys[OF assms(1)] by simp
  ultimately show ?thesis
    using hash_loop_records[OF assms(2), of ?slots sha] by (simp add: collect_slots_Some del: map_map)
qed

subsection \<open>The delta that a run writes\<close>

text \<open>What the written delta rebuilds: the new page, or an old page with the same digest.\<close>

fun rebuilt :: "(string \<Rightarrow> string) \<Rightarrow> string list \<Rightarrow> nat \<Rightarrow> string list \<Rightarrow> string list" where
  "rebuilt sha old i [] = []"
| "rebuilt sha old i (p # ps) =
     (if hash_at (map sha old) i = Some (sha p) then old ! i else p) # rebuilt sha old (Suc i) ps"

lemma rebuilt_digests: "map sha (rebuilt sha old i new) = map sha new"
  by (induction new arbitrary: i) (auto simp: hash_at_def split: if_splits)

lemma rebuilt_new:
  "\<forall>j < length new. i + j < length old \<longrightarrow> sha (old ! (i + j)) = sha (new ! j) \<longrightarrow> old ! (i + j) = new ! j \<Longrightarrow>
     rebuilt sha old i new = new"
proof (induction new arbitrary: i)
  case (Cons p ps)
  have "rebuilt sha old (Suc i) ps = ps"
    using Cons.prems by (intro Cons.IH) (auto dest: spec[of _ "Suc _"])
  moreover have "hash_at (map sha old) i = Some (sha p) \<Longrightarrow> old ! i = p"
    using Cons.prems by (auto simp: hash_at_def dest: spec[of _ 0] split: if_splits)
  ultimately show ?case by simp
qed simp

lemma diff_records_keys: "r \<in> set (diff_records sha hs i new) \<Longrightarrow> i \<le> fst r \<and> fst r < i + length new \<and> snd r \<in> set new"
  by (induction new arbitrary: i) (fastforce split: if_splits)+

lemma patch_diff_records:
  "patch (length new) i (drop i old) (diff_records sha (map sha old) i new) = Some (rebuilt sha old i new)"
proof (induction new arbitrary: i)
  case (Cons p ps)
  let ?rs = "diff_records sha (map sha old) (Suc i) ps"
  show ?case
  proof (cases "hash_at (map sha old) i = Some (sha p)")
    case False
    then show ?thesis using Cons[of "Suc i"] by (simp add: drop_Suc tl_drop)
  next
    case True
    then have "i < length old" by (simp add: hash_at_def split: if_splits)
    then have d: "drop i old = old ! i # drop (Suc i) old"
      by (simp add: Cons_nth_drop_Suc)
    show ?thesis
    proof (cases ?rs)
      case Nil
      then show ?thesis using True d Cons[of "Suc i"] by simp
    next
      case (Cons r rs)
      have "fst r \<noteq> i"
        using diff_records_keys[of r sha "map sha old" "Suc i" ps] Cons by auto
      then show ?thesis
        using True d Cons Cons.IH[of "Suc i"] by (cases r) simp
    qed
  qed
qed simp

lemma open_diff_written:
  assumes "0 < ps" and "ps < 2 ^ 32" and "m < 2 ^ 64" and "n < 2 ^ 64" and "id_ok i"
  shows "open_diff (DIFF_MAGIC @ le_bytes 4 ps @ le_bytes 8 m @ le_bytes 8 n @ le_bytes 4 (length i) @ i @ r)
       = Inr (\<lparr>dr_page_size = ps, dr_base_page_count = m, dr_new_page_count = n\<rparr>, r)"
proof -
  have "read_magic DIFF_MAGIC (DIFF_MAGIC @ x) = Inr ((), x)" for x
    by (rule read_magic_append) (simp add: DIFF_MAGIC_def)
  then show ?thesis
    using assms by (simp add: open_diff_def read_string_written)
qed

text \<open>
  The file of the delta from a base with pages \<open>old\<close> to a database with pages \<open>new\<close>, and what the
  two readers make of it.
\<close>

lemma written_delta:
  assumes base: "db_geometry base = Inr (ps, m)" and old: "read_pages ps base = Inr old"
    and new: "db_geometry newdb = Inr (ps, n)" and newp: "read_pages ps newdb = Inr new"
    and ph: "compute_hashes sha base i = Inr ph" and i: "id_ok i"
    and len: "length base < 2 ^ 64" "length newdb < 2 ^ 64"
  shows "\<exists>diff summary. write_diff sha ph newdb = Inr (diff, summary)
    \<and> ds_new_page_count summary = n
    \<and> apply_diff base diff = Inr (concat (rebuilt sha old 0 new))
    \<and> hashes_after_diff sha ph diff = Inr (map sha new)"
proof -
  let ?recs = "diff_records sha (map sha old) 0 new"
  let ?diff = "DIFF_MAGIC @ le_bytes 4 ps @ le_bytes 8 m @ le_bytes 8 n @ le_bytes 4 (length i) @ i @ encode_records ?recs"
  have o: "base = concat old" "all_length ps old" "length old = m" "0 < ps" "ps < 2 ^ 32"
    using db_geometry_pages[OF base] old by auto
  have nw: "newdb = concat new" "all_length ps new" "length new = n"
    using db_geometry_pages[OF new] newp by auto
  have ph': "ph = \<lparr>ph_base_id = i, ph_page_size = ps, ph_hashes = map sha old\<rparr>"
    using ph base old by (simp add: compute_hashes_def)
  have small: "k < 2 ^ 64" if "ps * k = length f" "length f < 2 ^ 64" for k :: nat and f :: string
    using that o(4) by (metis le_less_trans nat_0_less_mult_iff nat_le_iff_add mult_le_mono1 mult_1 Suc_leI One_nat_def)
  have mn: "m < 2 ^ 64" "n < 2 ^ 64"
    using small[of m base] small[of n newdb] o nw len length_concat_pages by metis+
  have ok: "list_all (record_ok ps) ?recs"
    using diff_records_keys[of _ sha "map sha old" 0 new] nw mn
    by (fastforce simp: list_all_iff record_ok_def all_length_def)
  have w: "write_diff sha ph newdb = Inr (?diff, \<lparr>ds_changed_pages = length ?recs, ds_new_page_count = n\<rparr>)"
    using new newp i o(3) by (simp add: write_diff_def ph' write_string_ok Let_def encode_records_def)
  have od: "open_diff ?diff = Inr (\<lparr>dr_page_size = ps, dr_base_page_count = m, dr_new_page_count = n\<rparr>, encode_records ?recs)"
    using open_diff_written o mn i by blast
  have pt: "patch n 0 old ?recs = Some (rebuilt sha old 0 new)"
    using patch_diff_records[of new 0 old sha] nw by simp
  let ?nxt = "case ?recs of [] \<Rightarrow> None | r # _ \<Rightarrow> Some r"
  have pe: "pend ?nxt (tl ?recs) = ?recs" "?nxt = None \<longrightarrow> tl ?recs = []"
    by (cases ?recs; simp)+
  have "apply_loop ps m n 0 (concat old) ?nxt (encode_records (tl ?recs)) = Inr (concat (rebuilt sha old 0 new), None)"
  proof (rule apply_loop_complete)
    show "patch n 0 old (pend ?nxt (tl ?recs)) = Some (rebuilt sha old 0 new)"
      unfolding pe(1) by (rule pt)
    show "list_all (record_ok ps) (pend ?nxt (tl ?recs))"
      unfolding pe(1) by (rule ok)
  qed (use o pe(2) in simp_all)
  then have a: "apply_diff base ?diff = Inr (concat (rebuilt sha old 0 new))"
    using od base next_record_records[OF ok] o(1) by (simp add: apply_diff_def)
  have "rbind (hash_loop sha ps (map (hash_at (map sha old)) [0..<n]) (encode_records ?recs)) collect_slots
      = Inr (map sha new)"
    using hash_loop_patch[OF pt ok, of sha] by (simp add: rebuilt_digests)
  then have h: "hashes_after_diff sha ph ?diff = Inr (map sha new)"
    using od o by (simp add: hashes_after_diff_def ph')
  have "ds_new_page_count \<lparr>ds_changed_pages = length ?recs, ds_new_page_count = n\<rparr> = n"
    by simp
  then show ?thesis
    using w a h by blast
qed

text \<open>Databases of one and of two 18-byte pages, for concrete instances.\<close>

text \<open>No page of the one has the digest of a different page at its place in the other.\<close>

definition distinct_digests :: "(string \<Rightarrow> string) \<Rightarrow> nat \<Rightarrow> string \<Rightarrow> string \<Rightarrow> bool" where
  "distinct_digests sha ps a b = (case (read_pages ps a, read_pages ps b) of
     (Inr old, Inr new) \<Rightarrow> list_all (\<lambda>(x, y). sha x = sha y \<longrightarrow> x = y) (zip old new) | _ \<Rightarrow> True)"

lemma delta_rebuilds:
  assumes "compute_hashes sha base i = Inr ph" "id_ok i" "length base < 2 ^ 64" "length newdb < 2 ^ 64"
    and "write_diff sha ph newdb = Inr (diff, summary)" "distinct_digests sha (ph_page_size ph) base newdb"
  shows "apply_diff base diff = Inr newdb"
proof -
  let ?ps = "ph_page_size ph"
  obtain k where g: "db_geometry base = Inr (?ps, k)"
    using assms(1) by (auto simp: compute_hashes_def rbind_Inr)
  obtain n where h: "db_geometry newdb = Inr (?ps, n)"
    using assms(5) by (auto simp: write_diff_def rbind_Inr ensure_Inr)
  obtain old where o: "read_pages ?ps base = Inr old" using db_geometry_pages[OF g] by auto
  obtain new where nw: "read_pages ?ps newdb = Inr new" "newdb = concat new" using db_geometry_pages[OF h] by auto
  have "apply_diff base diff = Inr (concat (rebuilt sha old 0 new))"
    using written_delta[OF g o h nw(1) assms(1-4)] assms(5) by auto
  moreover have "rebuilt sha old 0 new = new"
    using assms(6) by (intro rebuilt_new) (auto simp: distinct_digests_def o nw(1) list_all_length)
  ultimately show ?thesis using nw(2) by simp
qed

definition example_db1 :: string where
  "example_db1 = ''SQLite format 3'' @ [CHR 0x00, CHR 0x00, CHR 0x12]"
definition example_db2 :: string where
  "example_db2 = example_db1 @ ''abcdefghijklmnopqr''"
definition example_hashes :: PageHashes where
  "example_hashes = \<lparr>ph_base_id = ''base1'', ph_page_size = 18, ph_hashes = [example_db1]\<rparr>"

subsection \<open>Properties\<close>

text \<open>
  C5 (delta_roundtrip): for two databases of one page size, the delta written against the page
  hashes of the first rebuilds the second byte for byte, provided no page has the digest of a
  different page at its place; and the digests a run compares before shipping are those of the
  second whether or not digests collide.
\<close>

theorem delta_roundtrip:
  assumes "db_geometry base = Inr (ps, m)" and "read_pages ps base = Inr old"
    and "db_geometry newdb = Inr (ps, n)" and "read_pages ps newdb = Inr new"
    and "compute_hashes sha base i = Inr ph" and "id_ok i"
    and "length base < 2 ^ 64" and "length newdb < 2 ^ 64"
  shows "\<exists>diff summary. write_diff sha ph newdb = Inr (diff, summary)
    \<and> hashes_after_diff sha ph diff = Inr (map sha new)
    \<and> ((\<forall>j < length new. j < length old \<longrightarrow> sha (old ! j) = sha (new ! j) \<longrightarrow> old ! j = new ! j)
       \<longrightarrow> apply_diff base diff = Inr newdb)"
proof -
  obtain diff summary where d: "write_diff sha ph newdb = Inr (diff, summary)"
    "apply_diff base diff = Inr (concat (rebuilt sha old 0 new))"
    "hashes_after_diff sha ph diff = Inr (map sha new)"
    using written_delta[OF assms] by blast
  have "newdb = concat new"
    using db_geometry_pages[OF assms(3)] assms(4) by auto
  then show ?thesis
    using d rebuilt_new[of new 0 old sha] by (intro exI[of _ diff] exI[of _ summary]) simp
qed

lemma delta_roundtrip_witness:
  "\<exists>diff summary. write_diff (\<lambda>s. s) example_hashes example_db2 = Inr (diff, summary)
    \<and> apply_diff example_db1 diff = Inr example_db2"
proof -
  have g: "db_geometry example_db1 = Inr (18, 1)" "read_pages 18 example_db1 = Inr [example_db1]"
    "db_geometry example_db2 = Inr (18, 2)" "read_pages 18 example_db2 = Inr [example_db1, ''abcdefghijklmnopqr'']"
    "compute_hashes (\<lambda>s. s) example_db1 ''base1'' = Inr example_hashes" "id_ok ''base1''"
    by code_simp+
  have l: "length example_db1 < 2 ^ 64" "length example_db2 < 2 ^ 64"
    by (simp_all add: example_db1_def example_db2_def)
  from delta_roundtrip[OF g l]
  obtain diff summary where d: "write_diff (\<lambda>s. s) example_hashes example_db2 = Inr (diff, summary)"
    "(\<forall>j < length [example_db1, ''abcdefghijklmnopqr'']. j < length [example_db1] \<longrightarrow>
       [example_db1] ! j = [example_db1, ''abcdefghijklmnopqr''] ! j \<longrightarrow>
       [example_db1] ! j = [example_db1, ''abcdefghijklmnopqr''] ! j) \<longrightarrow> apply_diff example_db1 diff = Inr example_db2"
    by blast
  then show ?thesis
    by (intro exI conjI) (assumption, simp only: imp_refl simp_thms)
qed

text \<open>
  Whatever bytes a diff file holds, when \<open>apply_diff\<close> accepts it the output
  is whole pages and \<open>hashes_after_diff\<close> computes exactly their digests: the check a run makes on
  digests is a check of the database that a restore rebuilds.
\<close>

theorem delta_hash_refines:
  assumes "apply_diff base diff = Inr out" and "compute_hashes sha base i = Inr ph"
  shows "\<exists>pages. out = concat pages \<and> (\<forall>p \<in> set pages. length p = ph_page_size ph)
    \<and> hashes_after_diff sha ph diff = Inr (map sha pages)"
proof -
  obtain d r m nxt r' where a: "open_diff diff = Inr (d, r)" "db_geometry base = Inr (dr_page_size d, dr_base_page_count d)"
    "next_record (dr_page_size d) r = Inr (nxt, r')"
    "apply_loop (dr_page_size d) (dr_base_page_count d) (dr_new_page_count d) 0 base nxt r' = Inr (out, None)"
    using assms(1) by (auto simp: apply_diff_def rbind_Inr ensure_Inr)
  let ?ps = "dr_page_size d"
  obtain old where o: "base = concat old" "all_length ?ps old" "length old = dr_base_page_count d"
    "read_pages ?ps base = Inr old"
    using db_geometry_pages[OF a(2)] by blast
  have ph: "ph = \<lparr>ph_base_id = i, ph_page_size = ?ps, ph_hashes = map sha old\<rparr>"
    using assms(2) a(2) o by (simp add: compute_hashes_def)
  note np = next_record_parse[OF a(3)]
  obtain rs pages where s: "r' = encode_records rs" "list_all (record_ok ?ps) (pend nxt rs)"
    "nxt = None \<longrightarrow> rs = []" "patch (dr_new_page_count d) 0 old (pend nxt rs) = Some pages"
    "out = concat pages" "all_length ?ps pages"
    using apply_loop_sound[of ?ps "dr_base_page_count d" "dr_new_page_count d" 0 old nxt r' out] a(4) o np by auto
  have "r = encode_records (pend nxt rs)"
    using np s(1) by (cases nxt) simp_all
  then have "hashes_after_diff sha ph diff = Inr (map sha pages)"
    using hash_loop_patch[OF s(4,2), of sha] a(1) o ph by (simp add: hashes_after_diff_def)
  then show ?thesis
    using s(5,6) ph by (intro exI[of _ pages]) (simp add: all_length_def list_all_iff)
qed

lemma delta_hash_refines_witness:
  "\<exists>diff out pages. apply_diff example_db1 diff = Inr out \<and> out = concat pages
    \<and> hashes_after_diff (\<lambda>s. s) example_hashes diff = Inr pages"
proof -
  let ?diff = "DIFF_MAGIC @ le_bytes 4 18 @ le_bytes 8 1 @ le_bytes 8 1 @ le_bytes 4 0"
  have a: "apply_diff example_db1 ?diff = Inr example_db1"
    and c: "compute_hashes (\<lambda>s. s) example_db1 ''base1'' = Inr example_hashes"
    by code_simp+
  show ?thesis
    using a delta_hash_refines[OF a c] by auto
qed

text \<open>
  A page-hash file reads back as what was written, for a base id of at
  most 4096 bytes of UTF-8 and 32-byte digests.
\<close>

theorem page_hashes_roundtrip:
  assumes "id_ok (ph_base_id h)" and "ph_page_size h < 2 ^ 32" and "length (ph_hashes h) < 2 ^ 64"
    and "list_all (\<lambda>d. length d = 32) (ph_hashes h)"
  shows "rbind (write_hashes h) read_hashes = Inr h"
proof -
  have m: "read_magic HASH_MAGIC (HASH_MAGIC @ x) = Inr ((), x)" for x
    by (rule read_magic_append) (simp add: HASH_MAGIC_def)
  have "read_digests (length (ph_hashes h)) (concat (ph_hashes h)) = Inr (ph_hashes h, [])"
    using read_digests_concat[OF assms(4), of "[]"] by simp
  then show ?thesis
    using assms m by (simp add: write_hashes_def read_hashes_def write_string_ok read_string_written)
qed

lemma page_hashes_roundtrip_witness:
  "rbind (write_hashes (example_hashes\<lparr>ph_hashes := [replicate 32 (CHR ''x'')]\<rparr>)) read_hashes
   = Inr (example_hashes\<lparr>ph_hashes := [replicate 32 (CHR ''x'')]\<rparr>)"
  by (rule page_hashes_roundtrip) (simp_all add: example_hashes_def id_ok_def bytes_of_def)

end
