(* ===== verification/Ship.thy ===== *)
theory Ship
  imports BackupTypes
begin

text \<open>
  Moving a finished artifact from the local outbox into the destination folder
  (\<open>hippo-daemon/src/backup/ship.rs\<close>) over an explicit file system. Every call that can fail
  takes its outcome from a list of faults, so a statement about all fault lists covers every
  error and, because an error ends the operation where it stands, every point at which the work
  stops. A copy may write other bytes than it read, and another process may create the target
  before the rename.
\<close>

subsection \<open>The file system\<close>

datatype io_err = NotFound | AlreadyExists | Unsupported | OtherError string

datatype dest_kind = DirPresent | NotADir | DirMissing | StatError string

text \<open>What \<open>manifest.json\<close> holds: nothing, a manifest, or text that does not parse.\<close>

datatype manifest_file = MfAbsent | Mf Manifest | MfCorrupt

text \<open>
  Folders list their files; \<open>w_sidecars\<close> are the outbox files ending in \<open>.entry.json\<close>, with the
  entry they parse to. A fault is the error of one call, and whether the destination folder
  vanished with it.
\<close>

record world =
  w_dest_kind :: dest_kind
  w_dest :: "(string \<times> string) list"
  w_manifest :: manifest_file
  w_outbox :: "(string \<times> string) list"
  w_sidecars :: "(string \<times> ManifestEntry option) list"
  w_pagehashes :: "string option"
  w_faults :: "(io_err \<times> bool) option list"

record fs_env =
  fe_sha :: "string \<Rightarrow> string"
  fe_copy :: "string \<Rightarrow> string"
  fe_race :: "string option"
  fe_exclusive :: bool

definition sys :: "world \<Rightarrow> io_err option \<times> world" where
  "sys w = (case w_faults w of
     [] \<Rightarrow> (None, w)
   | None # fs \<Rightarrow> (None, w\<lparr>w_faults := fs\<rparr>)
   | Some (e, vanish) # fs \<Rightarrow>
       (Some e, w\<lparr>w_faults := fs, w_dest_kind := (if vanish then DirMissing else w_dest_kind w)\<rparr>))"

definition dest_file :: "world \<Rightarrow> string \<Rightarrow> string option" where
  "dest_file w n = map_of (w_dest w) n"
definition outbox_file :: "world \<Rightarrow> string \<Rightarrow> string option" where
  "outbox_file w n = map_of (w_outbox w) n"

definition put_dest :: "string \<Rightarrow> string \<Rightarrow> world \<Rightarrow> world" where
  "put_dest n c w = w\<lparr>w_dest := al_put n c (w_dest w)\<rparr>"
definition del_dest :: "string \<Rightarrow> world \<Rightarrow> world" where
  "del_dest n w = w\<lparr>w_dest := al_del n (w_dest w)\<rparr>"
definition del_outbox :: "string \<Rightarrow> world \<Rightarrow> world" where
  "del_outbox n w = w\<lparr>w_outbox := al_del n (w_outbox w)\<rparr>"

type_synonym 'a io = "world \<Rightarrow> (io_err + 'a) \<times> world"

definition remove_dest :: "string \<Rightarrow> unit io" where
  "remove_dest n w = (case sys w of
     (Some e, w') \<Rightarrow> (Inl e, w')
   | (None, w') \<Rightarrow> if dest_file w' n = None then (Inl NotFound, w') else (Inr (), del_dest n w'))"

definition remove_outbox :: "string \<Rightarrow> unit io" where
  "remove_outbox n w = (case sys w of
     (Some e, w') \<Rightarrow> (Inl e, w')
   | (None, w') \<Rightarrow> if outbox_file w' n = None then (Inl NotFound, w') else (Inr (), del_outbox n w'))"

definition sha256_of_dest :: "fs_env \<Rightarrow> string \<Rightarrow> string io" where
  "sha256_of_dest env n w = (case sys w of
     (Some e, w') \<Rightarrow> (Inl e, w')
   | (None, w') \<Rightarrow> (case dest_file w' n of None \<Rightarrow> (Inl NotFound, w') | Some c \<Rightarrow> (Inr (fe_sha env c), w')))"

text \<open>Opening with \<open>create_new\<close> fails on an existing file.\<close>

definition create_new_dest :: "string \<Rightarrow> unit io" where
  "create_new_dest n w = (case sys w of
     (Some e, w') \<Rightarrow> (Inl e, w')
   | (None, w') \<Rightarrow> if dest_file w' n \<noteq> None then (Inl AlreadyExists, w') else (Inr (), put_dest n [] w'))"

subsection \<open>ship.rs\<close>

datatype ShipOutcome = Shipped string | DestinationUnavailable

text \<open>\<open>rename_noreplace\<close>; another process may have created the target just before.\<close>

definition rename_noreplace :: "fs_env \<Rightarrow> string \<Rightarrow> string \<Rightarrow> unit io" where
  "rename_noreplace env from to w0 =
     (let w = (case fe_race env of
                 Some c \<Rightarrow> if dest_file w0 to = None then put_dest to c w0 else w0
               | None \<Rightarrow> w0)
      in case sys w of
           (Some e, w') \<Rightarrow> (Inl e, w')
         | (None, w') \<Rightarrow>
             if \<not> fe_exclusive env then (Inl Unsupported, w')
             else if dest_file w' to \<noteq> None then (Inl AlreadyExists, w')
             else (case dest_file w' from of
                 None \<Rightarrow> (Inl NotFound, w')
               | Some c \<Rightarrow> (Inr (), put_dest to c (del_dest from w'))))"

definition rename_dest :: "string \<Rightarrow> string \<Rightarrow> unit io" where
  "rename_dest from to w = (case sys w of
     (Some e, w') \<Rightarrow> (Inl e, w')
   | (None, w') \<Rightarrow> (case dest_file w' from of
         None \<Rightarrow> (Inl NotFound, w')
       | Some c \<Rightarrow> (Inr (), put_dest to c (del_dest from w'))))"

type_synonym 'a run = "world \<Rightarrow> (string + 'a) \<times> world"

definition finish_outbox :: "string \<Rightarrow> ShipOutcome run" where
  "finish_outbox name w = (case remove_outbox name w of
     (Inl e, w') \<Rightarrow> (Inl (''remove outbox file '' @ name), w')
   | (Inr _, w') \<Rightarrow> (Inr (Shipped name), w'))"

definition settle_existing :: "fs_env \<Rightarrow> string \<Rightarrow> string \<Rightarrow> ShipOutcome run" where
  "settle_existing env name expected w = (case sha256_of_dest env name w of
     (Inl e, w') \<Rightarrow> (Inl (''hash existing '' @ name), w')
   | (Inr actual, w') \<Rightarrow>
       if actual \<noteq> expected
       then (Inl (name @ '' already exists with different contents; refusing to overwrite''), w')
       else finish_outbox name w')"

definition partial_name :: "string \<Rightarrow> string" where
  "partial_name name = ''.'' @ name @ ''.partial''"

text \<open>The open call, with the replacement of a partial file a killed run left behind.\<close>

definition open_partial :: "string \<Rightarrow> unit io" where
  "open_partial p w = (case create_new_dest p w of
     (Inl AlreadyExists, w1) \<Rightarrow> (case remove_dest p w1 of
         (Inl e, w2) \<Rightarrow> (Inl e, w2)
       | (Inr _, w2) \<Rightarrow> create_new_dest p w2)
   | r \<Rightarrow> r)"

definition copy_partial :: "fs_env \<Rightarrow> string \<Rightarrow> string \<Rightarrow> string io" where
  "copy_partial env name p w = (case sys w of
     (Some e, w') \<Rightarrow> (Inl e, w')
   | (None, w') \<Rightarrow> (case outbox_file w' name of
         None \<Rightarrow> (Inl NotFound, w')
       | Some c \<Rightarrow> sha256_of_dest env p (put_dest p (fe_copy env c) w')))"

text \<open>After the rename: read the file back, then delete the outbox file.\<close>

definition read_back :: "fs_env \<Rightarrow> string \<Rightarrow> string \<Rightarrow> ShipOutcome run" where
  "read_back env name expected w = (case sha256_of_dest env name w of
     (Inl e, w') \<Rightarrow> (Inl (''read back '' @ name), snd (remove_dest name w'))
   | (Inr h, w') \<Rightarrow>
       if h = expected then finish_outbox name w'
       else (Inl (''read-back hash mismatch for '' @ name), snd (remove_dest name w')))"

definition ship :: "fs_env \<Rightarrow> string \<Rightarrow> string \<Rightarrow> ShipOutcome run" where
  "ship env name expected w =
     (case w_dest_kind w of
        NotADir \<Rightarrow> (Inl ''destination is not a directory'', w)
      | DirMissing \<Rightarrow> (Inr DestinationUnavailable, w)
      | StatError e \<Rightarrow> (Inl (''stat: '' @ e), w)
      | DirPresent \<Rightarrow>
        if dest_file w name \<noteq> None then settle_existing env name expected w
        else (let p = partial_name name in
          case open_partial p w of
            (Inl e, w1) \<Rightarrow>
              if e = NotFound \<and> w_dest_kind w1 = DirMissing then (Inr DestinationUnavailable, w1)
              else (Inl (''create '' @ p), w1)
          | (Inr _, w1) \<Rightarrow> (case copy_partial env name p w1 of
              (Inl e, w2) \<Rightarrow>
                (let w3 = snd (remove_dest p w2) in
                 if e = NotFound \<and> w_dest_kind w3 = DirMissing then (Inr DestinationUnavailable, w3)
                 else (Inl (''copy to '' @ p), w3))
            | (Inr staged, w2) \<Rightarrow>
                if staged \<noteq> expected
                then (Inl (''staged hash mismatch for '' @ p), snd (remove_dest p w2))
                else (case rename_noreplace env p name w2 of
                    (Inr _, w3) \<Rightarrow> read_back env name expected w3
                  | (Inl AlreadyExists, w3) \<Rightarrow> settle_existing env name expected (snd (remove_dest p w3))
                  | (Inl Unsupported, w3) \<Rightarrow>
                      if dest_file w3 name \<noteq> None
                      then settle_existing env name expected (snd (remove_dest p w3))
                      else (case rename_dest p name w3 of
                          (Inl e, w4) \<Rightarrow> (Inl (''rename to '' @ name), snd (remove_dest p w4))
                        | (Inr _, w4) \<Rightarrow> read_back env name expected w4)
                  | (Inl e, w3) \<Rightarrow> (Inl (''rename to '' @ name), snd (remove_dest p w3))))))"

subsection \<open>Upload state\<close>

definition is_drive_fs :: "string \<Rightarrow> bool" where
  "is_drive_fs canonical = str_contains canonical ''/Library/CloudStorage/GoogleDrive-''"

text \<open>\<open>xattr\<close> is what \<open>getxattr\<close> reports: the attribute is there, it is missing, or an error.\<close>

datatype xattr = XattrPresent | XattrMissing | XattrError string

definition is_uploaded :: "xattr \<Rightarrow> bool \<Rightarrow> string + bool" where
  "is_uploaded x drive_fs = (if \<not> drive_fs then Inr True
     else case x of XattrPresent \<Rightarrow> Inr True | XattrMissing \<Rightarrow> Inr False | XattrError e \<Rightarrow> Inl e)"

subsection \<open>What a call leaves alone\<close>

text \<open>
  \<open>untouched ns w w'\<close>: outside the destination names \<open>ns\<close>, the files of both folders and the
  records are as before. \<open>settled\<close> adds what deleting the outbox file needs: the destination
  holds the bytes with the expected digest.
\<close>

definition untouched :: "string set \<Rightarrow> world \<Rightarrow> world \<Rightarrow> bool" where
  "untouched ns w w' = ((\<forall>n. n \<notin> ns \<longrightarrow> dest_file w' n = dest_file w n)
     \<and> w_outbox w' = w_outbox w \<and> w_manifest w' = w_manifest w
     \<and> w_sidecars w' = w_sidecars w \<and> w_pagehashes w' = w_pagehashes w)"

definition settled :: "fs_env \<Rightarrow> string \<Rightarrow> string \<Rightarrow> string set \<Rightarrow> world \<Rightarrow> ShipOutcome option \<Rightarrow> world \<Rightarrow> bool" where
  "settled env name expected ns w r w' = ((\<forall>n. n \<notin> ns \<longrightarrow> dest_file w' n = dest_file w n)
     \<and> w_manifest w' = w_manifest w \<and> w_sidecars w' = w_sidecars w \<and> w_pagehashes w' = w_pagehashes w
     \<and> (\<forall>x. r = Some (Shipped x) \<longrightarrow> w_outbox w' = al_del name (w_outbox w)
          \<and> (\<exists>c. dest_file w' name = Some c \<and> fe_sha env c = expected))
     \<and> (w_outbox w' = w_outbox w
        \<or> (w_outbox w' = al_del name (w_outbox w)
           \<and> (\<exists>c. dest_file w' name = Some c \<and> fe_sha env c = expected))))"

lemma untouched_refl: "untouched ns w w"
  by (simp add: untouched_def)

lemma untouched_trans: "untouched ns w1 w2 \<Longrightarrow> untouched ns w2 w3 \<Longrightarrow> untouched ns w1 w3"
  by (simp add: untouched_def)

lemma untouched_settled: "untouched ns w1 w2 \<Longrightarrow> settled env name ex ns w2 r w3 \<Longrightarrow> settled env name ex ns w1 r w3"
  by (auto simp: untouched_def settled_def)

lemma untouched_is_settled: "untouched ns w1 w2 \<Longrightarrow> \<forall>x. r \<noteq> Some (Shipped x) \<Longrightarrow> settled env name ex ns w1 r w2"
  by (simp add: untouched_def settled_def)

lemma settled_mono: "settled env name ex ns w r w' \<Longrightarrow> ns \<subseteq> ms \<Longrightarrow> settled env name ex ms w r w'"
  by (auto simp: settled_def)

lemma sys_fields:
  assumes "sys w = (r, w')"
  shows "w_dest w' = w_dest w" "w_outbox w' = w_outbox w" "w_manifest w' = w_manifest w"
    "w_sidecars w' = w_sidecars w" "w_pagehashes w' = w_pagehashes w"
    "dest_file w' = dest_file w" "outbox_file w' = outbox_file w"
  using assms by (auto simp: sys_def dest_file_def outbox_file_def fun_eq_iff split: list.splits option.splits)

lemma put_del_dest [simp]:
  "dest_file (put_dest n c w) = (dest_file w)(n \<mapsto> c)"
  "dest_file (del_dest n w) = (dest_file w)(n := None)"
  "w_outbox (put_dest n c w) = w_outbox w" "w_outbox (del_dest n w) = w_outbox w"
  "w_manifest (put_dest n c w) = w_manifest w" "w_manifest (del_dest n w) = w_manifest w"
  "w_sidecars (put_dest n c w) = w_sidecars w" "w_sidecars (del_dest n w) = w_sidecars w"
  "w_pagehashes (put_dest n c w) = w_pagehashes w" "w_pagehashes (del_dest n w) = w_pagehashes w"
  "w_dest_kind (put_dest n c w) = w_dest_kind w" "w_dest_kind (del_dest n w) = w_dest_kind w"
  "w_faults (put_dest n c w) = w_faults w" "w_faults (del_dest n w) = w_faults w"
  "outbox_file (put_dest n c w) = outbox_file w" "outbox_file (del_dest n w) = outbox_file w"
  by (simp_all add: put_dest_def del_dest_def dest_file_def outbox_file_def fun_eq_iff)

lemma sys_is_untouched: "sys w = (r, w') \<Longrightarrow> untouched ns w w'"
  by (simp add: untouched_def sys_fields)

lemma remove_dest_untouched: "n \<in> ns \<Longrightarrow> untouched ns w (snd (remove_dest n w))"
  by (auto simp: remove_dest_def untouched_def sys_fields split: prod.split option.split)

lemma create_new_untouched: "create_new_dest n w = (r, w') \<Longrightarrow> n \<in> ns \<Longrightarrow> untouched ns w w'"
  by (auto simp: create_new_dest_def untouched_def sys_fields split: prod.splits option.splits if_splits)

lemma open_partial_untouched:
  assumes "open_partial p w = (r, w')" and "p \<in> ns"
  shows "untouched ns w w'"
proof -
  obtain r1 w1 where c: "create_new_dest p w = (r1, w1)" by fastforce
  note u1 = create_new_untouched[OF c assms(2)]
  show ?thesis
  proof (cases "r1 = Inl AlreadyExists")
    case False
    then have "w' = w1"
      using assms(1) c by (auto simp: open_partial_def split: sum.splits io_err.splits)
    then show ?thesis using u1 by simp
  next
    case True
    obtain r2 w2 where d: "remove_dest p w1 = (r2, w2)" by fastforce
    have u2: "untouched ns w1 w2"
      using remove_dest_untouched[OF assms(2), of w1] d by simp
    show ?thesis
    proof (cases r2)
      case (Inl e)
      then show ?thesis
        using assms(1) c True d untouched_trans[OF u1 u2] by (simp add: open_partial_def)
    next
      case (Inr u)
      then have "create_new_dest p w2 = (r, w')"
        using assms(1) c True d by (simp add: open_partial_def)
      then show ?thesis
        using untouched_trans[OF untouched_trans[OF u1 u2]] create_new_untouched assms(2) by blast
    qed
  qed
qed

lemma sha256_of_dest_Inr:
  "sha256_of_dest env n w = (Inr h, w') \<Longrightarrow> \<exists>c. dest_file w' n = Some c \<and> fe_sha env c = h"
  by (auto simp: sha256_of_dest_def sys_fields split: prod.splits option.splits)

lemma sha256_of_dest_untouched: "sha256_of_dest env n w = (r, w') \<Longrightarrow> untouched ns w w'"
  by (auto simp: sha256_of_dest_def untouched_def sys_fields split: prod.splits option.splits)

lemma copy_partial_untouched:
  assumes "copy_partial env name p w = (r, w')" and "p \<in> ns"
  shows "untouched ns w w'"
proof -
  obtain r1 w1 where s: "sys w = (r1, w1)" by fastforce
  show ?thesis
  proof (cases "r1 = None \<and> outbox_file w1 name \<noteq> None")
    case False
    then have "w' = w1"
      using assms(1) s by (auto simp: copy_partial_def split: option.splits)
    then show ?thesis using sys_is_untouched[OF s] by simp
  next
    case True
    then obtain c where c: "outbox_file w1 name = Some c" by blast
    then have "sha256_of_dest env p (put_dest p (fe_copy env c) w1) = (r, w')"
      using assms(1) s True by (simp add: copy_partial_def)
    then have "untouched ns (put_dest p (fe_copy env c) w1) w'"
      by (rule sha256_of_dest_untouched)
    moreover have "untouched ns w (put_dest p (fe_copy env c) w1)"
      using assms(2) by (simp add: untouched_def sys_fields[OF s])
    ultimately show ?thesis by (metis untouched_trans)
  qed
qed

lemma race_untouched:
  "name \<in> ns \<Longrightarrow> untouched ns w (case fe_race env of Some c \<Rightarrow>
     if dest_file w name = None then put_dest name c w else w | None \<Rightarrow> w)"
  by (auto simp: untouched_def split: option.split)

lemma rename_noreplace_untouched:
  assumes "rename_noreplace env p name w = (r, w')" and "p \<in> ns" and "name \<in> ns"
  shows "untouched ns w w'"
proof -
  define w1 where "w1 = (case fe_race env of Some c \<Rightarrow>
     if dest_file w name = None then put_dest name c w else w | None \<Rightarrow> w)"
  have u: "untouched ns w w1"
    unfolding w1_def by (rule race_untouched[OF assms(3)])
  have "untouched ns w1 w'"
    using assms unfolding rename_noreplace_def w1_def[symmetric] Let_def
    by (auto simp: untouched_def sys_fields split: prod.splits option.splits if_splits)
  then show ?thesis by (rule untouched_trans[OF u])
qed

lemma rename_dest_untouched:
  "rename_dest p name w = (r, w') \<Longrightarrow> p \<in> ns \<Longrightarrow> name \<in> ns \<Longrightarrow> untouched ns w w'"
  by (auto simp: rename_dest_def untouched_def sys_fields split: prod.splits option.splits)

lemma finish_outbox_settled:
  assumes "finish_outbox name w = (r, w')" and "\<exists>c. dest_file w name = Some c \<and> fe_sha env c = ex"
  shows "settled env name ex ns w (ok_of r) w'"
proof -
  obtain r1 w1 where s: "sys w = (r1, w1)" by fastforce
  show ?thesis
    using assms s sys_fields[OF s]
    by (auto simp: finish_outbox_def remove_outbox_def settled_def del_outbox_def dest_file_def
        split: option.splits if_splits)
qed

lemma settle_existing_settled:
  assumes "settle_existing env name ex w = (r, w')"
  shows "settled env name ex ns w (ok_of r) w'"
proof -
  obtain r1 w1 where s: "sha256_of_dest env name w = (r1, w1)" by fastforce
  note u = sha256_of_dest_untouched[OF s, of ns]
  show ?thesis
  proof (cases "r1 = Inr ex")
    case True
    then have f: "finish_outbox name w1 = (r, w')"
      using assms s by (simp add: settle_existing_def)
    show ?thesis
      using untouched_settled[OF u finish_outbox_settled[OF f]] sha256_of_dest_Inr[of env name w ex w1] s True by simp
  next
    case False
    then have "w' = w1 \<and> (\<exists>e. r = Inl e)"
      using assms s by (auto simp: settle_existing_def split: sum.splits if_splits)
    then show ?thesis using untouched_is_settled[OF u] by auto
  qed
qed

lemma read_back_settled:
  assumes "read_back env name ex w = (r, w')" and "name \<in> ns"
  shows "settled env name ex ns w (ok_of r) w'"
proof -
  obtain r1 w1 where s: "sha256_of_dest env name w = (r1, w1)" by fastforce
  note u = sha256_of_dest_untouched[OF s, of ns]
  show ?thesis
  proof (cases "r1 = Inr ex")
    case True
    then have f: "finish_outbox name w1 = (r, w')"
      using assms s by (simp add: read_back_def)
    show ?thesis
      using untouched_settled[OF u finish_outbox_settled[OF f]] sha256_of_dest_Inr[of env name w ex w1] s True by simp
  next
    case False
    then have "w' = snd (remove_dest name w1) \<and> (\<exists>e. r = Inl e)"
      using assms(1) s by (auto simp: read_back_def split: sum.splits if_splits)
    then show ?thesis
      using untouched_is_settled[OF untouched_trans[OF u remove_dest_untouched[OF assms(2)]]] by auto
  qed
qed

text \<open>After the copy: every way the rename can end.\<close>

definition place :: "fs_env \<Rightarrow> string \<Rightarrow> string \<Rightarrow> ShipOutcome run" where
  "place env name expected w2 =
     (let p = partial_name name in
      case rename_noreplace env p name w2 of
        (Inr _, w3) \<Rightarrow> read_back env name expected w3
      | (Inl AlreadyExists, w3) \<Rightarrow> settle_existing env name expected (snd (remove_dest p w3))
      | (Inl Unsupported, w3) \<Rightarrow>
          if dest_file w3 name \<noteq> None
          then settle_existing env name expected (snd (remove_dest p w3))
          else (case rename_dest p name w3 of
              (Inl e, w4) \<Rightarrow> (Inl (''rename to '' @ name), snd (remove_dest p w4))
            | (Inr _, w4) \<Rightarrow> read_back env name expected w4)
      | (Inl e, w3) \<Rightarrow> (Inl (''rename to '' @ name), snd (remove_dest p w3)))"

lemma place_settled:
  assumes "place env name ex w = (r, w')" and p: "partial_name name \<in> ns" and n: "name \<in> ns"
  shows "settled env name ex ns w (ok_of r) w'"
proof -
  let ?p = "partial_name name"
  obtain r3 w3 where rn: "rename_noreplace env ?p name w = (r3, w3)" by fastforce
  note u3 = rename_noreplace_untouched[OF rn p n]
  note up = untouched_trans[OF u3 remove_dest_untouched[OF p, of w3]]
  note st = untouched_settled[OF up settle_existing_settled]
  show ?thesis
  proof (cases r3)
    case (Inr u)
    then have "read_back env name ex w3 = (r, w')"
      using assms(1) rn by (simp add: place_def)
    from untouched_settled[OF u3 read_back_settled[OF this n]] show ?thesis .
  next
    case (Inl e)
    show ?thesis
    proof (cases "e = AlreadyExists \<or> e = Unsupported \<and> dest_file w3 name \<noteq> None")
      case True
      then have "settle_existing env name ex (snd (remove_dest ?p w3)) = (r, w')"
        using assms(1) rn Inl by (auto simp: place_def Let_def)
      then show ?thesis by (rule st)
    next
      case e: False
      show ?thesis
      proof (cases "e = Unsupported")
        case False
        then have "w' = snd (remove_dest ?p w3) \<and> (\<exists>m. r = Inl m)"
          using assms(1) rn Inl e by (cases e) (auto simp: place_def Let_def)
        then show ?thesis using untouched_is_settled[OF up] by auto
      next
        case True
        obtain r4 w4 where rd: "rename_dest ?p name w3 = (r4, w4)" by fastforce
        note u4 = untouched_trans[OF u3 rename_dest_untouched[OF rd p n]]
        have red: "(r, w') = (case r4 of Inl e \<Rightarrow> (Inl (''rename to '' @ name), snd (remove_dest ?p w4))
            | Inr _ \<Rightarrow> read_back env name ex w4)"
          using assms(1) rn Inl True e rd by (simp add: place_def Let_def split: sum.split)
        show ?thesis
        proof (cases r4)
          case (Inl e4)
          then show ?thesis
            using red untouched_is_settled[OF untouched_trans[OF u4 remove_dest_untouched[OF p]]] by simp
        next
          case (Inr u)
          then have "read_back env name ex w4 = (r, w')" using red by simp
          from untouched_settled[OF u4 read_back_settled[OF this n]] show ?thesis .
        qed
      qed
    qed
  qed
qed

lemma ship_settled:
  assumes "ship env name ex w = (r, w')"
  shows "settled env name ex (if dest_file w name = None then {partial_name name, name} else {}) w (ok_of r) w'"
proof (cases "w_dest_kind w = DirPresent")
  case False
  then have "w' = w \<and> (\<forall>x. r \<noteq> Inr (Shipped x))"
    using assms by (auto simp: ship_def split: dest_kind.splits)
  then show ?thesis
    using untouched_is_settled[OF untouched_refl] by (cases r) auto
next
  case True
  let ?p = "partial_name name"
  let ?ns = "{?p, name}"
  show ?thesis
  proof (cases "dest_file w name = None")
    case False
    then show ?thesis
      using assms True settle_existing_settled[of env name ex w r w'] by (simp add: ship_def)
  next
    case none: True
    obtain r1 w1 where o: "open_partial ?p w = (r1, w1)" by fastforce
    have u1: "untouched ?ns w w1" by (rule open_partial_untouched[OF o]) simp
    have "settled env name ex ?ns w (ok_of r) w'"
    proof (cases r1)
      case (Inl e)
      then have "w' = w1 \<and> (\<forall>x. r \<noteq> Inr (Shipped x))"
        using assms True none o by (auto simp: ship_def Let_def split: if_splits)
      then show ?thesis using untouched_is_settled[OF u1] by (cases r) auto
    next
      case (Inr u)
      obtain r2 w2 where c: "copy_partial env name ?p w1 = (r2, w2)" by fastforce
      have "untouched ?ns w1 w2" by (rule copy_partial_untouched[OF c]) simp
      with u1 have u2: "untouched ?ns w w2" by (rule untouched_trans)
      have up: "untouched ?ns w (snd (remove_dest ?p w2))"
        by (rule untouched_trans[OF u2 remove_dest_untouched]) simp
      show ?thesis
      proof (cases "r2 = Inr ex")
        case False
        then have "w' = snd (remove_dest ?p w2) \<and> (\<forall>x. r \<noteq> Inr (Shipped x))"
          using assms True none o Inr c by (auto simp: ship_def Let_def split: sum.splits if_splits)
        then show ?thesis using untouched_is_settled[OF up] by (cases r) auto
      next
        case ok: True
        then have "place env name ex w2 = (r, w')"
          using assms True none o Inr c by (simp add: ship_def place_def Let_def)
        from untouched_settled[OF u2 place_settled[OF this]] show ?thesis by simp
      qed
    qed
    then show ?thesis using none by simp
  qed
qed

text \<open>Without faults every call does its work.\<close>

lemma sys_ok [simp]: "w_faults w = [] \<Longrightarrow> sys w = (None, w)"
  by (simp add: sys_def)

lemma open_partial_ok:
  assumes "w_faults w = []"
  shows "\<exists>w1. open_partial p w = (Inr (), w1) \<and> w_faults w1 = [] \<and> untouched {p} w w1"
proof (cases "dest_file w p")
  case None
  then show ?thesis
    using assms by (simp add: open_partial_def create_new_dest_def untouched_def)
next
  case (Some c)
  have "open_partial p w = (Inr (), put_dest p [] (del_dest p w))"
    using assms Some by (simp add: open_partial_def create_new_dest_def remove_dest_def)
  then show ?thesis
    using assms by (simp add: untouched_def)
qed

lemma finish_outbox_ok:
  "w_faults w = [] \<Longrightarrow> outbox_file w name \<noteq> None \<Longrightarrow> finish_outbox name w = (Inr (Shipped name), del_outbox name w)"
  by (simp add: finish_outbox_def remove_outbox_def)

lemma partial_name_neq: "partial_name name \<noteq> name"
proof
  assume "partial_name name = name"
  then have "length (partial_name name) = length name" by simp
  then show False by (simp add: partial_name_def)
qed

lemma ship_keeps_files:
  assumes "ship env name ex w = (r, w')" and "dest_file w n = Some c" and "n \<noteq> partial_name name"
  shows "dest_file w' n = Some c"
  using ship_settled[OF assms(1)] assms(2,3) by (auto simp: settled_def split: if_splits)

lemma ship_fields:
  assumes "ship env name ex w = (r, w')"
  shows "w_manifest w' = w_manifest w" "w_sidecars w' = w_sidecars w" "w_pagehashes w' = w_pagehashes w"
  using ship_settled[OF assms] by (simp_all add: settled_def)

lemma ship_Shipped:
  assumes "ship env name ex w = (Inr (Shipped x), w')"
  shows "\<exists>c. dest_file w' name = Some c \<and> fe_sha env c = ex"
  using ship_settled[OF assms] by (simp add: settled_def)

subsection \<open>Properties\<close>


text \<open>An outbox with one artifact, for concrete instances.\<close>

definition example_env :: "bool \<Rightarrow> fs_env" where
  "example_env exclusive =
     \<lparr>fe_sha = (\<lambda>c. c), fe_copy = (\<lambda>c. c), fe_race = None, fe_exclusive = exclusive\<rparr>"

definition example_world :: "(string \<times> string) list \<Rightarrow> world" where
  "example_world dest = \<lparr>w_dest_kind = DirPresent, w_dest = dest, w_manifest = MfAbsent,
     w_outbox = [(''a'', ''data'')], w_sidecars = [], w_pagehashes = None, w_faults = []\<rparr>"


text \<open>
  With the destination there and no faults, an intact outbox artifact is
  delivered, also when a killed run left a partial file or a finished copy: the call returns
  \<open>Shipped\<close>, the destination holds the digest, the outbox file is gone.
\<close>

theorem ship_delivers:
  assumes "w_dest_kind w = DirPresent" and "w_faults w = []"
    and "outbox_file w name = Some c" and "fe_sha env c = expected" and "fe_copy env c = c"
    and "fe_race env = None"
    and "dest_file w name = None \<or> (\<exists>c'. dest_file w name = Some c' \<and> fe_sha env c' = expected)"
  shows "\<exists>w' c'. ship env name expected w = (Inr (Shipped name), w') \<and> outbox_file w' name = None
    \<and> dest_file w' name = Some c' \<and> fe_sha env c' = expected"
proof (cases "dest_file w name")
  case (Some c')
  then have "ship env name expected w = (Inr (Shipped name), del_outbox name w)"
    using assms by (simp add: ship_def settle_existing_def sha256_of_dest_def finish_outbox_ok)
  then show ?thesis
    using Some assms by (auto simp: del_outbox_def outbox_file_def dest_file_def)
next
  case None
  let ?p = "partial_name name"
  obtain w1 where o: "open_partial ?p w = (Inr (), w1)" "w_faults w1 = []" "untouched {?p} w w1"
    using open_partial_ok[OF assms(2)] by blast
  have ob: "outbox_file w1 name = Some c"
    using o(3) assms(3) by (simp add: untouched_def outbox_file_def)
  have nd: "dest_file w1 name = None"
    using o(3) None partial_name_neq[of name] by (simp add: untouched_def)
  define w2 where "w2 = put_dest ?p c w1"
  have c: "copy_partial env name ?p w1 = (Inr expected, w2)"
    using o(2) ob assms(4,5) by (simp add: copy_partial_def sha256_of_dest_def w2_def)
  define w3 where "w3 = put_dest name c (del_dest ?p w2)"
  have f2: "w_faults w2 = []" "outbox_file w2 name = Some c" "dest_file w2 ?p = Some c" "dest_file w2 name = None"
    using o(2) ob nd partial_name_neq[of name] by (simp_all add: w2_def)
  have f3: "w_faults w3 = []" "outbox_file w3 name = Some c" "dest_file w3 name = Some c"
    using f2 by (simp_all add: w3_def)
  have "read_back env name expected w3 = (Inr (Shipped name), del_outbox name w3)"
    using f3 assms(4) by (simp add: read_back_def sha256_of_dest_def finish_outbox_ok)
  then have "place env name expected w2 = (Inr (Shipped name), del_outbox name w3)"
    using f2 assms(6) by (simp add: place_def Let_def rename_noreplace_def rename_dest_def w3_def)
  then have "ship env name expected w = (Inr (Shipped name), del_outbox name w3)"
    using assms(1) None o(1) c by (simp add: ship_def place_def Let_def)
  then show ?thesis
    using f3 assms(4) by (auto simp: del_outbox_def outbox_file_def dest_file_def)
qed

lemma ship_delivers_witness:
  "\<exists>w' c'. ship (example_env False) ''a'' ''data'' (example_world [(''.a.partial'', ''da'')])
    = (Inr (Shipped ''a''), w') \<and> outbox_file w' ''a'' = None \<and> dest_file w' ''a'' = Some c' \<and> c' = ''data''"
proof -
  have "\<exists>w' c'. ship (example_env False) ''a'' ''data'' (example_world [(''.a.partial'', ''da'')])
    = (Inr (Shipped ''a''), w') \<and> outbox_file w' ''a'' = None \<and> dest_file w' ''a'' = Some c'
    \<and> fe_sha (example_env False) c' = ''data''"
    by (rule ship_delivers[where c = "''data''"])
      (simp_all add: example_env_def example_world_def outbox_file_def dest_file_def)
  then show ?thesis by (simp add: example_env_def)
qed

end
