(* ===== verification/BackupRun.thy ===== *)
theory BackupRun
  imports Ship Retention PageDiff
begin

text \<open>
  One backup run (\<open>hippo-daemon/src/backup/run.rs\<close> and the manifest file of \<open>manifest.rs\<close>): ship the
  pending outbox artifacts, decide whether to run, choose the kind, build and record the
  artifact, prune, and update the status. Time, the calendar, the snapshot, the encrypted
  archive, the locks and the upload attribute are fields of the environment; failing calls take
  their outcome from the fault list of the file system of \<open>Ship\<close>.
\<close>

subsection \<open>hex and unhex\<close>

definition hex_digit :: "nat \<Rightarrow> char" where
  "hex_digit n = (if n < 10 then char_of (48 + n) else char_of (87 + n))"

definition hex :: "string \<Rightarrow> string" where
  "hex bytes = concat (map (\<lambda>b. [hex_digit (of_char b div 16), hex_digit (of_char b mod 16)]) bytes)"

definition hex_val :: "char \<Rightarrow> nat option" where
  "hex_val c = (let n = of_char c :: nat in
     if 48 \<le> n \<and> n \<le> 57 then Some (n - 48)
     else if 97 \<le> n \<and> n \<le> 102 then Some (n - 87)
     else if 65 \<le> n \<and> n \<le> 70 then Some (n - 55) else None)"

text \<open>\<open>u8::from_str_radix(_, 16)\<close> on two characters; a leading plus sign is accepted.\<close>

definition parse_hex2 :: "char \<Rightarrow> char \<Rightarrow> nat option" where
  "parse_hex2 a b = (if a = CHR ''+'' then hex_val b
     else case hex_val a of None \<Rightarrow> None
     | Some x \<Rightarrow> (case hex_val b of None \<Rightarrow> None | Some y \<Rightarrow> Some (16 * x + y)))"

fun unhex_pairs :: "string \<Rightarrow> string option" where
  "unhex_pairs (a # b # r) = (case parse_hex2 a b of None \<Rightarrow> None
     | Some v \<Rightarrow> map_option (Cons (char_of v)) (unhex_pairs r))"
| "unhex_pairs _ = Some []"

definition unhex :: "string \<Rightarrow> string + string" where
  "unhex s = (if length s = 64 \<and> list_all (\<lambda>c. (of_char c :: nat) < 128) s
     then (case unhex_pairs s of None \<Rightarrow> Inl (''bad SHA-256 hex: '' @ s) | Some b \<Rightarrow> Inr b)
     else Inl (''bad SHA-256 hex: '' @ s))"

subsection \<open>The environment and the state of a run\<close>

datatype RunMode = Scheduled | CheckpointRun string

datatype RunReport = NotConfigured | Skipped string | Done string ArtifactKind bool

record SnapshotInfo =
  si_db :: string
  si_page_size :: nat
  si_sha256 :: string
  si_schema_version :: int
  si_row_counts :: "(string \<times> int) list"

record run_env =
  re_fs :: fs_env
  re_uploaded :: "string \<Rightarrow> string + bool"
  re_ts :: "int \<Rightarrow> string"
  re_month :: "int \<Rightarrow> (int \<times> int) option"
  re_week :: "int \<Rightarrow> (int \<times> int) option"
  re_recipient :: "string + unit"
  re_run_tmp :: "string + unit"
  re_recovery_lock :: "string + bool"
  re_snapshot :: "string + SnapshotInfo"
  re_stage_fallback :: "string + unit"
  re_artifact :: "ArtifactMeta \<Rightarrow> string \<Rightarrow> string + string"
  re_version :: string

text \<open>The file system, the manifest in memory, the status and the notes of the run.\<close>

record bstate =
  b_world :: world
  b_manifest :: "Manifest option"
  b_status :: BackupStatus
  b_notes :: "string list"

type_synonym 'a bk = "bstate \<Rightarrow> (string + 'a) \<times> bstate"

definition bk_ret :: "'a \<Rightarrow> 'a bk" where
  "bk_ret x s = (Inr x, s)"

definition bk_lift :: "string + 'a \<Rightarrow> 'a bk" where
  "bk_lift r s = (r, s)"

definition bk_bind :: "'a bk \<Rightarrow> ('a \<Rightarrow> 'b bk) \<Rightarrow> 'b bk" where
  "bk_bind m f s = (case m s of (Inl e, s') \<Rightarrow> (Inl e, s') | (Inr x, s') \<Rightarrow> f x s')"

definition bk_state :: "(bstate \<Rightarrow> bstate) \<Rightarrow> unit bk" where
  "bk_state f s = (Inr (), f s)"

definition bk_get :: "bstate bk" where
  "bk_get s = (Inr s, s)"

text \<open>One fallible call with its error message.\<close>

definition bk_sys :: "string \<Rightarrow> unit bk" where
  "bk_sys msg s = (case sys (b_world s) of
     (Some _, w) \<Rightarrow> (Inl msg, s\<lparr>b_world := w\<rparr>)
   | (None, w) \<Rightarrow> (Inr (), s\<lparr>b_world := w\<rparr>))"

definition bk_world :: "'a run \<Rightarrow> 'a bk" where
  "bk_world f s = (case f (b_world s) of (r, w) \<Rightarrow> (r, s\<lparr>b_world := w\<rparr>))"

definition tolerate :: "bool \<Rightarrow> 'a bk \<Rightarrow> 'a option bk" where
  "tolerate checkpoint m s = (case m s of
     (Inr v, s') \<Rightarrow> (Inr (Some v), s')
   | (Inl e, s') \<Rightarrow> if checkpoint then (Inr None, s'\<lparr>b_notes := b_notes s' @ [e]\<rparr>) else (Inl e, s'))"

subsection \<open>The manifest file\<close>

definition manifest_load :: "Manifest bk" where
  "manifest_load = bk_bind (bk_sys ''read manifest.json'') (\<lambda>_. \<lambda>s.
     case w_manifest (b_world s) of
       MfAbsent \<Rightarrow> (Inr [], s) | Mf m \<Rightarrow> (Inr m, s) | MfCorrupt \<Rightarrow> (Inl ''corrupt manifest'', s))"

text \<open>Saving the manifest in memory: written beside and renamed, so a failure leaves the old file.\<close>

definition manifest_save :: "unit bk" where
  "manifest_save = bk_bind (bk_sys ''write manifest.json'') (\<lambda>_. \<lambda>s.
     case b_manifest s of
       None \<Rightarrow> (Inr (), s)
     | Some m \<Rightarrow> if w_dest_kind (b_world s) = DirPresent
         then (Inr (), s\<lparr>b_world := (b_world s)\<lparr>w_manifest := Mf m\<rparr>\<rparr>)
         else (Inl ''create .manifest.json.tmp'', s))"

definition load_manifest :: "Manifest option bk" where
  "load_manifest s =
     (if w_dest_kind (b_world s) \<noteq> DirPresent then (Inr None, s)
      else bk_bind manifest_load (\<lambda>m. \<lambda>s1.
        let w = b_world s1;
            foreign = (\<lambda>name. case strip_suffix name ARTIFACT_EXT of
                None \<Rightarrow> False
              | Some i \<Rightarrow> map_of (w_sidecars w) (i @ ENTRY_EXT) = None)
        in if m = [] \<and> w_manifest w = MfAbsent \<and> list_ex foreign (map fst (w_dest w))
           then (Inl ''destination holds artifacts but no manifest.json; refusing to write a new manifest'', s1)
           else (Inr (Some m), s1)) s)"

subsection \<open>Shipping the outbox\<close>

definition uploaded :: "run_env \<Rightarrow> string \<Rightarrow> bool" where
  "uploaded env file = (case re_uploaded env file of Inr b \<Rightarrow> b | Inl _ \<Rightarrow> False)"

definition pending_entries :: "string list bk" where
  "pending_entries = bk_bind (bk_sys ''read outbox'') (\<lambda>_. \<lambda>s. (Inr (sort (map fst (w_sidecars (b_world s)))), s))"

definition remove_sidecar :: "string \<Rightarrow> unit bk" where
  "remove_sidecar sc = bk_bind (bk_sys (''remove '' @ sc))
     (\<lambda>_. bk_state (\<lambda>s. s\<lparr>b_world := (b_world s)\<lparr>w_sidecars := al_del sc (w_sidecars (b_world s))\<rparr>\<rparr>))"

text \<open>The manifest in memory, as the functions that take it by reference see it.\<close>

definition mem_manifest :: "bstate \<Rightarrow> Manifest" where
  "mem_manifest s = (case b_manifest s of None \<Rightarrow> [] | Some m \<Rightarrow> m)"

definition record_shipped :: "run_env \<Rightarrow> string \<Rightarrow> ManifestEntry \<Rightarrow> int \<Rightarrow> bool bk" where
  "record_shipped env sc entry now_ms s =
     (let e = entry\<lparr>me_shipped_ms := Some now_ms, me_uploaded := uploaded env (me_file entry)\<rparr>;
          store = (if list_ex (\<lambda>x. me_id x = me_id e) (mem_manifest s) then bk_ret ()
                   else bk_bind (bk_state (\<lambda>s. s\<lparr>b_manifest := Some (mem_manifest s @ [e])\<rparr>)) (\<lambda>_. manifest_save))
      in bk_bind store (\<lambda>_. bk_bind (remove_sidecar sc) (\<lambda>_. bk_ret True)) s)"

definition read_sidecar :: "string \<Rightarrow> ManifestEntry bk" where
  "read_sidecar sc = bk_bind (bk_sys (''read '' @ sc)) (\<lambda>_. \<lambda>s.
     case map_of (w_sidecars (b_world s)) sc of
       None \<Rightarrow> (Inl (''read '' @ sc), s)
     | Some None \<Rightarrow> (Inl (''parse '' @ sc), s)
     | Some (Some e) \<Rightarrow> (Inr e, s))"

definition ship_pending :: "run_env \<Rightarrow> string \<Rightarrow> int \<Rightarrow> bool bk" where
  "ship_pending env sc now_ms =
     bk_bind (read_sidecar sc) (\<lambda>entry.
     bk_bind (bk_lift (ensure (valid_entry entry) (''invalid outbox entry '' @ sc))) (\<lambda>_.
     bk_bind (bk_lift (unhex (me_ciphertext_sha256 entry))) (\<lambda>expected. \<lambda>s.
       if outbox_file (b_world s) (me_file entry) \<noteq> None
       then bk_bind (bk_world (ship (re_fs env) (me_file entry) expected)) (\<lambda>outcome.
              case outcome of
                Shipped _ \<Rightarrow> record_shipped env sc entry now_ms
              | DestinationUnavailable \<Rightarrow> bk_ret False) s
       else if w_dest_kind (b_world s) \<noteq> DirPresent then (Inr False, s)
       else if dest_file (b_world s) (me_file entry) = None
       then bk_bind (remove_sidecar sc) (\<lambda>_. bk_ret True) s
       else bk_bind (bk_world (\<lambda>w. case sha256_of_dest (re_fs env) (me_file entry) w of
                (Inl _, w') \<Rightarrow> (Inl (''hash '' @ me_file entry), w')
              | (Inr h, w') \<Rightarrow> (Inr h, w'))) (\<lambda>h.
              if h = expected then record_shipped env sc entry now_ms
              else bk_bind (remove_sidecar sc) (\<lambda>_. bk_ret True)) s)))"

text \<open>Files of the outbox without a sidecar are removed.\<close>

definition owned :: "world \<Rightarrow> string \<Rightarrow> bool" where
  "owned w name = (case strip_suffix name ARTIFACT_EXT of
     None \<Rightarrow> False | Some i \<Rightarrow> map_of (w_sidecars w) (i @ ENTRY_EXT) \<noteq> None)"

fun sweep_outbox :: "string list \<Rightarrow> string list \<Rightarrow> string list bk" where
  "sweep_outbox [] errs s = (Inr errs, s)"
| "sweep_outbox (name # names) errs s =
     (if owned (b_world s) name then sweep_outbox names errs s
      else case remove_outbox name (b_world s) of
        (Inl _, w) \<Rightarrow> sweep_outbox names (errs @ [''remove stale outbox file '' @ name]) (s\<lparr>b_world := w\<rparr>)
      | (Inr _, w) \<Rightarrow> sweep_outbox names errs (s\<lparr>b_world := w\<rparr>))"

fun ship_each :: "run_env \<Rightarrow> int \<Rightarrow> string list \<Rightarrow> nat \<Rightarrow> string list \<Rightarrow> (nat \<times> string list) bk" where
  "ship_each env now_ms [] waiting errs s = (Inr (waiting, errs), s)"
| "ship_each env now_ms (sc # scs) waiting errs s = (case ship_pending env sc now_ms s of
     (Inr True, s') \<Rightarrow> ship_each env now_ms scs waiting errs s'
   | (Inr False, s') \<Rightarrow> ship_each env now_ms scs (Suc waiting) errs s'
   | (Inl e, s') \<Rightarrow> ship_each env now_ms scs waiting (errs @ [e]) s')"

definition ship_outbox :: "run_env \<Rightarrow> int \<Rightarrow> (nat \<times> string list) bk" where
  "ship_outbox env now_ms =
     bk_bind (bk_sys ''read outbox'') (\<lambda>_.
     bk_bind bk_get (\<lambda>s0.
     bk_bind (sweep_outbox (map fst (w_outbox (b_world s0))) []) (\<lambda>errs.
     bk_bind pending_entries (\<lambda>scs. ship_each env now_ms scs 0 errs))))"

definition refresh_uploaded :: "run_env \<Rightarrow> unit bk" where
  "refresh_uploaded env s =
     (let m = mem_manifest s;
          upd = (\<lambda>e. \<not> me_uploaded e \<and> valid_entry e \<and> uploaded env (me_file e));
          m' = map (\<lambda>e. if upd e then e\<lparr>me_uploaded := True\<rparr> else e) m
      in if list_ex upd m then manifest_save (s\<lparr>b_manifest := Some m'\<rparr>) else (Inr (), s))"

subsection \<open>Pruning\<close>

fun remove_files :: "string list \<Rightarrow> world \<Rightarrow> world" where
  "remove_files [] w = w"
| "remove_files (f # fs) w = remove_files fs (snd (remove_dest f w))"

definition prune :: "run_env \<Rightarrow> int \<Rightarrow> bstate \<Rightarrow> bstate" where
  "prune env now_ms s =
     (let m = mem_manifest s;
          doomed = plan_prune (re_month env) (filter valid_entry m) now_ms
      in if doomed = [] then s
         else let goes = (\<lambda>e. valid_entry e \<and> me_id e \<in> set doomed);
                  s1 = s\<lparr>b_manifest := Some (filter (\<lambda>e. \<not> goes e) m)\<rparr>
              in case manifest_save s1 of
                   (Inl e, s2) \<Rightarrow> s2\<lparr>b_notes := b_notes s2 @ [''prune skipped: '' @ e]\<rparr>
                 | (Inr _, s2) \<Rightarrow> s2\<lparr>b_world := remove_files (map me_file (filter goes m)) (b_world s2)\<rparr>)"

subsection \<open>Choosing the artifact\<close>

definition delta_base :: "run_env \<Rightarrow> string option \<Rightarrow> Manifest \<Rightarrow> nat \<Rightarrow> int \<Rightarrow> PageHashes option" where
  "delta_base env file manifest page_size now_ms =
     (case Option.bind file (\<lambda>bs. ok_of (read_hashes bs)) of
        None \<Rightarrow> None
      | Some base \<Rightarrow>
         (case find (\<lambda>e. me_verified e \<and> me_kind e = Full \<and> me_id e = ph_base_id base \<and> valid_entry e) manifest of
            None \<Rightarrow> None
          | Some entry \<Rightarrow>
             (let same_week = (case (re_week env (me_created_ms entry), re_week env now_ms) of
                    (Some a, Some b) \<Rightarrow> a = b | _ \<Rightarrow> False)
              in if ph_page_size base = page_size \<and> same_week then Some base else None)))"

definition taken :: "bstate \<Rightarrow> string \<Rightarrow> bool" where
  "taken s i = (let w = b_world s; file = i @ ARTIFACT_EXT in
     (case b_manifest s of None \<Rightarrow> False | Some m \<Rightarrow> list_ex (\<lambda>e. me_id e = i) m)
     \<or> outbox_file w file \<noteq> None
     \<or> map_of (w_sidecars w) (i @ ENTRY_EXT) \<noteq> None
     \<or> (w_dest_kind w = DirPresent \<and> dest_file w file \<noteq> None))"

definition choose_id :: "run_env \<Rightarrow> ArtifactKind \<Rightarrow> string option \<Rightarrow> int \<Rightarrow> bstate \<Rightarrow> string + (int \<times> string)" where
  "choose_id env kind label now_ms s =
     (case find (\<lambda>p. \<not> taken s (snd p))
             (map (\<lambda>i. let ms = now_ms + int i * 1000 in (ms, artifact_id (re_ts env) kind ms label)) [0..<10]) of
        None \<Rightarrow> Inl ''no unused artifact id after 10 tries''
      | Some p \<Rightarrow> Inr p)"

text \<open>The database entry of the archive: the verified diff against a base, or the snapshot.\<close>

definition db_entry ::
  "run_env \<Rightarrow> PageHashes option \<Rightarrow> PageHashes option \<Rightarrow> string \<Rightarrow> string + string" where
  "db_entry env base new_hashes snap = (case (base, new_hashes) of
     (Some b, Some new) \<Rightarrow>
       rbind (write_diff (fe_sha (re_fs env)) b snap) (\<lambda>(diff, _).
       rbind (hashes_after_diff (fe_sha (re_fs env)) b diff) (\<lambda>hs.
       rbind (ensure (hs = ph_hashes new)
                ''delta verification failed: base plus diff does not reproduce the snapshot'') (\<lambda>_. Inr diff)))
   | _ \<Rightarrow> Inr snap)"

subsection \<open>run\_locked\<close>

definition SKIP_WITHIN_MS :: int where [hippo_defs]: "SKIP_WITHIN_MS = 20 * 3600000"

fun is_checkpoint :: "RunMode \<Rightarrow> bool" where
  "is_checkpoint Scheduled = False"
| "is_checkpoint (CheckpointRun _) = True"

fun mode_label :: "RunMode \<Rightarrow> string option" where
  "mode_label Scheduled = None"
| "mode_label (CheckpointRun l) = Some l"

definition add_notes :: "string list \<Rightarrow> bstate \<Rightarrow> bstate" where
  "add_notes ns s = s\<lparr>b_notes := b_notes s @ ns\<rparr>"

definition refresh_pending :: "bstate \<Rightarrow> bstate" where
  "refresh_pending s = s\<lparr>b_status := (b_status s)\<lparr>bs_pending_upload := pending_upload (mem_manifest s)\<rparr>\<rparr>"

text \<open>Loading the manifest and shipping what waits: how many artifacts wait for the destination.\<close>

definition run_prefix :: "run_env \<Rightarrow> bool \<Rightarrow> int \<Rightarrow> nat bk" where
  "run_prefix env cp now_ms =
     bk_bind (tolerate cp load_manifest) (\<lambda>m0. let m = (case m0 of Some x \<Rightarrow> x | None \<Rightarrow> None) in
     bk_bind (bk_state (\<lambda>s. s\<lparr>b_manifest := m\<rparr>)) (\<lambda>_.
     if m = None then bk_bind pending_entries (\<lambda>v. bk_ret (length v))
     else bk_bind (ship_outbox env now_ms) (\<lambda>(waiting, errors).
          bk_bind (bk_state (add_notes errors)) (\<lambda>_.
          bk_bind (tolerate cp (refresh_uploaded env)) (\<lambda>_.
          bk_bind (bk_state refresh_pending) (\<lambda>_. bk_ret waiting))))))"

definition has_label :: "string \<Rightarrow> ManifestEntry \<Rightarrow> bool" where
  "has_label label e = (me_verified e \<and> am_label (me_meta e) = Some label)"

definition already_labelled :: "string \<Rightarrow> bool bk" where
  "already_labelled label =
     bk_bind pending_entries (\<lambda>v. \<lambda>s.
       let in_outbox = list_ex (\<lambda>sc. case map_of (w_sidecars (b_world s)) sc of
                           Some (Some e) \<Rightarrow> has_label label e | _ \<Rightarrow> False) v
       in (Inr (list_ex (has_label label) (mem_manifest s) \<or> in_outbox), s))"

definition recently :: "bstate \<Rightarrow> int \<Rightarrow> bool" where
  "recently s now_ms = (case bs_last_scheduled_ms (b_status s) of
     None \<Rightarrow> False | Some t \<Rightarrow> sat_i64 (now_ms - t) < SKIP_WITHIN_MS)"

definition write_sidecar :: "string \<Rightarrow> ManifestEntry \<Rightarrow> unit bk" where
  "write_sidecar sc entry = bk_bind (bk_sys (''create '' @ sc)) (\<lambda>_. \<lambda>s.
     let w = b_world s in
     if map_of (w_sidecars w) sc \<noteq> None then (Inl (''rename to '' @ sc @ '' (never replaces)''), s)
     else (Inr (), s\<lparr>b_world := w\<lparr>w_sidecars := al_put sc (Some entry) (w_sidecars w)\<rparr>\<rparr>))"

definition try_remove_outbox :: "string \<Rightarrow> bstate \<Rightarrow> bstate" where
  "try_remove_outbox file s = s\<lparr>b_world := snd (remove_outbox file (b_world s))\<rparr>"

definition write_pagehashes :: "PageHashes \<Rightarrow> unit bk" where
  "write_pagehashes h =
     bk_bind (bk_lift (write_hashes h)) (\<lambda>bytes.
     bk_bind (bk_sys ''write pagehashes.bin'') (\<lambda>_.
     bk_state (\<lambda>s. s\<lparr>b_world := (b_world s)\<lparr>w_pagehashes := Some bytes\<rparr>\<rparr>)))"

text \<open>Shipping the new artifact; a scheduled run that cannot copy it takes it out of the outbox.\<close>

definition ship_new :: "run_env \<Rightarrow> bool \<Rightarrow> string \<Rightarrow> string \<Rightarrow> int \<Rightarrow> bool bk" where
  "ship_new env cp sc file now_ms s =
     (if b_manifest s = None then (Inr False, s)
      else case ship_pending env sc now_ms s of
        (Inr b, s') \<Rightarrow> (Inr b, s')
      | (Inl e, s') \<Rightarrow>
          if \<not> cp \<and> outbox_file (b_world s') file \<noteq> None
          then (Inl e, try_remove_outbox file (snd (remove_sidecar sc s')))
          else if cp then (Inr False, add_notes [e] s')
          else (Inl e, s'))"

definition finish_run ::
  "run_env \<Rightarrow> bool \<Rightarrow> string \<Rightarrow> ArtifactKind \<Rightarrow> PageHashes option \<Rightarrow> int \<Rightarrow> bool \<Rightarrow> RunReport bk" where
  "finish_run env cp i kind new_hashes now_ms shipped =
     (let msg = i @ '' was not shipped and waits in the outbox'' in
      if \<not> shipped
      then bk_bind (bk_lift (ensure cp msg)) (\<lambda>_.
           bk_bind (bk_state (add_notes [msg])) (\<lambda>_. bk_ret (Done i kind False)))
      else bk_bind (if kind = Full then (case new_hashes of None \<Rightarrow> bk_ret () | Some h \<Rightarrow> write_pagehashes h)
                    else bk_ret ()) (\<lambda>_.
           bk_bind (bk_state (prune env now_ms)) (\<lambda>_.
           bk_bind (bk_state refresh_pending) (\<lambda>_. bk_ret (Done i kind True)))))"

definition run_base :: "run_env \<Rightarrow> RunMode \<Rightarrow> SnapshotInfo \<Rightarrow> int \<Rightarrow> bstate \<Rightarrow> PageHashes option" where
  "run_base env mode info now_ms s = (case (mode, b_manifest s) of
     (Scheduled, Some m) \<Rightarrow> delta_base env (w_pagehashes (b_world s)) m (si_page_size info) now_ms
   | _ \<Rightarrow> None)"

definition run_kind :: "RunMode \<Rightarrow> PageHashes option \<Rightarrow> ArtifactKind" where
  "run_kind mode base = (case mode of CheckpointRun _ \<Rightarrow> Checkpoint
     | Scheduled \<Rightarrow> (case base of Some _ \<Rightarrow> Delta | None \<Rightarrow> Full))"

definition build_artifact :: "run_env \<Rightarrow> RunMode \<Rightarrow> SnapshotInfo \<Rightarrow> int \<Rightarrow> RunReport bk" where
  "build_artifact env mode info now_ms =
     bk_bind bk_get (\<lambda>s0. let
       base = run_base env mode info now_ms s0;
       kind = run_kind mode base;
       label = mode_label mode;
       cp = is_checkpoint mode;
       sha = fe_sha (re_fs env) in
     bk_bind (bk_lift (choose_id env kind label now_ms s0)) (\<lambda>(id_ms, i).
     bk_bind (bk_lift (if kind = Checkpoint then Inr None
                       else rbind (compute_hashes sha (si_db info) i) (\<lambda>h. Inr (Some h)))) (\<lambda>new_hashes.
     bk_bind (bk_lift (db_entry env base new_hashes (si_db info))) (\<lambda>bytes. let
       meta = \<lparr>am_id = i, am_kind = kind, am_label = label, am_created_ms = id_ms,
               am_base_id = map_option ph_base_id base, am_hippo_version = re_version env,
               am_schema_version = si_schema_version info, am_db_sha256 = hex (si_sha256 info),
               am_row_counts = si_row_counts info\<rparr>;
       file = i @ ARTIFACT_EXT; sc = i @ ENTRY_EXT in
     bk_bind (bk_lift (re_artifact env meta bytes)) (\<lambda>cipher. let
       entry = \<lparr>me_meta = meta, me_file = file, me_ciphertext_sha256 = hex (sha cipher),
                me_verified = True, me_shipped_ms = None, me_uploaded = False\<rparr> in
     bk_bind (bk_state (\<lambda>s. s\<lparr>b_world := (b_world s)\<lparr>w_outbox := al_put file cipher (w_outbox (b_world s))\<rparr>\<rparr>)) (\<lambda>_.
     bk_bind (\<lambda>s. case write_sidecar sc entry s of
                  (Inl e, s') \<Rightarrow> (Inl e, try_remove_outbox file s')
                | (Inr u, s') \<Rightarrow> (Inr u, s')) (\<lambda>_.
     bk_bind (ship_new env cp sc file now_ms) (\<lambda>shipped.
     finish_run env cp i kind new_hashes now_ms shipped))))))))"

definition run_locked :: "run_env \<Rightarrow> RunMode \<Rightarrow> int \<Rightarrow> bool \<Rightarrow> RunReport bk" where
  "run_locked env mode now_ms once =
     (let cp = is_checkpoint mode in
     bk_bind (run_prefix env cp now_ms) (\<lambda>waiting.
     bk_bind (case (once, mode_label mode) of
                (True, Some label) \<Rightarrow> already_labelled label
              | _ \<Rightarrow> bk_ret False) (\<lambda>dup.
     if dup then bk_ret (Skipped ''a verified checkpoint with this label already exists'')
     else bk_bind (bk_lift (ensure (cp \<or> waiting = 0)
                     ''destination unavailable; artifacts wait in the outbox'')) (\<lambda>_.
     bk_bind bk_get (\<lambda>s.
     if \<not> cp \<and> recently s now_ms
     then bk_ret (Skipped ''a scheduled backup succeeded within the last 20 hours'')
     else bk_bind (bk_lift (re_recipient env)) (\<lambda>_.
          bk_bind (bk_lift (re_run_tmp env)) (\<lambda>_.
          bk_bind (bk_lift (re_recovery_lock env)) (\<lambda>got.
          if \<not> got then bk_ret (Skipped ''fallback recovery holds the lock'')
          else bk_bind (bk_lift (re_snapshot env)) (\<lambda>info.
               bk_bind (bk_lift (re_stage_fallback env)) (\<lambda>_.
               build_artifact env mode info now_ms))))))))))"

subsection \<open>run\_holding\_lock and run\_backup\<close>

definition finish_status :: "int \<Rightarrow> string + RunReport \<Rightarrow> bstate \<Rightarrow> bstate" where
  "finish_status now_ms result s =
     (let st = b_status s;
          st1 = (case result of
              Inr (Done _ kind shipped) \<Rightarrow>
                (let st0 = (if shipped
                      then (let a = st\<lparr>bs_last_success_ms := Some now_ms, bs_last_kind := Some kind\<rparr>
                            in if kind \<noteq> Checkpoint then a\<lparr>bs_last_scheduled_ms := Some now_ms\<rparr> else a)
                      else st)
                 in st0\<lparr>bs_last_error := (if b_notes s = [] then None else Some (join ''; '' (b_notes s)))\<rparr>)
            | Inr _ \<Rightarrow> st
            | Inl e \<Rightarrow> st\<lparr>bs_last_error := Some e\<rparr>)
      in s\<lparr>b_status := st1\<rparr>)"

text \<open>\<open>saved\<close> is the status file after the run: the new status, or the old one when saving fails.\<close>

definition run_holding_lock ::
  "run_env \<Rightarrow> RunMode \<Rightarrow> int \<Rightarrow> bool \<Rightarrow> BackupStatus \<Rightarrow> world \<Rightarrow> (string + RunReport) \<times> BackupStatus \<times> world" where
  "run_holding_lock env mode now_ms once st w =
     (case run_locked env mode now_ms once
             \<lparr>b_world = w, b_manifest = None, b_status = st, b_notes = []\<rparr> of (result, s1) \<Rightarrow>
      (case pending_entries s1 of (pe, s2) \<Rightarrow>
       (let count = (case pe of Inl _ \<Rightarrow> bs_outbox_count (b_status s2)
                             | Inr v \<Rightarrow> min (int (length v)) u32_max);
            s3 = finish_status now_ms result (s2\<lparr>b_status := (b_status s2)\<lparr>bs_outbox_count := count\<rparr>\<rparr>)
        in case bk_sys ''write status.json'' s3 of
             (Inl e, s4) \<Rightarrow> ((case result of Inl e0 \<Rightarrow> Inl e0 | Inr _ \<Rightarrow> Inl e), st, b_world s4)
           | (Inr _, s4) \<Rightarrow> (result, b_status s4, b_world s4))))"

text \<open>\<open>lock\<close> is what acquiring the run lock gives: an error, held by another run, or taken.\<close>

definition run_backup ::
  "BackupConfig \<Rightarrow> string + bool \<Rightarrow> run_env \<Rightarrow> RunMode \<Rightarrow> int \<Rightarrow> bool \<Rightarrow> BackupStatus \<Rightarrow> world \<Rightarrow>
   (string + RunReport) \<times> BackupStatus \<times> world" where
  "run_backup cfg lock env mode now_ms once st w =
     (if \<not> is_configured cfg then (Inr NotConfigured, st, w)
      else case lock of
        Inl e \<Rightarrow> (Inl e, st, w)
      | Inr False \<Rightarrow> (Inr (Skipped ''another backup run holds the lock''), st, w)
      | Inr True \<Rightarrow> run_holding_lock env mode now_ms once st w)"

subsection \<open>hex and unhex are inverse\<close>

lemma of_hex_digit: "n < 16 \<Longrightarrow> (of_char (hex_digit n) :: nat) = (if n < 10 then 48 + n else 87 + n)"
  by (simp add: hex_digit_def)

lemma hex_digit_cases:
  assumes "n < 16"
  shows "hex_val (hex_digit n) = Some n \<and> (of_char (hex_digit n) :: nat) < 128 \<and> hex_digit n \<noteq> CHR ''+''"
proof -
  have "(of_char (CHR ''+'') :: nat) = 43" by simp
  then have "hex_digit n \<noteq> CHR ''+''"
    using of_hex_digit[OF assms] by (cases "n < 10") auto
  then show ?thesis
    using of_hex_digit[OF assms] assms by (simp add: hex_val_def Let_def)
qed

lemma parse_hex2_byte: "parse_hex2 (hex_digit (of_char b div 16)) (hex_digit (of_char b mod 16)) = Some (of_char b)"
proof -
  have "(of_char b :: nat) div 16 < 16" using nat_of_char_less_256[of b] by linarith
  then show ?thesis
    using hex_digit_cases[of "of_char b div 16"] hex_digit_cases[of "of_char b mod 16"] by (simp add: parse_hex2_def)
qed
lemma unhex_pairs_hex: "unhex_pairs (hex bs) = Some bs"
  by (induction bs) (simp_all add: hex_def parse_hex2_byte)
lemma hex_length: "length (hex bs) = 2 * length bs"
  by (induction bs) (simp_all add: hex_def)
lemma hex_ascii: "list_all (\<lambda>c. (of_char c :: nat) < 128) (hex bs)"
proof (induction bs)
  case (Cons b bs)
  have "(of_char b :: nat) div 16 < 16" using nat_of_char_less_256[of b] by linarith
  then show ?case
    using Cons hex_digit_cases[of "of_char b div 16"] hex_digit_cases[of "of_char b mod 16"] by (simp add: hex_def)
qed (simp add: hex_def)
lemma unhex_hex: "length bs = 32 \<Longrightarrow> unhex (hex bs) = Inr bs"
  by (simp add: unhex_def hex_length hex_ascii unhex_pairs_hex)

subsection \<open>The manifest lists only what is there\<close>

definition listed_ok :: "run_env \<Rightarrow> world \<Rightarrow> ManifestEntry \<Rightarrow> bool" where
  "listed_ok env w e = (valid_entry e \<longrightarrow>
     (\<exists>c. dest_file w (me_file e) = Some c \<and> unhex (me_ciphertext_sha256 e) = Inr (fe_sha (re_fs env) c)))"

definition saved_manifest :: "world \<Rightarrow> Manifest" where
  "saved_manifest w = (case w_manifest w of Mf m \<Rightarrow> m | _ \<Rightarrow> [])"

definition manifest_sound :: "run_env \<Rightarrow> bstate \<Rightarrow> bool" where
  "manifest_sound env s = (list_all (listed_ok env (b_world s)) (mem_manifest s)
     \<and> list_all (listed_ok env (b_world s)) (saved_manifest (b_world s)))"

text \<open>\<open>keeps P m\<close>: the command keeps \<open>P\<close>, whether it returns or fails.\<close>

definition keeps :: "(bstate \<Rightarrow> bool) \<Rightarrow> 'a bk \<Rightarrow> bool" where
  "keeps P m = (\<forall>s. P s \<longrightarrow> P (snd (m s)))"

named_theorems keeps_rules \<open>commands that keep an invariant\<close>

lemma keepsI: "(\<And>s. P s \<Longrightarrow> P (snd (m s))) \<Longrightarrow> keeps P m"
  by (simp add: keeps_def)

lemma keepsD: "keeps P m \<Longrightarrow> m s = (r, s') \<Longrightarrow> P s \<Longrightarrow> P s'"
  by (metis keeps_def snd_conv)

lemma keeps_bind [keeps_rules]: "keeps P m \<Longrightarrow> (\<And>x. keeps P (f x)) \<Longrightarrow> keeps P (bk_bind m f)"
  by (auto simp: keeps_def bk_bind_def split: prod.splits sum.splits)

lemma keeps_ret [keeps_rules]: "keeps P (bk_ret x)"
  by (simp add: keeps_def bk_ret_def)

lemma keeps_lift [keeps_rules]: "keeps P (bk_lift r)"
  by (simp add: keeps_def bk_lift_def)

lemma keeps_get [keeps_rules]: "keeps P bk_get"
  by (simp add: keeps_def bk_get_def)

lemma manifest_sound_cong:
  assumes "manifest_sound env s" and "mem_manifest s' = mem_manifest s"
    and "dest_file (b_world s') = dest_file (b_world s)" and "w_manifest (b_world s') = w_manifest (b_world s)"
  shows "manifest_sound env s'"
  using assms by (simp add: manifest_sound_def saved_manifest_def listed_ok_def[abs_def])

lemma mem_manifest_frame [simp]:
  "mem_manifest (s\<lparr>b_world := w\<rparr>) = mem_manifest s"
  "mem_manifest (s\<lparr>b_status := st\<rparr>) = mem_manifest s"
  "mem_manifest (s\<lparr>b_notes := ns\<rparr>) = mem_manifest s"
  "mem_manifest (s\<lparr>b_manifest := Some m\<rparr>) = m"
  "mem_manifest (s\<lparr>b_manifest := None\<rparr>) = []"
  by (simp_all add: mem_manifest_def)

lemma dest_file_frame [simp]:
  "dest_file (w\<lparr>w_sidecars := sc\<rparr>) = dest_file w"
  "dest_file (w\<lparr>w_outbox := ob\<rparr>) = dest_file w"
  "dest_file (w\<lparr>w_pagehashes := ph\<rparr>) = dest_file w"
  "dest_file (w\<lparr>w_manifest := mf\<rparr>) = dest_file w"
  by (simp_all add: dest_file_def fun_eq_iff)

lemma outbox_file_frame [simp]:
  "outbox_file (w\<lparr>w_sidecars := sc\<rparr>) = outbox_file w"
  "outbox_file (w\<lparr>w_manifest := mf\<rparr>) = outbox_file w"
  by (simp_all add: outbox_file_def fun_eq_iff)

lemma keeps_state_frame:
  assumes "\<And>s. mem_manifest (f s) = mem_manifest s" and "\<And>s. dest_file (b_world (f s)) = dest_file (b_world s)"
    and "\<And>s. w_manifest (b_world (f s)) = w_manifest (b_world s)"
  shows "keeps (manifest_sound env) (bk_state f)"
  using assms manifest_sound_cong[of env _ "f _"] by (simp add: keeps_def bk_state_def)

lemma keeps_sys [keeps_rules]: "keeps (manifest_sound env) (bk_sys msg)"
proof (rule keepsI)
  fix s assume "manifest_sound env s"
  obtain r w where y: "sys (b_world s) = (r, w)" by fastforce
  show "manifest_sound env (snd (bk_sys msg s))"
    using \<open>manifest_sound env s\<close> y sys_fields[OF y]
    by (cases r) (auto simp: bk_sys_def intro: manifest_sound_cong)
qed

lemma keeps_tolerate [keeps_rules]:
  assumes "keeps (manifest_sound env) m"
  shows "keeps (manifest_sound env) (tolerate cp m)"
proof (rule keepsI)
  fix s assume s: "manifest_sound env s"
  obtain r s' where m: "m s = (r, s')" by fastforce
  have s': "manifest_sound env s'"
    by (rule keepsD[OF assms m s])
  then have "manifest_sound env (s'\<lparr>b_notes := ns\<rparr>)" for ns
    by (rule manifest_sound_cong) simp_all
  then show "manifest_sound env (snd (tolerate cp m s))"
    using m s' by (cases r) (simp_all add: tolerate_def)
qed

lemma keeps_save [keeps_rules]: "keeps (manifest_sound env) manifest_save"
  unfolding manifest_save_def
proof (rule keeps_bind[OF keeps_sys], rule keepsI)
  fix x s assume s: "manifest_sound env s"
  show "manifest_sound env (snd (case b_manifest s of None \<Rightarrow> (Inr (), s)
     | Some m \<Rightarrow> if w_dest_kind (b_world s) = DirPresent
         then (Inr (), s\<lparr>b_world := (b_world s)\<lparr>w_manifest := Mf m\<rparr>\<rparr>)
         else (Inl ''create .manifest.json.tmp'', s)))"
  proof (cases "b_manifest s")
    case None
    then show ?thesis using s by simp
  next
    case (Some m)
    then have "manifest_sound env (s\<lparr>b_world := (b_world s)\<lparr>w_manifest := Mf m\<rparr>\<rparr>)"
      using s by (simp add: manifest_sound_def saved_manifest_def mem_manifest_def listed_ok_def[abs_def])
    then show ?thesis using s Some by simp
  qed
qed

lemma keeps_remove_sidecar [keeps_rules]: "keeps (manifest_sound env) (remove_sidecar sc)"
  unfolding remove_sidecar_def by (intro keeps_rules keeps_state_frame) simp_all

lemma keeps_pending_entries [keeps_rules]: "keeps (manifest_sound env) pending_entries"
  unfolding pending_entries_def by (intro keeps_rules keepsI) simp

lemma keeps_read_sidecar [keeps_rules]: "keeps (manifest_sound env) (read_sidecar sc)"
  unfolding read_sidecar_def by (intro keeps_rules keepsI) (simp split: option.split)

text \<open>Recording an entry needs its file to be there.\<close>

lemma record_shipped_sound:
  assumes "manifest_sound env s" and "listed_ok env (b_world s) entry"
  shows "manifest_sound env (snd (record_shipped env sc entry now s))"
proof -
  let ?e = "entry\<lparr>me_shipped_ms := Some now, me_uploaded := uploaded env (me_file entry)\<rparr>"
  let ?s1 = "s\<lparr>b_manifest := Some (mem_manifest s @ [?e])\<rparr>"
  have e: "listed_ok env (b_world s) ?e"
    using assms(2) by (simp add: listed_ok_def valid_entry_def Let_def)
  have s1: "manifest_sound env ?s1"
    using assms(1) e by (simp add: manifest_sound_def)
  have rest: "keeps (manifest_sound env) (bk_bind (remove_sidecar sc) (\<lambda>_. bk_ret True))"
    by (intro keeps_rules)
  show ?thesis
  proof (cases "list_ex (\<lambda>x. me_id x = me_id ?e) (mem_manifest s)")
    case True
    then have "record_shipped env sc entry now s = bk_bind (remove_sidecar sc) (\<lambda>_. bk_ret True) s"
      by (simp add: record_shipped_def bk_bind_def bk_ret_def)
    then show ?thesis using rest assms(1) by (simp add: keeps_def)
  next
    case False
    then have "record_shipped env sc entry now s
        = bk_bind manifest_save (\<lambda>_. bk_bind (remove_sidecar sc) (\<lambda>_. bk_ret True)) ?s1"
      by (simp add: record_shipped_def bk_bind_def bk_state_def)
    then show ?thesis
      using keeps_bind[OF keeps_save rest] s1 by (simp add: keeps_def)
  qed
qed

lemma valid_file_not_partial:
  assumes "valid_entry e"
  shows "me_file e \<noteq> partial_name n"
proof
  assume eq: "me_file e = partial_name n"
  obtain r where "me_id e = ''hippo-'' @ r"
    using assms by (auto simp: valid_entry_def Let_def starts_with_iff)
  moreover have "me_file e = me_id e @ ARTIFACT_EXT"
    using assms by (simp add: valid_entry_def Let_def)
  ultimately show False
    using eq by (simp add: partial_name_def)
qed

lemma ship_sound:
  assumes s: "manifest_sound env s" and sh: "ship (re_fs env) name ex (b_world s) = (r, w')"
  shows "manifest_sound env (s\<lparr>b_world := w'\<rparr>)"
proof -
  have "listed_ok env (b_world s) e \<Longrightarrow> listed_ok env w' e" for e
    using ship_keeps_files[OF sh] valid_file_not_partial by (fastforce simp: listed_ok_def)
  then show ?thesis
    using s ship_fields(1)[OF sh] by (auto simp: manifest_sound_def saved_manifest_def list_all_iff)
qed

lemma read_sidecar_Inr:
  "read_sidecar sc s = (Inr e, s') \<Longrightarrow> map_of (w_sidecars (b_world s')) sc = Some (Some e)"
  by (auto simp: read_sidecar_def bk_bind_def split: prod.splits sum.splits option.splits)

text \<open>\<open>ship_pending\<close> after the sidecar is read and its digest parsed.\<close>

definition ship_entry :: "run_env \<Rightarrow> string \<Rightarrow> int \<Rightarrow> ManifestEntry \<Rightarrow> string \<Rightarrow> bool bk" where
  "ship_entry env sc now_ms entry expected s =
     (if outbox_file (b_world s) (me_file entry) \<noteq> None
       then bk_bind (bk_world (ship (re_fs env) (me_file entry) expected)) (\<lambda>outcome.
              case outcome of
                Shipped _ \<Rightarrow> record_shipped env sc entry now_ms
              | DestinationUnavailable \<Rightarrow> bk_ret False) s
       else if w_dest_kind (b_world s) \<noteq> DirPresent then (Inr False, s)
       else if dest_file (b_world s) (me_file entry) = None
       then bk_bind (remove_sidecar sc) (\<lambda>_. bk_ret True) s
       else bk_bind (bk_world (\<lambda>w. case sha256_of_dest (re_fs env) (me_file entry) w of
                (Inl _, w') \<Rightarrow> (Inl (''hash '' @ me_file entry), w')
              | (Inr h, w') \<Rightarrow> (Inr h, w'))) (\<lambda>h.
              if h = expected then record_shipped env sc entry now_ms
              else bk_bind (remove_sidecar sc) (\<lambda>_. bk_ret True)) s)"

lemma ship_pending_entry:
  "ship_pending env sc now = bk_bind (read_sidecar sc) (\<lambda>entry.
     bk_bind (bk_lift (ensure (valid_entry entry) (''invalid outbox entry '' @ sc))) (\<lambda>_.
     bk_bind (bk_lift (unhex (me_ciphertext_sha256 entry))) (ship_entry env sc now entry)))"
  by (simp add: ship_pending_def ship_entry_def[abs_def])

lemma ship_entry_sound:
  assumes s: "manifest_sound env s" and u: "unhex (me_ciphertext_sha256 entry) = Inr ex"
  shows "manifest_sound env (snd (ship_entry env sc now entry ex s))"
proof -
  let ?drop = "bk_bind (remove_sidecar sc) (\<lambda>_. bk_ret True) :: bool bk"
  have "keeps (manifest_sound env) ?drop"
    by (intro keeps_rules)
  then have drop: "manifest_sound env s' \<Longrightarrow> manifest_sound env (snd (?drop s'))" for s'
    by (simp add: keeps_def)
  show ?thesis
  proof (cases "outbox_file (b_world s) (me_file entry) = None")
    case False
    obtain r w' where sh: "ship (re_fs env) (me_file entry) ex (b_world s) = (r, w')" by fastforce
    note snd' = ship_sound[OF s sh]
    show ?thesis
    proof (cases "\<exists>x. r = Inr (Shipped x)")
      case True
      then have "listed_ok env w' entry"
        using ship_Shipped sh u by (fastforce simp: listed_ok_def)
      then have "manifest_sound env (snd (record_shipped env sc entry now (s\<lparr>b_world := w'\<rparr>)))"
        by (intro record_shipped_sound[OF snd']) simp
      then show ?thesis
        using False True sh by (auto simp: ship_entry_def bk_bind_def bk_world_def)
    next
      case no: False
      then have "snd (ship_entry env sc now entry ex s) = s\<lparr>b_world := w'\<rparr>"
        using False sh by (cases r) (auto simp: ship_entry_def bk_bind_def bk_world_def bk_ret_def split: ShipOutcome.split)
      then show ?thesis using snd' by simp
    qed
  next
    case none: True
    show ?thesis
    proof (cases "w_dest_kind (b_world s) = DirPresent \<and> dest_file (b_world s) (me_file entry) \<noteq> None")
      case False
      then show ?thesis
        using none s drop[OF s] by (auto simp: ship_entry_def)
    next
      case True
      obtain r w' where h: "sha256_of_dest (re_fs env) (me_file entry) (b_world s) = (r, w')" by fastforce
      have u': "untouched {} (b_world s) w'" by (rule sha256_of_dest_untouched[OF h])
      then have sw: "manifest_sound env (s\<lparr>b_world := w'\<rparr>)"
        by (intro manifest_sound_cong[OF s]) (simp_all add: untouched_def fun_eq_iff)
      show ?thesis
      proof (cases "r = Inr ex")
        case eq: True
        then have "listed_ok env w' entry"
          using sha256_of_dest_Inr[of "re_fs env" "me_file entry" "b_world s" ex w'] h u
          by (auto simp: listed_ok_def)
        then have "manifest_sound env (snd (record_shipped env sc entry now (s\<lparr>b_world := w'\<rparr>)))"
          by (intro record_shipped_sound[OF sw]) simp
        then show ?thesis
          using none True h eq by (auto simp: ship_entry_def bk_bind_def bk_world_def)
      next
        case False
        then show ?thesis
          using none True h sw drop[OF sw] by (cases r) (auto simp: ship_entry_def bk_bind_def bk_world_def)
      qed
    qed
  qed
qed

lemma keeps_ship_pending [keeps_rules]: "keeps (manifest_sound env) (ship_pending env sc now)"
proof -
  have "keeps (manifest_sound env) (bk_bind (bk_lift (unhex (me_ciphertext_sha256 entry))) (ship_entry env sc now entry))" for entry
    using ship_entry_sound[of env _ entry _ sc now]
    by (cases "unhex (me_ciphertext_sha256 entry)") (simp_all add: keeps_def bk_bind_def bk_lift_def)
  then show ?thesis
    unfolding ship_pending_entry by (rule keeps_bind[OF keeps_read_sidecar keeps_bind[OF keeps_lift]])
qed

text \<open>The outbox loops, the upload refresh and the pruning.\<close>

lemma keeps_sweep_outbox [keeps_rules]: "keeps (manifest_sound env) (sweep_outbox names errs)"
proof (rule keepsI)
  fix s assume "manifest_sound env s"
  then show "manifest_sound env (snd (sweep_outbox names errs s))"
  proof (induction names errs s rule: sweep_outbox.induct)
    case (2 name names errs s)
    obtain r w where rm: "remove_outbox name (b_world s) = (r, w)" by fastforce
    obtain r1 w1 where y: "sys (b_world s) = (r1, w1)" by fastforce
    have "dest_file w = dest_file (b_world s) \<and> w_manifest w = w_manifest (b_world s)"
      using rm y sys_fields[OF y]
      by (auto simp: remove_outbox_def del_outbox_def split: option.splits if_splits)
    then have sw: "manifest_sound env (s\<lparr>b_world := w\<rparr>)"
      by (intro manifest_sound_cong[OF "2.prems"]) simp_all
    show ?case
    proof (cases "owned (b_world s) name")
      case True
      then show ?thesis using "2.IH"(1) "2.prems" by simp
    next
      case False
      then show ?thesis
        using "2.IH"(2)[OF False rm[symmetric] _ sw] "2.IH"(3)[OF False rm[symmetric] _ sw] rm
        by (cases r) simp_all
    qed
  qed simp
qed

lemma keeps_ship_each [keeps_rules]: "keeps (manifest_sound env) (ship_each env now scs waiting errs)"
proof (rule keepsI)
  fix s assume "manifest_sound env s"
  then show "manifest_sound env (snd (ship_each env now scs waiting errs s))"
  proof (induction scs arbitrary: waiting errs s)
    case (Cons sc scs)
    obtain r s' where p: "ship_pending env sc now s = (r, s')" by fastforce
    have "manifest_sound env s'"
      by (rule keepsD[OF keeps_ship_pending p Cons.prems])
    then show ?case
      using p Cons.IH by (cases r) (auto split: bool.split)
  qed simp
qed

lemma keeps_ship_outbox [keeps_rules]: "keeps (manifest_sound env) (ship_outbox env now)"
  unfolding ship_outbox_def by (intro keeps_rules)

lemma keeps_refresh_uploaded [keeps_rules]: "keeps (manifest_sound env) (refresh_uploaded env)"
proof (rule keepsI)
  fix s assume s: "manifest_sound env s"
  define upd where "upd = (\<lambda>e. \<not> me_uploaded e \<and> valid_entry e \<and> uploaded env (me_file e))"
  let ?m = "map (\<lambda>e. if upd e then e\<lparr>me_uploaded := True\<rparr> else e) (mem_manifest s)"
  have "listed_ok env w (e\<lparr>me_uploaded := True\<rparr>) = listed_ok env w e" for w e
    by (simp add: listed_ok_def valid_entry_def)
  then have "manifest_sound env (s\<lparr>b_manifest := Some ?m\<rparr>)"
    using s by (auto simp: manifest_sound_def list_all_iff)
  then have "manifest_sound env (snd (manifest_save (s\<lparr>b_manifest := Some ?m\<rparr>)))"
    using keeps_save by (simp add: keeps_def)
  then show "manifest_sound env (snd (refresh_uploaded env s))"
    using s by (simp add: refresh_uploaded_def Let_def upd_def[symmetric])
qed

lemma remove_files_keeps: "n \<notin> set fs \<Longrightarrow> dest_file (remove_files fs w) n = dest_file w n"
proof (induction fs arbitrary: w)
  case (Cons f fs)
  then have "dest_file (snd (remove_dest f w)) n = dest_file w n"
    using remove_dest_untouched[of f "{f}" w] by (simp add: untouched_def)
  then show ?case using Cons by simp
qed simp

lemma remove_files_manifest: "w_manifest (remove_files fs w) = w_manifest w"
proof (induction fs arbitrary: w)
  case (Cons f fs)
  then show ?case
    using remove_dest_untouched[of f "{f}" w] by (simp add: untouched_def)
qed simp

text \<open>Pruning saves the shorter manifest before it deletes, and deletes only files of entries it dropped.\<close>

lemma prune_sound:
  assumes s: "manifest_sound env s"
  shows "manifest_sound env (prune env now s)"
proof -
  let ?m = "mem_manifest s"
  define doomed where "doomed = plan_prune (re_month env) (filter valid_entry ?m) now"
  define goes where "goes = (\<lambda>e. valid_entry e \<and> me_id e \<in> set doomed)"
  let ?s1 = "s\<lparr>b_manifest := Some (filter (\<lambda>e. \<not> goes e) ?m)\<rparr>"
  have s1: "manifest_sound env ?s1"
    using s by (auto simp: manifest_sound_def list_all_iff)
  obtain r s2 where sv: "manifest_save ?s1 = (r, s2)" by fastforce
  have s2: "manifest_sound env s2"
    by (rule keepsD[OF keeps_save sv s1])
  show ?thesis
  proof (cases "doomed = []")
    case True
    then show ?thesis using s by (simp add: prune_def doomed_def Let_def)
  next
    case False
    show ?thesis
    proof (cases r)
      case (Inl e)
      then have "prune env now s = s2\<lparr>b_notes := b_notes s2 @ [''prune skipped: '' @ e]\<rparr>"
        using False sv by (simp add: prune_def doomed_def[symmetric] goes_def[symmetric] Let_def)
      then show ?thesis using manifest_sound_cong[OF s2] by simp
    next
      case (Inr u)
      let ?fs = "map me_file (filter goes ?m)"
      have eq: "prune env now s = s2\<lparr>b_world := remove_files ?fs (b_world s2)\<rparr>"
        using False sv Inr by (simp add: prune_def doomed_def[symmetric] goes_def[symmetric] Let_def)
      have m2: "mem_manifest s2 = filter (\<lambda>e. \<not> goes e) ?m" "saved_manifest (b_world s2) = filter (\<lambda>e. \<not> goes e) ?m"
        using sv Inr
        by (auto simp: manifest_save_def bk_bind_def bk_sys_def saved_manifest_def mem_manifest_def
            split: prod.splits option.splits if_splits)
      have keep: "listed_ok env (remove_files ?fs w) e" if "listed_ok env w e" "\<not> goes e" for w e
      proof (cases "valid_entry e")
        case True
        then have "me_file e \<notin> set ?fs"
          using that(2) by (auto simp: goes_def valid_entry_def Let_def)
        then show ?thesis
          using that(1) remove_files_keeps[of "me_file e" ?fs w] by (simp add: listed_ok_def)
      qed (simp add: listed_ok_def)
      have "list_all (listed_ok env (remove_files ?fs (b_world s2))) (filter (\<lambda>e. \<not> goes e) ?m)"
        using s2 m2 keep by (auto simp: manifest_sound_def list_all_iff)
      then show ?thesis
        unfolding eq using m2
        by (simp add: manifest_sound_def saved_manifest_def remove_files_manifest)
    qed
  qed
qed

lemma keeps_bk_state: "(\<And>s. P s \<Longrightarrow> P (f s)) \<Longrightarrow> keeps P (bk_state f)"
  by (simp add: keeps_def bk_state_def)

lemma load_manifest_sound:
  assumes s: "manifest_sound env s" and l: "load_manifest s = (r, s')"
  shows "manifest_sound env s' \<and> (\<forall>m. r = Inr (Some m) \<longrightarrow> list_all (listed_ok env (b_world s')) m)"
proof (cases "w_dest_kind (b_world s) = DirPresent")
  case False
  then show ?thesis using s l by (auto simp: load_manifest_def)
next
  case True
  obtain r1 s1 where m: "manifest_load s = (r1, s1)" by fastforce
  have k: "keeps (manifest_sound env) manifest_load"
    unfolding manifest_load_def by (intro keeps_bind keeps_sys keepsI) (simp split: manifest_file.split)
  have s1: "manifest_sound env s1"
    by (rule keepsD[OF k m s])
  have ent: "r1 = Inr ms \<Longrightarrow> ms = saved_manifest (b_world s1)" for ms
    using m by (auto simp: manifest_load_def bk_bind_def saved_manifest_def split: prod.splits sum.splits manifest_file.splits)
  have "s' = s1 \<and> (\<forall>ms. r = Inr (Some ms) \<longrightarrow> r1 = Inr ms)"
    using l m True by (auto simp: load_manifest_def bk_bind_def Let_def split: sum.splits if_splits)
  then show ?thesis
    using s1 ent by (auto simp: manifest_sound_def)
qed

lemma keeps_run_prefix [keeps_rules]: "keeps (manifest_sound env) (run_prefix env cp now)"
proof (rule keepsI)
  fix s assume s: "manifest_sound env s"
  define rest :: "Manifest option \<Rightarrow> nat bk" where "rest m = (if m = None then bk_bind pending_entries (\<lambda>v. bk_ret (length v))
     else bk_bind (ship_outbox env now) (\<lambda>(waiting, errors).
          bk_bind (bk_state (add_notes errors)) (\<lambda>_.
          bk_bind (tolerate cp (refresh_uploaded env)) (\<lambda>_.
          bk_bind (bk_state refresh_pending) (\<lambda>_. bk_ret waiting)))))" for m
  have addn: "keeps (manifest_sound env) (bk_state (add_notes ns))" for ns
    by (rule keeps_state_frame) (simp_all add: add_notes_def)
  have pend: "keeps (manifest_sound env) (bk_state refresh_pending)"
    by (rule keeps_state_frame) (simp_all add: refresh_pending_def)
  have rest: "keeps (manifest_sound env) (rest m)" for m
    unfolding rest_def case_prod_beta by (simp, intro conjI impI keeps_rules addn pend)
  obtain r s1 where l: "load_manifest s = (r, s1)" by fastforce
  note ls = load_manifest_sound[OF s l]
  obtain r2 s2 where t: "tolerate cp load_manifest s = (r2, s2)" by fastforce
  let ?m = "case r2 of Inr (Some x) \<Rightarrow> x | _ \<Rightarrow> None"
  have "manifest_sound env (s2\<lparr>b_manifest := ?m\<rparr>)" and "manifest_sound env s2"
    using ls t l
    by (auto simp: tolerate_def manifest_sound_def mem_manifest_def saved_manifest_def
        split: sum.splits if_splits option.splits)
  then show "manifest_sound env (snd (run_prefix env cp now s))"
    using rest[unfolded keeps_def] t
    by (cases r2) (auto simp: run_prefix_def bk_bind_def bk_state_def rest_def[symmetric] Let_def split: option.splits)
qed

lemma keeps_case_option: "(\<And>x. keeps P (f x)) \<Longrightarrow> keeps P g \<Longrightarrow> keeps P (case opt of None \<Rightarrow> g | Some x \<Rightarrow> f x)"
  by (cases opt) simp_all

lemma keeps_if: "keeps P f \<Longrightarrow> keeps P g \<Longrightarrow> keeps P (if b then f else g)"
  by simp

lemma keeps_labelled [keeps_rules]: "keeps (manifest_sound env) (already_labelled l)"
  unfolding already_labelled_def by (intro keeps_bind keeps_pending_entries keepsI) (simp add: Let_def)

lemma keeps_write_pagehashes [keeps_rules]: "keeps (manifest_sound env) (write_pagehashes h)"
  unfolding write_pagehashes_def by (intro keeps_rules keeps_state_frame) simp_all

lemma keeps_write_sidecar [keeps_rules]: "keeps (manifest_sound env) (write_sidecar sc e)"
  unfolding write_sidecar_def
proof (rule keeps_bind[OF keeps_sys], rule keepsI)
  fix x s assume s: "manifest_sound env s"
  have "manifest_sound env (s\<lparr>b_world := (b_world s)\<lparr>w_sidecars := z\<rparr>\<rparr>)" for z
    by (rule manifest_sound_cong[OF s]) simp_all
  then show "manifest_sound env (snd (let w = b_world s in
     if map_of (w_sidecars w) sc \<noteq> None then (Inl (''rename to '' @ sc @ '' (never replaces)''), s)
     else (Inr (), s\<lparr>b_world := w\<lparr>w_sidecars := al_put sc (Some e) (w_sidecars w)\<rparr>\<rparr>)))"
    using s by (simp add: Let_def)
qed

lemma try_remove_outbox_sound:
  assumes "manifest_sound env s"
  shows "manifest_sound env (try_remove_outbox f s)"
proof -
  obtain r w where y: "sys (b_world s) = (r, w)" by fastforce
  have "dest_file (snd (remove_outbox f (b_world s))) = dest_file (b_world s)"
    and "w_manifest (snd (remove_outbox f (b_world s))) = w_manifest (b_world s)"
    using y sys_fields[OF y] by (auto simp: remove_outbox_def del_outbox_def split: option.split)
  then show ?thesis
    unfolding try_remove_outbox_def by (intro manifest_sound_cong[OF assms]) simp_all
qed

lemma keeps_ship_new [keeps_rules]: "keeps (manifest_sound env) (ship_new env cp sc file now)"
proof (rule keepsI)
  fix s assume s: "manifest_sound env s"
  obtain r s' where p: "ship_pending env sc now s = (r, s')" by fastforce
  have s': "manifest_sound env s'"
    by (rule keepsD[OF keeps_ship_pending p s])
  have "manifest_sound env (snd (remove_sidecar sc s'))"
    using keeps_remove_sidecar s' by (simp add: keeps_def)
  then have "manifest_sound env (try_remove_outbox file (snd (remove_sidecar sc s')))"
    by (rule try_remove_outbox_sound)
  moreover have "manifest_sound env (add_notes ns s')" for ns
    by (rule manifest_sound_cong[OF s']) (simp_all add: add_notes_def)
  ultimately show "manifest_sound env (snd (ship_new env cp sc file now s))"
    using s s' p by (auto simp: ship_new_def split: sum.split)
qed

lemma keeps_finish_run [keeps_rules]: "keeps (manifest_sound env) (finish_run env cp i kind nh now shipped)"
proof -
  have a: "keeps (manifest_sound env) (bk_state (add_notes ns))" for ns
    by (rule keeps_state_frame) (simp_all add: add_notes_def)
  have b: "keeps (manifest_sound env) (bk_state refresh_pending)"
    by (rule keeps_state_frame) (simp_all add: refresh_pending_def)
  have c: "keeps (manifest_sound env) (bk_state (prune env now))"
    by (rule keeps_bk_state) (rule prune_sound)
  show ?thesis
    unfolding finish_run_def Let_def
    by (intro keeps_if keeps_case_option keeps_rules a b c)
qed

lemma keeps_store_sidecar:
  "keeps (manifest_sound env) (\<lambda>s. case write_sidecar sc e s of
      (Inl err, s') \<Rightarrow> (Inl err, try_remove_outbox file s') | (Inr u, s') \<Rightarrow> (Inr u, s'))"
proof (rule keepsI)
  fix s assume s: "manifest_sound env s"
  obtain r s' where w: "write_sidecar sc e s = (r, s')" by fastforce
  have "manifest_sound env s'"
    by (rule keepsD[OF keeps_write_sidecar w s])
  then show "manifest_sound env (snd (case write_sidecar sc e s of
      (Inl err, s') \<Rightarrow> (Inl err, try_remove_outbox file s') | (Inr u, s') \<Rightarrow> (Inr u, s')))"
    using w try_remove_outbox_sound by (cases r) simp_all
qed

lemma keeps_put_outbox:
  "keeps (manifest_sound env) (bk_state (\<lambda>s. s\<lparr>b_world := (b_world s)\<lparr>w_outbox := f s\<rparr>\<rparr>))"
  by (rule keeps_state_frame) simp_all

lemma keeps_case_prod: "(\<And>a b. keeps P (f a b)) \<Longrightarrow> keeps P (case x of (a, b) \<Rightarrow> f a b)"
  by (cases x) simp

lemma keeps_build [keeps_rules]: "keeps (manifest_sound env) (build_artifact env mode info now)"
  unfolding build_artifact_def Let_def
  by (intro keeps_case_prod keeps_store_sidecar keeps_put_outbox keeps_rules)

lemma keeps_run_locked: "keeps (manifest_sound env) (run_locked env mode now once)"
proof -
  have l: "keeps (manifest_sound env) (case (once, mode_label mode) of
                (True, Some label) \<Rightarrow> already_labelled label | _ \<Rightarrow> bk_ret False)"
    by (auto intro: keeps_rules split: option.split bool.split)
  show ?thesis
    unfolding run_locked_def Let_def by (intro keeps_if l keeps_rules)
qed

lemma run_holding_lock_sound:
  assumes "list_all (listed_ok env w) (saved_manifest w)"
    and "run_holding_lock env mode now once st w = (r, st', w')"
  shows "list_all (listed_ok env w') (saved_manifest w')"
proof -
  let ?s0 = "\<lparr>b_world = w, b_manifest = None, b_status = st, b_notes = []\<rparr>"
  have "manifest_sound env ?s0"
    using assms(1) by (simp add: manifest_sound_def mem_manifest_def)
  moreover obtain res s1 where r1: "run_locked env mode now once ?s0 = (res, s1)" by fastforce
  ultimately have s1: "manifest_sound env s1"
    using keepsD[OF keeps_run_locked] by blast
  obtain pe s2 where p: "pending_entries s1 = (pe, s2)" by fastforce
  have s2: "manifest_sound env s2"
    by (rule keepsD[OF keeps_pending_entries p s1])
  define s3 where "s3 = finish_status now res (s2\<lparr>b_status := (b_status s2)\<lparr>bs_outbox_count :=
      (case pe of Inl _ \<Rightarrow> bs_outbox_count (b_status s2) | Inr v \<Rightarrow> min (int (length v)) u32_max)\<rparr>\<rparr>)"
  have s3: "manifest_sound env s3"
    by (rule manifest_sound_cong[OF s2]) (simp_all add: s3_def finish_status_def Let_def)
  obtain u s4 where y: "bk_sys ''write status.json'' s3 = (u, s4)" by fastforce
  have "manifest_sound env s4"
    by (rule keepsD[OF keeps_sys y s3])
  moreover have "w' = b_world s4"
    using assms(2) r1 p y by (auto simp: run_holding_lock_def s3_def[symmetric] Let_def split: sum.splits)
  ultimately show ?thesis by (simp add: manifest_sound_def)
qed

text \<open>A sidecar and its artifact are given up only for a good copy, or when the artifact is gone.\<close>

lemma bk_sys_world:
  assumes "bk_sys msg s = (r, s')"
  shows "w_sidecars (b_world s') = w_sidecars (b_world s)" "outbox_file (b_world s') = outbox_file (b_world s)"
    "dest_file (b_world s') = dest_file (b_world s)" "b_manifest s' = b_manifest s"
proof -
  obtain q w where y: "sys (b_world s) = (q, w)" by fastforce
  show "w_sidecars (b_world s') = w_sidecars (b_world s)" "outbox_file (b_world s') = outbox_file (b_world s)"
    "dest_file (b_world s') = dest_file (b_world s)" "b_manifest s' = b_manifest s"
    using assms y sys_fields[OF y] by (auto simp: bk_sys_def split: option.splits)
qed

lemma manifest_save_world:
  assumes "manifest_save s = (r, s')"
  shows "w_sidecars (b_world s') = w_sidecars (b_world s) \<and> outbox_file (b_world s') = outbox_file (b_world s)
    \<and> dest_file (b_world s') = dest_file (b_world s) \<and> b_manifest s' = b_manifest s"
proof -
  obtain q s1 where y: "bk_sys ''write manifest.json'' s = (q, s1)" by fastforce
  show ?thesis
    using assms y bk_sys_world[OF y]
    by (auto simp: manifest_save_def bk_bind_def split: sum.splits option.splits if_splits)
qed

lemma remove_sidecar_world:
  assumes "remove_sidecar sc s = (r, s')"
  shows "outbox_file (b_world s') = outbox_file (b_world s) \<and> dest_file (b_world s') = dest_file (b_world s)
    \<and> b_manifest s' = b_manifest s"
proof -
  obtain q s1 where y: "bk_sys (''remove '' @ sc) s = (q, s1)" by fastforce
  show ?thesis
    using assms y bk_sys_world[OF y]
    by (auto simp: remove_sidecar_def bk_bind_def bk_state_def split: sum.splits)
qed

lemma record_shipped_world:
  assumes "record_shipped env sc entry now s = (r, s')"
  shows "dest_file (b_world s') = dest_file (b_world s)
    \<and> (w_sidecars (b_world s') = w_sidecars (b_world s)
       \<or> list_ex (\<lambda>e. me_id e = me_id entry) (mem_manifest s'))"
proof (cases "list_ex (\<lambda>x. me_id x = me_id entry) (mem_manifest s)")
  case True
  then have "record_shipped env sc entry now s = bk_bind (remove_sidecar sc) (\<lambda>_. bk_ret True) s"
    by (simp add: record_shipped_def bk_bind_def bk_ret_def)
  moreover obtain q s1 where y: "remove_sidecar sc s = (q, s1)" by fastforce
  ultimately have "s' = s1"
    using assms by (auto simp: bk_bind_def bk_ret_def split: sum.splits)
  then show ?thesis
    using remove_sidecar_world[OF y] True by (simp add: mem_manifest_def)
next
  case False
  let ?e = "entry\<lparr>me_shipped_ms := Some now, me_uploaded := uploaded env (me_file entry)\<rparr>"
  let ?s1 = "s\<lparr>b_manifest := Some (mem_manifest s @ [?e])\<rparr>"
  obtain q s2 where sv: "manifest_save ?s1 = (q, s2)" by fastforce
  note w2 = manifest_save_world[OF sv]
  obtain q3 s3 where y: "remove_sidecar sc s2 = (q3, s3)" by fastforce
  have red: "record_shipped env sc entry now s
      = bk_bind manifest_save (\<lambda>_. bk_bind (remove_sidecar sc) (\<lambda>_. bk_ret True)) ?s1"
    using False by (simp add: record_shipped_def bk_bind_def bk_state_def)
  have "s' = s2 \<or> s' = s3"
    using assms red sv y by (auto simp: bk_bind_def bk_ret_def split: sum.splits)
  moreover have "mem_manifest s2 = mem_manifest s @ [?e] \<and> mem_manifest s3 = mem_manifest s @ [?e]"
    using w2 remove_sidecar_world[OF y] by (simp add: mem_manifest_def)
  ultimately show ?thesis
    using w2 remove_sidecar_world[OF y] by auto
qed

lemma ship_entry_no_loss:
  assumes o: "outbox_file (b_world s) (me_file entry) \<noteq> None"
    and r: "ship_entry env sc now entry ex s = (r, s')"
  shows "(outbox_file (b_world s') (me_file entry) = outbox_file (b_world s) (me_file entry)
          \<or> (\<exists>c. dest_file (b_world s') (me_file entry) = Some c \<and> fe_sha (re_fs env) c = ex))
    \<and> (w_sidecars (b_world s') = w_sidecars (b_world s)
       \<or> list_ex (\<lambda>e. me_id e = me_id entry) (mem_manifest s')
         \<and> (\<exists>c. dest_file (b_world s') (me_file entry) = Some c \<and> fe_sha (re_fs env) c = ex))"
proof -
  obtain q w' where sh: "ship (re_fs env) (me_file entry) ex (b_world s) = (q, w')" by fastforce
  show ?thesis
  proof (cases "\<exists>x. q = Inr (Shipped x)")
    case True
    then obtain c where c: "dest_file w' (me_file entry) = Some c" "fe_sha (re_fs env) c = ex"
      using ship_Shipped sh by blast
    have "record_shipped env sc entry now (s\<lparr>b_world := w'\<rparr>) = (r, s')"
      using r o True sh by (auto simp: ship_entry_def bk_bind_def bk_world_def)
    from record_shipped_world[OF this] show ?thesis
      using c ship_fields(2)[OF sh] by auto
  next
    case False
    then have "s' = s\<lparr>b_world := w'\<rparr>"
      using r o sh by (cases q) (auto simp: ship_entry_def bk_bind_def bk_world_def bk_ret_def split: ShipOutcome.splits)
    then show ?thesis
      using ship_settled[OF sh] by (auto simp: settled_def outbox_file_def)
  qed
qed

subsection \<open>A delta has a listed base\<close>

lemma delta_base_listed:
  assumes "delta_base env file m ps now = Some base"
  shows "\<exists>e \<in> set m. me_verified e \<and> me_kind e = Full \<and> me_id e = ph_base_id base \<and> valid_entry e
    \<and> ph_page_size base = ps \<and> re_week env (me_created_ms e) = re_week env now \<and> re_week env now \<noteq> None"
proof -
  obtain e where e: "find (\<lambda>e. me_verified e \<and> me_kind e = Full \<and> me_id e = ph_base_id base \<and> valid_entry e) m = Some e"
    "ph_page_size base = ps" "re_week env (me_created_ms e) = re_week env now" "re_week env now \<noteq> None"
    using assms by (auto simp: delta_base_def Let_def split: option.splits if_splits)
  then show ?thesis
    by (auto simp: find_Some_iff intro!: bexI[of _ e])
qed

text \<open>An environment in which everything works, for concrete instances.\<close>

definition pad_sha :: "string \<Rightarrow> string" where
  "pad_sha c = take 32 (c @ replicate 32 (CHR 0x00))"

definition good_env :: run_env where
  "good_env = \<lparr>re_fs = \<lparr>fe_sha = pad_sha, fe_copy = (\<lambda>c. c), fe_race = None, fe_exclusive = True\<rparr>,
     re_uploaded = (\<lambda>_. Inr True), re_ts = (\<lambda>ms. nat_str (nat ms)), re_month = example_month,
     re_week = (\<lambda>ms. Some (2026, ms div (7 * DAY_MS))), re_recipient = Inr (), re_run_tmp = Inr (),
     re_recovery_lock = Inr True,
     re_snapshot = Inr \<lparr>si_db = example_db2, si_page_size = 18, si_sha256 = pad_sha example_db2,
       si_schema_version = 29, si_row_counts = []\<rparr>,
     re_stage_fallback = Inr (), re_artifact = (\<lambda>_ bytes. Inr bytes), re_version = ''0''\<rparr>"

definition good_entry :: "string \<Rightarrow> ManifestEntry" where
  "good_entry data = (example_entry ''hippo-full-1'' Full 0 None)\<lparr>me_ciphertext_sha256 := hex (pad_sha data)\<rparr>"

definition good_world :: world where
  "good_world = \<lparr>w_dest_kind = DirPresent, w_dest = [(''hippo-full-1.tar.zst.age'', ''data'')],
     w_manifest = Mf [good_entry ''data''], w_outbox = [], w_sidecars = [], w_pagehashes = None, w_faults = []\<rparr>"

definition pending_state :: bstate where
  "pending_state = \<lparr>b_world = \<lparr>w_dest_kind = DirPresent, w_dest = [], w_manifest = MfAbsent,
       w_outbox = [(''hippo-full-1.tar.zst.age'', ''data'')],
       w_sidecars = [(''hippo-full-1.entry.json'', Some (good_entry ''data''))], w_pagehashes = None, w_faults = []\<rparr>,
     b_manifest = Some [],
     b_status = \<lparr>bs_last_success_ms = None, bs_last_scheduled_ms = None, bs_last_kind = None, bs_last_error = None,
       bs_last_verify_ms = None, bs_pending_upload = [], bs_outbox_count = 0\<rparr>,
     b_notes = []\<rparr>"

lemma unhex_pad_sha: "unhex (hex (pad_sha c)) = Inr (pad_sha c)"
  by (rule unhex_hex) (simp add: pad_sha_def)

subsection \<open>Properties\<close>

text \<open>
  C36 (manifest_only_lists_present): every valid entry of the saved manifest has its file in the
  destination with the recorded digest, and a whole backup run keeps it so, whichever of its
  calls fail: artifacts are listed only once copied and unlisted before they are deleted.
\<close>

theorem manifest_only_lists_present:
  assumes "list_all (listed_ok env w) (saved_manifest w)"
    and "run_backup cfg lock env mode now once st w = (r, st', w')"
  shows "list_all (listed_ok env w') (saved_manifest w')"
  using assms run_holding_lock_sound
  by (auto simp: run_backup_def split: if_splits sum.splits bool.splits)

lemma manifest_only_lists_present_witness:
  "\<exists>r st' w'. run_backup \<lparr>bc_destination = ''d'', bc_recipient = ''r''\<rparr> (Inr True) good_env Scheduled 0 False
      (b_status pending_state) good_world = (r, st', w') \<and> list_all (listed_ok good_env w') (saved_manifest w')"
proof -
  obtain r st' w' where run: "run_backup \<lparr>bc_destination = ''d'', bc_recipient = ''r''\<rparr> (Inr True) good_env Scheduled 0 False
      (b_status pending_state) good_world = (r, st', w')"
    by (metis surj_pair)
  have "list_all (listed_ok good_env good_world) (saved_manifest good_world)"
    by (simp add: good_world_def saved_manifest_def listed_ok_def dest_file_def good_entry_def example_entry_def
        ARTIFACT_EXT_def good_env_def unhex_pad_sha)
  from manifest_only_lists_present[OF this run] show ?thesis
    using run by blast
qed



text \<open>
  The digest written into a manifest entry reads back as the digest, so the
  comparison before an artifact counts as shipped is with the digest that was computed.
\<close>

theorem hex_roundtrip:
  assumes "length digest = 32"
  shows "unhex (hex digest) = Inr digest"
  using assms by (rule unhex_hex)

lemma hex_roundtrip_witness: "unhex (hex (replicate 32 (CHR 0xAB))) = Inr (replicate 32 (CHR 0xAB))"
  by (rule hex_roundtrip) simp

end
