(* ===== verification/Artifact.thy ===== *)
theory Artifact
  imports BackupTypes
begin

text \<open>
  The contents of a backup artifact (\<open>hippo-daemon/src/backup/artifact.rs\<close>): the archive a run builds
  and its unpacking. The tar, zstd and age layers are outside the model: an archive is the list of entries that
  the tar reader delivers, an error where it fails, and what draining the rest of the stream gives. JSON
  printing and parsing of the meta are parameters.
\<close>

subsection \<open>Building\<close>

datatype component = Normal string | ParentDir | CurDir | RootDir

record tar_entry =
  te_path :: "component list"
  te_is_file :: bool
  te_data :: string

text \<open>An open file: its length at open time and the bytes that reading it to the end then gives.\<close>

type_synonym open_file = "nat \<times> string"

record artifact_inputs =
  ai_db :: "string + open_file"
  ai_config :: "string + open_file"
  ai_redact :: "(string + open_file) option"
  ai_state :: "(string + open_file) option"
  ai_fallback :: "string + (string \<times> (string + open_file)) list"

definition append_bytes :: "component list \<Rightarrow> string \<Rightarrow> string + tar_entry list" where
  "append_bytes name data = Inr [\<lparr>te_path = name, te_is_file = True, te_data = data\<rparr>]"

text \<open>Exactly \<open>len\<close> bytes of the reader: fewer is an error, more are ignored.\<close>

definition append_exact :: "component list \<Rightarrow> nat \<Rightarrow> string \<Rightarrow> string + tar_entry list" where
  "append_exact name len src =
     (if length src < len then Inl ''archive: source shrank below the size recorded in the tar header''
      else append_bytes name (take len src))"

definition append_file :: "component list \<Rightarrow> string + open_file \<Rightarrow> string + tar_entry list" where
  "append_file name src = rbind src (\<lambda>(len, bytes). append_exact name len bytes)"

definition append_opt :: "component list \<Rightarrow> (string + open_file) option \<Rightarrow> string + tar_entry list" where
  "append_opt name src = (case src of None \<Rightarrow> Inr [] | Some f \<Rightarrow> append_file name f)"

fun append_fallback :: "(string \<times> (string + open_file)) list \<Rightarrow> string + tar_entry list" where
  "append_fallback [] = Inr []"
| "append_fallback ((name, src) # fs) =
     rbind (append_file [Normal ''fallback'', Normal name] src) (\<lambda>e.
     rbind (append_fallback fs) (\<lambda>es. Inr (e @ es)))"

definition db_member :: "ArtifactKind \<Rightarrow> component list" where
  "db_member kind = (if kind = Delta then [Normal ''hippo.db.pagediff''] else [Normal ''hippo.db''])"

definition build_tar :: "(ArtifactMeta \<Rightarrow> string) \<Rightarrow> ArtifactMeta \<Rightarrow> artifact_inputs \<Rightarrow> string + tar_entry list" where
  "build_tar print meta inputs =
     rbind (append_bytes [Normal ''meta.json''] (print meta)) (\<lambda>e1.
     rbind (append_file (db_member (am_kind meta)) (ai_db inputs)) (\<lambda>e2.
     rbind (append_file [Normal ''config'', Normal ''config.toml''] (ai_config inputs)) (\<lambda>e3.
     rbind (append_opt [Normal ''config'', Normal ''redact.toml''] (ai_redact inputs)) (\<lambda>e4.
     rbind (append_opt [Normal ''enrichment-state.json''] (ai_state inputs)) (\<lambda>e5.
     rbind (ai_fallback inputs) (\<lambda>files.
     rbind (append_fallback files) (\<lambda>e6. Inr (e1 @ e2 @ e3 @ e4 @ e5 @ e6))))))))"

subsection \<open>Unpacking\<close>

record archive =
  ar_entries :: "(string + tar_entry) list"
  ar_tail :: "string + unit"

text \<open>
  The files under the target directory by path. A path below an existing file and a path that is a
  directory of an existing file cannot be created.
\<close>

type_synonym tree = "(component list \<times> string) list"

definition strict_prefix_of :: "'a list \<Rightarrow> 'a list \<Rightarrow> bool" where
  "strict_prefix_of p q \<longleftrightarrow> length p < length q \<and> take (length p) q = p"

definition write_path :: "component list \<Rightarrow> string \<Rightarrow> tree \<Rightarrow> string + tree" where
  "write_path p data files =
     (if p = [] \<or> list_ex (\<lambda>f. strict_prefix_of p (fst f)) files then Inl ''is a directory''
      else if list_ex (\<lambda>f. strict_prefix_of (fst f) p) files then Inl ''not a directory''
      else Inr (al_put p data files))"

definition is_normal :: "component \<Rightarrow> bool" where
  "is_normal c = (case c of Normal _ \<Rightarrow> True | _ \<Rightarrow> False)"

text \<open>One turn of the entry loop; \<open>fault\<close> is the failure of creating or writing the file.\<close>

definition extract_entry :: "string option \<Rightarrow> string + tar_entry \<Rightarrow> tree \<Rightarrow> (string + unit) \<times> tree" where
  "extract_entry fault entry files = (case entry of
     Inl e \<Rightarrow> (Inl e, files)
   | Inr t \<Rightarrow>
      if \<not> list_all is_normal (te_path t) then (Inl ''unsafe path in artifact'', files)
      else if \<not> te_is_file t then (Inr (), files)
      else case fault of Some e \<Rightarrow> (Inl e, files)
      | None \<Rightarrow> (case write_path (te_path t) (te_data t) files of
          Inl e \<Rightarrow> (Inl e, files) | Inr files' \<Rightarrow> (Inr (), files')))"

fun extract_entries :: "string option list \<Rightarrow> (string + tar_entry) list \<Rightarrow> tree \<Rightarrow> (string + unit) \<times> tree" where
  "extract_entries faults [] files = (Inr (), files)"
| "extract_entries faults (e # es) files =
     (case extract_entry (case faults of [] \<Rightarrow> None | f # _ \<Rightarrow> f) e files of
        (Inl x, files') \<Rightarrow> (Inl x, files')
      | (Inr _, files') \<Rightarrow> extract_entries (tl faults) es files')"

definition extract_artifact ::
  "(string \<Rightarrow> string + ArtifactMeta) \<Rightarrow> string option list \<Rightarrow> archive \<Rightarrow> tree \<Rightarrow> (string + ArtifactMeta) \<times> tree" where
  "extract_artifact parse faults a files =
     (case extract_entries faults (ar_entries a) files of
        (Inl e, files') \<Rightarrow> (Inl e, files')
      | (Inr _, files') \<Rightarrow>
          (rbind (ar_tail a) (\<lambda>_.
             case map_of files' [Normal ''meta.json''] of
               None \<Rightarrow> Inl ''artifact has no meta.json''
             | Some bytes \<Rightarrow> parse bytes), files'))"

subsection \<open>Unpacking stays inside the target\<close>

lemma write_path_keys:
  assumes "write_path p d files = Inr files'"
  shows "fst ` set files' = insert p (fst ` set files)"
proof -
  have "files' = al_put p d files" using assms by (simp add: write_path_def split: if_splits)
  then show ?thesis by (simp add: dom_al_put)
qed

lemma extract_entry_inside:
  assumes "extract_entry f e files = (r, files')" "\<forall>p \<in> fst ` set files. list_all is_normal p"
  shows "\<forall>p \<in> fst ` set files'. list_all is_normal p"
proof (cases "files' = files")
  case False
  then obtain t where t: "e = Inr t" "list_all is_normal (te_path t)" "write_path (te_path t) (te_data t) files = Inr files'"
    using assms(1) by (auto simp: extract_entry_def split: sum.splits if_splits option.splits)
  show ?thesis unfolding write_path_keys[OF t(3)] using t(2) assms(2) by simp
qed (use assms(2) in simp)

lemma extract_entries_inside:
  assumes "extract_entries fs es files = (r, files')" "\<forall>p \<in> fst ` set files. list_all is_normal p"
  shows "\<forall>p \<in> fst ` set files'. list_all is_normal p"
  using assms
proof (induction fs es files rule: extract_entries.induct)
  case (2 fs e es files)
  obtain r1 files1 where one: "extract_entry (case fs of [] \<Rightarrow> None | f # _ \<Rightarrow> f) e files = (r1, files1)"
    by (metis prod.collapse)
  note inside = extract_entry_inside[OF one "2.prems"(2)]
  show ?case
  proof (cases r1)
    case (Inl x)
    then show ?thesis using "2.prems"(1) one inside by simp
  next
    case (Inr u)
    show ?thesis using "2.IH"[OF one[symmetric] Inr] "2.prems"(1) one Inr inside by simp
  qed
qed simp

lemma extract_entries_ok:
  "extract_entries fs es files = (Inr (), files') \<Longrightarrow>
     \<exists>ts. es = map Inr ts \<and> list_all (\<lambda>t. list_all is_normal (te_path t)) ts"
proof (induction fs es files rule: extract_entries.induct)
  case (2 fs e es files)
  obtain r1 files1 where one: "extract_entry (case fs of [] \<Rightarrow> None | f # _ \<Rightarrow> f) e files = (r1, files1)"
    by (metis prod.collapse)
  obtain u where r1: "r1 = Inr u" using "2.prems" one by (cases r1) auto
  obtain ts where ts: "es = map Inr ts" "list_all (\<lambda>t. list_all is_normal (te_path t)) ts"
    using "2.IH"[OF one[symmetric] r1] "2.prems" one r1 by auto
  obtain t where "e = Inr t" "list_all is_normal (te_path t)"
    using one r1 by (auto simp: extract_entry_def split: sum.splits if_splits)
  then show ?case using ts by (intro exI[of _ "t # ts"]) simp
qed simp

subsection \<open>A built archive unpacks\<close>

text \<open>Files whose paths are apart (none equal to or below another) are all written.\<close>

definition apart :: "component list list \<Rightarrow> bool" where
  "apart ps \<longleftrightarrow> distinct ps \<and> [] \<notin> set ps \<and> (\<forall>p \<in> set ps. \<forall>q \<in> set ps. \<not> strict_prefix_of p q)"

lemma al_put_fresh: "k \<notin> fst ` set xs \<Longrightarrow> al_put k v xs = xs @ [(k, v)]"
  by (induction xs) auto

lemma extract_entries_apart:
  assumes "list_all te_is_file ts" "\<forall>t \<in> set ts. list_all is_normal (te_path t)"
    and "apart (map fst files @ map te_path ts)"
  shows "extract_entries [] (map Inr ts) files = (Inr (), files @ map (\<lambda>t. (te_path t, te_data t)) ts)"
  using assms
proof (induction ts arbitrary: files)
  case (Cons t ts)
  have "te_path t \<notin> fst ` set files" "te_path t \<noteq> []" using Cons.prems(3) by (auto simp: apart_def)
  moreover have "\<not> list_ex (\<lambda>f. strict_prefix_of (te_path t) (fst f)) files" "\<not> list_ex (\<lambda>f. strict_prefix_of (fst f) (te_path t)) files"
    using Cons.prems(3) by (auto simp: apart_def list_ex_iff)
  ultimately have w: "write_path (te_path t) (te_data t) files = Inr (files @ [(te_path t, te_data t)])"
    by (simp add: write_path_def al_put_fresh)
  have "extract_entries [] (map Inr ts) (files @ [(te_path t, te_data t)]) =
      (Inr (), (files @ [(te_path t, te_data t)]) @ map (\<lambda>t. (te_path t, te_data t)) ts)"
    by (rule Cons.IH) (use Cons.prems in auto)
  then show ?case using Cons.prems w by (simp add: extract_entry_def)
qed simp

lemma append_file_Inr:
  assumes "append_file name src = Inr es"
  shows "\<exists>d. es = [\<lparr>te_path = name, te_is_file = True, te_data = d\<rparr>] \<and> (\<exists>n b. src = Inr (n, b) \<and> n \<le> length b \<and> d = take n b)"
  using assms by (auto simp: append_file_def append_exact_def append_bytes_def rbind_Inr split: if_splits)

lemma append_opt_Inr:
  assumes "append_opt name src = Inr es"
  shows "es = [] \<or> (\<exists>d. es = [\<lparr>te_path = name, te_is_file = True, te_data = d\<rparr>])"
  using assms append_file_Inr[of name] by (auto simp: append_opt_def split: option.splits)

lemma append_fallback_Inr:
  "append_fallback files = Inr es \<Longrightarrow>
     list_all te_is_file es \<and> map te_path es = map (\<lambda>f. [Normal ''fallback'', Normal (fst f)]) files"
proof (induction files arbitrary: es)
  case (Cons f files)
  obtain name src where f: "f = (name, src)" by (cases f)
  obtain e es' where e: "append_file [Normal ''fallback'', Normal name] src = Inr e" "append_fallback files = Inr es'" "es = e @ es'"
    using Cons.prems by (auto simp: f rbind_Inr)
  then show ?case using Cons.IH append_file_Inr[OF e(1)] by (auto simp: f)
qed simp

definition fixed_paths :: "component list list" where
  "fixed_paths = [[Normal ''meta.json''], [Normal ''hippo.db''], [Normal ''hippo.db.pagediff''],
     [Normal ''config'', Normal ''config.toml''], [Normal ''config'', Normal ''redact.toml''], [Normal ''enrichment-state.json'']]"

lemma strict_prefix_simps [simp]:
  "strict_prefix_of [] (y # ys)" "\<not> strict_prefix_of xs []"
  "strict_prefix_of (x # xs) (y # ys) \<longleftrightarrow> x = y \<and> strict_prefix_of xs ys"
  by (auto simp: strict_prefix_of_def)

lemma apart_build:
  assumes "distinct names" "distinct ps" "set ps \<subseteq> set fixed_paths"
  shows "apart (ps @ map (\<lambda>n. [Normal ''fallback'', Normal n]) names)"
proof -
  let ?fb = "map (\<lambda>n. [Normal ''fallback'', Normal n]) names"
  have fb: "p \<notin> set ?fb \<and> p \<noteq> [] \<and> (\<forall>q \<in> set ?fb. \<not> strict_prefix_of p q \<and> \<not> strict_prefix_of q p)
      \<and> (\<forall>q \<in> set fixed_paths. \<not> strict_prefix_of p q)" if "p \<in> set fixed_paths" for p
    using that unfolding fixed_paths_def by auto
  have d: "distinct ?fb" using assms(1) by (simp add: distinct_map inj_on_def)
  show ?thesis
    unfolding apart_def using fb assms(2,3) d by (auto simp: subset_iff)
qed

lemma build_tar_members:
  assumes "build_tar print meta inputs = Inr es" "ai_fallback inputs = Inr fs" "distinct (map fst fs)"
  obtains n bytes where "ai_db inputs = Inr (n, bytes)" "n \<le> length bytes" "list_all te_is_file es"
    "\<forall>t \<in> set es. list_all is_normal (te_path t)" "apart (map te_path es)"
    "map_of (map (\<lambda>t. (te_path t, te_data t)) es) [Normal ''meta.json''] = Some (print meta)"
    "map_of (map (\<lambda>t. (te_path t, te_data t)) es) (db_member (am_kind meta)) = Some (take n bytes)"
    "am_kind meta = Delta \<longrightarrow> map_of (map (\<lambda>t. (te_path t, te_data t)) es) [Normal ''hippo.db''] = None"
proof -
  obtain e2 e3 e4 e5 e6 where e: "append_file (db_member (am_kind meta)) (ai_db inputs) = Inr e2"
    "append_file [Normal ''config'', Normal ''config.toml''] (ai_config inputs) = Inr e3"
    "append_opt [Normal ''config'', Normal ''redact.toml''] (ai_redact inputs) = Inr e4"
    "append_opt [Normal ''enrichment-state.json''] (ai_state inputs) = Inr e5" "append_fallback fs = Inr e6"
    "es = [\<lparr>te_path = [Normal ''meta.json''], te_is_file = True, te_data = print meta\<rparr>] @ e2 @ e3 @ e4 @ e5 @ e6"
    using assms(1,2) by (auto simp: build_tar_def rbind_Inr append_bytes_def)
  note f2 = append_file_Inr[OF e(1)] and f3 = append_file_Inr[OF e(2)] and f4 = append_opt_Inr[OF e(3)]
    and f5 = append_opt_Inr[OF e(4)] and f6 = append_fallback_Inr[OF e(5)]
  obtain n bytes where db: "e2 = [\<lparr>te_path = db_member (am_kind meta), te_is_file = True, te_data = take n bytes\<rparr>]"
    "ai_db inputs = Inr (n, bytes)" "n \<le> length bytes"
    using f2 by blast
  obtain d3 where d3: "e3 = [\<lparr>te_path = [Normal ''config'', Normal ''config.toml''], te_is_file = True, te_data = d3\<rparr>]"
    using f3 by blast
  let ?ps = "map te_path ([\<lparr>te_path = [Normal ''meta.json''], te_is_file = True, te_data = print meta\<rparr>] @ e2 @ e3 @ e4 @ e5)"
  have files: "list_all te_is_file es"
    using f4 f5 f6 by (auto simp: e(6) db(1) d3)
  have ps: "map te_path es = ?ps @ map (\<lambda>n. [Normal ''fallback'', Normal n]) (map fst fs)"
    using f6 by (simp add: e(6))
  have "distinct ?ps" "set ?ps \<subseteq> set fixed_paths"
    using f4 f5 by (auto simp: db(1) d3 db_member_def fixed_paths_def)
  from apart_build[OF assms(3) this] have ap: "apart (map te_path es)" by (simp add: ps)
  have norm: "\<forall>p \<in> set (map te_path es). list_all is_normal p"
    unfolding ps using \<open>set ?ps \<subseteq> set fixed_paths\<close> by (auto simp: fixed_paths_def is_normal_def)
  have mem: "map_of (map (\<lambda>t. (te_path t, te_data t)) es) (db_member (am_kind meta)) = Some (take n bytes)"
    by (simp add: e(6) db(1) db_member_def)
  have meta: "map_of (map (\<lambda>t. (te_path t, te_data t)) es) [Normal ''meta.json''] = Some (print meta)"
    by (simp add: e(6))
  have "[Normal ''hippo.db''] \<notin> set (map te_path es)" if "am_kind meta = Delta"
    using that f4 f5 unfolding ps by (auto simp: db(1) d3 db_member_def)
  then have no_db: "am_kind meta = Delta \<longrightarrow> map_of (map (\<lambda>t. (te_path t, te_data t)) es) [Normal ''hippo.db''] = None"
    by (auto simp: map_of_eq_None_iff image_image)
  show thesis by (rule that[OF db(2,3) files _ ap meta mem no_db]) (use norm in simp)
qed

text \<open>
  The archive a run builds unpacks into an empty directory to its own meta and, under the name its kind
  calls for, the database entry exactly as long as the file was when it was opened.
\<close>

lemma built_unpacks:
  assumes "build_tar print meta inputs = Inr es" and "ai_fallback inputs = Inr fs" and "distinct (map fst fs)"
    and "parse (print meta) = Inr meta"
  shows "\<exists>files n bytes. ai_db inputs = Inr (n, bytes) \<and> n \<le> length bytes
    \<and> extract_artifact parse [] \<lparr>ar_entries = map Inr es, ar_tail = Inr ()\<rparr> [] = (Inr meta, files)
    \<and> map_of files (db_member (am_kind meta)) = Some (take n bytes)
    \<and> (am_kind meta = Delta \<longrightarrow> map_of files [Normal ''hippo.db''] = None)"
proof -
  obtain n bytes where m: "ai_db inputs = Inr (n, bytes)" "n \<le> length bytes" "list_all te_is_file es"
    "\<forall>t \<in> set es. list_all is_normal (te_path t)" "apart (map te_path es)"
    "map_of (map (\<lambda>t. (te_path t, te_data t)) es) [Normal ''meta.json''] = Some (print meta)"
    "map_of (map (\<lambda>t. (te_path t, te_data t)) es) (db_member (am_kind meta)) = Some (take n bytes)"
    "am_kind meta = Delta \<longrightarrow> map_of (map (\<lambda>t. (te_path t, te_data t)) es) [Normal ''hippo.db''] = None"
    using build_tar_members[OF assms(1-3)] by blast
  have "extract_entries [] (map Inr es) [] = (Inr (), map (\<lambda>t. (te_path t, te_data t)) es)"
    using extract_entries_apart[of es "[]"] m(3-5) by simp
  then show ?thesis
    using m by (intro exI[of _ "map (\<lambda>t. (te_path t, te_data t)) es"] exI[of _ n] exI[of _ bytes])
      (simp add: extract_artifact_def assms(4))
qed

subsection \<open>Properties\<close>

text \<open>
  C37 (unpack_confined): whatever the archive holds and whatever fails, unpacking it into an empty directory
  creates only files whose path goes down from that directory; and it succeeds only when every entry has
  such a path and the stream ends with its checks passed.
\<close>

theorem unpack_confined:
  assumes "extract_artifact parse faults a [] = (r, files)"
  shows "list_all (\<lambda>f. list_all is_normal (fst f)) files
    \<and> (\<not> isl r \<longrightarrow> ar_tail a = Inr () \<and> (\<exists>ts. ar_entries a = map Inr ts \<and> list_all (\<lambda>t. list_all is_normal (te_path t)) ts))"
proof -
  obtain r1 files1 where x: "extract_entries faults (ar_entries a) [] = (r1, files1)" by (metis prod.collapse)
  have files: "files1 = files" using assms x by (auto simp: extract_artifact_def split: sum.splits)
  have "list_all (\<lambda>f. list_all is_normal (fst f)) files"
    using extract_entries_inside[OF x] by (simp add: files list_all_iff)
  moreover have "\<exists>ts. ar_entries a = map Inr ts \<and> list_all (\<lambda>t. list_all is_normal (te_path t)) ts" if "\<not> isl r"
  proof -
    have "r1 = Inr ()" using assms x that by (cases r1) (auto simp: extract_artifact_def)
    then show ?thesis using extract_entries_ok x by simp
  qed
  moreover have "ar_tail a = Inr ()" if "\<not> isl r"
    using assms x that by (cases r1; cases "ar_tail a") (auto simp: extract_artifact_def)
  ultimately show ?thesis by blast
qed

definition example_meta :: ArtifactMeta where
  "example_meta = \<lparr>am_id = ''hippo-full-1'', am_kind = Full, am_label = None, am_created_ms = 1, am_base_id = None,
     am_hippo_version = ''0'', am_schema_version = 1, am_db_sha256 = [], am_row_counts = []\<rparr>"

lemma unpack_confined_witness:
  "\<exists>r files. extract_artifact (\<lambda>_. Inr example_meta) [] \<lparr>ar_entries = [Inr \<lparr>te_path = [Normal ''a''], te_is_file = True, te_data = ''x''\<rparr>,
       Inr \<lparr>te_path = [ParentDir, Normal ''b''], te_is_file = True, te_data = ''y''\<rparr>], ar_tail = Inr ()\<rparr> [] = (r, files)
     \<and> isl r \<and> list_all (\<lambda>f. list_all is_normal (fst f)) files"
proof -
  obtain r files where x: "extract_artifact (\<lambda>_. Inr example_meta) [] \<lparr>ar_entries = [Inr \<lparr>te_path = [Normal ''a''], te_is_file = True, te_data = ''x''\<rparr>,
       Inr \<lparr>te_path = [ParentDir, Normal ''b''], te_is_file = True, te_data = ''y''\<rparr>], ar_tail = Inr ()\<rparr> [] = (r, files)"
    by (metis prod.collapse)
  have "isl r" using x by (auto simp: extract_artifact_def extract_entry_def is_normal_def write_path_def)
  then show ?thesis using unpack_confined[OF x] x by blast
qed

end
