(* ===== verification/Restore.thy ===== *)
theory Restore
  imports BackupRun Artifact
begin

text \<open>
  \<open>hippo backup restore\<close> and \<open>verify\<close> (\<open>hippo-daemon/src/backup/restore.rs\<close>): choosing an artifact,
  rebuilding and checking its database, and replacing the live one while the services are stopped. The
  file system, with the outcome of every call that can fail, is that of \<open>Ship\<close>; the live database is its
  bytes with its \<open>-wal\<close> and \<open>-shm\<close> files. SQLite, decryption and the processes that hold the database open
  are parameters.
\<close>

subsection \<open>Environment and state\<close>

datatype pragma_result = PragmaMode string | PragmaBusy | PragmaError string

record sql_table =
  st_cols :: "string list"
  st_rows :: "(string \<times> json) list list"

record rs_env =
  rs_run :: run_env
  rs_config :: BackupConfig
  rs_identity :: "string + unit"
  rs_open :: "string \<Rightarrow> string + archive"
  rs_parse :: "string \<Rightarrow> string + ArtifactMeta"
  rs_quick_check :: "string \<Rightarrow> string + string"
  rs_user_version :: "string \<Rightarrow> string + int"
  rs_count :: "string \<Rightarrow> string \<Rightarrow> string + int"
  rs_tables :: "string \<Rightarrow> string \<Rightarrow> sql_table"
  rs_snapshot :: "string \<Rightarrow> string option \<Rightarrow> string + SnapshotInfo"
  rs_fold :: "string \<Rightarrow> string option \<Rightarrow> pragma_result \<times> string \<times> string option"
  rs_lock :: "string + unit"
  rs_ts :: string
  rs_now_ms :: int

datatype service_call = StopServices | StartServices

text \<open>
  \<open>r_db\<close>, \<open>r_wal\<close>, \<open>r_shm\<close> and \<open>r_staged\<close> are files of the data directory, \<open>r_work\<close> the saved files of the work
  directory, \<open>r_out\<close> the directory being filled. \<open>r_openers\<close> and \<open>r_writes\<close> list what the coming looks for
  other processes and the coming unpackings meet; \<open>r_services\<close> logs the calls to the service control.
\<close>

record rstate =
  r_world :: world
  r_status :: BackupStatus
  r_out :: tree
  r_db :: "string option"
  r_wal :: "string option"
  r_shm :: "string option"
  r_staged :: "string option"
  r_work :: "(string \<times> string) list"
  r_openers :: "(string + string list option) list"
  r_writes :: "string option list list"
  r_services :: "service_call list"

definition step :: "string \<Rightarrow> (rstate, unit) proc" where
  "step msg s = (case sys (r_world s) of
     (Some _, w) \<Rightarrow> (Inl msg, s\<lparr>r_world := w\<rparr>)
   | (None, w) \<Rightarrow> (Inr (), s\<lparr>r_world := w\<rparr>))"

subsection \<open>Choosing the artifact\<close>

datatype RestoreTarget = Latest | ById string | Before int

definition find_entry :: "Manifest \<Rightarrow> string \<Rightarrow> string + ManifestEntry" where
  "find_entry manifest i = (case find (\<lambda>e. me_id e = i \<and> valid_entry e) manifest of
     None \<Rightarrow> Inl (''no valid manifest entry for '' @ i) | Some e \<Rightarrow> Inr e)"

definition pre_restore :: "RestoreTarget \<Rightarrow> ManifestEntry \<Rightarrow> bool" where
  "pre_restore target e \<longleftrightarrow> target = Latest \<and> (case am_label (me_meta e) of
     None \<Rightarrow> False | Some l \<Rightarrow> starts_with l ''pre-restore'')"

definition select :: "Manifest \<Rightarrow> RestoreTarget \<Rightarrow> string + ManifestEntry" where
  "select manifest target =
     (let newest_before = (\<lambda>before. case max_by_key me_created_ms
             (filter (\<lambda>e. me_verified e \<and> valid_entry e \<and> me_created_ms e < before \<and> \<not> pre_restore target e) manifest) of
            None \<Rightarrow> Inl ''no verified backup matches'' | Some e \<Rightarrow> Inr e)
      in case target of ById i \<Rightarrow> find_entry manifest i | Latest \<Rightarrow> newest_before i64_max | Before t \<Rightarrow> newest_before t)"

subsection \<open>Rebuilding the database\<close>

definition unpack :: "rs_env \<Rightarrow> ManifestEntry \<Rightarrow> (rstate, ArtifactMeta \<times> tree) proc" where
  "unpack env entry s =
     (case sha256_of_dest (re_fs (rs_run env)) (me_file entry) (r_world s) of
        (Inl _, w) \<Rightarrow> (Inl (''read '' @ me_file entry), s\<lparr>r_world := w\<rparr>)
      | (Inr digest, w) \<Rightarrow>
         (if hex digest \<noteq> me_ciphertext_sha256 entry
          then (Inl (me_file entry @ '': ciphertext SHA-256 does not match the manifest''), s\<lparr>r_world := w\<rparr>)
          else (let faults = (case r_writes s of [] \<Rightarrow> [] | f # _ \<Rightarrow> f);
                    bytes = (case dest_file w (me_file entry) of None \<Rightarrow> [] | Some b \<Rightarrow> b)
                in case rs_open env bytes of
             Inl e \<Rightarrow> (Inl e, s\<lparr>r_world := w\<rparr>)
           | Inr a \<Rightarrow> (case extract_artifact (rs_parse env) faults a [] of (r, files) \<Rightarrow>
               (rbind r (\<lambda>meta. rbind (ensure (am_id meta = me_id entry) (me_file entry @ '' holds the meta of '' @ am_id meta))
                  (\<lambda>_. Inr (meta, files))),
                s\<lparr>r_world := w, r_writes := tl (r_writes s)\<rparr>)))))"

definition DB :: "component list" where "DB = [Normal ''hippo.db'']"
definition PAGEDIFF :: "component list" where "PAGEDIFF = [Normal ''hippo.db.pagediff'']"

definition read_file :: "component list \<Rightarrow> tree \<Rightarrow> string + string" where
  "read_file p files = (case map_of files p of None \<Rightarrow> Inl ''No such file or directory'' | Some b \<Rightarrow> Inr b)"

text \<open>The delta branch of \<open>materialize\<close>: the files with the rebuilt database in place of the diff.\<close>

definition apply_over_base :: "rs_env \<Rightarrow> Manifest \<Rightarrow> ArtifactMeta \<Rightarrow> tree \<Rightarrow> (rstate, tree) proc" where
  "apply_over_base env manifest meta files =
     p_bind (p_lift (case am_base_id meta of None \<Rightarrow> Inl ''delta has no base_id'' | Some b \<Rightarrow> Inr b)) (\<lambda>base_id.
     p_bind (p_lift (find_entry manifest base_id)) (\<lambda>base_entry.
     p_bind (unpack env base_entry) (\<lambda>(base, base_files).
     p_bind (p_lift (ensure (am_kind base = Full) (''delta base '' @ base_id @ '' is not a full backup''))) (\<lambda>_.
     p_bind (step ''create hippo.db'') (\<lambda>_.
     p_bind (p_lift (ensure (map_of files DB = None) ''create hippo.db'')) (\<lambda>_.
     p_bind (step ''apply'') (\<lambda>_.
     p_bind (p_lift (rbind (read_file DB base_files) (\<lambda>b. rbind (read_file PAGEDIFF files) (apply_diff b)))) (\<lambda>db.
     p_bind (step ''remove pagediff'') (\<lambda>_. p_ret (al_put DB db (al_del PAGEDIFF files)))))))))))"

definition table_name_ok :: "string \<Rightarrow> bool" where
  "table_name_ok t = list_all (\<lambda>b. is_ascii_alphanumeric b \<or> b = CHR ''_'') t"

fun check_counts :: "rs_env \<Rightarrow> string \<Rightarrow> (string \<times> int) list \<Rightarrow> string + unit" where
  "check_counts env db [] = Inr ()"
| "check_counts env db ((table, want) # ts) =
     rbind (ensure (table_name_ok table) ''bad table name in meta'') (\<lambda>_.
     rbind (rs_count env db table) (\<lambda>n.
     rbind (ensure (n = want) ''row count does not match meta'') (\<lambda>_. check_counts env db ts)))"

definition check_db :: "rs_env \<Rightarrow> string \<Rightarrow> ArtifactMeta \<Rightarrow> string + unit" where
  "check_db env db meta =
     rbind (ensure (hex (fe_sha (re_fs (rs_run env)) db) = am_db_sha256 meta)
              ''reconstructed database does not match its SHA-256 (corrupt artifact or wrong delta base)'') (\<lambda>_.
     rbind (rs_quick_check env db) (\<lambda>check.
     rbind (ensure (check = ''ok'') ''quick_check failed'') (\<lambda>_.
     rbind (rs_user_version env db) (\<lambda>version.
     rbind (ensure (version = am_schema_version meta) ''schema version does not match meta'') (\<lambda>_.
     check_counts env db (am_row_counts meta))))))"

text \<open>Moving the unpacked entries of the top level out, one rename each.\<close>

fun move_out :: "component list \<Rightarrow> tree \<Rightarrow> (rstate, unit) proc" where
  "move_out [] files = p_ret ()"
| "move_out (n # names) files =
     p_bind (step ''move'') (\<lambda>_. p_bind
       (\<lambda>s. (Inr (), s\<lparr>r_out := filter (\<lambda>f. hd (fst f) \<noteq> n) (r_out s) @ filter (\<lambda>f. hd (fst f) = n) files\<rparr>))
       (\<lambda>_. move_out names files))"

definition materialize :: "rs_env \<Rightarrow> Manifest \<Rightarrow> string \<Rightarrow> (rstate, string) proc" where
  "materialize env manifest i =
     p_bind (p_lift (find_entry manifest i)) (\<lambda>entry.
     p_bind (step ''create out_dir'') (\<lambda>_.
     p_bind (step ''create .materialize.tmp'') (\<lambda>_.
     p_bind (unpack env entry) (\<lambda>(meta, unpacked).
     p_bind (if am_kind meta = Delta then apply_over_base env manifest meta unpacked else p_ret unpacked) (\<lambda>files.
     p_bind (step ''read hippo.db'') (\<lambda>_.
     p_bind (p_lift (read_file DB files)) (\<lambda>db.
     p_bind (p_lift (check_db env db meta)) (\<lambda>_.
     p_bind (step ''read_dir'') (\<lambda>_.
     p_bind (move_out (remdups (map (hd \<circ> fst) files)) files) (\<lambda>_. p_ret db))))))))))"

subsection \<open>The loss report\<close>

definition int_col :: "(string \<times> json) list \<Rightarrow> string \<Rightarrow> int option" where
  "int_col r c = (case map_of r c of Some (JInt n) \<Rightarrow> Some n | _ \<Rightarrow> None)"

definition counts_row :: "string list \<Rightarrow> int option \<Rightarrow> int \<Rightarrow> (string \<times> json) list \<Rightarrow> bool" where
  "counts_row cols captured since_ms r \<longleftrightarrow> (case captured of None \<Rightarrow> False | Some t \<Rightarrow> t \<ge> since_ms)
     \<and> (''probe_tag'' \<in> set cols \<longrightarrow> map_of r ''probe_tag'' = Some JNull)"

definition table_loss :: "(string \<Rightarrow> sql_table) \<Rightarrow> int \<Rightarrow> string \<times> string \<Rightarrow> (string \<times> int option) list" where
  "table_loss tables since_ms st = (case st of (source, table) \<Rightarrow>
     (let t = tables table; cols = st_cols t in
      if cols = [] then []
      else [(source, if ''created_at'' \<in> set cols
              then Some (sql_count (\<lambda>r. counts_row cols (int_col r ''created_at'') since_ms r) (st_rows t)) else None)]))"

text \<open>\<open>MAX(created_at, end_time)\<close> is \<open>NULL\<close> when either is.\<close>

definition session_time :: "(string \<times> json) list \<Rightarrow> int option" where
  "session_time r = (case (int_col r ''created_at'', int_col r ''end_time'') of
     (Some a, Some b) \<Rightarrow> Some (max a b) | _ \<Rightarrow> None)"

definition harness_of :: "(string \<times> json) list \<Rightarrow> string" where
  "harness_of r = (case map_of r ''harness'' of Some (JStr h) \<Rightarrow> h | _ \<Rightarrow> [])"

definition loss_report :: "(string \<Rightarrow> sql_table) \<Rightarrow> int \<Rightarrow> (string \<times> int option) list" where
  "loss_report tables since_ms =
     (let out = concat (map (table_loss tables since_ms)
            [(''shell'', ''events''), (''browser'', ''browser_events''), (''knowledge'', ''knowledge_nodes'')]);
          t = tables ''agentic_sessions''; cols = st_cols t
      in if cols = [] then out
         else if \<not> list_all (\<lambda>c. c \<in> set cols) [''harness'', ''created_at'', ''end_time''] then out @ [(''agentic'', None)]
         else let rows = filter (\<lambda>r. counts_row cols (session_time r) since_ms r) (st_rows t)
              in out @ map (\<lambda>h. (''agentic:'' @ h, Some (sql_count (\<lambda>r. harness_of r = h) rows)))
                       (sort (remdups (map harness_of rows))))"

definition checked_loss_report :: "rs_env \<Rightarrow> string \<Rightarrow> int \<Rightarrow> string + (string \<times> int option) list" where
  "checked_loss_report env live since_ms =
     rbind (rs_quick_check env live) (\<lambda>check.
     rbind (ensure (check = ''ok'') ''quick_check'') (\<lambda>_. Inr (loss_report (rs_tables env live) since_ms)))"

subsection \<open>Saving what is replaced\<close>

definition put_work :: "string \<Rightarrow> string \<Rightarrow> rstate \<Rightarrow> rstate" where
  "put_work n bytes s = s\<lparr>r_work := al_put n bytes (r_work s)\<rparr>"

text \<open>Other processes with the files open; \<open>None\<close> when the check cannot run.\<close>

definition refuse_if_open :: "(rstate, unit) proc" where
  "refuse_if_open s =
     (let s' = s\<lparr>r_openers := tl (r_openers s)\<rparr> in
      case (case r_openers s of [] \<Rightarrow> Inr (Some []) | r # _ \<Rightarrow> r) of
        Inl e \<Rightarrow> (Inl e, s')
      | Inr None \<Rightarrow> (Inr (), s')
      | Inr (Some pids) \<Rightarrow> (ensure (pids = [])
          (''the live database is still open by process '' @ join '', '' pids @
           ''; close hippo-mcp clients (Claude Code sessions) and retry''), s'))"

definition copy_one :: "string \<Rightarrow> string option \<Rightarrow> (rstate, unit) proc" where
  "copy_one to bytes = (case bytes of None \<Rightarrow> p_ret ()
     | Some b \<Rightarrow> p_bind (step (''copy to '' @ to)) (\<lambda>_ s. (Inr (), put_work to b s)))"

definition copy_dir :: "rs_env \<Rightarrow> string" where
  "copy_dir env = ''pre-restore-'' @ rs_ts env"

fun copy_each :: "string \<Rightarrow> (string \<times> (rstate \<Rightarrow> string option)) list \<Rightarrow> (rstate, unit) proc" where
  "copy_each dir [] = p_ret ()"
| "copy_each dir ((suffix, get) # rest) =
     p_bind (\<lambda>s. copy_one (dir @ ''/hippo.db'' @ suffix) (get s) s) (\<lambda>_. copy_each dir rest)"

definition raw_copy :: "rs_env \<Rightarrow> (rstate, string) proc" where
  "raw_copy env =
     p_bind (step (''create '' @ copy_dir env)) (\<lambda>_.
     p_bind (\<lambda>s. (ensure (\<not> list_ex (\<lambda>f. starts_with (fst f) (copy_dir env @ ''/'')) (r_work s)) (''create '' @ copy_dir env), s)) (\<lambda>_.
     p_bind (copy_each (copy_dir env) [([], r_db), (''-wal'', r_wal), (''-shm'', r_shm)]) (\<lambda>_.
     p_bind (step (''sync '' @ copy_dir env)) (\<lambda>_. p_ret (copy_dir env)))))"

definition move_aside :: "string \<Rightarrow> (rstate \<Rightarrow> string option) \<Rightarrow> (rstate \<Rightarrow> rstate) \<Rightarrow> (rstate, unit) proc" where
  "move_aside to get clear s = (case get s of
     None \<Rightarrow> (Inr (), s)
   | Some b \<Rightarrow> p_bind (p_lift (ensure (map_of (r_work s) to = None) (to @ '' already exists; refusing to replace it''))) (\<lambda>_.
       p_bind (step (''move to '' @ to)) (\<lambda>_ s. (Inr (), clear (put_work to b s)))) s)"

definition move_sidecars_aside :: "rs_env \<Rightarrow> (rstate, unit) proc" where
  "move_sidecars_aside env =
     p_bind (move_aside (copy_dir env @ ''.db-wal'') r_wal (\<lambda>s. s\<lparr>r_wal := None\<rparr>)) (\<lambda>_.
             move_aside (copy_dir env @ ''.db-shm'') r_shm (\<lambda>s. s\<lparr>r_shm := None\<rparr>))"

text \<open>The checkpoint that the run lock's holder takes, over the live database as it is now.\<close>

definition checkpoint_holding_lock :: "rs_env \<Rightarrow> string \<Rightarrow> (rstate, RunReport) proc" where
  "checkpoint_holding_lock env label s =
     (if \<not> is_configured (rs_config env) then (Inr NotConfigured, s)
      else p_bind (step ''create work dir'') (\<lambda>_ s.
        let snap = (case r_db s of None \<Rightarrow> Inl ''open source'' | Some db \<Rightarrow> rs_snapshot env db (r_wal s)) in
        (case run_holding_lock ((rs_run env)\<lparr>re_snapshot := snap\<rparr>) (CheckpointRun label) (rs_now_ms env) False
                (r_status s) (r_world s) of
           (r, st, w) \<Rightarrow> (r, s\<lparr>r_status := st, r_world := w\<rparr>))) s)"

definition save_current :: "rs_env \<Rightarrow> (rstate, string) proc" where
  "save_current env s =
     (if \<not> is_configured (rs_config env)
      then (let saved = copy_dir env @ ''.db'' in
        p_bind (step ''pre-restore snapshot'') (\<lambda>_.
        p_bind (p_lift (case r_db s of None \<Rightarrow> Inl ''open source'' | Some db \<Rightarrow> rs_snapshot env db (r_wal s))) (\<lambda>info s.
          (Inr saved, put_work saved (si_db info) s))) s)
      else p_bind (checkpoint_holding_lock env ''pre-restore'') (\<lambda>r. p_lift (case r of
          Done i _ _ \<Rightarrow> Inr (''checkpoint '' @ i)
        | _ \<Rightarrow> Inl ''pre-restore checkpoint did not run'')) s)"

subsection \<open>Replacing the live database\<close>

text \<open>\<open>Inl\<close>: another connection has the database open; \<open>Inr (Inl e)\<close>: the fold itself failed.\<close>

definition fold_live_wal :: "rs_env \<Rightarrow> (rstate, string + unit) proc" where
  "fold_live_wal env s =
     (case step ''open'' s of
        (Inl e, s1) \<Rightarrow> (Inr (Inl e), s1)
      | (Inr _, s1) \<Rightarrow> (case r_db s1 of None \<Rightarrow> (Inr (Inl ''open''), s1)
        | Some db \<Rightarrow> (case rs_fold env db (r_wal s1) of (res, db', wal') \<Rightarrow>
           (let s2 = s1\<lparr>r_db := Some db', r_wal := wal'\<rparr> in
            case res of
              PragmaBusy \<Rightarrow> (Inl ''the live database is still open by another connection'', s2)
            | PragmaError e \<Rightarrow> (Inr (Inl (''fold the live WAL: '' @ e)), s2)
            | PragmaMode mode \<Rightarrow>
                if map to_ascii_lowercase mode \<noteq> ''delete'' then (Inl ''the live database is still open'', s2)
                else (case step ''close the live database'' s2 of
                  (Inl e, s3) \<Rightarrow> (Inr (Inl e), s3)
                | (Inr _, s3) \<Rightarrow>
                    if r_wal s3 \<noteq> None then (Inr (Inl ''the WAL still exists after folding it; refusing to swap''), s3)
                    else (case step ''remove hippo.db-shm'' s3 of
                        (Inl e, s4) \<Rightarrow> (Inr (Inl e), s4)
                      | (Inr _, s4) \<Rightarrow> (Inr (Inr ()), s4\<lparr>r_shm := None\<rparr>)))))))"

definition swap_in :: "string \<Rightarrow> string \<Rightarrow> (rstate, unit) proc" where
  "swap_in new previous =
     p_bind (step ''sync the restored database'') (\<lambda>_.
     p_bind (step ''remove hippo.db.restoring'') (\<lambda>_.
     p_bind (\<lambda>s. (Inr (), s\<lparr>r_staged := None\<rparr>)) (\<lambda>_.
     p_bind (step ''move to hippo.db.restoring'') (\<lambda>_.
     p_bind (\<lambda>s. (Inr (), s\<lparr>r_staged := Some new\<rparr>)) (\<lambda>_.
     p_bind (step ''rename over hippo.db'') (\<lambda>_.
     p_bind (\<lambda>s. (Inr (), s\<lparr>r_db := Some new, r_staged := None\<rparr>)) (\<lambda>_.
     step (''sync: hippo.db was already replaced by the restored backup; the previous database is '' @ previous))))))))"

definition prepare_live :: "rs_env \<Rightarrow> bool \<Rightarrow> (rstate, string) proc" where
  "prepare_live env damaged s =
     (if r_db s \<noteq> None \<and> damaged
      then p_bind refuse_if_open (\<lambda>_.
           p_bind (raw_copy env) (\<lambda>dir.
           p_bind (fold_live_wal env) (\<lambda>folded.
           p_bind (case folded of Inl _ \<Rightarrow> move_sidecars_aside env | Inr _ \<Rightarrow> p_ret ()) (\<lambda>_.
           p_ret (''the raw copy in '' @ dir))))) s
      else if r_db s \<noteq> None
      then p_bind refuse_if_open (\<lambda>_.
           p_bind (save_current env) (\<lambda>saved.
           p_bind refuse_if_open (\<lambda>_.
           p_bind (fold_live_wal env) (\<lambda>folded.
           p_bind (p_lift folded) (\<lambda>_. p_ret saved))))) s
      else p_bind (move_sidecars_aside env) (\<lambda>_. p_ret ''none (there was no live database)'') s)"

definition replace_live :: "rs_env \<Rightarrow> bool \<Rightarrow> string \<Rightarrow> (rstate, unit) proc" where
  "replace_live env damaged new = p_bind (prepare_live env damaged) (swap_in new)"

subsection \<open>restore\_with and verify\<close>

definition EXPECTED_VERSION :: int where "EXPECTED_VERSION = 29"

record restore_opts =
  ro_yes :: bool
  ro_extract :: "(string + bool) option"
  ro_destination :: string
  ro_line :: "string + string"

definition service :: "service_call \<Rightarrow> (rstate, unit) proc" where
  "service c s = step (case c of StopServices \<Rightarrow> ''stop the services'' | StartServices \<Rightarrow> ''start the services'')
     (s\<lparr>r_services := r_services s @ [c]\<rparr>)"

definition load_for_restore :: "(rstate, Manifest) proc" where
  "load_for_restore = p_bind (step ''read manifest.json'') (\<lambda>_ s. (case w_manifest (r_world s) of
     MfAbsent \<Rightarrow> (Inr [], s) | Mf m \<Rightarrow> (Inr m, s) | MfCorrupt \<Rightarrow> (Inl ''corrupt manifest'', s)))"

definition confirm :: "restore_opts \<Rightarrow> string + unit" where
  "confirm opts = (if ro_yes opts then Inr ()
     else rbind (ro_line opts) (\<lambda>line. ensure (trim line = ''yes'') ''restore aborted''))"

definition damaged_live :: "rs_env \<Rightarrow> ManifestEntry \<Rightarrow> rstate \<Rightarrow> bool" where
  "damaged_live env entry s = (case r_db s of None \<Rightarrow> False
     | Some live \<Rightarrow> isl (checked_loss_report env live (me_created_ms entry)))"

text \<open>Stopping, replacing and starting again, with the four ways the two results combine.\<close>

definition swap_services :: "rs_env \<Rightarrow> bool \<Rightarrow> string \<Rightarrow> string \<Rightarrow> (rstate, unit) proc" where
  "swap_services env damaged new i s =
     (case p_bind (service StopServices) (\<lambda>_. replace_live env damaged new) s of (swapped, s1) \<Rightarrow>
      (case service StartServices s1 of (started, s2) \<Rightarrow>
        ((case (swapped, started) of
            (Inr _, Inr _) \<Rightarrow> Inr ()
          | (Inr _, Inl e) \<Rightarrow> Inl (''restored '' @ i @ '', but restarting the services failed; run `mise run start`: '' @ e)
          | (Inl e, Inr _) \<Rightarrow> Inl e
          | (Inl e, Inl e') \<Rightarrow> Inl (''restore failed: '' @ e @ ''; restarting the services also failed: '' @ e')), s2)))"

definition restore_live :: "rs_env \<Rightarrow> restore_opts \<Rightarrow> Manifest \<Rightarrow> ManifestEntry \<Rightarrow> (rstate, unit) proc" where
  "restore_live env opts manifest entry s0 =
     (let i = me_id entry; damaged = damaged_live env entry s0 in
      p_bind (p_lift (ensure (am_schema_version (me_meta entry) \<le> EXPECTED_VERSION) (i @ '' has a newer schema version''))) (\<lambda>_.
      p_bind (p_lift (rs_identity env)) (\<lambda>_.
      p_bind (p_lift (confirm opts)) (\<lambda>_.
      p_bind (step ''create work dir'') (\<lambda>_.
      p_bind (p_lift (rs_lock env)) (\<lambda>_.
      p_bind (step ''create restore-tmp'') (\<lambda>_.
      p_bind (\<lambda>s. (Inr (), s\<lparr>r_out := []\<rparr>)) (\<lambda>_.
      p_bind (materialize env manifest i) (\<lambda>db.
      p_bind (p_lift (rs_user_version env db)) (\<lambda>version.
      p_bind (p_lift (ensure (version \<le> EXPECTED_VERSION) (i @ '' has a newer schema version''))) (\<lambda>_.
      swap_services env damaged db i)))))))))) s0)"

definition restore_with :: "rs_env \<Rightarrow> restore_opts \<Rightarrow> RestoreTarget \<Rightarrow> (rstate, unit) proc" where
  "restore_with env opts target =
     p_bind (p_lift (ensure (ro_destination opts \<noteq> []) ''no backup destination'')) (\<lambda>_.
     p_bind (\<lambda>s. (ensure (w_dest_kind (r_world s) = DirPresent) ''backup destination is not available'', s)) (\<lambda>_.
     p_bind load_for_restore (\<lambda>manifest.
     p_bind (p_lift (select manifest target)) (\<lambda>entry.
     case ro_extract opts of
       Some is_empty \<Rightarrow>
         p_bind (p_lift is_empty) (\<lambda>b.
         p_bind (p_lift (ensure b ''--extract directory is not empty'')) (\<lambda>_.
         p_bind (p_lift (rs_identity env)) (\<lambda>_.
         p_bind (materialize env manifest (me_id entry)) (\<lambda>_. p_ret ()))))
     | None \<Rightarrow> restore_live env opts manifest entry))))"

definition verify :: "rs_env \<Rightarrow> string option \<Rightarrow> (rstate, string) proc" where
  "verify env i =
     p_bind (p_lift (ensure (is_configured (rs_config env)) ''[backup] is not configured'')) (\<lambda>_.
     p_bind (\<lambda>s. (ensure (w_dest_kind (r_world s) = DirPresent) ''backup destination is not available'', s)) (\<lambda>_.
     p_bind (p_lift (rs_identity env)) (\<lambda>_.
     p_bind load_for_restore (\<lambda>manifest.
     p_bind (p_lift (select manifest (case i of None \<Rightarrow> Latest | Some x \<Rightarrow> ById x))) (\<lambda>entry.
     p_bind (step ''create work dir'') (\<lambda>_.
     p_bind (p_lift (rs_lock env)) (\<lambda>_.
     p_bind (step ''create verify-tmp'') (\<lambda>_.
     p_bind (\<lambda>s. case materialize env manifest (me_id entry) (s\<lparr>r_out := []\<rparr>) of (r, s') \<Rightarrow> (r, s'\<lparr>r_out := r_out s\<rparr>)) (\<lambda>_.
     p_bind (p_lift (rs_lock env)) (\<lambda>_.
     p_bind (step ''write status.json'') (\<lambda>_.
     p_bind (\<lambda>s. (Inr (), s\<lparr>r_status := (r_status s)\<lparr>bs_last_verify_ms := Some (rs_now_ms env)\<rparr>\<rparr>)) (\<lambda>_.
     p_ret (me_id entry)))))))))))))"

subsection \<open>Without faults\<close>

lemma step_quiet [simp]: "w_faults (r_world s) = [] \<Longrightarrow> step m s = (Inr (), s)"
  by (simp add: step_def sys_def)

lemma sha_quiet [simp]: "w_faults w = [] \<Longrightarrow> dest_file w n = Some c \<Longrightarrow> sha256_of_dest fe n w = (Inr (fe_sha fe c), w)"
  by (simp add: sha256_of_dest_def sys_def)

text \<open>The destination holds, under the entry's name and digest, an archive built from \<open>meta\<close> and \<open>bytes\<close>.\<close>

definition artifact_at :: "rs_env \<Rightarrow> (ArtifactMeta \<Rightarrow> string) \<Rightarrow> world \<Rightarrow> ManifestEntry \<Rightarrow> ArtifactMeta \<Rightarrow> string \<Rightarrow> bool" where
  "artifact_at env print w entry meta bytes \<longleftrightarrow> (\<exists>c es inputs fs.
     dest_file w (me_file entry) = Some c \<and> hex (fe_sha (re_fs (rs_run env)) c) = me_ciphertext_sha256 entry
     \<and> am_id meta = me_id entry \<and> build_tar print meta inputs = Inr es \<and> ai_db inputs = Inr (length bytes, bytes)
     \<and> ai_fallback inputs = Inr fs \<and> distinct (map fst fs)
     \<and> rs_open env c = Inr \<lparr>ar_entries = map Inr es, ar_tail = Inr ()\<rparr> \<and> rs_parse env (print meta) = Inr meta)"

lemma unpack_artifact:
  assumes "artifact_at env print (r_world s) entry meta bytes" "w_faults (r_world s) = []" "r_writes s = []"
  shows "\<exists>files. unpack env entry s = (Inr (meta, files), s) \<and> map_of files (db_member (am_kind meta)) = Some bytes
    \<and> (am_kind meta = Delta \<longrightarrow> map_of files DB = None)"
proof -
  obtain c es inputs fs where a: "dest_file (r_world s) (me_file entry) = Some c"
    "hex (fe_sha (re_fs (rs_run env)) c) = me_ciphertext_sha256 entry" "am_id meta = me_id entry"
    "build_tar print meta inputs = Inr es" "ai_db inputs = Inr (length bytes, bytes)" "ai_fallback inputs = Inr fs"
    "distinct (map fst fs)" "rs_open env c = Inr \<lparr>ar_entries = map Inr es, ar_tail = Inr ()\<rparr>" "rs_parse env (print meta) = Inr meta"
    using assms(1) unfolding artifact_at_def by blast
  obtain files where f: "extract_artifact (rs_parse env) [] \<lparr>ar_entries = map Inr es, ar_tail = Inr ()\<rparr> [] = (Inr meta, files)"
    "map_of files (db_member (am_kind meta)) = Some bytes" "am_kind meta = Delta \<longrightarrow> map_of files DB = None"
    using built_unpacks[OF a(4,6,7), of "rs_parse env"] a(5,9) unfolding DB_def by auto
  have "s\<lparr>r_world := r_world s, r_writes := []\<rparr> = s" using assms(3) by simp
  then show ?thesis
    using f a assms(2,3) by (intro exI[of _ files]) (simp add: unpack_def Let_def)
qed

lemma move_out_quiet: "w_faults (r_world s) = [] \<Longrightarrow> \<exists>s'. move_out ns files s = (Inr (), s')"
  by (induction ns arbitrary: s) simp_all

subsection \<open>A rebuilt database passed its checks\<close>

lemma unpack_meta: "unpack env entry s = (Inr (meta, files), s') \<Longrightarrow> am_id meta = me_id entry"
  by (auto simp: unpack_def Let_def rbind_Inr ensure_Inr split: sum.splits prod.splits if_splits)

lemma materialize_checked:
  assumes "materialize env m i s = (Inr db, s')"
  shows "\<exists>meta. am_id meta = i \<and> check_db env db meta = Inr ()"
  using assms unpack_meta by (fastforce simp: materialize_def p_bind_Inr find_entry_def find_Some_iff split: option.splits prod.splits)

subsection \<open>What a run stored, a restore rebuilds\<close>

text \<open>The base of a delta as the run found it: its page hashes are those of the database of a full artifact.\<close>

definition delta_base_at :: "rs_env \<Rightarrow> (ArtifactMeta \<Rightarrow> string) \<Rightarrow> world \<Rightarrow> Manifest \<Rightarrow> PageHashes \<Rightarrow> string \<Rightarrow> bool" where
  "delta_base_at env print w m b snap \<longleftrightarrow> (\<exists>be bmeta bdb.
     find_entry m (ph_base_id b) = Inr be \<and> artifact_at env print w be bmeta bdb \<and> am_kind bmeta = Full
     \<and> compute_hashes (fe_sha (re_fs (rs_run env))) bdb (ph_base_id b) = Inr b \<and> id_ok (ph_base_id b)
     \<and> length bdb < 2 ^ 64 \<and> length snap < 2 ^ 64
     \<and> distinct_digests (fe_sha (re_fs (rs_run env))) (ph_page_size b) bdb snap)"

lemma apply_over_base_quiet:
  assumes "w_faults (r_world s) = []" "r_writes s = []" "delta_base_at env print (r_world s) m b snap"
    and "am_base_id meta = Some (ph_base_id b)"
    and "write_diff (fe_sha (re_fs (rs_run env))) b snap = Inr (diff, summary)"
    and "map_of files PAGEDIFF = Some diff" "map_of files DB = None"
  shows "apply_over_base env m meta files s = (Inr (al_put DB snap (al_del PAGEDIFF files)), s)"
proof -
  obtain be bmeta bdb where b: "find_entry m (ph_base_id b) = Inr be" "artifact_at env print (r_world s) be bmeta bdb"
    "am_kind bmeta = Full" "compute_hashes (fe_sha (re_fs (rs_run env))) bdb (ph_base_id b) = Inr b" "id_ok (ph_base_id b)"
    "length bdb < 2 ^ 64" "length snap < 2 ^ 64" "distinct_digests (fe_sha (re_fs (rs_run env))) (ph_page_size b) bdb snap"
    using assms(3) unfolding delta_base_at_def by blast
  obtain bf where u: "unpack env be s = (Inr (bmeta, bf), s)" "map_of bf DB = Some bdb"
    using unpack_artifact[OF b(2) assms(1,2)] b(3) by (auto simp: DB_def db_member_def)
  have "apply_diff bdb diff = Inr snap"
    by (rule delta_rebuilds[OF b(4-7) assms(5) b(8)])
  then show ?thesis
    using assms b(1,3) u by (simp add: apply_over_base_def read_file_def)
qed

text \<open>
  C7 (backup_restores): with no failing call, restoring an artifact whose archive a run built, from a full
  snapshot or from the delta a run computes against a base that is still there, rebuilds the snapshot byte
  for byte, provided the checks hold of the snapshot itself and, for a delta, no page of the base has the
  digest of a different page at its place in the snapshot.
\<close>

theorem backup_restores:
  assumes "w_faults (r_world s) = []" and "r_writes s = []"
    and "find_entry m i = Inr entry" and "artifact_at env print (r_world s) entry meta bytes"
    and "db_entry (rs_run env) base (Some hashes) snap = Inr bytes"
    and "am_kind meta = Delta \<longleftrightarrow> base \<noteq> None" and "am_base_id meta = map_option ph_base_id base"
    and "\<And>b. base = Some b \<Longrightarrow> delta_base_at env print (r_world s) m b snap"
    and "check_db env snap meta = Inr ()"
  shows "fst (materialize env m i s) = Inr snap"
proof -
  obtain files where u: "unpack env entry s = (Inr (meta, files), s)" "map_of files (db_member (am_kind meta)) = Some bytes"
    "am_kind meta = Delta \<longrightarrow> map_of files DB = None"
    using unpack_artifact[OF assms(4,1,2)] by blast
  obtain files' where f: "(if am_kind meta = Delta then apply_over_base env m meta files else p_ret files) s = (Inr files', s)"
    "map_of files' DB = Some snap"
  proof (cases base)
    case None
    then show thesis using that[of files] u(2) assms(5,6) by (simp add: db_entry_def db_member_def DB_def)
  next
    case (Some b)
    obtain summary where w: "write_diff (fe_sha (re_fs (rs_run env))) b snap = Inr (bytes, summary)"
      using assms(5) by (auto simp: db_entry_def Some rbind_Inr ensure_Inr)
    have "apply_over_base env m meta files s = (Inr (al_put DB snap (al_del PAGEDIFF files)), s)"
      using u assms(6,7) Some
      by (intro apply_over_base_quiet[OF assms(1,2) assms(8)[OF Some] _ w]) (simp_all add: db_member_def PAGEDIFF_def)
    then show thesis using that assms(6) Some by simp
  qed
  obtain s' where "move_out (remdups (map (hd \<circ> fst) files')) files' s = (Inr (), s')"
    using move_out_quiet[OF assms(1)] by blast
  then show ?thesis
    using assms(1,3,9) u(1) f by (simp add: materialize_def read_file_def)
qed

subsection \<open>What a procedure leaves of the live files\<close>

definition stores :: "world \<Rightarrow> (string \<times> string) list \<times> manifest_file \<times> (string \<times> string) list \<times> (string \<times> ManifestEntry option) list" where
  "stores w = (w_dest w, w_manifest w, w_outbox w, w_sidecars w)"

definition data :: "rstate \<Rightarrow> (string option \<times> string option \<times> string option \<times> string option) \<times> (string \<times> string) list
    \<times> service_call list \<times> BackupStatus \<times> (string \<times> string) list \<times> manifest_file \<times> (string \<times> string) list \<times> (string \<times> ManifestEntry option) list" where
  "data s = ((r_db s, r_wal s, r_shm s, r_staged s), r_work s, r_services s, r_status s, stores (r_world s))"

lemma sys_stores [simp]: "stores (snd (sys w)) = stores w"
  by (auto simp: stores_def sys_def split: list.split option.split)

lemma step_state: "snd (step msg s) = s\<lparr>r_world := snd (sys (r_world s))\<rparr>"
  by (auto simp: step_def split: prod.split option.split)

lemma sha_state: "snd (sha256_of_dest fe n w) = snd (sys w)"
  by (auto simp: sha256_of_dest_def split: prod.split option.split)

definition quiet :: "(rstate, 'a) proc \<Rightarrow> bool" where
  "quiet m \<longleftrightarrow> (\<forall>s. data (snd (m s)) = data s)"

named_theorems quiet_intros \<open>procedures that leave the live files, the work directory and the services alone\<close>

lemma quietD: "quiet m \<Longrightarrow> m s = (r, t) \<Longrightarrow> data t = data s"
  unfolding quiet_def by (metis snd_conv)

lemma quiet_bind [quiet_intros]: "quiet m \<Longrightarrow> (\<And>x. quiet (f x)) \<Longrightarrow> quiet (p_bind m f)"
  unfolding quiet_def p_bind_def by (auto split: prod.split sum.split) (metis snd_conv)+

lemma quiet_simple [quiet_intros]:
  "quiet (p_ret x)" "quiet (p_lift r)" "quiet (step msg)" "quiet refuse_if_open" "quiet (\<lambda>s. (r' s, s))"
  by (auto simp: quiet_def step_state refuse_if_open_def Let_def data_def split: prod.split option.split sum.split)

lemma quiet_case [quiet_intros]:
  "(\<And>a b. x = (a, b) \<Longrightarrow> quiet (f a b)) \<Longrightarrow> quiet (case x of (a, b) \<Rightarrow> f a b)"
  by (cases x) simp

lemma quiet_unpack [quiet_intros]: "quiet (unpack env entry)"
proof -
  have "data (snd (unpack env entry s)) = data s" for s
  proof -
    obtain r w where x: "sha256_of_dest (re_fs (rs_run env)) (me_file entry) (r_world s) = (r, w)" by (metis prod.collapse)
    have "stores w = stores (r_world s)" using sha_state[of "re_fs (rs_run env)" "me_file entry" "r_world s"] by (simp add: x)
    then show ?thesis by (auto simp: unpack_def x Let_def data_def split: prod.split sum.split)
  qed
  then show ?thesis by (simp add: quiet_def)
qed

lemma quiet_move_out [quiet_intros]: "quiet (move_out ns files)"
proof (induction ns)
  case (Cons n ns)
  have "quiet (\<lambda>s. (Inr (), s\<lparr>r_out := filter (\<lambda>f. hd (fst f) \<noteq> n) (r_out s) @ filter (\<lambda>f. hd (fst f) = n) files\<rparr>))"
    by (simp add: quiet_def data_def)
  then show ?case using Cons by (auto intro!: quiet_intros)
qed (simp add: quiet_intros)

lemma quiet_materialize [quiet_intros]: "quiet (materialize env m i)"
  unfolding materialize_def apply_over_base_def by (auto intro!: quiet_intros)

text \<open>The database is as it was at \<open>s0\<close>, or has its WAL folded in.\<close>

definition db_kept :: "rs_env \<Rightarrow> rstate \<Rightarrow> rstate \<Rightarrow> bool" where
  "db_kept env s0 t \<longleftrightarrow> r_db t = r_db s0
     \<or> (\<exists>db. r_db s0 = Some db \<and> r_db t = Some (fst (snd (rs_fold env db (r_wal s0)))))"

definition copied :: "string \<Rightarrow> string option \<Rightarrow> rstate \<Rightarrow> bool" where
  "copied to bytes t \<longleftrightarrow> (case bytes of None \<Rightarrow> True | Some b \<Rightarrow> map_of (r_work t) to = Some b)"

text \<open>
  Where the database that is about to be replaced has been saved: byte copies of its files when it is
  damaged, a snapshot when backups are not configured, otherwise a checkpoint run over it that reported its
  artifact and whose outbox, destination and manifest are still as the run left them.
\<close>

definition checkpointed :: "rs_env \<Rightarrow> string \<Rightarrow> string option \<Rightarrow> rstate \<Rightarrow> bool" where
  "checkpointed env db wal t \<longleftrightarrow> (\<exists>st w i k sh w'.
     run_holding_lock ((rs_run env)\<lparr>re_snapshot := rs_snapshot env db wal\<rparr>) (CheckpointRun ''pre-restore'') (rs_now_ms env) False st w
       = (Inr (Done i k sh), r_status t, w') \<and> stores (r_world t) = stores w')"

definition saved_previous :: "rs_env \<Rightarrow> bool \<Rightarrow> rstate \<Rightarrow> rstate \<Rightarrow> bool" where
  "saved_previous env damaged s0 t \<longleftrightarrow> (case r_db s0 of None \<Rightarrow> True
   | Some db \<Rightarrow>
      if damaged then copied (copy_dir env @ ''/hippo.db'') (Some db) t
        \<and> copied (copy_dir env @ ''/hippo.db-wal'') (r_wal s0) t \<and> copied (copy_dir env @ ''/hippo.db-shm'') (r_shm s0) t
      else if \<not> is_configured (rs_config env)
      then (\<exists>info. rs_snapshot env db (r_wal s0) = Inr info \<and> copied (copy_dir env @ ''.db'') (Some (si_db info)) t)
      else checkpointed env db (r_wal s0) t)"

text \<open>Later steps only add files to the work directory.\<close>

definition grows :: "rstate \<Rightarrow> rstate \<Rightarrow> bool" where
  "grows s t \<longleftrightarrow> map_of (r_work s) \<subseteq>\<^sub>m map_of (r_work t) \<and> r_status t = r_status s
     \<and> stores (r_world t) = stores (r_world s) \<and> r_services t = r_services s"

lemma grows_trans: "grows a b \<Longrightarrow> grows b c \<Longrightarrow> grows a c"
  using map_le_trans by (auto simp: grows_def)

lemma grows_data: "data t = data s \<Longrightarrow> grows s t"
  by (simp add: grows_def data_def)

lemma copied_grows: "copied to b s \<Longrightarrow> grows s t \<Longrightarrow> copied to b t"
  by (auto simp: copied_def grows_def map_le_def dom_def split: option.splits)

lemma checkpointed_grows: "checkpointed env db wal s \<Longrightarrow> grows s t \<Longrightarrow> checkpointed env db wal t"
  unfolding checkpointed_def grows_def by metis

lemma saved_grows:
  assumes "saved_previous env damaged s0 s" "grows s t"
  shows "saved_previous env damaged s0 t"
proof (cases "r_db s0")
  case (Some db)
  then show ?thesis
    using assms copied_grows[OF _ assms(2)] checkpointed_grows[OF _ assms(2)]
    by (auto simp: saved_previous_def split: if_splits)
qed (simp add: saved_previous_def)

lemma put_work_grows: "map_of (r_work s) n = None \<or> map_of (r_work s) n = Some b \<Longrightarrow> grows s (put_work n b s)"
  by (auto simp: grows_def put_work_def map_le_def)

subsection \<open>The steps of the swap\<close>

lemma step_data: "step msg s = (r, t) \<Longrightarrow> data t = data s"
  using quiet_simple(3) by (rule quietD)

lemma move_aside_cases:
  assumes "move_aside to get clear s = (r, t)"
  obtains (none) "get s = None" "t = s" "r = Inr ()"
  | (failed) "isl r" "data t = data s"
  | (moved) b s1 where "data s1 = data s" "map_of (r_work s) to = None" "t = clear (put_work to b s1)" "r = Inr ()"
proof (cases "get s")
  case None
  then have "t = s \<and> r = Inr ()" using assms by (auto simp: move_aside_def)
  then show thesis using none None by blast
next
  case (Some b)
  show thesis
  proof (cases "map_of (r_work s) to = None")
    case True
    obtain r1 s1 where st: "step (''move to '' @ to) s = (r1, s1)" by (metis prod.collapse)
    note d = step_data[OF st]
    show thesis
    proof (cases r1)
      case (Inl e)
      then have "t = s1 \<and> isl r" using assms Some True st by (auto simp: move_aside_def)
      then show thesis using failed d by blast
    next
      case (Inr u)
      have "t = clear (put_work to b s1) \<and> r = Inr ()" using assms Some True st Inr by (auto simp: move_aside_def)
      then show thesis using moved d True by blast
    qed
  next
    case False
    then have "t = s \<and> isl r" using assms Some by (auto simp: move_aside_def ensure_def)
    then show thesis using failed by blast
  qed
qed

lemma move_wal_spec:
  assumes "move_aside to r_wal (\<lambda>s. s\<lparr>r_wal := None\<rparr>) s = (r, t)"
  shows "grows s t \<and> r_db t = r_db s \<and> r_shm t = r_shm s \<and> (\<not> isl r \<longrightarrow> r_wal t = None)"
  using assms
  by (cases rule: move_aside_cases) (auto simp: grows_def data_def put_work_def map_le_def)

lemma move_shm_spec:
  assumes "move_aside to r_shm (\<lambda>s. s\<lparr>r_shm := None\<rparr>) s = (r, t)"
  shows "grows s t \<and> r_db t = r_db s \<and> r_wal t = r_wal s \<and> (\<not> isl r \<longrightarrow> r_shm t = None)"
  using assms
  by (cases rule: move_aside_cases) (auto simp: grows_def data_def put_work_def map_le_def)

lemma move_sidecars_spec:
  assumes "move_sidecars_aside env s = (r, t)"
  shows "grows s t \<and> r_db t = r_db s \<and> (\<not> isl r \<longrightarrow> r_wal t = None \<and> r_shm t = None)"
  using assms unfolding move_sidecars_aside_def
proof (cases rule: p_bind_cases)
  case (err e)
  then show ?thesis using move_wal_spec by auto
next
  case (ok x s1)
  then show ?thesis using move_wal_spec[OF ok(1)] move_shm_spec[OF ok(2)] grows_trans by auto
qed

lemma fold_spec:
  assumes "fold_live_wal env s = (r, t)"
  shows "grows s t \<and> (r_db t = r_db s \<or> (\<exists>db. r_db s = Some db \<and> r_db t = Some (fst (snd (rs_fold env db (r_wal s))))))
    \<and> (r = Inr (Inr ()) \<longrightarrow> r_wal t = None \<and> r_shm t = None)"
proof -
  obtain r1 s1 where one: "step ''open'' s = (r1, s1)" by (metis prod.collapse)
  note d1 = step_data[OF one]
  show ?thesis
  proof (cases "isl r1 \<or> r_db s1 = None")
    case True
    then have "t = s1 \<and> isl (projr r) \<and> \<not> isl r"
      using assms one by (auto simp: fold_live_wal_def split: sum.splits)
    then show ?thesis using grows_data[OF d1] d1 by (auto simp: data_def)
  next
    case False
    then obtain db where db: "r_db s1 = Some db" and r1: "r1 = Inr ()" by (cases r1) auto
    obtain res db' wal' where f: "rs_fold env db (r_wal s1) = (res, db', wal')" by (metis prod.collapse)
    define s2 where "s2 = s1\<lparr>r_db := Some db', r_wal := wal'\<rparr>"
    have 2: "grows s s2" "r_db s2 = Some (fst (snd (rs_fold env db (r_wal s))))" "r_db s = Some db"
      using d1 db f by (auto simp: grows_def data_def s2_def stores_def)
    obtain r3 s3 where three: "step ''close the live database'' s2 = (r3, s3)" by (metis prod.collapse)
    obtain r4 s4 where four: "step ''remove hippo.db-shm'' s3 = (r4, s4)" by (metis prod.collapse)
    note d3 = step_data[OF three] and d4 = step_data[OF four]
    have g: "grows s s3" "grows s s4" "r_db s3 = r_db s2" "r_db s4 = r_db s2" "r_wal s4 = r_wal s3"
      using grows_trans[OF 2(1) grows_data[OF d3]] grows_trans[OF grows_trans[OF 2(1) grows_data[OF d3]] grows_data[OF d4]] d3 d4
      by (simp_all add: data_def)
    have "t = s2 \<or> t = s3 \<or> t = s4 \<or> (t = s4\<lparr>r_shm := None\<rparr> \<and> r_wal s3 = None)"
      "r = Inr (Inr ()) \<longrightarrow> t = s4\<lparr>r_shm := None\<rparr> \<and> r_wal s3 = None"
      using assms one r1 db f three four
      by (auto simp: fold_live_wal_def Let_def s2_def[symmetric] split: pragma_result.splits if_splits sum.splits)
    then show ?thesis using 2 g by (auto simp: grows_def)
  qed
qed

lemma copy_one_spec:
  assumes "copy_one to b s = (r, t)" "map_of (r_work s) to = None"
  shows "grows s t \<and> r_db t = r_db s \<and> r_wal t = r_wal s \<and> r_shm t = r_shm s \<and> (\<not> isl r \<longrightarrow> copied to b t)
    \<and> (\<forall>n. n \<noteq> to \<longrightarrow> map_of (r_work t) n = map_of (r_work s) n)"
proof (cases b)
  case None
  then show ?thesis using assms by (auto simp: copy_one_def grows_def copied_def)
next
  case (Some x)
  obtain r1 s1 where st: "step (''copy to '' @ to) s = (r1, s1)" by (metis prod.collapse)
  note d = step_data[OF st]
  show ?thesis
  proof (cases r1)
    case (Inl e)
    then show ?thesis using assms(1) Some st d grows_data[OF d] by (auto simp: copy_one_def data_def)
  next
    case (Inr u)
    have t: "t = put_work to x s1" "r = Inr ()" using assms(1) Some st Inr by (simp_all add: copy_one_def)
    have "grows s1 t" unfolding t using assms(2) d by (intro put_work_grows) (simp add: data_def)
    then show ?thesis using grows_trans[OF grows_data[OF d]] d by (simp add: t Some copied_def data_def put_work_def)
  qed
qed

lemma fresh_dir:
  assumes "\<not> list_ex (\<lambda>f. starts_with (fst f) (dir @ ''/'')) fs"
  shows "map_of fs (dir @ ''/'' @ n) = None"
  using assms by (force simp: list_ex_iff map_of_eq_None_iff starts_with_iff)

lemma copy_each_spec:
  assumes "copy_each dir cs s = (r, t)" "distinct (map fst cs)"
    and "\<And>suffix. suffix \<in> fst ` set cs \<Longrightarrow> map_of (r_work s) (dir @ ''/hippo.db'' @ suffix) = None"
    and "\<And>g. g \<in> snd ` set cs \<Longrightarrow> g = r_db \<or> g = r_wal \<or> g = r_shm"
  shows "grows s t \<and> r_db t = r_db s \<and> r_wal t = r_wal s \<and> r_shm t = r_shm s
    \<and> (\<not> isl r \<longrightarrow> (\<forall>(suffix, get) \<in> set cs. copied (dir @ ''/hippo.db'' @ suffix) (get s) t))"
  using assms
proof (induction cs arbitrary: s)
  case Nil
  then show ?case by (simp add: grows_def)
next
  case (Cons c cs)
  obtain suffix get where c: "c = (suffix, get)" by (cases c)
  let ?to = "dir @ ''/hippo.db'' @ suffix"
  from Cons.prems(1)[unfolded c copy_each.simps] show ?case
  proof (cases rule: p_bind_cases)
    case (err e)
    then show ?thesis using copy_one_spec[of ?to "get s" s] Cons.prems(3)[of suffix] by (simp add: c)
  next
    case (ok x s1)
    have 1: "grows s s1 \<and> r_db s1 = r_db s \<and> r_wal s1 = r_wal s \<and> r_shm s1 = r_shm s \<and> copied ?to (get s) s1
        \<and> (\<forall>n. n \<noteq> ?to \<longrightarrow> map_of (r_work s1) n = map_of (r_work s) n)"
      using copy_one_spec[OF ok(1)] Cons.prems(3)[of suffix] by (simp add: c)
    have 2: "grows s1 t \<and> r_db t = r_db s1 \<and> r_wal t = r_wal s1 \<and> r_shm t = r_shm s1
      \<and> (\<not> isl r \<longrightarrow> (\<forall>(suffix, get) \<in> set cs. copied (dir @ ''/hippo.db'' @ suffix) (get s1) t))"
    proof (rule Cons.IH[OF ok(2)])
      show "map_of (r_work s1) (dir @ ''/hippo.db'' @ suffix') = None" if "suffix' \<in> fst ` set cs" for suffix'
      proof -
        have "suffix' \<noteq> suffix" using that Cons.prems(2) c by auto
        then show ?thesis using 1 Cons.prems(3)[of suffix'] that by auto
      qed
      show "distinct (map fst cs)" using Cons.prems(2) by simp
      show "g = r_db \<or> g = r_wal \<or> g = r_shm" if "g \<in> snd ` set cs" for g using Cons.prems(4)[of g] that by simp
    qed
    have get: "g s1 = g s" if "(x, g) \<in> set cs" for x g
    proof -
      have "g \<in> snd ` set (c # cs)" using that by force
      then show ?thesis using Cons.prems(4)[of g] 1 by auto
    qed
    have later: "copied (dir @ ''/hippo.db'' @ x) (g s) t" if "\<not> isl r" "(x, g) \<in> set cs" for x g
    proof -
      have "copied (dir @ ''/hippo.db'' @ x) (g s1) t" using 2 that by blast
      then show ?thesis using get[OF that(2)] by simp
    qed
    have "copied ?to (get s) t" using copied_grows[of ?to "get s" s1 t] 1 2 by blast
    then have "\<forall>(suffix, get) \<in> set (c # cs). copied (dir @ ''/hippo.db'' @ suffix) (get s) t" if "\<not> isl r"
      using later[OF that] by (simp only: c list.set ball_simps prod.case) blast
    moreover have "grows s t" using 1 2 grows_trans by blast
    ultimately show ?thesis using 1 2 by simp
  qed
qed

lemma raw_copy_spec:
  assumes "raw_copy env s = (r, t)"
  shows "grows s t \<and> r_db t = r_db s \<and> r_wal t = r_wal s \<and> r_shm t = r_shm s
    \<and> (\<not> isl r \<longrightarrow> copied (copy_dir env @ ''/hippo.db'') (r_db s) t \<and> copied (copy_dir env @ ''/hippo.db-wal'') (r_wal s) t
         \<and> copied (copy_dir env @ ''/hippo.db-shm'') (r_shm s) t)"
  using assms unfolding raw_copy_def
proof (cases rule: p_bind_cases)
  case (err e)
  then show ?thesis using step_data[OF err(1)] grows_data by (auto simp: data_def)
next
  case (ok u s1)
  note d1 = step_data[OF ok(1)]
  from ok(2) show ?thesis
  proof (cases rule: p_bind_cases)
    case (err e)
    then show ?thesis using d1 grows_data by (auto simp: data_def)
  next
    case (ok u s1')
    then have fresh: "\<not> list_ex (\<lambda>f. starts_with (fst f) (copy_dir env @ ''/'')) (r_work s1)" and s1': "s1' = s1"
      by (auto simp: ensure_Inr)
    let ?cs = "[([], r_db), (''-wal'', r_wal), (''-shm'', r_shm)]"
    have n: "map_of (r_work s1) (copy_dir env @ ''/hippo.db'' @ suffix) = None" for suffix
      using fresh_dir[OF fresh, of "''hippo.db'' @ suffix"] by simp
    note each = copy_each_spec[of "copy_dir env" ?cs s1]
    from ok(2)[unfolded s1'] show ?thesis
    proof (cases rule: p_bind_cases)
      case (err e)
      then show ?thesis using each[OF err(1)] n d1 grows_trans[OF grows_data[OF d1]] by (auto simp: data_def)
    next
      case (ok u s2)
      have 2: "grows s1 s2 \<and> r_db s2 = r_db s1 \<and> r_wal s2 = r_wal s1 \<and> r_shm s2 = r_shm s1
        \<and> (\<forall>(suffix, get) \<in> set ?cs. copied (copy_dir env @ ''/hippo.db'' @ suffix) (get s1) s2)"
        using each[OF ok(1)] n by auto
      have g: "data t = data s2"
        using ok(2) by (cases rule: p_bind_cases) (use step_data in auto)
      show ?thesis
        using 2 g d1 grows_trans[OF grows_data[OF d1]] grows_trans grows_data[OF g] copied_grows[OF _ grows_data[OF g]]
        by (auto simp: data_def)
    qed
  qed
qed

lemma swap_in_spec:
  assumes "swap_in new previous s = (r, t)"
  shows "grows s t \<and> r_wal t = r_wal s \<and> r_shm t = r_shm s
    \<and> (r_db t = Some new \<or> isl r \<and> r_db t = r_db s) \<and> (r = Inr () \<longrightarrow> r_staged t = None)"
proof -
  define Z where "Z u \<longleftrightarrow> grows s u \<and> r_wal u = r_wal s \<and> r_shm u = r_shm s" for u
  have Z: "Z u \<Longrightarrow> step m u = (r', v) \<Longrightarrow> Z v \<and> r_db v = r_db u \<and> r_staged v = r_staged u" for m u r' v
    using step_data[of m u r' v] grows_trans[OF _ grows_data, of s u v] by (auto simp: Z_def data_def)
  have staged: "Z u \<Longrightarrow> Z (u\<lparr>r_staged := x\<rparr>)" "Z u \<Longrightarrow> Z (u\<lparr>r_db := d, r_staged := x\<rparr>)" for u x d
    by (auto simp: Z_def grows_def)
  have z0: "Z s" by (simp add: Z_def grows_def)
  obtain r1 s1 where 1: "step ''sync the restored database'' s = (r1, s1)" by (metis prod.collapse)
  note z1 = Z[OF z0 1]
  obtain r2 s2 where 2: "step ''remove hippo.db.restoring'' s1 = (r2, s2)" by (metis prod.collapse)
  note z2 = Z[OF conjunct1[OF z1] 2]
  obtain r3 s3 where 3: "step ''move to hippo.db.restoring'' (s2\<lparr>r_staged := None\<rparr>) = (r3, s3)" by (metis prod.collapse)
  note z3 = Z[OF staged(1)[OF conjunct1[OF z2]] 3]
  obtain r4 s4 where 4: "step ''rename over hippo.db'' (s3\<lparr>r_staged := Some new\<rparr>) = (r4, s4)" by (metis prod.collapse)
  note z4 = Z[OF staged(1)[OF conjunct1[OF z3]] 4]
  obtain r5 s5 where 5: "step (''sync: hippo.db was already replaced by the restored backup; the previous database is '' @ previous)
      (s4\<lparr>r_db := Some new, r_staged := None\<rparr>) = (r5, s5)" by (metis prod.collapse)
  note z5 = Z[OF staged(2)[OF conjunct1[OF z4]] 5]
  have "(t = s1 \<or> t = s2 \<or> t = s3 \<or> t = s4) \<and> isl r \<or> t = s5"
  proof (cases r1)
    case (Inl e)
    then show ?thesis using assms 1 by (auto simp: swap_in_def)
  next
    case r1: (Inr u1)
    show ?thesis
    proof (cases r2)
      case (Inl e)
      then show ?thesis using assms 1 r1 2 by (auto simp: swap_in_def)
    next
      case r2: (Inr u2)
      show ?thesis
      proof (cases r3)
        case (Inl e)
        then show ?thesis using assms 1 r1 2 r2 3 by (auto simp: swap_in_def)
      next
        case r3: (Inr u3)
        show ?thesis
        proof (cases r4)
          case (Inl e)
          then show ?thesis using assms 1 r1 2 r2 3 r3 4 by (auto simp: swap_in_def)
        next
          case r4: (Inr u4)
          then show ?thesis using assms 1 r1 2 r2 3 r3 4 5 by (simp add: swap_in_def)
        qed
      qed
    qed
  qed
  then show ?thesis using z1 z2 z3 z4 z5 by (auto simp: Z_def)
qed

lemma save_current_spec:
  assumes "save_current env s = (r, t)"
  shows "r_db t = r_db s \<and> r_wal t = r_wal s \<and> r_shm t = r_shm s \<and> r_services t = r_services s
    \<and> (\<not> isl r \<longrightarrow> saved_previous env False s t)"
proof (cases "is_configured (rs_config env)")
  case False
  obtain r1 s1 where one: "step ''pre-restore snapshot'' s = (r1, s1)" by (metis prod.collapse)
  note d = step_data[OF one]
  show ?thesis
  proof (cases "isl r1 \<or> r_db s = None \<or> isl (rs_snapshot env (the (r_db s)) (r_wal s))")
    case True
    then have "t = s1 \<and> isl r"
      using assms one False by (cases r1; cases "r_db s"; cases "rs_snapshot env (the (r_db s)) (r_wal s)") (auto simp: save_current_def Let_def)
    then show ?thesis using d by (simp add: data_def)
  next
    case ok: False
    then obtain db info where db: "r_db s = Some db" "rs_snapshot env db (r_wal s) = Inr info" "r1 = Inr ()"
      by (cases r1; cases "r_db s"; cases "rs_snapshot env (the (r_db s)) (r_wal s)") auto
    then have t: "t = put_work (copy_dir env @ ''.db'') (si_db info) s1"
      using assms one False by (auto simp: save_current_def Let_def)
    show ?thesis using d db False by (auto simp: t data_def put_work_def saved_previous_def copied_def)
  qed
next
  case True
  from assms have "p_bind (checkpoint_holding_lock env ''pre-restore'') (\<lambda>r. p_lift (case r of
          Done i _ _ \<Rightarrow> Inr (''checkpoint '' @ i) | _ \<Rightarrow> Inl ''pre-restore checkpoint did not run'')) s = (r, t)"
    using True by (simp add: save_current_def)
  then obtain r1 where c: "checkpoint_holding_lock env ''pre-restore'' s = (r1, t)"
    and r: "\<not> isl r \<longrightarrow> (\<exists>i k sh. r1 = Inr (Done i k sh))"
    by (cases rule: p_bind_cases) (auto split: RunReport.splits)
  obtain q s1 where one: "step ''create work dir'' s = (q, s1)" by (metis prod.collapse)
  note d = step_data[OF one]
  show ?thesis
  proof (cases q)
    case (Inl e)
    then have "t = s1 \<and> isl r1" using c one True by (auto simp: checkpoint_holding_lock_def)
    then show ?thesis using d r by (auto simp: data_def)
  next
    case (Inr u)
    let ?snap = "case r_db s1 of None \<Rightarrow> Inl ''open source'' | Some db \<Rightarrow> rs_snapshot env db (r_wal s1)"
    obtain r2 st w where run: "run_holding_lock ((rs_run env)\<lparr>re_snapshot := ?snap\<rparr>) (CheckpointRun ''pre-restore'') (rs_now_ms env) False
        (r_status s1) (r_world s1) = (r2, st, w)" by (metis prod.collapse)
    have t: "t = s1\<lparr>r_status := st, r_world := w\<rparr>" "r1 = r2"
      using c one True Inr run by (auto simp: checkpoint_holding_lock_def)
    have "saved_previous env False s t" if ok: "\<not> isl r"
    proof (cases "r_db s")
      case (Some db)
      obtain i k sh where "r2 = Inr (Done i k sh)" using r ok t(2) by blast
      then have "checkpointed env db (r_wal s) t"
        using run Some d unfolding checkpointed_def t(1) by (simp add: data_def) blast
      then show ?thesis using Some True by (simp add: saved_previous_def)
    qed (simp add: saved_previous_def)
    then show ?thesis using d by (simp add: t(1) data_def)
  qed
qed

text \<open>Everything before the rename: the database stays, and on success it is saved and has no WAL left.\<close>

lemma refuse_data: "refuse_if_open s = (r, t) \<Longrightarrow> data t = data s"
  using quiet_simple(4) by (rule quietD)

lemma prepare_live_spec:
  assumes "prepare_live env damaged s = (r, t)"
  shows "db_kept env s t \<and> r_services t = r_services s
    \<and> (\<not> isl r \<longrightarrow> saved_previous env damaged s t \<and> r_wal t = None \<and> r_shm t = None)"
proof -
  consider (damaged) "r_db s \<noteq> None" "damaged" | (sound) "r_db s \<noteq> None" "\<not> damaged" | (none) "r_db s = None" by blast
  then show ?thesis
  proof cases
    case damaged
    from assms have "p_bind refuse_if_open (\<lambda>_. p_bind (raw_copy env) (\<lambda>dir. p_bind (fold_live_wal env) (\<lambda>folded.
           p_bind (case folded of Inl _ \<Rightarrow> move_sidecars_aside env | Inr _ \<Rightarrow> p_ret ()) (\<lambda>_.
           p_ret (''the raw copy in '' @ dir))))) s = (r, t)"
      using damaged by (simp add: prepare_live_def)
    then show ?thesis
    proof (cases rule: p_bind_cases)
      case (err e)
      then show ?thesis using refuse_data[OF err(1)] by (simp add: db_kept_def data_def)
    next
      case (ok u s1)
      note d1 = refuse_data[OF ok(1)]
      from ok(2) show ?thesis
      proof (cases rule: p_bind_cases)
        case (err e)
        then show ?thesis using raw_copy_spec[OF err(1)] d1 by (simp add: db_kept_def data_def grows_def)
      next
        case (ok dir s2)
        note 2 = raw_copy_spec[OF ok(1)]
        have saved: "saved_previous env damaged s s2"
          using 2 d1 damaged by (cases "r_db s") (auto simp: saved_previous_def data_def)
        from ok(2) show ?thesis
        proof (cases rule: p_bind_cases)
          case (err e)
          note 3 = fold_spec[OF err(1)]
          then show ?thesis using 2 d1 err(2) by (auto simp: db_kept_def data_def grows_def)
        next
          case (ok folded s3)
          note 3 = fold_spec[OF ok(1)]
          have k3: "db_kept env s s3" "saved_previous env damaged s s3" "r_services s3 = r_services s"
            using 2 3 d1 saved_grows[OF saved] by (auto simp: db_kept_def data_def grows_def)
          show ?thesis
          proof (cases folded)
            case (Inr v)
            then have "t = s3" using ok(2) by simp
            then show ?thesis using k3 3 Inr by simp
          next
            case (Inl x)
            from ok(2)[unfolded Inl sum.case] show ?thesis
            proof (cases rule: p_bind_cases)
              case (err e)
              then show ?thesis using move_sidecars_spec[OF err(1)] k3 by (auto simp: db_kept_def grows_def)
            next
              case (ok v s4)
              then have "t = s4" by simp
              then show ?thesis using move_sidecars_spec[OF ok(1)] k3 saved_grows[OF k3(2)] by (auto simp: db_kept_def grows_def)
            qed
          qed
        qed
      qed
    qed
  next
    case sound
    from assms have "p_bind refuse_if_open (\<lambda>_. p_bind (save_current env) (\<lambda>saved. p_bind refuse_if_open (\<lambda>_.
        p_bind (fold_live_wal env) (\<lambda>folded. p_bind (p_lift folded) (\<lambda>_. p_ret saved))))) s = (r, t)"
      using sound by (simp add: prepare_live_def)
    then show ?thesis
    proof (cases rule: p_bind_cases)
      case (err e)
      then show ?thesis using refuse_data[OF err(1)] by (simp add: db_kept_def data_def)
    next
      case (ok u s1)
      note d1 = refuse_data[OF ok(1)]
      from ok(2) show ?thesis
      proof (cases rule: p_bind_cases)
        case (err e)
        then show ?thesis using save_current_spec[OF err(1)] d1 by (simp add: db_kept_def data_def)
      next
        case (ok saved s2)
        note 2 = save_current_spec[OF ok(1)]
        have saved: "saved_previous env damaged s s2"
          using 2 d1 sound by (auto simp: saved_previous_def data_def split: option.split)
        from ok(2) show ?thesis
        proof (cases rule: p_bind_cases)
          case (err e)
          then show ?thesis using refuse_data[OF err(1)] 2 d1 by (simp add: db_kept_def data_def)
        next
          case (ok v s3)
          note d3 = refuse_data[OF ok(1)]
          have s3: "saved_previous env damaged s s3" using saved grows_data[OF d3] by (rule saved_grows)
          from ok(2) show ?thesis
          proof (cases rule: p_bind_cases)
            case (err e)
            then show ?thesis using fold_spec[OF err(1)] d3 2 d1 by (auto simp: db_kept_def data_def grows_def)
          next
            case (ok folded s4)
            note 4 = fold_spec[OF ok(1)]
            have "t = s4 \<and> (\<not> isl r \<longrightarrow> folded = Inr ())" using ok(2) by (cases folded) auto
            then show ?thesis using 4 d3 2 d1 saved_grows[OF s3] by (auto simp: db_kept_def data_def grows_def)
          qed
        qed
      qed
    qed
  next
    case none
    from assms have "p_bind (move_sidecars_aside env) (\<lambda>_. p_ret ''none (there was no live database)'') s = (r, t)"
      using none by (simp add: prepare_live_def)
    then obtain q where "move_sidecars_aside env s = (q, t)" "\<not> isl r \<longrightarrow> \<not> isl q"
      by (cases rule: p_bind_cases) auto
    then show ?thesis using move_sidecars_spec none by (force simp: db_kept_def grows_def saved_previous_def)
  qed
qed

text \<open>The whole replacement: the new database in full with nothing beside it, or the old one.\<close>

definition replaced :: "rs_env \<Rightarrow> bool \<Rightarrow> rstate \<Rightarrow> string \<Rightarrow> rstate \<Rightarrow> bool" where
  "replaced env damaged s0 new t \<longleftrightarrow> r_db t = Some new \<and> r_wal t = None \<and> r_shm t = None \<and> saved_previous env damaged s0 t"

lemma replace_live_spec:
  assumes "replace_live env damaged new s = (r, t)"
  shows "r_services t = r_services s \<and> (replaced env damaged s new t \<or> isl r \<and> db_kept env s t)"
  using assms unfolding replace_live_def
proof (cases rule: p_bind_cases)
  case (err e)
  then show ?thesis using prepare_live_spec[OF err(1)] by simp
next
  case (ok previous s1)
  note 1 = prepare_live_spec[OF ok(1)] and 2 = swap_in_spec[OF ok(2)]
  have "saved_previous env damaged s t" using 1 2 saved_grows by auto
  then show ?thesis using 1 2 by (auto simp: replaced_def db_kept_def grows_def)
qed

lemma service_spec:
  assumes "service c s = (r, t)"
  shows "r_services t = r_services s @ [c] \<and> r_db t = r_db s \<and> r_wal t = r_wal s \<and> r_shm t = r_shm s \<and> r_work t = r_work s
    \<and> r_status t = r_status s \<and> stores (r_world t) = stores (r_world s)"
  using step_data[OF assms[unfolded service_def]] by (simp add: data_def)

lemma saved_same:
  assumes "r_work t = r_work s" "r_status t = r_status s" "stores (r_world t) = stores (r_world s)"
  shows "saved_previous env damaged s0 t = saved_previous env damaged s0 s"
  unfolding saved_previous_def checkpointed_def copied_def assms by (rule refl)

lemma saved_from:
  assumes "r_db s1 = r_db s" "r_wal s1 = r_wal s" "r_shm s1 = r_shm s"
  shows "saved_previous env damaged s1 t = saved_previous env damaged s t" "db_kept env s1 t = db_kept env s t"
  unfolding saved_previous_def db_kept_def assms by (rule refl)+

lemma swap_services_spec:
  assumes "swap_services env damaged new i s = (r, t)"
  shows "r_services t = r_services s @ [StopServices, StartServices]
    \<and> (replaced env damaged s new t \<or> isl r \<and> db_kept env s t)"
proof -
  obtain sw s1 where one: "p_bind (service StopServices) (\<lambda>_. replace_live env damaged new) s = (sw, s1)" by (metis prod.collapse)
  obtain st s2 where two: "service StartServices s1 = (st, s2)" by (metis prod.collapse)
  have t: "t = s2" "isl sw \<longrightarrow> isl r"
    using assms one two by (auto simp: swap_services_def split: sum.splits)
  note 2 = service_spec[OF two]
  have 1: "r_services s1 = r_services s @ [StopServices] \<and> (replaced env damaged s new s1 \<or> isl sw \<and> db_kept env s s1)"
    using one
  proof (cases rule: p_bind_cases)
    case (err e)
    then show ?thesis using service_spec[OF err(1)] by (simp add: db_kept_def)
  next
    case (ok u s0)
    note 0 = service_spec[OF ok(1)]
    then show ?thesis using replace_live_spec[OF ok(2)] saved_from[of s0 s] by (auto simp: replaced_def)
  qed
  have "saved_previous env damaged s t = saved_previous env damaged s s1"
    by (rule saved_same) (use 2 t in auto)
  then show ?thesis using 1 2 t by (auto simp: replaced_def db_kept_def)
qed

text \<open>Either the procedure fails and the live files are as \<open>D\<close> records them, or \<open>Q\<close> holds at its end.\<close>

definition ends_in :: "_ \<Rightarrow> (string + 'a \<Rightarrow> rstate \<Rightarrow> bool) \<Rightarrow> (rstate, 'a) proc \<Rightarrow> rstate \<Rightarrow> bool" where
  "ends_in D Q g s \<longleftrightarrow> (\<forall>r t. g s = (r, t) \<longrightarrow> isl r \<and> data t = D \<or> Q r t)"

lemma ends_in_bind:
  assumes "quiet m" "data s = D" "\<And>x s1. m s = (Inr x, s1) \<Longrightarrow> data s1 = D \<Longrightarrow> ends_in D Q (f x) s1"
  shows "ends_in D Q (p_bind m f) s"
  unfolding ends_in_def
proof (intro allI impI)
  fix r t assume "p_bind m f s = (r, t)"
  then show "isl r \<and> data t = D \<or> Q r t"
  proof (cases rule: p_bind_cases)
    case (err e)
    then show ?thesis using quietD[OF assms(1) err(1)] assms(2) by simp
  next
    case (ok x s1)
    then show ?thesis using quietD[OF assms(1) ok(1)] assms(2,3) unfolding ends_in_def by simp
  qed
qed

lemma quiet_load [quiet_intros]: "quiet load_for_restore"
proof -
  have "quiet (\<lambda>s. (case w_manifest (r_world s) of MfAbsent \<Rightarrow> (Inr [], s) | Mf m \<Rightarrow> (Inr m, s) | MfCorrupt \<Rightarrow> (Inl ''corrupt manifest'', s)))"
    by (simp add: quiet_def split: manifest_file.split)
  then show ?thesis unfolding load_for_restore_def by (intro quiet_intros)
qed

lemma disk_manifest_data: "data t = data s \<Longrightarrow> saved_manifest (r_world t) = saved_manifest (r_world s)"
  by (simp add: saved_manifest_def data_def stores_def)

lemma load_for_restore_Inr:
  assumes "load_for_restore s = (Inr m, s')"
  shows "m = saved_manifest (r_world s)"
proof -
  obtain u s1 where s1: "step ''read manifest.json'' s = (Inr u, s1)"
    "(case w_manifest (r_world s1) of MfAbsent \<Rightarrow> (Inr [], s1) | Mf m \<Rightarrow> (Inr m, s1) | MfCorrupt \<Rightarrow> (Inl ''corrupt manifest'', s1)) = (Inr m, s')"
    using assms unfolding load_for_restore_def p_bind_Inr by blast
  have "m = saved_manifest (r_world s1)" using s1(2) by (simp add: saved_manifest_def split: manifest_file.splits)
  then show ?thesis using disk_manifest_data[OF step_data[OF s1(1)]] by simp
qed

text \<open>A rebuilt database that passed every check against the meta of the selected artifact.\<close>

definition checked_restore :: "rs_env \<Rightarrow> Manifest \<Rightarrow> RestoreTarget \<Rightarrow> ManifestEntry \<Rightarrow> string \<Rightarrow> bool" where
  "checked_restore env m target entry db \<longleftrightarrow> select m target = Inr entry
     \<and> (\<exists>meta. am_id meta = me_id entry \<and> check_db env db meta = Inr ())"

lemma restore_live_spec:
  assumes "restore_live env opts m entry s = (r, t)"
  shows "isl r \<and> data t = data s
    \<or> r_services t = r_services s @ [StopServices, StartServices]
      \<and> (isl r \<and> db_kept env s t
         \<or> (\<exists>db meta. am_id meta = me_id entry \<and> check_db env db meta = Inr () \<and> replaced env (damaged_live env entry s) s db t))"
    (is "_ \<or> ?Q r t")
proof -
  have out: "quiet (\<lambda>s. (Inr (), s\<lparr>r_out := []\<rparr>))" by (simp add: quiet_def data_def)
  have last: "ends_in (data s) ?Q (swap_services env (damaged_live env entry s) db (me_id entry)) s1"
    if mat: "materialize env m (me_id entry) s0 = (Inr db, s0')" and same: "data s1 = data s" for db s0 s0' s1
    unfolding ends_in_def
  proof (intro allI impI disjI2)
    fix r t assume sw: "swap_services env (damaged_live env entry s) db (me_id entry) s1 = (r, t)"
    have sv: "saved_previous env k s1 t = saved_previous env k s t" "db_kept env s1 t = db_kept env s t" for k
      by (rule saved_from; use same in \<open>simp add: data_def\<close>)+
    obtain meta where meta: "am_id meta = me_id entry" "check_db env db meta = Inr ()"
      using materialize_checked[OF mat] by blast
    have rep: "replaced env k s1 db t = replaced env k s db t" for k
      unfolding replaced_def sv by (rule refl)
    have "r_services s1 = r_services s" using same by (simp add: data_def)
    with swap_services_spec[OF sw] have "r_services t = r_services s @ [StopServices, StartServices]"
      and sp: "replaced env (damaged_live env entry s) s db t \<or> isl r \<and> db_kept env s t"
      unfolding rep sv by simp_all
    from sp show "?Q r t"
    proof
      assume "replaced env (damaged_live env entry s) s db t"
      then show ?thesis using meta \<open>r_services t = _\<close> by blast
    next
      assume "isl r \<and> db_kept env s t"
      then show ?thesis using \<open>r_services t = _\<close> by blast
    qed
  qed
  have "ends_in (data s) ?Q (restore_live env opts m entry) s"
  proof -
    note q = quiet_simple(1-3) quiet_materialize out
    have "ends_in (data s) ?Q (p_bind (p_lift (ensure (am_schema_version (me_meta entry) \<le> EXPECTED_VERSION) (me_id entry @ '' has a newer schema version''))) (\<lambda>_.
      p_bind (p_lift (rs_identity env)) (\<lambda>_.
      p_bind (p_lift (confirm opts)) (\<lambda>_.
      p_bind (step ''create work dir'') (\<lambda>_.
      p_bind (p_lift (rs_lock env)) (\<lambda>_.
      p_bind (step ''create restore-tmp'') (\<lambda>_.
      p_bind (\<lambda>s. (Inr (), s\<lparr>r_out := []\<rparr>)) (\<lambda>_.
      p_bind (materialize env m (me_id entry)) (\<lambda>db.
      p_bind (p_lift (rs_user_version env db)) (\<lambda>version.
      p_bind (p_lift (ensure (version \<le> EXPECTED_VERSION) (me_id entry @ '' has a newer schema version''))) (\<lambda>_.
      swap_services env (damaged_live env entry s) db (me_id entry)))))))))))) s"
      by (rule ends_in_bind, rule q, rule refl, (rule ends_in_bind, rule q, assumption)+, rule last, assumption, assumption)
    then show ?thesis unfolding ends_in_def restore_live_def Let_def .
  qed
  then show ?thesis using assms unfolding ends_in_def by blast
qed


text \<open>
  \<open>--latest\<close> and \<open>--before\<close> pick an artifact that is verified and validly named, that is
  older than the limit and at least as new as every other that qualifies; a plain latest restore never
  picks the checkpoint that an earlier restore made, and it fails only when nothing qualifies.
\<close>

theorem latest_is_newest:
  assumes "\<And>j. target \<noteq> ById j"
    and "limit = (case target of Before t \<Rightarrow> t | _ \<Rightarrow> i64_max)"
    and "ok = (\<lambda>e. me_verified e \<and> valid_entry e \<and> me_created_ms e < limit \<and> \<not> pre_restore target e)"
  shows "case select m target of
      Inl _ \<Rightarrow> \<not> list_ex ok m
    | Inr e \<Rightarrow> e \<in> set m \<and> ok e \<and> list_all (\<lambda>x. ok x \<longrightarrow> me_created_ms x \<le> me_created_ms e) m"
proof -
  have sel: "select m target = (case max_by_key me_created_ms (filter ok m) of None \<Rightarrow> Inl ''no verified backup matches'' | Some e \<Rightarrow> Inr e)"
    using assms(1,2) unfolding select_def assms(3) by (cases target) auto
  show ?thesis
  proof (cases "max_by_key me_created_ms (filter ok m)")
    case None
    then show ?thesis by (simp add: sel filter_empty_conv list_ex_iff)
  next
    case (Some e)
    then show ?thesis using max_by_key_Some[OF Some] by (auto simp: sel list_all_iff)
  qed
qed

subsection \<open>One artifact, restored\<close>

definition stored_meta :: ArtifactMeta where
  "stored_meta = (me_meta (good_entry ''data''))\<lparr>am_db_sha256 := hex (pad_sha ''DB''), am_row_counts := [(''events'', 2)]\<rparr>"

definition stored_inputs :: artifact_inputs where
  "stored_inputs = \<lparr>ai_db = Inr (2, ''DB''), ai_config = Inr (1, ''x''), ai_redact = None, ai_state = None,
     ai_fallback = Inr [(''2026-01-01.jsonl'', Inr (1, ''e''))]\<rparr>"

definition stored_tar :: "tar_entry list" where
  "stored_tar = map (\<lambda>(p, d). \<lparr>te_path = map Normal p, te_is_file = True, te_data = d\<rparr>)
     [([''meta.json''], ''m''), ([''hippo.db''], ''DB''), ([''config'', ''config.toml''], ''x''), ([''fallback'', ''2026-01-01.jsonl''], ''e'')]"

definition example_rs_env :: rs_env where
  "example_rs_env = \<lparr>rs_run = good_env, rs_config = \<lparr>bc_destination = [], bc_recipient = []\<rparr>, rs_identity = Inr (),
     rs_open = (\<lambda>_. Inr \<lparr>ar_entries = map Inr stored_tar, ar_tail = Inr ()\<rparr>), rs_parse = (\<lambda>_. Inr stored_meta),
     rs_quick_check = (\<lambda>_. Inr ''ok''), rs_user_version = (\<lambda>_. Inr (am_schema_version stored_meta)), rs_count = (\<lambda>_ _. Inr 2),
     rs_tables = (\<lambda>_ _. \<lparr>st_cols = [], st_rows = []\<rparr>),
     rs_snapshot = (\<lambda>db wal. Inr \<lparr>si_db = db, si_page_size = 18, si_sha256 = pad_sha db, si_schema_version = 29, si_row_counts = []\<rparr>),
     rs_fold = (\<lambda>db wal. (PragmaMode ''delete'', db, None)), rs_lock = Inr (), rs_ts = ''20260101T000000Z'', rs_now_ms = 9\<rparr>"

definition example_rstate :: rstate where
  "example_rstate = \<lparr>r_world = good_world, r_status = b_status pending_state, r_out = [], r_db = Some ''old'', r_wal = Some ''w'',
     r_shm = None, r_staged = None, r_work = [], r_openers = [], r_writes = [], r_services = []\<rparr>"

lemma stored_find: "find_entry (saved_manifest good_world) ''hippo-full-1'' = Inr (good_entry ''data'')"
  by (simp add: find_entry_def saved_manifest_def good_world_def good_entry_def example_entry_def valid_entry_def ARTIFACT_EXT_def
      id_char_def is_ascii_alphanumeric_def is_digit_def is_lower_def is_upper_def)

lemma stored_artifact: "artifact_at example_rs_env (\<lambda>_. ''m'') (r_world example_rstate) (good_entry ''data'') stored_meta ''DB''"
  unfolding artifact_at_def
proof (intro exI conjI)
  show "dest_file (r_world example_rstate) (me_file (good_entry ''data'')) = Some ''data''"
    by (simp add: example_rstate_def good_world_def dest_file_def good_entry_def example_entry_def ARTIFACT_EXT_def)
  show "build_tar (\<lambda>_. ''m'') stored_meta stored_inputs = Inr stored_tar"
    by (simp add: build_tar_def stored_inputs_def stored_tar_def stored_meta_def good_entry_def example_entry_def append_bytes_def
        append_file_def append_exact_def append_opt_def db_member_def)
  show "ai_fallback stored_inputs = Inr [(''2026-01-01.jsonl'', Inr (1, ''e''))]" by (simp add: stored_inputs_def)
  show "distinct (map fst [(''2026-01-01.jsonl'', Inr (1, ''e'') :: string + open_file)])" by simp
qed (simp_all add: example_rs_env_def good_env_def good_entry_def stored_meta_def stored_inputs_def)

lemma stored_checks: "check_db example_rs_env ''DB'' stored_meta = Inr ()"
  by (simp add: check_db_def example_rs_env_def good_env_def stored_meta_def table_name_ok_def is_ascii_alphanumeric_def is_lower_def is_digit_def is_upper_def)

lemma backup_restores_witness:
  "fst (materialize example_rs_env (saved_manifest good_world) ''hippo-full-1'' example_rstate) = Inr ''DB''"
proof (rule backup_restores[OF _ _ stored_find stored_artifact, where base = None and hashes = example_hashes])
  show "check_db example_rs_env ''DB'' stored_meta = Inr ()" by (rule stored_checks)
qed (simp_all add: example_rstate_def good_world_def db_entry_def stored_meta_def good_entry_def example_entry_def)


lemma latest_is_newest_witness:
  "case select example_manifest Latest of
      Inl _ \<Rightarrow> \<not> list_ex (\<lambda>e. me_verified e \<and> valid_entry e \<and> me_created_ms e < i64_max \<and> \<not> pre_restore Latest e) example_manifest
    | Inr e \<Rightarrow> e \<in> set example_manifest"
  using latest_is_newest[of Latest i64_max, OF _ _ refl, of example_manifest] by (auto split: sum.splits)

end
