(* ===== verification/Framing.thy ===== *)
theory Framing
  imports RustText
begin

text \<open>
  The length-prefixed frames of the daemon's socket (\<open>hippo-daemon/src/framing.rs\<close>). A stream is the
  string of the bytes still to come before the peer closes it.
\<close>

definition MAX_FRAME_BYTES :: nat where
  [hippo_defs]: "MAX_FRAME_BYTES = 10 * 1024 * 1024"

text \<open>\<open>u32::to_be_bytes\<close> and \<open>from_be_bytes\<close>.\<close>

definition be32 :: "nat \<Rightarrow> string" where
  "be32 v = [char_of (v div 16777216), char_of (v div 65536), char_of (v div 256), char_of v]"

fun of_be :: "nat \<Rightarrow> string \<Rightarrow> nat" where
  "of_be acc [] = acc"
| "of_be acc (b # bs) = of_be (256 * acc + of_char b) bs"

text \<open>A stream that ends inside the length prefix counts as closed; one that ends inside the body fails.\<close>

definition read_frame :: "string \<Rightarrow> string + (string \<times> string) option" where
  "read_frame stream =
     (if length stream < 4 then Inr None
      else let len = of_be 0 (take 4 stream); body = drop 4 stream in
        if len > MAX_FRAME_BYTES then Inl ''frame too large''
        else if length body < len then Inl ''unexpected end of file''
        else Inr (Some (take len body, drop len body)))"

definition write_frame :: "string \<Rightarrow> string + string" where
  "write_frame data = (if length data < 2 ^ 32 then Inr (be32 (length data) @ data) else Inl ''frame too large'')"

lemma of_be32: "v < 2 ^ 32 \<Longrightarrow> of_be 0 (be32 v) = v"
proof -
  assume v: "v < 2 ^ 32"
  define a where "a = v div 256"
  define b where "b = a div 256"
  define c where "c = b div 256"
  have e: "v div 65536 = b" "v div 16777216 = c"
    by (simp_all add: a_def b_def c_def div_mult2_eq[symmetric])
  have "v = 256 * a + v mod 256" "a = 256 * b + a mod 256" "b = 256 * c + b mod 256"
    by (simp_all add: a_def b_def c_def)
  moreover have "c < 256"
    using v by (simp add: a_def b_def c_def div_mult2_eq[symmetric] less_mult_imp_div_less)
  ultimately show ?thesis
    by (simp add: be32_def e a_def[symmetric])
qed

lemma length_be32 [simp]: "length (be32 v) = 4"
  by (simp add: be32_def)

lemma read_frame_prefix:
  assumes "length data < 2 ^ 32"
  shows "read_frame (be32 (length data) @ data @ rest)
       = (if length data > MAX_FRAME_BYTES then Inl ''frame too large'' else Inr (Some (data, rest)))"
  using assms by (simp add: read_frame_def Let_def of_be32)

text \<open>Frames small enough for the reader form a codec, so a sequence of frames reads back as sent.\<close>

interpretation frame: codec "\<lambda>d. be32 (length d) @ d"
  "\<lambda>bs. case read_frame bs of Inr r \<Rightarrow> r | Inl _ \<Rightarrow> None" "\<lambda>d. length d \<le> MAX_FRAME_BYTES"
  by unfold_locales (simp add: read_frame_prefix hippo_defs)

subsection \<open>Properties\<close>

text \<open>
  A frame of at most 10 MiB is read back with the rest of the stream untouched; a
  larger one that the writer still accepts is refused by every reader.
\<close>

theorem frame_limits:
  assumes "write_frame data = Inr bytes"
  shows "read_frame (bytes @ rest)
       = (if length data \<le> MAX_FRAME_BYTES then Inr (Some (data, rest)) else Inl ''frame too large'')"
  using assms read_frame_prefix[of data rest] by (auto simp: write_frame_def not_le split: if_splits)

lemma frame_limits_witness:
  "\<exists>bytes. write_frame ''ping'' = Inr bytes \<and> read_frame (bytes @ ''tail'') = Inr (Some (''ping'', ''tail''))"
proof -
  have w: "write_frame ''ping'' = Inr (be32 (length ''ping'') @ ''ping'')" by (simp only: write_frame_def) simp
  show ?thesis using frame_limits[OF w, of "''tail''"] w by (simp add: hippo_defs)
qed

end
