(* ===== verification/SegmentUsage.thy ===== *)
theory SegmentUsage
  imports Prelude "HOL-Library.Multiset"
begin

text \<open>
  Model, effort and token accounting of one session segment
  (\<open>hippo-daemon/src/segment_usage.rs\<close>). Token counts are \<open>i64\<close> and far below its bound. The
  map by message id keeps the order of first insertion; only sums over it are observed.
\<close>

record UsageTotals =
  ut_input_tokens :: int
  ut_output_tokens :: int
  ut_cache_read_tokens :: int
  ut_cache_creation_tokens :: int

definition no_usage :: UsageTotals where
  "no_usage = \<lparr>ut_input_tokens = 0, ut_output_tokens = 0, ut_cache_read_tokens = 0, ut_cache_creation_tokens = 0\<rparr>"

definition usage_add :: "UsageTotals \<Rightarrow> UsageTotals \<Rightarrow> UsageTotals" where
  "usage_add a b = \<lparr>ut_input_tokens = ut_input_tokens a + ut_input_tokens b,
     ut_output_tokens = ut_output_tokens a + ut_output_tokens b,
     ut_cache_read_tokens = ut_cache_read_tokens a + ut_cache_read_tokens b,
     ut_cache_creation_tokens = ut_cache_creation_tokens a + ut_cache_creation_tokens b\<rparr>"

definition field_max :: "UsageTotals \<Rightarrow> UsageTotals \<Rightarrow> UsageTotals" where
  "field_max a b = \<lparr>ut_input_tokens = max (ut_input_tokens a) (ut_input_tokens b),
     ut_output_tokens = max (ut_output_tokens a) (ut_output_tokens b),
     ut_cache_read_tokens = max (ut_cache_read_tokens a) (ut_cache_read_tokens b),
     ut_cache_creation_tokens = max (ut_cache_creation_tokens a) (ut_cache_creation_tokens b)\<rparr>"

subsection \<open>Tally\<close>

type_synonym Tally = "(string \<times> nat) list"

fun tally_record :: "string \<Rightarrow> Tally \<Rightarrow> Tally" where
  "tally_record v [] = [(v, 1)]"
| "tally_record v ((w, n) # r) = (if w = v then (w, n + 1) # r else (w, n) # tally_record v r)"

fun tally_pick :: "(string \<times> nat) option \<Rightarrow> string \<times> nat \<Rightarrow> (string \<times> nat) option" where
  "tally_pick (Some b) cur = (if snd b \<ge> snd cur then Some b else Some cur)"
| "tally_pick None cur = Some cur"

definition tally_winner :: "Tally \<Rightarrow> string option" where
  "tally_winner t = map_option fst (foldl tally_pick None t)"

subsection \<open>SegmentUsage\<close>

record SegmentUsage =
  su_unkeyed :: UsageTotals
  su_by_message_id :: "(string \<times> UsageTotals) list"
  su_models :: Tally
  su_requested_models :: Tally
  su_efforts :: Tally

definition new_usage :: SegmentUsage where
  "new_usage = \<lparr>su_unkeyed = no_usage, su_by_message_id = [], su_models = [], su_requested_models = [], su_efforts = []\<rparr>"

definition usage_totals :: "SegmentUsage \<Rightarrow> UsageTotals" where
  "usage_totals u = foldl usage_add (su_unkeyed u) (map snd (su_by_message_id u))"

definition token_count :: "SegmentUsage \<Rightarrow> int" where
  "token_count u = (let t = usage_totals u in ut_input_tokens t + ut_output_tokens t)"

definition usage_model :: "SegmentUsage \<Rightarrow> string option" where
  "usage_model u = tally_winner (su_models u)"
definition usage_requested_model :: "SegmentUsage \<Rightarrow> string option" where
  "usage_requested_model u = tally_winner (su_requested_models u)"
definition usage_effort :: "SegmentUsage \<Rightarrow> string option" where
  "usage_effort u = tally_winner (su_efforts u)"

definition observe_model :: "string \<Rightarrow> SegmentUsage \<Rightarrow> SegmentUsage" where
  "observe_model v u = (if v \<noteq> ''<synthetic>'' then u\<lparr>su_models := tally_record v (su_models u)\<rparr> else u)"
definition observe_requested_model :: "string \<Rightarrow> SegmentUsage \<Rightarrow> SegmentUsage" where
  "observe_requested_model v u = u\<lparr>su_requested_models := tally_record v (su_requested_models u)\<rparr>"
definition observe_effort :: "string \<Rightarrow> SegmentUsage \<Rightarrow> SegmentUsage" where
  "observe_effort v u = u\<lparr>su_efforts := tally_record v (su_efforts u)\<rparr>"

text \<open>\<open>entry(id).or_default().field_max(usage)\<close>.\<close>

definition record_keyed :: "string \<Rightarrow> UsageTotals \<Rightarrow> (string \<times> UsageTotals) list \<Rightarrow> (string \<times> UsageTotals) list" where
  "record_keyed i usage m =
     al_put i (field_max (case map_of m i of None \<Rightarrow> no_usage | Some u \<Rightarrow> u) usage) m"

definition record_message :: "string option \<Rightarrow> UsageTotals \<Rightarrow> SegmentUsage \<Rightarrow> SegmentUsage" where
  "record_message message_id usage u = (case message_id of
     Some i \<Rightarrow> u\<lparr>su_by_message_id := record_keyed i usage (su_by_message_id u)\<rparr>
   | None \<Rightarrow> u\<lparr>su_unkeyed := usage_add (su_unkeyed u) usage\<rparr>)"

definition add_usage :: "UsageTotals \<Rightarrow> SegmentUsage \<Rightarrow> SegmentUsage" where
  "add_usage usage u = u\<lparr>su_unkeyed := usage_add (su_unkeyed u) usage\<rparr>"

subsection \<open>The algebra of usage\<close>

lemma usage_add_comm: "usage_add a b = usage_add b a"
  by (simp add: usage_add_def add.commute)

lemma usage_add_assoc: "usage_add (usage_add a b) c = usage_add a (usage_add b c)"
  by (simp add: usage_add_def)

lemma usage_add_left_comm: "usage_add a (usage_add b c) = usage_add b (usage_add a c)"
  by (simp add: usage_add_def)

lemma usage_add_zero [simp]: "usage_add no_usage a = a" "usage_add a no_usage = a"
  by (simp_all add: usage_add_def no_usage_def)

lemmas usage_ac = usage_add_comm usage_add_assoc usage_add_left_comm

lemma field_max_idem [simp]: "field_max (field_max a b) b = field_max a b"
  by (simp add: field_max_def)

lemma field_max_swap: "field_max (field_max a b) c = field_max (field_max a c) b"
  by (simp add: field_max_def max.commute max.left_commute)

definition usage_sum :: "UsageTotals list \<Rightarrow> UsageTotals" where
  "usage_sum us = foldr usage_add us no_usage"

lemma usage_sum_simps [simp]:
  "usage_sum [] = no_usage"
  "usage_sum (u # us) = usage_add u (usage_sum us)"
  "usage_sum (us @ vs) = usage_add (usage_sum us) (usage_sum vs)"
proof -
  show "usage_sum [] = no_usage" "usage_sum (u # us) = usage_add u (usage_sum us)"
    by (simp_all add: usage_sum_def)
  show "usage_sum (us @ vs) = usage_add (usage_sum us) (usage_sum vs)"
    by (induction us) (simp_all add: usage_sum_def usage_add_assoc)
qed

lemma foldl_usage_add: "foldl usage_add a us = usage_add a (usage_sum us)"
  by (induction us arbitrary: a) (simp_all add: usage_add_assoc)

lemma usage_totals_sum: "usage_totals u = usage_add (su_unkeyed u) (usage_sum (map snd (su_by_message_id u)))"
  by (simp add: usage_totals_def foldl_usage_add)

lemma usage_sum_mset: "mset us = mset vs \<Longrightarrow> usage_sum us = usage_sum vs"
proof -
  assume m: "mset us = mset vs"
  have "fold usage_add us no_usage = fold usage_add vs no_usage"
    by (rule fold_multiset_equiv[THEN fun_cong, OF _ m]) (simp add: fun_eq_iff usage_add_left_comm)
  moreover have "usage_sum ws = fold usage_add ws no_usage" for ws
    unfolding usage_sum_def by (rule foldr_fold[THEN fun_cong]) (simp add: fun_eq_iff usage_add_left_comm)
  ultimately show ?thesis by simp
qed

subsection \<open>What the totals depend on\<close>

text \<open>The observable part: the unkeyed sum and the map by id.\<close>

type_synonym usage_abs = "UsageTotals \<times> (string \<Rightarrow> UsageTotals option)"

definition usage_abs :: "SegmentUsage \<Rightarrow> usage_abs" where
  "usage_abs u = (su_unkeyed u, map_of (su_by_message_id u))"

definition abs_record :: "string option \<times> UsageTotals \<Rightarrow> usage_abs \<Rightarrow> usage_abs" where
  "abs_record r a = (case fst r of
     None \<Rightarrow> (usage_add (fst a) (snd r), snd a)
   | Some i \<Rightarrow> (fst a, (snd a)(i \<mapsto> field_max (case snd a i of None \<Rightarrow> no_usage | Some u \<Rightarrow> u) (snd r))))"

definition keys_ok :: "SegmentUsage \<Rightarrow> bool" where
  "keys_ok u = distinct (map fst (su_by_message_id u))"

definition record_all :: "(string option \<times> UsageTotals) list \<Rightarrow> SegmentUsage \<Rightarrow> SegmentUsage" where
  "record_all rs u = foldl (\<lambda>u r. record_message (fst r) (snd r) u) u rs"

lemma record_message_abs: "usage_abs (record_message i x u) = abs_record (i, x) (usage_abs u)"
  by (auto simp: record_message_def usage_abs_def abs_record_def record_keyed_def split: option.split)

lemma record_message_keys: "keys_ok u \<Longrightarrow> keys_ok (record_message i x u)"
  by (auto simp: record_message_def keys_ok_def record_keyed_def distinct_al_put split: option.split)

interpretation usage_run: invariant_run "\<lambda>u r. record_message (fst r) (snd r) u" keys_ok
  by unfold_locales (rule record_message_keys)

lemma record_all_keys: "keys_ok u \<Longrightarrow> keys_ok (record_all rs u)"
  unfolding record_all_def by (rule usage_run.run_inv)

lemma record_all_abs: "usage_abs (record_all rs u) = fold abs_record rs (usage_abs u)"
  by (induction rs arbitrary: u) (simp_all add: record_all_def record_message_abs)

lemma abs_record_commute: "abs_record r (abs_record q a) = abs_record q (abs_record r a)"
  by (cases a; cases r; cases q)
    (auto simp: abs_record_def usage_ac field_max_swap fun_upd_twist split: option.splits)

lemma totals_abs:
  assumes "usage_abs u = usage_abs v" and "keys_ok u" and "keys_ok v"
  shows "usage_totals u = usage_totals v"
proof -
  have "set (su_by_message_id u) = set (su_by_message_id v)"
    using assms map_of_inject_set[of "su_by_message_id u" "su_by_message_id v"]
    by (simp add: usage_abs_def keys_ok_def)
  moreover have "distinct (su_by_message_id u)" "distinct (su_by_message_id v)"
    using assms(2,3) by (simp_all add: keys_ok_def distinct_map)
  ultimately have "mset (su_by_message_id u) = mset (su_by_message_id v)"
    by (simp add: set_eq_iff_mset_eq_distinct)
  then have "usage_sum (map snd (su_by_message_id u)) = usage_sum (map snd (su_by_message_id v))"
    by (intro usage_sum_mset) (simp only: mset_map)
  then show ?thesis
    using assms(1) by (simp add: usage_totals_sum usage_abs_def)
qed

subsection \<open>What a tally reports\<close>

text \<open>The values of a list in the order of their first occurrences.\<close>

definition firsts :: "string list \<Rightarrow> string list" where
  "firsts vs = rev (remdups (rev vs))"

lemma firsts_snoc: "firsts (vs @ [v]) = (if v \<in> set vs then firsts vs else firsts vs @ [v])"
  by (simp add: firsts_def)

lemma firsts_set [simp]: "set (firsts vs) = set vs" "distinct (firsts vs)"
  by (simp_all add: firsts_def)

lemma tally_record_map:
  "distinct ks \<Longrightarrow> tally_record v (map (\<lambda>k. (k, f k)) ks)
     = (if v \<in> set ks then map (\<lambda>k. (k, if k = v then f k + 1 else f k)) ks
        else map (\<lambda>k. (k, f k)) ks @ [(v, 1)])"
  by (induction ks) auto

lemma tally_of_list:
  "foldl (\<lambda>t v. tally_record v t) [] vs = map (\<lambda>v. (v, count_list vs v)) (firsts vs)"
proof (induction vs rule: rev_induct)
  case Nil
  then show ?case by (simp add: firsts_def)
next
  case (snoc v vs)
  have "v \<notin> set vs \<Longrightarrow> count_list vs v = 0"
    by (simp add: count_list_0_iff)
  then show ?case
    using snoc by (auto simp: tally_record_map firsts_snoc count_list_append)
qed

definition picked :: "string \<times> nat \<Rightarrow> (string \<times> nat) list \<Rightarrow> bool" where
  "picked c t = (\<exists>pre post. t = pre @ c # post \<and> (\<forall>x \<in> set pre. snd x < snd c) \<and> (\<forall>x \<in> set post. snd x \<le> snd c))"

lemma picked_first: "\<forall>x \<in> set t. snd x \<le> snd c \<Longrightarrow> picked c (c # t)"
  unfolding picked_def by (intro exI[of _ "[]"] exI[of _ t]) simp

lemma picked_later:
  assumes "picked c t" and "snd x < snd c"
  shows "picked c (x # t)"
proof -
  obtain pre post where "t = pre @ c # post" "\<forall>x \<in> set pre. snd x < snd c" "\<forall>x \<in> set post. snd x \<le> snd c"
    using assms(1) unfolding picked_def by blast
  then show ?thesis
    unfolding picked_def using assms(2) by (intro exI[of _ "x # pre"] exI[of _ post]) simp
qed

lemma tally_pick_fold:
  "foldl tally_pick (Some b) t = Some c \<Longrightarrow>
     (c = b \<and> (\<forall>x \<in> set t. snd x \<le> snd b)) \<or> (picked c t \<and> snd b < snd c)"
proof (induction t arbitrary: b)
  case (Cons x t)
  show ?case
  proof (cases "snd x \<le> snd b")
    case True
    then have "(c = b \<and> (\<forall>x \<in> set t. snd x \<le> snd b)) \<or> (picked c t \<and> snd b < snd c)"
      using Cons.IH[of b] Cons.prems by simp
    then show ?thesis
    proof
      assume "picked c t \<and> snd b < snd c"
      then show ?thesis using picked_later[of c t x] True by simp
    qed (use True in simp)
  next
    case False
    then have "(c = x \<and> (\<forall>y \<in> set t. snd y \<le> snd x)) \<or> (picked c t \<and> snd x < snd c)"
      using Cons.IH[of x] Cons.prems by simp
    then show ?thesis
    proof
      assume "c = x \<and> (\<forall>y \<in> set t. snd y \<le> snd x)"
      then show ?thesis using picked_first[of t c] False by simp
    next
      assume "picked c t \<and> snd x < snd c"
      then show ?thesis using picked_later[of c t x] False by simp
    qed
  qed
qed simp

lemma tally_winner_split:
  assumes "tally_winner t = Some w"
  shows "\<exists>n. picked (w, n) t"
proof (cases t)
  case Nil
  then show ?thesis using assms by (simp add: tally_winner_def)
next
  case (Cons b t')
  then obtain n where "foldl tally_pick (Some b) t' = Some (w, n)"
    using assms by (auto simp: tally_winner_def)
  from tally_pick_fold[OF this] show ?thesis
  proof
    assume "(w, n) = b \<and> (\<forall>x \<in> set t'. snd x \<le> snd b)"
    then show ?thesis using Cons picked_first by blast
  next
    assume "picked (w, n) t' \<and> snd b < snd (w, n)"
    then show ?thesis using Cons picked_later by blast
  qed
qed

text \<open>On a tally made of a count per key, the split is a split of the keys.\<close>

lemma picked_map:
  assumes "picked (w, n) (map (\<lambda>v. (v, f v)) ks)"
  shows "\<exists>ks1 ks2. ks = ks1 @ w # ks2 \<and> (\<forall>v \<in> set ks1. f v < f w) \<and> (\<forall>v \<in> set ks2. f v \<le> f w)"
proof -
  obtain pre post where p: "map (\<lambda>v. (v, f v)) ks = pre @ (w, n) # post"
    "\<forall>x \<in> set pre. snd x < n" "\<forall>x \<in> set post. snd x \<le> n"
    using assms unfolding picked_def by auto
  obtain ks1 r where r: "ks = ks1 @ r" "pre = map (\<lambda>v. (v, f v)) ks1" "(w, n) # post = map (\<lambda>v. (v, f v)) r"
    using p(1) by (auto simp: map_eq_append_conv)
  obtain ks2 where "r = w # ks2" "n = f w" "post = map (\<lambda>v. (v, f v)) ks2"
    using r(3) by (cases r) auto
  then show ?thesis
    using r p(2,3) by (intro exI[of _ ks1] exI[of _ ks2]) simp
qed

lemma firsts_append: "firsts (xs @ ys) = firsts xs @ filter (\<lambda>y. y \<notin> set xs) (firsts ys)"
proof (induction ys rule: rev_induct)
  case Nil
  then show ?case by (simp add: firsts_def)
next
  case (snoc y ys)
  have "firsts (xs @ ys @ [y]) = firsts ((xs @ ys) @ [y])" by simp
  then show ?case using snoc by (simp only: firsts_snoc) (auto simp: firsts_snoc)
qed

subsection \<open>Properties\<close>

text \<open>
  The reported model (and effort) is a value observed most often, and of
  the most frequent ones the one seen first: every value that occurs before it occurs less often.
\<close>

theorem tally_most_frequent:
  assumes "tally_winner (foldl (\<lambda>t v. tally_record v t) [] vs) = Some w"
  shows "\<exists>pre post. vs = pre @ w # post \<and> w \<notin> set pre
    \<and> (\<forall>v \<in> set pre. count_list vs v < count_list vs w) \<and> (\<forall>v. count_list vs v \<le> count_list vs w)"
proof -
  obtain ks1 ks2 where ks: "firsts vs = ks1 @ w # ks2" "\<forall>v \<in> set ks1. count_list vs v < count_list vs w"
    "\<forall>v \<in> set ks2. count_list vs v \<le> count_list vs w"
    using tally_winner_split[OF assms] picked_map unfolding tally_of_list by blast
  have "w \<in> set (firsts vs)"
    unfolding ks(1) by simp
  then have "w \<in> set vs" by simp
  then obtain pre post where vs: "vs = pre @ w # post" "w \<notin> set pre"
    by (meson split_list_first)
  have "firsts vs = firsts pre @ w # filter (\<lambda>y. y \<notin> set (pre @ [w])) (firsts post)"
  proof -
    have "firsts vs = firsts (pre @ [w]) @ filter (\<lambda>y. y \<notin> set (pre @ [w])) (firsts post)"
      using vs(1) firsts_append[of "pre @ [w]" post] by simp
    then show ?thesis using vs(2) by (simp add: firsts_snoc)
  qed
  then have "ks1 @ w # ks2 = firsts pre @ w # filter (\<lambda>y. y \<notin> set (pre @ [w])) (firsts post)"
    by (simp only: ks(1))
  moreover have "w \<notin> set ks1" "w \<notin> set ks2"
    using firsts_set(2)[of vs] unfolding ks(1) by simp_all
  ultimately have "ks1 = firsts pre"
    using append_Cons_eq_iff[of w ks1 ks2 "firsts pre"] by blast
  then have less: "\<forall>v \<in> set pre. count_list vs v < count_list vs w"
    using ks(2) by simp
  have "count_list vs v \<le> count_list vs w" for v
  proof (cases "v \<in> set (firsts vs)")
    case True
    then have "v \<in> set ks1 \<or> v = w \<or> v \<in> set ks2" unfolding ks(1) by auto
    then show ?thesis using ks(2,3) by (auto intro: less_imp_le)
  next
    case False
    then show ?thesis by (simp add: count_list_0_iff)
  qed
  then show ?thesis using vs less by blast
qed

lemma tally_most_frequent_witness:
  "\<exists>pre post. [''haiku'', ''opus'', ''sonnet'', ''opus'', ''sonnet''] = pre @ ''opus'' # post \<and> ''opus'' \<notin> set pre"
proof -
  have "tally_winner (foldl (\<lambda>t v. tally_record v t) [] [''haiku'', ''opus'', ''sonnet'', ''opus'', ''sonnet'']) = Some ''opus''"
    by code_simp
  from tally_most_frequent[OF this] show ?thesis by blast
qed

text \<open>
  The token totals of a segment depend only on which records were seen
  how often, not on their order; repeating a record that carries a message id changes nothing.
\<close>

theorem usage_order_irrelevant:
  assumes "mset rs = mset rs'"
  shows "usage_totals (record_all rs new_usage) = usage_totals (record_all rs' new_usage)
    \<and> usage_totals (record_all (rs @ [(Some i, x), (Some i, x)]) new_usage)
      = usage_totals (record_all (rs' @ [(Some i, x)]) new_usage)"
proof -
  have k: "keys_ok new_usage" by (simp add: keys_ok_def new_usage_def)
  have perm: "fold abs_record rs = fold abs_record rs'"
    by (rule fold_multiset_equiv[OF _ assms]) (simp add: fun_eq_iff abs_record_commute)
  then have "usage_abs (record_all rs new_usage) = usage_abs (record_all rs' new_usage)"
    by (simp add: record_all_abs)
  moreover have "abs_record (Some i, x) (abs_record (Some i, x) a) = abs_record (Some i, x) a" for a
    by (simp add: abs_record_def)
  then have "usage_abs (record_all (rs @ [(Some i, x), (Some i, x)]) new_usage)
      = usage_abs (record_all (rs' @ [(Some i, x)]) new_usage)"
    using perm by (simp add: record_all_abs)
  ultimately show ?thesis
    using totals_abs record_all_keys[OF k] by blast
qed

lemma usage_order_irrelevant_witness:
  "usage_totals (record_all [(Some ''m1'', no_usage\<lparr>ut_output_tokens := 5\<rparr>), (None, no_usage\<lparr>ut_output_tokens := 7\<rparr>)] new_usage)
   = usage_totals (record_all [(None, no_usage\<lparr>ut_output_tokens := 7\<rparr>), (Some ''m1'', no_usage\<lparr>ut_output_tokens := 5\<rparr>)] new_usage)"
  using usage_order_irrelevant[of "[(Some ''m1'', no_usage\<lparr>ut_output_tokens := 5\<rparr>), (None, no_usage\<lparr>ut_output_tokens := 7\<rparr>)]"
      "[(None, no_usage\<lparr>ut_output_tokens := 7\<rparr>), (Some ''m1'', no_usage\<lparr>ut_output_tokens := 5\<rparr>)]"]
  by simp

end
