(* ===== verification/ClaudeSession.thy ===== *)
theory ClaudeSession
  imports SegmentUsage RustText "HOL-Library.List_Lexorder" "HOL-Library.Char_ord"
begin

text \<open>
  Reading a Claude Code transcript (\<open>hippo-daemon/src/claude_session.rs\<close>): the path of a session
  file, the text, tool calls, hook outcomes, session facts and token usage of its records, and the
  split into segments. A transcript is the list of its lines, each the value it parses to or
  \<open>None\<close> when it is unreadable, blank or not JSON. Redaction, the time parser, the clock and
  \<open>serde_json\<close>'s printer are parameters.
\<close>

record extract_env =
  xe_redact :: "string \<Rightarrow> string"
  xe_parse_ts :: "string \<Rightarrow> int option"
  xe_now_ms :: int
  xe_print :: "json \<Rightarrow> string"

subsection \<open>Session files\<close>

text \<open>A path is the list of its components; the file name is the last one.\<close>

type_synonym path = "string list"

definition file_name :: "path \<Rightarrow> string option" where
  "file_name p = (if p = [] then None else Some (last p))"

text \<open>\<open>Path::parent\<close>; the root has none.\<close>

definition parent :: "path \<Rightarrow> path option" where
  "parent p = (if p = [] then None else Some (butlast p))"

text \<open>\<open>ancestors().skip(1)\<close>: the proper prefixes, longest first.\<close>

fun ancestors1 :: "nat \<Rightarrow> path \<Rightarrow> path list" where
  "ancestors1 0 p = []"
| "ancestors1 (Suc n) p = take n p # ancestors1 n p"

definition file_stem :: "string \<Rightarrow> string" where
  "file_stem n = (case split_once (CHR ''.'') (rev n) of
     None \<Rightarrow> n
   | Some (_, before_rev) \<Rightarrow> if before_rev = [] then n else rev before_rev)"

record SessionFile =
  sf_path :: path
  sf_project_dir :: string
  sf_session_id :: string
  sf_is_subagent :: bool
  sf_parent_session_id :: "string option"

definition session_file :: "path \<Rightarrow> SessionFile" where
  "session_file p =
     (let is_journal = (file_name p = Some ''journal.jsonl'');
          found = find (\<lambda>dir. file_name dir = Some ''subagents'') (ancestors1 (length p) p);
          subagents_dir = (if is_journal then None else found);
          name_of = (\<lambda>q. Option.bind q file_name)
      in \<lparr>sf_path = p,
          sf_project_dir = (case subagents_dir of
             Some dir \<Rightarrow> unwrap_or (name_of (Option.bind (parent dir) parent)) []
           | None \<Rightarrow> unwrap_or (name_of (parent p)) []),
          sf_session_id = (case file_name p of None \<Rightarrow> [] | Some n \<Rightarrow> file_stem n),
          sf_is_subagent = (subagents_dir \<noteq> None),
          sf_parent_session_id = (case subagents_dir of
             Some dir \<Rightarrow> name_of (parent dir) | None \<Rightarrow> None)\<rparr>)"

subsection \<open>Texts and tool calls\<close>

record ToolCallSummary =
  tc_name :: string
  tc_summary :: string

definition str_or :: "json \<Rightarrow> string \<Rightarrow> string \<Rightarrow> string" where
  "str_or v k d = unwrap_or (str_field v k) d"

definition extract_tool_summary :: "extract_env \<Rightarrow> json \<Rightarrow> ToolCallSummary option" where
  "extract_tool_summary env block =
     (let name = str_or block ''name'' [] in
      if name = [] then None
      else
        let inp = unwrap_or (j_get block ''input'') (JObj []);
            summary =
              (if name = ''Bash'' then chars_take 200 (str_or inp ''command'' [])
               else if name = ''Read'' \<or> name = ''Write'' \<or> name = ''Edit'' then str_or inp ''file_path'' []
               else if name = ''Grep'' then
                 (let pattern = str_or inp ''pattern'' []; path = str_or inp ''path'' [] in
                  if path = [] then pattern else pattern @ '' in '' @ path)
               else if name = ''Glob'' then str_or inp ''pattern'' []
               else if name = ''Agent'' then
                 (let description = chars_take 100 (str_or inp ''description'' []);
                      subagent_type = str_or inp ''subagent_type'' [] in
                  if subagent_type \<noteq> [] then subagent_type @ '': '' @ description else description)
               else (case inp of
                   JObj ((k, v) # _) \<Rightarrow>
                     k @ ''='' @ chars_take 80 (case v of JStr s \<Rightarrow> s | other \<Rightarrow> xe_print env other)
                 | _ \<Rightarrow> []))
        in Some \<lparr>tc_name = name, tc_summary = summary\<rparr>)"

text \<open>Human text: trimmed, not empty, not wrapped in a tag.\<close>

definition human_text :: "string \<Rightarrow> string option" where
  "human_text s = (let trimmed = trim s in
     if trimmed = [] \<or> starts_with trimmed ''<'' then None else Some trimmed)"

definition extract_user_text :: "json \<Rightarrow> string option" where
  "extract_user_text msg = (case as_str msg of
     Some s \<Rightarrow> human_text s
   | None \<Rightarrow> (case j_get msg ''content'' of
       None \<Rightarrow> None
     | Some content \<Rightarrow> (case as_str content of
         Some s \<Rightarrow> human_text s
       | None \<Rightarrow> (case as_array content of
           None \<Rightarrow> None
         | Some arr \<Rightarrow>
             (let texts = List.map_filter (\<lambda>block.
                    if str_field block ''type'' = Some ''text'' then human_text (str_or block ''text'' []) else None) arr
              in if texts = [] then None else Some (join [CHR 0x0A] texts))))))"

definition extract_assistant_content :: "extract_env \<Rightarrow> json \<Rightarrow> string list \<times> ToolCallSummary list" where
  "extract_assistant_content env msg = (case Option.bind (j_get msg ''content'') as_array of
     None \<Rightarrow> ([], [])
   | Some arr \<Rightarrow>
      (List.map_filter (\<lambda>block.
         if str_or block ''type'' [] = ''text'' then
           (let text = trim (str_or block ''text'' []) in
            if length text > 20 then Some (chars_take 300 text) else None)
         else None) arr,
       List.map_filter (\<lambda>block.
         if str_or block ''type'' [] = ''tool_use'' then extract_tool_summary env block else None) arr))"

subsection \<open>Numbers, hooks and facts\<close>

definition round_away :: "rat \<Rightarrow> int" where
  "round_away r = (if 0 \<le> r then \<lfloor>r + 1 / 2\<rfloor> else - \<lfloor>- r + 1 / 2\<rfloor>)"

text \<open>\<open>f64\<close> values are the rationals they denote; an integer too large for \<open>i64\<close> is out of range.\<close>

definition json_whole :: "json \<Rightarrow> int option" where
  "json_whole v = (case as_i64 v of
     Some n \<Rightarrow> Some n
   | None \<Rightarrow> (case v of JFloat r \<Rightarrow> if \<bar>r\<bar> < 9000000000000000 then Some (round_away r) else None | _ \<Rightarrow> None))"

record HookStats =
  hs_runs :: int
  hs_errors :: int
  hs_prevented_continuations :: int
  hs_names :: "string list"
  hs_decisions :: "(string \<times> int) list"

definition no_hooks :: HookStats where
  "no_hooks = \<lparr>hs_runs = 0, hs_errors = 0, hs_prevented_continuations = 0, hs_names = [], hs_decisions = []\<rparr>"

definition observe_hook_names :: "extract_env \<Rightarrow> json list \<Rightarrow> HookStats \<times> bool \<Rightarrow> HookStats \<times> bool" where
  "observe_hook_names env infos st = foldl (\<lambda>(h, bad) info. case str_field info ''command'' of
       Some c \<Rightarrow> if trim c \<noteq> [] then (h\<lparr>hs_names := insort_insert (xe_redact env c) (hs_names h)\<rparr>, bad) else (h, True)
     | None \<Rightarrow> (h, True)) st infos"

definition observe_system :: "extract_env \<Rightarrow> json \<Rightarrow> HookStats \<times> bool \<Rightarrow> HookStats \<times> bool" where
  "observe_system env entry st =
     (if str_field entry ''subtype'' \<noteq> Some ''stop_hook_summary'' then st
      else
        let s1 = (case j_get entry ''hookCount'' of
              None \<Rightarrow> st
            | Some v \<Rightarrow> (case json_whole v of
                Some n \<Rightarrow> if n \<ge> 0 then ((fst st)\<lparr>hs_runs := sat_i64 (hs_runs (fst st) + n)\<rparr>, snd st) else (fst st, True)
              | None \<Rightarrow> (fst st, True)));
            s2 = (case j_get entry ''hookErrors'' of
              None \<Rightarrow> s1
            | Some (JArr a) \<Rightarrow> ((fst s1)\<lparr>hs_errors := hs_errors (fst s1) + int (length a)\<rparr>, snd s1)
            | Some _ \<Rightarrow> (fst s1, True));
            s3 = (case j_get entry ''preventedContinuation'' of
              None \<Rightarrow> s2
            | Some (JBool b) \<Rightarrow> ((fst s2)\<lparr>hs_prevented_continuations :=
                hs_prevented_continuations (fst s2) + (if b then 1 else 0)\<rparr>, snd s2)
            | Some _ \<Rightarrow> (fst s2, True))
        in (case j_get entry ''hookInfos'' of
              None \<Rightarrow> s3
            | Some (JArr infos) \<Rightarrow> observe_hook_names env infos s3
            | Some _ \<Rightarrow> (fst s3, True)))"

definition observe_user :: "json \<Rightarrow> HookStats \<times> bool \<Rightarrow> HookStats \<times> bool" where
  "observe_user entry st =
     (let count = (\<lambda>decision. case decision of
          Some d \<Rightarrow> if d \<noteq> [] then
              ((fst st)\<lparr>hs_decisions := al_put d ((case map_of (hs_decisions (fst st)) d of None \<Rightarrow> 0 | Some n \<Rightarrow> n) + 1)
                 (hs_decisions (fst st))\<rparr>, snd st)
            else (fst st, True)
        | None \<Rightarrow> (fst st, True))
      in case j_get entry ''permissionDecision'' of
           None \<Rightarrow> st
         | Some JNull \<Rightarrow> st
         | Some (JStr d) \<Rightarrow> count (Some d)
         | Some (JObj ms) \<Rightarrow> count (str_field (JObj ms) ''decision'')
         | Some _ \<Rightarrow> count None)"

record PrLink =
  pr_number :: "int option"
  pr_repo :: "string option"
  pr_url :: "string option"

record SessionFacts =
  fa_cost_usd :: "rat option"
  fa_duration_ms :: "int option"
  fa_tool_duration_ms :: "int option"
  fa_lines_added :: "int option"
  fa_lines_removed :: "int option"
  fa_title :: "string option"
  fa_cli_version :: "string option"
  fa_pr_links :: "PrLink list"

definition no_facts :: SessionFacts where
  "no_facts = \<lparr>fa_cost_usd = None, fa_duration_ms = None, fa_tool_duration_ms = None, fa_lines_added = None,
     fa_lines_removed = None, fa_title = None, fa_cli_version = None, fa_pr_links = []\<rparr>"

fun as_f64 :: "json \<Rightarrow> rat option" where
  "as_f64 (JInt n) = Some (of_int n)"
| "as_f64 (JFloat r) = Some r"
| "as_f64 _ = None"

definition observe_fact_record :: "extract_env \<Rightarrow> string \<Rightarrow> json \<Rightarrow> SessionFacts \<Rightarrow> SessionFacts" where
  "observe_fact_record env entry_type entry facts =
     (let whole = (\<lambda>key. Option.bind (j_get entry key) json_whole) in
      if entry_type = ''cost-state'' then
        facts\<lparr>fa_duration_ms := whole ''totalDuration'', fa_tool_duration_ms := whole ''totalToolDuration'',
          fa_lines_added := whole ''totalLinesAdded'', fa_lines_removed := whole ''totalLinesRemoved'',
          fa_cost_usd := Option.bind (j_get entry ''totalCostUSD'') as_f64\<rparr>
      else if entry_type = ''ai-title'' then
        (case str_field entry ''aiTitle'' of
           Some t \<Rightarrow> if trim t \<noteq> [] then facts\<lparr>fa_title := Some (xe_redact env (trim t))\<rparr> else facts
         | None \<Rightarrow> facts)
      else if entry_type = ''pr-link'' then
        (let link = \<lparr>pr_number = whole ''prNumber'', pr_repo = str_field entry ''prRepository'',
                     pr_url = map_option (xe_redact env) (str_field entry ''prUrl'')\<rparr>
         in if pr_number link = None \<and> pr_url link = None then facts
            else if link \<in> set (fa_pr_links facts) then facts
            else facts\<lparr>fa_pr_links := fa_pr_links facts @ [link]\<rparr>)
      else facts)"

subsection \<open>Usage of an assistant record\<close>

definition observe_assistant_meta :: "json \<Rightarrow> json \<Rightarrow> SegmentUsage \<Rightarrow> SegmentUsage" where
  "observe_assistant_meta entry msg u =
     (let u1 = (case str_field msg ''model'' of Some m \<Rightarrow> observe_model m u | None \<Rightarrow> u);
          u2 = (case str_field entry ''requestedModel'' of Some m \<Rightarrow> observe_requested_model m u1 | None \<Rightarrow> u1)
      in case str_field entry ''effort'' of Some e \<Rightarrow> observe_effort e u2 | None \<Rightarrow> u2)"

definition parse_assistant_usage :: "json \<Rightarrow> (string option \<times> UsageTotals) option" where
  "parse_assistant_usage msg = (case j_get msg ''usage'' of
     Some (JObj raw) \<Rightarrow>
       (let field = (\<lambda>key. max (unwrap_or (Option.bind (map_of raw key) as_i64) 0) 0) in
        Some (str_field msg ''id'',
          \<lparr>ut_input_tokens = field ''input_tokens'', ut_output_tokens = field ''output_tokens'',
           ut_cache_read_tokens = field ''cache_read_input_tokens'',
           ut_cache_creation_tokens = field ''cache_creation_input_tokens''\<rparr>))
   | _ \<Rightarrow> None)"

end
