(* ===== verification/ClaudeSegments.thy ===== *)
theory ClaudeSegments
  imports ClaudeSession
begin

text \<open>
  Splitting a Claude transcript into segments (\<open>extract_segments_and_facts\<close> of
  \<open>hippo-daemon/src/claude_session.rs\<close>) as a step function over its records, the collapse of
  identical trailing segments, the content hash and the enqueue decision.
\<close>

definition SEGMENT_GAP_MS :: int where [hippo_defs]: "SEGMENT_GAP_MS = 5 * 60 * 1000"
definition MAX_SEGMENT_CHARS :: nat where [hippo_defs]: "MAX_SEGMENT_CHARS = 12000"

record SubagentMeta =
  sm_agent_type :: "string option"
  sm_spawn_depth :: "int option"
  sm_tool_use_id :: "string option"
  sm_finished :: "bool option"

definition no_subagent :: SubagentMeta where
  "no_subagent = \<lparr>sm_agent_type = None, sm_spawn_depth = None, sm_tool_use_id = None, sm_finished = None\<rparr>"

text \<open>
  \<open>read_subagent_meta\<close>: \<open>meta\<close> is what the sibling \<open>meta.json\<close> parses to, \<open>None\<close> when it is missing
  or not JSON.
\<close>

definition read_subagent_meta :: "SessionFile \<Rightarrow> json option \<Rightarrow> SubagentMeta" where
  "read_subagent_meta sf meta =
     (if \<not> sf_is_subagent sf then no_subagent
      else case meta of
        Some (JObj ms) \<Rightarrow>
          (let obj = JObj ms in
           \<lparr>sm_agent_type = (case str_field obj ''agentType'' of Some s \<Rightarrow> if s \<noteq> [] then Some s else None | None \<Rightarrow> None),
            sm_spawn_depth = Option.bind (j_get obj ''spawnDepth'') as_i64,
            sm_tool_use_id = str_field obj ''toolUseId'',
            sm_finished = Option.bind (j_get obj ''finished'') as_bool\<rparr>)
      | _ \<Rightarrow> no_subagent)"

record SessionSegment =
  ss_session_id :: string
  ss_project_dir :: string
  ss_cwd :: string
  ss_git_branch :: "string option"
  ss_segment_index :: int
  ss_start_time :: int
  ss_end_time :: int
  ss_user_prompts :: "string list"
  ss_assistant_texts :: "string list"
  ss_tool_calls :: "ToolCallSummary list"
  ss_message_count :: int
  ss_usage :: SegmentUsage
  ss_hooks :: HookStats
  ss_source_file :: path
  ss_is_subagent :: bool
  ss_parent_session_id :: "string option"
  ss_subagent :: SubagentMeta

definition new_segment :: "SessionFile \<Rightarrow> string \<Rightarrow> string option \<Rightarrow> int \<Rightarrow> int \<Rightarrow> SessionSegment" where
  "new_segment sf cwd git_branch idx time =
     \<lparr>ss_session_id = sf_session_id sf, ss_project_dir = sf_project_dir sf, ss_cwd = cwd,
      ss_git_branch = git_branch, ss_segment_index = idx, ss_start_time = time, ss_end_time = time,
      ss_user_prompts = [], ss_assistant_texts = [], ss_tool_calls = [], ss_message_count = 0,
      ss_usage = new_usage, ss_hooks = no_hooks, ss_source_file = sf_path sf,
      ss_is_subagent = sf_is_subagent sf, ss_parent_session_id = sf_parent_session_id sf,
      ss_subagent = no_subagent\<rparr>"

definition has_content :: "SessionSegment \<Rightarrow> bool" where
  "has_content s = (ss_user_prompts s \<noteq> [] \<or> ss_tool_calls s \<noteq> [] \<or> ss_assistant_texts s \<noteq> [])"

subsection \<open>The loop\<close>

text \<open>The local variables of the loop; \<open>xs_owner\<close> maps a message id to the index of its segment.\<close>

record xstate =
  xs_segments :: "SessionSegment list"
  xs_current :: "SessionSegment option"
  xs_chars :: nat
  xs_last_user :: int
  xs_facts :: SessionFacts
  xs_owner :: "(string \<times> nat) list"
  xs_bad_hooks :: bool

definition xs_init :: xstate where
  "xs_init = \<lparr>xs_segments = [], xs_current = None, xs_chars = 0, xs_last_user = 0, xs_facts = no_facts,
     xs_owner = [], xs_bad_hooks = False\<rparr>"

definition entry_type :: "json \<Rightarrow> string" where
  "entry_type e = str_or e ''type'' []"

definition is_noise :: "string \<Rightarrow> bool" where
  "is_noise t = (t = ''file-history-snapshot'' \<or> t = ''progress'' \<or> t = ''queue-operation'' \<or> t = ''last-prompt'')"

definition is_fact :: "string \<Rightarrow> bool" where
  "is_fact t = (t = ''cost-state'' \<or> t = ''pr-link'' \<or> t = ''ai-title'')"

definition entry_ts :: "extract_env \<Rightarrow> json \<Rightarrow> int" where
  "entry_ts env e = unwrap_or (Option.bind (str_field e ''timestamp'') (xe_parse_ts env)) 0"

text \<open>The first segment starts at the first user, assistant or system record.\<close>

definition open_first :: "extract_env \<Rightarrow> SessionFile \<Rightarrow> json \<Rightarrow> xstate \<Rightarrow> xstate" where
  "open_first env sf e x =
     (if xs_current x = None \<and> (entry_type e = ''user'' \<or> entry_type e = ''assistant'' \<or> entry_type e = ''system'')
      then let ts = entry_ts env e; now = (if ts > 0 then ts else xe_now_ms env) in
        x\<lparr>xs_current := Some (new_segment sf (str_or e ''cwd'' []) (str_field e ''gitBranch'')
            (int (length (xs_segments x))) now)\<rparr>
      else x)"

text \<open>A user record after a gap, or over the size limit, ends the current segment if it has content.\<close>

definition split_segment :: "extract_env \<Rightarrow> SessionFile \<Rightarrow> json \<Rightarrow> xstate \<Rightarrow> xstate" where
  "split_segment env sf e x = (case xs_current x of
     None \<Rightarrow> x
   | Some seg \<Rightarrow>
      (let ts = entry_ts env e; cwd = str_or e ''cwd'' [] in
       if entry_type e = ''user'' \<and> xs_last_user x > 0 \<and> ts > 0
          \<and> (ts - xs_last_user x > SEGMENT_GAP_MS \<or> xs_chars x > MAX_SEGMENT_CHARS) \<and> has_content seg
       then x\<lparr>xs_segments := xs_segments x @ [seg],
              xs_current := Some (new_segment sf (if cwd = [] then ss_cwd seg else cwd)
                (opt_or (str_field e ''gitBranch'') (ss_git_branch seg))
                (int (length (xs_segments x)) + 1) ts),
              xs_chars := 0\<rparr>
       else x))"

definition stamp_segment :: "extract_env \<Rightarrow> json \<Rightarrow> SessionSegment \<Rightarrow> SessionSegment" where
  "stamp_segment env e seg =
     (let ts = entry_ts env e; cwd = str_or e ''cwd'' [];
          s1 = (if ts > 0 then seg\<lparr>ss_end_time := max (ss_end_time seg) ts\<rparr> else seg);
          s2 = s1\<lparr>ss_message_count := ss_message_count s1 + 1\<rparr>
      in if cwd \<noteq> [] then s2\<lparr>ss_cwd := cwd\<rparr> else s2)"

text \<open>The hook part of the state, threaded through the two observers.\<close>

definition with_hooks :: "(HookStats \<times> bool \<Rightarrow> HookStats \<times> bool) \<Rightarrow> SessionSegment \<Rightarrow> xstate \<Rightarrow> xstate" where
  "with_hooks f seg x = (case f (ss_hooks seg, xs_bad_hooks x) of (h, bad) \<Rightarrow>
     x\<lparr>xs_current := Some (seg\<lparr>ss_hooks := h\<rparr>), xs_bad_hooks := bad\<rparr>)"

definition take_user :: "extract_env \<Rightarrow> json \<Rightarrow> SessionSegment \<Rightarrow> xstate \<Rightarrow> xstate" where
  "take_user env e seg x =
     (let x1 = with_hooks (observe_user e) seg x;
          ts = entry_ts env e;
          x2 = (if ts > 0 then x1\<lparr>xs_last_user := ts\<rparr> else x1);
          msg = (case j_get e ''message'' of Some m \<Rightarrow> m | None \<Rightarrow> unwrap_or (j_get e ''content'') JNull)
      in case (extract_user_text msg, xs_current x2) of
           (Some text, Some s) \<Rightarrow>
             (let truncated = chars_take 500 text in
              x2\<lparr>xs_chars := xs_chars x2 + length truncated,
                 xs_current := Some (s\<lparr>ss_user_prompts := ss_user_prompts s @ [xe_redact env truncated]\<rparr>)\<rparr>)
         | _ \<Rightarrow> x2)"

text \<open>Usage goes to the segment where its message id first appeared.\<close>

definition credit_usage :: "string option \<times> UsageTotals \<Rightarrow> SessionSegment \<Rightarrow> xstate \<Rightarrow> xstate" where
  "credit_usage r seg x =
     (let here = (\<lambda>x. x\<lparr>xs_current := Some (seg\<lparr>ss_usage := record_message (fst r) (snd r) (ss_usage seg)\<rparr>)\<rparr>) in
      case fst r of
        None \<Rightarrow> here x
      | Some i \<Rightarrow> (case map_of (xs_owner x) i of
          Some idx \<Rightarrow>
            if idx < length (xs_segments x)
            then x\<lparr>xs_segments := (xs_segments x)[idx := (xs_segments x ! idx)
                     \<lparr>ss_usage := record_message (Some i) (snd r) (ss_usage (xs_segments x ! idx))\<rparr>],
                   xs_current := Some seg\<rparr>
            else here x
        | None \<Rightarrow> here (x\<lparr>xs_owner := al_put i (length (xs_segments x)) (xs_owner x)\<rparr>)))"

definition take_assistant :: "extract_env \<Rightarrow> json \<Rightarrow> SessionSegment \<Rightarrow> xstate \<Rightarrow> xstate" where
  "take_assistant env e seg x =
     (let msg = unwrap_or (j_get e ''message'') JNull in
      case extract_assistant_content env msg of (texts, tools) \<Rightarrow>
        (let x1 = x\<lparr>xs_chars := xs_chars x + sum_list (map length texts)
                      + sum_list (map (\<lambda>t. length (tc_summary t)) tools)\<rparr>;
             s1 = seg\<lparr>ss_assistant_texts := ss_assistant_texts seg @ map (xe_redact env) texts,
                      ss_tool_calls := ss_tool_calls seg @ map (\<lambda>t. t\<lparr>tc_summary := xe_redact env (tc_summary t)\<rparr>) tools\<rparr>;
             s2 = s1\<lparr>ss_usage := observe_assistant_meta e msg (ss_usage s1)\<rparr>;
             x2 = (case str_field e ''version'' of
                     Some v \<Rightarrow> x1\<lparr>xs_facts := (xs_facts x1)\<lparr>fa_cli_version := Some v\<rparr>\<rparr> | None \<Rightarrow> x1)
         in case parse_assistant_usage msg of
              None \<Rightarrow> x2\<lparr>xs_current := Some s2\<rparr>
            | Some r \<Rightarrow> credit_usage r s2 x2))"

definition take_record :: "extract_env \<Rightarrow> SessionFile \<Rightarrow> json \<Rightarrow> xstate \<Rightarrow> xstate" where
  "take_record env sf e x =
     (let x1 = split_segment env sf e (open_first env sf e x) in
      case xs_current x1 of
        None \<Rightarrow> x1
      | Some seg0 \<Rightarrow>
         (let seg = stamp_segment env e seg0; t = entry_type e in
          if t = ''system'' then with_hooks (observe_system env e) seg x1
          else if t = ''user'' then take_user env e seg x1
          else if t = ''assistant'' then take_assistant env e seg x1
          else x1\<lparr>xs_current := Some seg\<rparr>))"

definition extract_step :: "extract_env \<Rightarrow> SessionFile \<Rightarrow> xstate \<Rightarrow> json option \<Rightarrow> xstate" where
  "extract_step env sf x line = (case line of
     None \<Rightarrow> x
   | Some e \<Rightarrow>
       if is_noise (entry_type e) then x
       else if is_fact (entry_type e)
       then x\<lparr>xs_facts := observe_fact_record env (entry_type e) e (xs_facts x)\<rparr>
       else take_record env sf e x)"

subsection \<open>Hash, collapse, result\<close>

text \<open>The two JSON arrays of the hash are printed by \<open>serde_json\<close>; \<open>hash\<close> is SHA-256 in hex.\<close>

record hash_env =
  he_tools :: "ToolCallSummary list \<Rightarrow> string"
  he_prompts :: "string list \<Rightarrow> string"
  he_hash :: "string \<Rightarrow> string"

definition compute_segment_content_hash :: "hash_env \<Rightarrow> SessionSegment \<Rightarrow> string" where
  "compute_segment_content_hash h seg =
     he_hash h (he_tools h (ss_tool_calls seg) @ ''|'' @ he_prompts h (ss_user_prompts seg) @ ''|''
       @ join [CHR 0x0A] (ss_assistant_texts seg))"

text \<open>The loop pops the last segment while it hashes like the one before it; here on the reversed list.\<close>

fun collapse_rev :: "hash_env \<Rightarrow> SessionSegment list \<Rightarrow> SessionSegment list" where
  "collapse_rev h (b # a # r) =
     (if compute_segment_content_hash h a = compute_segment_content_hash h b then collapse_rev h (a # r)
      else b # a # r)"
| "collapse_rev h r = r"

definition collapse_adjacent_identical_segments :: "hash_env \<Rightarrow> SessionSegment list \<Rightarrow> SessionSegment list" where
  "collapse_adjacent_identical_segments h segs = rev (collapse_rev h (rev segs))"

definition finish_segments :: "xstate \<Rightarrow> SessionSegment list" where
  "finish_segments x = (case xs_current x of
     Some seg \<Rightarrow> if has_content seg then xs_segments x @ [seg] else xs_segments x
   | None \<Rightarrow> xs_segments x)"

definition extract_segments_and_facts ::
  "extract_env \<Rightarrow> hash_env \<Rightarrow> SessionFile \<Rightarrow> json option list \<Rightarrow> SessionSegment list \<times> SessionFacts" where
  "extract_segments_and_facts env h sf file_lines =
     (let x = foldl (extract_step env sf) xs_init file_lines in
      (collapse_adjacent_identical_segments h (finish_segments x), xs_facts x))"

definition extract_segments_for_ingest ::
  "extract_env \<Rightarrow> hash_env \<Rightarrow> SessionFile \<Rightarrow> json option \<Rightarrow> json option list \<Rightarrow> SessionSegment list \<times> SessionFacts" where
  "extract_segments_for_ingest env h sf meta file_lines =
     (case extract_segments_and_facts env h sf file_lines of (segs, facts) \<Rightarrow>
        (map (\<lambda>s. s\<lparr>ss_subagent := read_subagent_meta sf meta\<rparr>) segs, facts))"

definition session_file_latest_event_ms :: "SessionSegment list \<Rightarrow> int option" where
  "session_file_latest_event_ms segs = sql_max (map ss_end_time segs)"

subsection \<open>Enqueue decision\<close>

definition decide_enqueue :: "bool \<Rightarrow> string \<Rightarrow> string option \<Rightarrow> string option \<Rightarrow> bool" where
  "decide_enqueue was_insert current_hash prior_last_enriched_hash prior_queue_status =
     (if was_insert then True
      else if prior_queue_status = Some ''processing'' then False
      else if prior_last_enriched_hash = Some current_hash then False
      else True)"

subsection \<open>Well-formed segments\<close>

text \<open>
  \<open>seg_ok\<close>: the segment belongs to its file, does not end before it starts, and every text it
  keeps came out of redaction.
\<close>

definition seg_ok :: "extract_env \<Rightarrow> SessionFile \<Rightarrow> SessionSegment \<Rightarrow> bool" where
  "seg_ok env sf s \<longleftrightarrow> ss_session_id s = sf_session_id sf \<and> ss_source_file s = sf_path sf
     \<and> ss_start_time s \<le> ss_end_time s
     \<and> set (ss_user_prompts s) \<union> set (ss_assistant_texts s) \<union> tc_summary ` set (ss_tool_calls s)
       \<union> set (hs_names (ss_hooks s)) \<subseteq> range (xe_redact env)"

definition facts_ok :: "extract_env \<Rightarrow> SessionFacts \<Rightarrow> bool" where
  "facts_ok env f \<longleftrightarrow> set_option (fa_title f) \<union> \<Union> (set_option ` pr_url ` set (fa_pr_links f))
     \<subseteq> range (xe_redact env)"

definition xs_ok :: "extract_env \<Rightarrow> SessionFile \<Rightarrow> xstate \<Rightarrow> bool" where
  "xs_ok env sf x \<longleftrightarrow> map ss_segment_index (xs_segments x) = map int [0..<length (xs_segments x)]
     \<and> (\<forall>s \<in> set (xs_segments x). seg_ok env sf s \<and> has_content s)
     \<and> (\<forall>s \<in> set_option (xs_current x). seg_ok env sf s \<and> ss_segment_index s = int (length (xs_segments x)))
     \<and> facts_ok env (xs_facts x)"

lemma xs_okI:
  assumes "map ss_segment_index (xs_segments x) = map int [0..<length (xs_segments x)]"
    and "\<And>s. s \<in> set (xs_segments x) \<Longrightarrow> seg_ok env sf s \<and> has_content s"
    and "\<And>s. xs_current x = Some s \<Longrightarrow> seg_ok env sf s \<and> ss_segment_index s = int (length (xs_segments x))"
    and "facts_ok env (xs_facts x)"
  shows "xs_ok env sf x"
  using assms by (auto simp: xs_ok_def)

lemma xs_okD:
  assumes "xs_ok env sf x"
  shows "map ss_segment_index (xs_segments x) = map int [0..<length (xs_segments x)]"
    and "s \<in> set (xs_segments x) \<Longrightarrow> seg_ok env sf s \<and> has_content s"
    and "xs_current x = Some s \<Longrightarrow> seg_ok env sf s \<and> ss_segment_index s = int (length (xs_segments x))"
    and "facts_ok env (xs_facts x)"
  using assms by (auto simp: xs_ok_def)

lemma seg_ok_usage [simp]: "seg_ok env sf (s\<lparr>ss_usage := u\<rparr>) = seg_ok env sf s"
  by (simp add: seg_ok_def)

lemma has_content_usage [simp]: "has_content (s\<lparr>ss_usage := u\<rparr>) = has_content s"
  by (simp add: has_content_def)

lemma xs_ok_current:
  assumes "xs_ok env sf x" "seg_ok env sf s" "ss_segment_index s = int (length (xs_segments x))"
  shows "xs_ok env sf (x\<lparr>xs_current := Some s\<rparr>)"
  using assms by (simp add: xs_ok_def)

lemma xs_ok_frame [simp]:
  "xs_ok env sf (x\<lparr>xs_chars := n\<rparr>) = xs_ok env sf x"
  "xs_ok env sf (x\<lparr>xs_last_user := t\<rparr>) = xs_ok env sf x"
  "xs_ok env sf (x\<lparr>xs_owner := w\<rparr>) = xs_ok env sf x"
  "xs_ok env sf (x\<lparr>xs_bad_hooks := b\<rparr>) = xs_ok env sf x"
  by (simp_all add: xs_ok_def)

lemma open_first_ok: "xs_ok env sf x \<Longrightarrow> xs_ok env sf (open_first env sf e x)"
  unfolding open_first_def Let_def
  by (simp add: xs_ok_current new_segment_def seg_ok_def no_hooks_def)

lemma new_segment_ok: "seg_ok env sf (new_segment sf cwd br idx ts)" "ss_segment_index (new_segment sf cwd br idx ts) = idx"
  by (simp_all add: seg_ok_def new_segment_def no_hooks_def)

lemma xs_ok_split:
  assumes "xs_ok env sf x" "xs_current x = Some seg" "has_content seg" "seg_ok env sf s'"
    "ss_segment_index s' = int (length (xs_segments x)) + 1"
  shows "xs_ok env sf (x\<lparr>xs_segments := xs_segments x @ [seg], xs_current := Some s', xs_chars := 0\<rparr>)"
  using assms by (auto simp: xs_ok_def)

lemma split_segment_ok:
  assumes "xs_ok env sf x"
  shows "xs_ok env sf (split_segment env sf e x)"
proof (cases "xs_current x")
  case None
  then show ?thesis using assms by (simp add: split_segment_def)
next
  case (Some seg)
  show ?thesis
    using assms xs_ok_split[OF assms Some _ new_segment_ok(1)]
    by (simp add: split_segment_def Some Let_def new_segment_ok(2))
qed

lemma stamp_segment_ok:
  "seg_ok env sf s \<Longrightarrow> seg_ok env sf (stamp_segment env e s)"
  "ss_segment_index (stamp_segment env e s) = ss_segment_index s"
  by (auto simp: stamp_segment_def seg_ok_def Let_def)

lemma set_insort_insert_le: "set (insort_insert x xs) \<subseteq> insert x (set xs)"
  by (auto simp: set_insort_insert)

definition names_ok :: "extract_env \<Rightarrow> HookStats \<times> bool \<Rightarrow> bool" where
  "names_ok env st \<longleftrightarrow> set (hs_names (fst st)) \<subseteq> range (xe_redact env)"

lemma names_ok_simps [simp]:
  "names_ok env (h\<lparr>hs_runs := n\<rparr>, b) = names_ok env (h, c)"
  "names_ok env (h\<lparr>hs_errors := n\<rparr>, b) = names_ok env (h, c)"
  "names_ok env (h\<lparr>hs_prevented_continuations := n\<rparr>, b) = names_ok env (h, c)"
  "names_ok env (h\<lparr>hs_decisions := d\<rparr>, b) = names_ok env (h, c)"
  by (simp_all add: names_ok_def)

lemma names_ok_fst: "names_ok env (fst st, b) = names_ok env st"
  by (simp add: names_ok_def)

lemma observe_hook_names_redacted:
  "names_ok env st \<Longrightarrow> names_ok env (observe_hook_names env infos st)"
proof (induction infos arbitrary: st)
  case Nil
  then show ?case by (simp add: observe_hook_names_def)
next
  case (Cons i infos)
  obtain h b where st: "st = (h, b)" by (cases st)
  have "names_ok env (case str_field i ''command'' of
       Some c \<Rightarrow> if trim c \<noteq> [] then (h\<lparr>hs_names := insort_insert (xe_redact env c) (hs_names h)\<rparr>, b) else (h, True)
     | None \<Rightarrow> (h, True))"
    using Cons.prems by (auto simp: st names_ok_def set_insort_insert split: option.split)
  from Cons.IH[OF this] show ?case
    by (simp add: observe_hook_names_def st)
qed

lemma observe_system_redacted:
  assumes "names_ok env st"
  shows "names_ok env (observe_system env e st)"
proof -
  have 1: "names_ok env (case j_get e ''hookCount'' of
              None \<Rightarrow> st
            | Some v \<Rightarrow> (case json_whole v of
                Some n \<Rightarrow> if n \<ge> 0 then ((fst st)\<lparr>hs_runs := sat_i64 (hs_runs (fst st) + n)\<rparr>, snd st) else (fst st, True)
              | None \<Rightarrow> (fst st, True)))"
    using assms by (simp add: names_ok_def split: option.split)
  have 2: "names_ok env s1 \<Longrightarrow> names_ok env (case j_get e ''hookErrors'' of
              None \<Rightarrow> s1
            | Some (JArr a) \<Rightarrow> ((fst s1)\<lparr>hs_errors := hs_errors (fst s1) + int (length a)\<rparr>, snd s1)
            | Some _ \<Rightarrow> (fst s1, True))" for s1
    by (simp add: names_ok_def split: option.split json.split)
  have 3: "names_ok env s2 \<Longrightarrow> names_ok env (case j_get e ''preventedContinuation'' of
              None \<Rightarrow> s2
            | Some (JBool b) \<Rightarrow> ((fst s2)\<lparr>hs_prevented_continuations :=
                hs_prevented_continuations (fst s2) + (if b then 1 else 0)\<rparr>, snd s2)
            | Some _ \<Rightarrow> (fst s2, True))" for s2
    by (simp add: names_ok_def split: option.split json.split)
  have 4: "names_ok env s3 \<Longrightarrow> names_ok env (case j_get e ''hookInfos'' of
              None \<Rightarrow> s3
            | Some (JArr infos) \<Rightarrow> observe_hook_names env infos s3
            | Some _ \<Rightarrow> (fst s3, True))" for s3
    using observe_hook_names_redacted by (simp add: names_ok_def split: option.split json.split)
  show ?thesis
  proof (cases "str_field e ''subtype'' = Some ''stop_hook_summary''")
    case True
    then have c: "(str_field e ''subtype'' \<noteq> Some ''stop_hook_summary'') = False" by simp
    show ?thesis
      unfolding observe_system_def Let_def c if_False by (intro 4 3 2 1)
  next
    case False
    then show ?thesis using assms by (simp add: observe_system_def)
  qed
qed

lemma observe_user_names: "hs_names (fst (observe_user e st)) = hs_names (fst st)"
  unfolding observe_user_def Let_def by (simp split: option.split json.split)

lemma with_hooks_ok:
  assumes "xs_ok env sf x" "seg_ok env sf s" "ss_segment_index s = int (length (xs_segments x))"
    and "names_ok env (ss_hooks s, xs_bad_hooks x) \<Longrightarrow> names_ok env (f (ss_hooks s, xs_bad_hooks x))"
  shows "xs_ok env sf (with_hooks f s x)"
proof -
  obtain h b where fe: "f (ss_hooks s, xs_bad_hooks x) = (h, b)" by fastforce
  have "seg_ok env sf (s\<lparr>ss_hooks := h\<rparr>)"
    using assms(2,4) unfolding seg_ok_def names_ok_def fe by simp
  then have "xs_ok env sf (x\<lparr>xs_current := Some (s\<lparr>ss_hooks := h\<rparr>)\<rparr>)"
    using assms(1,3) by (simp add: xs_ok_current)
  then show ?thesis by (simp add: with_hooks_def fe)
qed

lemma with_hooks_current: "\<exists>h. xs_current (with_hooks f s x) = Some (s\<lparr>ss_hooks := h\<rparr>)"
  by (auto simp: with_hooks_def split: prod.split)

lemma with_hooks_segments [simp]:
  "xs_segments (with_hooks f s x) = xs_segments x" "xs_owner (with_hooks f s x) = xs_owner x"
  by (simp_all add: with_hooks_def split: prod.split)

lemma take_user_ok:
  assumes "xs_ok env sf x" "seg_ok env sf s" "ss_segment_index s = int (length (xs_segments x))"
  shows "xs_ok env sf (take_user env e s x)"
proof -
  define x2 where "x2 = (let x1 = with_hooks (observe_user e) s x in
    if entry_ts env e > 0 then x1\<lparr>xs_last_user := entry_ts env e\<rparr> else x1)"
  have "xs_ok env sf (with_hooks (observe_user e) s x)"
    by (rule with_hooks_ok[OF assms]) (simp add: names_ok_def observe_user_names)
  then have ok: "xs_ok env sf x2" by (simp add: x2_def Let_def)
  obtain s2 where s2: "xs_current x2 = Some s2"
    using with_hooks_current[of "observe_user e" s x] by (auto simp: x2_def Let_def)
  have push: "xs_ok env sf (x2\<lparr>xs_chars := n, xs_current := Some (s2\<lparr>ss_user_prompts := ss_user_prompts s2 @ [xe_redact env t]\<rparr>)\<rparr>)" for n t
    using xs_okD(3)[OF ok s2] by (intro xs_ok_current) (auto simp: ok seg_ok_def)
  show ?thesis
    unfolding take_user_def Let_def x2_def[unfolded Let_def, symmetric] s2
    using ok push by (simp split: option.split)
qed

lemma credit_usage_ok:
  assumes "xs_ok env sf x" "seg_ok env sf s" "ss_segment_index s = int (length (xs_segments x))"
  shows "xs_ok env sf (credit_usage r s x)"
proof -
  have here: "xs_ok env sf (x\<lparr>xs_owner := w, xs_current := Some (s\<lparr>ss_usage := u\<rparr>)\<rparr>)" for w u
    using assms by (intro xs_ok_current) simp_all
  have here': "xs_ok env sf (x\<lparr>xs_current := Some (s\<lparr>ss_usage := u\<rparr>)\<rparr>)" for u
    using assms by (intro xs_ok_current) simp_all
  have there: "xs_ok env sf (x\<lparr>xs_segments := (xs_segments x)[i := (xs_segments x ! i)\<lparr>ss_usage := u\<rparr>],
      xs_current := Some s\<rparr>)" if "i < length (xs_segments x)" for i u
  proof (rule xs_okI)
    have "map ss_segment_index ((xs_segments x)[i := (xs_segments x ! i)\<lparr>ss_usage := u\<rparr>]) = map ss_segment_index (xs_segments x)"
      using that by (intro nth_equalityI) (auto simp: nth_list_update)
    then show "map ss_segment_index (xs_segments (x\<lparr>xs_segments := (xs_segments x)[i := (xs_segments x ! i)\<lparr>ss_usage := u\<rparr>],
        xs_current := Some s\<rparr>)) = map int [0..<length (xs_segments (x\<lparr>xs_segments := (xs_segments x)[i := (xs_segments x ! i)\<lparr>ss_usage := u\<rparr>], xs_current := Some s\<rparr>))]"
      using xs_okD(1)[OF assms(1)] by simp
  next
    fix t assume "t \<in> set (xs_segments (x\<lparr>xs_segments := (xs_segments x)[i := (xs_segments x ! i)\<lparr>ss_usage := u\<rparr>], xs_current := Some s\<rparr>))"
    then have "t = (xs_segments x ! i)\<lparr>ss_usage := u\<rparr> \<or> t \<in> set (xs_segments x)"
      using set_update_subset_insert by fastforce
    moreover have "xs_segments x ! i \<in> set (xs_segments x)" using that by simp
    ultimately show "seg_ok env sf t \<and> has_content t"
      using xs_okD(2)[OF assms(1)] by auto
  qed (use assms xs_okD(4)[OF assms(1)] in simp_all)
  show ?thesis
    unfolding credit_usage_def Let_def using here here' there by (simp split: option.split)
qed

lemma take_assistant_ok:
  assumes "xs_ok env sf x" "seg_ok env sf s" "ss_segment_index s = int (length (xs_segments x))"
  shows "xs_ok env sf (take_assistant env e s x)"
proof -
  define msg where "msg = unwrap_or (j_get e ''message'') JNull"
  obtain texts tools where tt: "extract_assistant_content env msg = (texts, tools)" by fastforce
  define s2 where "s2 = s\<lparr>ss_assistant_texts := ss_assistant_texts s @ map (xe_redact env) texts,
      ss_tool_calls := ss_tool_calls s @ map (\<lambda>t. t\<lparr>tc_summary := xe_redact env (tc_summary t)\<rparr>) tools,
      ss_usage := observe_assistant_meta e msg (ss_usage s)\<rparr>"
  have s2: "seg_ok env sf s2" "ss_segment_index s2 = int (length (xs_segments x))"
    using assms(2,3) by (auto simp: s2_def seg_ok_def)
  define x2 where "x2 = (case str_field e ''version'' of
      Some v \<Rightarrow> x\<lparr>xs_chars := xs_chars x + sum_list (map length texts) + sum_list (map (\<lambda>t. length (tc_summary t)) tools),
        xs_facts := (xs_facts x)\<lparr>fa_cli_version := Some v\<rparr>\<rparr>
    | None \<Rightarrow> x\<lparr>xs_chars := xs_chars x + sum_list (map length texts) + sum_list (map (\<lambda>t. length (tc_summary t)) tools)\<rparr>)"
  have x2: "xs_ok env sf x2" "xs_segments x2 = xs_segments x"
    using assms(1) by (auto simp: x2_def xs_ok_def facts_ok_def split: option.split)
  have "take_assistant env e s x = (case parse_assistant_usage msg of
      None \<Rightarrow> x2\<lparr>xs_current := Some s2\<rparr> | Some r \<Rightarrow> credit_usage r s2 x2)"
    by (simp add: take_assistant_def msg_def[symmetric] tt s2_def x2_def Let_def split: option.split)
  then show ?thesis
    using xs_ok_current credit_usage_ok x2 s2 by (simp split: option.split)
qed

lemma take_record_ok:
  assumes "xs_ok env sf x"
  shows "xs_ok env sf (take_record env sf e x)"
proof -
  define x1 where "x1 = split_segment env sf e (open_first env sf e x)"
  have x1: "xs_ok env sf x1"
    unfolding x1_def by (intro split_segment_ok open_first_ok assms)
  show ?thesis
  proof (cases "xs_current x1")
    case None
    then show ?thesis by (simp add: take_record_def x1_def[symmetric] x1)
  next
    case (Some s)
    have s: "seg_ok env sf (stamp_segment env e s)"
      "ss_segment_index (stamp_segment env e s) = int (length (xs_segments x1))"
      using xs_okD(3)[OF x1 Some] by (simp_all add: stamp_segment_ok)
    show ?thesis
      unfolding take_record_def x1_def[symmetric] Some Let_def option.case
      using with_hooks_ok[OF x1 s observe_system_redacted] take_user_ok[OF x1 s] take_assistant_ok[OF x1 s]
        xs_ok_current[OF x1 s] by simp
  qed
qed

lemma observe_fact_record_ok: "facts_ok env f \<Longrightarrow> facts_ok env (observe_fact_record env t e f)"
  unfolding observe_fact_record_def Let_def
  by (auto simp: facts_ok_def split: option.split)

lemma extract_step_ok: "xs_ok env sf x \<Longrightarrow> xs_ok env sf (extract_step env sf x line)"
  unfolding extract_step_def
  by (simp add: take_record_ok observe_fact_record_ok xs_ok_def[of _ _ "_\<lparr>xs_facts := _\<rparr>"]
      xs_okD split: option.split)

text \<open>Every record of a transcript keeps the invariant, so the whole pass does.\<close>

interpretation transcript: invariant_run "extract_step env sf" "xs_ok env sf" for env sf
  by unfold_locales (rule extract_step_ok)

lemma extract_pass_ok: "xs_ok env sf (foldl (extract_step env sf) xs_init ls)"
  by (rule transcript.run_inv) (simp add: xs_ok_def xs_init_def facts_ok_def no_facts_def)

lemma finish_segments_ok:
  assumes "xs_ok env sf x"
  shows "map ss_segment_index (finish_segments x) = map int [0..<length (finish_segments x)]"
    and "\<forall>s \<in> set (finish_segments x). seg_ok env sf s \<and> has_content s"
  using xs_okD[OF assms] by (auto simp: finish_segments_def split: option.split)

subsection \<open>The collapse\<close>

lemma collapse_rev_drop: "\<exists>d. r = d @ collapse_rev h r \<and> (r \<noteq> [] \<longrightarrow> collapse_rev h r \<noteq> [] \<and>
    (\<forall>s \<in> set d. compute_segment_content_hash h s = compute_segment_content_hash h (hd (collapse_rev h r))))"
proof (induction h r rule: collapse_rev.induct)
  case (1 h b a r)
  show ?case
  proof (cases "compute_segment_content_hash h a = compute_segment_content_hash h b")
    case True
    then obtain d where d: "a # r = d @ collapse_rev h (a # r)" "collapse_rev h (a # r) \<noteq> []"
      "\<forall>s \<in> set d. compute_segment_content_hash h s = compute_segment_content_hash h (hd (collapse_rev h (a # r)))"
      using 1 by blast
    have "compute_segment_content_hash h a = compute_segment_content_hash h (hd (collapse_rev h (a # r)))"
    proof (cases d)
      case Nil
      then have "hd (collapse_rev h (a # r)) = a" using d(1) by (metis append_Nil list.sel(1))
      then show ?thesis by simp
    next
      case (Cons c ds)
      then have "c = a" using d(1) by (metis append_Cons list.inject)
      then show ?thesis using d(3) Cons by simp
    qed
    then show ?thesis
      using True d by (intro exI[of _ "b # d"]) simp
  next
    case False
    then show ?thesis by (intro exI[of _ "[]"]) simp
  qed
qed simp_all

lemma collapse_rev_differ:
  "collapse_rev h r = b # a # t \<Longrightarrow> compute_segment_content_hash h a \<noteq> compute_segment_content_hash h b"
  by (induction h r rule: collapse_rev.induct) (auto split: if_splits)

lemma collapse_prefix:
  obtains d where "segs = collapse_adjacent_identical_segments h segs @ d"
    and "segs \<noteq> [] \<Longrightarrow> collapse_adjacent_identical_segments h segs \<noteq> []"
    and "\<And>s. s \<in> set d \<Longrightarrow> compute_segment_content_hash h s
      = compute_segment_content_hash h (last (collapse_adjacent_identical_segments h segs))"
proof -
  obtain d where d: "rev segs = d @ collapse_rev h (rev segs)" "segs \<noteq> [] \<longrightarrow> collapse_rev h (rev segs) \<noteq> [] \<and>
    (\<forall>s \<in> set d. compute_segment_content_hash h s = compute_segment_content_hash h (hd (collapse_rev h (rev segs))))"
    using collapse_rev_drop[of "rev segs" h] by auto
  have "segs = collapse_adjacent_identical_segments h segs @ rev d"
    using arg_cong[OF d(1), of rev] by (simp add: collapse_adjacent_identical_segments_def)
  moreover have "segs \<noteq> []" if "s \<in> set (rev d)" for s
    using that d(1) by auto
  ultimately show thesis
    using d(2) by (intro that[of "rev d"]) (auto simp: collapse_adjacent_identical_segments_def last_rev)
qed

lemma collapse_subset: "set (collapse_adjacent_identical_segments h segs) \<subseteq> set segs"
proof -
  obtain d where "segs = collapse_adjacent_identical_segments h segs @ d"
    by (rule collapse_prefix)
  then have "set segs = set (collapse_adjacent_identical_segments h segs) \<union> set d"
    by (metis set_append)
  then show ?thesis by blast
qed

lemma collapse_take: "\<exists>n. collapse_adjacent_identical_segments h segs = take n segs"
proof -
  obtain d where "segs = collapse_adjacent_identical_segments h segs @ d"
    by (rule collapse_prefix)
  then show ?thesis by (metis append_eq_conv_conj)
qed

subsection \<open>Properties of a pass\<close>

lemma extract_result_ok:
  "map ss_segment_index (fst (extract_segments_and_facts env h sf ls))
     = map int [0..<length (fst (extract_segments_and_facts env h sf ls))]
   \<and> (\<forall>s \<in> set (fst (extract_segments_and_facts env h sf ls)). seg_ok env sf s \<and> has_content s)"
proof -
  define x where "x = foldl (extract_step env sf) xs_init ls"
  have fin: "map ss_segment_index (finish_segments x) = map int [0..<length (finish_segments x)]"
    "\<forall>s \<in> set (finish_segments x). seg_ok env sf s \<and> has_content s"
    unfolding x_def by (rule finish_segments_ok[OF extract_pass_ok])+
  have res: "fst (extract_segments_and_facts env h sf ls) = collapse_adjacent_identical_segments h (finish_segments x)"
    by (simp add: extract_segments_and_facts_def x_def Let_def)
  obtain n where n: "collapse_adjacent_identical_segments h (finish_segments x) = take n (finish_segments x)"
    using collapse_take by blast
  have "map ss_segment_index (take n (finish_segments x)) = map int [0..<length (take n (finish_segments x))]"
    using arg_cong[OF fin(1), of "take n"] by (cases "n \<le> length (finish_segments x)") (simp_all add: take_map)
  moreover have "\<forall>s \<in> set (take n (finish_segments x)). seg_ok env sf s \<and> has_content s"
    using fin(2) by (meson in_set_takeD)
  ultimately show ?thesis
    unfolding res n by blast
qed


lemma extract_indices:
  "map ss_segment_index (fst (extract_segments_and_facts env h sf ls))
     = map int [0..<length (fst (extract_segments_and_facts env h sf ls))]"
  using extract_result_ok by blast

lemma extract_content: "s \<in> set (fst (extract_segments_and_facts env h sf ls)) \<Longrightarrow> has_content s"
  using extract_result_ok by blast

text \<open>
  The segments a transcript yields are numbered 0, 1, 2 and so on without gaps,
  each belongs to the transcript, has content, and does not end before it starts. The key
  \<open>(session_id, segment_index)\<close> of the store therefore addresses each of them.
\<close>

theorem segments_numbered:
  "map ss_segment_index (fst (extract_segments_and_facts env h sf ls))
     = map int [0..<length (fst (extract_segments_and_facts env h sf ls))]
   \<and> list_all (\<lambda>s. has_content s \<and> ss_start_time s \<le> ss_end_time s \<and> ss_session_id s = sf_session_id sf
        \<and> ss_source_file s = sf_path sf) (fst (extract_segments_and_facts env h sf ls))"
  using extract_result_ok[of env h sf ls] by (auto simp: seg_ok_def list_all_iff)

text \<open>
  Every prompt, assistant text, tool-call summary and hook name of a
  segment, the session title and every pull-request address is a value the redaction engine
  returned; no unredacted text of these kinds leaves the pass.
\<close>

theorem segments_redacted:
  "\<Union> ((\<lambda>s. set (ss_user_prompts s) \<union> set (ss_assistant_texts s) \<union> tc_summary ` set (ss_tool_calls s)
        \<union> set (hs_names (ss_hooks s))) ` set (fst (extract_segments_and_facts env h sf ls)))
     \<subseteq> range (xe_redact env)
   \<and> set_option (fa_title (snd (extract_segments_and_facts env h sf ls)))
     \<union> \<Union> (set_option ` pr_url ` set (fa_pr_links (snd (extract_segments_and_facts env h sf ls))))
     \<subseteq> range (xe_redact env)"
proof -
  define x where "x = foldl (extract_step env sf) xs_init ls"
  have ok: "xs_ok env sf x" unfolding x_def by (rule extract_pass_ok)
  have res: "extract_segments_and_facts env h sf ls
      = (collapse_adjacent_identical_segments h (finish_segments x), xs_facts x)"
    by (simp add: extract_segments_and_facts_def x_def Let_def)
  have "\<forall>s \<in> set (collapse_adjacent_identical_segments h (finish_segments x)). seg_ok env sf s"
    using finish_segments_ok(2)[OF ok] collapse_subset by blast
  then have "\<Union> ((\<lambda>s. set (ss_user_prompts s) \<union> set (ss_assistant_texts s) \<union> tc_summary ` set (ss_tool_calls s)
        \<union> set (hs_names (ss_hooks s))) ` set (collapse_adjacent_identical_segments h (finish_segments x)))
     \<subseteq> range (xe_redact env)"
    unfolding seg_ok_def by (intro UN_least) blast
  then show ?thesis
    using xs_okD(4)[OF ok] unfolding res facts_ok_def fst_conv snd_conv by (rule conjI)
qed

text \<open>
  The collapse keeps a prefix of the segments, not empty unless they were; every segment it
  drops has the content hash of the last one kept, and the last two kept hash differently.
\<close>

theorem collapse_trailing:
  assumes "collapse_adjacent_identical_segments h segs = kept"
  shows "\<exists>d. segs = kept @ d \<and> (kept = [] \<longleftrightarrow> segs = [])
    \<and> list_all (\<lambda>s. compute_segment_content_hash h s = compute_segment_content_hash h (last kept)) d
    \<and> (1 < length kept \<longrightarrow> compute_segment_content_hash h (last kept) \<noteq> compute_segment_content_hash h (last (butlast kept)))"
proof -
  obtain d where d: "segs = kept @ d" "segs \<noteq> [] \<Longrightarrow> kept \<noteq> []"
    "\<And>s. s \<in> set d \<Longrightarrow> compute_segment_content_hash h s = compute_segment_content_hash h (last kept)"
    using collapse_prefix[of segs h] unfolding assms by blast
  have "compute_segment_content_hash h (last kept) \<noteq> compute_segment_content_hash h (last (butlast kept))"
    if long: "1 < length kept"
  proof -
    obtain b a t where r: "collapse_rev h (rev segs) = b # a # t"
      using long assms unfolding collapse_adjacent_identical_segments_def
      by (cases "collapse_rev h (rev segs)") (auto simp: neq_Nil_conv)
    then have "kept = rev t @ [a, b]"
      using assms by (simp add: collapse_adjacent_identical_segments_def)
    then show ?thesis using collapse_rev_differ[OF r] by (simp add: butlast_append)
  qed
  then show ?thesis
    using d by (intro exI[of _ d]) (auto simp: list_all_iff)
qed

definition example_hash :: hash_env where
  "example_hash = \<lparr>he_tools = \<lambda>ts. concat (map tc_summary ts), he_prompts = concat, he_hash = \<lambda>s. s\<rparr>"

definition example_segment :: "string \<Rightarrow> SessionSegment" where
  "example_segment p = (new_segment (session_file [''p'', ''s.jsonl'']) [] None 0 1)\<lparr>ss_user_prompts := [p]\<rparr>"

lemma collapse_trailing_witness:
  "\<exists>d. [example_segment ''a'', example_segment ''b'', example_segment ''b''] = [example_segment ''a'', example_segment ''b''] @ d
    \<and> ([example_segment ''a'', example_segment ''b''] = [] \<longleftrightarrow> [example_segment ''a'', example_segment ''b'', example_segment ''b''] = [])
    \<and> list_all (\<lambda>s. compute_segment_content_hash example_hash s
        = compute_segment_content_hash example_hash (last [example_segment ''a'', example_segment ''b''])) d
    \<and> (1 < length [example_segment ''a'', example_segment ''b''] \<longrightarrow>
        compute_segment_content_hash example_hash (last [example_segment ''a'', example_segment ''b''])
        \<noteq> compute_segment_content_hash example_hash (last (butlast [example_segment ''a'', example_segment ''b''])))"
proof (rule collapse_trailing)
  show "collapse_adjacent_identical_segments example_hash [example_segment ''a'', example_segment ''b'', example_segment ''b'']
      = [example_segment ''a'', example_segment ''b'']"
    by (simp add: collapse_adjacent_identical_segments_def compute_segment_content_hash_def example_hash_def
        example_segment_def new_segment_def)
qed

end
