(* ===== verification/ClaudeUsage.thy ===== *)
theory ClaudeUsage
  imports ClaudeSegments
begin

text \<open>
  Token usage across the segments of a transcript. Claude writes one API turn as several records
  that share \<open>message.id\<close>, and a split can fall between them. \<open>extract_segments_and_facts\<close> credits
  a turn to the segment its id first appeared in; here the per-segment totals are compared with one
  accumulator fed with every usage record of the file.
\<close>

subsection \<open>One recording, as a change of totals\<close>

definition kmap :: "SegmentUsage \<Rightarrow> string \<Rightarrow> UsageTotals option" where
  "kmap u = map_of (su_by_message_id u)"

definition or_zero :: "UsageTotals option \<Rightarrow> UsageTotals" where
  "or_zero x = (case x of None \<Rightarrow> no_usage | Some v \<Rightarrow> v)"

lemma usage_add_cancel: "usage_add a c = usage_add b c \<longleftrightarrow> a = b"
  by (cases a; cases b) (auto simp: usage_add_def)

lemma usage_sum_al_put:
  "usage_add (usage_sum (map snd (al_put i v m))) (or_zero (map_of m i)) = usage_add (usage_sum (map snd m)) v"
proof (induction i v m rule: al_put.induct)
  case (1 k v)
  then show ?case by (simp add: or_zero_def)
next
  case (2 k v k' v' xs)
  then show ?case by (cases "k = k'") (simp_all add: or_zero_def usage_ac)
qed

lemma kmap_record:
  "kmap (record_message None x u) = kmap u"
  "kmap (record_message (Some i) x u) = (kmap u)(i \<mapsto> field_max (or_zero (kmap u i)) x)"
  by (simp_all add: kmap_def record_message_def record_keyed_def or_zero_def)

lemma totals_record_None: "usage_totals (record_message None x u) = usage_add (usage_totals u) x"
  by (simp add: usage_totals_sum record_message_def usage_ac)

lemma totals_record_Some:
  "usage_add (usage_totals (record_message (Some i) x u)) (or_zero (kmap u i))
   = usage_add (usage_totals u) (field_max (or_zero (kmap u i)) x)"
proof -
  have "usage_add (usage_sum (map snd (record_keyed i x (su_by_message_id u)))) (or_zero (kmap u i))
      = usage_add (usage_sum (map snd (su_by_message_id u))) (field_max (or_zero (kmap u i)) x)"
    unfolding kmap_def record_keyed_def or_zero_def[symmetric] by (rule usage_sum_al_put)
  then show ?thesis
    by (simp add: usage_totals_sum record_message_def usage_add_assoc)
qed

lemma usage_sum_update:
  "k < length vs \<Longrightarrow> usage_add (usage_sum (vs[k := v])) (vs ! k) = usage_add (usage_sum vs) v"
proof (induction vs arbitrary: k)
  case (Cons a vs)
  show ?case
  proof (cases k)
    case 0
    then show ?thesis by (simp add: usage_ac)
  next
    case (Suc j)
    then have "usage_add (usage_sum (vs[j := v])) (vs ! j) = usage_add (usage_sum vs) v"
      using Cons by simp
    then show ?thesis using Suc by (simp add: usage_add_assoc)
  qed
qed simp

subsection \<open>Ownership\<close>

text \<open>
  \<open>owned us w u\<close>: the segments' usages \<open>us\<close> share out the accumulator \<open>u\<close>, and \<open>w\<close> sends every
  message id to the one segment that has it.
\<close>

definition owned :: "SegmentUsage list \<Rightarrow> (string \<Rightarrow> nat option) \<Rightarrow> SegmentUsage \<Rightarrow> bool" where
  "owned us w u \<longleftrightarrow> usage_sum (map usage_totals us) = usage_totals u
     \<and> (\<forall>i. kmap u i = (case w i of None \<Rightarrow> None | Some k \<Rightarrow> kmap (us ! k) i))
     \<and> (\<forall>i k. w i = Some k \<longrightarrow> k < length us)
     \<and> (\<forall>k < length us. \<forall>i. kmap (us ! k) i \<noteq> None \<longrightarrow> w i = Some k)"

lemma ownedD:
  assumes "owned us w u"
  shows "usage_sum (map usage_totals us) = usage_totals u"
    and "kmap u i = (case w i of None \<Rightarrow> None | Some k \<Rightarrow> kmap (us ! k) i)"
    and "w i = Some k \<Longrightarrow> k < length us"
    and "k < length us \<Longrightarrow> kmap (us ! k) i \<noteq> None \<Longrightarrow> w i = Some k"
  using assms unfolding owned_def by blast+

lemma owned_None:
  assumes "owned us w u" "k < length us"
  shows "owned (us[k := record_message None x (us ! k)]) w (record_message None x u)"
proof -
  let ?v = "record_message None x (us ! k)"
  have "usage_add (usage_sum (map usage_totals (us[k := ?v]))) (usage_totals (us ! k))
      = usage_add (usage_sum (map usage_totals us)) (usage_totals ?v)"
    using usage_sum_update[of k "map usage_totals us" "usage_totals ?v"] assms(2) by (simp add: map_update)
  also have "\<dots> = usage_add (usage_totals (record_message None x u)) (usage_totals (us ! k))"
    unfolding totals_record_None ownedD(1)[OF assms(1)] by (metis usage_add_assoc usage_add_comm)
  finally have 1: "usage_sum (map usage_totals (us[k := ?v])) = usage_totals (record_message None x u)"
    by (simp only: usage_add_cancel)
  have km: "kmap (us[k := ?v] ! j) i = kmap (us ! j) i" for j i
    using assms(2) by (cases "j = k") (simp_all add: kmap_record)
  show ?thesis
    unfolding owned_def km length_list_update kmap_record(1)
    using 1 assms(1)[unfolded owned_def] by blast
qed

lemma owned_Some:
  assumes "owned us w u" "k < length us" "w i = Some k \<or> w i = None"
  shows "owned (us[k := record_message (Some i) x (us ! k)]) (w(i \<mapsto> k)) (record_message (Some i) x u)"
proof -
  let ?v = "record_message (Some i) x (us ! k)"
  have same: "kmap u i = kmap (us ! k) i"
  proof (cases "w i")
    case None
    then show ?thesis
      using ownedD(2)[OF assms(1), of i] ownedD(4)[OF assms(1,2), of i] by (cases "kmap (us ! k) i") simp_all
  next
    case (Some j)
    then show ?thesis using assms(3) ownedD(2)[OF assms(1), of i] by simp
  qed
  have "usage_add (usage_add (usage_sum (map usage_totals (us[k := ?v]))) (usage_totals (us ! k))) (or_zero (kmap u i))
      = usage_add (usage_sum (map usage_totals us)) (usage_add (usage_totals ?v) (or_zero (kmap (us ! k) i)))"
    using usage_sum_update[of k "map usage_totals us" "usage_totals ?v"] assms(2)
    by (simp add: map_update usage_add_assoc same)
  also have "\<dots> = usage_add (usage_totals u) (usage_add (usage_totals (us ! k)) (field_max (or_zero (kmap u i)) x))"
    by (simp add: totals_record_Some ownedD(1)[OF assms(1)] same)
  also have "\<dots> = usage_add (usage_add (usage_totals (record_message (Some i) x u)) (usage_totals (us ! k))) (or_zero (kmap u i))"
    using totals_record_Some[of i x u] by (metis usage_add_assoc usage_add_comm)
  finally have 1: "usage_sum (map usage_totals (us[k := ?v])) = usage_totals (record_message (Some i) x u)"
    by (simp only: usage_add_cancel)
  have km: "kmap (us[k := ?v] ! j) i' = (if j = k \<and> i' = i then Some (field_max (or_zero (kmap u i)) x) else kmap (us ! j) i')" for j i'
    using assms(2) by (cases "j = k") (simp_all add: kmap_record same)
  have 2: "kmap (record_message (Some i) x u) i' = (case (w(i \<mapsto> k)) i' of None \<Rightarrow> None | Some j \<Rightarrow> kmap (us[k := ?v] ! j) i')" for i'
    using ownedD(2)[OF assms(1), of i'] by (cases "i' = i") (auto simp: kmap_record km split: option.splits)
  have 4: "(w(i \<mapsto> k)) i' = Some j" if "j < length us" "kmap (us[k := ?v] ! j) i' \<noteq> None" for i' j
    using that assms(3) ownedD(4)[OF assms(1) that(1), of i'] unfolding km
    by (auto split: if_splits)
  show ?thesis
    unfolding owned_def
  proof (intro conjI allI impI)
    fix i' j assume "(w(i \<mapsto> k)) i' = Some j"
    then show "j < length (us[k := ?v])"
      using assms(2) ownedD(3)[OF assms(1)] by (auto split: if_splits)
  next
    fix j i' assume "j < length (us[k := ?v])" "kmap (us[k := ?v] ! j) i' \<noteq> None"
    then show "(w(i \<mapsto> k)) i' = Some j" using 4 by simp
  qed (use 1 2 in auto)
qed

lemma owned_new:
  assumes "owned us w u"
  shows "owned (us @ [new_usage]) w u"
proof -
  have new: "usage_totals new_usage = no_usage" "kmap new_usage i = None" for i
    by (simp_all add: new_usage_def usage_totals_def kmap_def)
  note o = ownedD[OF assms]
  show ?thesis
    unfolding owned_def
  proof (intro conjI allI impI)
    show "usage_sum (map usage_totals (us @ [new_usage])) = usage_totals u"
      by (simp add: new o(1))
  next
    fix i show "kmap u i = (case w i of None \<Rightarrow> None | Some k \<Rightarrow> kmap ((us @ [new_usage]) ! k) i)"
      using o(2)[of i] o(3)[of i] by (auto simp: nth_append split: option.splits)
  next
    fix i k assume "w i = Some k"
    then show "k < length (us @ [new_usage])" using o(3) by fastforce
  next
    fix k i assume "k < length (us @ [new_usage])" "kmap ((us @ [new_usage]) ! k) i \<noteq> None"
    then show "w i = Some k"
      using o(4)[of k i] by (cases "k < length us") (simp_all add: nth_append new split: if_splits)
  qed
qed

lemma filter_at_most_one:
  assumes "\<And>k. k < length xs \<Longrightarrow> P (xs ! k) \<Longrightarrow> k = j"
  shows "length (filter P xs) \<le> 1"
proof -
  have "{k. k < length xs \<and> P (xs ! k)} \<subseteq> {j}" using assms by blast
  then have "card {k. k < length xs \<and> P (xs ! k)} \<le> card {j}" by (intro card_mono) simp_all
  then show ?thesis by (simp add: length_filter_conv_card)
qed

lemma owned_once:
  assumes "owned us w u"
  shows "length (filter (\<lambda>v. i \<in> fst ` set (su_by_message_id v)) us) \<le> 1"
proof (cases "w i")
  case None
  have "k = 0" if "k < length us" "i \<in> fst ` set (su_by_message_id (us ! k))" for k
    using ownedD(4)[OF assms that(1), of i] that(2) None
    by (simp add: kmap_def map_of_eq_None_iff)
  then show ?thesis by (rule filter_at_most_one)
next
  case (Some j)
  have "k = j" if "k < length us" "i \<in> fst ` set (su_by_message_id (us ! k))" for k
    using ownedD(4)[OF assms that(1), of i] that(2) Some
    by (simp add: kmap_def map_of_eq_None_iff)
  then show ?thesis by (rule filter_at_most_one)
qed

subsection \<open>The pass\<close>

definition core :: "SegmentUsage \<Rightarrow> SegmentUsage" where
  "core u = u\<lparr>su_models := [], su_requested_models := [], su_efforts := []\<rparr>"

lemma core_simps [simp]:
  "core new_usage = new_usage"
  "core (record_message i v u) = record_message i v (core u)"
  "core (observe_assistant_meta e m u) = core u"
  "usage_totals (core u) = usage_totals u"
  "su_by_message_id (core u) = su_by_message_id u"
  by (simp_all add: core_def new_usage_def record_message_def observe_assistant_meta_def observe_model_def
      observe_requested_model_def observe_effort_def usage_totals_def Let_def split: option.split)

text \<open>All segments of a state, the open one last.\<close>

definition all_segments :: "xstate \<Rightarrow> SessionSegment list" where
  "all_segments x = xs_segments x @ (case xs_current x of None \<Rightarrow> [] | Some s \<Rightarrow> [s])"

definition usages :: "xstate \<Rightarrow> SegmentUsage list" where
  "usages x = map (\<lambda>s. core (ss_usage s)) (all_segments x)"

definition ledger :: "xstate \<Rightarrow> SegmentUsage \<Rightarrow> bool" where
  "ledger x u = owned (usages x) (map_of (xs_owner x)) u"

text \<open>The usage record of a line, if it carries one.\<close>

definition usage_of_line :: "json option \<Rightarrow> (string option \<times> UsageTotals) list" where
  "usage_of_line line = (case line of
     None \<Rightarrow> []
   | Some e \<Rightarrow> if entry_type e = ''assistant''
       then (case parse_assistant_usage (unwrap_or (j_get e ''message'') JNull) of None \<Rightarrow> [] | Some r \<Rightarrow> [r]) else [])"

definition usage_of_lines :: "json option list \<Rightarrow> (string option \<times> UsageTotals) list" where
  "usage_of_lines ls = concat (map usage_of_line ls)"

lemma open_first_ledger: "ledger x u \<Longrightarrow> ledger (open_first env sf e x) u"
  using owned_new[of "usages x"]
  by (simp add: open_first_def ledger_def usages_def all_segments_def Let_def new_segment_def split: option.splits)

lemma split_segment_ledger: "ledger x u \<Longrightarrow> ledger (split_segment env sf e x) u"
  using owned_new[of "usages x" "map_of (xs_owner x)" u]
  by (cases "xs_current x") (simp_all add: split_segment_def ledger_def usages_def all_segments_def Let_def new_segment_def split: option.splits)

lemma ledger_current:
  assumes "ledger x u" "xs_current x = Some s" "core (ss_usage s') = core (ss_usage s)"
  shows "ledger (x\<lparr>xs_current := Some s'\<rparr>) u"
  using assms by (simp add: ledger_def usages_def all_segments_def)

lemma ledger_frame [simp]:
  "ledger (x\<lparr>xs_chars := n\<rparr>) u = ledger x u"
  "ledger (x\<lparr>xs_last_user := t\<rparr>) u = ledger x u"
  "ledger (x\<lparr>xs_bad_hooks := b\<rparr>) u = ledger x u"
  "ledger (x\<lparr>xs_facts := f\<rparr>) u = ledger x u"
  by (simp_all add: ledger_def usages_def all_segments_def)

lemma stamp_usage [simp]: "ss_usage (stamp_segment env e s) = ss_usage s"
  by (simp add: stamp_segment_def Let_def)

lemma ledger_with_hooks:
  assumes "ledger x u" "xs_current x = Some s" "ss_usage s' = ss_usage s"
  shows "ledger (with_hooks f s' x) u"
  using ledger_current[OF assms(1,2)] assms(3) by (simp add: with_hooks_def split: prod.split)

lemma ledger_take_user:
  assumes "ledger x u" "xs_current x = Some s" "ss_usage s' = ss_usage s"
  shows "ledger (take_user env e s' x) u"
proof -
  define x2 where "x2 = (let x1 = with_hooks (observe_user e) s' x in
    if entry_ts env e > 0 then x1\<lparr>xs_last_user := entry_ts env e\<rparr> else x1)"
  have l2: "ledger x2 u"
    using ledger_with_hooks[OF assms] by (simp add: x2_def Let_def)
  obtain s2 where s2: "xs_current x2 = Some s2"
    using with_hooks_current[of "observe_user e" s' x] by (auto simp: x2_def Let_def)
  have push: "ledger (x2\<lparr>xs_chars := n, xs_current := Some (s2\<lparr>ss_user_prompts := ps\<rparr>)\<rparr>) u" for n ps
    using l2 s2 by (intro ledger_current) simp_all
  show ?thesis
    unfolding take_user_def Let_def x2_def[unfolded Let_def, symmetric] s2
    using l2 push by (simp split: option.split)
qed

lemma usages_credit_here:
  assumes "xs_current x = Some s" "core (ss_usage s') = core (ss_usage s)"
  shows "usages (x\<lparr>xs_owner := w, xs_current := Some (s'\<lparr>ss_usage := record_message i v (ss_usage s')\<rparr>)\<rparr>)
    = (usages x)[length (xs_segments x) := record_message i v (usages x ! length (xs_segments x))]"
  using assms by (simp add: usages_def all_segments_def nth_append list_update_append)

lemma ledger_credit:
  assumes "ledger x u" "xs_current x = Some s" "core (ss_usage s') = core (ss_usage s)"
  shows "ledger (credit_usage (i, v) s' x) (record_message i v u)"
proof -
  let ?n = "length (xs_segments x)"
  note here = usages_credit_here[OF assms(2,3)]
  have n: "?n < length (usages x)" using assms(2) by (simp add: usages_def all_segments_def)
  have o: "owned (usages x) (map_of (xs_owner x)) u" using assms(1) by (simp add: ledger_def)
  have same: "x\<lparr>xs_current := c\<rparr> = x\<lparr>xs_owner := xs_owner x, xs_current := c\<rparr>" for c by simp
  show ?thesis
  proof (cases i)
    case None
    then show ?thesis
      unfolding credit_usage_def Let_def ledger_def fst_conv snd_conv
      using owned_None[OF o n] here[where w = "xs_owner x"] by simp
  next
    case (Some m)
    show ?thesis
    proof (cases "map_of (xs_owner x) m")
      case new: None
      then show ?thesis
        unfolding credit_usage_def Let_def ledger_def fst_conv snd_conv Some option.case
        using owned_Some[OF o n, of m v] here[where w = "al_put m ?n (xs_owner x)"] by simp
    next
      case old: (Some k)
      have k: "k < length (usages x)" using ownedD(3)[OF o old] .
      have upd: "(map_of (xs_owner x))(m \<mapsto> k) = map_of (xs_owner x)" using old by (simp add: fun_upd_idem)
      show ?thesis
      proof (cases "k < ?n")
        case True
        have "usages (x\<lparr>xs_segments := (xs_segments x)[k := (xs_segments x ! k)
                     \<lparr>ss_usage := record_message (Some m) v (ss_usage (xs_segments x ! k))\<rparr>], xs_current := Some s'\<rparr>)
            = (usages x)[k := record_message (Some m) v (usages x ! k)]"
          using True assms(2,3) by (simp add: usages_def all_segments_def nth_append list_update_append map_update)
        then show ?thesis
          unfolding credit_usage_def Let_def ledger_def fst_conv snd_conv Some option.case old if_P[OF True]
          using owned_Some[OF o k, of m v] old upd by simp
      next
        case False
        then have "k = ?n" using k assms(2) by (simp add: usages_def all_segments_def)
        then show ?thesis
          unfolding credit_usage_def Let_def ledger_def fst_conv snd_conv Some option.case old if_not_P[OF False]
          using owned_Some[OF o n, of m v] old upd here[where w = "xs_owner x" and i = "Some m" and v = v] by simp
      qed
    qed
  qed
qed

lemma ledger_take_assistant:
  assumes "ledger x u" "xs_current x = Some s" "ss_usage s' = ss_usage s" "entry_type e = ''assistant''"
  shows "ledger (take_assistant env e s' x) (record_all (usage_of_line (Some e)) u)"
proof -
  define msg where "msg = unwrap_or (j_get e ''message'') JNull"
  obtain texts tools where tt: "extract_assistant_content env msg = (texts, tools)" by fastforce
  define s2 where "s2 = s'\<lparr>ss_assistant_texts := ss_assistant_texts s' @ map (xe_redact env) texts,
      ss_tool_calls := ss_tool_calls s' @ map (\<lambda>t. t\<lparr>tc_summary := xe_redact env (tc_summary t)\<rparr>) tools,
      ss_usage := observe_assistant_meta e msg (ss_usage s')\<rparr>"
  define x1 where "x1 = x\<lparr>xs_chars := xs_chars x + sum_list (map length texts) + sum_list (map (\<lambda>t. length (tc_summary t)) tools)\<rparr>"
  define x2 where "x2 = (case str_field e ''version'' of
      Some v \<Rightarrow> x1\<lparr>xs_facts := (xs_facts x1)\<lparr>fa_cli_version := Some v\<rparr>\<rparr> | None \<Rightarrow> x1)"
  have x2: "ledger x2 u" "xs_current x2 = Some s"
    using assms(1,2) by (simp_all add: x2_def x1_def split: option.split)
  have s2: "core (ss_usage s2) = core (ss_usage s)"
    using assms(3) by (simp add: s2_def)
  have "take_assistant env e s' x = (case parse_assistant_usage msg of
      None \<Rightarrow> x2\<lparr>xs_current := Some s2\<rparr> | Some r \<Rightarrow> credit_usage r s2 x2)"
    by (simp add: take_assistant_def msg_def[symmetric] tt s2_def x2_def x1_def Let_def split: option.split)
  moreover have "record_all (usage_of_line (Some e)) u = (case parse_assistant_usage msg of
      None \<Rightarrow> u | Some r \<Rightarrow> record_message (fst r) (snd r) u)"
    by (simp add: usage_of_line_def assms(4) msg_def[symmetric] record_all_def split: option.split)
  ultimately show ?thesis
    using ledger_current[OF x2 s2] ledger_credit[OF x2 s2] by (cases "parse_assistant_usage msg") auto
qed

lemma entry_kinds: "entry_type e = ''assistant'' \<Longrightarrow> \<not> is_noise (entry_type e) \<and> \<not> is_fact (entry_type e)"
  by (simp add: is_noise_def is_fact_def)

lemma take_record_ledger:
  assumes "ledger x u"
  shows "ledger (take_record env sf e x) (record_all (usage_of_line (Some e)) u)"
proof -
  define x1 where "x1 = split_segment env sf e (open_first env sf e x)"
  have x1: "ledger x1 u"
    unfolding x1_def by (intro split_segment_ledger open_first_ledger assms)
  show ?thesis
  proof (cases "xs_current x1")
    case None
    then have "entry_type e \<noteq> ''assistant''"
      unfolding x1_def split_segment_def open_first_def by (auto simp: Let_def split: option.splits if_splits)
    then show ?thesis
      using None x1 by (simp add: take_record_def x1_def[symmetric] usage_of_line_def record_all_def)
  next
    case (Some s)
    have u: "record_all (usage_of_line (Some e)) u = u" if "entry_type e \<noteq> ''assistant''"
      using that by (simp add: usage_of_line_def record_all_def)
    have t: "ss_usage (stamp_segment env e s) = ss_usage s" by simp
    show ?thesis
      unfolding take_record_def x1_def[symmetric] Some Let_def option.case
      using ledger_with_hooks[OF x1 Some t] ledger_take_user[OF x1 Some t] ledger_take_assistant[OF x1 Some t]
        ledger_current[OF x1 Some] u by simp
  qed
qed

lemma extract_step_ledger:
  assumes "ledger x u"
  shows "ledger (extract_step env sf x line) (record_all (usage_of_line line) u)"
proof (cases line)
  case None
  then show ?thesis using assms by (simp add: extract_step_def usage_of_line_def record_all_def)
next
  case (Some e)
  show ?thesis
  proof (cases "is_noise (entry_type e) \<or> is_fact (entry_type e)")
    case True
    then have "entry_type e \<noteq> ''assistant''" using entry_kinds by blast
    then show ?thesis
      using True assms by (auto simp: Some extract_step_def usage_of_line_def record_all_def)
  next
    case False
    then show ?thesis using take_record_ledger[OF assms] by (simp add: Some extract_step_def)
  qed
qed

lemma extract_pass_ledger:
  "ledger x u \<Longrightarrow> ledger (foldl (extract_step env sf) x ls) (record_all (usage_of_lines ls) u)"
proof (induction ls arbitrary: x u)
  case Nil
  then show ?case by (simp add: usage_of_lines_def record_all_def)
next
  case (Cons l ls)
  have "record_all (usage_of_lines (l # ls)) u = record_all (usage_of_lines ls) (record_all (usage_of_line l) u)"
    by (simp add: usage_of_lines_def record_all_def)
  then show ?case
    using Cons.IH[OF extract_step_ledger[OF Cons.prems]] by simp
qed

lemma ledger_init: "ledger xs_init new_usage"
  by (simp add: ledger_def usages_def all_segments_def xs_init_def owned_def new_usage_def kmap_def usage_totals_def)

lemma finish_take: "\<exists>n. finish_segments x = take n (all_segments x)"
proof (cases "xs_current x")
  case None
  then show ?thesis by (intro exI[of _ "length (xs_segments x)"]) (simp add: finish_segments_def all_segments_def)
next
  case (Some s)
  then show ?thesis
    by (cases "has_content s")
      (auto simp: finish_segments_def all_segments_def intro: exI[of _ "Suc (length (xs_segments x))"] exI[of _ "length (xs_segments x)"])
qed

lemma result_take:
  "\<exists>n. fst (extract_segments_and_facts env h sf ls) = take n (all_segments (foldl (extract_step env sf) xs_init ls))"
proof -
  obtain n where n: "finish_segments (foldl (extract_step env sf) xs_init ls) = take n (all_segments (foldl (extract_step env sf) xs_init ls))"
    using finish_take by blast
  obtain m where "collapse_adjacent_identical_segments h (finish_segments (foldl (extract_step env sf) xs_init ls))
      = take m (finish_segments (foldl (extract_step env sf) xs_init ls))"
    using collapse_take by blast
  then show ?thesis
    using n by (intro exI[of _ "min m n"]) (simp add: extract_segments_and_facts_def Let_def)
qed

text \<open>
  C38 (usage_conserved): splitting a transcript neither loses nor doubles tokens. Over all segments of
  a pass, the open one included, the token totals add up to those of one accumulator fed with
  every usage record of the file, and each message id is counted in at most one segment of the result.
\<close>

theorem usage_conserved:
  "usage_sum (map (\<lambda>s. usage_totals (ss_usage s)) (all_segments (foldl (extract_step env sf) xs_init ls)))
     = usage_totals (record_all (usage_of_lines ls) new_usage)
   \<and> length (filter (\<lambda>s. i \<in> fst ` set (su_by_message_id (ss_usage s))) (fst (extract_segments_and_facts env h sf ls))) \<le> 1"
proof -
  define x where "x = foldl (extract_step env sf) xs_init ls"
  have l: "ledger x (record_all (usage_of_lines ls) new_usage)"
    unfolding x_def by (rule extract_pass_ledger[OF ledger_init])
  have sum: "usage_sum (map (\<lambda>s. usage_totals (ss_usage s)) (all_segments x)) = usage_totals (record_all (usage_of_lines ls) new_usage)"
    using ownedD(1)[OF l[unfolded ledger_def]] by (simp add: usages_def comp_def)
  have "length (filter (\<lambda>v. i \<in> fst ` set (su_by_message_id v)) (usages x)) \<le> 1"
    using owned_once l unfolding ledger_def by blast
  then have one: "length (filter (\<lambda>s. i \<in> fst ` set (su_by_message_id (ss_usage s))) (all_segments x)) \<le> 1"
    by (simp add: usages_def filter_map comp_def)
  obtain n where n: "fst (extract_segments_and_facts env h sf ls) = take n (all_segments x)"
    unfolding x_def using result_take by blast
  have "length (filter P (take n xs)) \<le> length (filter P xs)" for P and xs :: "SessionSegment list"
    by (metis append_take_drop_id filter_append le_add1 length_append)
  then show ?thesis
    using sum one n le_trans unfolding x_def by metis
qed

end
