(* ===== verification/ClaudeStore.thy ===== *)
theory ClaudeStore
  imports ClaudeSegments Watchdog
begin

text \<open>
  Storing the segments of a Claude transcript (\<open>insert_segments_with_facts\<close> and its callers in
  \<open>hippo-daemon/src/claude_session.rs\<close>): the upsert of the \<open>agentic_sessions\<close> rows, the enrichment
  queue, the health counters and the session facts, all in one transaction. Rows keep lists where
  the columns hold their JSON text, and group the token, hook and subagent columns in the records
  they come from. Columns no code here reads or writes are left out.
\<close>

subsection \<open>Tables\<close>

record agentic_session =
  as_id :: int
  as_session_id :: string
  as_harness :: string
  as_segment_index :: int
  as_project_dir :: string
  as_cwd :: string
  as_git_branch :: "string option"
  as_title :: string
  as_parent_session_id :: "string option"
  as_is_subagent :: bool
  as_summary_text :: string
  as_tool_calls :: "ToolCallSummary list"
  as_user_prompts :: "string list"
  as_source_file :: path
  as_message_count :: int
  as_token_count :: int
  as_start_time :: int
  as_end_time :: int
  as_content_hash :: "string option"
  as_last_enriched_content_hash :: "string option"
  as_created_at :: int
  as_model :: string
  as_requested_model :: "string option"
  as_effort :: "string option"
  as_totals :: UsageTotals
  as_subagent :: SubagentMeta
  as_hooks :: HookStats
  as_probe_tag :: "string option"

record queue_row =
  qr_session_id :: int
  qr_status :: string
  qr_retry_count :: int
  qr_error_message :: "string option"
  qr_enqueued_at :: int
  qr_updated_at :: int

record facts_row =
  fr_session_id :: string
  fr_facts :: SessionFacts
  fr_updated_at :: int

record claude_db =
  cd_sessions :: "agentic_session list"
  cd_queue :: "queue_row list"
  cd_health :: "SourceHealthRow list option"
  cd_facts :: "facts_row list"

text \<open>The clock, the date printers of \<open>chrono\<close> and the hash inputs.\<close>

record store_env =
  se_now_ms :: int
  se_start_text :: "int \<Rightarrow> string"
  se_end_text :: "int \<Rightarrow> string"
  se_hash :: hash_env

subsection \<open>Summary text\<close>

definition nl :: string where "nl = [CHR 0x0A]"

definition build_summary_text :: "store_env \<Rightarrow> SessionSegment \<Rightarrow> string" where
  "build_summary_text env seg =
     ''Claude Code session segment (project: '' @ ss_cwd seg @ '', branch: '' @ unwrap_or (ss_git_branch seg) ''unknown'' @ '')'' @ nl
     @ (if ss_start_time seg > 0 \<and> ss_end_time seg > 0
        then ''Time: '' @ se_start_text env (ss_start_time seg) @ '' - '' @ se_end_text env (ss_end_time seg) @ nl else [])
     @ (if ss_user_prompts seg \<noteq> []
        then nl @ ''User prompts:'' @ nl @ concat (map (\<lambda>p. ''- '' @ p @ nl) (ss_user_prompts seg)) else [])
     @ (if ss_tool_calls seg \<noteq> []
        then nl @ ''Tool calls ('' @ nat_str (length (ss_tool_calls seg)) @ ''):'' @ nl
             @ concat (map (\<lambda>t. ''- '' @ tc_name t @ '': '' @ tc_summary t @ nl) (ss_tool_calls seg)) else [])
     @ (if ss_assistant_texts seg \<noteq> []
        then nl @ ''Assistant reasoning:'' @ nl @ join (nl @ nl) (ss_assistant_texts seg) @ nl else [])"

subsection \<open>The upsert\<close>

definition row_key :: "agentic_session \<Rightarrow> string \<times> string \<times> int" where
  "row_key r = (as_session_id r, as_harness r, as_segment_index r)"

definition seg_key :: "SessionSegment \<Rightarrow> string \<times> string \<times> int" where
  "seg_key seg = (ss_session_id seg, ''claude-code'', ss_segment_index seg)"

text \<open>The \<open>VALUES\<close> of the insert.\<close>

definition insert_row :: "store_env \<Rightarrow> SessionFacts option \<Rightarrow> SessionSegment \<Rightarrow> int \<Rightarrow> agentic_session" where
  "insert_row env facts seg row_id =
     \<lparr>as_id = row_id, as_session_id = ss_session_id seg, as_harness = ''claude-code'',
      as_segment_index = ss_segment_index seg, as_project_dir = ss_project_dir seg, as_cwd = ss_cwd seg,
      as_git_branch = ss_git_branch seg, as_title = unwrap_or (Option.bind facts fa_title) [],
      as_parent_session_id = ss_parent_session_id seg, as_is_subagent = ss_is_subagent seg,
      as_summary_text = build_summary_text env seg, as_tool_calls = ss_tool_calls seg,
      as_user_prompts = ss_user_prompts seg, as_source_file = ss_source_file seg,
      as_message_count = ss_message_count seg, as_token_count = token_count (ss_usage seg),
      as_start_time = ss_start_time seg, as_end_time = ss_end_time seg,
      as_content_hash = Some (compute_segment_content_hash (se_hash env) seg),
      as_last_enriched_content_hash = None, as_created_at = se_now_ms env,
      as_model = unwrap_or (usage_model (ss_usage seg)) [],
      as_requested_model = usage_requested_model (ss_usage seg), as_effort = usage_effort (ss_usage seg),
      as_totals = usage_totals (ss_usage seg), as_subagent = ss_subagent seg, as_hooks = ss_hooks seg,
      as_probe_tag = None\<rparr>"

text \<open>The \<open>DO UPDATE SET\<close> list: identity columns and \<open>last_enriched_content_hash\<close> stay.\<close>

definition update_row :: "agentic_session \<Rightarrow> agentic_session \<Rightarrow> agentic_session" where
  "update_row excluded r =
     r\<lparr>as_end_time := as_end_time excluded, as_summary_text := as_summary_text excluded,
       as_tool_calls := as_tool_calls excluded, as_user_prompts := as_user_prompts excluded,
       as_message_count := as_message_count excluded, as_token_count := as_token_count excluded,
       as_content_hash := as_content_hash excluded, as_model := as_model excluded,
       as_requested_model := as_requested_model excluded, as_effort := as_effort excluded,
       as_totals := as_totals excluded, as_subagent := as_subagent excluded, as_hooks := as_hooks excluded,
       as_title := (if as_title excluded \<noteq> [] then as_title excluded else as_title r),
       as_is_subagent := as_is_subagent excluded, as_parent_session_id := as_parent_session_id excluded,
       as_project_dir := as_project_dir excluded\<rparr>"

definition next_row_id :: "agentic_session list \<Rightarrow> int" where
  "next_row_id rows = (case sql_max (map as_id rows) of None \<Rightarrow> 1 | Some m \<Rightarrow> m + 1)"

definition find_row :: "string \<times> string \<times> int \<Rightarrow> agentic_session list \<Rightarrow> agentic_session option" where
  "find_row k rows = find (\<lambda>r. row_key r = k) rows"

definition upsert_row :: "store_env \<Rightarrow> SessionFacts option \<Rightarrow> SessionSegment \<Rightarrow> agentic_session list \<Rightarrow> agentic_session list" where
  "upsert_row env facts seg rows =
     (case find_row (seg_key seg) rows of
        None \<Rightarrow> rows @ [insert_row env facts seg (next_row_id rows)]
      | Some _ \<Rightarrow> map (\<lambda>r. if row_key r = seg_key seg then update_row (insert_row env facts seg (as_id r)) r else r) rows)"

subsection \<open>Queue, health, facts\<close>

definition queue_status :: "int \<Rightarrow> queue_row list \<Rightarrow> string option" where
  "queue_status i q = map_option qr_status (find (\<lambda>r. qr_session_id r = i) q)"

definition enqueue :: "int \<Rightarrow> int \<Rightarrow> queue_row list \<Rightarrow> queue_row list" where
  "enqueue now_ms i q =
     (if list_ex (\<lambda>r. qr_session_id r = i) q
      then map (\<lambda>r. if qr_session_id r = i \<and> qr_status r \<noteq> ''processing''
                    then r\<lparr>qr_status := ''pending'', qr_retry_count := 0, qr_error_message := None, qr_updated_at := now_ms\<rparr>
                    else r) q
      else q @ [\<lparr>qr_session_id = i, qr_status = ''pending'', qr_retry_count = 0, qr_error_message = None,
                 qr_enqueued_at = now_ms, qr_updated_at = now_ms\<rparr>])"

definition count_event :: "int \<Rightarrow> int \<Rightarrow> SourceHealthRow list \<Rightarrow> SourceHealthRow list" where
  "count_event seg_ts now_ms rows = map (\<lambda>r. if sh_source r = ''agentic-session-claude''
     then r\<lparr>sh_last_event_ts := Some (max (unwrap_or (sh_last_event_ts r) 0) seg_ts), sh_last_success_ts := Some now_ms,
            sh_events_last_1h := sh_events_last_1h r + 1, sh_events_last_24h := sh_events_last_24h r + 1,
            sh_consecutive_failures := 0, sh_updated_at := now_ms\<rparr>
     else r) rows"

text \<open>One round of the segment loop; the flag says whether the segment counts as inserted.\<close>

definition store_segment ::
  "store_env \<Rightarrow> SessionFacts option \<Rightarrow> claude_db \<Rightarrow> SessionSegment \<Rightarrow> claude_db \<times> bool" where
  "store_segment env facts db seg =
     (let content_hash = compute_segment_content_hash (se_hash env) seg;
          prior = find_row (seg_key seg) (cd_sessions db);
          was_insert = (prior = None);
          prior_queue_status = Option.bind prior (\<lambda>r. queue_status (as_id r) (cd_queue db));
          prior_last = Option.bind prior as_last_enriched_content_hash;
          row_id = (case prior of None \<Rightarrow> next_row_id (cd_sessions db) | Some r \<Rightarrow> as_id r);
          hash_changed = (case prior of None \<Rightarrow> False
            | Some r \<Rightarrow> (case as_content_hash r of None \<Rightarrow> True | Some h \<Rightarrow> h \<noteq> content_hash));
          already_pending = (prior \<noteq> None \<and> \<not> hash_changed \<and> prior_queue_status = Some ''pending'');
          changed = (was_insert \<or> hash_changed)
      in (db\<lparr>cd_sessions := upsert_row env facts seg (cd_sessions db),
             cd_queue := (if has_content seg \<and> \<not> already_pending
                             \<and> decide_enqueue was_insert content_hash prior_last prior_queue_status
                          then enqueue (se_now_ms env) row_id (cd_queue db) else cd_queue db),
             cd_health := (if changed then map_option (count_event (ss_end_time seg) (se_now_ms env)) (cd_health db)
                           else cd_health db)\<rparr>, changed))"

text \<open>\<open>COALESCE(excluded.c, c)\<close> for each fact.\<close>

definition merge_facts :: "SessionFacts \<Rightarrow> SessionFacts \<Rightarrow> SessionFacts" where
  "merge_facts new old =
     \<lparr>fa_cost_usd = opt_or (fa_cost_usd new) (fa_cost_usd old),
      fa_duration_ms = opt_or (fa_duration_ms new) (fa_duration_ms old),
      fa_tool_duration_ms = opt_or (fa_tool_duration_ms new) (fa_tool_duration_ms old),
      fa_lines_added = opt_or (fa_lines_added new) (fa_lines_added old),
      fa_lines_removed = opt_or (fa_lines_removed new) (fa_lines_removed old),
      fa_title = opt_or (fa_title new) (fa_title old),
      fa_cli_version = opt_or (fa_cli_version new) (fa_cli_version old),
      fa_pr_links = (if fa_pr_links new \<noteq> [] then fa_pr_links new else fa_pr_links old)\<rparr>"

definition upsert_session_facts :: "string \<Rightarrow> SessionFacts \<Rightarrow> int \<Rightarrow> facts_row list \<Rightarrow> facts_row list" where
  "upsert_session_facts session_id facts now_ms rows =
     (if list_ex (\<lambda>r. fr_session_id r = session_id) rows
      then map (\<lambda>r. if fr_session_id r = session_id
             then r\<lparr>fr_facts := merge_facts facts (fr_facts r), fr_updated_at := now_ms\<rparr> else r) rows
      else rows @ [\<lparr>fr_session_id = session_id, fr_facts = facts, fr_updated_at = now_ms\<rparr>])"

definition store_step :: "store_env \<Rightarrow> SessionFacts option \<Rightarrow> claude_db \<Rightarrow> SessionSegment \<Rightarrow> claude_db" where
  "store_step env facts db seg = fst (store_segment env facts db seg)"

text \<open>The loop with its two counters.\<close>

fun store_segments ::
  "store_env \<Rightarrow> SessionFacts option \<Rightarrow> SessionSegment list \<Rightarrow> claude_db \<Rightarrow> claude_db \<times> nat \<times> nat" where
  "store_segments env facts [] db = (db, 0, 0)"
| "store_segments env facts (seg # segs) db = (case store_segment env facts db seg of (db1, changed) \<Rightarrow>
     (case store_segments env facts segs db1 of (db2, inserted, skipped) \<Rightarrow>
        (db2, if changed then (inserted + 1, skipped) else (inserted, skipped + 1))))"

text \<open>
  One attempt of the transaction. The fault list says how the coming attempts end: \<open>Some e\<close> rolls
  back with \<open>e\<close>, \<open>None\<close> or an exhausted list commits.
\<close>

definition insert_segments_with_facts ::
  "store_env \<Rightarrow> SessionFacts option \<Rightarrow> SessionSegment list \<Rightarrow> claude_db \<times> sqlite_error option list
    \<Rightarrow> (sqlite_error + nat \<times> nat) \<times> claude_db \<times> sqlite_error option list" where
  "insert_segments_with_facts env facts segs s = (case s of (db, faults) \<Rightarrow>
     (case faults of
        Some e # rest \<Rightarrow> (Inl e, (db, rest))
      | _ \<Rightarrow> (case store_segments env facts segs db of (db1, counts) \<Rightarrow>
          (Inr counts,
           (case (facts, segs) of
              (Some f, first # _) \<Rightarrow> db1\<lparr>cd_facts := upsert_session_facts (ss_session_id first) f (se_now_ms env) (cd_facts db1)\<rparr>
            | _ \<Rightarrow> db1), tl faults))))"

definition try_insert_segments ::
  "store_env \<Rightarrow> SessionSegment list \<Rightarrow> SessionFacts option \<Rightarrow> claude_db \<times> sqlite_error option list
    \<Rightarrow> (nat \<times> nat \<times> nat) \<times> claude_db" where
  "try_insert_segments env segs facts s =
     (case with_busy_retry (insert_segments_with_facts env facts segs) s of
        (Inr (inserted, skipped), (db, _)) \<Rightarrow> ((inserted, skipped, 0), db)
      | (Inl _, (db, _)) \<Rightarrow> ((0, 0, 1), db))"

text \<open>\<open>file_lines = None\<close>: the transcript could not be opened.\<close>

definition ingest_session_file ::
  "extract_env \<Rightarrow> store_env \<Rightarrow> path \<Rightarrow> json option \<Rightarrow> json option list option \<Rightarrow> claude_db \<times> sqlite_error option list
    \<Rightarrow> (nat \<times> nat \<times> nat) \<times> claude_db" where
  "ingest_session_file env senv p meta file_lines s = (case file_lines of
     None \<Rightarrow> ((0, 0, 1), fst s)
   | Some ls \<Rightarrow> (case extract_segments_for_ingest env (se_hash senv) (session_file p) meta ls of (segs, facts) \<Rightarrow>
       if segs = [] then ((0, 0, 0), fst s) else try_insert_segments senv segs (Some facts) s))"

subsection \<open>Comparison with the database, identity repair\<close>

definition session_file_matches_db ::
  "extract_env \<Rightarrow> hash_env \<Rightarrow> path \<Rightarrow> json option list \<Rightarrow> agentic_session list \<Rightarrow> bool \<times> int option" where
  "session_file_matches_db env h p file_lines rows =
     (let segs = fst (extract_segments_and_facts env h (session_file p) file_lines);
          stored = foldl (\<lambda>m r. al_put (as_segment_index r) (as_content_hash r) m) []
            (filter (\<lambda>r. as_source_file r = p \<and> as_harness r = ''claude-code'' \<and> as_probe_tag r = None) rows)
      in (length stored = length segs
          \<and> list_all (\<lambda>s. map_of stored (ss_segment_index s) = Some (Some (compute_segment_content_hash h s))) segs,
          sql_max (map ss_end_time segs)))"

definition ascii_lower :: "string \<Rightarrow> string" where
  "ascii_lower = map (\<lambda>c. if CHR ''A'' \<le> c \<and> c \<le> CHR ''Z'' then char_of (of_char c + 32 :: nat) else c)"

text \<open>\<open>LIKE '%/subagents/%'\<close> on an absolute path, without regard to ASCII case.\<close>

definition like_subagents :: "path \<Rightarrow> bool" where
  "like_subagents p = list_ex (\<lambda>c. ascii_lower c = ''subagents'') (butlast p)"

definition repair_fixes :: "agentic_session list \<Rightarrow> (int \<times> string option \<times> string) list" where
  "repair_fixes rows = List.map_filter (\<lambda>r.
     let identity = session_file (as_source_file r) in
     if as_harness r = ''claude-code'' \<and> like_subagents (as_source_file r) \<and> \<not> as_is_subagent r \<and> sf_is_subagent identity
     then Some (as_id r, sf_parent_session_id identity, sf_project_dir identity) else None) rows"

definition apply_fix :: "agentic_session list \<times> nat \<Rightarrow> int \<times> string option \<times> string \<Rightarrow> agentic_session list \<times> nat" where
  "apply_fix st fix = (case fix of (i, parent_id, project) \<Rightarrow>
     (map (\<lambda>r. if as_id r = i \<and> \<not> as_is_subagent r
           then r\<lparr>as_is_subagent := True, as_parent_session_id := parent_id, as_project_dir := project\<rparr> else r) (fst st),
      snd st + length (filter (\<lambda>r. as_id r = i \<and> \<not> as_is_subagent r) (fst st))))"

text \<open>\<open>chunks(n)\<close>.\<close>

function chunks :: "nat \<Rightarrow> 'a list \<Rightarrow> 'a list list" where
  "chunks n xs = (if xs = [] \<or> n = 0 then [] else take n xs # chunks n (drop n xs))"
  by pat_completeness auto
termination by (relation "measure (\<lambda>(n, xs). length xs)") auto

declare chunks.simps [simp del]

definition repair_subagent_identity_in_batches :: "nat \<Rightarrow> agentic_session list \<Rightarrow> agentic_session list \<times> nat" where
  "repair_subagent_identity_in_batches batch_size rows =
     foldl (foldl apply_fix) (rows, 0) (chunks (max batch_size 1) (repair_fixes rows))"

definition REPAIR_BATCH_SIZE :: nat where [hippo_defs]: "REPAIR_BATCH_SIZE = 500"

definition repair_subagent_identity :: "agentic_session list \<Rightarrow> agentic_session list \<times> nat" where
  "repair_subagent_identity rows = repair_subagent_identity_in_batches REPAIR_BATCH_SIZE rows"

subsection \<open>Integrity of the tables\<close>

text \<open>The unique keys of the two tables and the foreign key between them.\<close>

definition store_inv :: "claude_db \<Rightarrow> bool" where
  "store_inv db \<longleftrightarrow> distinct (map as_id (cd_sessions db)) \<and> distinct (map row_key (cd_sessions db))
     \<and> distinct (map qr_session_id (cd_queue db))
     \<and> set (map qr_session_id (cd_queue db)) \<subseteq> set (map as_id (cd_sessions db))"

lemma update_row_fixed [simp]:
  "row_key (update_row e r) = row_key r" "as_id (update_row e r) = as_id r"
  "as_last_enriched_content_hash (update_row e r) = as_last_enriched_content_hash r"
  "as_content_hash (update_row e r) = as_content_hash e"
  by (simp_all add: update_row_def row_key_def)

lemma insert_row_fixed [simp]:
  "row_key (insert_row env facts seg i) = seg_key seg" "as_id (insert_row env facts seg i) = i"
  "as_content_hash (insert_row env facts seg i) = Some (compute_segment_content_hash (se_hash env) seg)"
  by (simp_all add: insert_row_def row_key_def seg_key_def)

lemma update_row_self: "update_row r r = r"
  by (simp add: update_row_def)

lemma update_row_insert_idem:
  "update_row (insert_row env facts seg j) (update_row (insert_row env facts seg i) r) = update_row (insert_row env facts seg i) r"
  by (simp add: update_row_def insert_row_def)

lemma update_row_insert_id: "update_row (insert_row env facts seg j) r = update_row (insert_row env facts seg i) r"
  by (simp add: update_row_def insert_row_def)

lemma next_row_id_fresh: "next_row_id rows \<notin> set (map as_id rows)"
proof (cases "sql_max (map as_id rows)")
  case None
  then show ?thesis by simp
next
  case (Some m)
  then have "x \<le> m" if "x \<in> set (map as_id rows)" for x using sql_max_Some that by blast
  then show ?thesis using Some by (fastforce simp: next_row_id_def)
qed

lemma find_row_Some:
  "find_row k rows = Some r \<Longrightarrow> r \<in> set rows \<and> row_key r = k"
  by (auto simp: find_row_def find_Some_iff)

lemma find_row_None: "find_row k rows = None \<longleftrightarrow> k \<notin> set (map row_key rows)"
  by (auto simp: find_row_def find_None_iff)

lemma find_map_key: "(\<And>x. g (f x) = g x) \<Longrightarrow> find (\<lambda>x. g x = k) (map f xs) = map_option f (find (\<lambda>x. g x = k) xs)"
  by (induction xs) simp_all

lemma find_append: "find P (xs @ ys) = (case find P xs of None \<Rightarrow> find P ys | Some x \<Rightarrow> Some x)"
  by (induction xs) simp_all

lemma upsert_row_ids:
  "set (map as_id rows) \<subseteq> set (map as_id (upsert_row env facts seg rows))"
  "distinct (map as_id rows) \<Longrightarrow> distinct (map as_id (upsert_row env facts seg rows))"
proof -
  have m: "map as_id (upsert_row env facts seg rows) = (case find_row (seg_key seg) rows of
      None \<Rightarrow> map as_id rows @ [next_row_id rows] | Some _ \<Rightarrow> map as_id rows)"
    by (simp add: upsert_row_def comp_def if_distrib cong: if_cong split: option.split)
  show "set (map as_id rows) \<subseteq> set (map as_id (upsert_row env facts seg rows))"
    unfolding m by (auto split: option.split)
  show "distinct (map as_id rows) \<Longrightarrow> distinct (map as_id (upsert_row env facts seg rows))"
    unfolding m using next_row_id_fresh[of rows] by (auto split: option.split)
qed

lemma upsert_row_keys:
  "distinct (map row_key rows) \<Longrightarrow> distinct (map row_key (upsert_row env facts seg rows))"
proof -
  have m: "map row_key (upsert_row env facts seg rows) = (case find_row (seg_key seg) rows of
      None \<Rightarrow> map row_key rows @ [seg_key seg] | Some _ \<Rightarrow> map row_key rows)"
    by (simp add: upsert_row_def comp_def if_distrib cong: if_cong split: option.split)
  show "distinct (map row_key rows) \<Longrightarrow> distinct (map row_key (upsert_row env facts seg rows))"
    unfolding m using find_row_None[of "seg_key seg" rows] by (auto split: option.split)
qed

lemma find_upsert_row:
  "find_row k (upsert_row env facts seg rows) =
     (if k = seg_key seg
      then Some (case find_row k rows of None \<Rightarrow> insert_row env facts seg (next_row_id rows)
                 | Some r \<Rightarrow> update_row (insert_row env facts seg (as_id r)) r)
      else find_row k rows)"
proof (cases "find_row (seg_key seg) rows")
  case None
  then show ?thesis
    by (auto simp: upsert_row_def find_row_def find_append split: option.split)
next
  case (Some r)
  have "find_row k (upsert_row env facts seg rows)
      = map_option (\<lambda>r. if row_key r = seg_key seg then update_row (insert_row env facts seg (as_id r)) r else r) (find_row k rows)"
    unfolding find_row_def upsert_row_def Some[unfolded find_row_def] option.case
    by (rule find_map_key) simp
  then show ?thesis
    using Some find_row_Some by (cases "find_row k rows") auto
qed

lemma enqueue_ids: "set (map qr_session_id (enqueue now i q)) = insert i (set (map qr_session_id q))"
  "distinct (map qr_session_id q) \<Longrightarrow> distinct (map qr_session_id (enqueue now i q))"
proof -
  have m: "map qr_session_id (enqueue now i q) =
      (if i \<in> set (map qr_session_id q) then map qr_session_id q else map qr_session_id q @ [i])"
    by (auto simp: enqueue_def comp_def if_distrib list_ex_iff cong: if_cong)
  show "set (map qr_session_id (enqueue now i q)) = insert i (set (map qr_session_id q))"
    unfolding m by auto
  show "distinct (map qr_session_id q) \<Longrightarrow> distinct (map qr_session_id (enqueue now i q))"
    unfolding m by auto
qed

lemma queue_status_enqueue:
  "queue_status j (enqueue now i q) =
     (if j = i then Some (if queue_status i q = Some ''processing'' then ''processing'' else ''pending'') else queue_status j q)"
proof (cases "list_ex (\<lambda>r. qr_session_id r = i) q")
  case True
  let ?f = "\<lambda>r. if qr_session_id r = i \<and> qr_status r \<noteq> ''processing''
      then r\<lparr>qr_status := ''pending'', qr_retry_count := 0, qr_error_message := None, qr_updated_at := now\<rparr> else r"
  have e: "queue_status j (enqueue now i q) = map_option (\<lambda>r. qr_status (?f r)) (find (\<lambda>r. qr_session_id r = j) q)"
    using True find_map_key[of qr_session_id ?f j q] by (simp add: queue_status_def enqueue_def option.map_comp comp_def)
  show ?thesis
  proof (cases "find (\<lambda>r. qr_session_id r = j) q")
    case None
    then have "j \<noteq> i" using True by (auto simp: find_None_iff list_ex_iff)
    then show ?thesis using None e by (simp add: queue_status_def)
  next
    case (Some r)
    then have "qr_session_id r = j" by (auto simp: find_Some_iff)
    then show ?thesis using Some e by (auto simp: queue_status_def)
  qed
next
  case False
  then have n: "find (\<lambda>r. qr_session_id r = i) q = None" by (auto simp: find_None_iff list_ex_iff)
  show ?thesis
    using False n by (auto simp: queue_status_def enqueue_def find_append split: option.split)
qed

subsection \<open>One segment\<close>

lemma store_step_sessions [simp]: "cd_sessions (store_step env facts db seg) = upsert_row env facts seg (cd_sessions db)"
  by (simp add: store_step_def store_segment_def Let_def)

lemma store_step_facts [simp]: "cd_facts (store_step env facts db seg) = cd_facts db"
  by (simp add: store_step_def store_segment_def Let_def)

lemma store_step_new:
  assumes "find_row (seg_key seg) (cd_sessions db) = None"
  shows "cd_queue (store_step env facts db seg) =
    (if has_content seg then enqueue (se_now_ms env) (next_row_id (cd_sessions db)) (cd_queue db) else cd_queue db)"
  using assms by (simp add: store_step_def store_segment_def Let_def decide_enqueue_def)

text \<open>On a known row the queue is rewritten unless the content is already waiting, in work or enriched.\<close>

definition needs_queue :: "string \<Rightarrow> agentic_session \<Rightarrow> string option \<Rightarrow> bool" where
  "needs_queue h r status \<longleftrightarrow> \<not> (as_content_hash r = Some h \<and> status = Some ''pending'')
     \<and> status \<noteq> Some ''processing'' \<and> as_last_enriched_content_hash r \<noteq> Some h"

lemma store_step_known:
  assumes "find_row (seg_key seg) (cd_sessions db) = Some r"
  shows "cd_queue (store_step env facts db seg) =
    (if has_content seg \<and> needs_queue (compute_segment_content_hash (se_hash env) seg) r (queue_status (as_id r) (cd_queue db))
     then enqueue (se_now_ms env) (as_id r) (cd_queue db) else cd_queue db)"
  using assms by (auto simp: store_step_def store_segment_def Let_def decide_enqueue_def needs_queue_def split: option.splits)

lemma store_step_queue_cases:
  obtains "cd_queue (store_step env facts db seg) = cd_queue db"
  | i where "cd_queue (store_step env facts db seg) = enqueue (se_now_ms env) i (cd_queue db)"
      "i \<in> set (map as_id (cd_sessions (store_step env facts db seg)))"
      "find_row (seg_key seg) (cd_sessions db) = None \<and> i = next_row_id (cd_sessions db)
        \<or> (\<exists>r. find_row (seg_key seg) (cd_sessions db) = Some r \<and> i = as_id r)"
proof (cases "find_row (seg_key seg) (cd_sessions db)")
  case None
  have "next_row_id (cd_sessions db) \<in> set (map as_id (cd_sessions (store_step env facts db seg)))"
    using None by (simp add: upsert_row_def)
  then show thesis
    using that store_step_new[OF None, of env facts] None by (cases "has_content seg") auto
next
  case (Some r)
  have "as_id r \<in> set (map as_id (cd_sessions (store_step env facts db seg)))"
    using find_row_Some[OF Some] upsert_row_ids(1)[of "cd_sessions db"] by fastforce
  then show thesis
    using that store_step_known[OF Some, of env facts] Some by (auto split: if_splits)
qed

lemma store_inv_step: "store_inv db \<Longrightarrow> store_inv (store_step env facts db seg)"
proof -
  assume inv: "store_inv db"
  let ?db = "store_step env facts db seg"
  have s: "distinct (map as_id (cd_sessions ?db))" "distinct (map row_key (cd_sessions ?db))"
    "set (map as_id (cd_sessions db)) \<subseteq> set (map as_id (cd_sessions ?db))"
    using inv upsert_row_ids[of "cd_sessions db"] upsert_row_keys[of "cd_sessions db"]
    unfolding store_inv_def store_step_sessions by blast+
  have fk: "set (map qr_session_id (cd_queue db)) \<subseteq> set (map as_id (cd_sessions ?db))"
    "distinct (map qr_session_id (cd_queue db))"
    using inv s(3) unfolding store_inv_def by (meson subset_trans)+
  show ?thesis
  proof (rule store_step_queue_cases[of env facts db seg])
    assume q: "cd_queue ?db = cd_queue db"
    show ?thesis unfolding store_inv_def q using fk s(1,2) by blast
  next
    fix i assume i: "cd_queue ?db = enqueue (se_now_ms env) i (cd_queue db)" "i \<in> set (map as_id (cd_sessions ?db))"
    have "set (map qr_session_id (cd_queue ?db)) \<subseteq> set (map as_id (cd_sessions ?db))"
      unfolding i(1) enqueue_ids(1) using fk(1) i(2) by blast
    moreover have "distinct (map qr_session_id (cd_queue ?db))"
      unfolding i(1) by (rule enqueue_ids(2)[OF fk(2)])
    ultimately show ?thesis
      unfolding store_inv_def using s(1,2) by blast
  qed
qed

text \<open>
  \<open>handled\<close>: the row's content is waiting, in work, or what the brain enriched last. \<open>settled\<close>: the
  segment's row is what the upsert would write, and is handled if the segment has content.
\<close>

definition handled :: "claude_db \<Rightarrow> agentic_session \<Rightarrow> bool" where
  "handled db r \<longleftrightarrow> queue_status (as_id r) (cd_queue db) = Some ''pending''
     \<or> queue_status (as_id r) (cd_queue db) = Some ''processing''
     \<or> (as_last_enriched_content_hash r \<noteq> None \<and> as_last_enriched_content_hash r = as_content_hash r)"

definition settled :: "store_env \<Rightarrow> SessionFacts option \<Rightarrow> SessionSegment \<Rightarrow> claude_db \<Rightarrow> bool" where
  "settled env facts seg db \<longleftrightarrow> (\<exists>r. find_row (seg_key seg) (cd_sessions db) = Some r
     \<and> update_row (insert_row env facts seg 0) r = r
     \<and> as_content_hash r = Some (compute_segment_content_hash (se_hash env) seg)
     \<and> (has_content seg \<longrightarrow> handled db r))"

lemma settledI:
  assumes "find_row (seg_key seg) (cd_sessions db) = Some r" "update_row (insert_row env facts seg 0) r = r"
    "as_content_hash r = Some (compute_segment_content_hash (se_hash env) seg)" "has_content seg \<Longrightarrow> handled db r"
  shows "settled env facts seg db"
  using assms unfolding settled_def by blast

lemma store_settles:
  assumes "store_inv db"
  shows "settled env facts seg (store_step env facts db seg)"
proof (cases "find_row (seg_key seg) (cd_sessions db)")
  case None
  let ?r = "insert_row env facts seg (next_row_id (cd_sessions db))"
  have f: "find_row (seg_key seg) (cd_sessions (store_step env facts db seg)) = Some ?r"
    by (simp add: find_upsert_row None)
  have "next_row_id (cd_sessions db) \<notin> set (map qr_session_id (cd_queue db))"
    using assms next_row_id_fresh[of "cd_sessions db"] unfolding store_inv_def by blast
  then have "find (\<lambda>r. qr_session_id r = next_row_id (cd_sessions db)) (cd_queue db) = None"
    by (force simp: find_None_iff)
  then have "queue_status (next_row_id (cd_sessions db)) (cd_queue db) = None" by (simp add: queue_status_def)
  then have "handled (store_step env facts db seg) ?r" if "has_content seg"
    using that by (simp add: handled_def store_step_new[OF None] queue_status_enqueue)
  moreover have "update_row (insert_row env facts seg 0) ?r = ?r"
    using update_row_insert_id[of env facts seg 0 ?r] update_row_self by metis
  ultimately show ?thesis using f by (intro settledI) simp_all
next
  case (Some r)
  let ?h = "compute_segment_content_hash (se_hash env) seg"
  let ?r = "update_row (insert_row env facts seg (as_id r)) r"
  have f: "find_row (seg_key seg) (cd_sessions (store_step env facts db seg)) = Some ?r"
    by (simp add: find_upsert_row Some)
  have q: "cd_queue (store_step env facts db seg) =
      (if needs_queue ?h r (queue_status (as_id r) (cd_queue db)) then enqueue (se_now_ms env) (as_id r) (cd_queue db)
       else cd_queue db)" if "has_content seg"
    using that by (simp add: store_step_known[OF Some])
  have "handled (store_step env facts db seg) ?r" if "has_content seg"
    using q[OF that] by (auto simp: handled_def queue_status_enqueue needs_queue_def)
  then show ?thesis
    using f update_row_insert_idem by (intro settledI) simp_all
qed

lemma row_ids_differ:
  assumes "store_inv db" "find_row k (cd_sessions db) = Some r" "find_row k' (cd_sessions db) = Some r'" "k \<noteq> k'"
  shows "as_id r \<noteq> as_id r'"
proof
  assume "as_id r = as_id r'"
  then have "r = r'"
    using assms(1) find_row_Some[OF assms(2)] find_row_Some[OF assms(3)]
    unfolding store_inv_def by (meson inj_on_def distinct_map)
  then show False using assms(4) find_row_Some[OF assms(2)] find_row_Some[OF assms(3)] by simp
qed

lemma store_keeps:
  assumes "store_inv db" "settled env facts seg db" "seg_key seg \<noteq> seg_key other"
  shows "settled env facts seg (store_step env facts' db other)"
proof -
  obtain r where r: "find_row (seg_key seg) (cd_sessions db) = Some r" "update_row (insert_row env facts seg 0) r = r"
    "as_content_hash r = Some (compute_segment_content_hash (se_hash env) seg)" "has_content seg \<longrightarrow> handled db r"
    using assms(2) unfolding settled_def by blast
  have f: "find_row (seg_key seg) (cd_sessions (store_step env facts' db other)) = Some r"
    using assms(3) r(1) by (simp add: find_upsert_row)
  have "as_id r \<in> set (map as_id (cd_sessions db))" using find_row_Some[OF r(1)] by simp
  then have fresh: "as_id r \<noteq> next_row_id (cd_sessions db)" using next_row_id_fresh by metis
  have "queue_status (as_id r) (cd_queue (store_step env facts' db other)) = queue_status (as_id r) (cd_queue db)"
  proof (rule store_step_queue_cases[of env facts' db other])
    fix i assume i: "cd_queue (store_step env facts' db other) = enqueue (se_now_ms env) i (cd_queue db)"
      "find_row (seg_key other) (cd_sessions db) = None \<and> i = next_row_id (cd_sessions db)
        \<or> (\<exists>r. find_row (seg_key other) (cd_sessions db) = Some r \<and> i = as_id r)"
    then have "as_id r \<noteq> i"
      using fresh row_ids_differ[OF assms(1) r(1)] assms(3) by blast
    then show ?thesis by (simp add: i(1) queue_status_enqueue)
  qed simp
  then have "handled (store_step env facts' db other) r = handled db r" by (simp add: handled_def)
  then show ?thesis using f r by (intro settledI) simp_all
qed

lemma store_segment_settled:
  assumes "store_inv db" "settled env facts seg db"
  shows "store_segment env facts db seg = (db, False)"
proof -
  let ?h = "compute_segment_content_hash (se_hash env) seg"
  obtain r where r: "find_row (seg_key seg) (cd_sessions db) = Some r" "update_row (insert_row env facts seg 0) r = r"
    "as_content_hash r = Some ?h" "has_content seg \<longrightarrow> handled db r"
    using assms(2) unfolding settled_def by blast
  have same: "(if row_key x = seg_key seg then update_row (insert_row env facts seg (as_id x)) x else x) = x"
    if "x \<in> set (cd_sessions db)" for x
  proof (cases "row_key x = seg_key seg")
    case True
    then have "x = r"
      using that assms(1) find_row_Some[OF r(1)] unfolding store_inv_def by (metis inj_on_def distinct_map)
    then show ?thesis using r(2) update_row_insert_id by metis
  qed simp
  then have s: "upsert_row env facts seg (cd_sessions db) = cd_sessions db"
    by (simp add: upsert_row_def r(1) map_idI)
  have "\<not> needs_queue ?h r (queue_status (as_id r) (cd_queue db))" if "has_content seg"
    using r(3,4) that by (auto simp: handled_def needs_queue_def)
  then have "cd_queue (store_step env facts db seg) = cd_queue db"
    unfolding store_step_known[OF r(1)] by auto
  then show ?thesis
    by (simp add: store_step_def store_segment_def Let_def s r(1,3))
qed

subsection \<open>A batch\<close>

interpretation store: settling "store_step env facts" store_inv "settled env facts" "\<lambda>a b. seg_key a = seg_key b" for env facts
proof unfold_locales
  fix db seg other
  show "store_inv db \<Longrightarrow> store_inv (store_step env facts db seg)" by (rule store_inv_step)
  show "store_inv db \<Longrightarrow> settled env facts seg (store_step env facts db seg)" by (rule store_settles)
  show "store_inv db \<Longrightarrow> settled env facts seg db \<Longrightarrow> seg_key seg \<noteq> seg_key other
      \<Longrightarrow> settled env facts seg (store_step env facts db other)" by (rule store_keeps)
  show "store_inv db \<Longrightarrow> settled env facts seg db \<Longrightarrow> store_step env facts db seg = db"
    by (simp add: store_step_def store_segment_settled)
qed

lemma store_segments_fold: "fst (store_segments env facts segs db) = foldl (store_step env facts) db segs"
proof (induction segs arbitrary: db)
  case (Cons seg segs)
  obtain db1 ch where one: "store_segment env facts db seg = (db1, ch)" by (cases "store_segment env facts db seg")
  obtain db2 i k where two: "store_segments env facts segs db1 = (db2, i, k)" by (cases "store_segments env facts segs db1")
  show ?case using Cons.IH[of db1] by (simp add: store_step_def one two)
qed simp

lemma store_segments_count:
  "fst (snd (store_segments env facts segs db)) + snd (snd (store_segments env facts segs db)) = length segs"
proof (induction segs arbitrary: db)
  case (Cons seg segs)
  obtain db1 ch where one: "store_segment env facts db seg = (db1, ch)" by (cases "store_segment env facts db seg")
  obtain db2 i k where two: "store_segments env facts segs db1 = (db2, i, k)" by (cases "store_segments env facts segs db1")
  show ?case using Cons.IH[of db1] by (simp add: one two)
qed simp

lemma store_segments_settled:
  "store_inv db \<Longrightarrow> (\<And>s. s \<in> set segs \<Longrightarrow> settled env facts s db)
   \<Longrightarrow> store_segments env facts segs db = (db, 0, length segs)"
  by (induction segs) (simp_all add: store_segment_settled)

text \<open>What a successful ingest leaves behind.\<close>

lemma settled_facts [simp]: "settled env facts seg (db\<lparr>cd_facts := f\<rparr>) = settled env facts seg db"
  by (simp add: settled_def handled_def)

lemma store_inv_facts [simp]: "store_inv (db\<lparr>cd_facts := f\<rparr>) = store_inv db"
  by (simp add: store_inv_def)

lemma insert_attempt:
  assumes "insert_segments_with_facts env facts segs (db, faults) = (Inr counts, s')"
  shows "\<exists>f. fst s' = (fst (store_segments env facts segs db))\<lparr>cd_facts := f\<rparr>
    \<and> counts = snd (store_segments env facts segs db)"
proof -
  obtain db1 c where st: "store_segments env facts segs db = (db1, c)"
    by (cases "store_segments env facts segs db")
  obtain f where F: "(case (facts, segs) of
      (Some f, first # _) \<Rightarrow> db1\<lparr>cd_facts := upsert_session_facts (ss_session_id first) f (se_now_ms env) (cd_facts db1)\<rparr>
    | _ \<Rightarrow> db1) = db1\<lparr>cd_facts := f\<rparr>"
  proof (cases "facts = None \<or> segs = []")
    case True
    then show thesis using that[of "cd_facts db1"] by (cases facts) auto
  next
    case False
    then show thesis using that by (cases facts; cases segs) auto
  qed
  have "insert_segments_with_facts env facts segs (db, faults) = (Inr c, (db1\<lparr>cd_facts := f\<rparr>, tl faults))
      \<or> (\<exists>e. insert_segments_with_facts env facts segs (db, faults) = (Inl e, (db, tl faults)))"
    unfolding insert_segments_with_facts_def prod.case st F[unfolded prod.case] by (simp split: list.split option.split)
  then show ?thesis
    using assms by (auto simp: st)
qed

lemma insert_attempt_failed:
  assumes "insert_segments_with_facts env facts segs (db, faults) = (Inl e, s')"
  shows "fst s' = db"
  using assms by (auto simp: insert_segments_with_facts_def split: list.splits option.splits prod.splits)

lemma try_insert_ok:
  assumes "try_insert_segments env segs facts (db, faults) = ((i, k, 0), db')"
  shows "\<exists>f. db' = (fst (store_segments env facts segs db))\<lparr>cd_facts := f\<rparr> \<and> (i, k) = snd (store_segments env facts segs db)"
proof -
  obtain r s' where w: "with_busy_retry (insert_segments_with_facts env facts segs) (db, faults) = (r, s')"
    by (cases "with_busy_retry (insert_segments_with_facts env facts segs) (db, faults)")
  then obtain c where r: "r = Inr c" "c = (i, k)" "fst s' = db'"
    using assms by (cases r; cases s') (auto simp: try_insert_segments_def split: prod.splits)
  obtain r1 s1 where one: "insert_segments_with_facts env facts segs (db, faults) = (r1, s1)"
    by (cases "insert_segments_with_facts env facts segs (db, faults)")
  show ?thesis
  proof (cases r1)
    case (Inr c1)
    then have "r = Inr c1" "s' = s1" using w one by (simp_all add: with_busy_retry_def)
    then show ?thesis using insert_attempt[of env facts segs db faults c1 s1] one Inr r by auto
  next
    case (Inl e)
    then have s1: "s1 = (db, snd s1)" using insert_attempt_failed one by (metis prod.collapse)
    have "insert_segments_with_facts env facts segs s1 = (r, s')"
      using w one Inl r(1) by (auto simp: with_busy_retry_def split: if_splits)
    then show ?thesis using insert_attempt[of env facts segs db "snd s1" c s'] s1 r by simp
  qed
qed

lemma ingest_segments:
  "fst (extract_segments_for_ingest env h sf meta ls)
     = map (\<lambda>s. s\<lparr>ss_subagent := read_subagent_meta sf meta\<rparr>) (fst (extract_segments_and_facts env h sf ls))"
  by (simp add: extract_segments_for_ingest_def split: prod.split)

lemma ingest_keys_distinct:
  "sorted_wrt (\<lambda>a b. seg_key a \<noteq> seg_key b) (fst (extract_segments_for_ingest env h sf meta ls))"
proof -
  let ?segs = "fst (extract_segments_for_ingest env h sf meta ls)"
  have "map ss_segment_index ?segs = map ss_segment_index (fst (extract_segments_and_facts env h sf ls))"
    by (simp add: ingest_segments comp_def)
  then have i: "map ss_segment_index ?segs = map int [0..<length ?segs]"
    using extract_indices[of env h sf ls] by (simp add: ingest_segments)
  have "ss_segment_index (?segs ! k) = int k" if "k < length ?segs" for k
    using arg_cong[OF i, of "\<lambda>xs. xs ! k"] that by simp
  then show ?thesis by (auto simp: sorted_wrt_iff_nth_less seg_key_def)
qed

lemma ingest_content: "s \<in> set (fst (extract_segments_for_ingest env h sf meta ls)) \<Longrightarrow> has_content s"
  using extract_content[of _ env h sf ls] by (auto simp: ingest_segments has_content_def)

lemma ingest_ok:
  assumes "store_inv db"
    and "ingest_session_file env senv p meta (Some ls) (db, faults) = ((i, k, 0), db')"
    and "extract_segments_for_ingest env (se_hash senv) (session_file p) meta ls = (segs, facts)"
  shows "store_inv db'" and "s \<in> set segs \<Longrightarrow> settled senv (Some facts) s db'"
    and "s \<in> set segs \<Longrightarrow> has_content s"
proof -
  have segs: "segs = fst (extract_segments_for_ingest env (se_hash senv) (session_file p) meta ls)"
    by (simp add: assms(3))
  have "\<exists>f. db' = (foldl (store_step senv (Some facts)) db segs)\<lparr>cd_facts := f\<rparr>"
  proof (cases "segs = []")
    case True
    then show ?thesis
      using assms(2,3) by (auto simp: ingest_session_file_def intro: exI[of _ "cd_facts db'"])
  next
    case False
    then have "try_insert_segments senv segs (Some facts) (db, faults) = ((i, k, 0), db')"
      using assms(2,3) by (simp add: ingest_session_file_def)
    then show ?thesis using try_insert_ok store_segments_fold by metis
  qed
  then obtain f where db': "db' = (foldl (store_step senv (Some facts)) db segs)\<lparr>cd_facts := f\<rparr>" ..
  show "store_inv db'" unfolding db' store_inv_facts by (rule store.run_inv[OF assms(1)])
  show "s \<in> set segs \<Longrightarrow> settled senv (Some facts) s db'"
    unfolding db' settled_facts
    by (rule store.run_settled[OF assms(1)]) (use ingest_keys_distinct segs in auto)
  show "s \<in> set segs \<Longrightarrow> has_content s"
    unfolding segs by (rule ingest_content)
qed

text \<open>
  C2 (content_never_stranded): after a successful ingest of a transcript, also one that needed the
  busy retry, every segment it yields has its row, holding the segment's content hash, and that
  content is waiting in the enrichment queue, being enriched, or exactly what was enriched last.
\<close>

theorem content_never_stranded:
  assumes "store_inv db"
    and "ingest_session_file env senv p meta (Some ls) (db, faults) = ((i, k, 0), db')"
    and "seg \<in> set (fst (extract_segments_for_ingest env (se_hash senv) (session_file p) meta ls))"
  shows "\<exists>r. find_row (seg_key seg) (cd_sessions db') = Some r
    \<and> as_content_hash r = Some (compute_segment_content_hash (se_hash senv) seg) \<and> handled db' r"
proof -
  obtain segs facts where e: "extract_segments_for_ingest env (se_hash senv) (session_file p) meta ls = (segs, facts)"
    by (cases "extract_segments_for_ingest env (se_hash senv) (session_file p) meta ls")
  have "settled senv (Some facts) seg db'" "has_content seg"
    using ingest_ok(2,3)[OF assms(1,2) e] assms(3) e by simp_all
  then show ?thesis unfolding settled_def by blast
qed

lemma settled_clock: "settled (senv\<lparr>se_now_ms := t\<rparr>) facts seg db = settled senv facts seg db"
proof -
  have b: "build_summary_text (senv\<lparr>se_now_ms := t\<rparr>) seg = build_summary_text senv seg"
    by (simp add: build_summary_text_def)
  show ?thesis unfolding settled_def by (simp add: update_row_def insert_row_def b)
qed


subsection \<open>Examples\<close>

definition example_extract_env :: extract_env where
  "example_extract_env = \<lparr>xe_redact = \<lambda>s. s, xe_parse_ts = \<lambda>s. Some 5, xe_now_ms = 7, xe_print = \<lambda>_. []\<rparr>"

definition example_store_env :: store_env where
  "example_store_env = \<lparr>se_now_ms = 9, se_start_text = \<lambda>_. [], se_end_text = \<lambda>_. [], se_hash = example_hash\<rparr>"

definition example_lines :: "json option list" where
  "example_lines = [Some (JObj [(''type'', JStr ''user''), (''timestamp'', JStr ''t''), (''message'', JStr ''hello'')])]"

definition empty_store :: claude_db where
  "empty_store = \<lparr>cd_sessions = [], cd_queue = [], cd_health = None, cd_facts = []\<rparr>"

definition example_path :: path where "example_path = [''p'', ''s.jsonl'']"

lemma empty_store_inv: "store_inv empty_store"
  by (simp add: store_inv_def empty_store_def)

text \<open>The first attempt finds the database busy, the retry stores one new segment.\<close>

lemma example_ingest:
  "fst (ingest_session_file example_extract_env example_store_env example_path None (Some example_lines)
     (empty_store, [Some DatabaseBusy])) = (1, 0, 0)"
  by code_simp

lemma example_ingest_pair:
  "ingest_session_file example_extract_env example_store_env example_path None (Some example_lines) (empty_store, [Some DatabaseBusy])
   = ((1, 0, 0), snd (ingest_session_file example_extract_env example_store_env example_path None (Some example_lines)
       (empty_store, [Some DatabaseBusy])))"
  using example_ingest by (metis prod.collapse)

lemma example_segments:
  "fst (extract_segments_for_ingest example_extract_env (se_hash example_store_env) (session_file example_path) None example_lines) \<noteq> []"
  by code_simp

lemma content_never_stranded_witness:
  "\<exists>r. find_row (seg_key (hd (fst (extract_segments_for_ingest example_extract_env (se_hash example_store_env)
          (session_file example_path) None example_lines))))
        (cd_sessions (snd (ingest_session_file example_extract_env example_store_env example_path None (Some example_lines)
          (empty_store, [Some DatabaseBusy])))) = Some r
     \<and> handled (snd (ingest_session_file example_extract_env example_store_env example_path None (Some example_lines)
          (empty_store, [Some DatabaseBusy]))) r"
  using content_never_stranded[OF empty_store_inv example_ingest_pair hd_in_set[OF example_segments]] by blast


subsection \<open>Identity repair\<close>

definition needs_repair :: "agentic_session \<Rightarrow> bool" where
  "needs_repair r \<longleftrightarrow> as_harness r = ''claude-code'' \<and> like_subagents (as_source_file r) \<and> \<not> as_is_subagent r
     \<and> sf_is_subagent (session_file (as_source_file r))"

definition repaired :: "agentic_session \<Rightarrow> agentic_session" where
  "repaired r = (let identity = session_file (as_source_file r) in
     r\<lparr>as_is_subagent := True, as_parent_session_id := sf_parent_session_id identity,
       as_project_dir := sf_project_dir identity\<rparr>)"

lemma concat_chunks: "0 < n \<Longrightarrow> concat (chunks n xs) = xs"
proof (induction n xs rule: chunks.induct)
  case (1 n xs)
  then show ?case by (subst chunks.simps) (simp add: 1(1))
qed

lemma foldl_foldl: "foldl (foldl f) a xss = foldl f a (concat xss)"
  by (induction xss arbitrary: a) simp_all

lemma apply_fix_other:
  "i \<notin> as_id ` set rows \<Longrightarrow> map (\<lambda>r. if as_id r = i \<and> \<not> as_is_subagent r then g r else r) rows = rows"
  "i \<notin> as_id ` set rows \<Longrightarrow> filter (\<lambda>r. as_id r = i \<and> \<not> as_is_subagent r) rows = []"
  by (auto intro!: map_idI simp: filter_empty_conv)

lemma apply_fixes:
  "distinct (map as_id (pre @ suf)) \<Longrightarrow>
   foldl apply_fix (pre @ suf, c) (repair_fixes suf)
     = (pre @ map (\<lambda>r. if needs_repair r then repaired r else r) suf, c + length (filter needs_repair suf))"
proof (induction suf arbitrary: pre c)
  case Nil
  then show ?case by (simp add: repair_fixes_def map_filter_simps)
next
  case (Cons r suf)
  show ?case
  proof (cases "needs_repair r")
    case True
    then have f: "repair_fixes (r # suf) = (as_id r, sf_parent_session_id (session_file (as_source_file r)),
        sf_project_dir (session_file (as_source_file r))) # repair_fixes suf"
      by (simp add: repair_fixes_def map_filter_simps needs_repair_def Let_def)
    have o: "as_id r \<notin> as_id ` set pre" "as_id r \<notin> as_id ` set suf" "\<not> as_is_subagent r"
      using Cons.prems True by (auto simp: needs_repair_def)
    have "apply_fix (pre @ r # suf, c) (as_id r, sf_parent_session_id (session_file (as_source_file r)),
        sf_project_dir (session_file (as_source_file r))) = ((pre @ [repaired r]) @ suf, c + 1)"
      using o by (simp add: apply_fix_def apply_fix_other repaired_def Let_def)
    moreover have "distinct (map as_id ((pre @ [repaired r]) @ suf))"
      using Cons.prems by (simp add: repaired_def Let_def)
    ultimately show ?thesis
      using Cons.IH[of "pre @ [repaired r]" "c + 1"] True by (simp add: f)
  next
    case False
    then have "repair_fixes (r # suf) = repair_fixes suf"
      by (auto simp: repair_fixes_def map_filter_simps needs_repair_def Let_def)
    then show ?thesis using Cons.IH[of "pre @ [r]" c] Cons.prems False by simp
  qed
qed

text \<open>
  C40 (repair_identity): the batched repair gives every subagent row still marked as a main session the
  identity its path implies, touches no other row, and counts the rows it changed, whatever
  the batch size.
\<close>

theorem repair_identity:
  assumes "distinct (map as_id rows)"
  shows "repair_subagent_identity_in_batches n rows
    = (map (\<lambda>r. if needs_repair r then repaired r else r) rows, length (filter needs_repair rows))"
  using apply_fixes[of "[]" rows 0] assms
  by (simp add: repair_subagent_identity_in_batches_def foldl_foldl concat_chunks)

lemma repair_identity_witness:
  "repair_subagent_identity_in_batches 1
     [(insert_row example_store_env None (example_segment ''a'') 1)\<lparr>as_source_file := [''p'', ''u'', ''subagents'', ''a.jsonl'']\<rparr>]
   = (map (\<lambda>r. if needs_repair r then repaired r else r)
        [(insert_row example_store_env None (example_segment ''a'') 1)\<lparr>as_source_file := [''p'', ''u'', ''subagents'', ''a.jsonl'']\<rparr>],
      length (filter needs_repair
        [(insert_row example_store_env None (example_segment ''a'') 1)\<lparr>as_source_file := [''p'', ''u'', ''subagents'', ''a.jsonl'']\<rparr>]))"
  by (rule repair_identity) simp

end
