(* ===== verification/EventStore.thy ===== *)
theory EventStore
  imports Watchdog "HOL-Library.List_Lexorder" "HOL-Library.Char_ord"
begin

text \<open>
  Storing captured events (\<open>hippo-core/src/events.rs\<close>, \<open>primitives.rs\<close>, \<open>storage.rs\<close>): the envelope,
  the shell and browser tables with their enrichment queues, sessions and environment snapshots, and
  the fallback files with their recovery. A fault argument \<open>Some e\<close> makes the SQL statement or file
  operation it stands for fail; the transaction is then rolled back. SHA-256 and the JSON printer
  are parameters.
\<close>

subsection \<open>events.rs\<close>

record CapturedOutput =
  co_content :: string
  co_truncated :: bool
  co_original_bytes :: int

record GitState =
  gs_repo :: "string option"
  gs_branch :: "string option"
  gs_commit :: "string option"
  gs_is_dirty :: bool

datatype ShellKind = Zsh | Bash | Fish | Unknown string

fun as_db_str :: "ShellKind \<Rightarrow> string" where
  "as_db_str Zsh = ''zsh''"
| "as_db_str Bash = ''bash''"
| "as_db_str Fish = ''fish''"
| "as_db_str (Unknown s) = s"

record ShellEvent =
  sv_session_id :: string
  sv_command :: string
  sv_exit_code :: int
  sv_duration_ms :: int
  sv_cwd :: string
  sv_hostname :: string
  sv_shell :: ShellKind
  sv_stdout :: "CapturedOutput option"
  sv_stderr :: "CapturedOutput option"
  sv_env_snapshot :: "(string \<times> string) list"
  sv_git_state :: "GitState option"
  sv_redaction_count :: int
  sv_tool_name :: "string option"

record BrowserEvent =
  bv_url :: string
  bv_title :: string
  bv_domain :: string
  bv_dwell_ms :: int
  bv_scroll_depth :: rat
  bv_extracted_text :: "string option"
  bv_search_query :: "string option"
  bv_referrer :: "string option"
  bv_content_hash :: "string option"

datatype EventPayload =
    Shell ShellEvent
  | FsChange json
  | IdeAction json
  | Browser BrowserEvent
  | AgenticToolCall json
  | Raw json

record EventEnvelope =
  ee_envelope_id :: string
  ee_producer_version :: int
  ee_timestamp :: int
  ee_payload :: EventPayload
  ee_probe_tag :: "string option"

subsection \<open>Tables\<close>

record session_row =
  sr_id :: int
  sr_start_time :: int
  sr_terminal :: "string option"
  sr_shell :: string
  sr_hostname :: string
  sr_username :: string

record env_row =
  vr_id :: int
  vr_content_hash :: string
  vr_env_json :: string

record event_row =
  er_id :: int
  er_session_id :: int
  er_timestamp :: int
  er_command :: string
  er_stdout :: "(string \<times> bool) option"
  er_stderr :: "(string \<times> bool) option"
  er_exit_code :: int
  er_duration_ms :: int
  er_cwd :: string
  er_hostname :: string
  er_shell :: string
  er_git :: "GitState option"
  er_env_snapshot_id :: "int option"
  er_redaction_count :: int
  er_envelope_id :: "string option"
  er_source_kind :: string
  er_tool_name :: "string option"
  er_probe_tag :: "string option"

record browser_row =
  br_id :: int
  br_timestamp :: int
  br_event :: BrowserEvent
  br_envelope_id :: "string option"
  br_probe_tag :: "string option"

record watch_row =
  wr_sha :: string
  wr_repo :: string
  wr_created_at :: int
  wr_expires_at :: int
  wr_terminal_status :: "string option"
  wr_notified :: bool

record event_db =
  ed_sessions :: "session_row list"
  ed_env :: "env_row list"
  ed_events :: "event_row list"
  ed_queue :: "int list"
  ed_browser :: "browser_row list"
  ed_browser_queue :: "int list"
  ed_health :: "SourceHealthRow list option"
  ed_watch :: "watch_row list"

record event_env =
  ev_now_ms :: int
  ev_username :: string
  ev_env_json :: "(string \<times> string) list \<Rightarrow> string"
  ev_sha256 :: "string \<Rightarrow> string"

text \<open>The rowid SQLite picks for an \<open>INTEGER PRIMARY KEY\<close>, and the cast \<open>u64 as i64\<close>.\<close>

definition next_rowid :: "int list \<Rightarrow> int" where
  "next_rowid ids = (case sql_max ids of None \<Rightarrow> 1 | Some m \<Rightarrow> m + 1)"

definition wrap_i64 :: "int \<Rightarrow> int" where
  "wrap_i64 n = (n + 2 ^ 63) mod 2 ^ 64 - 2 ^ 63"

lemma next_rowid_fresh: "next_rowid ids \<notin> set ids"
proof (cases "sql_max ids")
  case (Some m)
  then have "x \<le> m" if "x \<in> set ids" for x using sql_max_Some that by blast
  then show ?thesis using Some by (fastforce simp: next_rowid_def)
qed simp

subsection \<open>Sessions and snapshots\<close>

text \<open>\<open>WHERE terminal = ?1 ORDER BY start_time DESC LIMIT 1\<close>; the first of equal start times.\<close>

fun newest :: "session_row list \<Rightarrow> session_row option" where
  "newest [] = None"
| "newest (r # rs) = (case newest rs of None \<Rightarrow> Some r
     | Some q \<Rightarrow> if sr_start_time q > sr_start_time r then Some q else Some r)"

definition session_of :: "string \<Rightarrow> session_row list \<Rightarrow> int option" where
  "session_of uuid rows = map_option sr_id (newest (filter (\<lambda>r. sr_terminal r = Some uuid) rows))"

definition upsert_session ::
  "event_env \<Rightarrow> string option \<Rightarrow> event_db \<Rightarrow> string \<Rightarrow> string \<Rightarrow> string \<Rightarrow> (string + int) \<times> event_db" where
  "upsert_session env fault db uuid hostname shell = (case fault of
     Some e \<Rightarrow> (Inl e, db)
   | None \<Rightarrow> (case session_of uuid (ed_sessions db) of
       Some existing \<Rightarrow> (Inr existing, db)
     | None \<Rightarrow> (let i = next_rowid (map sr_id (ed_sessions db)) in
         (Inr i, db\<lparr>ed_sessions := ed_sessions db @ [\<lparr>sr_id = i, sr_start_time = ev_now_ms env,
            sr_terminal = Some uuid, sr_shell = shell, sr_hostname = hostname, sr_username = ev_username env\<rparr>]\<rparr>))))"

type_synonym session_map = "string \<Rightarrow> int option"

definition get_or_create_session ::
  "event_env \<Rightarrow> string option \<Rightarrow> event_db \<times> session_map \<Rightarrow> string \<Rightarrow> string \<Rightarrow> string \<Rightarrow> (string + int) \<times> event_db \<times> session_map" where
  "get_or_create_session env fault s uuid hostname shell = (case s of (db, m) \<Rightarrow>
     (case m uuid of
        Some i \<Rightarrow> (Inr i, (db, m))
      | None \<Rightarrow> (case upsert_session env fault db uuid hostname shell of
          (Inl e, db') \<Rightarrow> (Inl e, (db', m))
        | (Inr i, db') \<Rightarrow> (Inr i, (db', m(uuid \<mapsto> i))))))"

definition stable_env_json :: "event_env \<Rightarrow> (string \<times> string) list \<Rightarrow> string" where
  "stable_env_json env e = ev_env_json env (sort_key fst e)"

definition upsert_env_snapshot :: "event_env \<Rightarrow> event_db \<Rightarrow> (string \<times> string) list \<Rightarrow> int option \<times> event_db" where
  "upsert_env_snapshot env db e =
     (if e = [] then (None, db)
      else let json = stable_env_json env e; h = ev_sha256 env json in
        case find (\<lambda>r. vr_content_hash r = h) (ed_env db) of
          Some r \<Rightarrow> (Some (vr_id r),
            db\<lparr>ed_env := map (\<lambda>r. if vr_content_hash r = h \<and> vr_env_json r = [] then r\<lparr>vr_env_json := json\<rparr> else r) (ed_env db)\<rparr>)
        | None \<Rightarrow> (let i = next_rowid (map vr_id (ed_env db)) in
            (Some i, db\<lparr>ed_env := ed_env db @ [\<lparr>vr_id = i, vr_content_hash = h, vr_env_json = json\<rparr>]\<rparr>)))"

subsection \<open>Inserting events\<close>

definition source_kind_of :: "ShellEvent \<Rightarrow> string" where
  "source_kind_of e = (if sv_tool_name e \<noteq> None then ''claude-tool'' else ''shell'')"

definition output_cols :: "CapturedOutput option \<Rightarrow> (string \<times> bool) option" where
  "output_cols = map_option (\<lambda>out. (co_content out, co_truncated out))"

text \<open>The unique index on \<open>envelope_id\<close> ignores \<open>NULL\<close>.\<close>

definition taken_id :: "string option \<Rightarrow> string option list \<Rightarrow> bool" where
  "taken_id i ids \<longleftrightarrow> i \<noteq> None \<and> i \<in> set ids"

definition insert_event_at ::
  "event_env \<Rightarrow> string option \<Rightarrow> event_db \<Rightarrow> int \<Rightarrow> ShellEvent \<Rightarrow> int \<Rightarrow> int \<Rightarrow> int option \<Rightarrow> string option
    \<Rightarrow> string option \<Rightarrow> (string + int) \<times> event_db" where
  "insert_event_at env fault db session_id event timestamp redaction_count env_snapshot_id envelope_id probe_tag =
     (case fault of
        Some e \<Rightarrow> (Inl e, db)
      | None \<Rightarrow>
         (case (if sv_env_snapshot event = [] then (env_snapshot_id, db)
                else upsert_env_snapshot env db (sv_env_snapshot event)) of (snapshot, db1) \<Rightarrow>
          if taken_id envelope_id (map er_envelope_id (ed_events db)) then (Inr (- 1), db)
          else let i = next_rowid (map er_id (ed_events db1));
                   row = \<lparr>er_id = i, er_session_id = session_id, er_timestamp = timestamp,
                     er_command = sv_command event, er_stdout = output_cols (sv_stdout event),
                     er_stderr = output_cols (sv_stderr event), er_exit_code = sv_exit_code event,
                     er_duration_ms = wrap_i64 (sv_duration_ms event), er_cwd = sv_cwd event,
                     er_hostname = sv_hostname event, er_shell = as_db_str (sv_shell event),
                     er_git = sv_git_state event, er_env_snapshot_id = snapshot,
                     er_redaction_count = redaction_count, er_envelope_id = envelope_id,
                     er_source_kind = source_kind_of event, er_tool_name = sv_tool_name event,
                     er_probe_tag = probe_tag\<rparr>
               in (Inr i, db1\<lparr>ed_events := ed_events db1 @ [row],
                    ed_queue := (if probe_tag = None then ed_queue db1 @ [i] else ed_queue db1)\<rparr>)))"

definition insert_browser_event ::
  "event_env \<Rightarrow> string option \<Rightarrow> event_db \<Rightarrow> BrowserEvent \<Rightarrow> int \<Rightarrow> string option \<Rightarrow> string option \<Rightarrow> (string + int) \<times> event_db" where
  "insert_browser_event env fault db event timestamp_ms envelope_id probe_tag =
     (case fault of
        Some e \<Rightarrow> (Inl e, db)
      | None \<Rightarrow>
         if taken_id envelope_id (map br_envelope_id (ed_browser db)) then (Inr (- 1), db)
         else let i = next_rowid (map br_id (ed_browser db));
                  row = \<lparr>br_id = i, br_timestamp = timestamp_ms,
                    br_event = event\<lparr>bv_dwell_ms := wrap_i64 (bv_dwell_ms event),
                      bv_content_hash := map_option (ev_sha256 env) (bv_extracted_text event)\<rparr>,
                    br_envelope_id = envelope_id, br_probe_tag = probe_tag\<rparr>
              in (Inr i, db\<lparr>ed_browser := ed_browser db @ [row],
                   ed_browser_queue := (if probe_tag = None then ed_browser_queue db @ [i] else ed_browser_queue db)\<rparr>))"

subsection \<open>Fallback files\<close>

text \<open>
  A file of the fallback directory: its name without and with its last extension, and its
  non-blank lines, each the envelope it parses to.
\<close>

record fallback_file =
  ff_stem :: string
  ff_ext :: string
  ff_lines :: "EventEnvelope option list"

definition write_fallback_jsonl ::
  "string option \<Rightarrow> string \<Rightarrow> EventEnvelope \<Rightarrow> fallback_file list \<Rightarrow> (string + unit) \<times> fallback_file list" where
  "write_fallback_jsonl fault date envelope files = (case fault of
     Some e \<Rightarrow> (Inl e, files)
   | None \<Rightarrow> (Inr (),
       if list_ex (\<lambda>f. ff_stem f = date \<and> ff_ext f = ''jsonl'') files
       then map (\<lambda>f. if ff_stem f = date \<and> ff_ext f = ''jsonl'' then f\<lparr>ff_lines := ff_lines f @ [Some envelope]\<rparr> else f) files
       else files @ [\<lparr>ff_stem = date, ff_ext = ''jsonl'', ff_lines = [Some envelope]\<rparr>]))"

definition file_label :: "fallback_file \<Rightarrow> string" where
  "file_label f = ff_stem f @ ''.'' @ ff_ext f"

definition list_fallback_files :: "fallback_file list \<Rightarrow> fallback_file list" where
  "list_fallback_files files = sort_key file_label (filter (\<lambda>f. ff_ext f = ''jsonl'' \<or> ff_ext f = ''recovering'') files)"

subsection \<open>Recovery\<close>

record recovery =
  rc_db :: event_db
  rc_map :: session_map
  rc_files :: "fallback_file list"
  rc_faults :: "string option list"

definition next_fault :: "string option list \<Rightarrow> string option" where
  "next_fault fs = (case fs of [] \<Rightarrow> None | f # _ \<Rightarrow> f)"

text \<open>
  One line: \<open>Inl\<close> leaves the function through the question mark, \<open>Inr True\<close> counts as recovered,
  \<open>Inr False\<close> as an error of the file.
\<close>

definition recover_line :: "event_env \<Rightarrow> recovery \<Rightarrow> EventEnvelope option \<Rightarrow> (string + bool) \<times> recovery" where
  "recover_line env s line = (case line of
     None \<Rightarrow> (Inr False, s)
   | Some envelope \<Rightarrow> (case ee_payload envelope of
       Shell ev \<Rightarrow>
         (case get_or_create_session env (next_fault (rc_faults s)) (rc_db s, rc_map s) (sv_session_id ev)
                 (sv_hostname ev) (as_db_str (sv_shell ev)) of
            (Inl e, (db, m)) \<Rightarrow> (Inl e, s\<lparr>rc_db := db, rc_map := m, rc_faults := tl (rc_faults s)\<rparr>)
          | (Inr sid, (db, m)) \<Rightarrow>
             (case insert_event_at env (next_fault (tl (rc_faults s))) db sid ev (ee_timestamp envelope)
                     (sv_redaction_count ev) None (Some (ee_envelope_id envelope)) (ee_probe_tag envelope) of
                (r, db') \<Rightarrow> (Inr (\<not> isl r), s\<lparr>rc_db := db', rc_map := m, rc_faults := tl (tl (rc_faults s))\<rparr>)))
     | Browser ev \<Rightarrow>
         (case insert_browser_event env (next_fault (rc_faults s)) (rc_db s) ev (ee_timestamp envelope)
                 (Some (ee_envelope_id envelope)) (ee_probe_tag envelope) of
            (r, db') \<Rightarrow> (Inr (\<not> isl r), s\<lparr>rc_db := db', rc_faults := tl (rc_faults s)\<rparr>))
     | _ \<Rightarrow> (Inr False, s)))"

text \<open>The counts are the recovered lines and the errors.\<close>

fun recover_lines :: "event_env \<Rightarrow> EventEnvelope option list \<Rightarrow> recovery \<Rightarrow> (string + nat \<times> nat) \<times> recovery" where
  "recover_lines env [] s = (Inr (0, 0), s)"
| "recover_lines env (l # ls) s = (case recover_line env s l of
     (Inl e, s1) \<Rightarrow> (Inl e, s1)
   | (Inr ok, s1) \<Rightarrow> (case recover_lines env ls s1 of
       (Inl e, s2) \<Rightarrow> (Inl e, s2)
     | (Inr (good, bad), s2) \<Rightarrow> (Inr (if ok then (good + 1, bad) else (good, bad + 1)), s2)))"

definition rename_file :: "fallback_file \<Rightarrow> fallback_file \<Rightarrow> recovery \<Rightarrow> (string + unit) \<times> recovery" where
  "rename_file from to s = (case next_fault (rc_faults s) of
     Some e \<Rightarrow> (Inl e, s\<lparr>rc_faults := tl (rc_faults s)\<rparr>)
   | None \<Rightarrow> (Inr (), s\<lparr>rc_faults := tl (rc_faults s),
       rc_files := map (\<lambda>f. if file_label f = file_label from then to else f) (rc_files s)\<rparr>))"

text \<open>Claiming: files already claimed by an interrupted recovery come along as they are.\<close>

fun claim_files :: "string list \<Rightarrow> fallback_file list \<Rightarrow> recovery \<Rightarrow> (string + fallback_file list) \<times> recovery" where
  "claim_files uuids [] s = (Inr [], s)"
| "claim_files uuids (f # fs) s =
     (if ff_ext f = ''recovering''
      then (case claim_files uuids fs s of (Inl e, s') \<Rightarrow> (Inl e, s') | (Inr cs, s') \<Rightarrow> (Inr (f # cs), s'))
      else let target = f\<lparr>ff_stem := ff_stem f @ ''.'' @ (case uuids of [] \<Rightarrow> [] | u # _ \<Rightarrow> u) @ ''.jsonl'', ff_ext := ''recovering''\<rparr> in
        (case rename_file f target s of
           (Inl e, s') \<Rightarrow> (Inl e, s')
         | (Inr _, s1) \<Rightarrow> (case claim_files (tl uuids) fs s1 of
             (Inl e, s') \<Rightarrow> (Inl e, s') | (Inr cs, s') \<Rightarrow> (Inr (target # cs), s'))))"

fun recover_claimed :: "event_env \<Rightarrow> fallback_file list \<Rightarrow> recovery \<Rightarrow> (string + nat \<times> nat) \<times> recovery" where
  "recover_claimed env [] s = (Inr (0, 0), s)"
| "recover_claimed env (f # fs) s =
     (case next_fault (rc_faults s) of
        Some e \<Rightarrow> (Inl e, s\<lparr>rc_faults := tl (rc_faults s)\<rparr>)
      | None \<Rightarrow> (case recover_lines env (ff_lines f) (s\<lparr>rc_faults := tl (rc_faults s)\<rparr>) of
        (Inl e, s1) \<Rightarrow> (Inl e, s1)
      | (Inr (good, bad), s1) \<Rightarrow>
         (case rename_file f (f\<lparr>ff_ext := if bad = 0 then ''done'' else ''partial''\<rparr>) s1 of
            (Inl e, s2) \<Rightarrow> (Inl e, s2)
          | (Inr _, s2) \<Rightarrow> (case recover_claimed env fs s2 of
              (Inl e, s3) \<Rightarrow> (Inl e, s3)
            | (Inr (good', bad'), s3) \<Rightarrow> (Inr (good + good', bad + bad'), s3)))))"

definition recover_fallback_files ::
  "event_env \<Rightarrow> string list \<Rightarrow> recovery \<Rightarrow> (string + nat \<times> nat) \<times> recovery" where
  "recover_fallback_files env uuids s =
     (case claim_files uuids (list_fallback_files (rc_files s)) s of
        (Inl e, s1) \<Rightarrow> (Inl e, s1)
      | (Inr claimed, s1) \<Rightarrow> recover_claimed env claimed s1)"

subsection \<open>Watch list\<close>

definition watch_upsert :: "string \<Rightarrow> string \<Rightarrow> int \<Rightarrow> int \<Rightarrow> watch_row list \<Rightarrow> watch_row list" where
  "watch_upsert sha repo created expires rows =
     (if list_ex (\<lambda>r. wr_sha r = sha \<and> wr_repo r = repo) rows
      then map (\<lambda>r. if wr_sha r = sha \<and> wr_repo r = repo then r\<lparr>wr_expires_at := expires\<rparr> else r) rows
      else rows @ [\<lparr>wr_sha = sha, wr_repo = repo, wr_created_at = created, wr_expires_at = expires,
                    wr_terminal_status = None, wr_notified = False\<rparr>])"

text \<open>\<open>ORDER BY created_at DESC\<close>, stable on equal times.\<close>

definition list_active :: "int \<Rightarrow> watch_row list \<Rightarrow> watch_row list" where
  "list_active now_ms rows = sort_key (\<lambda>r. - wr_created_at r)
     (filter (\<lambda>r. wr_expires_at r > now_ms \<and> wr_terminal_status r = None) rows)"

definition mark_terminal :: "string \<Rightarrow> string \<Rightarrow> string \<Rightarrow> watch_row list \<Rightarrow> watch_row list \<times> bool" where
  "mark_terminal sha repo status rows =
     (map (\<lambda>r. if wr_sha r = sha \<and> wr_repo r = repo then r\<lparr>wr_terminal_status := Some status\<rparr> else r) rows,
      list_ex (\<lambda>r. wr_sha r = sha \<and> wr_repo r = repo) rows)"

definition pending_notifications :: "int \<Rightarrow> watch_row list \<Rightarrow> watch_row list" where
  "pending_notifications now_ms rows = filter (\<lambda>r. (wr_terminal_status r = Some ''failure'' \<or> wr_terminal_status r = Some ''cancelled'')
     \<and> \<not> wr_notified r \<and> wr_expires_at r > now_ms) rows"

definition mark_notified :: "string \<Rightarrow> string \<Rightarrow> watch_row list \<Rightarrow> watch_row list" where
  "mark_notified sha repo rows = map (\<lambda>r. if wr_sha r = sha \<and> wr_repo r = repo then r\<lparr>wr_notified := True\<rparr> else r) rows"

definition cleanup_expired :: "int \<Rightarrow> watch_row list \<Rightarrow> watch_row list \<times> nat" where
  "cleanup_expired now_ms rows =
     (let dead = (\<lambda>r. wr_expires_at r < now_ms \<and> wr_terminal_status r \<noteq> None \<and> wr_notified r)
      in (filter (\<lambda>r. \<not> dead r) rows, length (filter dead rows)))"

end
