(* ===== verification/Daemon.thy ===== *)
theory Daemon
  imports EventStore Alarms ClaudeStore
begin

text \<open>
  The daemon (\<open>hippo-daemon/src/daemon.rs\<close>): requests, the bounded event buffer, the flush to the
  database with the fallback files behind it, and the rolling counts. Also the redaction of a shell
  event (\<open>lib.rs\<close>) and the merge of the renamed health row (\<open>storage.rs\<close>). The state lists how the
  coming database and file operations end; the redaction engine and the answers to read-only queries are parameters.
\<close>

subsection \<open>Redaction of a shell event\<close>

record RedactionResult =
  rr_text :: string
  rr_count :: int
  rr_hits :: "(string \<times> int) list"

type_synonym redactor = "string \<Rightarrow> RedactionResult"

definition ENV_ALLOWLIST :: "string list" where
  "ENV_ALLOWLIST = [''HOME'', ''USER'', ''LOGNAME'', ''SHELL'', ''TERM'', ''COLORTERM'', ''TERM_PROGRAM'', ''LANG'',
     ''LC_ALL'', ''PATH'', ''PWD'', ''OLDPWD'', ''SHLVL'', ''HOSTNAME'', ''EDITOR'', ''VISUAL'', ''TMPDIR'',
     ''VIRTUAL_ENV'', ''CONDA_DEFAULT_ENV'', ''NODE_ENV'', ''RAILS_ENV'', ''APP_ENV'', ''AWS_PROFILE'',
     ''AWS_DEFAULT_REGION'', ''KUBECONFIG'', ''XDG_CONFIG_HOME'', ''XDG_DATA_HOME'', ''HIPPO_SESSION_ID'']"

fun add_hit :: "(string \<times> int) list \<Rightarrow> string \<times> int \<Rightarrow> (string \<times> int) list" where
  "add_hit [] h = [h]"
| "add_hit ((r, t) # hs) h = (if r = fst h then (r, t + snd h) # hs else (r, t) # add_hit hs h)"

type_synonym scrub_state = "int \<times> (string \<times> int) list"

definition scrub :: "redactor \<Rightarrow> scrub_state \<Rightarrow> string \<Rightarrow> string \<times> scrub_state" where
  "scrub redact st value = (let r = redact value in
     (rr_text r, (fst st + rr_count r, foldl add_hit (snd st) (rr_hits r))))"

fun scrub_env :: "redactor \<Rightarrow> scrub_state \<Rightarrow> (string \<times> string) list \<Rightarrow> (string \<times> string) list \<times> scrub_state" where
  "scrub_env redact st [] = ([], st)"
| "scrub_env redact st ((k, v) # e) = (case scrub redact st v of (v', st1) \<Rightarrow>
     (case scrub_env redact st1 e of (e', st2) \<Rightarrow> ((k, v') # e', st2)))"

definition scrub_output :: "redactor \<Rightarrow> scrub_state \<Rightarrow> CapturedOutput option \<Rightarrow> CapturedOutput option \<times> scrub_state" where
  "scrub_output redact st out = (case out of
     None \<Rightarrow> (None, st)
   | Some c \<Rightarrow> (case scrub redact st (co_content c) of (text, st1) \<Rightarrow> (Some (c\<lparr>co_content := text\<rparr>), st1)))"

definition redact_shell_event :: "redactor \<Rightarrow> ShellEvent \<Rightarrow> ShellEvent \<times> (string \<times> int) list" where
  "redact_shell_event redact event =
     (case scrub redact (0, []) (sv_command event) of (text, st1) \<Rightarrow>
      (case scrub_env redact st1 (filter (\<lambda>(k, v). k \<in> set ENV_ALLOWLIST) (sv_env_snapshot event)) of (env, st2) \<Rightarrow>
      (case scrub_output redact st2 (sv_stdout event) of (out, st3) \<Rightarrow>
      (case scrub_output redact st3 (sv_stderr event) of (err, st4) \<Rightarrow>
        (event\<lparr>sv_command := text, sv_redaction_count := fst st4, sv_env_snapshot := env,
               sv_stdout := out, sv_stderr := err\<rparr>, snd st4)))))"

subsection \<open>State\<close>

record daemon_state =
  ds_db :: event_db
  ds_map :: session_map
  ds_buffer :: "EventEnvelope list"
  ds_drop_count :: int
  ds_fallback :: "fallback_file list"
  ds_faults :: "string option list"
  ds_file_faults :: "string option list"

record daemon_env =
  de_event :: event_env
  de_redact :: redactor
  de_batch :: nat
  de_date :: string

definition take_fault :: "daemon_state \<Rightarrow> string option \<times> daemon_state" where
  "take_fault s = (next_fault (ds_faults s), s\<lparr>ds_faults := tl (ds_faults s)\<rparr>)"

text \<open>\<open>fetch_add(1)\<close> on an \<open>AtomicU64\<close>.\<close>

definition count_drop :: "daemon_state \<Rightarrow> daemon_state" where
  "count_drop s = s\<lparr>ds_drop_count := (ds_drop_count s + 1) mod 2 ^ 64\<rparr>"

definition map_health :: "(SourceHealthRow \<Rightarrow> SourceHealthRow) \<Rightarrow> (string \<Rightarrow> bool) \<Rightarrow> event_db \<Rightarrow> event_db" where
  "map_health f p db = db\<lparr>ed_health := map_option (map (\<lambda>r. if p (sh_source r) then f r else r)) (ed_health db)\<rparr>"

text \<open>An update of \<open>source_health\<close>: a failure is only logged.\<close>

definition try_health :: "(SourceHealthRow \<Rightarrow> SourceHealthRow) \<Rightarrow> (string \<Rightarrow> bool) \<Rightarrow> daemon_state \<Rightarrow> daemon_state" where
  "try_health f p s = (case take_fault s of
     (Some _, s') \<Rightarrow> s'
   | (None, s') \<Rightarrow> s'\<lparr>ds_db := map_health f p (ds_db s')\<rparr>)"

subsection \<open>Requests\<close>

datatype DaemonRequest =
    IngestEvent EventEnvelope
  | Query string
  | RegisterWatchSha string string int
  | UpdateSourceHealthHeartbeat string int "string option"
  | Shutdown

datatype DaemonResponse = Ack | Answer string | DaemonError string

definition ALLOWED_SOURCES :: "string list" where
  "ALLOWED_SOURCES = [''browser'', ''agentic-session-claude'', ''claude-tool'', ''shell'', ''watchdog'']"

definition heartbeat_row :: "int \<Rightarrow> string option \<Rightarrow> int \<Rightarrow> SourceHealthRow \<Rightarrow> SourceHealthRow" where
  "heartbeat_row ts err now_ms r = r\<lparr>sh_last_heartbeat_ts := Some ts, sh_last_error_msg := err,
     sh_last_error_ts := (if err \<noteq> None then Some now_ms else None), sh_updated_at := now_ms\<rparr>"

definition upsert_heartbeat :: "string \<Rightarrow> int \<Rightarrow> string option \<Rightarrow> int \<Rightarrow> SourceHealthRow list \<Rightarrow> SourceHealthRow list" where
  "upsert_heartbeat source ts err now_ms rows =
     (if list_ex (\<lambda>r. sh_source r = source) rows
      then map (\<lambda>r. if sh_source r = source then heartbeat_row ts err now_ms r else r) rows
      else rows @ [heartbeat_row ts err now_ms (new_health_row source now_ms)])"

definition missing_table :: string where "missing_table = ''no such table: source_health''"

text \<open>\<open>Query\<close> stands for the five requests that only read; \<open>answer\<close> is what they return.\<close>

definition handle_request ::
  "daemon_env \<Rightarrow> (string \<Rightarrow> daemon_state \<Rightarrow> DaemonResponse) \<Rightarrow> daemon_state \<Rightarrow> DaemonRequest \<Rightarrow> DaemonResponse \<times> daemon_state" where
  "handle_request env answer s req = (case req of
     IngestEvent envelope \<Rightarrow>
       (Ack, if length (ds_buffer s) \<ge> de_batch env * 4 then count_drop s
             else s\<lparr>ds_buffer := ds_buffer s @ [envelope]\<rparr>)
   | Query q \<Rightarrow> (answer q s, s)
   | RegisterWatchSha sha repo ttl_secs \<Rightarrow>
       (let now = ev_now_ms (de_event env); expires = wrap_i64 (now + wrap_i64 (wrap_i64 ttl_secs * 1000)) in
        (case take_fault s of
           (Some e, s') \<Rightarrow> (DaemonError e, s')
         | (None, s') \<Rightarrow> (Ack, s'\<lparr>ds_db := (ds_db s')\<lparr>ed_watch := watch_upsert sha repo now expires (ed_watch (ds_db s'))\<rparr>\<rparr>)))
   | UpdateSourceHealthHeartbeat source ts err \<Rightarrow>
       (if source \<notin> set ALLOWED_SOURCES
        then (DaemonError (''unknown source '' @ [CHR 0x27] @ source @ [CHR 0x27] @ ''; expected one of: '' @ join '', '' ALLOWED_SOURCES), s)
        else (case take_fault s of
          (Some e, s') \<Rightarrow> (DaemonError e, s')
        | (None, s') \<Rightarrow> (case ed_health (ds_db s') of
            None \<Rightarrow> (DaemonError missing_table, s')
          | Some rows \<Rightarrow> (Ack, s'\<lparr>ds_db := (ds_db s')\<lparr>ed_health := Some (upsert_heartbeat source ts
                (map_option (chars_take 512) err) (ev_now_ms (de_event env)) rows)\<rparr>\<rparr>))))
   | Shutdown \<Rightarrow> (Ack, s))"

subsection \<open>Flush\<close>

text \<open>What one flush gathers by source.\<close>

record flush_acc =
  fx_latest :: "(string \<times> int option) list"
  fx_counts :: "(string \<times> int) list"
  fx_errors :: "(string \<times> string) list"

definition no_acc :: flush_acc where
  "no_acc = \<lparr>fx_latest = [], fx_counts = [], fx_errors = []\<rparr>"

definition note_stored :: "string \<Rightarrow> EventEnvelope \<Rightarrow> flush_acc \<Rightarrow> flush_acc" where
  "note_stored source envelope a =
     (let latest = unwrap_or (map_of (fx_latest a) source) None in
      if ee_probe_tag envelope = None
      then a\<lparr>fx_latest := al_put source (opt_max latest (Some (ee_timestamp envelope))) (fx_latest a),
             fx_counts := al_put source (unwrap_or (map_of (fx_counts a) source) 0 + 1) (fx_counts a)\<rparr>
      else a\<lparr>fx_latest := al_put source latest (fx_latest a)\<rparr>)"

definition note_error :: "string \<Rightarrow> string \<Rightarrow> flush_acc \<Rightarrow> flush_acc" where
  "note_error source e a = (case map_of (fx_errors a) source of
     Some _ \<Rightarrow> a
   | None \<Rightarrow> a\<lparr>fx_errors := al_put source (chars_take 512 e) (fx_errors a)\<rparr>)"

text \<open>The fallback write of a failed event; it counts as a drop whether or not the file took it.\<close>

definition fall_back :: "daemon_env \<Rightarrow> EventEnvelope \<Rightarrow> daemon_state \<Rightarrow> daemon_state" where
  "fall_back env envelope s =
     (case write_fallback_jsonl (next_fault (ds_file_faults s)) (de_date env) envelope (ds_fallback s) of (_, files) \<Rightarrow>
       count_drop (s\<lparr>ds_fallback := files, ds_file_faults := tl (ds_file_faults s)\<rparr>))"

definition flush_shell :: "daemon_env \<Rightarrow> EventEnvelope \<Rightarrow> ShellEvent \<Rightarrow> daemon_state \<times> flush_acc \<Rightarrow> daemon_state \<times> flush_acc" where
  "flush_shell env envelope ev st = (case st of (s, a) \<Rightarrow>
     (let red = fst (redact_shell_event (de_redact env) ev);
          envelope' = envelope\<lparr>ee_payload := Shell red\<rparr>;
          source = source_kind_of red in
      case take_fault s of (f1, s1) \<Rightarrow>
      (case get_or_create_session (de_event env) f1 (ds_db s1, ds_map s1) (sv_session_id red) (sv_hostname red)
              (as_db_str (sv_shell red)) of
         (Inl e, (db, m)) \<Rightarrow> (fall_back env envelope' (s1\<lparr>ds_db := db, ds_map := m\<rparr>), a)
       | (Inr sid, (db, m)) \<Rightarrow>
          (case take_fault (s1\<lparr>ds_db := db, ds_map := m\<rparr>) of (f2, s2) \<Rightarrow>
           (case insert_event_at (de_event env) f2 (ds_db s2) sid red (ee_timestamp envelope) (sv_redaction_count red) None
                   (Some (ee_envelope_id envelope)) (ee_probe_tag envelope) of
              (Inr i, db') \<Rightarrow> (s2\<lparr>ds_db := db'\<rparr>, if i \<ge> 0 then note_stored source envelope a else a)
            | (Inl e, db') \<Rightarrow> (fall_back env envelope' (s2\<lparr>ds_db := db'\<rparr>), note_error source e a))))))"

definition flush_browser :: "daemon_env \<Rightarrow> EventEnvelope \<Rightarrow> BrowserEvent \<Rightarrow> daemon_state \<times> flush_acc \<Rightarrow> daemon_state \<times> flush_acc" where
  "flush_browser env envelope ev st = (case st of (s, a) \<Rightarrow>
     (case take_fault s of (f, s1) \<Rightarrow>
      (case insert_browser_event (de_event env) f (ds_db s1) ev (ee_timestamp envelope)
              (Some (ee_envelope_id envelope)) (ee_probe_tag envelope) of
         (Inr i, db) \<Rightarrow> (s1\<lparr>ds_db := db\<rparr>, if i \<ge> 0 then note_stored ''browser'' envelope a else a)
       | (Inl e, db) \<Rightarrow> (fall_back env envelope (s1\<lparr>ds_db := db\<rparr>), note_error ''browser'' e a))))"

definition flush_one :: "daemon_env \<Rightarrow> daemon_state \<times> flush_acc \<Rightarrow> EventEnvelope \<Rightarrow> daemon_state \<times> flush_acc" where
  "flush_one env st envelope = (case ee_payload envelope of
     Shell ev \<Rightarrow> flush_shell env envelope ev st
   | Browser ev \<Rightarrow> flush_browser env envelope ev st
   | _ \<Rightarrow> st)"

definition health_success :: "int \<Rightarrow> flush_acc \<Rightarrow> daemon_state \<Rightarrow> string \<times> int option \<Rightarrow> daemon_state" where
  "health_success now_ms a s entry = (case entry of (source, latest) \<Rightarrow>
     (let n = unwrap_or (map_of (fx_counts a) source) 0 in
      try_health (\<lambda>r. r\<lparr>sh_last_event_ts := (case latest of None \<Rightarrow> sh_last_event_ts r
             | Some t \<Rightarrow> Some (max (unwrap_or (sh_last_event_ts r) 0) t)),
           sh_last_success_ts := Some now_ms, sh_events_last_1h := sh_events_last_1h r + n,
           sh_events_last_24h := sh_events_last_24h r + n, sh_consecutive_failures := 0, sh_updated_at := now_ms\<rparr>)
        (\<lambda>x. x = source) s))"

definition health_error :: "int \<Rightarrow> daemon_state \<Rightarrow> string \<times> string \<Rightarrow> daemon_state" where
  "health_error now_ms s entry = (case entry of (source, msg) \<Rightarrow>
     try_health (\<lambda>r. r\<lparr>sh_last_error_ts := Some now_ms, sh_last_error_msg := Some msg,
         sh_consecutive_failures := sh_consecutive_failures r + 1, sh_updated_at := now_ms\<rparr>) (\<lambda>x. x = source) s)"

definition health_liveness :: "int \<Rightarrow> flush_acc \<Rightarrow> daemon_state \<Rightarrow> string \<Rightarrow> daemon_state" where
  "health_liveness now_ms a s source =
     (if map_of (fx_errors a) source \<noteq> None then s
      else try_health (\<lambda>r. r\<lparr>sh_last_success_ts := Some now_ms, sh_updated_at := now_ms\<rparr>) (\<lambda>x. x = source) s)"

text \<open>The accumulators are hash maps; their updates touch different rows, so the order is free.\<close>

definition flush_events :: "daemon_env \<Rightarrow> daemon_state \<Rightarrow> nat \<times> daemon_state" where
  "flush_events env s =
     (let now_ms = ev_now_ms (de_event env);
          events = take (de_batch env) (ds_buffer s);
          s0 = s\<lparr>ds_buffer := drop (de_batch env) (ds_buffer s)\<rparr> in
      if events = []
      then (0, try_health (\<lambda>r. r\<lparr>sh_last_success_ts := Some now_ms, sh_updated_at := now_ms\<rparr>)
                 (\<lambda>x. x = ''shell'' \<or> x = ''claude-tool'' \<or> x = ''browser'') s0)
      else case foldl (flush_one env) (s0, no_acc) events of (s1, a) \<Rightarrow>
        (length events,
         foldl (health_liveness now_ms a)
           (foldl (health_error now_ms) (foldl (health_success now_ms a) s1 (fx_latest a)) (fx_errors a))
           [''shell'', ''claude-tool'', ''browser'']))"

text \<open>Only the flush itself takes events from the buffer.\<close>

lemma take_fault_fields [simp]:
  "take_fault s = (f, s') \<Longrightarrow> ds_buffer s' = ds_buffer s \<and> ds_db s' = ds_db s \<and> ds_map s' = ds_map s
     \<and> ds_fallback s' = ds_fallback s \<and> ds_file_faults s' = ds_file_faults s"
  by (auto simp: take_fault_def)

lemma count_drop_fields [simp]:
  "ds_buffer (count_drop s) = ds_buffer s" "ds_db (count_drop s) = ds_db s" "ds_fallback (count_drop s) = ds_fallback s"
  "ds_file_faults (count_drop s) = ds_file_faults s"
  by (simp_all add: count_drop_def)

lemma fall_back_fields [simp]:
  "ds_buffer (fall_back env e s) = ds_buffer s" "ds_db (fall_back env e s) = ds_db s"
  "ds_fallback (fall_back env e s) = snd (write_fallback_jsonl (next_fault (ds_file_faults s)) (de_date env) e (ds_fallback s))"
  "ds_file_faults (fall_back env e s) = tl (ds_file_faults s)"
  by (simp_all add: fall_back_def split: prod.split)

lemma try_health_fields [simp]:
  "ds_buffer (try_health f p s) = ds_buffer s" "ds_fallback (try_health f p s) = ds_fallback s"
  "ds_file_faults (try_health f p s) = ds_file_faults s"
  by (auto simp: try_health_def split: prod.split option.split)

lemma try_health_db: "ds_db (try_health f p s) = ds_db s \<or> ds_db (try_health f p s) = map_health f p (ds_db s)"
  by (auto simp: try_health_def split: prod.split option.split)

lemma take_fault_eq: "take_fault s = (next_fault (ds_faults s), s\<lparr>ds_faults := tl (ds_faults s)\<rparr>)"
  by (simp add: take_fault_def)

lemma get_or_create_error: "get_or_create_session env f (db, m) u h sh = (Inl e, (db', m')) \<Longrightarrow> db' = db \<and> m' = m"
  by (auto simp: get_or_create_session_def upsert_session_def Let_def split: option.splits)

lemma insert_event_error: "insert_event_at env f db sid ev ts rc es i p = (Inl e, db') \<Longrightarrow> db' = db"
  by (auto simp: insert_event_at_def Let_def split: option.splits prod.splits if_splits)

lemma insert_browser_error: "insert_browser_event env f db ev ts i p = (Inl e, db') \<Longrightarrow> db' = db"
  by (auto simp: insert_browser_event_def Let_def split: option.splits if_splits)

definition redacted_envelope :: "daemon_env \<Rightarrow> EventEnvelope \<Rightarrow> ShellEvent \<Rightarrow> EventEnvelope" where
  "redacted_envelope env e ev = e\<lparr>ee_payload := Shell (fst (redact_shell_event (de_redact env) ev))\<rparr>"

text \<open>The three ways the flush of a shell event ends.\<close>

lemma flush_shell_cases:
  obtains (session) fs where
      "flush_shell env e ev (s, a) = (fall_back env (redacted_envelope env e ev) (s\<lparr>ds_faults := fs\<rparr>), a)"
  | (stored) f1 f2 fs red sid db m i db' a' where "red = fst (redact_shell_event (de_redact env) ev)"
      "get_or_create_session (de_event env) f1 (ds_db s, ds_map s) (sv_session_id red) (sv_hostname red) (as_db_str (sv_shell red)) = (Inr sid, (db, m))"
      "insert_event_at (de_event env) f2 db sid red (ee_timestamp e) (sv_redaction_count red) None (Some (ee_envelope_id e)) (ee_probe_tag e) = (Inr i, db')"
      "flush_shell env e ev (s, a) = (s\<lparr>ds_db := db', ds_map := m, ds_faults := fs\<rparr>, a')"
  | (failed) f1 fs red sid db m a' where "red = fst (redact_shell_event (de_redact env) ev)"
      "get_or_create_session (de_event env) f1 (ds_db s, ds_map s) (sv_session_id red) (sv_hostname red) (as_db_str (sv_shell red)) = (Inr sid, (db, m))"
      "flush_shell env e ev (s, a) = (fall_back env (redacted_envelope env e ev) (s\<lparr>ds_db := db, ds_map := m, ds_faults := fs\<rparr>), a')"
proof -
  define red where "red = fst (redact_shell_event (de_redact env) ev)"
  define f1 where "f1 = next_fault (ds_faults s)"
  define f2 where "f2 = next_fault (tl (ds_faults s))"
  obtain r db m where g: "get_or_create_session (de_event env) f1 (ds_db s, ds_map s)
      (sv_session_id red) (sv_hostname red) (as_db_str (sv_shell red)) = (r, (db, m))"
    by (metis prod.collapse)
  note start = flush_shell_def prod.case Let_def red_def[symmetric] take_fault_eq f1_def[symmetric]
  show thesis
  proof (cases r)
    case (Inl x)
    have dm: "db = ds_db s" "m = ds_map s" using get_or_create_error g Inl by blast+
    have "flush_shell env e ev (s, a) = (fall_back env (redacted_envelope env e ev)
        (s\<lparr>ds_faults := tl (ds_faults s), ds_db := db, ds_map := m\<rparr>), a)"
      unfolding start redacted_envelope_def using g Inl by simp
    moreover have "s\<lparr>ds_faults := tl (ds_faults s), ds_db := db, ds_map := m\<rparr> = s\<lparr>ds_faults := tl (ds_faults s)\<rparr>"
      unfolding dm by simp
    ultimately show thesis using session by simp
  next
    case (Inr sid)
    obtain r2 db' where i: "insert_event_at (de_event env) f2 db sid red (ee_timestamp e)
        (sv_redaction_count red) None (Some (ee_envelope_id e)) (ee_probe_tag e) = (r2, db')"
      by (metis prod.collapse)
    let ?s = "s\<lparr>ds_map := m, ds_faults := tl (tl (ds_faults s)), ds_db := db'\<rparr>"
    have fold: "s\<lparr>ds_map := m, ds_faults := tl (tl (ds_faults s)), ds_db := x\<rparr>
        = s\<lparr>ds_db := x, ds_map := m, ds_faults := tl (tl (ds_faults s))\<rparr>" for x by simp
    show thesis
    proof (cases r2)
      case (Inl x)
      have db': "db' = db" using insert_event_error i Inl by blast
      have "flush_shell env e ev (s, a) = (fall_back env (redacted_envelope env e ev) ?s, note_error (source_kind_of red) x a)"
        unfolding start redacted_envelope_def using g i Inr Inl by (simp add: f2_def[symmetric])
      then show thesis using failed[OF red_def] g Inr db' fold by metis
    next
      case r2: (Inr n)
      have "flush_shell env e ev (s, a) = (?s, if n \<ge> 0 then note_stored (source_kind_of red) e a else a)"
        unfolding start using g i Inr r2 by (simp add: f2_def[symmetric])
      then show thesis using stored[OF red_def] g i Inr r2 fold by metis
    qed
  qed
qed

lemma flush_browser_cases:
  obtains (stored) f fs i db a' where
      "insert_browser_event (de_event env) f (ds_db s) ev (ee_timestamp e) (Some (ee_envelope_id e)) (ee_probe_tag e) = (Inr i, db)"
      "flush_browser env e ev (s, a) = (s\<lparr>ds_db := db, ds_faults := fs\<rparr>, a')"
  | (failed) fs a' where "flush_browser env e ev (s, a) = (fall_back env e (s\<lparr>ds_faults := fs\<rparr>), a')"
proof -
  define f where "f = next_fault (ds_faults s)"
  obtain r db where i: "insert_browser_event (de_event env) f (ds_db s) ev (ee_timestamp e)
      (Some (ee_envelope_id e)) (ee_probe_tag e) = (r, db)"
    by (metis prod.collapse)
  let ?s = "s\<lparr>ds_faults := tl (ds_faults s), ds_db := db\<rparr>"
  have fold: "s\<lparr>ds_faults := tl (ds_faults s), ds_db := x\<rparr> = s\<lparr>ds_db := x, ds_faults := tl (ds_faults s)\<rparr>" for x by simp
  show thesis
  proof (cases r)
    case (Inl x)
    have db: "db = ds_db s" using insert_browser_error i Inl by blast
    have "flush_browser env e ev (s, a) = (fall_back env e ?s, note_error ''browser'' x a)"
      unfolding flush_browser_def prod.case take_fault_eq f_def[symmetric] using i Inl by simp
    moreover have "?s = s\<lparr>ds_faults := tl (ds_faults s)\<rparr>" unfolding db by simp
    ultimately show thesis using failed by simp
  next
    case (Inr n)
    have "flush_browser env e ev (s, a) = (?s, if n \<ge> 0 then note_stored ''browser'' e a else a)"
      unfolding flush_browser_def prod.case take_fault_eq f_def[symmetric] using i Inr by simp
    then show thesis using stored i Inr fold by metis
  qed
qed

lemma flush_shell_buffer [simp]: "ds_buffer (fst (flush_shell env e ev st)) = ds_buffer (fst st)"
proof (cases st)
  case (Pair s a)
  show ?thesis unfolding Pair by (rule flush_shell_cases[where env = env and e = e and ev = ev and s = s and a = a]) simp_all
qed

lemma flush_browser_buffer [simp]: "ds_buffer (fst (flush_browser env e ev st)) = ds_buffer (fst st)"
proof (cases st)
  case (Pair s a)
  show ?thesis unfolding Pair by (rule flush_browser_cases[where env = env and e = e and ev = ev and s = s and a = a]) simp_all
qed

lemma flush_one_buffer [simp]: "ds_buffer (fst (flush_one env st e)) = ds_buffer (fst st)"
  by (simp add: flush_one_def split: EventPayload.split)

lemma foldl_flush_buffer [simp]: "ds_buffer (fst (foldl (flush_one env) st es)) = ds_buffer (fst st)"
  by (induction es arbitrary: st) simp_all

text \<open>The three rounds of health updates at the end of a flush.\<close>

definition flush_health :: "int \<Rightarrow> flush_acc \<Rightarrow> daemon_state \<Rightarrow> daemon_state" where
  "flush_health now_ms a s = foldl (health_liveness now_ms a)
     (foldl (health_error now_ms) (foldl (health_success now_ms a) s (fx_latest a)) (fx_errors a))
     [''shell'', ''claude-tool'', ''browser'']"

lemma foldl_keeps: "(\<And>s x. g (f s x) = g s) \<Longrightarrow> g (foldl f s xs) = g s"
  by (induction xs arbitrary: s) simp_all

lemma health_fields [simp]:
  "ds_buffer (health_success n a s x) = ds_buffer s" "ds_fallback (health_success n a s x) = ds_fallback s"
  "ds_file_faults (health_success n a s x) = ds_file_faults s"
  "ds_buffer (health_error n s y) = ds_buffer s" "ds_fallback (health_error n s y) = ds_fallback s"
  "ds_file_faults (health_error n s y) = ds_file_faults s"
  "ds_buffer (health_liveness n a s z) = ds_buffer s" "ds_fallback (health_liveness n a s z) = ds_fallback s"
  "ds_file_faults (health_liveness n a s z) = ds_file_faults s"
  by (simp_all add: health_success_def health_error_def health_liveness_def Let_def split: prod.split)

lemma flush_health_fields [simp]:
  "ds_buffer (flush_health n a s) = ds_buffer s" "ds_fallback (flush_health n a s) = ds_fallback s"
  "ds_file_faults (flush_health n a s) = ds_file_faults s"
  unfolding flush_health_def by (simp_all add: foldl_keeps)

lemma flush_events_cases:
  obtains "take (de_batch env) (ds_buffer s) = []"
    "flush_events env s = (0, try_health (\<lambda>r. r\<lparr>sh_last_success_ts := Some (ev_now_ms (de_event env)), sh_updated_at := ev_now_ms (de_event env)\<rparr>)
       (\<lambda>x. x = ''shell'' \<or> x = ''claude-tool'' \<or> x = ''browser'') (s\<lparr>ds_buffer := drop (de_batch env) (ds_buffer s)\<rparr>))"
  | s1 a where "take (de_batch env) (ds_buffer s) \<noteq> []"
    "foldl (flush_one env) (s\<lparr>ds_buffer := drop (de_batch env) (ds_buffer s)\<rparr>, no_acc) (take (de_batch env) (ds_buffer s)) = (s1, a)"
    "flush_events env s = (length (take (de_batch env) (ds_buffer s)), flush_health (ev_now_ms (de_event env)) a s1)"
proof (cases "take (de_batch env) (ds_buffer s) = []")
  case True
  then show thesis using that(1) by (simp add: flush_events_def Let_def)
next
  case False
  obtain s1 a where "foldl (flush_one env) (s\<lparr>ds_buffer := drop (de_batch env) (ds_buffer s)\<rparr>, no_acc) (take (de_batch env) (ds_buffer s)) = (s1, a)"
    by (cases "foldl (flush_one env) (s\<lparr>ds_buffer := drop (de_batch env) (ds_buffer s)\<rparr>, no_acc) (take (de_batch env) (ds_buffer s))")
  then show thesis using that(2)[OF False] False by (simp add: flush_events_def Let_def flush_health_def)
qed

lemma flush_buffer: "ds_buffer (snd (flush_events env s)) = drop (de_batch env) (ds_buffer s)"
proof (rule flush_events_cases[of env s])
  fix s1 a
  assume f: "foldl (flush_one env) (s\<lparr>ds_buffer := drop (de_batch env) (ds_buffer s)\<rparr>, no_acc) (take (de_batch env) (ds_buffer s)) = (s1, a)"
    and r: "flush_events env s = (length (take (de_batch env) (ds_buffer s)), flush_health (ev_now_ms (de_event env)) a s1)"
  have "ds_buffer s1 = drop (de_batch env) (ds_buffer s)"
    using foldl_flush_buffer[of env "(s\<lparr>ds_buffer := drop (de_batch env) (ds_buffer s)\<rparr>, no_acc)" "take (de_batch env) (ds_buffer s)"]
    by (simp add: f)
  then show ?thesis by (simp add: r)
qed simp

lemma flush_count: "fst (flush_events env s) = min (de_batch env) (length (ds_buffer s))"
proof (rule flush_events_cases[of env s])
  fix f p s'
  assume t: "take (de_batch env) (ds_buffer s) = []" and r: "flush_events env s = (0, try_health f p s')"
  from t have "de_batch env = 0 \<or> ds_buffer s = []" by simp
  then show ?thesis unfolding r by auto
qed (simp add: min.commute)

text \<open>The drain on shutdown: flush until a flush takes nothing.\<close>

function drain :: "daemon_env \<Rightarrow> daemon_state \<Rightarrow> daemon_state" where
  "drain env s = (let r = flush_events env s in if fst r = 0 then snd r else drain env (snd r))"
  by pat_completeness auto
termination
  by (relation "measure (\<lambda>(env, s). length (ds_buffer s))") (auto simp: flush_buffer flush_count)

declare drain.simps [simp del]

subsection \<open>Rolling counts\<close>

record RollingCounts =
  rl_shell_1h :: int
  rl_shell_24h :: int
  rl_tool_1h :: int
  rl_tool_24h :: int
  rl_session_1h :: int
  rl_session_24h :: int
  rl_browser_1h :: int
  rl_browser_24h :: int

definition count_events :: "string \<Rightarrow> int \<Rightarrow> event_db \<Rightarrow> int" where
  "count_events kind since db = sql_count (\<lambda>r. er_source_kind r = kind \<and> er_probe_tag r = None \<and> er_timestamp r > since) (ed_events db)"

definition count_sessions :: "int \<Rightarrow> agentic_session list \<Rightarrow> int" where
  "count_sessions since rows = sql_count (\<lambda>r. as_harness r = ''claude-code'' \<and> as_probe_tag r = None \<and> as_start_time r > since) rows"

definition count_browser :: "int \<Rightarrow> event_db \<Rightarrow> int" where
  "count_browser since db = sql_count (\<lambda>r. br_probe_tag r = None \<and> br_timestamp r > since) (ed_browser db)"

definition read_rolling_counts :: "int \<Rightarrow> agentic_session list \<Rightarrow> event_db \<Rightarrow> RollingCounts" where
  "read_rolling_counts now_s sessions db =
     (let h = (now_s - 3600) * 1000; d = (now_s - 86400) * 1000 in
      \<lparr>rl_shell_1h = count_events ''shell'' h db, rl_shell_24h = count_events ''shell'' d db,
       rl_tool_1h = count_events ''claude-tool'' h db, rl_tool_24h = count_events ''claude-tool'' d db,
       rl_session_1h = count_sessions h sessions, rl_session_24h = count_sessions d sessions,
       rl_browser_1h = count_browser h db, rl_browser_24h = count_browser d db\<rparr>)"

definition write_rolling_counts :: "int \<Rightarrow> string \<Rightarrow> int \<Rightarrow> int \<Rightarrow> daemon_state \<Rightarrow> daemon_state" where
  "write_rolling_counts now_s source c1h c24h s =
     try_health (\<lambda>r. r\<lparr>sh_events_last_1h := c1h, sh_events_last_24h := c24h,
         sh_last_event_ts := (if sh_source r = ''shell'' \<or> sh_source r = ''claude-tool''
            then sql_max (map er_timestamp (filter (\<lambda>e. er_source_kind e = sh_source r \<and> er_probe_tag e = None) (ed_events (ds_db s))))
            else if sh_source r = ''browser''
            then sql_max (map br_timestamp (filter (\<lambda>b. br_probe_tag b = None) (ed_browser (ds_db s))))
            else sh_last_event_ts r),
         sh_updated_at := now_s * 1000\<rparr>) (\<lambda>x. x = source) s"

definition recompute_rolling_counts :: "int \<Rightarrow> agentic_session list \<Rightarrow> daemon_state \<Rightarrow> daemon_state" where
  "recompute_rolling_counts now_s sessions s =
     (let c = read_rolling_counts now_s sessions (ds_db s) in
      write_rolling_counts now_s ''browser'' (rl_browser_1h c) (rl_browser_24h c)
       (write_rolling_counts now_s ''agentic-session-claude'' (rl_session_1h c) (rl_session_24h c)
        (write_rolling_counts now_s ''claude-tool'' (rl_tool_1h c) (rl_tool_24h c)
         (write_rolling_counts now_s ''shell'' (rl_shell_1h c) (rl_shell_24h c) s))))"

subsection \<open>The renamed health row\<close>

definition merge_probe_state :: "SourceHealthRow \<Rightarrow> SourceHealthRow \<Rightarrow> int option \<times> int option \<times> int option" where
  "merge_probe_state canonical legacy =
     (let canonical_newer = (case (sh_probe_last_run_ts canonical, sh_probe_last_run_ts legacy) of
            (Some c, Some l) \<Rightarrow> c \<ge> l | (None, Some _) \<Rightarrow> False | _ \<Rightarrow> True);
          chosen = (if canonical_newer then canonical else legacy)
      in (sh_probe_ok chosen, sh_probe_lag_ms chosen, sh_probe_last_run_ts chosen))"

definition merge_error_message :: "SourceHealthRow \<Rightarrow> SourceHealthRow \<Rightarrow> string option" where
  "merge_error_message canonical legacy = (case (sh_last_error_ts canonical, sh_last_error_ts legacy) of
     (Some c, Some l) \<Rightarrow> if l > c then opt_or (sh_last_error_msg legacy) (sh_last_error_msg canonical)
       else opt_or (sh_last_error_msg canonical) (sh_last_error_msg legacy)
   | _ \<Rightarrow> opt_or (sh_last_error_msg canonical) (sh_last_error_msg legacy))"

definition merged_row :: "int \<Rightarrow> SourceHealthRow \<Rightarrow> SourceHealthRow \<Rightarrow> SourceHealthRow" where
  "merged_row now_ms canonical legacy = (case merge_probe_state canonical legacy of (ok, lag, run) \<Rightarrow>
     canonical\<lparr>sh_last_event_ts := opt_max (sh_last_event_ts canonical) (sh_last_event_ts legacy),
       sh_last_success_ts := opt_max (sh_last_success_ts canonical) (sh_last_success_ts legacy),
       sh_last_error_ts := opt_max (sh_last_error_ts canonical) (sh_last_error_ts legacy),
       sh_last_error_msg := merge_error_message canonical legacy,
       sh_consecutive_failures := max (sh_consecutive_failures canonical) (sh_consecutive_failures legacy),
       sh_events_last_1h := max (sh_events_last_1h canonical) (sh_events_last_1h legacy),
       sh_events_last_24h := max (sh_events_last_24h canonical) (sh_events_last_24h legacy),
       sh_expected_min_per_hour := opt_or (sh_expected_min_per_hour canonical) (sh_expected_min_per_hour legacy),
       sh_probe_ok := ok, sh_probe_lag_ms := lag, sh_probe_last_run_ts := run,
       sh_last_heartbeat_ts := opt_max (sh_last_heartbeat_ts canonical) (sh_last_heartbeat_ts legacy),
       sh_updated_at := now_ms\<rparr>)"

definition normalize_claude_session_source_health ::
  "int \<Rightarrow> SourceHealthRow list option \<Rightarrow> SourceHealthRow list option" where
  "normalize_claude_session_source_health now_ms health = (case health of
     None \<Rightarrow> None
   | Some rows0 \<Rightarrow>
      (let rows = (if list_ex (\<lambda>r. sh_source r = ''agentic-session-claude'') rows0 then rows0
                   else rows0 @ [new_health_row ''agentic-session-claude'' now_ms])
       in case find (\<lambda>r. sh_source r = ''claude-session'') rows of
            None \<Rightarrow> Some rows
          | Some legacy \<Rightarrow>
              Some (filter (\<lambda>r. sh_source r \<noteq> ''claude-session'')
                (map (\<lambda>r. if sh_source r = ''agentic-session-claude'' then merged_row now_ms r legacy else r) rows))))"

end
