(* ===== verification/DaemonProofs.thy ===== *)
theory DaemonProofs
  imports Daemon
begin

text \<open>
  The daemon as a transition system: a step is a request, a flush or a recount, each with its own
  clock, and any sequence of them is a run. The locale \<open>event_tables\<close> is the contract of the storage
  layer: a predicate on the event tables that both inserts keep is kept by everything the daemon does,
  recovery of fallback files included.
\<close>

datatype daemon_kind = Request DaemonRequest | Flush | Recount int "agentic_session list"

text \<open>The redaction engine is loaded once; the other parts of the environment change from step to step.\<close>

fun daemon_step ::
  "redactor \<Rightarrow> (string \<Rightarrow> daemon_state \<Rightarrow> DaemonResponse) \<Rightarrow> daemon_state \<Rightarrow> daemon_env \<times> daemon_kind \<Rightarrow> daemon_state" where
  "daemon_step redact answer s (env, Request r) = snd (handle_request (env\<lparr>de_redact := redact\<rparr>) answer s r)"
| "daemon_step redact answer s (env, Flush) = snd (flush_events (env\<lparr>de_redact := redact\<rparr>) s)"
| "daemon_step redact answer s (env, Recount now_s sessions) = recompute_rolling_counts now_s sessions s"

subsection \<open>The storage contract\<close>

definition same_events :: "event_db \<Rightarrow> event_db \<Rightarrow> bool" where
  "same_events db db' \<longleftrightarrow> ed_events db' = ed_events db \<and> ed_queue db' = ed_queue db
     \<and> ed_browser db' = ed_browser db \<and> ed_browser_queue db' = ed_browser_queue db \<and> ed_env db' = ed_env db"

lemma same_events_refl [simp]: "same_events db db"
  by (simp add: same_events_def)

lemma same_events_updates [simp]:
  "same_events db (db\<lparr>ed_health := h\<rparr>)" "same_events db (db\<lparr>ed_watch := w\<rparr>)"
  "same_events db (db\<lparr>ed_sessions := ss\<rparr>)" "same_events db (map_health f p db)"
  by (simp_all add: same_events_def map_health_def)

lemma same_events_session:
  "get_or_create_session env f (db, m) u h sh = (r, (db', m')) \<Longrightarrow> same_events db db'"
  by (auto simp: get_or_create_session_def upsert_session_def Let_def split: option.splits)

text \<open>A request never writes to the event tables or the fallback files.\<close>

lemma handle_request_frame:
  "same_events (ds_db s) (ds_db (snd (handle_request env answer s r)))
   \<and> ds_fallback (snd (handle_request env answer s r)) = ds_fallback s
   \<and> ds_file_faults (snd (handle_request env answer s r)) = ds_file_faults s"
proof (cases r)
  case (RegisterWatchSha sha repo ttl)
  show ?thesis
    unfolding RegisterWatchSha handle_request_def DaemonRequest.case take_fault_eq prod.case Let_def
    by (cases "next_fault (ds_faults s)") simp_all
next
  case (UpdateSourceHealthHeartbeat src ts err)
  show ?thesis
  proof (cases "src \<in> set ALLOWED_SOURCES")
    case True
    then show ?thesis
      unfolding UpdateSourceHealthHeartbeat handle_request_def DaemonRequest.case take_fault_eq prod.case
      by (cases "next_fault (ds_faults s)"; cases "ed_health (ds_db s)") simp_all
  qed (simp add: UpdateSourceHealthHeartbeat handle_request_def)
qed (simp_all add: handle_request_def)

definition lines_ok :: "(ShellEvent \<Rightarrow> bool) \<Rightarrow> fallback_file list \<Rightarrow> bool" where
  "lines_ok ok files \<longleftrightarrow> (\<forall>f \<in> set files. \<forall>e ev. Some e \<in> set (ff_lines f) \<longrightarrow> ee_payload e = Shell ev \<longrightarrow> ok ev)"

locale event_tables =
  fixes redact :: redactor and Q :: "event_db \<Rightarrow> bool" and ok :: "ShellEvent \<Rightarrow> bool"
  assumes Q_frame: "same_events db db' \<Longrightarrow> Q db \<Longrightarrow> Q db'"
    and ok_redact: "ok (fst (redact_shell_event redact ev))"
    and Q_event: "Q db \<Longrightarrow> ok ev \<Longrightarrow> insert_event_at env f db sid ev ts rc es i p = (r, db') \<Longrightarrow> Q db'"
    and Q_browser: "Q db \<Longrightarrow> insert_browser_event env f db bev ts i p = (r, db') \<Longrightarrow> Q db'"
begin

definition good :: "daemon_state \<Rightarrow> bool" where
  "good s \<longleftrightarrow> Q (ds_db s) \<and> lines_ok ok (ds_fallback s)"

lemma write_fallback_ok:
  assumes "lines_ok ok files" "\<And>ev. ee_payload e = Shell ev \<Longrightarrow> ok ev"
  shows "lines_ok ok (snd (write_fallback_jsonl fault date e files))"
  using assms unfolding lines_ok_def write_fallback_jsonl_def
  by (auto split: option.split)

lemma fall_back_good:
  "good s \<Longrightarrow> (\<And>ev. ee_payload e = Shell ev \<Longrightarrow> ok ev) \<Longrightarrow> good (fall_back env e s)"
  by (simp add: good_def write_fallback_ok)

lemma good_frame:
  "good s \<Longrightarrow> same_events (ds_db s) db \<Longrightarrow> good (s\<lparr>ds_db := db, ds_map := m, ds_faults := fs\<rparr>)"
  using Q_frame by (simp add: good_def)

lemma flush_shell_good:
  assumes "good s" "de_redact env = redact"
  shows "good (fst (flush_shell env e ev (s, a)))"
proof (rule flush_shell_cases[where env = env and e = e and ev = ev and s = s and a = a])
  fix fs assume "flush_shell env e ev (s, a) = (fall_back env (redacted_envelope env e ev) (s\<lparr>ds_faults := fs\<rparr>), a)"
  then show ?thesis
    using assms ok_redact fall_back_good[of "s\<lparr>ds_faults := fs\<rparr>" "redacted_envelope env e ev" env]
    by (simp add: good_def redacted_envelope_def)
next
  fix f1 f2 fs red sid db m i db' a'
  assume red: "red = fst (redact_shell_event (de_redact env) ev)"
    and g: "get_or_create_session (de_event env) f1 (ds_db s, ds_map s) (sv_session_id red) (sv_hostname red) (as_db_str (sv_shell red)) = (Inr sid, (db, m))"
    and i: "insert_event_at (de_event env) f2 db sid red (ee_timestamp e) (sv_redaction_count red) None (Some (ee_envelope_id e)) (ee_probe_tag e) = (Inr i, db')"
    and r: "flush_shell env e ev (s, a) = (s\<lparr>ds_db := db', ds_map := m, ds_faults := fs\<rparr>, a')"
  have "Q db" using Q_frame[OF same_events_session[OF g]] assms(1) by (simp add: good_def)
  then have "Q db'" using Q_event[OF _ _ i] ok_redact assms(2) by (simp add: red)
  then show ?thesis using assms(1) by (simp add: r good_def)
next
  fix f1 fs red sid db m a'
  assume g: "get_or_create_session (de_event env) f1 (ds_db s, ds_map s) (sv_session_id red) (sv_hostname red) (as_db_str (sv_shell red)) = (Inr sid, (db, m))"
    and r: "flush_shell env e ev (s, a) = (fall_back env (redacted_envelope env e ev) (s\<lparr>ds_db := db, ds_map := m, ds_faults := fs\<rparr>), a')"
  have "good (s\<lparr>ds_db := db, ds_map := m, ds_faults := fs\<rparr>)"
    using good_frame[OF assms(1) same_events_session[OF g]] .
  then show ?thesis
    using fall_back_good[of "s\<lparr>ds_db := db, ds_map := m, ds_faults := fs\<rparr>" "redacted_envelope env e ev" env] ok_redact assms(2)
    by (simp add: r redacted_envelope_def)
qed

lemma flush_browser_good:
  assumes "good s" "ee_payload e = Browser ev"
  shows "good (fst (flush_browser env e ev (s, a)))"
proof (rule flush_browser_cases[where env = env and e = e and ev = ev and s = s and a = a])
  fix f fs i db a'
  assume i: "insert_browser_event (de_event env) f (ds_db s) ev (ee_timestamp e) (Some (ee_envelope_id e)) (ee_probe_tag e) = (Inr i, db)"
    and r: "flush_browser env e ev (s, a) = (s\<lparr>ds_db := db, ds_faults := fs\<rparr>, a')"
  show ?thesis using Q_browser[OF _ i] assms(1) by (simp add: r good_def)
next
  fix fs a' assume r: "flush_browser env e ev (s, a) = (fall_back env e (s\<lparr>ds_faults := fs\<rparr>), a')"
  show ?thesis
    using assms fall_back_good[of "s\<lparr>ds_faults := fs\<rparr>" e env] by (simp add: r good_def)
qed

lemma flush_one_good: "good (fst st) \<Longrightarrow> de_redact env = redact \<Longrightarrow> good (fst (flush_one env st e))"
  by (cases st; cases "ee_payload e") (simp_all add: flush_one_def flush_shell_good flush_browser_good)

lemma foldl_flush_good:
  "good (fst st) \<Longrightarrow> de_redact env = redact \<Longrightarrow> good (fst (foldl (flush_one env) st es))"
  by (induction es arbitrary: st) (simp_all add: flush_one_good)

lemma try_health_good: "good s \<Longrightarrow> good (try_health f p s)"
  using try_health_db[of f p s] Q_frame[of "ds_db s" "map_health f p (ds_db s)"] by (auto simp: good_def)

lemma foldl_good: "good s \<Longrightarrow> (\<And>s x. good s \<Longrightarrow> good (f s x)) \<Longrightarrow> good (foldl f s xs)"
  by (induction xs arbitrary: s) simp_all

lemma flush_health_good: "good s \<Longrightarrow> good (flush_health n a s)"
  unfolding flush_health_def
  by (intro foldl_good)
    (simp_all add: health_success_def health_error_def health_liveness_def Let_def try_health_good split: prod.split)

lemma flush_events_good:
  assumes "good s" "de_redact env = redact"
  shows "good (snd (flush_events env s))"
proof (rule flush_events_cases[of env s])
  fix f p
  assume r: "flush_events env s = (0, try_health f p (s\<lparr>ds_buffer := drop (de_batch env) (ds_buffer s)\<rparr>))"
  show ?thesis unfolding r snd_conv by (rule try_health_good) (use assms(1) in \<open>simp add: good_def\<close>)
next
  fix s1 a
  assume f: "foldl (flush_one env) (s\<lparr>ds_buffer := drop (de_batch env) (ds_buffer s)\<rparr>, no_acc) (take (de_batch env) (ds_buffer s)) = (s1, a)"
    and r: "flush_events env s = (length (take (de_batch env) (ds_buffer s)), flush_health (ev_now_ms (de_event env)) a s1)"
  have "good (fst (s\<lparr>ds_buffer := drop (de_batch env) (ds_buffer s)\<rparr>, no_acc))"
    using assms(1) by (simp add: good_def)
  from foldl_flush_good[OF this assms(2), of "take (de_batch env) (ds_buffer s)"]
  have "good s1" unfolding f by simp
  then show ?thesis by (simp add: r flush_health_good)
qed

lemma good_step: "good s \<Longrightarrow> same_events (ds_db s) (ds_db s') \<Longrightarrow> ds_fallback s' = ds_fallback s \<Longrightarrow> good s'"
  using Q_frame unfolding good_def by simp

lemma handle_request_good: "good s \<Longrightarrow> good (snd (handle_request env answer s r))"
  using handle_request_frame[of s env answer r] by (auto intro: good_step)

lemma recount_good: "good s \<Longrightarrow> good (recompute_rolling_counts now_s sessions s)"
  unfolding recompute_rolling_counts_def write_rolling_counts_def Let_def by (intro try_health_good)

lemma daemon_step_good: "good s \<Longrightarrow> good (daemon_step redact answer s e)"
  by (cases e; cases "snd e") (auto simp: handle_request_good flush_events_good recount_good)

text \<open>Recovery, on the database alone.\<close>

lemma recover_line_Q:
  assumes "Q (rc_db s)" "\<And>e ev. line = Some e \<Longrightarrow> ee_payload e = Shell ev \<Longrightarrow> ok ev"
    "recover_line env s line = (r, s')"
  shows "Q (rc_db s') \<and> rc_files s' = rc_files s"
proof (cases line)
  case None
  then show ?thesis using assms by (simp add: recover_line_def)
next
  case (Some e)
  show ?thesis
  proof (cases "ee_payload e")
    case (Shell ev)
    obtain g db m where g: "get_or_create_session env (next_fault (rc_faults s)) (rc_db s, rc_map s) (sv_session_id ev)
        (sv_hostname ev) (as_db_str (sv_shell ev)) = (g, (db, m))"
      by (metis prod.collapse)
    have Q: "Q db" using Q_frame[OF same_events_session[OF g]] assms(1) .
    show ?thesis
    proof (cases g)
      case (Inl x)
      then show ?thesis using assms(3) Q g by (auto simp: recover_line_def Some Shell)
    next
      case (Inr sid)
      obtain r2 db' where i: "insert_event_at env (next_fault (tl (rc_faults s))) db sid ev (ee_timestamp e)
          (sv_redaction_count ev) None (Some (ee_envelope_id e)) (ee_probe_tag e) = (r2, db')"
        by (metis prod.collapse)
      have "Q db'" using Q_event[OF Q _ i] assms(2) Some Shell by blast
      then show ?thesis using assms(3) g i Inr by (auto simp: recover_line_def Some Shell)
    qed
  next
    case (Browser ev)
    obtain r2 db' where i: "insert_browser_event env (next_fault (rc_faults s)) (rc_db s) ev (ee_timestamp e)
        (Some (ee_envelope_id e)) (ee_probe_tag e) = (r2, db')"
      by (metis prod.collapse)
    have "Q db'" using Q_browser[OF assms(1) i] .
    then show ?thesis using assms(3) i by (auto simp: recover_line_def Some Browser)
  qed (use assms in \<open>simp_all add: recover_line_def Some\<close>)
qed

lemma recover_lines_Q:
  assumes "Q (rc_db s)" "\<And>e ev. Some e \<in> set ls \<Longrightarrow> ee_payload e = Shell ev \<Longrightarrow> ok ev"
    "recover_lines env ls s = (r, s')"
  shows "Q (rc_db s') \<and> rc_files s' = rc_files s"
  using assms
proof (induction ls arbitrary: s r s')
  case (Cons l ls)
  obtain r1 s1 where one: "recover_line env s l = (r1, s1)" by (metis prod.collapse)
  have 1: "Q (rc_db s1) \<and> rc_files s1 = rc_files s"
    using recover_line_Q[OF Cons.prems(1) _ one] Cons.prems(2) by auto
  obtain r2 s2 where two: "recover_lines env ls s1 = (r2, s2)" by (metis prod.collapse)
  have 2: "Q (rc_db s2) \<and> rc_files s2 = rc_files s1"
    by (rule Cons.IH[OF _ _ two]) (use 1 Cons.prems(2) in auto)
  show ?case
    using Cons.prems(3) 1 2 by (cases r1; cases r2) (auto simp: one two)
qed simp

lemma rename_file_good:
  assumes "lines_ok ok (rc_files s)" "lines_ok ok [to]" "rename_file from to s = (r, s')"
  shows "lines_ok ok (rc_files s') \<and> rc_db s' = rc_db s"
  using assms by (auto simp: rename_file_def lines_ok_def split: option.splits)

lemma claim_files_good:
  assumes "lines_ok ok (rc_files s)" "lines_ok ok fs" "claim_files uuids fs s = (r, s')"
  shows "lines_ok ok (rc_files s') \<and> rc_db s' = rc_db s \<and> (\<forall>cs. r = Inr cs \<longrightarrow> lines_ok ok cs)"
  using assms
proof (induction uuids fs s arbitrary: r s' rule: claim_files.induct)
  case (1 uuids s)
  then show ?case by (auto simp: lines_ok_def)
next
  case (2 uuids f fs s)
  have fok: "lines_ok ok [f]" "lines_ok ok fs" using "2.prems"(2) by (auto simp: lines_ok_def)
  show ?case
  proof (cases "ff_ext f = ''recovering''")
    case True
    obtain r1 s1 where one: "claim_files uuids fs s = (r1, s1)" by (metis prod.collapse)
    have IH: "lines_ok ok (rc_files s1) \<and> rc_db s1 = rc_db s \<and> (\<forall>cs. r1 = Inr cs \<longrightarrow> lines_ok ok cs)"
      using "2.IH"(1)[OF True "2.prems"(1) fok(2) one] .
    then show ?thesis using "2.prems"(3) True fok(1) by (cases r1) (auto simp: one lines_ok_def)
  next
    case False
    define target where "target = f\<lparr>ff_stem := ff_stem f @ ''.'' @ (case uuids of [] \<Rightarrow> [] | u # _ \<Rightarrow> u) @ ''.jsonl'', ff_ext := ''recovering''\<rparr>"
    have eq: "claim_files uuids (f # fs) s = (case rename_file f target s of
           (Inl e, s') \<Rightarrow> (Inl e, s')
         | (Inr _, s1) \<Rightarrow> (case claim_files (tl uuids) fs s1 of
             (Inl e, s') \<Rightarrow> (Inl e, s') | (Inr cs, s') \<Rightarrow> (Inr (target # cs), s')))"
      unfolding claim_files.simps Let_def target_def[symmetric] if_not_P[OF False] by (rule refl)
    have tok: "lines_ok ok [target]" using fok(1) by (simp add: lines_ok_def target_def)
    obtain r0 s0 where ren: "rename_file f target s = (r0, s0)" by (metis prod.collapse)
    have 0: "lines_ok ok (rc_files s0) \<and> rc_db s0 = rc_db s" by (rule rename_file_good[OF "2.prems"(1) tok ren])
    show ?thesis
    proof (cases r0)
      case (Inl e)
      then show ?thesis using "2.prems"(3) ren 0 unfolding eq by auto
    next
      case (Inr u)
      obtain r1 s1 where one: "claim_files (tl uuids) fs s0 = (r1, s1)" by (metis prod.collapse)
      have IH: "lines_ok ok (rc_files s1) \<and> rc_db s1 = rc_db s0 \<and> (\<forall>cs. r1 = Inr cs \<longrightarrow> lines_ok ok cs)"
        by (rule "2.IH"(2)[OF False target_def ren[symmetric] Inr _ fok(2) one]) (use 0 in blast)
      then show ?thesis
        using "2.prems"(3) ren Inr one 0 tok unfolding eq by (cases r1) (auto simp: lines_ok_def)
    qed
  qed
qed

lemma recover_claimed_good:
  assumes "Q (rc_db s)" "lines_ok ok (rc_files s)" "lines_ok ok fs" "recover_claimed env fs s = (r, s')"
  shows "Q (rc_db s') \<and> lines_ok ok (rc_files s')"
  using assms
proof (induction fs arbitrary: s r s')
  case (Cons f fs)
  have fok: "lines_ok ok [f]" "lines_ok ok fs" using Cons.prems(3) by (auto simp: lines_ok_def)
  show ?case
  proof (cases "next_fault (rc_faults s)")
    case (Some e)
    then show ?thesis using Cons.prems by auto
  next
    case None
    let ?s = "s\<lparr>rc_faults := tl (rc_faults s)\<rparr>"
    obtain r1 s1 where one: "recover_lines env (ff_lines f) ?s = (r1, s1)" by (metis prod.collapse)
    have "Q (rc_db ?s)" using Cons.prems(1) by simp
    from recover_lines_Q[OF this _ one] fok(1)
    have 1: "Q (rc_db s1)" "rc_files s1 = rc_files s" by (auto simp: lines_ok_def)
    show ?thesis
    proof (cases r1)
      case (Inl e)
      then show ?thesis using Cons.prems one None 1 by auto
    next
      case (Inr gb)
      obtain a b where gb: "gb = (a, b)" by (cases gb)
      obtain r2 s2 where two: "rename_file f (f\<lparr>ff_ext := if b = 0 then ''done'' else ''partial''\<rparr>) s1 = (r2, s2)" by (metis prod.collapse)
      have 2: "lines_ok ok (rc_files s2) \<and> rc_db s2 = rc_db s1"
        by (rule rename_file_good[OF _ _ two]) (use 1(2) Cons.prems(2) fok(1) in \<open>auto simp: lines_ok_def\<close>)
      show ?thesis
      proof (cases r2)
        case (Inl e)
        then show ?thesis using Cons.prems(4) one None Inr gb two 1 2 by auto
      next
        case r2: (Inr u)
        obtain r3 s3 where three: "recover_claimed env fs s2 = (r3, s3)" by (metis prod.collapse)
        have "Q (rc_db s3) \<and> lines_ok ok (rc_files s3)"
          by (rule Cons.IH[OF _ _ fok(2) three]) (use 1 2 in auto)
        then show ?thesis
          using Cons.prems(4) one None Inr gb two r2 three by (cases r3) auto
      qed
    qed
  qed
qed simp

lemma recover_good:
  assumes "Q (rc_db s)" "lines_ok ok (rc_files s)" "recover_fallback_files env uuids s = (r, s')"
  shows "Q (rc_db s') \<and> lines_ok ok (rc_files s')"
proof -
  have l: "lines_ok ok (list_fallback_files (rc_files s))"
    using assms(2) by (auto simp: lines_ok_def list_fallback_files_def)
  obtain r1 s1 where one: "claim_files uuids (list_fallback_files (rc_files s)) s = (r1, s1)" by (metis prod.collapse)
  note 1 = claim_files_good[OF assms(2) l one]
  show ?thesis
  proof (cases r1)
    case (Inl e)
    then show ?thesis using assms(1,3) 1 one by (auto simp: recover_fallback_files_def)
  next
    case (Inr cs)
    then have "recover_claimed env cs s1 = (r, s')" using assms(3) one by (simp add: recover_fallback_files_def)
    then show ?thesis using recover_claimed_good 1 Inr assms(1) by metis
  qed
qed

end

end
