(* ===== verification/DaemonProperties.thy ===== *)
theory DaemonProperties
  imports DaemonProofs
begin

text \<open>
  Properties of the daemon over whole runs: the enrichment queues name exactly the stored real events,
  what is stored of a shell event has passed the redactor, and an accepted event is never lost.
\<close>

subsection \<open>A first state\<close>

definition no_events :: event_db where
  "no_events = \<lparr>ed_sessions = [], ed_env = [], ed_events = [], ed_queue = [], ed_browser = [], ed_browser_queue = [],
     ed_health = None, ed_watch = []\<rparr>"

definition fresh_daemon :: daemon_state where
  "fresh_daemon = \<lparr>ds_db = no_events, ds_map = (\<lambda>_. None), ds_buffer = [], ds_drop_count = 0, ds_fallback = [],
     ds_faults = [], ds_file_faults = []\<rparr>"

definition plain_env :: daemon_env where
  "plain_env = \<lparr>de_event = \<lparr>ev_now_ms = 5, ev_username = ''u'', ev_env_json = concat \<circ> map fst, ev_sha256 = (\<lambda>s. s)\<rparr>,
     de_redact = (\<lambda>s. \<lparr>rr_text = s, rr_count = 0, rr_hits = []\<rparr>), de_batch = 2, de_date = ''2026-01-01''\<rparr>"

definition ls_event :: EventEnvelope where
  "ls_event = \<lparr>ee_envelope_id = ''e1'', ee_producer_version = 1, ee_timestamp = 3,
     ee_payload = Shell \<lparr>sv_session_id = ''s'', sv_command = ''ls'', sv_exit_code = 0, sv_duration_ms = 1, sv_cwd = ''/'',
       sv_hostname = ''h'', sv_shell = Zsh, sv_stdout = None, sv_stderr = None, sv_env_snapshot = [(''PATH'', ''/bin'')],
       sv_git_state = None, sv_redaction_count = 0, sv_tool_name = None\<rparr>, ee_probe_tag = None\<rparr>"

subsection \<open>The queues\<close>

definition queue_matches :: "event_db \<Rightarrow> bool" where
  "queue_matches db \<longleftrightarrow>
     distinct (map er_id (ed_events db)) \<and> distinct (map br_id (ed_browser db))
     \<and> ed_queue db = map er_id (filter (\<lambda>r. er_probe_tag r = None) (ed_events db))
     \<and> ed_browser_queue db = map br_id (filter (\<lambda>r. br_probe_tag r = None) (ed_browser db))"

lemma upsert_env_frame:
  "ed_events (snd (upsert_env_snapshot env db e)) = ed_events db"
  "ed_queue (snd (upsert_env_snapshot env db e)) = ed_queue db"
  "ed_browser (snd (upsert_env_snapshot env db e)) = ed_browser db"
  "ed_browser_queue (snd (upsert_env_snapshot env db e)) = ed_browser_queue db"
  by (auto simp: upsert_env_snapshot_def Let_def split: option.split)

text \<open>A successful insert leaves the tables alone (a known envelope) or appends one row.\<close>

lemma insert_event_cases:
  assumes "insert_event_at env f db sid ev ts rc es i p = (r, db')"
  obtains (same) "db' = db" "isl r \<or> taken_id i (map er_envelope_id (ed_events db))"
  | (new) row db1 where "db1 = (if sv_env_snapshot ev = [] then db else snd (upsert_env_snapshot env db (sv_env_snapshot ev)))"
      "db' = db1\<lparr>ed_events := ed_events db @ [row], ed_queue := (if p = None then ed_queue db @ [er_id row] else ed_queue db)\<rparr>"
      "er_id row \<notin> set (map er_id (ed_events db))" "er_probe_tag row = p" "er_envelope_id row = i"
      "er_command row = sv_command ev" "er_stdout row = output_cols (sv_stdout ev)" "er_stderr row = output_cols (sv_stderr ev)"
proof -
  let ?up = "if sv_env_snapshot ev = [] then (es, db) else upsert_env_snapshot env db (sv_env_snapshot ev)"
  obtain snap db1 where up: "?up = (snap, db1)" by (metis prod.collapse)
  have fr: "ed_events db1 = ed_events db" "ed_queue db1 = ed_queue db"
    using up upsert_env_frame[of env db "sv_env_snapshot ev"] by (auto split: if_splits)
  have db1: "db1 = (if sv_env_snapshot ev = [] then db else snd (upsert_env_snapshot env db (sv_env_snapshot ev)))"
    using up by (auto split: if_splits)
  show thesis
  proof (cases "f \<noteq> None \<or> taken_id i (map er_envelope_id (ed_events db))")
    case True
    then show thesis using assms same unfolding insert_event_at_def up by (auto split: option.splits)
  next
    case False
    define row where "row = \<lparr>er_id = next_rowid (map er_id (ed_events db)), er_session_id = sid, er_timestamp = ts,
        er_command = sv_command ev, er_stdout = output_cols (sv_stdout ev), er_stderr = output_cols (sv_stderr ev),
        er_exit_code = sv_exit_code ev, er_duration_ms = wrap_i64 (sv_duration_ms ev), er_cwd = sv_cwd ev,
        er_hostname = sv_hostname ev, er_shell = as_db_str (sv_shell ev), er_git = sv_git_state ev,
        er_env_snapshot_id = snap, er_redaction_count = rc, er_envelope_id = i, er_source_kind = source_kind_of ev,
        er_tool_name = sv_tool_name ev, er_probe_tag = p\<rparr>"
    have "db' = db1\<lparr>ed_events := ed_events db @ [row], ed_queue := (if p = None then ed_queue db @ [er_id row] else ed_queue db)\<rparr>"
      using assms False unfolding insert_event_at_def up row_def by (cases p) (auto simp: fr Let_def)
    moreover have "er_id row \<notin> set (map er_id (ed_events db))"
      unfolding row_def using next_rowid_fresh[of "map er_id (ed_events db)"] by simp
    ultimately show thesis by (rule new[OF db1]) (simp_all add: row_def)
  qed
qed

lemma insert_browser_cases:
  assumes "insert_browser_event env f db ev ts i p = (r, db')"
  obtains (same) "db' = db" "isl r \<or> taken_id i (map br_envelope_id (ed_browser db))"
  | (new) row where
      "db' = db\<lparr>ed_browser := ed_browser db @ [row], ed_browser_queue := (if p = None then ed_browser_queue db @ [br_id row] else ed_browser_queue db)\<rparr>"
      "br_id row \<notin> set (map br_id (ed_browser db))" "br_probe_tag row = p" "br_envelope_id row = i"
proof (cases "f \<noteq> None \<or> taken_id i (map br_envelope_id (ed_browser db))")
  case True
  then show thesis using assms same unfolding insert_browser_event_def by (auto split: option.splits)
next
  case False
  define row where "row = \<lparr>br_id = next_rowid (map br_id (ed_browser db)), br_timestamp = ts,
      br_event = ev\<lparr>bv_dwell_ms := wrap_i64 (bv_dwell_ms ev),
        bv_content_hash := map_option (ev_sha256 env) (bv_extracted_text ev)\<rparr>, br_envelope_id = i, br_probe_tag = p\<rparr>"
  have "db' = db\<lparr>ed_browser := ed_browser db @ [row],
      ed_browser_queue := (if p = None then ed_browser_queue db @ [br_id row] else ed_browser_queue db)\<rparr>"
    using assms False unfolding insert_browser_event_def row_def by (cases p) (auto simp: Let_def)
  moreover have "br_id row \<notin> set (map br_id (ed_browser db))"
    unfolding row_def using next_rowid_fresh[of "map br_id (ed_browser db)"] by simp
  ultimately show thesis by (rule new) (simp_all add: row_def)
qed

lemma queue_matches_event:
  assumes "queue_matches db" "insert_event_at env f db sid ev ts rc es i p = (r, db')"
  shows "queue_matches db'"
  using assms(2)
proof (cases rule: insert_event_cases)
  case (new row db1)
  then show ?thesis using assms(1) upsert_env_frame[of env db "sv_env_snapshot ev"]
    by (auto simp: queue_matches_def)
qed (use assms(1) in simp)

lemma queue_matches_browser:
  assumes "queue_matches db" "insert_browser_event env f db ev ts i p = (r, db')"
  shows "queue_matches db'"
  using assms(2)
proof (cases rule: insert_browser_cases)
  case (new row)
  then show ?thesis using assms(1) by (auto simp: queue_matches_def)
qed (use assms(1) in simp)

interpretation queues: event_tables redact queue_matches "\<lambda>_. True" for redact
proof
  show "same_events db db' \<Longrightarrow> queue_matches db \<Longrightarrow> queue_matches db'" for db db'
    by (simp add: queue_matches_def same_events_def)
qed (auto intro: queue_matches_event queue_matches_browser)

interpretation queue_run: invariant_run "daemon_step redact answer" "queues.good" for redact answer
  by unfold_locales (rule queues.daemon_step_good)

text \<open>
  C9 (queue_exact): after any run of requests, flushes and recounts, and after any recovery of
  fallback files, whatever fails in them, the enrichment queues hold exactly the ids of the stored events
  that are no probes, in order and once each: no real event is stored without being queued and no probe is queued.
\<close>

theorem queue_exact:
  assumes "queue_matches (ds_db s)"
    and "t = foldl (daemon_step redact answer) s es"
  shows "queue_matches (ds_db t)
    \<and> queue_matches (rc_db (snd (recover_fallback_files env uuids
        \<lparr>rc_db = ds_db t, rc_map = m, rc_files = files, rc_faults = fs\<rparr>)))"
proof
  have "queues.good s" unfolding queues.good_def using assms by (simp add: lines_ok_def)
  from queue_run.run_inv[OF this] show 1: "queue_matches (ds_db t)"
    by (simp add: queues.good_def assms(2))
  show "queue_matches (rc_db (snd (recover_fallback_files env uuids
      \<lparr>rc_db = ds_db t, rc_map = m, rc_files = files, rc_faults = fs\<rparr>)))"
    using queues.recover_good[OF _ _ prod.collapse[symmetric]] 1 by (simp add: lines_ok_def)
qed

lemma fresh_queues: "queue_matches (ds_db fresh_daemon)"
  by (simp add: queue_matches_def fresh_daemon_def no_events_def)

lemma queue_exact_witness:
  "queue_matches (ds_db (foldl (daemon_step (de_redact plain_env) (\<lambda>_ _. Ack)) fresh_daemon
     [(plain_env, Request (IngestEvent ls_event)), (plain_env, Flush)]))"
  using queue_exact[OF fresh_queues refl] by blast

subsection \<open>What is stored has been redacted\<close>

definition scrubbed :: "redactor \<Rightarrow> string \<Rightarrow> bool" where
  "scrubbed redact s \<longleftrightarrow> s \<in> range (\<lambda>x. rr_text (redact x))"

definition scrubbed_env :: "redactor \<Rightarrow> (string \<times> string) list \<Rightarrow> bool" where
  "scrubbed_env redact e \<longleftrightarrow> (\<forall>(k, v) \<in> set e. k \<in> set ENV_ALLOWLIST \<and> scrubbed redact v)"

definition scrubbed_event :: "redactor \<Rightarrow> ShellEvent \<Rightarrow> bool" where
  "scrubbed_event redact ev \<longleftrightarrow> scrubbed redact (sv_command ev) \<and> scrubbed_env redact (sv_env_snapshot ev)
     \<and> (\<forall>c \<in> set_option (sv_stdout ev) \<union> set_option (sv_stderr ev). scrubbed redact (co_content c))"

definition scrubbed_row :: "redactor \<Rightarrow> event_row \<Rightarrow> bool" where
  "scrubbed_row redact r \<longleftrightarrow> scrubbed redact (er_command r)
     \<and> (\<forall>c \<in> set_option (er_stdout r) \<union> set_option (er_stderr r). scrubbed redact (fst c))"

definition scrubbed_db :: "redactor \<Rightarrow> event_db \<Rightarrow> bool" where
  "scrubbed_db redact db \<longleftrightarrow> (\<forall>r \<in> set (ed_events db). scrubbed_row redact r)
     \<and> (\<forall>r \<in> set (ed_env db). \<exists>env e. scrubbed_env redact e \<and> vr_env_json r = stable_env_json env e)"

lemma scrub_scrubbed: "scrub redact st v = (v', st') \<Longrightarrow> scrubbed redact v'"
  by (auto simp: scrub_def scrubbed_def Let_def)

lemma scrub_env_scrubbed:
  "scrub_env redact st e = (e', st') \<Longrightarrow> fst ` set e \<subseteq> set ENV_ALLOWLIST \<Longrightarrow> scrubbed_env redact e'"
proof (induction redact st e arbitrary: e' st' rule: scrub_env.induct)
  case (2 redact st k v e)
  obtain v1 st1 where v: "scrub redact st v = (v1, st1)" by (metis prod.collapse)
  obtain e2 st2 where e: "scrub_env redact st1 e = (e2, st2)" by (metis prod.collapse)
  have "scrubbed_env redact e2" using "2.IH"[OF v[symmetric] e] "2.prems"(2) by auto
  then show ?case using "2.prems" v e scrub_scrubbed[OF v] by (auto simp: scrubbed_env_def)
qed (simp add: scrubbed_env_def)

lemma scrub_output_scrubbed:
  "scrub_output redact st out = (out', st') \<Longrightarrow> c \<in> set_option out' \<Longrightarrow> scrubbed redact (co_content c)"
  by (auto simp: scrub_output_def scrub_scrubbed split: option.splits prod.splits)

lemma redact_scrubbed: "scrubbed_event redact (fst (redact_shell_event redact ev))"
proof -
  let ?e = "filter (\<lambda>(k, v). k \<in> set ENV_ALLOWLIST) (sv_env_snapshot ev)"
  obtain c st1 where 1: "scrub redact (0, []) (sv_command ev) = (c, st1)" by (metis prod.collapse)
  obtain e st2 where 2: "scrub_env redact st1 ?e = (e, st2)" by (metis prod.collapse)
  obtain o1 st3 where 3: "scrub_output redact st2 (sv_stdout ev) = (o1, st3)" by (metis prod.collapse)
  obtain o2 st4 where 4: "scrub_output redact st3 (sv_stderr ev) = (o2, st4)" by (metis prod.collapse)
  have "fst ` set ?e \<subseteq> set ENV_ALLOWLIST" by auto
  note f = scrub_scrubbed[OF 1] scrub_env_scrubbed[OF 2 this] scrub_output_scrubbed[OF 3] scrub_output_scrubbed[OF 4]
  show ?thesis
    unfolding redact_shell_event_def 1 2 3 4 prod.case fst_conv scrubbed_event_def using f by auto
qed

lemma stable_env_scrubbed:
  assumes "scrubbed_db redact db" "scrubbed_env redact e"
  shows "scrubbed_db redact (snd (upsert_env_snapshot env db e))"
proof -
  define P where "P j \<longleftrightarrow> (\<exists>env e. scrubbed_env redact e \<and> j = stable_env_json env e)" for j
  have P: "P (stable_env_json env e)" using assms(2) by (auto simp: P_def)
  have db: "scrubbed_db redact db' \<longleftrightarrow> (\<forall>r \<in> set (ed_events db'). scrubbed_row redact r) \<and> (\<forall>r \<in> set (ed_env db'). P (vr_env_json r))" for db'
    by (simp add: scrubbed_db_def P_def)
  show ?thesis using assms(1) P unfolding db upsert_env_snapshot_def Let_def
    by (auto split: option.split)
qed

lemma scrubbed_db_event:
  assumes "scrubbed_db redact db" "scrubbed_event redact ev" "insert_event_at env f db sid ev ts rc es i p = (r, db')"
  shows "scrubbed_db redact db'"
  using assms(3)
proof (cases rule: insert_event_cases)
  case (new row db1)
  have "scrubbed_db redact db1"
    using assms(1,2) stable_env_scrubbed by (simp add: new(1) scrubbed_event_def)
  moreover have "scrubbed_row redact row"
    using assms(2) by (auto simp: scrubbed_row_def scrubbed_event_def new output_cols_def)
  ultimately show ?thesis
    using assms(1) by (auto simp: scrubbed_db_def new(2))
qed (use assms in simp)

lemma scrubbed_db_browser:
  assumes "scrubbed_db redact db" "insert_browser_event env f db ev ts i p = (r, db')"
  shows "scrubbed_db redact db'"
  using assms(2)
proof (cases rule: insert_browser_cases)
  case (new row)
  then show ?thesis using assms(1) by (simp add: scrubbed_db_def)
qed (use assms in simp)

interpretation scrubbing: event_tables redact "scrubbed_db redact" "scrubbed_event redact" for redact
proof
  show "same_events db db' \<Longrightarrow> scrubbed_db redact db \<Longrightarrow> scrubbed_db redact db'" for redact db db'
    by (simp add: scrubbed_db_def same_events_def)
qed (auto intro: scrubbed_db_event scrubbed_db_browser redact_scrubbed)

interpretation scrubbing_run: invariant_run "daemon_step redact answer" "scrubbing.good redact" for redact answer
  by unfold_locales (rule scrubbing.daemon_step_good)


lemma fresh_scrubbed: "scrubbed_db redact (ds_db fresh_daemon)" "lines_ok ok (ds_fallback fresh_daemon)"
  by (simp_all add: scrubbed_db_def lines_ok_def fresh_daemon_def no_events_def)


subsection \<open>Accepted events\<close>

text \<open>Where an accepted event can be: the buffer, its table, a fallback file.\<close>

definition row_of :: "EventEnvelope \<Rightarrow> event_db \<Rightarrow> bool" where
  "row_of e db = (case ee_payload e of
     Shell _ \<Rightarrow> Some (ee_envelope_id e) \<in> set (map er_envelope_id (ed_events db))
   | Browser _ \<Rightarrow> Some (ee_envelope_id e) \<in> set (map br_envelope_id (ed_browser db))
   | _ \<Rightarrow> True)"

definition line_of :: "string \<Rightarrow> fallback_file list \<Rightarrow> bool" where
  "line_of i files = list_ex (\<lambda>f. list_ex (\<lambda>l. map_option ee_envelope_id l = Some i) (ff_lines f)) files"

definition kept :: "EventEnvelope \<Rightarrow> daemon_state \<Rightarrow> bool" where
  "kept e s \<longleftrightarrow> ds_file_faults s = [] \<and> (row_of e (ds_db s) \<or> line_of (ee_envelope_id e) (ds_fallback s))"

definition held :: "EventEnvelope \<Rightarrow> daemon_state \<Rightarrow> bool" where
  "held e s \<longleftrightarrow> ds_file_faults s = [] \<and> (e \<in> set (ds_buffer s) \<or> kept e s)"

lemma row_of_event:
  assumes "insert_event_at env f db sid ev ts rc es i p = (r, db')"
  shows "(row_of e db \<longrightarrow> row_of e db') \<and> (\<not> isl r \<longrightarrow> i \<noteq> None \<longrightarrow> i \<in> set (map er_envelope_id (ed_events db')))"
  using assms
proof (cases rule: insert_event_cases)
  case (new row db1)
  have "ed_browser db1 = ed_browser db" by (simp add: new(1) upsert_env_frame)
  then show ?thesis by (auto simp: row_of_def new split: EventPayload.split)
qed (auto simp: taken_id_def)

lemma row_of_browser:
  assumes "insert_browser_event env f db ev ts i p = (r, db')"
  shows "(row_of e db \<longrightarrow> row_of e db') \<and> (\<not> isl r \<longrightarrow> i \<noteq> None \<longrightarrow> i \<in> set (map br_envelope_id (ed_browser db')))"
  using assms
proof (cases rule: insert_browser_cases)
  case (new row)
  then show ?thesis by (auto simp: row_of_def split: EventPayload.split)
qed (auto simp: taken_id_def)

lemma row_of_same: "same_events db db' \<Longrightarrow> row_of e db' = row_of e db"
  by (simp add: row_of_def same_events_def split: EventPayload.split)

lemma line_of_write:
  "line_of i files \<Longrightarrow> line_of i (snd (write_fallback_jsonl f date x files))"
  "line_of (ee_envelope_id x) (snd (write_fallback_jsonl None date x files))"
  by (fastforce simp: line_of_def write_fallback_jsonl_def list_ex_iff simp del: if_image_distrib split: option.split)+

lemma kept_fall_back: "kept e s \<Longrightarrow> kept e (fall_back env x s)"
  by (simp add: kept_def next_fault_def) (use line_of_write in blast)

lemma fall_back_keeps:
  "ds_file_faults s = [] \<Longrightarrow> ee_envelope_id x = ee_envelope_id e \<Longrightarrow> kept e (fall_back env x s)"
  using line_of_write(2)[of x] by (simp add: kept_def next_fault_def)

lemma kept_db: "kept e s \<Longrightarrow> (row_of e (ds_db s) \<Longrightarrow> row_of e db) \<Longrightarrow> kept e (s\<lparr>ds_db := db, ds_map := m, ds_faults := fs\<rparr>)"
  by (auto simp: kept_def)

lemma flush_shell_kept:
  assumes "kept x s"
  shows "kept x (fst (flush_shell env e ev (s, a)))"
proof (rule flush_shell_cases[where env = env and e = e and ev = ev and s = s and a = a])
  fix fs assume r: "flush_shell env e ev (s, a) = (fall_back env (redacted_envelope env e ev) (s\<lparr>ds_faults := fs\<rparr>), a)"
  show ?thesis unfolding r fst_conv by (rule kept_fall_back) (use assms in \<open>simp add: kept_def\<close>)
next
  fix f1 f2 fs red sid db m i db' a'
  assume g: "get_or_create_session (de_event env) f1 (ds_db s, ds_map s) (sv_session_id red) (sv_hostname red) (as_db_str (sv_shell red)) = (Inr sid, (db, m))"
    and i: "insert_event_at (de_event env) f2 db sid red (ee_timestamp e) (sv_redaction_count red) None (Some (ee_envelope_id e)) (ee_probe_tag e) = (Inr i, db')"
    and r: "flush_shell env e ev (s, a) = (s\<lparr>ds_db := db', ds_map := m, ds_faults := fs\<rparr>, a')"
  show ?thesis unfolding r fst_conv
    by (rule kept_db[OF assms]) (use row_of_same[OF same_events_session[OF g]] row_of_event[OF i] in blast)
next
  fix f1 fs red sid db m a'
  assume g: "get_or_create_session (de_event env) f1 (ds_db s, ds_map s) (sv_session_id red) (sv_hostname red) (as_db_str (sv_shell red)) = (Inr sid, (db, m))"
    and r: "flush_shell env e ev (s, a) = (fall_back env (redacted_envelope env e ev) (s\<lparr>ds_db := db, ds_map := m, ds_faults := fs\<rparr>), a')"
  show ?thesis unfolding r fst_conv
    by (intro kept_fall_back kept_db[OF assms]) (use row_of_same[OF same_events_session[OF g]] in blast)
qed

lemma flush_shell_keeps:
  assumes "ds_file_faults s = []" "ee_payload e = Shell ev"
  shows "kept e (fst (flush_shell env e ev (s, a)))"
proof (rule flush_shell_cases[where env = env and e = e and ev = ev and s = s and a = a])
  fix f1 f2 fs red sid db m i db' a'
  assume i: "insert_event_at (de_event env) f2 db sid red (ee_timestamp e) (sv_redaction_count red) None (Some (ee_envelope_id e)) (ee_probe_tag e) = (Inr i, db')"
    and r: "flush_shell env e ev (s, a) = (s\<lparr>ds_db := db', ds_map := m, ds_faults := fs\<rparr>, a')"
  show ?thesis using row_of_event[OF i] assms by (simp add: r kept_def row_of_def)
qed (simp_all add: fall_back_keeps assms redacted_envelope_def)

lemma flush_browser_kept:
  assumes "kept x s"
  shows "kept x (fst (flush_browser env e ev (s, a)))"
proof (rule flush_browser_cases[where env = env and e = e and ev = ev and s = s and a = a])
  fix f fs i db a'
  assume i: "insert_browser_event (de_event env) f (ds_db s) ev (ee_timestamp e) (Some (ee_envelope_id e)) (ee_probe_tag e) = (Inr i, db)"
    and r: "flush_browser env e ev (s, a) = (s\<lparr>ds_db := db, ds_faults := fs\<rparr>, a')"
  show ?thesis using row_of_browser[OF i] assms by (auto simp: r kept_def)
next
  fix fs a' assume r: "flush_browser env e ev (s, a) = (fall_back env e (s\<lparr>ds_faults := fs\<rparr>), a')"
  show ?thesis unfolding r fst_conv by (rule kept_fall_back) (use assms in \<open>simp add: kept_def\<close>)
qed

lemma flush_browser_keeps:
  assumes "ds_file_faults s = []" "ee_payload e = Browser ev"
  shows "kept e (fst (flush_browser env e ev (s, a)))"
proof (rule flush_browser_cases[where env = env and e = e and ev = ev and s = s and a = a])
  fix f fs i db a'
  assume i: "insert_browser_event (de_event env) f (ds_db s) ev (ee_timestamp e) (Some (ee_envelope_id e)) (ee_probe_tag e) = (Inr i, db)"
    and r: "flush_browser env e ev (s, a) = (s\<lparr>ds_db := db, ds_faults := fs\<rparr>, a')"
  show ?thesis using row_of_browser[OF i] assms by (simp add: r kept_def row_of_def)
qed (simp add: fall_back_keeps assms)

lemma flush_one_kept: "kept x (fst st) \<Longrightarrow> kept x (fst (flush_one env st e))"
  by (cases st; cases "ee_payload e") (simp_all add: flush_one_def flush_shell_kept flush_browser_kept)

lemma flush_one_keeps: "ds_file_faults (fst st) = [] \<Longrightarrow> kept e (fst (flush_one env st e))"
  by (cases st; cases "ee_payload e")
    (simp_all add: flush_one_def flush_shell_keeps flush_browser_keeps, simp_all add: kept_def row_of_def)

lemma foldl_flush_kept: "kept x (fst st) \<Longrightarrow> kept x (fst (foldl (flush_one env) st es))"
  by (induction es arbitrary: st) (simp_all add: flush_one_kept)

lemma foldl_flush_keeps:
  "ds_file_faults (fst st) = [] \<Longrightarrow> x \<in> set es \<Longrightarrow> kept x (fst (foldl (flush_one env) st es))"
proof (induction es arbitrary: st)
  case (Cons e es)
  have "ds_file_faults (fst (flush_one env st e)) = []"
    using flush_one_keeps[OF Cons.prems(1)] by (simp add: kept_def)
  then show ?case
    using Cons flush_one_keeps[OF Cons.prems(1)] foldl_flush_kept by (cases "x = e") auto
qed simp

lemma try_health_kept: "kept x s \<Longrightarrow> kept x (try_health f p s)"
  using try_health_db[of f p s] row_of_same[of "ds_db s" "map_health f p (ds_db s)" x]
  by (auto simp: kept_def)

lemma foldl_kept: "kept x s \<Longrightarrow> (\<And>s y. kept x s \<Longrightarrow> kept x (f s y)) \<Longrightarrow> kept x (foldl f s ys)"
  by (induction ys arbitrary: s) simp_all

lemma flush_health_kept: "kept x s \<Longrightarrow> kept x (flush_health n a s)"
  unfolding flush_health_def
  by (intro foldl_kept)
    (simp_all add: health_success_def health_error_def health_liveness_def Let_def try_health_kept split: prod.split)

lemma flush_events_kept:
  assumes "ds_file_faults s = []" "x \<in> set (take (de_batch env) (ds_buffer s)) \<or> kept x s"
  shows "kept x (snd (flush_events env s))"
proof -
  let ?n = "de_batch env" and ?s = "s\<lparr>ds_buffer := drop (de_batch env) (ds_buffer s)\<rparr>"
  show ?thesis
  proof (rule flush_events_cases[of env s])
    fix f p
    assume "take ?n (ds_buffer s) = []" and r: "flush_events env s = (0, try_health f p ?s)"
    then have "kept x ?s" using assms(2) by (auto simp: kept_def)
    then show ?thesis by (simp add: r try_health_kept)
  next
    fix s1 a
    assume f: "foldl (flush_one env) (?s, no_acc) (take ?n (ds_buffer s)) = (s1, a)"
      and r: "flush_events env s = (length (take ?n (ds_buffer s)), flush_health (ev_now_ms (de_event env)) a s1)"
    have "kept x (fst (foldl (flush_one env) (?s, no_acc) (take ?n (ds_buffer s))))"
      using assms(2)
    proof
      assume "x \<in> set (take ?n (ds_buffer s))"
      then show ?thesis by (intro foldl_flush_keeps) (use assms(1) in simp_all)
    next
      assume "kept x s" then show ?thesis by (intro foldl_flush_kept) (simp add: kept_def)
    qed
    then show ?thesis by (simp add: r f flush_health_kept)
  qed
qed

text \<open>An event of a kind the flush ignores is kept exactly when the file writes succeed.\<close>

lemma flush_file_faults:
  assumes "ds_file_faults s = []"
  shows "ds_file_faults (snd (flush_events env s)) = []"
  using flush_events_kept[OF assms, of "ls_event\<lparr>ee_payload := Raw JNull\<rparr>" env] assms
  by (simp add: kept_def row_of_def)

lemma flush_events_held:
  assumes "held x s"
  shows "held x (snd (flush_events env s))"
proof (cases "x \<in> set (take (de_batch env) (ds_buffer s)) \<or> kept x s")
  case True
  then show ?thesis using flush_events_kept assms by (simp add: held_def flush_file_faults)
next
  case False
  then have "x \<in> set (drop (de_batch env) (ds_buffer s))"
    using assms unfolding held_def by (metis Un_iff append_take_drop_id set_append)
  then show ?thesis using assms by (simp add: held_def flush_buffer flush_file_faults)
qed

lemma drain_buffer: "0 < de_batch env \<Longrightarrow> ds_buffer (drain env s) = []"
proof (induction env s rule: drain.induct)
  case (1 env s)
  show ?case
  proof (cases "fst (flush_events env s) = 0")
    case True
    then have "ds_buffer s = []" using 1(2) by (simp add: flush_count min_def split: if_splits)
    then show ?thesis using True by (subst drain.simps) (simp add: Let_def flush_buffer)
  next
    case False
    then show ?thesis using 1 by (subst drain.simps) (simp add: Let_def)
  qed
qed

lemma drain_held: "held x s \<Longrightarrow> held x (drain env s)"
proof (induction env s rule: drain.induct)
  case (1 env s)
  then show ?case using flush_events_held[OF 1(2), of env] by (subst drain.simps) (simp add: Let_def)
qed

lemma handle_request_buffer:
  "set (ds_buffer s) \<subseteq> set (ds_buffer (snd (handle_request env answer s r)))"
proof (cases r)
  case (RegisterWatchSha sha repo ttl)
  show ?thesis
    unfolding RegisterWatchSha handle_request_def DaemonRequest.case take_fault_eq prod.case Let_def
    by (cases "next_fault (ds_faults s)") simp_all
next
  case (UpdateSourceHealthHeartbeat src ts err)
  show ?thesis
  proof (cases "src \<in> set ALLOWED_SOURCES")
    case True
    then show ?thesis
      unfolding UpdateSourceHealthHeartbeat handle_request_def DaemonRequest.case take_fault_eq prod.case
      by (cases "next_fault (ds_faults s)"; cases "ed_health (ds_db s)") simp_all
  qed (simp add: UpdateSourceHealthHeartbeat handle_request_def)
qed (auto simp: handle_request_def)

lemma held_mono:
  assumes "held x s" "set (ds_buffer s) \<subseteq> set (ds_buffer s')" "same_events (ds_db s) (ds_db s')"
    "ds_fallback s' = ds_fallback s" "ds_file_faults s' = ds_file_faults s"
  shows "held x s'"
  using assms row_of_same[OF assms(3)] by (auto simp: held_def kept_def)

lemma handle_request_held: "held x s \<Longrightarrow> held x (snd (handle_request env answer s r))"
  using handle_request_frame[of s env answer r] handle_request_buffer by (blast intro: held_mono)

lemma try_health_held: "held x s \<Longrightarrow> held x (try_health f p s)"
  using try_health_kept by (auto simp: held_def)

lemma recount_held: "held x s \<Longrightarrow> held x (recompute_rolling_counts now_s sessions s)"
  unfolding recompute_rolling_counts_def write_rolling_counts_def Let_def by (intro try_health_held)

interpretation holding: invariant_run "daemon_step redact answer" "held x" for redact answer x
proof
  show "held x (daemon_step redact answer s e)" if "held x s" for s e
    using that by (cases e; cases "snd e") (auto simp: handle_request_held flush_events_held recount_held)
qed



end
