(* ===== verification/ClaudeWatch.thy ===== *)
theory ClaudeWatch
  imports ClaudeStore EventStore Alarms
begin

text \<open>
  The watcher of Claude transcripts (\<open>hippo-daemon/src/watch_claude_sessions.rs\<close>): the state it keeps per
  file, the decision whether a file needs a new pass, the pass that runs in a blocking task, the queue of
  paths, and the settling sweep. An \<open>Instant\<close> is an integer of milliseconds, a file's metadata what \<open>stat\<close> returns.
\<close>

subsection \<open>State\<close>

record FileState =
  wf_byte_offset :: nat
  wf_inode :: nat
  wf_device :: nat
  wf_size_at_last_read :: nat
  wf_cooldown_until :: "int option"
  wf_in_flight :: bool
  wf_meta_changed :: bool
  wf_last_ingest_ms :: int

definition default_state :: FileState where
  "default_state = \<lparr>wf_byte_offset = 0, wf_inode = 0, wf_device = 0, wf_size_at_last_read = 0, wf_cooldown_until = None,
     wf_in_flight = False, wf_meta_changed = False, wf_last_ingest_ms = 0\<rparr>"

record offset_row =
  of_session_id :: string
  of_byte_offset :: int
  of_inode :: int
  of_device :: int
  of_size_at_last_read :: int
  of_updated_at :: int

type_synonym offsets = "(path \<times> offset_row) list"

text \<open>The casts \<open>u64 as i64\<close> and \<open>i64 as u64\<close>.\<close>

definition as_i64_cast :: "nat \<Rightarrow> int" where
  "as_i64_cast n = wrap_i64 (int n)"

definition as_u64_cast :: "int \<Rightarrow> nat" where
  "as_u64_cast i = nat (i mod 2 ^ 64)"

definition load_row :: "offset_row \<Rightarrow> FileState" where
  "load_row r = default_state\<lparr>wf_byte_offset := as_u64_cast (of_byte_offset r), wf_inode := as_u64_cast (of_inode r),
     wf_device := as_u64_cast (of_device r), wf_size_at_last_read := as_u64_cast (of_size_at_last_read r),
     wf_last_ingest_ms := of_updated_at r\<rparr>"

definition load_offsets :: "offsets \<Rightarrow> path \<Rightarrow> FileState option" where
  "load_offsets rows p = map_option load_row (map_of rows p)"

definition save_offset :: "string option \<Rightarrow> path \<Rightarrow> FileState \<Rightarrow> offsets \<Rightarrow> (string + unit) \<times> offsets" where
  "save_offset fault p st rows = (case fault of
     Some e \<Rightarrow> (Inl e, rows)
   | None \<Rightarrow> (Inr (), al_put p \<lparr>of_session_id = (case file_name p of None \<Rightarrow> [] | Some n \<Rightarrow> file_stem n),
        of_byte_offset = as_i64_cast (wf_byte_offset st), of_inode = as_i64_cast (wf_inode st),
        of_device = as_i64_cast (wf_device st), of_size_at_last_read = as_i64_cast (wf_size_at_last_read st),
        of_updated_at = wf_last_ingest_ms st\<rparr> rows))"

subsection \<open>One pass over a file\<close>

record file_meta =
  fm_size :: nat
  fm_ino :: nat
  fm_dev :: nat

record snapshot =
  sn_size :: nat
  sn_ino :: nat
  sn_dev :: nat
  sn_started_ms :: int

definition BACKOFF_DURATION :: int where [hippo_defs]: "BACKOFF_DURATION = 60000"

text \<open>\<open>sub_mtime\<close>: the modification time of \<open>stem.meta.json\<close>, if it has one.\<close>

definition sibling_meta_newer :: "path \<Rightarrow> int option \<Rightarrow> int \<Rightarrow> bool" where
  "sibling_meta_newer p sub_mtime last_ingest_ms =
     (case Option.bind (file_name p) (\<lambda>n. strip_suffix n ''.jsonl'') of
        None \<Rightarrow> False
      | Some _ \<Rightarrow> (case sub_mtime of None \<Rightarrow> False
          | Some t \<Rightarrow> 0 \<le> t \<and> (if t \<le> i64_max then t else i64_max) \<ge> last_ingest_ms))"

text \<open>
  \<open>process_file\<close> up to the blocking task: the new state and, when a task is started, what was measured
  before it. \<open>running\<close>: the task of the stored handle has not finished.
\<close>

definition start_process ::
  "path \<Rightarrow> int \<Rightarrow> int \<Rightarrow> bool \<Rightarrow> file_meta option \<Rightarrow> int option \<Rightarrow> FileState \<Rightarrow> FileState \<times> snapshot option" where
  "start_process p instant now_ms running meta sub_mtime st =
     (if wf_in_flight st \<and> running then (st, None)
      else let st1 = st\<lparr>wf_in_flight := False\<rparr>;
               cooling = (case wf_cooldown_until st1 of None \<Rightarrow> False | Some t \<Rightarrow> instant < t) in
      if cooling then (st1, None)
      else let st2 = st1\<lparr>wf_cooldown_until := None\<rparr> in
      case meta of None \<Rightarrow> (st2, None)
      | Some m \<Rightarrow>
        (let st3 = (if wf_inode st2 \<noteq> 0 \<and> (fm_ino m \<noteq> wf_inode st2 \<or> fm_dev m \<noteq> wf_device st2)
                    then st2\<lparr>wf_byte_offset := 0, wf_size_at_last_read := 0\<rparr> else st2);
             st4 = st3\<lparr>wf_inode := fm_ino m, wf_device := fm_dev m\<rparr>;
             st5 = (if fm_size m < wf_byte_offset st4
                    then st4\<lparr>wf_byte_offset := 0, wf_size_at_last_read := 0\<rparr> else st4);
             snap = \<lparr>sn_size = fm_size m, sn_ino = fm_ino m, sn_dev = fm_dev m, sn_started_ms = now_ms\<rparr>
         in if fm_size m \<le> wf_size_at_last_read st5 \<and> \<not> wf_meta_changed st5
            then (if \<not> sibling_meta_newer p sub_mtime (wf_last_ingest_ms st5) then (st5, None)
                  else (st5\<lparr>wf_meta_changed := True, wf_in_flight := True\<rparr>, Some snap))
            else (st5\<lparr>wf_in_flight := True\<rparr>, Some snap)))"

text \<open>The blocking task: ingest, and on success the saved offset, whose failure is only logged.\<close>

definition run_task ::
  "extract_env \<Rightarrow> store_env \<Rightarrow> path \<Rightarrow> snapshot \<Rightarrow> json option \<Rightarrow> json option list option \<Rightarrow> sqlite_error option list \<Rightarrow> string option
    \<Rightarrow> claude_db \<times> offsets \<Rightarrow> (nat \<times> nat \<times> nat) \<times> claude_db \<times> offsets" where
  "run_task env senv p snap sub file_lines faults save_fault s = (case s of (db, rows) \<Rightarrow>
     (case ingest_session_file env senv p sub file_lines (db, faults) of ((inserted, skipped, errors), db') \<Rightarrow>
       ((inserted, skipped, errors), db',
        if errors = 0
        then snd (save_offset save_fault p (default_state\<lparr>wf_byte_offset := sn_size snap, wf_inode := sn_ino snap,
               wf_device := sn_dev snap, wf_size_at_last_read := sn_size snap, wf_last_ingest_ms := sn_started_ms snap\<rparr>) rows)
        else rows)))"

datatype task_end = Elapsed | Panicked | OpenFailed | Joined nat nat nat

text \<open>\<open>process_file\<close> after the wait; the number is its result.\<close>

definition finish_process :: "int \<Rightarrow> snapshot \<Rightarrow> task_end \<Rightarrow> FileState \<Rightarrow> FileState \<times> nat" where
  "finish_process instant snap out st = (case out of
     Elapsed \<Rightarrow> (st\<lparr>wf_cooldown_until := Some (instant + BACKOFF_DURATION)\<rparr>, 0)
   | Panicked \<Rightarrow> (st\<lparr>wf_in_flight := False, wf_cooldown_until := Some (instant + BACKOFF_DURATION)\<rparr>, 0)
   | OpenFailed \<Rightarrow> (st\<lparr>wf_in_flight := False, wf_cooldown_until := Some (instant + BACKOFF_DURATION)\<rparr>, 0)
   | Joined inserted skipped errors \<Rightarrow>
       (if errors > 0 then (st\<lparr>wf_in_flight := False, wf_cooldown_until := Some (instant + BACKOFF_DURATION)\<rparr>, inserted)
        else (st\<lparr>wf_in_flight := False, wf_byte_offset := sn_size snap, wf_size_at_last_read := sn_size snap,
                 wf_meta_changed := False, wf_last_ingest_ms := sn_started_ms snap\<rparr>, inserted)))"

subsection \<open>The queue of paths\<close>

text \<open>\<open>Path::extension\<close> is \<open>jsonl\<close>: a name with a stem before the dot.\<close>

definition is_jsonl :: "path \<Rightarrow> bool" where
  "is_jsonl p = (case Option.bind (file_name p) (\<lambda>n. strip_suffix n ''.jsonl'') of None \<Rightarrow> False | Some stem \<Rightarrow> stem \<noteq> [])"

definition push_new :: "path \<Rightarrow> path list \<Rightarrow> path list" where
  "push_new p pending = (if p \<in> set pending then pending else pending @ [p])"

definition queue_event_path ::
  "(path \<Rightarrow> bool) \<Rightarrow> path \<Rightarrow> (path \<Rightarrow> FileState option) \<times> path list \<Rightarrow> (path \<Rightarrow> FileState option) \<times> path list" where
  "queue_event_path is_file p s = (case s of (states, pending) \<Rightarrow>
     (case Option.bind (file_name p) (\<lambda>n. strip_suffix n ''.meta.json'') of
        Some stem \<Rightarrow>
          (let jsonl = butlast p @ [stem @ ''.jsonl''] in
           if \<not> is_file jsonl then (states, pending)
           else (states(jsonl \<mapsto> (unwrap_or (states jsonl) default_state)\<lparr>wf_meta_changed := True\<rparr>), push_new jsonl pending))
      | None \<Rightarrow> if is_jsonl p then (states, push_new p pending) else (states, pending)))"

text \<open>The branches of the \<open>select\<close> loop that change the queue; \<open>Relevant\<close> is a create or modify event.\<close>

datatype watch_event = Discovered "path list" | Relevant "path list" | Irrelevant

definition queue_event :: "(path \<Rightarrow> bool) \<Rightarrow> (path \<Rightarrow> FileState option) \<times> path list \<Rightarrow> watch_event \<Rightarrow>
    (path \<Rightarrow> FileState option) \<times> path list" where
  "queue_event is_file s ev = (case ev of
     Discovered ps \<Rightarrow> (fst s, foldl (\<lambda>pending p. push_new p pending) (snd s) ps)
   | Relevant ps \<Rightarrow> foldl (\<lambda>s p. queue_event_path is_file p s) s ps
   | Irrelevant \<Rightarrow> s)"

subsection \<open>The settling sweep\<close>

definition sweep_candidate :: "queue_row list \<Rightarrow> agentic_session \<Rightarrow> bool" where
  "sweep_candidate q r \<longleftrightarrow> as_harness r = ''claude-code'' \<and> as_probe_tag r = None \<and> as_content_hash r \<noteq> None
     \<and> (as_last_enriched_content_hash r = None \<or> as_content_hash r \<noteq> as_last_enriched_content_hash r)
     \<and> (as_tool_calls r \<noteq> [] \<or> as_user_prompts r \<noteq> [] \<or> as_summary_text r \<noteq> [])
     \<and> (case queue_status (as_id r) q of None \<Rightarrow> True | Some st \<Rightarrow> st = ''done'' \<or> st = ''failed'')"

definition sweep_candidates :: "nat \<Rightarrow> claude_db \<Rightarrow> (int \<times> path) list" where
  "sweep_candidates max_per_tick db =
     map (\<lambda>r. (as_id r, as_source_file r))
       (take (max_per_tick * 4) (sort_key as_end_time (filter (sweep_candidate (cd_queue db)) (cd_sessions db))))"

definition row_changed :: "int \<Rightarrow> queue_row list \<Rightarrow> bool" where
  "row_changed i q = (queue_status i q \<noteq> Some ''processing'')"

datatype sweep_fault = NotMigrated | SweepError string

text \<open>The loop; \<open>faults\<close> are the outcomes of the coming upserts. \<open>Inl\<close> rolls the transaction back.\<close>

fun sweep_loop ::
  "(path \<Rightarrow> int option) \<Rightarrow> nat \<Rightarrow> int \<Rightarrow> (int \<times> path) list \<Rightarrow> sweep_fault option list \<Rightarrow> nat \<Rightarrow> queue_row list \<Rightarrow> string + nat \<times> queue_row list" where
  "sweep_loop mtime max_per_tick now_ms [] faults n q = Inr (n, q)"
| "sweep_loop mtime max_per_tick now_ms ((i, file) # cs) faults n q =
     (if n \<ge> max_per_tick then Inr (n, q)
      else case mtime file of
        None \<Rightarrow> sweep_loop mtime max_per_tick now_ms cs faults n q
      | Some t \<Rightarrow>
          if t > now_ms - 30 * 60 * 1000 then sweep_loop mtime max_per_tick now_ms cs faults n q
          else (case faults of
              Some NotMigrated # _ \<Rightarrow> Inr (n, q)
            | Some (SweepError e) # _ \<Rightarrow> Inl e
            | _ \<Rightarrow> sweep_loop mtime max_per_tick now_ms cs (tl faults)
                    (if row_changed i q then n + 1 else n) (enqueue now_ms i q)))"

text \<open>
  \<open>query\<close>, \<open>begin_fault\<close> and \<open>commit_fault\<close> are the failures around the loop. \<open>between\<close> is what other connections do to the
  database between the \<open>SELECT\<close> and the transaction.
\<close>

definition run_settling_sweep ::
  "(path \<Rightarrow> int option) \<Rightarrow> nat \<Rightarrow> int \<Rightarrow> string option \<Rightarrow> string option \<Rightarrow> sweep_fault option list \<Rightarrow> string option \<Rightarrow>
   (claude_db \<Rightarrow> claude_db) \<Rightarrow> claude_db \<Rightarrow> (string + nat) \<times> claude_db" where
  "run_settling_sweep mtime max_per_tick now_ms query begin_fault faults commit_fault between db0 =
     (let db = between db0 in
      case query of Some _ \<Rightarrow> (Inr 0, db)
      | None \<Rightarrow> (case begin_fault of Some e \<Rightarrow> (Inl e, db)
        | None \<Rightarrow> (case sweep_loop mtime max_per_tick now_ms (sweep_candidates max_per_tick db0) faults 0 (cd_queue db) of
            Inl e \<Rightarrow> (Inl e, db)
          | Inr (n, q) \<Rightarrow> (case commit_fault of Some e \<Rightarrow> (Inl e, db) | None \<Rightarrow> (Inr n, db\<lparr>cd_queue := q\<rparr>)))))"

subsection \<open>Heartbeat and the start-up check\<close>

definition watcher_heartbeat :: "int \<Rightarrow> SourceHealthRow list \<Rightarrow> SourceHealthRow list" where
  "watcher_heartbeat now_ms rows =
     (if list_ex (\<lambda>r. sh_source r = ''claude-session-watcher'') rows
      then map (\<lambda>r. if sh_source r = ''claude-session-watcher''
                    then r\<lparr>sh_last_success_ts := Some now_ms, sh_updated_at := now_ms\<rparr> else r) rows
      else rows @ [(new_health_row ''claude-session-watcher'' now_ms)\<lparr>sh_last_success_ts := Some now_ms\<rparr>])"

definition check_backfill_needed :: "int \<Rightarrow> agentic_session list \<Rightarrow> nat" where
  "check_backfill_needed cutoff_ms rows = length (filter (\<lambda>r. as_harness r = ''claude-code'' \<and> as_content_hash r = None
     \<and> as_probe_tag r = None \<and> as_end_time r > cutoff_ms) rows)"

end
