(* ===== verification/WatchProperties.thy ===== *)
theory WatchProperties
  imports ClaudeWatch
begin

text \<open>
  The watcher of Claude transcripts against everything that happens around it: the transcript grows or is replaced, the
  subagent's metadata is written, time passes, the task is cut off, fails or loses its saved offset, the watcher is
  restarted, and the brain and the ingests of other files change the database. What is shown: the watcher never takes a
  transcript for done whose content is not stored, and one undisturbed pass stores it.
\<close>

subsection \<open>The casts of the offset table\<close>

lemma cast_roundtrip: "n < 2 ^ 64 \<Longrightarrow> as_u64_cast (as_i64_cast n) = n"
  by (simp add: as_u64_cast_def as_i64_cast_def wrap_i64_def mod_diff_left_eq)

definition fits_u64 :: "FileState \<Rightarrow> bool" where
  "fits_u64 st \<longleftrightarrow> wf_byte_offset st < 2 ^ 64 \<and> wf_inode st < 2 ^ 64 \<and> wf_device st < 2 ^ 64 \<and> wf_size_at_last_read st < 2 ^ 64"

lemma load_save:
  assumes "fits_u64 st"
  shows "load_offsets (snd (save_offset None p st rows)) q =
    (if q = p then Some (st\<lparr>wf_cooldown_until := None, wf_in_flight := False, wf_meta_changed := False\<rparr>) else load_offsets rows q)"
  using assms by (simp add: load_offsets_def save_offset_def load_row_def default_state_def cast_roundtrip fits_u64_def)

subsection \<open>The world of one transcript\<close>

record job =
  jb_snap :: snapshot
  jb_lines :: "(json option list option \<times> int) option"
  jb_sub :: "json option option"
  jb_waited :: bool

record world =
  ww_lines :: "json option list"
  ww_meta :: file_meta
  ww_sub :: "json option"
  ww_sub_mtime :: "int option"
  ww_now :: int
  ww_next_ino :: nat
  ww_db :: claude_db
  ww_rows :: offsets
  ww_state :: FileState
  ww_job :: "job option"

text \<open>How a task ends: it ingests what it read, it panics, or it cannot open the database.\<close>

datatype job_end = Ingests "sqlite_error option list" "string option" | Panics | NoDatabase

datatype world_event =
    Grows "json option list" nat
  | Replaced "json option list" nat nat
  | SubagentWritten "json option"
  | Passes nat
  | Notified
  | Polled int bool
  | LinesRead bool
  | SubagentRead
  | TaskEnds job_end int
  | WaitElapses int
  | Restarted
  | BrainWorks "queue_row list" "int \<Rightarrow> string option"
  | OtherStored store_env "SessionFacts option" SessionSegment

definition job_ends ::
  "extract_env \<Rightarrow> store_env \<Rightarrow> path \<Rightarrow> world \<Rightarrow> job \<Rightarrow> job_end \<Rightarrow> int \<Rightarrow> world" where
  "job_ends env senv p w j how instant = (case how of
     Panics \<Rightarrow> w\<lparr>ww_job := None, ww_state := (if jb_waited j then fst (finish_process instant (jb_snap j) Panicked (ww_state w)) else ww_state w)\<rparr>
   | NoDatabase \<Rightarrow> w\<lparr>ww_job := None, ww_state := (if jb_waited j then fst (finish_process instant (jb_snap j) OpenFailed (ww_state w)) else ww_state w)\<rparr>
   | Ingests faults save_fault \<Rightarrow> (case (jb_lines j, jb_sub j) of
       (Some (ls, t), Some sub) \<Rightarrow>
         (case run_task (env\<lparr>xe_now_ms := t\<rparr>) (senv\<lparr>se_now_ms := ww_now w\<rparr>) p (jb_snap j) sub ls faults save_fault (ww_db w, ww_rows w) of
            ((i, k, e), db, rows) \<Rightarrow>
              w\<lparr>ww_job := None, ww_db := db, ww_rows := rows,
                ww_state := (if jb_waited j then fst (finish_process instant (jb_snap j) (Joined i k e) (ww_state w)) else ww_state w)\<rparr>)
     | _ \<Rightarrow> w))"

definition world_step :: "extract_env \<Rightarrow> store_env \<Rightarrow> path \<Rightarrow> world \<Rightarrow> world_event \<Rightarrow> world" where
  "world_step env senv p w ev = (case ev of
     Grows ls n \<Rightarrow> if 0 < n \<and> fm_size (ww_meta w) + n < 2 ^ 64
       then w\<lparr>ww_lines := ls, ww_meta := (ww_meta w)\<lparr>fm_size := fm_size (ww_meta w) + n\<rparr>\<rparr> else w
   | Replaced ls sz dev \<Rightarrow> if sz < 2 ^ 64 \<and> dev < 2 ^ 64 \<and> Suc (ww_next_ino w) < 2 ^ 64 \<and> (sz = 0 \<longrightarrow> ls = [])
       then w\<lparr>ww_lines := ls, ww_meta := \<lparr>fm_size = sz, fm_ino = ww_next_ino w, fm_dev = dev\<rparr>, ww_next_ino := Suc (ww_next_ino w)\<rparr> else w
   | SubagentWritten j \<Rightarrow> w\<lparr>ww_sub := j, ww_sub_mtime := Some (ww_now w)\<rparr>
   | Passes d \<Rightarrow> if ww_now w + int d \<le> i64_max then w\<lparr>ww_now := ww_now w + int d\<rparr> else w
   | Notified \<Rightarrow> (if ww_job w = None \<or> \<not> jb_waited (the (ww_job w)) then w\<lparr>ww_state := (ww_state w)\<lparr>wf_meta_changed := True\<rparr>\<rparr> else w)
   | Polled instant ok \<Rightarrow> (if ww_job w \<noteq> None \<and> jb_waited (the (ww_job w)) then w else
       (case start_process p instant (ww_now w) (ww_job w \<noteq> None) (if ok then Some (ww_meta w) else None) (ww_sub_mtime w) (ww_state w) of
          (st, None) \<Rightarrow> w\<lparr>ww_state := st\<rparr>
        | (st, Some snap) \<Rightarrow> w\<lparr>ww_state := st, ww_job := Some \<lparr>jb_snap = snap, jb_lines = None, jb_sub = None, jb_waited = True\<rparr>\<rparr>))
   | LinesRead ok \<Rightarrow> (case ww_job w of None \<Rightarrow> w | Some j \<Rightarrow>
       if jb_lines j = None then w\<lparr>ww_job := Some (j\<lparr>jb_lines := Some (if ok then Some (ww_lines w) else None, ww_now w)\<rparr>)\<rparr> else w)
   | SubagentRead \<Rightarrow> (case ww_job w of None \<Rightarrow> w | Some j \<Rightarrow>
       if jb_lines j \<noteq> None \<and> jb_sub j = None then w\<lparr>ww_job := Some (j\<lparr>jb_sub := Some (ww_sub w)\<rparr>)\<rparr> else w)
   | TaskEnds how instant \<Rightarrow> (case ww_job w of None \<Rightarrow> w | Some j \<Rightarrow> job_ends env senv p w j how instant)
   | WaitElapses instant \<Rightarrow> (case ww_job w of None \<Rightarrow> w | Some j \<Rightarrow>
       if jb_waited j then w\<lparr>ww_state := fst (finish_process instant (jb_snap j) Elapsed (ww_state w)),
            ww_job := Some (j\<lparr>jb_waited := False\<rparr>)\<rparr> else w)
   | Restarted \<Rightarrow> w\<lparr>ww_state := unwrap_or (load_offsets (ww_rows w) p) default_state, ww_job := None\<rparr>
   | BrainWorks q enriched \<Rightarrow>
       if distinct (map qr_session_id q) \<and> set (map qr_session_id q) \<subseteq> set (map as_id (cd_sessions (ww_db w)))
       then w\<lparr>ww_db := (ww_db w)\<lparr>cd_queue := q,
              cd_sessions := map (\<lambda>r. r\<lparr>as_last_enriched_content_hash := enriched (as_id r)\<rparr>) (cd_sessions (ww_db w))\<rparr>\<rparr> else w
   | OtherStored senv' facts seg \<Rightarrow>
       if ss_session_id seg \<noteq> sf_session_id (session_file p) then w\<lparr>ww_db := store_step senv' facts (ww_db w) seg\<rparr> else w)"

subsection \<open>Stored content\<close>

definition stored :: "store_env \<Rightarrow> SessionFacts option \<Rightarrow> SessionSegment \<Rightarrow> claude_db \<Rightarrow> bool" where
  "stored env facts seg db \<longleftrightarrow> (\<exists>r. find_row (seg_key seg) (cd_sessions db) = Some r \<and> update_row (insert_row env facts seg 0) r = r)"

text \<open>
  Every segment of the transcript as it is now, with the subagent metadata as it is now, has a row that holds what the
  upsert writes for it. A record without a timestamp is stamped with the time of the parse, hence the clock.
\<close>

definition caught_up :: "extract_env \<Rightarrow> store_env \<Rightarrow> path \<Rightarrow> json option list \<Rightarrow> json option \<Rightarrow> claude_db \<Rightarrow> bool" where
  "caught_up env senv p ls sub db \<longleftrightarrow> (\<exists>t. let found = extract_segments_for_ingest (env\<lparr>xe_now_ms := t\<rparr>) (se_hash senv) (session_file p) sub ls
     in \<forall>s \<in> set (fst found). stored senv (Some (snd found)) s db)"

lemma settled_stored: "settled env facts seg db \<Longrightarrow> stored env facts seg db"
  by (auto simp: settled_def stored_def)

lemma ingest_session_id: "s \<in> set (fst (extract_segments_for_ingest env h sf sub ls)) \<Longrightarrow> ss_session_id s = sf_session_id sf"
  using extract_result_ok[of env h sf ls] by (auto simp: ingest_segments seg_ok_def)


lemma stored_brain:
  assumes "stored senv facts seg db"
  shows "stored senv facts seg (db\<lparr>cd_queue := q, cd_sessions := map (\<lambda>r. r\<lparr>as_last_enriched_content_hash := g (as_id r)\<rparr>) (cd_sessions db)\<rparr>)"
proof -
  obtain r where r: "find_row (seg_key seg) (cd_sessions db) = Some r" "update_row (insert_row senv facts seg 0) r = r"
    using assms unfolding stored_def by blast
  have "find_row (seg_key seg) (map (\<lambda>r. r\<lparr>as_last_enriched_content_hash := g (as_id r)\<rparr>) (cd_sessions db))
      = Some (r\<lparr>as_last_enriched_content_hash := g (as_id r)\<rparr>)"
    using r(1) find_map_key[of row_key "\<lambda>r. r\<lparr>as_last_enriched_content_hash := g (as_id r)\<rparr>" "seg_key seg" "cd_sessions db"]
    by (simp add: find_row_def row_key_def)
  moreover have "update_row (insert_row senv facts seg 0) (r\<lparr>as_last_enriched_content_hash := g (as_id r)\<rparr>)
      = (update_row (insert_row senv facts seg 0) r)\<lparr>as_last_enriched_content_hash := g (as_id r)\<rparr>"
    by (simp add: update_row_def)
  ultimately show ?thesis using r(2) by (simp add: stored_def)
qed

lemma stored_other: "stored senv facts seg db \<Longrightarrow> seg_key seg \<noteq> seg_key other \<Longrightarrow> stored senv facts seg (store_step senv' facts' db other)"
  by (auto simp: stored_def find_upsert_row)

lemma row_key_brain [simp]: "row_key (r\<lparr>as_last_enriched_content_hash := h\<rparr>) = row_key r"
  by (simp add: row_key_def)

lemma store_inv_brain:
  "store_inv db \<Longrightarrow> distinct (map qr_session_id q) \<Longrightarrow> set (map qr_session_id q) \<subseteq> set (map as_id (cd_sessions db)) \<Longrightarrow>
   store_inv (db\<lparr>cd_queue := q, cd_sessions := map (\<lambda>r. r\<lparr>as_last_enriched_content_hash := g (as_id r)\<rparr>) (cd_sessions db)\<rparr>)"
  by (simp add: store_inv_def comp_def row_key_brain)

lemma caught_up_mono:
  assumes "caught_up env senv p ls sub db"
    and "\<And>facts s. ss_session_id s = sf_session_id (session_file p) \<Longrightarrow> stored senv facts s db \<Longrightarrow> stored senv facts s db'"
  shows "caught_up env senv p ls sub db'"
  using assms ingest_session_id unfolding caught_up_def Let_def by blast

lemma extract_empty: "fst (extract_segments_for_ingest env h sf sub []) = []"
proof -
  have "finish_segments xs_init = []" by (simp add: finish_segments_def xs_init_def)
  moreover have "collapse_adjacent_identical_segments h [] = []" by (simp add: collapse_adjacent_identical_segments_def)
  ultimately have "fst (extract_segments_and_facts env h sf []) = []" by (simp only: extract_segments_and_facts_def Let_def foldl.simps fst_conv)
  then show ?thesis by (simp only: ingest_segments list.map)
qed

lemma caught_up_empty: "caught_up env senv p [] sub db"
  by (simp add: caught_up_def Let_def extract_empty)

lemma stored_clock: "stored (senv\<lparr>se_now_ms := t\<rparr>) facts seg db = stored senv facts seg db"
proof -
  have b: "build_summary_text (senv\<lparr>se_now_ms := t\<rparr>) seg = build_summary_text senv seg"
    by (simp add: build_summary_text_def)
  show ?thesis unfolding stored_def by (simp add: update_row_def insert_row_def b)
qed

lemma ingest_catches_up:
  assumes "store_inv db"
    and "ingest_session_file (env\<lparr>xe_now_ms := t\<rparr>) (senv\<lparr>se_now_ms := n\<rparr>) p sub (Some ls) (db, faults) = ((i, k, 0), db')"
  shows "store_inv db' \<and> caught_up env senv p ls sub db'"
proof -
  obtain segs facts where e: "extract_segments_for_ingest (env\<lparr>xe_now_ms := t\<rparr>) (se_hash senv) (session_file p) sub ls = (segs, facts)"
    by fastforce
  have e': "extract_segments_for_ingest (env\<lparr>xe_now_ms := t\<rparr>) (se_hash (senv\<lparr>se_now_ms := n\<rparr>)) (session_file p) sub ls = (segs, facts)"
    using e by simp
  have "stored senv (Some facts) s db'" if "s \<in> set segs" for s
    using settled_stored[OF ingest_ok(2)[OF assms(1,2) e' that]] by (simp add: stored_clock)
  then have "caught_up env senv p ls sub db'" unfolding caught_up_def using e by (intro exI[of _ t]) (simp add: Let_def)
  then show ?thesis using ingest_ok(1)[OF assms(1,2) e'] by blast
qed

lemma ingest_failed:
  assumes "ingest_session_file env senv p sub file_lines (db, faults) = ((i, k, e), db')" "e \<noteq> 0"
  shows "db' = db"
proof (cases file_lines)
  case None
  then show ?thesis using assms(1) by (simp add: ingest_session_file_def)
next
  case (Some ls)
  obtain segs facts where x: "extract_segments_for_ingest env (se_hash senv) (session_file p) sub ls = (segs, facts)" by fastforce
  then have tried: "segs \<noteq> []" "try_insert_segments senv segs (Some facts) (db, faults) = ((i, k, e), db')"
    using assms Some by (auto simp: ingest_session_file_def split: if_splits)
  obtain r s' where w: "with_busy_retry (insert_segments_with_facts senv (Some facts) segs) (db, faults) = (r, s')"
    by (cases "with_busy_retry (insert_segments_with_facts senv (Some facts) segs) (db, faults)") blast
  then have r: "\<exists>er. r = Inl er" "fst s' = db'"
    using tried(2) assms(2) by (cases r; cases s'; auto simp: try_insert_segments_def split: prod.splits)+
  obtain r1 s1 where one: "insert_segments_with_facts senv (Some facts) segs (db, faults) = (r1, s1)"
    by (cases "insert_segments_with_facts senv (Some facts) segs (db, faults)") blast
  then obtain e1 where e1: "r1 = Inl e1" using w r(1) by (cases r1) (auto simp: with_busy_retry_def)
  then have s1: "fst s1 = db" using insert_attempt_failed one by blast
  show ?thesis
  proof (cases "is_sqlite_busy e1")
    case True
    then have "insert_segments_with_facts senv (Some facts) segs (fst s1, snd s1) = (r, s')"
      using w one e1 by (simp add: with_busy_retry_def)
    then show ?thesis using insert_attempt_failed r s1 by metis
  next
    case False
    then show ?thesis using w one e1 r(2) s1 by (simp add: with_busy_retry_def)
  qed
qed

subsection \<open>What a cursor vouches for\<close>

definition rewritten :: "int option \<Rightarrow> int \<Rightarrow> bool" where
  "rewritten mtime t \<longleftrightarrow> (case mtime of None \<Rightarrow> False | Some m \<Rightarrow> t \<le> m)"

definition vouches :: "extract_env \<Rightarrow> store_env \<Rightarrow> path \<Rightarrow> world \<Rightarrow> FileState \<Rightarrow> bool" where
  "vouches env senv p w st \<longleftrightarrow> wf_inode st < ww_next_ino w \<and> wf_byte_offset st = wf_size_at_last_read st
     \<and> wf_last_ingest_ms st \<le> ww_now w \<and> (wf_inode st = 0 \<longrightarrow> wf_size_at_last_read st = 0)
     \<and> (wf_inode st = fm_ino (ww_meta w) \<longrightarrow> wf_device st = fm_dev (ww_meta w) \<and> wf_size_at_last_read st \<le> fm_size (ww_meta w)
         \<and> (wf_size_at_last_read st = fm_size (ww_meta w) \<and> \<not> wf_meta_changed st \<and> \<not> rewritten (ww_sub_mtime w) (wf_last_ingest_ms st)
             \<longrightarrow> caught_up env senv p (ww_lines w) (ww_sub w) (ww_db w)))"

definition job_ok :: "world \<Rightarrow> job \<Rightarrow> bool" where
  "job_ok w j \<longleftrightarrow> (let s = jb_snap j; m = ww_meta w; st = ww_state w in
     sn_ino s \<le> fm_ino m \<and> 0 < sn_ino s \<and> sn_size s < 2 ^ 64 \<and> sn_dev s < 2 ^ 64 \<and> sn_started_ms s \<le> ww_now w
     \<and> (sn_ino s = fm_ino m \<longrightarrow> sn_dev s = fm_dev m \<and> sn_size s \<le> fm_size m)
     \<and> (\<forall>ls t. jb_lines j = Some (Some ls, t) \<and> sn_ino s = fm_ino m \<and> sn_size s = fm_size m \<longrightarrow> ls = ww_lines w)
     \<and> (\<forall>sub. jb_sub j = Some sub \<and> \<not> rewritten (ww_sub_mtime w) (sn_started_ms s) \<longrightarrow> sub = ww_sub w)
     \<and> wf_in_flight st \<and> wf_inode st = sn_ino s \<and> wf_device st = sn_dev s
     \<and> (wf_meta_changed st \<or> wf_size_at_last_read st < sn_size s))"

definition row_ok :: "snapshot \<Rightarrow> FileState \<Rightarrow> bool" where
  "row_ok s r \<longleftrightarrow> wf_inode r \<le> sn_ino s \<and> wf_last_ingest_ms r \<le> sn_started_ms s
     \<and> (wf_inode r = sn_ino s \<longrightarrow> wf_size_at_last_read r \<le> sn_size s)"

definition world_ok :: "extract_env \<Rightarrow> store_env \<Rightarrow> path \<Rightarrow> world \<Rightarrow> bool" where
  "world_ok env senv p w \<longleftrightarrow> is_jsonl p \<and> store_inv (ww_db w) \<and> 0 \<le> ww_now w \<and> ww_now w \<le> i64_max
     \<and> (\<forall>t. ww_sub_mtime w = Some t \<longrightarrow> 0 \<le> t \<and> t \<le> ww_now w)
     \<and> fm_size (ww_meta w) < 2 ^ 64 \<and> fm_dev (ww_meta w) < 2 ^ 64 \<and> 0 < fm_ino (ww_meta w)
     \<and> ww_next_ino w = Suc (fm_ino (ww_meta w)) \<and> ww_next_ino w < 2 ^ 64
     \<and> (fm_size (ww_meta w) = 0 \<longrightarrow> ww_lines w = [])
     \<and> vouches env senv p w (ww_state w)
     \<and> (\<forall>r. load_offsets (ww_rows w) p = Some r \<longrightarrow> vouches env senv p w r)
     \<and> (\<forall>j. ww_job w = Some j \<longrightarrow> job_ok w j \<and> (\<forall>r. load_offsets (ww_rows w) p = Some r \<longrightarrow> row_ok (jb_snap j) r))"

lemma sibling_rewritten:
  "is_jsonl p \<Longrightarrow> (\<And>t. mtime = Some t \<Longrightarrow> 0 \<le> t \<and> t \<le> i64_max) \<Longrightarrow> sibling_meta_newer p mtime t0 = rewritten mtime t0"
  by (auto simp: is_jsonl_def sibling_meta_newer_def rewritten_def split: option.splits)

text \<open>What a poll does to a cursor that vouches.\<close>

lemma poll_vouched:
  assumes "vouches env senv p w st" "m = ww_meta w" "is_jsonl p" "\<And>t. mtime = Some t \<Longrightarrow> 0 \<le> t \<and> t \<le> i64_max"
    and "\<not> (wf_in_flight st \<and> running)" "case wf_cooldown_until st of None \<Rightarrow> True | Some t \<Rightarrow> t \<le> instant"
  shows "start_process p instant now running (Some m) mtime st =
    (let seen = (if wf_inode st = fm_ino m then wf_size_at_last_read st else 0);
         st' = st\<lparr>wf_in_flight := False, wf_cooldown_until := None, wf_inode := fm_ino m, wf_device := fm_dev m,
                 wf_byte_offset := seen, wf_size_at_last_read := seen\<rparr>
     in if fm_size m \<le> seen \<and> \<not> wf_meta_changed st \<and> \<not> rewritten mtime (wf_last_ingest_ms st) then (st', None)
        else (st'\<lparr>wf_in_flight := True, wf_meta_changed := (wf_meta_changed st \<or> fm_size m \<le> seen)\<rparr>,
              Some \<lparr>sn_size = fm_size m, sn_ino = fm_ino m, sn_dev = fm_dev m, sn_started_ms = now\<rparr>))"
proof -
  have cool: "(case wf_cooldown_until (st\<lparr>wf_in_flight := False\<rparr>) of None \<Rightarrow> False | Some t \<Rightarrow> instant < t) = False"
    using assms(6) by (simp split: option.splits)
  have v: "wf_byte_offset st = wf_size_at_last_read st" "wf_inode st = 0 \<Longrightarrow> wf_size_at_last_read st = 0"
    "wf_inode st = fm_ino m \<Longrightarrow> wf_device st = fm_dev m" "wf_inode st = fm_ino m \<Longrightarrow> wf_size_at_last_read st \<le> fm_size m"
    using assms(1,2) by (simp_all add: vouches_def)
  have sib: "sibling_meta_newer p mtime t0 = rewritten mtime t0" for t0
    using assms(3,4) by (rule sibling_rewritten)
  consider "wf_inode st = fm_ino m" | "wf_inode st \<noteq> fm_ino m" "wf_inode st = 0" | "wf_inode st \<noteq> fm_ino m" "wf_inode st \<noteq> 0" by blast
  then show ?thesis
    unfolding start_process_def if_not_P[OF assms(5)] Let_def cool if_False sib option.case
    using v by cases (cases st; auto simp: not_less)+
qed


subsection \<open>The invariant\<close>

lemma vouches_mono:
  assumes "vouches env senv p w st" "ww_meta w' = ww_meta w" "ww_next_ino w' = ww_next_ino w" "ww_now w \<le> ww_now w'"
    "ww_lines w' = ww_lines w" "ww_sub w' = ww_sub w" "ww_sub_mtime w' = ww_sub_mtime w"
    "caught_up env senv p (ww_lines w) (ww_sub w) (ww_db w) \<Longrightarrow> caught_up env senv p (ww_lines w) (ww_sub w) (ww_db w')"
  shows "vouches env senv p w' st"
  using assms by (auto simp: vouches_def)

lemma vouches_frame:
  assumes "vouches env senv p w st" "wf_inode st' = wf_inode st" "wf_device st' = wf_device st" "wf_byte_offset st' = wf_byte_offset st"
    "wf_size_at_last_read st' = wf_size_at_last_read st" "wf_last_ingest_ms st' = wf_last_ingest_ms st" "wf_meta_changed st \<Longrightarrow> wf_meta_changed st'"
  shows "vouches env senv p w st'"
  using assms by (auto simp: vouches_def)

text \<open>Steps of the environment that keep the database up to what is stored in it.\<close>

lemma world_ok_db:
  assumes "world_ok env senv p w" "store_inv db"
    "\<And>facts s. ss_session_id s = sf_session_id (session_file p) \<Longrightarrow> stored senv facts s (ww_db w) \<Longrightarrow> stored senv facts s db"
  shows "world_ok env senv p (w\<lparr>ww_db := db\<rparr>)"
proof -
  have "vouches env senv p (w\<lparr>ww_db := db\<rparr>) st" if "vouches env senv p w st" for st
    by (rule vouches_mono[OF that]) (use caught_up_mono[of env senv p _ _ "ww_db w" db] assms(3) in auto)
  then show ?thesis using assms(1,2) by (simp add: world_ok_def job_ok_def)
qed

lemma grows_ok:
  assumes "world_ok env senv p w" "0 < n" "fm_size (ww_meta w) + n < 2 ^ 64"
  shows "world_ok env senv p (w\<lparr>ww_lines := ls, ww_meta := (ww_meta w)\<lparr>fm_size := fm_size (ww_meta w) + n\<rparr>\<rparr>)" (is "world_ok _ _ _ ?w")
proof -
  have "vouches env senv p ?w st" if "vouches env senv p w st" for st
    using that assms(2) by (auto simp: vouches_def)
  moreover have "job_ok ?w j" if "job_ok w j" for j
    using that assms(2) by (auto simp: job_ok_def Let_def)
  ultimately show ?thesis using assms by (simp add: world_ok_def)
qed

lemma replaced_ok:
  assumes "world_ok env senv p w" "sz < 2 ^ 64" "dev < 2 ^ 64" "Suc (ww_next_ino w) < 2 ^ 64" "sz = 0 \<longrightarrow> ls = []"
  shows "world_ok env senv p (w\<lparr>ww_lines := ls, ww_meta := \<lparr>fm_size = sz, fm_ino = ww_next_ino w, fm_dev = dev\<rparr>, ww_next_ino := Suc (ww_next_ino w)\<rparr>)"
    (is "world_ok _ _ _ ?w")
proof -
  have "vouches env senv p ?w st" if "vouches env senv p w st" for st
    using that by (auto simp: vouches_def)
  moreover have "job_ok ?w j" if "job_ok w j" "ww_next_ino w = Suc (fm_ino (ww_meta w))" for j
    using that by (auto simp: job_ok_def Let_def)
  ultimately show ?thesis using assms by (simp add: world_ok_def)
qed

lemma subagent_ok:
  assumes "world_ok env senv p w"
  shows "world_ok env senv p (w\<lparr>ww_sub := j, ww_sub_mtime := Some (ww_now w)\<rparr>)" (is "world_ok _ _ _ ?w")
proof -
  have "vouches env senv p ?w st" if "vouches env senv p w st" for st
    using that by (auto simp: vouches_def rewritten_def)
  moreover have "job_ok ?w j" if "job_ok w j" for j
    using that by (auto simp: job_ok_def Let_def rewritten_def)
  ultimately show ?thesis using assms by (simp add: world_ok_def)
qed

lemma passes_ok:
  assumes "world_ok env senv p w" "ww_now w + int d \<le> i64_max"
  shows "world_ok env senv p (w\<lparr>ww_now := ww_now w + int d\<rparr>)" (is "world_ok _ _ _ ?w")
proof -
  have "vouches env senv p ?w st" if "vouches env senv p w st" for st
    by (rule vouches_mono[OF that]) simp_all
  moreover have "job_ok ?w j" if "job_ok w j" for j
    using that by (auto simp: job_ok_def Let_def)
  ultimately show ?thesis using assms by (auto simp: world_ok_def)
qed

text \<open>Steps that change the watcher's own state only in fields nothing is read from.\<close>

lemma state_ok:
  assumes "world_ok env senv p w" "wf_inode st = wf_inode (ww_state w)" "wf_device st = wf_device (ww_state w)"
    "wf_byte_offset st = wf_byte_offset (ww_state w)" "wf_size_at_last_read st = wf_size_at_last_read (ww_state w)"
    "wf_last_ingest_ms st = wf_last_ingest_ms (ww_state w)" "wf_meta_changed (ww_state w) \<Longrightarrow> wf_meta_changed st"
    "ww_job w = None \<or> wf_in_flight st"
  shows "world_ok env senv p (w\<lparr>ww_state := st\<rparr>)"
proof -
  have "vouches env senv p (w\<lparr>ww_state := st\<rparr>) r" if "vouches env senv p w r" for r
    by (rule vouches_mono[OF that]) simp_all
  moreover have "vouches env senv p w st"
    by (rule vouches_frame[of env senv p w "ww_state w"]) (use assms in \<open>auto simp: world_ok_def\<close>)
  moreover have "job_ok (w\<lparr>ww_state := st\<rparr>) j" if "job_ok w j" "ww_job w \<noteq> None" for j
    using that assms(2-8) by (auto simp: job_ok_def Let_def)
  ultimately show ?thesis using assms(1) by (simp add: world_ok_def)
qed


lemma world_ok_mtime: "world_ok env senv p w \<Longrightarrow> ww_sub_mtime w = Some t \<Longrightarrow> 0 \<le> t \<and> t \<le> i64_max"
  by (fastforce simp: world_ok_def)

lemma world_ok_frame:
  "world_ok env senv p w \<Longrightarrow> vouches env senv p w st \<Longrightarrow>
   (\<And>j. job = Some j \<Longrightarrow> job_ok (w\<lparr>ww_state := st, ww_job := job\<rparr>) j \<and> (\<forall>r. load_offsets (ww_rows w) p = Some r \<longrightarrow> row_ok (jb_snap j) r))
   \<Longrightarrow> world_ok env senv p (w\<lparr>ww_state := st, ww_job := job\<rparr>)"
proof -
  assume a: "world_ok env senv p w" "vouches env senv p w st"
    "\<And>j. job = Some j \<Longrightarrow> job_ok (w\<lparr>ww_state := st, ww_job := job\<rparr>) j \<and> (\<forall>r. load_offsets (ww_rows w) p = Some r \<longrightarrow> row_ok (jb_snap j) r)"
  have "vouches env senv p (w\<lparr>ww_state := st, ww_job := job\<rparr>) r" if "vouches env senv p w r" for r
    by (rule vouches_mono[OF that]) simp_all
  then show ?thesis using a unfolding world_ok_def by simp
qed

text \<open>The state a poll leaves.\<close>

lemma polled_vouches:
  assumes "world_ok env senv p w" "seen = (if wf_inode (ww_state w) = fm_ino (ww_meta w) then wf_size_at_last_read (ww_state w) else 0)"
    "wf_inode st = fm_ino (ww_meta w)" "wf_device st = fm_dev (ww_meta w)" "wf_byte_offset st = seen" "wf_size_at_last_read st = seen"
    "wf_last_ingest_ms st = wf_last_ingest_ms (ww_state w)" "wf_meta_changed (ww_state w) \<Longrightarrow> wf_meta_changed st"
  shows "vouches env senv p w st"
proof (cases "wf_inode (ww_state w) = fm_ino (ww_meta w)")
  case True
  then show ?thesis using assms unfolding world_ok_def vouches_def by auto
next
  case False
  have "caught_up env senv p (ww_lines w) (ww_sub w) (ww_db w)" if "fm_size (ww_meta w) = 0"
    using that assms(1) caught_up_empty by (simp add: world_ok_def)
  then show ?thesis using assms False unfolding world_ok_def vouches_def by auto
qed

lemma new_job_ok:
  assumes "world_ok env senv p w" "wf_in_flight st" "wf_inode st = fm_ino (ww_meta w)" "wf_device st = fm_dev (ww_meta w)"
    "wf_meta_changed st \<or> wf_size_at_last_read st < fm_size (ww_meta w)"
    and j: "j = \<lparr>jb_snap = \<lparr>sn_size = fm_size (ww_meta w), sn_ino = fm_ino (ww_meta w), sn_dev = fm_dev (ww_meta w), sn_started_ms = ww_now w\<rparr>,
               jb_lines = None, jb_sub = None, jb_waited = True\<rparr>"
  shows "job_ok (w\<lparr>ww_state := st, ww_job := Some j\<rparr>) j"
    and "load_offsets (ww_rows w) p = Some r \<Longrightarrow> row_ok (jb_snap j) r"
proof -
  show "job_ok (w\<lparr>ww_state := st, ww_job := Some j\<rparr>) j"
    using assms(1-5) by (simp add: j job_ok_def Let_def world_ok_def)
  assume "load_offsets (ww_rows w) p = Some r"
  then have "vouches env senv p w r" "ww_next_ino w = Suc (fm_ino (ww_meta w))" using assms(1) by (simp_all add: world_ok_def)
  then show "row_ok (jb_snap j) r" by (auto simp: j row_ok_def vouches_def)
qed

lemma polled_ok:
  assumes "world_ok env senv p w" "start_process p instant (ww_now w) (ww_job w \<noteq> None) (Some (ww_meta w)) (ww_sub_mtime w) (ww_state w) = (st, res)"
  shows "world_ok env senv p (case res of None \<Rightarrow> w\<lparr>ww_state := st\<rparr>
    | Some snap \<Rightarrow> w\<lparr>ww_state := st, ww_job := Some \<lparr>jb_snap = snap, jb_lines = None, jb_sub = None, jb_waited = True\<rparr>\<rparr>)"
proof -
  let ?s = "ww_state w" and ?m = "ww_meta w"
  have v: "vouches env senv p w ?s" "is_jsonl p" using assms(1) by (simp_all add: world_ok_def)
  have fl: "wf_in_flight ?s" if "ww_job w \<noteq> None" using that assms(1) by (auto simp: world_ok_def job_ok_def Let_def)
  have frame: ?thesis if "res = None" "st = ?s \<or> (ww_job w = None \<and> st = ?s\<lparr>wf_in_flight := False\<rparr>)"
    using that state_ok[OF assms(1), of st] assms(1) by auto
  show ?thesis
  proof (cases "ww_job w = None")
    case False
    then show ?thesis using frame fl assms(2) by (simp add: start_process_def)
  next
    case nojob: True
    show ?thesis
    proof (cases "case wf_cooldown_until ?s of None \<Rightarrow> True | Some t \<Rightarrow> t \<le> instant")
      case False
      then have "start_process p instant (ww_now w) (ww_job w \<noteq> None) (Some ?m) (ww_sub_mtime w) ?s = (?s\<lparr>wf_in_flight := False\<rparr>, None)"
        using nojob by (auto simp: start_process_def split: option.splits)
      then show ?thesis using frame nojob assms(2) by simp
    next
      case True
      define seen where "seen = (if wf_inode ?s = fm_ino ?m then wf_size_at_last_read ?s else 0)"
      note poll = poll_vouched[OF v(1) refl v(2) world_ok_mtime[OF assms(1)], where running = "ww_job w \<noteq> None",
          OF _ _ True, of "ww_sub_mtime w" "ww_now w", folded seen_def, unfolded Let_def]
      have vs: "vouches env senv p w st"
        by (rule polled_vouches[OF assms(1) seen_def]) (use poll nojob assms(2) in \<open>auto split: if_splits\<close>)
      show ?thesis
      proof (cases res)
        case None
        have "w\<lparr>ww_state := st, ww_job := None\<rparr> = w\<lparr>ww_state := st\<rparr>" using nojob by (cases w) simp
        then show ?thesis using world_ok_frame[OF assms(1) vs, of None] None by simp
      next
        case (Some snap)
        have st: "wf_in_flight st" "wf_inode st = fm_ino ?m" "wf_device st = fm_dev ?m" "wf_meta_changed st \<or> wf_size_at_last_read st < fm_size ?m"
          "snap = \<lparr>sn_size = fm_size ?m, sn_ino = fm_ino ?m, sn_dev = fm_dev ?m, sn_started_ms = ww_now w\<rparr>"
          using poll nojob assms(2) Some by (auto split: if_splits)
        show ?thesis
          unfolding Some option.case
          by (rule world_ok_frame[OF assms(1) vs]) (use new_job_ok[OF assms(1) st(1-4)] st(5) in simp)
      qed
    qed
  qed
qed

lemma poll_blind_ok:
  assumes "world_ok env senv p w" "start_process p instant (ww_now w) (ww_job w \<noteq> None) None mtime (ww_state w) = (st, res)"
  shows "res = None \<and> world_ok env senv p (w\<lparr>ww_state := st\<rparr>)"
proof -
  have fl: "wf_in_flight (ww_state w)" if "ww_job w \<noteq> None" using that assms(1) by (auto simp: world_ok_def job_ok_def Let_def)
  show ?thesis
    using assms(2) fl state_ok[OF assms(1), of st] assms(1)
    by (cases "ww_job w") (auto simp: start_process_def Let_def split: if_splits)
qed


lemma same_db_ok:
  assumes "world_ok env senv p w" "ww_job w = Some j"
    "st = (if b then (ww_state w)\<lparr>wf_in_flight := False, wf_cooldown_until := c\<rparr> else ww_state w)"
  shows "world_ok env senv p (w\<lparr>ww_job := None, ww_state := st\<rparr>)"
proof -
  have "world_ok env senv p (w\<lparr>ww_state := st, ww_job := None\<rparr>)"
  proof (rule world_ok_frame[OF assms(1)])
    show "vouches env senv p w st"
      by (rule vouches_frame[of env senv p w "ww_state w"]) (use assms in \<open>auto simp: world_ok_def\<close>)
  qed simp
  moreover have "w\<lparr>ww_job := None, ww_state := st\<rparr> = w\<lparr>ww_state := st, ww_job := None\<rparr>" by simp
  ultimately show ?thesis by metis
qed

lemma job_world_ok:
  assumes "world_ok env senv p w" "ww_job w = Some j" "job_ok (w\<lparr>ww_job := Some j'\<rparr>) j'" "jb_snap j' = jb_snap j"
  shows "world_ok env senv p (w\<lparr>ww_job := Some j'\<rparr>)"
  using world_ok_frame[OF assms(1), of "ww_state w" "Some j'"] assms by (simp add: world_ok_def)

text \<open>
  A task that ingested what it read: the cursor with its measurements vouches for the new database, and so do a cursor
  that was stale while it ran and one that was saved before it.
\<close>

lemma ingested_ok:
  assumes ok: "world_ok env senv p w" and j: "ww_job w = Some j" "jb_lines j = Some (Some ls, t)" "jb_sub j = Some sub"
    and run: "ingest_session_file (env\<lparr>xe_now_ms := t\<rparr>) (senv\<lparr>se_now_ms := ww_now w\<rparr>) p sub (Some ls) (ww_db w, faults) = ((i, k, 0), db)"
    and w': "ww_meta w' = ww_meta w" "ww_next_ino w' = ww_next_ino w" "ww_now w' = ww_now w" "ww_lines w' = ww_lines w" "ww_sub w' = ww_sub w"
      "ww_sub_mtime w' = ww_sub_mtime w" "ww_db w' = db"
  shows "wf_inode st = sn_ino (jb_snap j) \<Longrightarrow> wf_device st = sn_dev (jb_snap j) \<Longrightarrow> wf_byte_offset st = sn_size (jb_snap j)
      \<Longrightarrow> wf_size_at_last_read st = sn_size (jb_snap j) \<Longrightarrow> wf_last_ingest_ms st = sn_started_ms (jb_snap j) \<Longrightarrow> vouches env senv p w' st"
    and "vouches env senv p w' (ww_state w)"
    and "load_offsets (ww_rows w) p = Some r \<Longrightarrow> vouches env senv p w' r"
proof -
  let ?s = "jb_snap j" and ?m = "ww_meta w"
  have jo: "job_ok w j" "ww_next_ino w = Suc (fm_ino ?m)" using ok j(1) by (simp_all add: world_ok_def)
  have new: "caught_up env senv p (ww_lines w) (ww_sub w) db"
    if "sn_ino ?s = fm_ino ?m" "sn_size ?s = fm_size ?m" "\<not> rewritten (ww_sub_mtime w) (sn_started_ms ?s)"
  proof -
    have "ls = ww_lines w" "sub = ww_sub w" using jo that j by (simp_all add: job_ok_def Let_def)
    then show ?thesis using ingest_catches_up[OF _ run] ok by (simp add: world_ok_def)
  qed
  show "wf_inode st = sn_ino ?s \<Longrightarrow> wf_device st = sn_dev ?s \<Longrightarrow> wf_byte_offset st = sn_size ?s
      \<Longrightarrow> wf_size_at_last_read st = sn_size ?s \<Longrightarrow> wf_last_ingest_ms st = sn_started_ms ?s \<Longrightarrow> vouches env senv p w' st"
    using jo new w' by (auto simp: vouches_def job_ok_def Let_def)
  show "vouches env senv p w' (ww_state w)"
    using jo ok w' by (auto simp: vouches_def job_ok_def Let_def world_ok_def)
  assume row: "load_offsets (ww_rows w) p = Some r"
  then have v: "vouches env senv p w r" "row_ok ?s r" using ok j(1) by (simp_all add: world_ok_def)
  have "caught_up env senv p (ww_lines w) (ww_sub w) db"
    if "wf_inode r = fm_ino ?m" "wf_size_at_last_read r = fm_size ?m" "\<not> rewritten (ww_sub_mtime w) (wf_last_ingest_ms r)"
  proof -
    have i: "sn_ino ?s = fm_ino ?m" using v(2) jo(1) that(1) by (simp add: row_ok_def job_ok_def Let_def)
    then have "sn_size ?s = fm_size ?m" using v(2) jo(1) that by (simp add: row_ok_def job_ok_def Let_def)
    moreover have "\<not> rewritten (ww_sub_mtime w) (sn_started_ms ?s)"
      using v(2) that(3) by (auto simp: row_ok_def rewritten_def split: option.splits)
    ultimately show ?thesis using new i by blast
  qed
  then show "vouches env senv p w' r" using v(1) w' by (auto simp: vouches_def)
qed

lemma ends_ok:
  assumes ok: "world_ok env senv p w" and j: "ww_job w = Some j"
  shows "world_ok env senv p (job_ends env senv p w j how instant)"
proof -
  note calm = same_db_ok[OF ok j refl, where b = "jb_waited j" and c = "Some (instant + BACKOFF_DURATION)"]
  show ?thesis
  proof (cases how)
    case Panics
    then show ?thesis using calm by (simp add: job_ends_def finish_process_def split del: if_split cong: if_cong)
  next
    case NoDatabase
    then show ?thesis using calm by (simp add: job_ends_def finish_process_def split del: if_split cong: if_cong)
  next
    case (Ingests faults save_fault)
    show ?thesis
    proof (cases "jb_lines j = None \<or> jb_sub j = None")
      case True
      then show ?thesis using ok Ingests by (auto simp: job_ends_def split: option.splits)
    next
      case False
      then obtain file_lines t sub where rd: "jb_lines j = Some (file_lines, t)" "jb_sub j = Some sub" by auto
      obtain i k e db where run: "ingest_session_file (env\<lparr>xe_now_ms := t\<rparr>) (senv\<lparr>se_now_ms := ww_now w\<rparr>) p sub file_lines (ww_db w, faults)
          = ((i, k, e), db)"
        by (metis prod.collapse)
      show ?thesis
      proof (cases "e = 0")
        case False
        then have "db = ww_db w" using ingest_failed[OF run] by simp
        then show ?thesis
          using calm False rd by (simp add: job_ends_def Ingests run_task_def run finish_process_def split del: if_split cong: if_cong)
      next
        case True
        then obtain ls where ls: "file_lines = Some ls" using run by (cases file_lines) (auto simp: ingest_session_file_def)
        let ?snap = "default_state\<lparr>wf_byte_offset := sn_size (jb_snap j), wf_inode := sn_ino (jb_snap j), wf_device := sn_dev (jb_snap j),
            wf_size_at_last_read := sn_size (jb_snap j), wf_last_ingest_ms := sn_started_ms (jb_snap j)\<rparr>"
        define rows where "rows = snd (save_offset save_fault p ?snap (ww_rows w))"
        define st where "st = (if jb_waited j then fst (finish_process instant (jb_snap j) (Joined i k 0) (ww_state w)) else ww_state w)"
        let ?w = "w\<lparr>ww_job := None, ww_db := db, ww_rows := rows, ww_state := st\<rparr>"
        have eq: "job_ends env senv p w j how instant = ?w"
          using True rd run by (simp add: job_ends_def Ingests run_task_def rows_def st_def)
        note vs = ingested_ok[OF ok j rd(1)[unfolded ls] rd(2) run[unfolded ls True], of ?w, simplified]
        have jo: "job_ok w j" using ok j by (simp add: world_ok_def)
        have "vouches env senv p ?w st"
          using vs jo by (auto simp: st_def finish_process_def job_ok_def Let_def)
        moreover have "vouches env senv p ?w r" if "load_offsets rows p = Some r" for r
        proof (cases save_fault)
          case None
          have "fits_u64 ?snap" using jo ok by (auto simp: fits_u64_def job_ok_def Let_def world_ok_def default_state_def)
          then have "r = ?snap" using that by (simp add: rows_def None load_save default_state_def)
          then show ?thesis using vs(1)[of r] by simp
        next
          case (Some m)
          then show ?thesis using that vs(3) by (simp add: rows_def save_offset_def)
        qed
        moreover have "store_inv db" using ingest_catches_up[OF _ run[unfolded ls True]] ok by (simp add: world_ok_def)
        ultimately show ?thesis unfolding eq using ok by (simp add: world_ok_def)
      qed
    qed
  qed
qed

lemma restarted_ok:
  assumes "world_ok env senv p w"
  shows "world_ok env senv p (w\<lparr>ww_state := unwrap_or (load_offsets (ww_rows w) p) default_state, ww_job := None\<rparr>)"
proof (rule world_ok_frame[OF assms])
  show "vouches env senv p w (unwrap_or (load_offsets (ww_rows w) p) default_state)"
    using assms by (cases "load_offsets (ww_rows w) p") (auto simp: world_ok_def vouches_def default_state_def)
qed simp

lemma world_step_ok: "world_ok env senv p w \<Longrightarrow> world_ok env senv p (world_step env senv p w ev)"
proof -
  assume ok: "world_ok env senv p w"
  have inv: "store_inv (ww_db w)" using ok by (simp add: world_ok_def)
  show ?thesis
  proof (cases ev)
    case (Notified)
    have "ww_job w = None \<or> wf_in_flight (ww_state w)" using ok by (cases "ww_job w") (auto simp: world_ok_def job_ok_def Let_def)
    then show ?thesis using state_ok[OF ok, of "(ww_state w)\<lparr>wf_meta_changed := True\<rparr>"] ok Notified by (simp add: world_step_def)
  next
    case (Polled instant b)
    obtain st res where r: "start_process p instant (ww_now w) (ww_job w \<noteq> None) (if b then Some (ww_meta w) else None) (ww_sub_mtime w) (ww_state w)
        = (st, res)" by (metis prod.collapse)
    show ?thesis
      using polled_ok[OF ok, of instant st res] poll_blind_ok[OF ok, of instant "ww_sub_mtime w" st res] r ok Polled
      by (cases b; cases res) (simp_all add: world_step_def)
  next
    case (LinesRead b)
    have "world_ok env senv p (w\<lparr>ww_job := Some (j\<lparr>jb_lines := Some (if b then Some (ww_lines w) else None, ww_now w)\<rparr>)\<rparr>)" if "ww_job w = Some j" for j
      by (rule job_world_ok[OF ok that]) (use ok that in \<open>auto simp: world_ok_def job_ok_def Let_def split: if_splits\<close>)
    then show ?thesis using ok LinesRead by (cases "ww_job w"; cases b) (auto simp: world_step_def)
  next
    case SubagentRead
    have "world_ok env senv p (w\<lparr>ww_job := Some (j\<lparr>jb_sub := Some (ww_sub w)\<rparr>)\<rparr>)" if "ww_job w = Some j" for j
      by (rule job_world_ok[OF ok that]) (use ok that in \<open>auto simp: world_ok_def job_ok_def Let_def\<close>)
    then show ?thesis using ok SubagentRead by (simp add: world_step_def split: option.split)
  next
    case (TaskEnds how instant)
    then show ?thesis using ok ends_ok[OF ok] by (simp add: world_step_def split: option.split)
  next
    case (WaitElapses instant)
    have "world_ok env senv p (w\<lparr>ww_state := fst (finish_process instant (jb_snap j) Elapsed (ww_state w)), ww_job := Some (j\<lparr>jb_waited := False\<rparr>)\<rparr>)"
      if j: "ww_job w = Some j" for j
    proof (rule world_ok_frame[OF ok])
      show "vouches env senv p w (fst (finish_process instant (jb_snap j) Elapsed (ww_state w)))"
        by (rule vouches_frame[of env senv p w "ww_state w"]) (use ok in \<open>auto simp: world_ok_def finish_process_def\<close>)
    qed (use ok j in \<open>auto simp: world_ok_def job_ok_def Let_def finish_process_def\<close>)
    then show ?thesis using ok WaitElapses by (simp add: world_step_def split: option.split)
  next
    case (BrainWorks q g)
    have "world_ok env senv p (w\<lparr>ww_db := (ww_db w)\<lparr>cd_queue := q,
        cd_sessions := map (\<lambda>r. r\<lparr>as_last_enriched_content_hash := g (as_id r)\<rparr>) (cd_sessions (ww_db w))\<rparr>\<rparr>)"
      if "distinct (map qr_session_id q)" "set (map qr_session_id q) \<subseteq> set (map as_id (cd_sessions (ww_db w)))"
      by (rule world_ok_db[OF ok store_inv_brain[OF inv that] stored_brain])
    then show ?thesis using ok BrainWorks by (simp add: world_step_def)
  next
    case (OtherStored senv' facts seg)
    have "stored senv f s (store_step senv' facts (ww_db w) seg)"
      if "ss_session_id s = sf_session_id (session_file p)" "stored senv f s (ww_db w)" "ss_session_id seg \<noteq> sf_session_id (session_file p)" for s f
      by (rule stored_other[OF that(2)]) (use that in \<open>auto simp: seg_key_def\<close>)
    then show ?thesis
      using world_ok_db[OF ok store_inv_step[OF inv]] ok OtherStored by (simp add: world_step_def)
  qed (use ok grows_ok[OF ok] replaced_ok[OF ok] subagent_ok[OF ok] passes_ok[OF ok] restarted_ok[OF ok] in \<open>simp_all add: world_step_def\<close>)
qed

interpretation watching: invariant_run "world_step env senv p" "world_ok env senv p" for env senv p
  by unfold_locales (rule world_step_ok)


subsection \<open>The watcher never takes stale content for stored\<close>

text \<open>The world when the watcher starts on an empty offset table.\<close>

definition watch_start :: "path \<Rightarrow> world \<Rightarrow> bool" where
  "watch_start p w \<longleftrightarrow> is_jsonl p \<and> store_inv (ww_db w) \<and> 0 \<le> ww_now w \<and> ww_now w \<le> i64_max
     \<and> (case ww_sub_mtime w of None \<Rightarrow> True | Some t \<Rightarrow> 0 \<le> t \<and> t \<le> ww_now w)
     \<and> fm_size (ww_meta w) < 2 ^ 64 \<and> fm_dev (ww_meta w) < 2 ^ 64 \<and> 0 < fm_ino (ww_meta w)
     \<and> ww_next_ino w = Suc (fm_ino (ww_meta w)) \<and> ww_next_ino w < 2 ^ 64 \<and> (fm_size (ww_meta w) = 0 \<longrightarrow> ww_lines w = [])
     \<and> ww_state w = default_state \<and> ww_rows w = [] \<and> ww_job w = None"

lemma start_ok: "watch_start p w \<Longrightarrow> world_ok env senv p w"
  by (auto simp: watch_start_def world_ok_def vouches_def default_state_def load_offsets_def)

definition ready :: "int \<Rightarrow> world \<Rightarrow> bool" where
  "ready instant w \<longleftrightarrow> ww_job w = None \<and> (case wf_cooldown_until (ww_state w) of None \<Rightarrow> True | Some t \<Rightarrow> t \<le> instant)"

lemma satisfied_caught_up:
  assumes "world_ok env senv p w" "ready instant w"
    and "start_process p instant now False (Some (ww_meta w)) (ww_sub_mtime w) (ww_state w) = (st, None)"
  shows "caught_up env senv p (ww_lines w) (ww_sub w) (ww_db w)"
proof -
  let ?s = "ww_state w" and ?m = "ww_meta w"
  have v: "vouches env senv p w ?s" "is_jsonl p" using assms(1) by (simp_all add: world_ok_def)
  have c: "case wf_cooldown_until ?s of None \<Rightarrow> True | Some t \<Rightarrow> t \<le> instant" using assms(2) by (simp add: ready_def)
  have "fm_size ?m \<le> (if wf_inode ?s = fm_ino ?m then wf_size_at_last_read ?s else 0) \<and> \<not> wf_meta_changed ?s
      \<and> \<not> rewritten (ww_sub_mtime w) (wf_last_ingest_ms ?s)"
    using poll_vouched[OF v(1) refl v(2) world_ok_mtime[OF assms(1)], where running = False, OF _ _ c, of "ww_sub_mtime w" now] assms(3)
    by (auto simp: Let_def split: if_splits)
  moreover have "ww_lines w = []" if "fm_size ?m = 0" using that assms(1) by (simp add: world_ok_def)
  ultimately show ?thesis using v(1) caught_up_empty[of env senv p "ww_sub w"] by (auto simp: vouches_def split: if_splits)
qed

text \<open>
  C4 (watcher_never_skips): whatever happened since the watcher started on an empty offset table (appends and
  replacements of the transcript between and during passes, timeouts, failed ingests, lost offsets, restarts), when it
  finds nothing to do for a transcript, every segment of what the file now holds has its row with exactly that content.
\<close>

theorem watcher_never_skips:
  assumes "watch_start p w0" "w = foldl (world_step env senv p) w0 evs" "ready instant w"
    and "start_process p instant now False (Some (ww_meta w)) (ww_sub_mtime w) (ww_state w) = (st, None)"
  shows "caught_up env senv p (ww_lines w) (ww_sub w) (ww_db w)"
  using satisfied_caught_up[OF _ assms(3,4)] watching.run_inv[OF start_ok[OF assms(1)]] assms(2) by blast

text \<open>One pass that nothing disturbs.\<close>

definition quiet_pass :: "int \<Rightarrow> world_event list" where
  "quiet_pass instant = [Polled instant True, LinesRead True, SubagentRead, TaskEnds (Ingests [] None) instant]"

lemma ingest_faultless:
  "\<exists>i k db'. ingest_session_file env senv p sub (Some ls) (db, []) = ((i, k, 0), db')"
proof -
  obtain segs facts where e: "extract_segments_for_ingest env (se_hash senv) (session_file p) sub ls = (segs, facts)" by fastforce
  obtain c s' where i: "insert_segments_with_facts senv (Some facts) segs (db, []) = (Inr c, s')"
    by (cases "store_segments senv (Some facts) segs db") (simp add: insert_segments_with_facts_def)
  then show ?thesis
    using e by (cases c; cases s') (simp add: ingest_session_file_def try_insert_segments_def with_busy_retry_first)
qed

text \<open>
  C15 (watcher_catches_up): from any state the watcher can be in, however many passes failed before, one pass without
  faults over a transcript that holds still (with no older task running and the cooldown over) leaves every segment of the
  file stored.
\<close>

theorem watcher_catches_up:
  assumes "watch_start p w0" "w = foldl (world_step env senv p) w0 evs" "ready instant w"
    and "w' = foldl (world_step env senv p) w (quiet_pass instant)"
  shows "ww_lines w' = ww_lines w \<and> caught_up env senv p (ww_lines w) (ww_sub w) (ww_db w')"
proof -
  have ok: "world_ok env senv p w" using watching.run_inv[OF start_ok[OF assms(1)]] assms(2) by blast
  have inv: "store_inv (ww_db w)" "ww_job w = None" using ok assms(3) by (simp_all add: world_ok_def ready_def)
  obtain st res where r: "start_process p instant (ww_now w) False (Some (ww_meta w)) (ww_sub_mtime w) (ww_state w) = (st, res)" by fastforce
  show ?thesis
  proof (cases res)
    case None
    then have "w' = w\<lparr>ww_state := st\<rparr>" using inv r by (simp add: assms(4) quiet_pass_def world_step_def)
    then show ?thesis using satisfied_caught_up[OF ok assms(3)] r None by simp
  next
    case (Some snap)
    obtain i k db' where g: "ingest_session_file (env\<lparr>xe_now_ms := ww_now w\<rparr>) (senv\<lparr>se_now_ms := ww_now w\<rparr>) p (ww_sub w)
        (Some (ww_lines w)) (ww_db w, []) = ((i, k, 0), db')"
      using ingest_faultless by blast
    have "ww_lines w' = ww_lines w" "ww_db w' = db'"
      using inv r Some g by (simp_all add: assms(4) quiet_pass_def world_step_def job_ends_def run_task_def)
    then show ?thesis using ingest_catches_up[OF inv(1) g] by simp
  qed
qed


subsection \<open>Examples\<close>

definition example_world :: world where
  "example_world = \<lparr>ww_lines = example_lines, ww_meta = \<lparr>fm_size = 40, fm_ino = 7, fm_dev = 1\<rparr>, ww_sub = None, ww_sub_mtime = None,
     ww_now = 100, ww_next_ino = 8, ww_db = empty_store, ww_rows = [], ww_state = default_state, ww_job = None\<rparr>"

lemma example_start: "watch_start example_path example_world"
  by (simp add: watch_start_def example_world_def empty_store_inv default_state_def) (simp add: i64_max_def, code_simp)

text \<open>The first pass fails on a full disk, the second one succeeds after the cooldown.\<close>

definition example_history :: "world_event list" where
  "example_history = [Polled 0 True, LinesRead True, SubagentRead, TaskEnds (Ingests [Some (SqliteError [])] None) 5] @ quiet_pass 70000"


definition example_after :: world where
  "example_after = foldl (world_step example_extract_env example_store_env example_path) example_world example_history"

lemma example_satisfied:
  "ready 80000 example_after \<and> snd (start_process example_path 80000 500 False (Some (ww_meta example_after))
     (ww_sub_mtime example_after) (ww_state example_after)) = None"
  by code_simp

lemma watcher_never_skips_witness:
  "caught_up example_extract_env example_store_env example_path (ww_lines example_after) (ww_sub example_after) (ww_db example_after)"
  using watcher_never_skips[OF example_start example_after_def] example_satisfied by (metis prod.collapse)

lemma example_cooled: "ready 70000 (foldl (world_step example_extract_env example_store_env example_path) example_world (take 4 example_history))"
  by code_simp

lemma watcher_catches_up_witness:
  "caught_up example_extract_env example_store_env example_path
     (ww_lines (foldl (world_step example_extract_env example_store_env example_path) example_world (take 4 example_history)))
     (ww_sub (foldl (world_step example_extract_env example_store_env example_path) example_world (take 4 example_history)))
     (ww_db (foldl (world_step example_extract_env example_store_env example_path)
        (foldl (world_step example_extract_env example_store_env example_path) example_world (take 4 example_history)) (quiet_pass 70000)))"
  using watcher_catches_up[OF example_start refl example_cooled refl] by blast

subsection \<open>The settling sweep\<close>

text \<open>What a run of the loop does to the queue: it enqueues some of the candidates whose file has settled, one after another.\<close>

definition settled_file :: "(path \<Rightarrow> int option) \<Rightarrow> int \<Rightarrow> path \<Rightarrow> bool" where
  "settled_file mtime now f \<longleftrightarrow> (case mtime f of None \<Rightarrow> False | Some t \<Rightarrow> t \<le> now - 30 * 60 * 1000)"

definition enqueue_all :: "int \<Rightarrow> queue_row list \<Rightarrow> int list \<Rightarrow> queue_row list" where
  "enqueue_all now = foldl (\<lambda>q i. enqueue now i q)"

definition changed_rows :: "queue_row list \<Rightarrow> int list \<Rightarrow> int list" where
  "changed_rows q = filter (\<lambda>i. row_changed i q)"

lemma row_changed_enqueue: "row_changed i (enqueue now j q) = row_changed i q"
  by (simp add: row_changed_def queue_status_enqueue)

lemma sweep_loop_runs:
  "sweep_loop mtime mx now cs faults n q = Inr (n', q') \<Longrightarrow> n \<le> mx \<Longrightarrow>
   \<exists>js. q' = enqueue_all now q js \<and> set js \<subseteq> {i. \<exists>f. (i, f) \<in> set cs \<and> settled_file mtime now f}
     \<and> n' = n + length (changed_rows q js) \<and> n' \<le> mx"
proof (induction mtime mx now cs faults n q arbitrary: n' q' rule: sweep_loop.induct)
  case (1 mtime mx now faults n q)
  then show ?case by (intro exI[of _ "[]"]) (simp add: enqueue_all_def changed_rows_def)
next
  case (2 mtime mx now i f cs faults n q)
  let ?goal = "\<exists>js. q' = enqueue_all now q js \<and> set js \<subseteq> {j. \<exists>g. (j, g) \<in> set ((i, f) # cs) \<and> settled_file mtime now g}
     \<and> n' = n + length (changed_rows q js) \<and> n' \<le> mx"
  have stop: ?goal if "n' = n" "q' = q"
    using that "2.prems"(2) by (intro exI[of _ "[]"]) (simp add: enqueue_all_def changed_rows_def)
  have skip: ?goal if "\<exists>js. q' = enqueue_all now q js \<and> set js \<subseteq> {i. \<exists>f. (i, f) \<in> set cs \<and> settled_file mtime now f}
      \<and> n' = n + length (changed_rows q js) \<and> n' \<le> mx"
    using that by fastforce
  show ?case
  proof (cases "n \<ge> mx")
    case True
    then show ?thesis using stop "2.prems"(1) by simp
  next
    case more: False
    show ?thesis
    proof (cases "mtime f")
      case None
      then show ?thesis using skip "2.IH"(1)[OF more None] "2.prems" more by simp
    next
      case (Some t)
      show ?thesis
      proof (cases "t > now - 30 * 60 * 1000")
        case True
        then show ?thesis using skip "2.IH"(2)[OF more Some True] "2.prems" more Some by simp
      next
        case False
        then have fset: "settled_file mtime now f" using Some by (simp add: settled_file_def)
        let ?n = "if row_changed i q then n + 1 else n"
        have go: ?goal if g: "sweep_loop mtime mx now cs (tl faults) ?n (enqueue now i q) = Inr (n', q')"
          "(sweep_loop mtime mx now cs (tl faults) ?n (enqueue now i q) = Inr (n', q') \<Longrightarrow> ?n \<le> mx \<Longrightarrow>
            \<exists>js. q' = enqueue_all now (enqueue now i q) js \<and> set js \<subseteq> {i. \<exists>f. (i, f) \<in> set cs \<and> settled_file mtime now f}
              \<and> n' = ?n + length (changed_rows (enqueue now i q) js) \<and> n' \<le> mx)"
        proof -
          have le: "?n \<le> mx" using more by simp
          obtain js where js: "q' = enqueue_all now (enqueue now i q) js"
            "set js \<subseteq> {i. \<exists>f. (i, f) \<in> set cs \<and> settled_file mtime now f}"
            "n' = ?n + length (changed_rows (enqueue now i q) js)" "n' \<le> mx"
            using g(2)[OF g(1)] le by blast
          then show ?thesis
            using fset by (intro exI[of _ "i # js"]) (auto simp: enqueue_all_def changed_rows_def row_changed_enqueue)
        qed
        show ?thesis
        proof (cases faults)
          case Nil
          then show ?thesis using go "2.IH"(3)[OF more Some False Nil] "2.prems"(1) more Some False by simp
        next
          case (Cons o' os)
          then show ?thesis
            using go "2.prems"(1) more Some False stop "2.IH"(4)[OF more Some False Cons]
            by (cases o') (auto split: sweep_fault.splits)
        qed
      qed
    qed
  qed
qed


lemma enqueue_all_status:
  "queue_status i (enqueue_all now q js) = (if i \<in> set js then Some (if queue_status i q = Some ''processing'' then ''processing'' else ''pending'')
     else queue_status i q)"
  by (induction js arbitrary: q) (auto simp: enqueue_all_def queue_status_enqueue)

lemma enqueue_all_ids:
  "set (map qr_session_id (enqueue_all now q js)) = set js \<union> set (map qr_session_id q)"
  "distinct (map qr_session_id q) \<Longrightarrow> distinct (map qr_session_id (enqueue_all now q js))"
  by (induction js arbitrary: q) (simp_all add: enqueue_all_def enqueue_ids del: set_map)

lemma candidate_drifted:
  assumes "(i, f) \<in> set (sweep_candidates mx db)"
  shows "\<exists>r \<in> set (cd_sessions db). as_id r = i \<and> as_source_file r = f \<and> sweep_candidate (cd_queue db) r"
  using assms by (auto simp: sweep_candidates_def dest!: in_set_takeD)

lemma candidates_bound: "length (sweep_candidates mx db) \<le> mx * 4"
  by (simp add: sweep_candidates_def)

text \<open>
  A settling sweep, whatever other connections do between its query and its transaction, changes the
  queue only. On success it reports at most its limit; every row whose queue entry it changed was drifted and out of the
  queue when it looked, with a transcript untouched for 30 minutes, is now pending, and a row being processed is left
  alone. An error leaves the database as the others left it.
\<close>

theorem sweep_safe:
  assumes "store_inv (between db)" "set (map as_id (cd_sessions db)) \<subseteq> set (map as_id (cd_sessions (between db)))"
    and "run_settling_sweep mtime mx now query begin_fault faults commit_fault between db = (res, db')"
  shows "store_inv db' \<and> db'\<lparr>cd_queue := cd_queue (between db)\<rparr> = between db
    \<and> (case res of Inl e \<Rightarrow> db' = between db
       | Inr n \<Rightarrow> n \<le> mx \<and> (\<forall>i. queue_status i (cd_queue db') \<noteq> queue_status i (cd_queue (between db)) \<longrightarrow>
           queue_status i (cd_queue db') = Some ''pending'' \<and> queue_status i (cd_queue (between db)) \<noteq> Some ''processing''
           \<and> (\<exists>r \<in> set (cd_sessions db). as_id r = i \<and> sweep_candidate (cd_queue db) r \<and> settled_file mtime now (as_source_file r))))"
proof -
  let ?b = "between db"
  have calm: ?thesis if "db' = ?b" "case res of Inl e \<Rightarrow> True | Inr n \<Rightarrow> n \<le> mx"
    using that assms(1) by (auto split: sum.splits)
  show ?thesis
  proof (cases "query = None \<and> begin_fault = None \<and> commit_fault = None")
    case False
    then show ?thesis
      using calm assms(3) by (auto simp: run_settling_sweep_def Let_def split: option.splits sum.splits)
  next
    case nofault: True
    show ?thesis
    proof (cases "sweep_loop mtime mx now (sweep_candidates mx db) faults 0 (cd_queue ?b)")
      case (Inl e)
      then have "res = Inl e" "db' = ?b" using assms(3) nofault by (simp_all add: run_settling_sweep_def)
      then show ?thesis using calm by simp
    next
      case (Inr nq)
      obtain n q where nq: "nq = (n, q)" by fastforce
      then have r: "res = Inr n" "db' = ?b\<lparr>cd_queue := q\<rparr>" using Inr assms(3) nofault by (simp_all add: run_settling_sweep_def)
      obtain js where js: "q = enqueue_all now (cd_queue ?b) js"
        "set js \<subseteq> {i. \<exists>f. (i, f) \<in> set (sweep_candidates mx db) \<and> settled_file mtime now f}" "n \<le> mx"
        using sweep_loop_runs[OF Inr[unfolded nq]] by auto
      have cand: "\<exists>r \<in> set (cd_sessions db). as_id r = i \<and> sweep_candidate (cd_queue db) r \<and> settled_file mtime now (as_source_file r)"
        if "i \<in> set js" for i
        using js(2) that candidate_drifted by blast
      then have "set js \<subseteq> set (map as_id (cd_sessions ?b))" using assms(2) by fastforce
      then have "store_inv db'"
        using assms(1) enqueue_all_ids[where now = now and q = "cd_queue ?b" and js = js] unfolding r(2) store_inv_def by (simp add: js(1) del: set_map)
      moreover have "queue_status i q = Some ''pending'' \<and> queue_status i (cd_queue ?b) \<noteq> Some ''processing'' \<and> i \<in> set js"
        if "queue_status i q \<noteq> queue_status i (cd_queue ?b)" for i
        using that by (auto simp: js(1) enqueue_all_status split: if_splits)
      ultimately show ?thesis using r js(3) cand by auto
    qed
  qed
qed

text \<open>A stored session that fell out of the queue without being enriched.\<close>

definition example_drifted :: claude_db where
  "example_drifted = (snd (ingest_session_file example_extract_env example_store_env example_path None (Some example_lines)
     (empty_store, [])))\<lparr>cd_queue := []\<rparr>"

lemma example_drifted_inv: "store_inv example_drifted"
proof -
  obtain i k db' where g: "ingest_session_file example_extract_env example_store_env example_path None (Some example_lines) (empty_store, [])
      = ((i, k, 0), db')"
    using ingest_faultless by blast
  have "store_inv db'"
    using ingest_ok(1)[OF empty_store_inv g] by (metis prod.collapse)
  then show ?thesis by (simp add: example_drifted_def g store_inv_def)
qed

lemma example_sweep:
  "fst (run_settling_sweep (\<lambda>_. Some 0) 10 10000000 None None [] None (\<lambda>db. db) example_drifted) = Inr 1"
  by code_simp

lemma sweep_safe_witness:
  "store_inv (snd (run_settling_sweep (\<lambda>_. Some 0) 10 10000000 None None [] None (\<lambda>db. db) example_drifted)) \<and> (1::nat) \<le> 10"
  using sweep_safe[of "\<lambda>db. db", OF example_drifted_inv subset_refl prod.collapse[symmetric],
      of "\<lambda>_. Some 0" 10 10000000 None None "[]" None] example_sweep by simp

text \<open>
  The other side: the query returns the oldest drifted rows first and at most four times the limit. When the
  transcripts of those cannot be read any more, each tick skips them all, they stay candidates, and no younger drifted row is reached.
\<close>

lemma sweep_loop_unreadable:
  "\<forall>c \<in> set cs. mtime (snd c) = None \<Longrightarrow> sweep_loop mtime mx now cs faults n q = Inr (n, q)"
  by (induction cs arbitrary: n) auto

text \<open>
  As long as none of the transcripts of the rows the sweep fetches first can be read, a drifted row
  stays neither queued nor enriched after any number of ticks, also when its own transcript is there and has settled.
\<close>

theorem sweep_starves:
  assumes "\<forall>c \<in> set (sweep_candidates mx db). mtime (snd c) = None"
    and "sweep_candidate (cd_queue db) r"
  shows "\<not> handled (foldl (\<lambda>db now. snd (run_settling_sweep mtime mx now None None [] None (\<lambda>db. db) db)) db ticks) r"
proof -
  have "snd (run_settling_sweep mtime mx now None None [] None (\<lambda>db. db) db) = db" for now
    using sweep_loop_unreadable[OF assms(1)] by (simp add: run_settling_sweep_def)
  then have "foldl (\<lambda>db now. snd (run_settling_sweep mtime mx now None None [] None (\<lambda>db. db) db)) db ticks = db"
    by (induction ticks) simp_all
  then show ?thesis using assms(2) by (auto simp: handled_def sweep_candidate_def split: option.splits)
qed

text \<open>With a limit of one, four old rows whose transcripts are gone hide a fifth.\<close>

definition example_row :: "int \<Rightarrow> agentic_session" where
  "example_row i = (insert_row example_store_env None (example_segment ''a'') i)
     \<lparr>as_segment_index := i, as_end_time := i, as_source_file := (if i = 5 then example_path else [''gone''])\<rparr>"

definition example_backlog :: claude_db where
  "example_backlog = empty_store\<lparr>cd_sessions := map example_row [1, 2, 3, 4, 5]\<rparr>"

definition example_mtime :: "path \<Rightarrow> int option" where
  "example_mtime f = (if f = example_path then Some 0 else None)"

lemma example_hidden:
  "list_all (\<lambda>c. example_mtime (snd c) = None) (sweep_candidates 1 example_backlog)
   \<and> sweep_candidate (cd_queue example_backlog) (example_row 5)"
  by code_simp

lemma sweep_starves_witness:
  "\<not> handled (foldl (\<lambda>db now. snd (run_settling_sweep example_mtime 1 now None None [] None (\<lambda>db. db) db)) example_backlog [10000000, 20000000])
     (example_row 5)"
  using sweep_starves[of 1 example_backlog example_mtime "example_row 5" "[10000000, 20000000]"] example_hidden by (simp add: list_all_iff)

end
