(* ===== verification/GitRepo.thy ===== *)
theory GitRepo
  imports ClaudeSession
begin

text \<open>
  The repository of a working directory (\<open>hippo-daemon/src/git_repo.rs\<close>): \<open>owner/repo\<close> from the URL of the remote, or the
  name of the top directory. What \<open>git\<close> prints is a parameter.
\<close>

text \<open>\<open>str::split\<close> on one character.\<close>

fun split_on :: "char \<Rightarrow> string \<Rightarrow> string list" where
  "split_on d [] = [[]]"
| "split_on d (c # cs) = (case split_on d cs of
     [] \<Rightarrow> [[c]]
   | w # ws \<Rightarrow> if c = d then [] # w # ws else (c # w) # ws)"

lemma split_on_ne: "split_on d s \<noteq> []"
  by (cases s) (auto split: list.split)

lemma split_on_none: "d \<notin> set s \<Longrightarrow> split_on d s = [s]"
  by (induction s) auto

lemma split_on_append: "d \<notin> set a \<Longrightarrow> split_on d (a @ d # b) = a # split_on d b"
proof (induction a)
  case Nil
  then show ?case using split_on_ne[of d b] by (simp split: list.split)
qed auto

definition join_slug :: "string \<Rightarrow> string \<Rightarrow> string option" where
  "join_slug owner repo = (if owner = [] \<or> repo = [] then None else Some (owner @ ''/'' @ repo))"

definition scp_like :: "string \<Rightarrow> (string \<times> string) option" where
  "scp_like stripped = (case split_once (CHR '':'') stripped of None \<Rightarrow> None
     | Some (pre, post) \<Rightarrow>
         if starts_with post ''/'' \<or> CHR ''/'' \<in> set pre then None else split_once (CHR ''/'') post)"

definition parse_owner_repo :: "string \<Rightarrow> string option" where
  "parse_owner_repo url =
     (let trimmed = trim url; stripped = unwrap_or (strip_suffix trimmed ''.git'') trimmed in
      case scp_like stripped of
        Some (owner, repo) \<Rightarrow> join_slug owner repo
      | None \<Rightarrow>
          if \<not> starts_with stripped ''https://'' \<and> \<not> starts_with stripped ''http://''
             \<and> \<not> starts_with stripped ''ssh://'' \<and> \<not> starts_with stripped ''git://'' then None
          else (case filter (\<lambda>s. s \<noteq> []) (rev (split_on (CHR ''/'') stripped)) of
              repo # owner # _ \<Rightarrow> if CHR '':'' \<in> set owner \<or> CHR ''@'' \<in> set owner then None else join_slug owner repo
            | _ \<Rightarrow> None))"

text \<open>
  A finished \<open>git\<close>: its exit status and output. \<open>None\<close>: it did not start, was killed at the deadline, or could not
  be waited for.
\<close>

type_synonym git_runner = "string \<Rightarrow> string list \<Rightarrow> (bool \<times> string) option"

definition run_git :: "git_runner \<Rightarrow> string \<Rightarrow> string list \<Rightarrow> string option" where
  "run_git git cwd args = (case git cwd args of None \<Rightarrow> None
     | Some (success, out) \<Rightarrow>
         if \<not> success \<or> \<not> utf8_valid (bytes_of out) then None
         else let trimmed = trim out in if trimmed = [] then None else Some trimmed)"

definition remote_origin_url :: "git_runner \<Rightarrow> string \<Rightarrow> string option" where
  "remote_origin_url git cwd = run_git git cwd [''config'', ''--get'', ''remote.origin.url'']"

text \<open>\<open>Path::new(&top).file_name()\<close>: the last component, without repeated or trailing separators and dots; none for \<open>..\<close>.\<close>

definition path_name :: "string \<Rightarrow> string option" where
  "path_name s = (case filter (\<lambda>c. c \<noteq> [] \<and> c \<noteq> ''.'') (rev (split_on (CHR ''/'') s)) of
     [] \<Rightarrow> None | c # _ \<Rightarrow> if c = ''..'' then None else Some c)"

definition toplevel_basename :: "git_runner \<Rightarrow> string \<Rightarrow> string option" where
  "toplevel_basename git cwd = Option.bind (run_git git cwd [''rev-parse'', ''--show-toplevel'']) path_name"

definition derive_git_repo :: "git_runner \<Rightarrow> string \<Rightarrow> string option" where
  "derive_git_repo git cwd =
     (if cwd = [] then None
      else case Option.bind (remote_origin_url git cwd) parse_owner_repo of
        Some slug \<Rightarrow> Some slug
      | None \<Rightarrow> toplevel_basename git cwd)"

subsection \<open>The forms of a remote agree\<close>

text \<open>Printable ASCII apart from the separators.\<close>

definition plain_char :: "char \<Rightarrow> bool" where
  "plain_char c \<longleftrightarrow> 33 \<le> (of_char c :: nat) \<and> (of_char c :: nat) \<le> 126 \<and> c \<noteq> CHR ''/'' \<and> c \<noteq> CHR '':'' \<and> c \<noteq> CHR ''@''"

definition plain :: "string \<Rightarrow> bool" where
  "plain s \<longleftrightarrow> s \<noteq> [] \<and> list_all plain_char s"


lemma plain_ascii: "plain_char c \<Longrightarrow> 33 \<le> (of_char c :: nat) \<and> (of_char c :: nat) \<le> 126"
  by (simp add: plain_char_def)

lemma ws_len_ascii: "33 \<le> a \<Longrightarrow> a \<le> 126 \<Longrightarrow> ws_len (a # bs) = 0 \<and> ws_len_rev (a # bs) = 0"
proof -
  assume a: "33 \<le> a" "a \<le> 126"
  then have n: "\<not> ws1 a" "\<not> ws2 a b" "\<not> ws3 a b c" for b c by (auto simp: ws1_def ws2_def ws3_def)
  have m: "\<not> ws2 b a" "\<not> ws3 b c a" for b c using a by (auto simp: ws2_def ws3_def)
  show ?thesis using n m by (cases "a # bs" rule: ws_len.cases; cases "a # bs" rule: ws_len_rev.cases) auto
qed

lemma trim_ascii:
  assumes "s \<noteq> []" "33 \<le> (of_char (hd s) :: nat)" "(of_char (hd s) :: nat) \<le> 126" "33 \<le> (of_char (last s) :: nat)" "(of_char (last s) :: nat) \<le> 126"
  shows "trim s = s"
proof -
  have "ws_len (bytes_of (take 3 s)) = 0" using assms(1-3) ws_len_ascii by (cases s) (simp_all add: bytes_of_def)
  then have a: "trim_start s = s" by (simp add: trim_start.simps[of s])
  obtain rs where r: "rev s = last s # rs" using assms(1) by (metis append_butlast_last_id rev.simps(2) rev_rev_ident)
  have "ws_len_rev (bytes_of (take 3 (rev s))) = 0" using assms(4,5) ws_len_ascii by (simp add: r bytes_of_def)
  then have "trim_rev (rev s) = rev s" by (simp add: trim_rev.simps[of "rev s"])
  then show ?thesis by (simp add: trim_def a)
qed

lemma plain_free: "plain s \<Longrightarrow> CHR ''/'' \<notin> set s \<and> CHR '':'' \<notin> set s \<and> CHR ''@'' \<notin> set s \<and> s \<noteq> []"
  by (auto simp: plain_def plain_char_def list_all_iff)

lemma split_once_append: "d \<notin> set a \<Longrightarrow> split_once d (a @ d # b) = Some (a, b)"
  by (induction a) auto

lemma split_once_None: "d \<notin> set a \<Longrightarrow> split_once d a = None"
  by (induction a) auto

text \<open>The four written forms of one repository.\<close>

definition remote_forms :: "string \<Rightarrow> string \<Rightarrow> string \<Rightarrow> string list" where
  "remote_forms host owner repo = [''git@'' @ host @ '':'' @ owner @ ''/'' @ repo, ''https://'' @ host @ ''/'' @ owner @ ''/'' @ repo,
     ''ssh://git@'' @ host @ ''/'' @ owner @ ''/'' @ repo, ''git://'' @ host @ ''/'' @ owner @ ''/'' @ repo]"

lemma stripped_form:
  assumes "u \<noteq> []" "33 \<le> (of_char (hd u) :: nat)" "(of_char (hd u) :: nat) \<le> 126" "plain_char (last u)" "\<not> ends_with u ''.git''" "suffix = [] \<or> suffix = ''.git''"
  shows "unwrap_or (strip_suffix (trim (u @ suffix)) ''.git'') (trim (u @ suffix)) = u"
proof -
  have t: "trim (u @ suffix) = u @ suffix"
    using assms plain_ascii by (intro trim_ascii) auto
  show ?thesis
    using assms(5,6) unfolding t by (auto simp: strip_suffix_def ends_with_iff)
qed

lemma url_form:
  assumes "u = scheme @ ''//'' @ authority @ ''/'' @ owner @ ''/'' @ repo" "scheme \<in> {''https:'', ''ssh:'', ''git:''}"
    "plain owner" "plain repo" "CHR ''/'' \<notin> set authority" "authority \<noteq> []"
  shows "scp_like u = None" and "(case filter (\<lambda>s. s \<noteq> []) (rev (split_on (CHR ''/'') u)) of
              r # o' # _ \<Rightarrow> if CHR '':'' \<in> set o' \<or> CHR ''@'' \<in> set o' then None else join_slug o' r
            | _ \<Rightarrow> None) = Some (owner @ ''/'' @ repo)"
proof -
  have f: "CHR ''/'' \<notin> set owner" "CHR ''/'' \<notin> set repo" "owner \<noteq> []" "repo \<noteq> []" "CHR '':'' \<notin> set owner" "CHR ''@'' \<notin> set owner"
    using plain_free assms(3,4) by blast+
  show "scp_like u = None"
    using assms(2) unfolding assms(1) scp_like_def by auto
  have "split_on (CHR ''/'') u = scheme # [] # authority # owner # [repo]"
    using assms(2,5) f(1,2) unfolding assms(1) by (auto simp: split_on_append split_on_none)
  then show "(case filter (\<lambda>s. s \<noteq> []) (rev (split_on (CHR ''/'') u)) of
              r # o' # _ \<Rightarrow> if CHR '':'' \<in> set o' \<or> CHR ''@'' \<in> set o' then None else join_slug o' r
            | _ \<Rightarrow> None) = Some (owner @ ''/'' @ repo)"
    using f by (simp add: join_slug_def)
qed


lemma ends_after_slash:
  assumes "ends_with (a @ CHR ''/'' # repo) ''.git''"
  shows "ends_with repo ''.git''"
proof -
  obtain r where "a @ CHR ''/'' # repo = r @ ''.git''" using assms by (auto simp: ends_with_iff)
  then obtain us where "a = r @ us \<and> us @ CHR ''/'' # repo = ''.git'' \<or> a @ us = r \<and> CHR ''/'' # repo = us @ ''.git''"
    by (auto simp: append_eq_append_conv2)
  moreover have False if "us @ CHR ''/'' # repo = ''.git''"
  proof -
    have "CHR ''/'' \<in> set (us @ CHR ''/'' # repo)" by simp
    then show False unfolding that by simp
  qed
  ultimately have "CHR ''/'' # repo = us @ ''.git''" by blast
  then show ?thesis by (cases us) (auto simp: ends_with_iff)
qed

text \<open>
  The scp form, the https form, the ssh URL and the git URL of one repository, each with or
  without the \<open>.git\<close> suffix, give the same \<open>owner/repo\<close>.
\<close>

theorem remote_forms_agree:
  assumes "plain host" "plain owner" "plain repo" "\<not> ends_with repo ''.git''" "suffix = [] \<or> suffix = ''.git''"
    and "form \<in> set (remote_forms host owner repo)"
  shows "parse_owner_repo (form @ suffix) = Some (owner @ ''/'' @ repo)"
proof -
  have f: "repo \<noteq> []" "owner \<noteq> []" "CHR ''/'' \<notin> set owner" "CHR '':'' \<notin> set host" "CHR ''/'' \<notin> set host" "host \<noteq> []"
    using plain_free assms(1-3) by blast+
  have lst: "plain_char (last repo)" using assms(3) f(1) by (simp add: plain_def list_all_iff)
  have st: "unwrap_or (strip_suffix (trim (form @ suffix)) ''.git'') (trim (form @ suffix)) = form"
  proof (rule stripped_form[OF _ _ _ _ _ assms(5)])
    have "\<exists>a. form = a @ CHR ''/'' # repo" using assms(6) by (auto simp: remote_forms_def)
    then show "\<not> ends_with form ''.git''" using ends_after_slash assms(4) by blast
  qed (use assms(6) lst f(1) in \<open>auto simp: remote_forms_def\<close>)
  show ?thesis
  proof (cases "form = ''git@'' @ host @ '':'' @ owner @ ''/'' @ repo")
    case True
    have "split_once (CHR '':'') form = Some (''git@'' @ host, owner @ CHR ''/'' # repo)"
      using split_once_append[of "CHR '':''" "''git@'' @ host" "owner @ CHR ''/'' # repo"] f(4) True by simp
    then have "scp_like form = Some (owner, repo)"
      using f by (cases owner) (auto simp: scp_like_def split_once_append)
    then show ?thesis using f by (simp add: parse_owner_repo_def Let_def st join_slug_def)
  next
    case False
    then obtain scheme authority where u: "form = scheme @ ''//'' @ authority @ ''/'' @ owner @ ''/'' @ repo"
        "scheme \<in> {''https:'', ''ssh:'', ''git:''}" "CHR ''/'' \<notin> set authority" "authority \<noteq> []"
    proof -
      assume t: "\<And>scheme authority. form = scheme @ ''//'' @ authority @ ''/'' @ owner @ ''/'' @ repo \<Longrightarrow>
        scheme \<in> {''https:'', ''ssh:'', ''git:''} \<Longrightarrow> CHR ''/'' \<notin> set authority \<Longrightarrow> authority \<noteq> [] \<Longrightarrow> thesis"
      show thesis
        using False assms(6) f t[of "''https:''" host] t[of "''ssh:''" "''git@'' @ host"] t[of "''git:''" host]
        by (auto simp: remote_forms_def)
    qed
    have sch: "starts_with form ''https://'' \<or> starts_with form ''ssh://'' \<or> starts_with form ''git://''"
      using u(2) by (auto simp: u(1))
    show ?thesis
      using url_form[OF u(1,2) assms(2,3) u(3,4)] sch by (auto simp: parse_owner_repo_def Let_def st)
  qed
qed

lemma remote_forms_agree_witness:
  "parse_owner_repo ''ssh://git@github.com/me/hippo.git'' = Some ''me/hippo''"
proof -
  have "plain ''github.com'' \<and> plain ''me'' \<and> plain ''hippo'' \<and> \<not> ends_with ''hippo'' ''.git''" by code_simp
  then show ?thesis
    using remote_forms_agree[of "''github.com''" "''me''" "''hippo''" "''.git''" "''ssh://git@github.com/me/hippo''"]
    by (simp add: remote_forms_def)
qed

end
