(* ===== verification/ClaudeToolCalls.thy ===== *)
theory ClaudeToolCalls
  imports ClaudeStore EventStore GitRepo "HOL-Library.Multiset"
begin

text \<open>
  The batch import of a transcript's tool calls (\<open>hippo-daemon/src/claude_session.rs\<close>): pairing each \<open>tool_use\<close> block with
  its result, the event built from the pair, and the run over the lines that sends the events and then stores the segments.
  The JSON parser, the time parser (epoch nanoseconds), UUIDs and \<open>git\<close> are parameters.
\<close>

record tool_env =
  te_parse_json :: "string \<Rightarrow> json option"
  te_parse_ts :: "string \<Rightarrow> int option"
  te_now :: int
  te_parse_uuid :: "string \<Rightarrow> string option"
  te_v5 :: "string \<Rightarrow> string"
  te_git :: git_runner
  te_hostname :: string

definition MAX_OUTPUT_BYTES :: nat where [hippo_defs]: "MAX_OUTPUT_BYTES = 4096"

record PendingToolUse =
  pt_tool_use_id :: string
  pt_name :: string
  pt_input :: json
  pt_timestamp :: int
  pt_session_id :: string
  pt_cwd :: string
  pt_git_branch :: "string option"
  pt_git_repo :: "string option"

definition format_tool_command :: "string \<Rightarrow> json \<Rightarrow> string" where
  "format_tool_command name inp =
     (if name = ''Bash'' then str_or inp ''command'' ''bash''
      else if name = ''Read'' then ''read '' @ str_or inp ''file_path'' ''<unknown>''
      else if name = ''Edit'' then ''edit '' @ str_or inp ''file_path'' ''<unknown>''
      else if name = ''Write'' then ''write '' @ str_or inp ''file_path'' ''<unknown>''
      else if name = ''Grep'' then ''grep '' @ [CHR 0x27] @ str_or inp ''pattern'' ''*'' @ [CHR 0x27] @ '' '' @ str_or inp ''path'' ''.''
      else if name = ''Glob'' then ''glob '' @ [CHR 0x27] @ str_or inp ''pattern'' ''*'' @ [CHR 0x27]
      else if name = ''Agent'' then ''agent: '' @ str_or inp ''description'' ''agent task''
      else if name = ''TaskCreate'' then ''task: '' @ str_or inp ''subject'' ''task''
      else if name = ''TaskUpdate'' then ''task-update: '' @ str_or inp ''taskId'' ''?'' @ '' '' @ str_or inp ''status'' ''?''
      else name)"

definition extract_result_content :: "json \<Rightarrow> string option" where
  "extract_result_content content = (case as_str content of
     Some s \<Rightarrow> Some s
   | None \<Rightarrow> (case as_array content of
       None \<Rightarrow> None
     | Some blocks \<Rightarrow> (let parts = List.map_filter (\<lambda>b. str_field b ''text'') blocks in
         if parts = [] then None else Some (join [CHR 0x0A] parts))))"

text \<open>The loop that moves \<open>end\<close> back to a character boundary.\<close>

fun back_off :: "string \<Rightarrow> nat \<Rightarrow> nat" where
  "back_off s 0 = 0"
| "back_off s (Suc n) = (if is_char_boundary s (Suc n) then Suc n else back_off s n)"

definition truncate_to_bytes :: "string \<Rightarrow> nat \<Rightarrow> string \<times> bool" where
  "truncate_to_bytes s max_bytes =
     (if length s \<le> max_bytes then (s, False) else (take (back_off s max_bytes) s, True))"

definition build_envelope ::
  "tool_env \<Rightarrow> PendingToolUse \<Rightarrow> string option \<Rightarrow> bool \<Rightarrow> int option \<Rightarrow> EventEnvelope" where
  "build_envelope env pending result_content result_is_error result_timestamp =
     \<lparr>ee_envelope_id = te_v5 env (pt_tool_use_id pending), ee_producer_version = 1,
      ee_timestamp = pt_timestamp pending div 1000000,
      ee_payload = Shell
        \<lparr>sv_session_id = unwrap_or (te_parse_uuid env (pt_session_id pending)) (te_v5 env (pt_session_id pending)),
         sv_command = format_tool_command (pt_name pending) (pt_input pending),
         sv_exit_code = (if result_is_error then 1 else 0),
         sv_duration_ms = (case result_timestamp of None \<Rightarrow> 0
           | Some rt \<Rightarrow> max 0 (trunc_div (rt - pt_timestamp pending) 1000000)),
         sv_cwd = pt_cwd pending, sv_hostname = te_hostname env, sv_shell = Unknown ''claude-code'',
         sv_stdout = map_option (\<lambda>content. case truncate_to_bytes content MAX_OUTPUT_BYTES of (text, truncated) \<Rightarrow>
           \<lparr>co_content = text, co_truncated = truncated, co_original_bytes = int (length content)\<rparr>) result_content,
         sv_stderr = None, sv_env_snapshot = [],
         sv_git_state = (if pt_git_repo pending \<noteq> None \<or> pt_git_branch pending \<noteq> None
           then Some \<lparr>gs_repo = pt_git_repo pending, gs_branch = pt_git_branch pending, gs_commit = None, gs_is_dirty = False\<rparr>
           else None),
         sv_redaction_count = 0, sv_tool_name = Some (pt_name pending)\<rparr>,
      ee_probe_tag = None\<rparr>"

subsection \<open>One line\<close>

text \<open>The pending calls by id, and the repositories already looked up by directory.\<close>

type_synonym tool_state = "(string \<times> PendingToolUse) list \<times> (string \<times> string option) list"

definition note_use :: "tool_env \<Rightarrow> json \<Rightarrow> tool_state \<Rightarrow> json \<Rightarrow> tool_state" where
  "note_use env value st block = (case st of (pending, cache) \<Rightarrow>
     (let i = str_or block ''id'' []; cwd = str_or value ''cwd'' [] in
      if str_field block ''type'' \<noteq> Some ''tool_use'' \<or> i = [] then (pending, cache)
      else let repo = (case map_of cache cwd of Some r \<Rightarrow> r | None \<Rightarrow> derive_git_repo (te_git env) cwd);
               cache' = (if map_of cache cwd = None then cache @ [(cwd, repo)] else cache)
           in (al_put i \<lparr>pt_tool_use_id = i, pt_name = str_or block ''name'' [],
                 pt_input = unwrap_or (j_get block ''input'') (JObj []),
                 pt_timestamp = unwrap_or (te_parse_ts env (str_or value ''timestamp'' [])) (te_now env),
                 pt_session_id = str_or value ''sessionId'' [], pt_cwd = cwd,
                 pt_git_branch = str_field value ''gitBranch'', pt_git_repo = repo\<rparr> pending, cache')))"

definition note_result ::
  "tool_env \<Rightarrow> json \<Rightarrow> tool_state \<times> EventEnvelope list \<Rightarrow> json \<Rightarrow> tool_state \<times> EventEnvelope list" where
  "note_result env value st block = (case st of ((pending, cache), envelopes) \<Rightarrow>
     (if str_field block ''type'' \<noteq> Some ''tool_result'' then ((pending, cache), envelopes)
      else let i = str_or block ''tool_use_id'' [] in
        case map_of pending i of
          None \<Rightarrow> ((pending, cache), envelopes)
        | Some p \<Rightarrow> ((al_del i pending, cache), envelopes @
            [build_envelope env p (Option.bind (j_get block ''content'') extract_result_content)
               (unwrap_or (Option.bind (j_get block ''is_error'') as_bool) False)
               (te_parse_ts env (str_or value ''timestamp'' []))])))"

definition line_content :: "json \<Rightarrow> json list option" where
  "line_content value = Option.bind (Option.bind (j_get value ''message'') (\<lambda>m. j_get m ''content'')) as_array"

definition process_line :: "tool_env \<Rightarrow> string \<Rightarrow> tool_state \<Rightarrow> (string + EventEnvelope list) \<times> tool_state" where
  "process_line env line st =
     (let line = trim line in
      if line = [] then (Inr [], st)
      else case te_parse_json env line of
        None \<Rightarrow> (Inl ''invalid JSON line'', st)
      | Some value \<Rightarrow>
          (let msg_type = str_or value ''type'' [] in
           if msg_type \<noteq> ''assistant'' \<and> msg_type \<noteq> ''user'' then (Inr [], st)
           else case line_content value of
             None \<Rightarrow> (Inr [], st)
           | Some blocks \<Rightarrow>
               if msg_type = ''assistant'' then (Inr [], foldl (note_use env value) st blocks)
               else case foldl (note_result env value) (st, []) blocks of (st', envelopes) \<Rightarrow> (Inr envelopes, st')))"

subsection \<open>The batch\<close>

record batch =
  ba_tools :: tool_state
  ba_built :: "EventEnvelope list"
  ba_sent :: nat
  ba_errors :: nat
  ba_faults :: "string option list"

text \<open>\<open>ba_built\<close> lists the events handed to \<open>send_event_fire_and_forget\<close>; the faults are the outcomes of the coming sends.\<close>

definition send_one :: "batch \<Rightarrow> EventEnvelope \<Rightarrow> batch" where
  "send_one b e = (let b1 = b\<lparr>ba_built := ba_built b @ [e], ba_faults := tl (ba_faults b)\<rparr> in
     case ba_faults b of Some _ # _ \<Rightarrow> b1\<lparr>ba_errors := ba_errors b + 1\<rparr> | _ \<Rightarrow> b1\<lparr>ba_sent := ba_sent b + 1\<rparr>)"

text \<open>\<open>None\<close>: the line could not be read.\<close>

definition batch_line :: "tool_env \<Rightarrow> batch \<Rightarrow> string option \<Rightarrow> batch" where
  "batch_line env b line = (case line of
     None \<Rightarrow> b\<lparr>ba_errors := ba_errors b + 1\<rparr>
   | Some l \<Rightarrow> (case process_line env l (ba_tools b) of
       (Inl _, st) \<Rightarrow> b\<lparr>ba_tools := st, ba_errors := ba_errors b + 1\<rparr>
     | (Inr envelopes, st) \<Rightarrow> foldl send_one (b\<lparr>ba_tools := st\<rparr>) envelopes))"

definition start_batch :: "string option list \<Rightarrow> batch" where
  "start_batch faults = \<lparr>ba_tools = ([], []), ba_built = [], ba_sent = 0, ba_errors = 0, ba_faults = faults\<rparr>"

text \<open>\<open>shuffle\<close>: the order in which the hash map gives its values.\<close>

definition flush_orphans :: "tool_env \<Rightarrow> (PendingToolUse list \<Rightarrow> PendingToolUse list) \<Rightarrow> batch \<Rightarrow> batch" where
  "flush_orphans env shuffle b =
     foldl send_one (b\<lparr>ba_tools := ([], snd (ba_tools b))\<rparr>)
       (map (\<lambda>p. build_envelope env p None False None) (shuffle (map snd (fst (ba_tools b)))))"

definition send_tool_calls :: "tool_env \<Rightarrow> (PendingToolUse list \<Rightarrow> PendingToolUse list) \<Rightarrow> string option list \<Rightarrow> string option list \<Rightarrow> batch" where
  "send_tool_calls env shuffle faults file_lines =
     flush_orphans env shuffle (foldl (batch_line env) (start_batch faults) file_lines)"

definition write_session_segments ::
  "extract_env \<Rightarrow> store_env \<Rightarrow> path \<Rightarrow> json option \<Rightarrow> json option list option \<Rightarrow> string option
    \<Rightarrow> claude_db \<times> sqlite_error option list \<Rightarrow> (nat \<times> nat \<times> nat) \<times> claude_db" where
  "write_session_segments env senv p meta file_lines open_fault s = (case file_lines of
     None \<Rightarrow> ((0, 0, 1), fst s)
   | Some ls \<Rightarrow> (case extract_segments_for_ingest env (se_hash senv) (session_file p) meta ls of (segs, facts) \<Rightarrow>
       if segs = [] then ((0, 0, 0), fst s)
       else case open_fault of Some _ \<Rightarrow> ((0, 0, 1), fst s) | None \<Rightarrow> try_insert_segments senv segs (Some facts) s))"

text \<open>The transcript is read twice; \<open>file_lines\<close> and \<open>again\<close> are what the two passes see.\<close>

definition ingest_batch ::
  "tool_env \<Rightarrow> (PendingToolUse list \<Rightarrow> PendingToolUse list) \<Rightarrow> string option list \<Rightarrow> extract_env \<Rightarrow> store_env \<Rightarrow> path
    \<Rightarrow> string option list option \<Rightarrow> json option \<Rightarrow> json option list option \<Rightarrow> string option \<Rightarrow> claude_db \<times> sqlite_error option list
    \<Rightarrow> (string + nat \<times> nat) \<times> EventEnvelope list \<times> claude_db" where
  "ingest_batch tenv shuffle faults env senv p file_lines meta again open_fault s = (case file_lines of
     None \<Rightarrow> (Inl ''failed to open'', [], fst s)
   | Some ls \<Rightarrow> (let b = send_tool_calls tenv shuffle faults ls in
       case write_session_segments env senv p meta again open_fault s of ((_, _, segment_errors), db) \<Rightarrow>
         (Inr (ba_sent b, ba_errors b + segment_errors), ba_built b, db)))"


subsection \<open>Truncation\<close>

lemma back_off_le: "back_off s n \<le> n"
  by (induction n) auto

lemma back_off_boundary: "is_char_boundary s (back_off s n)"
  by (induction n) (auto simp: is_char_boundary_def)

text \<open>A well-formed sequence may be cut at a boundary, and a character has at most four bytes.\<close>

definition boundary :: "nat list \<Rightarrow> nat \<Rightarrow> bool" where
  "boundary bs i \<longleftrightarrow> i = 0 \<or> i = length bs \<or> (i < length bs \<and> \<not> cont_nat (bs ! i))"

lemma boundary_bytes: "is_char_boundary s i = boundary (bytes_of s) i"
  by (auto simp: is_char_boundary_def boundary_def bytes_of_def is_cont_def cont_nat_def)

lemma boundary_Cons: "boundary (a # r) (Suc i) = (if i = 0 then r = [] \<or> \<not> cont_nat (hd r) else boundary r i)"
  by (cases r) (auto simp: boundary_def)

lemma utf8_head: "utf8_valid (a # r) \<Longrightarrow> \<not> cont_nat a"
  by (auto simp: cont_nat_def split: list.splits if_splits)

lemma boundary_zero [simp]: "boundary bs 0"
  by (simp add: boundary_def)

lemma boundary_tail: "boundary (a # r) i \<Longrightarrow> i \<noteq> 0 \<Longrightarrow> \<exists>j. i = Suc j \<and> boundary r j"
  by (cases i) (auto simp: boundary_Cons split: if_splits)

lemma boundary_skip: "boundary (a # b # r) i \<Longrightarrow> cont_nat b \<Longrightarrow> i \<noteq> 0 \<Longrightarrow> \<exists>j. i = Suc j \<and> boundary (b # r) j \<and> j \<noteq> 0"
  by (cases i) (auto simp: boundary_Cons split: if_splits)

lemma utf8_take: "utf8_valid bs \<Longrightarrow> boundary bs i \<Longrightarrow> utf8_valid (take i bs)"
proof (induction bs arbitrary: i rule: utf8_valid.induct)
  case (2 a r)
  note IH = "2.IH" and valid = "2.prems"(1) and bnd = "2.prems"(2)
  show ?case
  proof (cases "i = 0")
    case pos: False
    show ?thesis
    proof (cases "a < 128")
      case True
      from boundary_tail[OF bnd pos] obtain j where "i = Suc j" "boundary r j" by blast
      then show ?thesis using IH(1)[OF True] valid True by simp
    next
      case a1: False
      then obtain b r1 where r: "r = b # r1" using valid by (cases r) auto
      show ?thesis
      proof (cases "194 \<le> a \<and> a \<le> 223")
        case True
        then have b: "cont_nat b" "utf8_valid r1" using valid a1 r by simp_all
        from boundary_skip[OF bnd[unfolded r] b(1) pos] obtain j where "i = Suc j" "boundary (b # r1) j" "j \<noteq> 0" by blast
        then obtain k where "i = Suc (Suc k)" "boundary r1 k" using boundary_tail by metis
        then show ?thesis using IH(2)[OF a1 r True b(2)] True a1 r b by simp
      next
        case a2: False
        then obtain c r2 where r1: "r1 = c # r2" using valid a1 r by (cases r1) auto
        show ?thesis
        proof (cases "224 \<le> a \<and> a \<le> 239")
          case True
          then have b: "cont_nat b" "cont_nat c" "utf8_valid r2" "a = 224 \<longrightarrow> 160 \<le> b" "a = 237 \<longrightarrow> b < 160"
            using valid a1 a2 r r1 by auto
          from boundary_skip[OF bnd[unfolded r r1] b(1) pos] obtain j where j: "i = Suc j" "boundary (b # c # r2) j" "j \<noteq> 0" by blast
          from boundary_skip[OF j(2) b(2) j(3)] obtain k where k: "j = Suc k" "boundary (c # r2) k" "k \<noteq> 0" by blast
          then obtain l where "i = Suc (Suc (Suc l))" "boundary r2 l" using j(1) k(1) boundary_tail[OF k(2,3)] by blast
          then show ?thesis using IH(3)[OF a1 r a2 r1 True b(3)] True a1 a2 r r1 b by simp
        next
          case a3: False
          then obtain d r3 where r2: "r2 = d # r3" using valid a1 a2 r r1 by (cases r2) auto
          have b: "cont_nat b" "cont_nat c" "cont_nat d" "utf8_valid r3" "a = 240 \<longrightarrow> 144 \<le> b" "a = 244 \<longrightarrow> b < 144" "240 \<le> a \<and> a \<le> 244"
            using valid a1 a2 a3 r r1 r2 by auto
          from boundary_skip[OF bnd[unfolded r r1 r2] b(1) pos] obtain j where j: "i = Suc j" "boundary (b # c # d # r3) j" "j \<noteq> 0" by blast
          from boundary_skip[OF j(2) b(2) j(3)] obtain k where k: "j = Suc k" "boundary (c # d # r3) k" "k \<noteq> 0" by blast
          from boundary_skip[OF k(2) b(3) k(3)] obtain l where l: "k = Suc l" "boundary (d # r3) l" "l \<noteq> 0" by blast
          then obtain m where "i = Suc (Suc (Suc (Suc m)))" "boundary r3 m" using j(1) k(1) l(1) boundary_tail[OF l(2,3)] by blast
          then show ?thesis using IH(4)[OF a1 r a2 r1 a3 r2] a1 a2 a3 r r1 r2 b by simp
        qed
      qed
    qed
  qed simp
qed simp

text \<open>Of four consecutive positions one is a boundary.\<close>

lemma utf8_boundary_near:
  "utf8_valid bs \<Longrightarrow> n \<le> length bs \<Longrightarrow> \<exists>m \<le> n. n \<le> m + 3 \<and> boundary bs m"
proof (induction bs arbitrary: n rule: utf8_valid.induct)
  case 1
  then show ?case by (intro exI[of _ 0]) simp
next
  case (2 a r)
  note IH = "2.IH" and valid = "2.prems"(1)
  have shift: ?case if sh: "a # r = pre @ t" "length pre = k" "k \<le> 4" "0 < k" "\<And>n. n \<le> length t \<Longrightarrow> \<exists>m \<le> n. n \<le> m + 3 \<and> boundary t m" "utf8_valid t" for pre t k
  proof (cases "n < k")
    case True
    then show ?thesis using sh(3) by (intro exI[of _ 0]) simp
  next
    case False
    then obtain m where m: "m \<le> n - k" "n - k \<le> m + 3" "boundary t m" using sh(1,2,5) "2.prems"(2)
      by (metis diff_le_mono length_append add_diff_cancel_left')
    have "boundary (a # r) (k + m)"
    proof (cases "m = 0 \<and> t \<noteq> []")
      case True
      then have "\<not> cont_nat (hd t)" using sh(6) utf8_head by (cases t) auto
      then show ?thesis using True sh(1,2) by (cases t) (auto simp: boundary_def nth_append)
    next
      case False
      then show ?thesis using m(3) sh(1,2) by (auto simp: boundary_def nth_append)
    qed
    then show ?thesis using m False by (intro exI[of _ "k + m"]) auto
  qed
  show ?case
  proof (cases "a < 128")
    case True
    then show ?thesis using shift[of "[a]" r 1] IH(1)[OF True] valid by simp
  next
    case a1: False
    then obtain b r1 where r: "r = b # r1" using valid by (cases r) auto
    show ?thesis
    proof (cases "194 \<le> a \<and> a \<le> 223")
      case True
      then show ?thesis using shift[of "[a, b]" r1 2] IH(2)[OF a1 r True] valid a1 r by simp
    next
      case a2: False
      then obtain c r2 where r1: "r1 = c # r2" using valid a1 r by (cases r1) auto
      show ?thesis
      proof (cases "224 \<le> a \<and> a \<le> 239")
        case True
        then have "utf8_valid r2" using valid a1 a2 r r1 by auto
        then show ?thesis using shift[of "[a, b, c]" r2 3] IH(3)[OF a1 r a2 r1 True] r r1 by simp
      next
        case a3: False
        then obtain d r3 where r2: "r2 = d # r3" using valid a1 a2 r r1 by (cases r2) auto
        then have "utf8_valid r3" using valid a1 a2 a3 r r1 by auto
        then show ?thesis using shift[of "[a, b, c, d]" r3 4] IH(4)[OF a1 r a2 r1 a3 r2] r r1 r2 by simp
      qed
    qed
  qed
qed

lemma back_off_max: "m \<le> n \<Longrightarrow> is_char_boundary s m \<Longrightarrow> m \<le> back_off s n"
  by (induction n) (auto simp: le_Suc_eq)

lemma back_off_near: "utf8_valid (bytes_of s) \<Longrightarrow> n \<le> length s \<Longrightarrow> n \<le> back_off s n + 3"
  using utf8_boundary_near[of "bytes_of s" n] back_off_max[of _ n s] by (fastforce simp: boundary_bytes)

text \<open>
  What is kept of a tool's output is a prefix of it, at most 4096 bytes, again well-formed
  UTF-8, and whole if it fits; otherwise it is marked and at most three bytes shorter than the limit. The recorded
  size is that of the whole output.
\<close>

theorem output_truncated:
  assumes "ee_payload (build_envelope env p (Some content) err ts) = Shell ev" "sv_stdout ev = Some out"
    and "utf8_valid (bytes_of content)"
  shows "(\<exists>rest. content = co_content out @ rest) \<and> length (co_content out) \<le> 4096 \<and> utf8_valid (bytes_of (co_content out))
    \<and> co_original_bytes out = int (length content)
    \<and> (if length content \<le> 4096 then co_content out = content \<and> \<not> co_truncated out
       else co_truncated out \<and> 4093 \<le> length (co_content out))"
proof -
  let ?b = "back_off content MAX_OUTPUT_BYTES"
  have o': "co_original_bytes out = int (length content)"
    "co_content out = (if length content \<le> 4096 then content else take ?b content)" "co_truncated out = (\<not> length content \<le> 4096)"
    using assms(1,2) by (auto simp: build_envelope_def truncate_to_bytes_def MAX_OUTPUT_BYTES_def)
  have "bytes_of (take ?b content) = take ?b (bytes_of content)" by (simp add: bytes_of_def take_map)
  then have u: "utf8_valid (bytes_of (take ?b content))"
    using utf8_take[OF assms(3)] back_off_boundary[of content MAX_OUTPUT_BYTES] by (simp add: boundary_bytes)
  have l: "?b \<le> 4096" using back_off_le[of content MAX_OUTPUT_BYTES] by (simp add: MAX_OUTPUT_BYTES_def)
  have n: "4093 \<le> ?b" if "\<not> length content \<le> 4096"
    using back_off_near[OF assms(3), of MAX_OUTPUT_BYTES] that by (simp add: MAX_OUTPUT_BYTES_def)
  have "\<exists>rest. content = co_content out @ rest" using o'(2) append_take_drop_id by (metis append_Nil2)
  then show ?thesis using o' u l n assms(3) by auto
qed



definition example_tool_env :: tool_env where
  "example_tool_env = \<lparr>te_parse_json = \<lambda>s. None, te_parse_ts = \<lambda>s. Some 0, te_now = 0, te_parse_uuid = \<lambda>s. None, te_v5 = \<lambda>s. s,
     te_git = \<lambda>c a. None, te_hostname = ''h''\<rparr>"

definition example_pending :: PendingToolUse where
  "example_pending = \<lparr>pt_tool_use_id = ''t1'', pt_name = ''Bash'', pt_input = JObj [(''command'', JStr ''ls'')], pt_timestamp = 0,
     pt_session_id = ''s'', pt_cwd = [], pt_git_branch = None, pt_git_repo = None\<rparr>"

lemma output_truncated_witness:
  "length (co_content (the (sv_stdout (case ee_payload (build_envelope example_tool_env example_pending (Some ''ok'') False None) of Shell ev \<Rightarrow> ev)))) \<le> 4096"
proof -
  obtain ev where ev: "ee_payload (build_envelope example_tool_env example_pending (Some ''ok'') False None) = Shell ev"
    by (simp add: build_envelope_def)
  then obtain out where out: "sv_stdout ev = Some out" by (auto simp: build_envelope_def)
  have "utf8_valid (bytes_of ''ok'')" by code_simp
  then show ?thesis using output_truncated[OF ev out] out by (simp add: ev)
qed

subsection \<open>Every call is reported once\<close>

definition block_uses :: "json \<Rightarrow> string list" where
  "block_uses block = (let i = str_or block ''id'' [] in
     if str_field block ''type'' \<noteq> Some ''tool_use'' \<or> i = [] then [] else [i])"

text \<open>The ids of the calls a line announces.\<close>

definition line_uses :: "tool_env \<Rightarrow> string option \<Rightarrow> string list" where
  "line_uses env line = (case Option.bind (map_option trim line) (\<lambda>l. if l = [] then None else te_parse_json env l) of
     None \<Rightarrow> []
   | Some value \<Rightarrow> if str_or value ''type'' [] \<noteq> ''assistant'' then []
       else (case line_content value of None \<Rightarrow> [] | Some blocks \<Rightarrow> concat (map block_uses blocks)))"

definition pending_ids :: "tool_state \<Rightarrow> string list" where
  "pending_ids st = map fst (fst st)"

definition keyed :: "tool_state \<Rightarrow> bool" where
  "keyed st \<longleftrightarrow> distinct (pending_ids st) \<and> (\<forall>(k, p) \<in> set (fst st). pt_tool_use_id p = k)"

definition built_ids :: "EventEnvelope list \<Rightarrow> string list" where
  "built_ids es = map ee_envelope_id es"

lemma pending_ids_put: "set (map fst (al_put k v xs)) = insert k (set (map fst xs))"
  using dom_al_put[of k v xs] by simp

lemma keyed_put: "keyed (xs, c) \<Longrightarrow> pt_tool_use_id p = k \<Longrightarrow> keyed (al_put k p xs, c')"
  unfolding keyed_def pending_ids_def
  by (induction k p xs rule: al_put.induct) (auto simp: dom_al_put)

lemma al_put_mset: "k \<notin> set (map fst xs) \<Longrightarrow> mset (map fst (al_put k v xs)) = add_mset k (mset (map fst xs))"
  by (induction k v xs rule: al_put.induct) auto

lemma keyed_del: "keyed (xs, c) \<Longrightarrow> keyed (al_del k xs, c')"
  unfolding keyed_def pending_ids_def
  by (induction k xs rule: al_del.induct) (auto simp: dom_al_del)

lemma al_del_mset:
  "distinct (map fst xs) \<Longrightarrow> k \<in> set (map fst xs) \<Longrightarrow> add_mset k (mset (map fst (al_del k xs))) = mset (map fst xs)"
proof (induction k xs rule: al_del.induct)
  case (2 k k' v' xs)
  have "al_del k xs = xs" if "k \<notin> set (map fst xs)" using that by (induction xs) auto
  then show ?case using 2 by auto
qed simp

text \<open>One block of an assistant record, one of a user record.\<close>

lemma note_use_ids:
  assumes "keyed st"
  shows "keyed (note_use env v st block)"
    and "set (pending_ids (note_use env v st block)) = set (block_uses block) \<union> set (pending_ids st)"
    and "set (block_uses block) \<inter> set (pending_ids st) = {} \<Longrightarrow>
      mset (pending_ids (note_use env v st block)) = mset (block_uses block) + mset (pending_ids st)"
proof -
  obtain xs c where st: "st = (xs, c)" by fastforce
  show "keyed (note_use env v st block)"
    using assms unfolding st by (auto simp: note_use_def Let_def intro: keyed_put)
  show "set (pending_ids (note_use env v st block)) = set (block_uses block) \<union> set (pending_ids st)"
    by (simp add: st note_use_def Let_def block_uses_def pending_ids_def dom_al_put)
  show "set (block_uses block) \<inter> set (pending_ids st) = {} \<Longrightarrow>
      mset (pending_ids (note_use env v st block)) = mset (block_uses block) + mset (pending_ids st)"
    using al_put_mset by (auto simp: st note_use_def Let_def block_uses_def pending_ids_def)
qed

lemma build_id [simp]: "ee_envelope_id (build_envelope env p r e t) = te_v5 env (pt_tool_use_id p)"
  by (simp add: build_envelope_def)

lemma note_result_ids:
  assumes "keyed (fst s)"
  shows "keyed (fst (note_result env v s block))"
    and "mset (built_ids (snd (note_result env v s block))) + image_mset (te_v5 env) (mset (pending_ids (fst (note_result env v s block))))
      = mset (built_ids (snd s)) + image_mset (te_v5 env) (mset (pending_ids (fst s)))"
proof -
  obtain xs c es where s: "s = ((xs, c), es)" by (metis prod.collapse)
  let ?i = "str_or block ''tool_use_id'' []"
  have k: "keyed (xs, c)" using assms s by simp
  show "keyed (fst (note_result env v s block))"
    using k keyed_del by (auto simp: s note_result_def Let_def split: option.split)
  show "mset (built_ids (snd (note_result env v s block))) + image_mset (te_v5 env) (mset (pending_ids (fst (note_result env v s block))))
      = mset (built_ids (snd s)) + image_mset (te_v5 env) (mset (pending_ids (fst s)))"
  proof (cases "str_field block ''type'' \<noteq> Some ''tool_result'' \<or> map_of xs ?i = None")
    case True
    then show ?thesis by (auto simp: s note_result_def Let_def)
  next
    case False
    then obtain p where p: "map_of xs ?i = Some p" by auto
    then have "(?i, p) \<in> set xs" by (rule map_of_SomeD)
    then have "pt_tool_use_id p = ?i" "?i \<in> set (map fst xs)" "distinct (map fst xs)"
      using k by (force simp: keyed_def pending_ids_def)+
    then show ?thesis
      using False p arg_cong[OF al_del_mset[of xs ?i], of "image_mset (te_v5 env)"]
      by (simp add: s note_result_def Let_def built_ids_def pending_ids_def)
  qed
qed

text \<open>The account of a run: every announced id is pending or built, and exactly once while ids are not reused.\<close>

definition accounts :: "tool_env \<Rightarrow> string list \<Rightarrow> tool_state \<times> EventEnvelope list \<Rightarrow> bool" where
  "accounts env seen s \<longleftrightarrow> keyed (fst s) \<and> set (pending_ids (fst s)) \<subseteq> set seen
     \<and> set (built_ids (snd s)) \<union> te_v5 env ` set (pending_ids (fst s)) = te_v5 env ` set seen
     \<and> (distinct seen \<longrightarrow> mset (built_ids (snd s)) + image_mset (te_v5 env) (mset (pending_ids (fst s))) = image_mset (te_v5 env) (mset seen))"

lemma accounts_use:
  assumes "accounts env seen (st, es)"
  shows "accounts env (seen @ block_uses block) (note_use env v st block, es)"
proof -
  have k: "keyed st" and sub: "set (pending_ids st) \<subseteq> set seen" using assms by (simp_all add: accounts_def)
  have d: "mset (built_ids es) + image_mset (te_v5 env) (mset (pending_ids (note_use env v st block)))
      = image_mset (te_v5 env) (mset (seen @ block_uses block))" if "distinct (seen @ block_uses block)"
  proof -
    have "set (block_uses block) \<inter> set (pending_ids st) = {}" using that sub by auto
    then show ?thesis using note_use_ids(3)[OF k] that assms by (simp add: accounts_def)
  qed
  show ?thesis
    using assms note_use_ids(1,2)[OF k, where env = env and v = v and block = block] d unfolding accounts_def by auto
qed

lemma accounts_uses:
  "accounts env seen (st, es) \<Longrightarrow> accounts env (seen @ concat (map block_uses blocks)) (foldl (note_use env v) st blocks, es)"
proof (induction blocks arbitrary: seen st)
  case (Cons b bs)
  then show ?case using accounts_use[where block = b and v = v] by fastforce
qed simp

lemma accounts_result: "accounts env seen s \<Longrightarrow> accounts env seen (note_result env v s block)"
proof -
  assume a: "accounts env seen s"
  then have k: "keyed (fst s)" by (simp add: accounts_def)
  note m = note_result_ids[OF k, where env = env and v = v and block = block]
  have "set (built_ids (snd (note_result env v s block))) \<union> te_v5 env ` set (pending_ids (fst (note_result env v s block)))
      = set (built_ids (snd s)) \<union> te_v5 env ` set (pending_ids (fst s))"
    using arg_cong[OF m(2), of set_mset] by simp
  moreover have "set (pending_ids (fst (note_result env v s block))) \<subseteq> set (pending_ids (fst s))"
    by (cases s) (auto simp: note_result_def Let_def pending_ids_def dom_al_del split: option.split prod.split)
  ultimately show ?thesis using a m unfolding accounts_def by auto
qed

lemma accounts_results: "accounts env seen s \<Longrightarrow> accounts env seen (foldl (note_result env v) s blocks)"
  by (induction blocks arbitrary: s) (simp_all add: accounts_result)

text \<open>New events go behind the ones already built.\<close>

lemma note_result_append:
  "foldl (note_result env v) (st, es @ fs) blocks
     = (case foldl (note_result env v) (st, fs) blocks of (st', gs) \<Rightarrow> (st', es @ gs))"
proof (induction blocks arbitrary: st fs)
  case (Cons b bs)
  obtain st1 f1 where one: "note_result env v (st, fs) b = (st1, f1)" by fastforce
  then have "note_result env v (st, es @ fs) b = (st1, es @ f1)"
    by (cases st) (auto simp: note_result_def Let_def split: option.splits if_splits)
  then show ?case using Cons.IH[of st1 f1] one by simp
qed simp

lemma process_line_accounts:
  assumes "accounts env seen (st, es)"
  shows "case process_line env line st of
      (Inl _, st') \<Rightarrow> accounts env (seen @ line_uses env (Some line)) (st', es)
    | (Inr new, st') \<Rightarrow> accounts env (seen @ line_uses env (Some line)) (st', es @ new)"
proof (cases "trim line = [] \<or> te_parse_json env (trim line) = None")
  case True
  then show ?thesis using assms by (auto simp: process_line_def Let_def line_uses_def)
next
  case False
  then obtain v where jv: "te_parse_json env (trim line) = Some v" by auto
  show ?thesis
  proof (cases "line_content v")
    case None
    then show ?thesis using assms False jv by (auto simp: process_line_def Let_def line_uses_def)
  next
    case (Some blocks)
    have u: "accounts env (seen @ concat (map block_uses blocks)) (foldl (note_use env v) st blocks, es)"
      using accounts_uses[OF assms] .
    obtain st' gs where r: "foldl (note_result env v) (st, []) blocks = (st', gs)" by fastforce
    then have "accounts env seen (st', es @ gs)"
      using accounts_results[OF assms, where v = v and blocks = blocks] note_result_append[where env = env and v = v and st = st and es = es and fs = "[]" and blocks = blocks] by simp
    then show ?thesis using assms u r False jv Some by (auto simp: process_line_def Let_def line_uses_def)
  qed
qed

lemma send_one_built [simp]: "ba_built (send_one b e) = ba_built b @ [e]" "ba_tools (send_one b e) = ba_tools b"
  by (simp_all add: send_one_def Let_def split: list.split option.split)

lemma send_all: "ba_built (foldl send_one b es) = ba_built b @ es" "ba_tools (foldl send_one b es) = ba_tools b"
  by (induction es arbitrary: b) simp_all

lemma batch_line_accounts:
  "accounts env seen (ba_tools b, ba_built b) \<Longrightarrow>
   accounts env (seen @ line_uses env line) (ba_tools (batch_line env b line), ba_built (batch_line env b line))"
proof (cases line)
  case (Some l)
  assume "accounts env seen (ba_tools b, ba_built b)"
  then show ?thesis
    using process_line_accounts[of env seen "ba_tools b" "ba_built b" l] Some
    by (auto simp: batch_line_def send_all split: prod.splits sum.splits)
qed (simp add: batch_line_def line_uses_def)

lemma batch_accounts:
  "accounts env seen (ba_tools b, ba_built b) \<Longrightarrow>
   accounts env (seen @ concat (map (line_uses env) ls)) (ba_tools (foldl (batch_line env) b ls), ba_built (foldl (batch_line env) b ls))"
proof (induction ls arbitrary: seen b)
  case (Cons l ls)
  then show ?case using batch_line_accounts[of env seen b l] by fastforce
qed simp

lemma flush_orphans_accounts:
  assumes "\<And>xs. mset (shuffle xs) = mset xs" "accounts env seen (ba_tools b, ba_built b)"
  shows "accounts env seen (ba_tools (flush_orphans env shuffle b), ba_built (flush_orphans env shuffle b))"
    and "fst (ba_tools (flush_orphans env shuffle b)) = []"
proof -
  obtain xs c where t: "ba_tools b = (xs, c)" by fastforce
  have k: "keyed (xs, c)" using assms(2) t by (simp add: accounts_def)
  let ?orphans = "map (\<lambda>p. build_envelope env p None False None) (shuffle (map snd xs))"
  have "map pt_tool_use_id (map snd xs) = map fst xs" using k by (auto simp: keyed_def)
  then have m: "mset (map pt_tool_use_id (shuffle (map snd xs))) = mset (map fst xs)"
    using assms(1)[of "map snd xs"] by (metis mset_map)
  have "mset (built_ids ?orphans) = image_mset (te_v5 env) (mset (map pt_tool_use_id (shuffle (map snd xs))))"
    by (simp add: built_ids_def image_mset.compositionality comp_def)
  then have o': "mset (built_ids ?orphans) = image_mset (te_v5 env) (mset (map fst xs))" by (simp only: m)
  then have st: "set (built_ids ?orphans) = te_v5 env ` set (map fst xs)" by (metis set_image_mset set_mset_mset)
  then show "accounts env seen (ba_tools (flush_orphans env shuffle b), ba_built (flush_orphans env shuffle b))"
    using assms(2) o' st unfolding t flush_orphans_def send_all accounts_def pending_ids_def built_ids_def keyed_def
    by (simp add: Un_assoc)
  show "fst (ba_tools (flush_orphans env shuffle b)) = []" by (simp add: flush_orphans_def send_all)
qed

lemma send_accounts:
  assumes "\<And>xs. mset (shuffle xs) = mset xs"
  shows "\<exists>c. accounts env (concat (map (line_uses env) ls)) (([], c), ba_built (send_tool_calls env shuffle faults ls))"
proof -
  have "accounts env [] (ba_tools (start_batch faults), ba_built (start_batch faults))"
    by (simp add: accounts_def start_batch_def keyed_def pending_ids_def built_ids_def)
  from batch_accounts[OF this, of ls]
  have "accounts env (concat (map (line_uses env) ls)) (ba_tools (foldl (batch_line env) (start_batch faults) ls), ba_built (foldl (batch_line env) (start_batch faults) ls))"
    by simp
  from flush_orphans_accounts[OF assms this] show ?thesis
    unfolding send_tool_calls_def by (metis prod.collapse)
qed


text \<open>One call with a result, one without.\<close>

definition example_parse :: "string \<Rightarrow> json option" where
  "example_parse s =
     (if s = ''a'' then Some (JObj [(''type'', JStr ''assistant''), (''message'', JObj [(''content'', JArr
           [JObj [(''type'', JStr ''tool_use''), (''id'', JStr ''t1''), (''name'', JStr ''Bash'')],
            JObj [(''type'', JStr ''tool_use''), (''id'', JStr ''t2''), (''name'', JStr ''Read'')]])])])
      else if s = ''u'' then Some (JObj [(''type'', JStr ''user''), (''message'', JObj [(''content'', JArr
           [JObj [(''type'', JStr ''tool_result''), (''tool_use_id'', JStr ''t1''), (''content'', JStr ''ok'')]])])])
      else None)"


end
