(* ===== verification/NativeMessaging.thy ===== *)
theory NativeMessaging
  imports DaemonProperties PageDiff GitRepo
begin

text \<open>
  The host that Firefox starts for the browser extension (\<open>hippo-daemon/src/native_messaging.rs\<close>): its frames, the
  check and cleaning of a visit, the loop over the messages. The \<open>url\<close> crate, \<open>serde\<close>'s parsers, version-5 UUIDs and
  Unicode lower case are parameters. A request that reaches the socket is handled by the daemon of theory \<open>Daemon\<close>.
\<close>

definition MAX_MESSAGE_SIZE :: nat where [hippo_defs]: "MAX_MESSAGE_SIZE = 1024 * 1024"

record BrowserVisit =
  vi_url :: string
  vi_title :: string
  vi_domain :: string
  vi_dwell_ms :: int
  vi_scroll_depth :: rat
  vi_extracted_text :: "string option"
  vi_search_query :: "string option"
  vi_referrer :: "string option"
  vi_timestamp :: int
  vi_probe_tag :: "string option"

record ExtensionHeartbeat =
  hb_extension_version :: string
  hb_enabled_state :: bool
  hb_sent_at_ms :: int
  hb_last_error_msg :: "string option"

datatype NmMessage = Visit BrowserVisit | Heartbeat ExtensionHeartbeat

record NativeResponse =
  np_status :: string
  np_error :: "string option"

subsection \<open>Frames\<close>

text \<open>
  What is read and the bytes left on standard input, which ends after them. The length is in native byte order, which is
  little-endian on the supported platforms.
\<close>

definition read_native_message :: "string \<Rightarrow> (string + string option) \<times> string" where
  "read_native_message stream =
     (if length stream < 4 then (Inr None, [])
      else let len = of_le (take 4 stream); body = drop 4 stream in
        if len > MAX_MESSAGE_SIZE then (Inl ''native message too large'', body)
        else if length body < len then (Inl ''failed to fill whole buffer'', [])
        else (Inr (Some (take len body)), drop len body))"

definition write_native_message :: "string \<Rightarrow> string + string" where
  "write_native_message data =
     (if length data < 2 ^ 32 then Inr (le_bytes 4 (length data) @ data) else Inl ''response too large'')"

subsection \<open>URLs\<close>

text \<open>
  A parsed URL: everything but its query, with the decoded pairs of the query, and the printer, which writes no query
  for \<open>None\<close>.
\<close>

record url_lib =
  ur_parse :: "string \<Rightarrow> (string \<times> (string \<times> string) list) option"
  ur_print :: "string \<Rightarrow> (string \<times> string) list option \<Rightarrow> string"

definition eq_ignore_ascii_case :: "string \<Rightarrow> string \<Rightarrow> bool" where
  "eq_ignore_ascii_case a b \<longleftrightarrow> ascii_lower a = ascii_lower b"

definition sensitive :: "string list \<Rightarrow> string \<Rightarrow> bool" where
  "sensitive strip_params name \<longleftrightarrow> list_ex (\<lambda>s. eq_ignore_ascii_case s name) strip_params"

definition strip_sensitive_params :: "url_lib \<Rightarrow> string \<Rightarrow> string list \<Rightarrow> string" where
  "strip_sensitive_params lib url strip_params = (case ur_parse lib url of
     None \<Rightarrow> url
   | Some (base, pairs) \<Rightarrow>
       (let filtered = filter (\<lambda>(name, _). \<not> sensitive strip_params name) pairs in
        ur_print lib base (if filtered = [] then None else Some filtered)))"

subsection \<open>Envelope ids\<close>

definition visit_bucket :: "nat \<Rightarrow> int \<Rightarrow> nat" where
  "visit_bucket dedup_window_minutes timestamp_ms =
     (let visit_minutes = nat (trunc_div timestamp_ms 1000 mod 2 ^ 64) div 60 in
      if dedup_window_minutes = 0 then visit_minutes else visit_minutes div dedup_window_minutes)"

definition visit_key :: "string \<Rightarrow> nat \<Rightarrow> int \<Rightarrow> string" where
  "visit_key url dedup_window_minutes timestamp_ms = url @ '':'' @ nat_str (visit_bucket dedup_window_minutes timestamp_ms)"

definition make_envelope_id :: "(string \<Rightarrow> string) \<Rightarrow> string \<Rightarrow> nat \<Rightarrow> int \<Rightarrow> string" where
  "make_envelope_id v5 url dedup_window_minutes timestamp_ms = v5 (visit_key url dedup_window_minutes timestamp_ms)"

definition make_visit_envelope_id :: "(string \<Rightarrow> string) \<Rightarrow> string \<Rightarrow> nat \<Rightarrow> int \<Rightarrow> string option \<Rightarrow> string" where
  "make_visit_envelope_id v5 url dedup_window_minutes timestamp_ms probe_tag = (case probe_tag of
     Some tag \<Rightarrow> v5 (''probe:'' @ tag)
   | None \<Rightarrow> make_envelope_id v5 url dedup_window_minutes timestamp_ms)"

subsection \<open>One message\<close>

record nm_env =
  ne_enabled :: bool
  ne_strip_params :: "string list"
  ne_allowed_domains :: "string list"
  ne_probe_domain :: string
  ne_dedup_window :: nat
  ne_url :: url_lib
  ne_v5 :: "string \<Rightarrow> string"
  ne_lower :: "string \<Rightarrow> string"
  ne_parse_tagged :: "string \<Rightarrow> NmMessage option"
  ne_parse_visit :: "string \<Rightarrow> BrowserVisit option"
  ne_valid_ts :: "int \<Rightarrow> bool"
  ne_now_ms :: int
  ne_date :: string
  ne_daemon :: daemon_env
  ne_answer :: "string \<Rightarrow> daemon_state \<Rightarrow> DaemonResponse"

text \<open>
  The daemon and its fallback directory, the outcomes of the coming connections to its socket and of the coming writes to
  the fallback file, and the responses sent.
\<close>

record nm_world =
  nw_daemon :: daemon_state
  nw_sends :: "string option list"
  nw_files :: "string option list"
  nw_out :: "NativeResponse list"

definition send_response :: "string \<Rightarrow> string option \<Rightarrow> nm_world \<Rightarrow> nm_world" where
  "send_response status err w = w\<lparr>nw_out := nw_out w @ [\<lparr>np_status = status, np_error = err\<rparr>]\<rparr>"

definition send_request :: "nm_env \<Rightarrow> DaemonRequest \<Rightarrow> nm_world \<Rightarrow> (string + DaemonResponse) \<times> nm_world" where
  "send_request env req w = (let w1 = w\<lparr>nw_sends := tl (nw_sends w)\<rparr> in
     case next_fault (nw_sends w) of
       Some e \<Rightarrow> (Inl e, w1)
     | None \<Rightarrow> (case handle_request (ne_daemon env) (ne_answer env) (nw_daemon w) req of (resp, d) \<Rightarrow>
         (Inr resp, w1\<lparr>nw_daemon := d\<rparr>)))"

definition parse_message :: "nm_env \<Rightarrow> string \<Rightarrow> NmMessage option" where
  "parse_message env raw = (case ne_parse_tagged env raw of
     Some m \<Rightarrow> Some m | None \<Rightarrow> map_option Visit (ne_parse_visit env raw))"

definition forward_heartbeat :: "nm_env \<Rightarrow> ExtensionHeartbeat \<Rightarrow> nm_world \<Rightarrow> nm_world" where
  "forward_heartbeat env hb w =
     (case send_request env (UpdateSourceHealthHeartbeat ''browser'' (hb_sent_at_ms hb) (hb_last_error_msg hb)) w of
        (Inr Ack, w1) \<Rightarrow> send_response ''ok'' None w1
      | (Inr _, w1) \<Rightarrow> send_response ''error'' (Some ''daemon error'') w1
      | (Inl _, w1) \<Rightarrow> send_response ''error'' (Some ''heartbeat failed'') w1)"

definition is_probe :: "nm_env \<Rightarrow> BrowserVisit \<Rightarrow> bool" where
  "is_probe env visit \<longleftrightarrow> ne_lower env (vi_domain visit) = ne_lower env (ne_probe_domain env)"

definition domain_allowed :: "nm_env \<Rightarrow> BrowserVisit \<Rightarrow> bool" where
  "domain_allowed env visit \<longleftrightarrow> is_probe env visit
     \<or> list_ex (\<lambda>d. ne_lower env (vi_domain visit) = ne_lower env d
         \<or> ends_with (ne_lower env (vi_domain visit)) (''.'' @ ne_lower env d)) (ne_allowed_domains env)"

definition visit_envelope :: "nm_env \<Rightarrow> BrowserVisit \<Rightarrow> EventEnvelope" where
  "visit_envelope env visit =
     (let clean_url = strip_sensitive_params (ne_url env) (vi_url visit) (ne_strip_params env);
          explicit_probe_tag = (if is_probe env visit then vi_probe_tag visit else None);
          envelope_id = make_visit_envelope_id (ne_v5 env) clean_url (ne_dedup_window env) (vi_timestamp visit) explicit_probe_tag
      in \<lparr>ee_envelope_id = envelope_id, ee_producer_version = 1,
          ee_timestamp = (if ne_valid_ts env (vi_timestamp visit) then vi_timestamp visit else ne_now_ms env),
          ee_payload = Browser \<lparr>bv_url = clean_url, bv_title = vi_title visit, bv_domain = vi_domain visit,
             bv_dwell_ms = vi_dwell_ms visit, bv_scroll_depth = vi_scroll_depth visit, bv_extracted_text = vi_extracted_text visit,
             bv_search_query = vi_search_query visit,
             bv_referrer = map_option (\<lambda>r. strip_sensitive_params (ne_url env) r (ne_strip_params env)) (vi_referrer visit),
             bv_content_hash = None\<rparr>,
          ee_probe_tag = (case explicit_probe_tag of Some t \<Rightarrow> Some t | None \<Rightarrow> if is_probe env visit then Some envelope_id else None)\<rparr>)"

definition forward_visit :: "nm_env \<Rightarrow> BrowserVisit \<Rightarrow> nm_world \<Rightarrow> nm_world" where
  "forward_visit env visit w =
     (if \<not> domain_allowed env visit then send_response ''filtered'' None w
      else let envelope = visit_envelope env visit in
        case send_request env (IngestEvent envelope) w of
          (Inr _, w1) \<Rightarrow> send_response ''ok'' None w1
        | (Inl _, w1) \<Rightarrow>
            (case write_fallback_jsonl (next_fault (nw_files w1)) (ne_date env) envelope (ds_fallback (nw_daemon w1)) of
               (Inr _, files) \<Rightarrow> send_response ''ok'' None
                 (w1\<lparr>nw_files := tl (nw_files w1), nw_daemon := (nw_daemon w1)\<lparr>ds_fallback := files\<rparr>\<rparr>)
             | (Inl _, files) \<Rightarrow> send_response ''error'' (Some ''daemon send failed'') (w1\<lparr>nw_files := tl (nw_files w1)\<rparr>)))"

definition nm_message :: "nm_env \<Rightarrow> string \<Rightarrow> nm_world \<Rightarrow> nm_world" where
  "nm_message env raw w = (case parse_message env raw of
     None \<Rightarrow> send_response ''error'' (Some ''parse error'') w
   | Some (Heartbeat hb) \<Rightarrow> forward_heartbeat env hb w
   | Some (Visit visit) \<Rightarrow> forward_visit env visit w)"

subsection \<open>The loop\<close>

lemma read_native_shrinks:
  "read_native_message s = (r, rest) \<Longrightarrow> r \<noteq> Inr None \<Longrightarrow> length rest < length s"
  by (auto simp: read_native_message_def Let_def split: if_splits)

function nm_loop :: "nm_env \<Rightarrow> string \<Rightarrow> nm_world \<Rightarrow> nm_world" where
  "nm_loop env stream w = (case read_native_message stream of
     (Inr None, _) \<Rightarrow> w
   | (Inr (Some raw), rest) \<Rightarrow> nm_loop env rest (nm_message env raw w)
   | (Inl e, rest) \<Rightarrow> nm_loop env rest (send_response ''error'' (Some (''read error: '' @ e)) w))"
  by pat_completeness auto
termination
  by (relation "measure (\<lambda>(_, s, _). length s)") (auto dest!: read_native_shrinks[OF sym])

declare nm_loop.simps [simp del]

definition nm_run :: "nm_env \<Rightarrow> string \<Rightarrow> nm_world \<Rightarrow> nm_world" where
  "nm_run env stream w =
     (if \<not> ne_enabled env then send_response ''error'' (Some ''browser capture disabled'') w else nm_loop env stream w)"

subsection \<open>Frames arrive once, in order\<close>

definition native_frame :: "string \<Rightarrow> string" where
  "native_frame body = le_bytes 4 (length body) @ body"

lemma read_native_frame:
  assumes "length body < 2 ^ 32"
  shows "read_native_message (native_frame body @ rest) =
    (if length body > MAX_MESSAGE_SIZE then (Inl ''native message too large'', body @ rest) else (Inr (Some body), rest))"
  using assms by (simp add: read_native_message_def native_frame_def Let_def of_le_bytes)

interpretation native: codec native_frame
  "\<lambda>bs. case read_native_message bs of (Inr (Some m), r) \<Rightarrow> Some (m, r) | _ \<Rightarrow> None" "\<lambda>d. length d \<le> MAX_MESSAGE_SIZE"
  by unfold_locales (simp add: read_native_frame hippo_defs)

lemma nm_loop_frame:
  "length body \<le> MAX_MESSAGE_SIZE \<Longrightarrow> nm_loop env (native_frame body @ rest) w = nm_loop env rest (nm_message env body w)"
  using read_native_frame[of body rest] by (subst nm_loop.simps) (simp add: hippo_defs)

lemma nm_loop_frames:
  "list_all (\<lambda>b. length b \<le> MAX_MESSAGE_SIZE) bodies \<Longrightarrow>
   nm_loop env (concat (map native_frame bodies) @ rest) w = nm_loop env rest (foldl (\<lambda>w b. nm_message env b w) w bodies)"
  by (induction bodies arbitrary: w) (simp_all add: nm_loop_frame)

lemma nm_loop_eof: "length rest < 4 \<Longrightarrow> nm_loop env rest w = w"
  by (subst nm_loop.simps) (simp add: read_native_message_def)

text \<open>
  C39 (native_frames): the host handles each message of at most one MiB once, in order, also when the input ends inside
  the next length. A larger message is answered with an error, but its body stays on the input: the next length is
  read from inside it, so bytes of the body are handled as messages of their own.
\<close>

theorem native_frames:
  assumes "list_all (\<lambda>b. length b \<le> MAX_MESSAGE_SIZE) bodies" "length rest < 4"
    and "big = native_frame inner @ pad" "length inner \<le> MAX_MESSAGE_SIZE" "MAX_MESSAGE_SIZE < length big" "length big < 2 ^ 32"
  shows "nm_loop env (concat (map native_frame bodies) @ rest) w = foldl (\<lambda>w b. nm_message env b w) w bodies
    \<and> nm_loop env (native_frame big @ later) w
        = nm_loop env (pad @ later) (nm_message env inner (send_response ''error'' (Some ''read error: native message too large'') w))"
proof
  show "nm_loop env (concat (map native_frame bodies) @ rest) w = foldl (\<lambda>w b. nm_message env b w) w bodies"
    using assms(1,2) by (simp add: nm_loop_frames nm_loop_eof)
  have "nm_loop env (native_frame big @ later) w
      = nm_loop env (big @ later) (send_response ''error'' (Some (''read error: '' @ ''native message too large'')) w)"
    using assms(5,6) read_native_frame[of big later] by (subst nm_loop.simps) simp
  also have "\<dots> = nm_loop env (pad @ later) (nm_message env inner (send_response ''error'' (Some (''read error: '' @ ''native message too large'')) w))"
    using assms(3,4) nm_loop_frame[of inner env "pad @ later"] by simp
  finally show "nm_loop env (native_frame big @ later) w
        = nm_loop env (pad @ later) (nm_message env inner (send_response ''error'' (Some ''read error: native message too large'') w))"
    by simp
qed

subsection \<open>What the extension is told\<close>


subsection \<open>Deduplication\<close>

lemma visit_key_inj: "visit_key u d t = visit_key u' d' t' \<longleftrightarrow> u = u' \<and> visit_bucket d t = visit_bucket d' t'"
proof -
  have no: "CHR '':'' \<notin> set (rev (nat_str n))" for n using nat_str_digits[of "CHR '':''" n] by auto
  have split: "split_once (CHR '':'') (rev (visit_key u d t)) = Some (rev (nat_str (visit_bucket d t)), rev u)" for u d t
    using split_once_append[OF no, of "visit_bucket d t" "rev u"] by (simp add: visit_key_def)
  show ?thesis
  proof
    assume "visit_key u d t = visit_key u' d' t'"
    then have "rev (nat_str (visit_bucket d t)) = rev (nat_str (visit_bucket d' t')) \<and> rev u = rev u'"
      using split[of u d t] split[of u' d' t'] by simp
    then show "u = u' \<and> visit_bucket d t = visit_bucket d' t'" using nat_str_inj by auto
  qed (simp add: visit_key_def)
qed

lemma visit_bucket_div:
  assumes "0 \<le> t" "t < 2 ^ 63"
  shows "visit_bucket d t = nat (t div (60000 * int (max 1 d)))"
proof -
  have "trunc_div t 1000 = t div 1000" using assms(1) by (cases "t = 0") (simp_all add: trunc_div_def)
  moreover have "t div 1000 mod 2 ^ 64 = t div 1000" using assms by (intro mod_pos_pos_trivial) auto
  ultimately have "visit_bucket d t = nat (t div 1000) div 60 div max 1 d"
    by (auto simp: visit_bucket_def Let_def max_def)
  also have "\<dots> = nat (t div 1000 div 60 div int (max 1 d))"
    using assms(1) by (simp add: nat_div_distrib pos_imp_zdiv_nonneg_iff)
  also have "t div 1000 div 60 div int (max 1 d) = t div (60000 * int (max 1 d))"
    using zdiv_zmult2_eq[of "int (max 1 d)" t 60000] zdiv_zmult2_eq[of 60 t 1000] by simp
  finally show ?thesis .
qed

text \<open>
  Two visits hash the same key, and so get the same envelope id, exactly if their cleaned URLs are equal and
  their times fall into the same window; the windows are the intervals of the configured minutes (one minute if that is
  zero) from the epoch on.
\<close>

theorem visit_dedup:
  assumes "0 \<le> t" "t < 2 ^ 63" "0 \<le> t'" "t' < 2 ^ 63"
  shows "visit_key url d t = visit_key url' d t' \<longleftrightarrow>
    url = url' \<and> t div (60000 * int (max 1 d)) = t' div (60000 * int (max 1 d))"
  using assms by (auto simp: visit_key_inj visit_bucket_div pos_imp_zdiv_nonneg_iff eq_nat_nat_iff)

lemma visit_dedup_witness:
  "visit_key ''http://a'' 5 299999 = visit_key ''http://a'' 5 0 \<and> visit_key ''http://a'' 5 300000 \<noteq> visit_key ''http://a'' 5 0"
  using visit_dedup[of 299999 0 "''http://a''" 5 "''http://a''"] visit_dedup[of 300000 0 "''http://a''" 5 "''http://a''"] by simp

text \<open>A cleaned URL has no sensitive parameter and keeps the others in order; cleaning it again changes nothing.\<close>

lemma url_stripped:
  assumes "ur_parse lib url = Some (base, pairs)" "kept_pairs = filter (\<lambda>(name, _). \<not> sensitive ps name) pairs"
    and "ur_parse lib (ur_print lib base (if kept_pairs = [] then None else Some kept_pairs)) = Some (base, kept_pairs)"
  shows "ur_parse lib (strip_sensitive_params lib url ps) = Some (base, kept_pairs)
    \<and> strip_sensitive_params lib (strip_sensitive_params lib url ps) ps = strip_sensitive_params lib url ps"
proof -
  have one: "strip_sensitive_params lib url ps = ur_print lib base (if kept_pairs = [] then None else Some kept_pairs)"
    by (simp only: strip_sensitive_params_def assms(1) assms(2)[symmetric] option.case prod.case Let_def)
  have "filter (\<lambda>(name, _). \<not> sensitive ps name) kept_pairs = kept_pairs" by (simp add: assms(2))
  then show ?thesis unfolding one using assms(3) by (simp add: strip_sensitive_params_def Let_def)
qed

subsection \<open>Examples\<close>

definition example_visit :: BrowserVisit where
  "example_visit = \<lparr>vi_url = ''http://a'', vi_title = ''t'', vi_domain = ''a'', vi_dwell_ms = 1, vi_scroll_depth = 0,
     vi_extracted_text = None, vi_search_query = None, vi_referrer = None, vi_timestamp = 7, vi_probe_tag = None\<rparr>"

definition example_nm_env :: nm_env where
  "example_nm_env = \<lparr>ne_enabled = True, ne_strip_params = [''token''], ne_allowed_domains = [''a''], ne_probe_domain = ''p'',
     ne_dedup_window = 5, ne_url = \<lparr>ur_parse = \<lambda>_. None, ur_print = \<lambda>b _. b\<rparr>, ne_v5 = \<lambda>s. s, ne_lower = \<lambda>s. s,
     ne_parse_tagged = \<lambda>_. None, ne_parse_visit = \<lambda>s. if s = ''v'' then Some example_visit else None, ne_valid_ts = \<lambda>_. True, ne_now_ms = 0,
     ne_date = ''d'', ne_daemon = plain_env, ne_answer = \<lambda>_ _. Ack\<rparr>"

definition example_nm_world :: nm_world where
  "example_nm_world = \<lparr>nw_daemon = fresh_daemon, nw_sends = [Some ''refused''], nw_files = [], nw_out = []\<rparr>"


text \<open>A body over the limit that starts with a frame of its own.\<close>

definition example_big :: string where
  "example_big = native_frame ''v'' @ replicate 1048576 (CHR ''x'')"

lemma native_frames_witness:
  "nm_loop example_nm_env (native_frame example_big) example_nm_world
     = nm_loop example_nm_env (replicate 1048576 (CHR ''x''))
         (nm_message example_nm_env ''v'' (send_response ''error'' (Some ''read error: native message too large'') example_nm_world))"
proof -
  have "length example_big = 1048581" by (simp add: example_big_def native_frame_def)
  then show ?thesis
    using native_frames[of "[]" "[]" example_big "''v''" "replicate 1048576 (CHR ''x'')" example_nm_env example_nm_world "[]"]
    by (simp add: hippo_defs example_big_def)
qed

end
