(* ===== verification/CodexSession.thy ===== *)
theory CodexSession
  imports ClaudeStore GitRepo
begin

text \<open>
  Codex rollouts (\<open>hippo-daemon/src/codex_session.rs\<close>): the identity of a rollout, the text and tool calls of its
  records, the split into segments, and the digest that is stored. A rollout is the list of its lines that parse. Redaction,
  the time parser and \<open>serde_json\<close> are parameters, as for Claude transcripts.
\<close>

definition TASK_GAP_MS :: int where [hippo_defs]: "TASK_GAP_MS = 5 * 60 * 1000"
definition codex_MAX_SEGMENT_CHARS :: nat where [hippo_defs]: "codex_MAX_SEGMENT_CHARS = 12000"

record CodexSegment =
  cx_session_id :: string
  cx_parent_session_id :: "string option"
  cx_is_subagent :: bool
  cx_project_dir :: string
  cx_cwd :: string
  cx_segment_index :: int
  cx_start_time :: int
  cx_end_time :: int
  cx_user_prompts :: "string list"
  cx_assistant_texts :: "string list"
  cx_tool_calls :: "ToolCallSummary list"
  cx_message_count :: int
  cx_source_file :: path
  cx_usage :: SegmentUsage

text \<open>The parsers a rollout needs: \<open>xe_parse_ts\<close> reads RFC 3339.\<close>

record codex_env =
  ce_extract :: extract_env
  ce_parse_json :: "string \<Rightarrow> json option"
  ce_parse_uuid :: "string \<Rightarrow> string option"

subsection \<open>Identity\<close>

record RolloutIdentity =
  ri_session_id :: string
  ri_parent_session_id :: "string option"

definition ri_is_subagent :: "RolloutIdentity \<Rightarrow> bool" where
  "ri_is_subagent i \<longleftrightarrow> ri_parent_session_id i \<noteq> None"

text \<open>The last 36 bytes of the stem, if a character starts there.\<close>

definition rollout_path_session_id :: "codex_env \<Rightarrow> path \<Rightarrow> string option" where
  "rollout_path_session_id env p = (case file_name p of None \<Rightarrow> None
     | Some n \<Rightarrow> (let stem = file_stem n in
         if length stem < 36 \<or> \<not> is_char_boundary stem (length stem - 36) then None
         else ce_parse_uuid env (drop (length stem - 36) stem)))"

definition meta_id :: "json \<Rightarrow> string option" where
  "meta_id obj = (if str_field obj ''type'' \<noteq> Some ''session_meta'' then None
     else case Option.bind (j_get obj ''payload'') (\<lambda>p. str_field p ''id'') of
       Some i \<Rightarrow> if i = [] then None else Some i
     | None \<Rightarrow> None)"

definition rollout_identity :: "codex_env \<Rightarrow> path \<Rightarrow> json list \<Rightarrow> RolloutIdentity" where
  "rollout_identity env p entries =
     (let ids = foldl (\<lambda>ids obj. case meta_id obj of None \<Rightarrow> ids | Some i \<Rightarrow> if i \<in> set ids then ids else ids @ [i]) [] entries;
          session_id = (case ids of i # _ \<Rightarrow> i
            | [] \<Rightarrow> unwrap_or (rollout_path_session_id env p)
                (case file_name p of None \<Rightarrow> ''codex-unknown'' | Some n \<Rightarrow> file_stem n))
      in \<lparr>ri_session_id = session_id, ri_parent_session_id = find (\<lambda>i. i \<noteq> session_id) (drop 1 ids)\<rparr>)"

subsection \<open>Texts\<close>

definition codex_parse_ts :: "codex_env \<Rightarrow> string \<Rightarrow> int" where
  "codex_parse_ts env ts = (if ts = [] then 0 else unwrap_or (xe_parse_ts (ce_extract env) ts) 0)"

definition tool_summary :: "codex_env \<Rightarrow> string \<Rightarrow> string" where
  "tool_summary env arguments = (case Option.bind (ce_parse_json env arguments) as_object of
     None \<Rightarrow> chars_take 80 arguments
   | Some obj \<Rightarrow>
       (case List.map_filter (\<lambda>k. Option.bind (map_of obj k) as_str)
           [''cmd'', ''command'', ''filePath'', ''path'', ''uri'', ''query'', ''pattern''] of
          v # _ \<Rightarrow> chars_take 120 v
        | [] \<Rightarrow> (case filter (\<lambda>s. s \<noteq> []) (List.map_filter (\<lambda>(_, v). as_str v) obj) of
            s # _ \<Rightarrow> chars_take 80 s
          | [] \<Rightarrow> chars_take 80 arguments)))"

text \<open>\<open>str::rfind\<close> and \<open>str::find\<close> of a newline, as byte offsets.\<close>

fun rfind :: "string \<Rightarrow> string \<Rightarrow> nat option" where
  "rfind [] p = (if p = [] then Some 0 else None)"
| "rfind (c # cs) p = (case rfind cs p of
     Some i \<Rightarrow> Some (Suc i)
   | None \<Rightarrow> if starts_with (c # cs) p then Some 0 else None)"

definition line_end :: "string \<Rightarrow> nat \<Rightarrow> nat" where
  "line_end s after = (let rest = drop after s; n = length (takeWhile (\<lambda>c. c \<noteq> CHR 0x0A) rest) in
     if n < length rest then after + n + 1 else length s)"

definition status_markers :: "string list" where
  "status_markers = [''code selected'', ''file currently open'', ''inside this file:'']"

definition codex_user_text :: "string \<Rightarrow> string" where
  "codex_user_text message =
     (let (cut, found) = foldl (\<lambda>(cut, found) m. case rfind message m of
            None \<Rightarrow> (cut, found)
          | Some idx \<Rightarrow> (let e = line_end message (idx + length m) in if e > cut then (e, True) else (cut, found)))
            (0, False) status_markers;
          txt = (if found then trim (drop cut message)
            else case rfind message [CHR 0x0A, CHR 0x0A] of
              Some idx \<Rightarrow> trim (drop (idx + 2) message)
            | None \<Rightarrow> trim message)
      in chars_take 500 txt)"

definition content_text :: "json \<Rightarrow> string" where
  "content_text content = (case as_array content of
     None \<Rightarrow> []
   | Some blocks \<Rightarrow> join [CHR 0x0A] (List.map_filter (\<lambda>b. str_field b ''text'')
       (filter (\<lambda>b. str_field b ''type'' = Some ''input_text'' \<or> str_field b ''type'' = Some ''output_text'') blocks)))"

subsection \<open>Segments\<close>

record codex_state =
  cs_segments :: "CodexSegment list"
  cs_current :: "CodexSegment option"
  cs_chars :: nat
  cs_last_user :: int
  cs_cwd :: string
  cs_model :: "string option"
  cs_effort :: "string option"
  cs_pending_model :: "string option"
  cs_pending_effort :: "string option"
  cs_prev_total :: UsageTotals

definition codex_init :: codex_state where
  "codex_init = \<lparr>cs_segments = [], cs_current = None, cs_chars = 0, cs_last_user = 0, cs_cwd = [], cs_model = None,
     cs_effort = None, cs_pending_model = None, cs_pending_effort = None, cs_prev_total = no_usage\<rparr>"

definition codex_has_content :: "CodexSegment \<Rightarrow> bool" where
  "codex_has_content seg \<longleftrightarrow> cx_user_prompts seg \<noteq> [] \<or> cx_tool_calls seg \<noteq> [] \<or> cx_assistant_texts seg \<noteq> []"

definition observe_context :: "string option \<Rightarrow> string option \<Rightarrow> SegmentUsage \<Rightarrow> SegmentUsage" where
  "observe_context model effort usage =
     (let u1 = (case model of None \<Rightarrow> usage | Some m \<Rightarrow> observe_model m usage) in
      case effort of None \<Rightarrow> u1 | Some e \<Rightarrow> observe_effort e u1)"

definition codex_usage_totals :: "json \<Rightarrow> UsageTotals" where
  "codex_usage_totals raw =
     (let field = (\<lambda>k. max 0 (unwrap_or (Option.bind (j_get raw k) as_i64) 0)); cached = field ''cached_input_tokens'' in
      \<lparr>ut_input_tokens = max 0 (field ''input_tokens'' - cached), ut_output_tokens = field ''output_tokens'',
       ut_cache_read_tokens = cached, ut_cache_creation_tokens = field ''cache_write_input_tokens''\<rparr>)"

text \<open>The growth of the cumulative total.\<close>

definition usage_growth :: "UsageTotals \<Rightarrow> UsageTotals \<Rightarrow> UsageTotals" where
  "usage_growth tot prev =
     \<lparr>ut_input_tokens = max 0 (ut_input_tokens tot - ut_input_tokens prev),
      ut_output_tokens = max 0 (ut_output_tokens tot - ut_output_tokens prev),
      ut_cache_read_tokens = max 0 (ut_cache_read_tokens tot - ut_cache_read_tokens prev),
      ut_cache_creation_tokens = max 0 (ut_cache_creation_tokens tot - ut_cache_creation_tokens prev)\<rparr>"

text \<open>\<open>to_string_lossy\<close> of an absolute path.\<close>

definition path_str :: "path \<Rightarrow> string" where
  "path_str p = ''/'' @ join ''/'' p"

definition take_context :: "json \<Rightarrow> codex_state \<Rightarrow> codex_state" where
  "take_context payload x =
     (let x1 = (case str_field payload ''model'' of None \<Rightarrow> x
            | Some m \<Rightarrow> x\<lparr>cs_model := Some m, cs_pending_model := Some m\<rparr>);
          x2 = (case str_field payload ''effort'' of None \<Rightarrow> x1
            | Some e \<Rightarrow> x1\<lparr>cs_effort := Some e, cs_pending_effort := Some e\<rparr>)
      in case str_field payload ''cwd'' of
           Some cwd \<Rightarrow> if cwd = [] then x2
             else x2\<lparr>cs_cwd := cwd, cs_current := map_option (\<lambda>c. c\<lparr>cx_cwd := cwd\<rparr>) (cs_current x2)\<rparr>
         | None \<Rightarrow> x2)"

definition open_segment :: "RolloutIdentity \<Rightarrow> path \<Rightarrow> int \<Rightarrow> codex_state \<Rightarrow> CodexSegment" where
  "open_segment identity p ts x =
     (let cwd = (if cs_cwd x = [] then (case parent p of None \<Rightarrow> [] | Some q \<Rightarrow> path_str q) else cs_cwd x) in
      \<lparr>cx_session_id = ri_session_id identity, cx_parent_session_id = ri_parent_session_id identity,
       cx_is_subagent = ri_is_subagent identity, cx_project_dir = unwrap_or (path_name cwd) (ri_session_id identity),
       cx_cwd = cwd, cx_segment_index = int (length (cs_segments x)), cx_start_time = ts, cx_end_time = ts,
       cx_user_prompts = [], cx_assistant_texts = [], cx_tool_calls = [], cx_message_count = 0, cx_source_file = p,
       cx_usage = observe_context (cs_model x) (cs_effort x) new_usage\<rparr>)"

text \<open>A prompt after the gap, or over the character cap, closes the open segment.\<close>

definition close_at_boundary :: "int \<Rightarrow> codex_state \<Rightarrow> codex_state" where
  "close_at_boundary ts x =
     (if cs_last_user x > 0 \<and> ts > 0 \<and> (ts - cs_last_user x > TASK_GAP_MS \<or> cs_chars x > codex_MAX_SEGMENT_CHARS)
      then x\<lparr>cs_segments := (case cs_current x of
               Some seg \<Rightarrow> if codex_has_content seg then cs_segments x @ [seg] else cs_segments x
             | None \<Rightarrow> cs_segments x), cs_current := None, cs_chars := 0\<rparr>
      else x)"

definition take_prompt :: "codex_env \<Rightarrow> RolloutIdentity \<Rightarrow> path \<Rightarrow> int \<Rightarrow> string \<Rightarrow> codex_state \<Rightarrow> codex_state" where
  "take_prompt env identity p ts raw_msg x0 =
     (let user_text = codex_user_text raw_msg;
          x = close_at_boundary ts x0;
          seg0 = (case cs_current x of
              Some seg \<Rightarrow> seg\<lparr>cx_usage := observe_context (cs_pending_model x) (cs_pending_effort x) (cx_usage seg)\<rparr>
            | None \<Rightarrow> open_segment identity p ts x);
          seg1 = seg0\<lparr>cx_end_time := (if ts > 0 then max (cx_end_time seg0) ts else cx_end_time seg0),
                      cx_message_count := cx_message_count seg0 + 1\<rparr>;
          redacted = xe_redact (ce_extract env) user_text;
          seg2 = (if user_text = [] then seg1 else seg1\<lparr>cx_user_prompts := cx_user_prompts seg1 @ [redacted]\<rparr>)
      in x\<lparr>cs_pending_model := None, cs_pending_effort := None, cs_last_user := (if ts > 0 then ts else cs_last_user x),
           cs_chars := (if user_text = [] then cs_chars x else cs_chars x + chars_count redacted), cs_current := Some seg2\<rparr>)"

definition count_tokens :: "string \<Rightarrow> string \<Rightarrow> json \<Rightarrow> codex_state \<Rightarrow> codex_state" where
  "count_tokens kind payload_type payload x =
     (case Option.bind (j_get payload ''info'') (\<lambda>i. j_get i ''total_token_usage'') of
        Some raw \<Rightarrow>
          if kind = ''event_msg'' \<and> payload_type = ''token_count''
          then let tot = codex_usage_totals raw in
            x\<lparr>cs_prev_total := tot,
              cs_current := map_option (\<lambda>c. c\<lparr>cx_usage := add_usage (usage_growth tot (cs_prev_total x)) (cx_usage c)\<rparr>) (cs_current x)\<rparr>
          else x
      | None \<Rightarrow> x)"

definition call_arguments :: "codex_env \<Rightarrow> json \<Rightarrow> string" where
  "call_arguments env payload =
     (case (case j_get payload ''arguments'' of Some a \<Rightarrow> Some a | None \<Rightarrow> j_get payload ''input'') of
        Some (JStr s) \<Rightarrow> s
      | Some other \<Rightarrow> xe_print (ce_extract env) other
      | None \<Rightarrow> [])"

definition call_name :: "json \<Rightarrow> string" where
  "call_name payload = unwrap_or (Option.bind
     (case j_get payload ''name'' of Some v \<Rightarrow> Some v | None \<Rightarrow> j_get payload ''tool_name'') as_str) []"

definition take_item :: "codex_env \<Rightarrow> string \<Rightarrow> string \<Rightarrow> string \<Rightarrow> json \<Rightarrow> int \<Rightarrow> codex_state \<Rightarrow> codex_state" where
  "take_item env kind payload_type role payload ts x = (case cs_current x of
     None \<Rightarrow> x
   | Some seg0 \<Rightarrow>
     (let seg = seg0\<lparr>cx_end_time := (if ts > 0 then max (cx_end_time seg0) ts else cx_end_time seg0),
                     cx_message_count := cx_message_count seg0 + 1\<rparr>;
          x1 = x\<lparr>cs_current := Some seg\<rparr> in
      if kind = ''response_item'' \<and> (payload_type = ''function_call'' \<or> payload_type = ''custom_tool_call'')
      then if call_name payload = [] then x1
        else let summary = xe_redact (ce_extract env) (tool_summary env (call_arguments env payload)) in
          x1\<lparr>cs_chars := cs_chars x + chars_count summary,
             cs_current := Some (seg\<lparr>cx_tool_calls := cx_tool_calls seg @ [\<lparr>tc_name = call_name payload, tc_summary = summary\<rparr>]\<rparr>)\<rparr>
      else if kind = ''response_item'' \<and> role = ''assistant''
      then let txt = content_text (unwrap_or (j_get payload ''content'') JNull) in
        if txt = [] then x1
        else let redacted = xe_redact (ce_extract env) (chars_take 300 txt) in
          x1\<lparr>cs_chars := cs_chars x + chars_count redacted,
             cs_current := Some (seg\<lparr>cx_assistant_texts := cx_assistant_texts seg @ [redacted]\<rparr>)\<rparr>
      else x1))"

definition prompt_text :: "string \<Rightarrow> string \<Rightarrow> string \<Rightarrow> json \<Rightarrow> string option" where
  "prompt_text kind payload_type role payload =
     (if kind = ''event_msg'' \<and> payload_type = ''user_message'' then Some (str_or payload ''message'' [])
      else if kind = ''response_item'' \<and> payload_type = ''message'' \<and> role = ''user''
      then Some (content_text (unwrap_or (j_get payload ''content'') JNull))
      else None)"

definition codex_step :: "codex_env \<Rightarrow> RolloutIdentity \<Rightarrow> path \<Rightarrow> codex_state \<Rightarrow> json \<Rightarrow> codex_state" where
  "codex_step env identity p x obj =
     (let kind = str_or obj ''type'' []; ts = codex_parse_ts env (str_or obj ''timestamp'' []) in
      case j_get obj ''payload'' of
        Some (JObj ms) \<Rightarrow>
          (let payload = JObj ms; payload_type = str_or payload ''type'' []; role = str_or payload ''role'' [] in
           if kind = ''session_meta'' then (case str_field payload ''cwd'' of None \<Rightarrow> x | Some cwd \<Rightarrow> x\<lparr>cs_cwd := cwd\<rparr>)
           else if kind = ''turn_context'' then take_context payload x
           else if role = ''developer'' then x
           else case prompt_text kind payload_type role payload of
             Some raw_msg \<Rightarrow> if raw_msg = [] then x else take_prompt env identity p ts raw_msg x
           | None \<Rightarrow> take_item env kind payload_type role payload ts (count_tokens kind payload_type payload x))
      | _ \<Rightarrow> x)"

definition codex_finish :: "codex_state \<Rightarrow> CodexSegment list" where
  "codex_finish x = (case cs_current x of
     Some seg \<Rightarrow> if codex_has_content seg
       then cs_segments x @ [seg\<lparr>cx_usage := observe_context (cs_pending_model x) (cs_pending_effort x) (cx_usage seg)\<rparr>]
       else cs_segments x
   | None \<Rightarrow> cs_segments x)"

text \<open>\<open>None\<close>: the rollout could not be read. A line is what it parses to.\<close>

definition codex_extract_segments :: "codex_env \<Rightarrow> path \<Rightarrow> json option list option \<Rightarrow> string + CodexSegment list" where
  "codex_extract_segments env p file_lines = (case file_lines of
     None \<Rightarrow> Inl ''read codex rollout''
   | Some ls \<Rightarrow> (let entries = List.map_filter (\<lambda>l. l) ls; identity = rollout_identity env p entries in
       Inr (codex_finish (foldl (codex_step env identity p) codex_init entries))))"

end
