(* ===== verification/CodexStore.thy ===== *)
theory CodexStore
  imports CodexSession
begin

text \<open>
  Storing Codex segments and the poll over the rollout files (\<open>hippo-daemon/src/codex_session.rs\<close>). The rows go to the
  same tables as those of Claude transcripts (theory \<open>ClaudeStore\<close>), under the harness \<open>codex\<close>.
\<close>

subsection \<open>The stored row\<close>

definition more_line :: "nat \<Rightarrow> string" where
  "more_line n = ''  '' @ [CHR 0xE2, CHR 0x80, CHR 0xA6] @ '' (+'' @ nat_str n @ '' more)''"

definition codex_summary_text :: "CodexSegment \<Rightarrow> string" where
  "codex_summary_text seg = join nl
     ([if cx_is_subagent seg then ''Codex session (subagent, project: '' @ cx_cwd seg @ '')''
       else ''Codex session (project: '' @ cx_cwd seg @ '')'']
      @ (if cx_user_prompts seg = [] then []
         else [[], ''User requests:'']
           @ map (\<lambda>(i, p). ''  '' @ nat_str (i + 1) @ ''. '' @ [CHR 0x22] @ p @ [CHR 0x22]) (enumerate 0 (take 30 (cx_user_prompts seg)))
           @ (if length (cx_user_prompts seg) > 30 then [more_line (length (cx_user_prompts seg) - 30)] else []))
      @ (if cx_tool_calls seg = [] then []
         else [[], ''Work performed:'']
           @ map (\<lambda>t. ''  - '' @ tc_name t @ '': '' @ tc_summary t) (take 60 (cx_tool_calls seg))
           @ (if length (cx_tool_calls seg) > 60 then [more_line (length (cx_tool_calls seg) - 60)] else []))
      @ (if cx_assistant_texts seg = [] then []
         else [[], ''Assistant responses (excerpts):'']
           @ map (\<lambda>t. ''  - '' @ [CHR 0x22] @ t @ [CHR 0x22]) (take 5 (cx_assistant_texts seg))))"

definition codex_content_hash :: "hash_env \<Rightarrow> CodexSegment \<Rightarrow> string" where
  "codex_content_hash h seg =
     he_hash h (he_tools h (cx_tool_calls seg) @ ''|'' @ he_prompts h (cx_user_prompts seg) @ ''|''
       @ join nl (cx_assistant_texts seg))"

definition codex_decide_enqueue :: "bool \<Rightarrow> string \<Rightarrow> string option \<Rightarrow> string option \<Rightarrow> bool" where
  "codex_decide_enqueue was_insert current_hash prior_last_enriched_hash prior_queue_status =
     (if was_insert then True
      else if prior_queue_status = Some ''processing'' then False
      else if prior_last_enriched_hash = Some current_hash then False
      else True)"

definition codex_key :: "CodexSegment \<Rightarrow> string \<times> string \<times> int" where
  "codex_key seg = (cx_session_id seg, ''codex'', cx_segment_index seg)"

definition codex_insert_row :: "store_env \<Rightarrow> CodexSegment \<Rightarrow> int \<Rightarrow> agentic_session" where
  "codex_insert_row env seg row_id =
     \<lparr>as_id = row_id, as_session_id = cx_session_id seg, as_harness = ''codex'', as_segment_index = cx_segment_index seg,
      as_project_dir = cx_project_dir seg, as_cwd = cx_cwd seg, as_git_branch = None, as_title = [],
      as_parent_session_id = cx_parent_session_id seg, as_is_subagent = cx_is_subagent seg,
      as_summary_text = codex_summary_text seg, as_tool_calls = cx_tool_calls seg, as_user_prompts = cx_user_prompts seg,
      as_source_file = cx_source_file seg, as_message_count = cx_message_count seg, as_token_count = token_count (cx_usage seg),
      as_start_time = cx_start_time seg, as_end_time = cx_end_time seg,
      as_content_hash = Some (codex_content_hash (se_hash env) seg), as_last_enriched_content_hash = None,
      as_created_at = se_now_ms env, as_model = unwrap_or (usage_model (cx_usage seg)) [], as_requested_model = None,
      as_effort = usage_effort (cx_usage seg), as_totals = usage_totals (cx_usage seg), as_subagent = no_subagent,
      as_hooks = no_hooks, as_probe_tag = None\<rparr>"

definition codex_update_row :: "agentic_session \<Rightarrow> agentic_session \<Rightarrow> agentic_session" where
  "codex_update_row excluded r =
     r\<lparr>as_start_time := as_start_time excluded, as_end_time := as_end_time excluded, as_summary_text := as_summary_text excluded,
       as_tool_calls := as_tool_calls excluded, as_user_prompts := as_user_prompts excluded,
       as_message_count := as_message_count excluded, as_token_count := as_token_count excluded, as_model := as_model excluded,
       as_effort := as_effort excluded, as_totals := as_totals excluded, as_content_hash := as_content_hash excluded,
       as_cwd := as_cwd excluded, as_project_dir := as_project_dir excluded, as_source_file := as_source_file excluded,
       as_is_subagent := as_is_subagent excluded, as_parent_session_id := as_parent_session_id excluded\<rparr>"

text \<open>The effect of \<open>upsert_segment_tx\<close> when no statement fails.\<close>

definition codex_upsert :: "store_env \<Rightarrow> claude_db \<Rightarrow> CodexSegment \<Rightarrow> claude_db" where
  "codex_upsert env db seg =
     (let prior = find_row (codex_key seg) (cd_sessions db);
          row_id = (case prior of None \<Rightarrow> next_row_id (cd_sessions db) | Some r \<Rightarrow> as_id r);
          content_hash = codex_content_hash (se_hash env) seg
      in db\<lparr>cd_sessions := (case prior of
              None \<Rightarrow> cd_sessions db @ [codex_insert_row env seg row_id]
            | Some _ \<Rightarrow> map (\<lambda>r. if row_key r = codex_key seg then codex_update_row (codex_insert_row env seg (as_id r)) r else r) (cd_sessions db)),
            cd_queue := (if codex_decide_enqueue (prior = None) content_hash (Option.bind prior as_last_enriched_content_hash)
                            (Option.bind prior (\<lambda>r. queue_status (as_id r) (cd_queue db)))
                         then enqueue (se_now_ms env) row_id (cd_queue db) else cd_queue db)\<rparr>)"

text \<open>
  \<open>upsert_segment_tx\<close>, whose statements fail with \<open>fault\<close>; the caller's transaction then rolls back.
\<close>

definition upsert_segment_tx :: "store_env \<Rightarrow> string option \<Rightarrow> claude_db \<Rightarrow> CodexSegment \<Rightarrow> string + claude_db" where
  "upsert_segment_tx env fault db seg = (case fault of Some e \<Rightarrow> Inl e | None \<Rightarrow> Inr (codex_upsert env db seg))"

fun upsert_all :: "store_env \<Rightarrow> CodexSegment list \<Rightarrow> string option list \<Rightarrow> claude_db \<Rightarrow> string + claude_db" where
  "upsert_all env [] faults db = Inr db"
| "upsert_all env (seg # segs) faults db = (case upsert_segment_tx env (case faults of [] \<Rightarrow> None | f # _ \<Rightarrow> f) db seg of
     Inl e \<Rightarrow> Inl e | Inr db' \<Rightarrow> upsert_all env segs (tl faults) db')"

text \<open>\<open>ingest_file\<close>: \<open>begin_fault\<close> and \<open>commit_fault\<close> are those of the transaction. An error leaves the database as it was.\<close>

record ingest_faults =
  if_begin :: "string option"
  if_steps :: "string option list"
  if_commit :: "string option"

definition codex_ingest_file ::
  "codex_env \<Rightarrow> store_env \<Rightarrow> path \<Rightarrow> json option list option \<Rightarrow> ingest_faults \<Rightarrow> claude_db \<Rightarrow> (string + nat \<times> string) \<times> claude_db" where
  "codex_ingest_file cenv env p file_lines fs db = (case codex_extract_segments cenv p file_lines of
     Inl e \<Rightarrow> (Inl e, db)
   | Inr [] \<Rightarrow> (Inr (0, []), db)
   | Inr (seg # segs) \<Rightarrow> (case if_begin fs of Some e \<Rightarrow> (Inl e, db)
       | None \<Rightarrow> (case upsert_all env (seg # segs) (if_steps fs) db of
           Inl e \<Rightarrow> (Inl e, db)
         | Inr db' \<Rightarrow> (case if_commit fs of Some e \<Rightarrow> (Inl e, db)
             | None \<Rightarrow> (Inr (Suc (length segs), cx_session_id seg), db')))))"

subsection \<open>Cursors and health\<close>

record CursorState =
  ck_last_seen_updated_at :: int
  ck_last_id :: string

record codex_db =
  xd_store :: claude_db
  xd_cursors :: "(string \<times> CursorState) list"

definition cursor_key :: "nat \<Rightarrow> string" where
  "cursor_key ino = ''codex-'' @ nat_str ino"

definition read_cursor :: "(string \<times> CursorState) list \<Rightarrow> string \<Rightarrow> CursorState" where
  "read_cursor cursors k = unwrap_or (map_of cursors k) \<lparr>ck_last_seen_updated_at = 0, ck_last_id = []\<rparr>"

definition write_cursor :: "string option \<Rightarrow> string \<Rightarrow> int \<Rightarrow> string \<Rightarrow> codex_db \<Rightarrow> codex_db" where
  "write_cursor fault k mtime_ms session_id db = (case fault of
     Some _ \<Rightarrow> db
   | None \<Rightarrow> db\<lparr>xd_cursors := al_put k \<lparr>ck_last_seen_updated_at = mtime_ms, ck_last_id = session_id\<rparr> (xd_cursors db)\<rparr>)"

definition map_codex_health :: "string option \<Rightarrow> (SourceHealthRow \<Rightarrow> SourceHealthRow) \<Rightarrow> claude_db \<Rightarrow> claude_db" where
  "map_codex_health fault f db = (case fault of Some _ \<Rightarrow> db
     | None \<Rightarrow> db\<lparr>cd_health := map_option (map (\<lambda>r. if sh_source r = ''agentic-session-codex'' then f r else r)) (cd_health db)\<rparr>)"

definition bump_health_ok :: "string option \<Rightarrow> int \<Rightarrow> int \<Rightarrow> claude_db \<Rightarrow> claude_db" where
  "bump_health_ok fault now last_event_ms = map_codex_health fault (\<lambda>r.
     r\<lparr>sh_last_event_ts := Some (max (unwrap_or (sh_last_event_ts r) 0) last_event_ms), sh_last_success_ts := Some now,
       sh_consecutive_failures := 0, sh_updated_at := now\<rparr>)"

definition record_error :: "string option \<Rightarrow> int \<Rightarrow> string \<Rightarrow> claude_db \<Rightarrow> claude_db" where
  "record_error fault now err = map_codex_health fault (\<lambda>r.
     r\<lparr>sh_last_error_ts := Some now, sh_last_error_msg := Some err, sh_consecutive_failures := sh_consecutive_failures r + 1,
       sh_updated_at := now\<rparr>)"

subsection \<open>One poll\<close>

text \<open>
  A file of the walk: its path, the inode and modification time of its metadata (\<open>None\<close> when unreadable), its lines
  and what fails while it is handled.
\<close>

record rollout =
  ro_path :: path
  ro_meta :: "(nat \<times> int option) option"
  ro_lines :: "json option list option"
  ro_faults :: ingest_faults
  ro_health_fault :: "string option"
  ro_cursor_fault :: "string option"

definition is_rollout :: "path \<Rightarrow> bool" where
  "is_rollout p \<longleftrightarrow> (case file_name p of None \<Rightarrow> False
     | Some n \<Rightarrow> starts_with n ''rollout-'' \<and> (case strip_suffix n ''.jsonl'' of None \<Rightarrow> False | Some stem \<Rightarrow> stem \<noteq> []))"

definition identity_drift :: "codex_env \<Rightarrow> path \<Rightarrow> CursorState \<Rightarrow> bool" where
  "identity_drift cenv p cursor \<longleftrightarrow> (case rollout_path_session_id cenv p of None \<Rightarrow> False
     | Some expected \<Rightarrow> ck_last_id cursor \<noteq> [] \<and> ck_last_id cursor \<noteq> expected)"

text \<open>The checks of the loop: the cursor key and modification time of a file that has to be ingested.\<close>

definition due :: "codex_env \<Rightarrow> int \<Rightarrow> int \<Rightarrow> codex_db \<Rightarrow> rollout \<Rightarrow> (string \<times> int) option" where
  "due cenv now_ms min_idle_ms db f =
     (if \<not> is_rollout (ro_path f) then None
      else case ro_meta f of
        Some (ino, Some mtime_ms) \<Rightarrow>
          (let cursor = read_cursor (xd_cursors db) (cursor_key ino) in
           if now_ms - mtime_ms < min_idle_ms then None
           else if mtime_ms \<le> ck_last_seen_updated_at cursor \<and> \<not> identity_drift cenv (ro_path f) cursor then None
           else Some (cursor_key ino, mtime_ms))
      | _ \<Rightarrow> None)"

definition poll_file :: "codex_env \<Rightarrow> store_env \<Rightarrow> int \<Rightarrow> int \<Rightarrow> codex_db \<times> nat \<Rightarrow> rollout \<Rightarrow> codex_db \<times> nat" where
  "poll_file cenv env now_ms min_idle_ms s f = (case s of (db, ingested) \<Rightarrow>
     (case due cenv now_ms min_idle_ms db f of
        None \<Rightarrow> (db, ingested)
      | Some (k, mtime_ms) \<Rightarrow>
          (case codex_ingest_file cenv env (ro_path f) (ro_lines f) (ro_faults f) (xd_store db) of
             (Inr (stored_n, session_id), st) \<Rightarrow>
               (write_cursor (ro_cursor_fault f) k mtime_ms session_id
                  (db\<lparr>xd_store := (if stored_n > 0 then bump_health_ok (ro_health_fault f) (se_now_ms env) mtime_ms st else st)\<rparr>),
                ingested + stored_n)
           | (Inl e, st) \<Rightarrow> (db\<lparr>xd_store := record_error (ro_health_fault f) (se_now_ms env) e st\<rparr>, ingested))))"

text \<open>\<open>roots\<close>: the files under each root that is a directory.\<close>

definition codex_poll_tick ::
  "bool \<Rightarrow> codex_env \<Rightarrow> store_env \<Rightarrow> int \<Rightarrow> int \<Rightarrow> string option \<Rightarrow> rollout list list \<Rightarrow> codex_db \<Rightarrow> (string + nat) \<times> codex_db" where
  "codex_poll_tick enabled cenv env now_ms min_idle_secs open_fault roots db =
     (if \<not> enabled then (Inr 0, db)
      else case open_fault of Some e \<Rightarrow> (Inl e, db)
      | None \<Rightarrow> (case foldl (poll_file cenv env now_ms (min_idle_secs * 1000)) (db, 0) (concat roots) of (db', n) \<Rightarrow> (Inr n, db')))"

subsection \<open>Coverage\<close>

record state_thread =
  th_id :: string
  th_rollout_path :: path

record CodexCoverageReport =
  cr_total_state_threads :: nat
  cr_covered_threads :: nat
  cr_zero_segment_threads :: "string list"
  cr_in_flight_threads :: "string list"
  cr_missing_rollout_threads :: "string list"
  cr_missing_hippo_threads :: "string list"
  cr_log_only_thread_count :: nat

text \<open>The metadata of a file now: \<open>None\<close> if it does not exist; its age is \<open>None\<close> when the modification time is unreadable.\<close>

record file_stat =
  fs_ino :: nat
  fs_mtime_ms :: "int option"

definition is_file_in_idle_window :: "int \<Rightarrow> file_stat option \<Rightarrow> int \<Rightarrow> bool" where
  "is_file_in_idle_window now_ms meta min_idle_secs = (case meta of None \<Rightarrow> False
     | Some m \<Rightarrow> (case fs_mtime_ms m of None \<Rightarrow> False | Some t \<Rightarrow> now_ms < t \<or> now_ms - t < min_idle_secs * 1000))"

definition processed_without_segments :: "(string \<times> CursorState) list \<Rightarrow> file_stat option \<Rightarrow> bool" where
  "processed_without_segments cursors meta = (case meta of None \<Rightarrow> False
     | Some m \<Rightarrow> (case fs_mtime_ms m of None \<Rightarrow> False
         | Some t \<Rightarrow> (let st = read_cursor cursors (cursor_key (fs_ino m)) in
             ck_last_seen_updated_at st \<ge> t \<and> ck_last_id st = [])))"

definition codex_session_ids :: "agentic_session list \<Rightarrow> string list" where
  "codex_session_ids rows = remdups (map as_session_id (filter (\<lambda>r. as_harness r = ''codex'' \<and> as_probe_tag r = None) rows))"

definition classify_thread ::
  "(path \<Rightarrow> file_stat option) \<Rightarrow> int \<Rightarrow> int \<Rightarrow> codex_db \<Rightarrow> CodexCoverageReport \<Rightarrow> state_thread \<Rightarrow> CodexCoverageReport" where
  "classify_thread stat now_ms min_idle_secs db r t =
     (let meta = stat (th_rollout_path t) in
      if th_id t \<in> set (codex_session_ids (cd_sessions (xd_store db))) then r\<lparr>cr_covered_threads := cr_covered_threads r + 1\<rparr>
      else if meta = None then r\<lparr>cr_missing_rollout_threads := cr_missing_rollout_threads r @ [th_id t]\<rparr>
      else if is_file_in_idle_window now_ms meta min_idle_secs then r\<lparr>cr_in_flight_threads := cr_in_flight_threads r @ [th_id t]\<rparr>
      else if processed_without_segments (xd_cursors db) meta
      then r\<lparr>cr_covered_threads := cr_covered_threads r + 1, cr_zero_segment_threads := cr_zero_segment_threads r @ [th_id t]\<rparr>
      else r\<lparr>cr_missing_hippo_threads := cr_missing_hippo_threads r @ [th_id t]\<rparr>)"

text \<open>\<open>log_ids\<close>: the distinct thread ids of the log database, if it exists.\<close>

definition check_codex_coverage ::
  "(path \<Rightarrow> file_stat option) \<Rightarrow> int \<Rightarrow> int \<Rightarrow> codex_db \<Rightarrow> state_thread list \<Rightarrow> string list \<Rightarrow> CodexCoverageReport" where
  "check_codex_coverage stat now_ms min_idle_secs db threads log_ids =
     (let r = foldl (classify_thread stat now_ms min_idle_secs db)
            \<lparr>cr_total_state_threads = length threads, cr_covered_threads = 0, cr_zero_segment_threads = [], cr_in_flight_threads = [],
             cr_missing_rollout_threads = [], cr_missing_hippo_threads = [], cr_log_only_thread_count = 0\<rparr> threads
      in r\<lparr>cr_zero_segment_threads := sort (cr_zero_segment_threads r), cr_in_flight_threads := sort (cr_in_flight_threads r),
           cr_missing_rollout_threads := sort (cr_missing_rollout_threads r), cr_missing_hippo_threads := sort (cr_missing_hippo_threads r),
           cr_log_only_thread_count := length (filter (\<lambda>i. i \<notin> set (map th_id threads)
              \<and> i \<notin> set (codex_session_ids (cd_sessions (xd_store db)))) (remdups log_ids))\<rparr>)"

end
