(* ===== verification/AgentStore.thy ===== *)
theory AgentStore
  imports CodexStore
begin

text \<open>
  What the importers of Codex, Pi and Cursor share: the upsert of a segment with its queue entry, the transaction around the
  segments of a transcript, and the poll over transcript files. The locales \<open>segment_rows\<close> and \<open>transcript_poller\<close> state what an
  importer has to provide; each importer interprets them.
\<close>

subsection \<open>An upsert of a row\<close>

definition put_row :: "string \<times> string \<times> int \<Rightarrow> agentic_session \<Rightarrow> (agentic_session \<Rightarrow> agentic_session) \<Rightarrow> agentic_session list \<Rightarrow> agentic_session list" where
  "put_row k new u rows = (case find_row k rows of None \<Rightarrow> rows @ [new]
     | Some _ \<Rightarrow> map (\<lambda>r. if row_key r = k then u r else r) rows)"

lemma find_put_row:
  assumes "row_key new = k" "\<And>r. row_key (u r) = row_key r"
  shows "find_row k' (put_row k new u rows) =
    (if k' = k then Some (case find_row k rows of None \<Rightarrow> new | Some r \<Rightarrow> u r) else find_row k' rows)"
proof (cases "find_row k rows")
  case None
  then show ?thesis using assms(1) by (auto simp: put_row_def find_row_def find_append split: option.split)
next
  case (Some r)
  have "find_row k' (put_row k new u rows) = map_option (\<lambda>r. if row_key r = k then u r else r) (find_row k' rows)"
    using Some find_map_key[of row_key "\<lambda>r. if row_key r = k then u r else r" k' rows] assms(2)
    by (simp add: put_row_def find_row_def)
  then show ?thesis using Some find_row_Some by (cases "find_row k' rows") auto
qed

lemma put_row_ids:
  assumes "as_id new = next_row_id rows" "\<And>r. as_id (u r) = as_id r"
  shows "map as_id (put_row k new u rows) = (if find_row k rows = None then map as_id rows @ [next_row_id rows] else map as_id rows)"
  using assms by (auto simp: put_row_def split: option.split)

lemma put_row_keys:
  assumes "row_key new = k" "\<And>r. row_key (u r) = row_key r"
  shows "map row_key (put_row k new u rows) = (if find_row k rows = None then map row_key rows @ [k] else map row_key rows)"
  using assms by (auto simp: put_row_def split: option.split)

lemma find_row_unique:
  assumes "distinct (map row_key rows)" "r \<in> set rows"
  shows "find_row (row_key r) rows = Some r"
proof (cases "find_row (row_key r) rows")
  case None
  then show ?thesis using assms(2) by (auto simp: find_row_None)
next
  case (Some q)
  then show ?thesis using find_row_Some[OF Some] assms by (auto simp: distinct_map inj_on_def)
qed

subsection \<open>One segment\<close>

text \<open>The statements of \<open>upsert_segment_tx\<close>: the prior row, the insert or update, and the queue entry.\<close>

definition agent_upsert ::
  "string \<times> string \<times> int \<Rightarrow> (int \<Rightarrow> agentic_session) \<Rightarrow> (agentic_session \<Rightarrow> agentic_session) \<Rightarrow> string \<Rightarrow> int \<Rightarrow> claude_db \<Rightarrow> claude_db" where
  "agent_upsert k new u content_hash now db =
     (let prior = find_row k (cd_sessions db);
          row_id = (case prior of None \<Rightarrow> next_row_id (cd_sessions db) | Some r \<Rightarrow> as_id r)
      in db\<lparr>cd_sessions := (case prior of
              None \<Rightarrow> cd_sessions db @ [new row_id]
            | Some _ \<Rightarrow> map (\<lambda>r. if row_key r = k then u r else r) (cd_sessions db)),
            cd_queue := (if codex_decide_enqueue (prior = None) content_hash (Option.bind prior as_last_enriched_content_hash)
                            (Option.bind prior (\<lambda>r. queue_status (as_id r) (cd_queue db)))
                         then enqueue now row_id (cd_queue db) else cd_queue db)\<rparr>)"

text \<open>The row is what the upsert writes, and its content is waiting, in work or enriched.\<close>

definition row_settled :: "string \<times> string \<times> int \<Rightarrow> (agentic_session \<Rightarrow> agentic_session) \<Rightarrow> claude_db \<Rightarrow> bool" where
  "row_settled k u db \<longleftrightarrow> (\<exists>r. find_row k (cd_sessions db) = Some r \<and> u r = r \<and> handled db r)"

locale segment_rows =
  fixes key :: "'seg \<Rightarrow> string \<times> string \<times> int" and new_row :: "'seg \<Rightarrow> int \<Rightarrow> agentic_session"
    and update :: "'seg \<Rightarrow> agentic_session \<Rightarrow> agentic_session" and content_hash :: "'seg \<Rightarrow> string" and now :: int
  assumes new_row: "row_key (new_row seg i) = key seg" "as_id (new_row seg i) = i" "as_content_hash (new_row seg i) = Some (content_hash seg)"
    and update_row: "row_key (update seg r) = row_key r" "as_id (update seg r) = as_id r"
      "as_last_enriched_content_hash (update seg r) = as_last_enriched_content_hash r" "as_content_hash (update seg r) = Some (content_hash seg)"
    and update_again: "update seg (update seg r) = update seg r" "update seg (new_row seg i) = new_row seg i"
begin

abbreviation upsert :: "claude_db \<Rightarrow> 'seg \<Rightarrow> claude_db" where
  "upsert db seg \<equiv> agent_upsert (key seg) (new_row seg) (update seg) (content_hash seg) now db"

abbreviation stored_id :: "'seg \<Rightarrow> claude_db \<Rightarrow> int" where
  "stored_id seg db \<equiv> (case find_row (key seg) (cd_sessions db) of None \<Rightarrow> next_row_id (cd_sessions db) | Some r \<Rightarrow> as_id r)"

abbreviation needs_queue :: "'seg \<Rightarrow> claude_db \<Rightarrow> bool" where
  "needs_queue seg db \<equiv> (case find_row (key seg) (cd_sessions db) of None \<Rightarrow> True
     | Some r \<Rightarrow> queue_status (as_id r) (cd_queue db) \<noteq> Some ''processing'' \<and> as_last_enriched_content_hash r \<noteq> Some (content_hash seg))"

lemma upsert_sessions: "cd_sessions (upsert db seg) = put_row (key seg) (new_row seg (next_row_id (cd_sessions db))) (update seg) (cd_sessions db)"
  by (simp add: agent_upsert_def put_row_def Let_def split: option.split)

lemma upsert_queue: "cd_queue (upsert db seg) = (if needs_queue seg db then enqueue now (stored_id seg db) (cd_queue db) else cd_queue db)"
  by (auto simp: agent_upsert_def codex_decide_enqueue_def Let_def split: option.split)

lemma upsert_frame: "cd_health (upsert db seg) = cd_health db" "cd_facts (upsert db seg) = cd_facts db"
  by (simp_all add: agent_upsert_def Let_def)

lemma find_upsert:
  "find_row k (cd_sessions (upsert db seg)) = (if k = key seg
     then Some (case find_row k (cd_sessions db) of None \<Rightarrow> new_row seg (next_row_id (cd_sessions db)) | Some r \<Rightarrow> update seg r)
     else find_row k (cd_sessions db))"
  unfolding upsert_sessions by (subst find_put_row) (auto simp: new_row update_row)

lemma upsert_inv:
  assumes "store_inv db"
  shows "store_inv (upsert db seg)"
proof -
  let ?db = "upsert db seg"
  have i: "map as_id (cd_sessions ?db) = (if find_row (key seg) (cd_sessions db) = None
      then map as_id (cd_sessions db) @ [next_row_id (cd_sessions db)] else map as_id (cd_sessions db))"
    unfolding upsert_sessions by (rule put_row_ids) (simp_all add: new_row update_row)
  have k: "map row_key (cd_sessions ?db) = (if find_row (key seg) (cd_sessions db) = None
      then map row_key (cd_sessions db) @ [key seg] else map row_key (cd_sessions db))"
    unfolding upsert_sessions by (rule put_row_keys) (simp_all add: new_row update_row)
  have d: "distinct (map as_id (cd_sessions ?db))" "distinct (map row_key (cd_sessions ?db))"
    unfolding i k using assms next_row_id_fresh[of "cd_sessions db"] find_row_None[of "key seg" "cd_sessions db"]
    by (simp_all add: store_inv_def)
  have r: "stored_id seg db \<in> set (map as_id (cd_sessions ?db))"
    unfolding i using find_row_Some by (fastforce split: option.split)
  have sub: "set (map as_id (cd_sessions db)) \<subseteq> set (map as_id (cd_sessions ?db))" unfolding i by auto
  have q: "set (map qr_session_id (cd_queue ?db)) \<subseteq> insert (stored_id seg db) (set (map qr_session_id (cd_queue db)))"
    "distinct (map qr_session_id (cd_queue ?db))"
    using assms enqueue_ids[where now = now and i = "stored_id seg db" and q = "cd_queue db"] unfolding upsert_queue store_inv_def
    by (auto simp del: set_map)
  show ?thesis
    using assms d q r sub unfolding store_inv_def by blast
qed

lemma upsert_settles:
  assumes "store_inv db"
  shows "row_settled (key seg) (update seg) (upsert db seg)"
proof (cases "find_row (key seg) (cd_sessions db)")
  case None
  let ?r = "new_row seg (next_row_id (cd_sessions db))"
  have "find_row (key seg) (cd_sessions (upsert db seg)) = Some ?r" using None by (simp add: find_upsert)
  moreover have "next_row_id (cd_sessions db) \<notin> set (map qr_session_id (cd_queue db))"
    using assms next_row_id_fresh[of "cd_sessions db"] unfolding store_inv_def by blast
  then have "find (\<lambda>e. qr_session_id e = next_row_id (cd_sessions db)) (cd_queue db) = None" by (force simp: find_None_iff)
  then have "queue_status (next_row_id (cd_sessions db)) (cd_queue db) = None" by (simp add: queue_status_def)
  then have "handled (upsert db seg) ?r"
    using None by (simp add: handled_def upsert_queue new_row queue_status_enqueue)
  ultimately show ?thesis unfolding row_settled_def using update_again(2) by blast
next
  case (Some r)
  let ?r = "update seg r"
  have "find_row (key seg) (cd_sessions (upsert db seg)) = Some ?r" using Some by (simp add: find_upsert)
  moreover have "handled (upsert db seg) ?r"
    using Some by (auto simp: handled_def upsert_queue update_row queue_status_enqueue)
  ultimately show ?thesis unfolding row_settled_def using update_again(1) by blast
qed

text \<open>The other rows and their queue entries, of whatever harness, stay.\<close>

lemma upsert_other:
  assumes "store_inv db" "find_row k (cd_sessions db) = Some r" "k \<noteq> key seg"
  shows "find_row k (cd_sessions (upsert db seg)) = Some r \<and> queue_status (as_id r) (cd_queue (upsert db seg)) = queue_status (as_id r) (cd_queue db)"
proof -
  have "as_id r \<noteq> stored_id seg db"
  proof (cases "find_row (key seg) (cd_sessions db)")
    case None
    have "as_id r \<in> set (map as_id (cd_sessions db))" using find_row_Some[OF assms(2)] by simp
    then show ?thesis using next_row_id_fresh[of "cd_sessions db"] None by (auto simp del: set_map)
  next
    case (Some q)
    then show ?thesis using row_ids_differ[OF assms(1,2) Some assms(3)] by simp
  qed
  then show ?thesis using assms(2,3) by (simp add: find_upsert upsert_queue queue_status_enqueue)
qed

lemma other_settled:
  assumes "store_inv db" "row_settled (key seg) (update seg) db" "key seg \<noteq> key other"
  shows "row_settled (key seg) (update seg) (upsert db other)"
  using upsert_other[OF assms(1) _ assms(3)] assms(2) unfolding row_settled_def handled_def by metis

lemma fold_other:
  assumes "store_inv db" "find_row k (cd_sessions db) = Some r" "\<And>seg. seg \<in> set segs \<Longrightarrow> k \<noteq> key seg"
  shows "find_row k (cd_sessions (foldl upsert db segs)) = Some r
    \<and> queue_status (as_id r) (cd_queue (foldl upsert db segs)) = queue_status (as_id r) (cd_queue db)"
  using assms
proof (induction segs arbitrary: db)
  case (Cons seg segs)
  then show ?case using Cons.IH[of "upsert db seg"] upsert_other[of db k r seg] upsert_inv[of db seg] by simp
qed simp

end

sublocale segment_rows \<subseteq> covering upsert store_inv "\<lambda>seg. row_settled (key seg) (update seg)" "\<lambda>a b. key a = key b"
  by unfold_locales (simp_all add: upsert_inv upsert_settles other_settled)

subsection \<open>One transcript\<close>

text \<open>The segments of a transcript in one transaction; an error leaves the database as it was.\<close>

fun upsert_each :: "(claude_db \<Rightarrow> 'seg \<Rightarrow> claude_db) \<Rightarrow> 'seg list \<Rightarrow> string option list \<Rightarrow> claude_db \<Rightarrow> string + claude_db" where
  "upsert_each step [] faults db = Inr db"
| "upsert_each step (seg # segs) faults db = (case faults of
     Some e # _ \<Rightarrow> Inl e
   | _ \<Rightarrow> upsert_each step segs (tl faults) (step db seg))"

definition ingest_transcript ::
  "(claude_db \<Rightarrow> 'seg \<Rightarrow> claude_db) \<Rightarrow> ('seg \<Rightarrow> string) \<Rightarrow> string + 'seg list \<Rightarrow> ingest_faults \<Rightarrow> claude_db \<Rightarrow> (string + nat \<times> string) \<times> claude_db" where
  "ingest_transcript step sid extracted fs db = (case extracted of
     Inl e \<Rightarrow> (Inl e, db)
   | Inr [] \<Rightarrow> (Inr (0, []), db)
   | Inr (seg # segs) \<Rightarrow> (case if_begin fs of Some e \<Rightarrow> (Inl e, db)
       | None \<Rightarrow> (case upsert_each step (seg # segs) (if_steps fs) db of
           Inl e \<Rightarrow> (Inl e, db)
         | Inr db' \<Rightarrow> (case if_commit fs of Some e \<Rightarrow> (Inl e, db)
             | None \<Rightarrow> (Inr (Suc (length segs), sid seg), db')))))"

subsection \<open>The poll\<close>

definition inode_key :: "string \<Rightarrow> nat \<Rightarrow> string" where
  "inode_key prefix ino = prefix @ nat_str ino"

definition map_source_health :: "string \<Rightarrow> string option \<Rightarrow> (SourceHealthRow \<Rightarrow> SourceHealthRow) \<Rightarrow> claude_db \<Rightarrow> claude_db" where
  "map_source_health source fault f db = (case fault of Some _ \<Rightarrow> db
     | None \<Rightarrow> db\<lparr>cd_health := map_option (map (\<lambda>r. if sh_source r = source then f r else r)) (cd_health db)\<rparr>)"

definition source_ok :: "string \<Rightarrow> string option \<Rightarrow> int \<Rightarrow> int \<Rightarrow> claude_db \<Rightarrow> claude_db" where
  "source_ok source fault now last_event_ms = map_source_health source fault (\<lambda>r.
     r\<lparr>sh_last_event_ts := Some (max (unwrap_or (sh_last_event_ts r) 0) last_event_ms), sh_last_success_ts := Some now,
       sh_consecutive_failures := 0, sh_updated_at := now\<rparr>)"

definition source_error :: "string \<Rightarrow> string option \<Rightarrow> int \<Rightarrow> string \<Rightarrow> claude_db \<Rightarrow> claude_db" where
  "source_error source fault now err = map_source_health source fault (\<lambda>r.
     r\<lparr>sh_last_error_ts := Some now, sh_last_error_msg := Some err, sh_consecutive_failures := sh_consecutive_failures r + 1,
       sh_updated_at := now\<rparr>)"

text \<open>A file that is a transcript, was idle long enough, and is newer than its cursor: its cursor key and modification time.\<close>

definition transcript_due :: "(path \<Rightarrow> bool) \<Rightarrow> string \<Rightarrow> int \<Rightarrow> int \<Rightarrow> codex_db \<Rightarrow> rollout \<Rightarrow> (string \<times> int) option" where
  "transcript_due is_transcript prefix now_ms min_idle_ms db f =
     (if \<not> is_transcript (ro_path f) then None
      else case ro_meta f of
        Some (ino, Some mtime_ms) \<Rightarrow>
          if now_ms - mtime_ms < min_idle_ms then None
          else if mtime_ms \<le> ck_last_seen_updated_at (read_cursor (xd_cursors db) (inode_key prefix ino)) then None
          else Some (inode_key prefix ino, mtime_ms)
      | _ \<Rightarrow> None)"

text \<open>The body of the loop for a file that is due, and the loop; \<open>ingest\<close> gets the file and its modification time.\<close>

definition poll_transcript ::
  "(codex_db \<Rightarrow> rollout \<Rightarrow> (string \<times> int) option) \<Rightarrow> (rollout \<Rightarrow> int \<Rightarrow> claude_db \<Rightarrow> (string + nat \<times> string) \<times> claude_db)
    \<Rightarrow> string \<Rightarrow> int \<Rightarrow> codex_db \<times> nat \<Rightarrow> rollout \<Rightarrow> codex_db \<times> nat" where
  "poll_transcript due_now ingest source now_ms s f = (case s of (db, ingested) \<Rightarrow>
     (case due_now db f of
        None \<Rightarrow> (db, ingested)
      | Some (k, mtime_ms) \<Rightarrow>
          (case ingest f mtime_ms (xd_store db) of
             (Inr (stored_n, session_id), st) \<Rightarrow>
               (write_cursor (ro_cursor_fault f) k mtime_ms session_id
                  (db\<lparr>xd_store := (if stored_n > 0 then source_ok source (ro_health_fault f) now_ms mtime_ms st else st)\<rparr>),
                ingested + stored_n)
           | (Inl e, st) \<Rightarrow> (db\<lparr>xd_store := source_error source (ro_health_fault f) now_ms e st\<rparr>, ingested))))"

definition poll_transcripts ::
  "bool \<Rightarrow> (codex_db \<Rightarrow> rollout \<Rightarrow> (string \<times> int) option) \<Rightarrow> (rollout \<Rightarrow> int \<Rightarrow> claude_db \<Rightarrow> (string + nat \<times> string) \<times> claude_db)
    \<Rightarrow> string \<Rightarrow> int \<Rightarrow> string option \<Rightarrow> rollout list list \<Rightarrow> codex_db \<Rightarrow> (string + nat) \<times> codex_db" where
  "poll_transcripts enabled due_now ingest source now_ms open_fault roots db =
     (if \<not> enabled then (Inr 0, db)
      else case open_fault of Some e \<Rightarrow> (Inl e, db)
      | None \<Rightarrow> (case foldl (poll_transcript due_now ingest source now_ms) (db, 0) (concat roots) of (db', n) \<Rightarrow> (Inr n, db')))"

subsection \<open>What an ingest and a poll guarantee\<close>

lemma health_same [simp]:
  "cd_sessions (map_source_health src q f db) = cd_sessions db" "cd_queue (map_source_health src q f db) = cd_queue db"
  by (simp_all add: map_source_health_def split: option.split)

lemma upsert_each_fold: "upsert_each step segs faults db = Inr db' \<Longrightarrow> db' = foldl step db segs"
  by (induction segs arbitrary: faults db) (auto split: list.splits option.splits)

lemma upsert_each_ok: "list_all (\<lambda>q. q = None) faults \<Longrightarrow> upsert_each step segs faults db = Inr (foldl step db segs)"
  by (induction segs arbitrary: faults db) (auto split: list.split)

lemma ingest_transcript_cases:
  assumes "ingest_transcript step sid extracted fs db = (r, db')"
  obtains (err) e where "r = Inl e" "db' = db"
    | (ok) segs where "extracted = Inr segs" "r = Inr (length segs, case segs of [] \<Rightarrow> [] | s # _ \<Rightarrow> sid s)" "db' = foldl step db segs"
proof -
  consider (a) e where "r = Inl e" "db' = db"
    | (b) segs where "extracted = Inr segs" "r = Inr (length segs, case segs of [] \<Rightarrow> [] | s # _ \<Rightarrow> sid s)" "db' = foldl step db segs"
    using assms unfolding ingest_transcript_def
    by (auto simp del: upsert_each.simps dest!: upsert_each_fold split: sum.splits list.splits option.splits)
  then show thesis using err ok by cases blast+
qed

text \<open>A transcript that is read and stored without a failing statement.\<close>

definition sound_file :: "rollout \<Rightarrow> bool" where
  "sound_file f \<longleftrightarrow> if_begin (ro_faults f) = None \<and> list_all (\<lambda>q. q = None) (if_steps (ro_faults f)) \<and> if_commit (ro_faults f) = None"

lemma ingest_transcript_ok:
  "sound_file f \<Longrightarrow> ingest_transcript step sid (Inr segs) (ro_faults f) db = (Inr (length segs, case segs of [] \<Rightarrow> [] | s # _ \<Rightarrow> sid s), foldl step db segs)"
  using upsert_each_ok[of "if_steps (ro_faults f)" step segs db]
  by (cases segs) (simp_all add: ingest_transcript_def sound_file_def del: upsert_each.simps)

lemma store_inv_cong: "cd_sessions a = cd_sessions b \<Longrightarrow> cd_queue a = cd_queue b \<Longrightarrow> store_inv a = store_inv b"
  by (simp add: store_inv_def)

lemma row_settled_cong: "cd_sessions a = cd_sessions b \<Longrightarrow> cd_queue a = cd_queue b \<Longrightarrow> row_settled k u a = row_settled k u b"
  by (simp add: row_settled_def handled_def)

lemma write_cursor_store [simp]: "xd_store (write_cursor q k m i db) = xd_store db"
  by (simp add: write_cursor_def split: option.split)

abbreviation file_ino :: "rollout \<Rightarrow> nat option" where
  "file_ino f \<equiv> map_option fst (ro_meta f)"

definition seen_at :: "string \<Rightarrow> codex_db \<Rightarrow> nat option \<Rightarrow> CursorState option" where
  "seen_at prefix db i = Option.bind i (\<lambda>ino. map_of (xd_cursors db) (inode_key prefix ino))"

lemma inode_key_inj [simp]: "inode_key prefix a = inode_key prefix b \<longleftrightarrow> a = b"
  using nat_str_inj by (auto simp: inode_key_def)

text \<open>
  A poller: how the segments of a file are extracted, and under which session and harness they are stored; the segments of a file
  are numbered in order.
\<close>

locale transcript_poller = segment_rows key new_row update content_hash now
  for key :: "'seg \<Rightarrow> string \<times> string \<times> int" and new_row :: "'seg \<Rightarrow> int \<Rightarrow> agentic_session"
    and update :: "'seg \<Rightarrow> agentic_session \<Rightarrow> agentic_session" and content_hash :: "'seg \<Rightarrow> string" and now :: int +
  fixes read_segments :: "rollout \<Rightarrow> int \<Rightarrow> string + 'seg list" and session :: "rollout \<Rightarrow> string" and harness :: string and sid :: "'seg \<Rightarrow> string"
    and is_transcript :: "path \<Rightarrow> bool" and prefix :: string and source :: string
  assumes numbered: "read_segments f t = Inr segs \<Longrightarrow> map key segs = map (\<lambda>i. (session f, harness, int i)) [0..<length segs]"
begin

abbreviation ingest :: "rollout \<Rightarrow> int \<Rightarrow> claude_db \<Rightarrow> (string + nat \<times> string) \<times> claude_db" where
  "ingest f t \<equiv> ingest_transcript upsert sid (read_segments f t) (ro_faults f)"

abbreviation due_at :: "int \<Rightarrow> codex_db \<Rightarrow> rollout \<Rightarrow> (string \<times> int) option" where
  "due_at idle \<equiv> transcript_due is_transcript prefix now idle"

abbreviation poll_one :: "int \<Rightarrow> codex_db \<times> nat \<Rightarrow> rollout \<Rightarrow> codex_db \<times> nat" where
  "poll_one idle \<equiv> poll_transcript (due_at idle) ingest source now"

lemma keyed: "read_segments f t = Inr segs \<Longrightarrow> seg \<in> set segs \<Longrightarrow> \<exists>i. key seg = (session f, harness, i)"
  using numbered by (metis (no_types, lifting) image_iff list.set_map)

lemma keys_differ:
  assumes "read_segments f t = Inr segs"
  shows "sorted_wrt (\<lambda>a b. \<not> key a = key b) segs"
proof -
  have "distinct (map key segs)" unfolding numbered[OF assms] by (simp add: distinct_map inj_on_def)
  then show ?thesis by (simp add: distinct_map sorted_wrt_iff_nth_less distinct_conv_nth inj_on_def)
qed

lemma ingest_settles: "read_segments f t = Inr segs \<Longrightarrow> store_inv db \<Longrightarrow> seg \<in> set segs \<Longrightarrow> row_settled (key seg) (update seg) (foldl upsert db segs)"
  using run_settled[OF _ keys_differ] by blast

lemma poll_one_store:
  obtains segs where "cd_sessions (xd_store (fst (poll_one idle s g))) = cd_sessions (foldl upsert (xd_store (fst s)) segs)"
    "cd_queue (xd_store (fst (poll_one idle s g))) = cd_queue (foldl upsert (xd_store (fst s)) segs)"
    "segs = [] \<or> (\<exists>t. read_segments g t = Inr segs)"
proof (cases "due_at idle (fst s) g")
  case None
  then show thesis using that[of "[]"] by (cases s) (simp add: poll_transcript_def)
next
  case (Some kt)
  obtain k t where kt: "kt = (k, t)" by fastforce
  obtain r st where i: "ingest g t (xd_store (fst s)) = (r, st)" by fastforce
  from i show thesis
  proof (cases rule: ingest_transcript_cases)
    case (err e)
    then show thesis using that[of "[]"] i Some kt by (cases s) (simp add: poll_transcript_def source_error_def)
  next
    case (ok segs)
    then show thesis using that[of segs] i Some kt by (cases s; cases "segs = []") (auto simp: poll_transcript_def source_ok_def)
  qed
qed

lemma poll_one_inv: "store_inv (xd_store (fst s)) \<Longrightarrow> store_inv (xd_store (fst (poll_one idle s g)))"
proof (rule poll_one_store[of idle s g])
  fix segs
  assume "store_inv (xd_store (fst s))"
    and eq: "cd_sessions (xd_store (fst (poll_one idle s g))) = cd_sessions (foldl upsert (xd_store (fst s)) segs)"
      "cd_queue (xd_store (fst (poll_one idle s g))) = cd_queue (foldl upsert (xd_store (fst s)) segs)"
  then show ?thesis using run_inv[of "xd_store (fst s)" segs] store_inv_cong[OF eq] by blast
qed

lemma poll_one_keeps:
  assumes "store_inv (xd_store (fst s))" "row_settled (key seg) (update seg) (xd_store (fst s))" "fst (key seg) \<noteq> session g"
  shows "row_settled (key seg) (update seg) (xd_store (fst (poll_one idle s g)))"
proof (rule poll_one_store[of idle s g])
  fix segs
  assume eq: "cd_sessions (xd_store (fst (poll_one idle s g))) = cd_sessions (foldl upsert (xd_store (fst s)) segs)"
    "cd_queue (xd_store (fst (poll_one idle s g))) = cd_queue (foldl upsert (xd_store (fst s)) segs)"
    and e: "segs = [] \<or> (\<exists>t. read_segments g t = Inr segs)"
  have "key seg \<noteq> key other" if "other \<in> set segs" for other using e keyed[OF _ that] assms(3) that by fastforce
  then show ?thesis using run_keeps[OF assms(1,2)] row_settled_cong[OF eq] by blast
qed

lemma run_row_kept:
  "store_inv (xd_store (fst s)) \<Longrightarrow> row_settled (key seg) (update seg) (xd_store (fst s)) \<Longrightarrow> (\<And>g. g \<in> set gs \<Longrightarrow> fst (key seg) \<noteq> session g)
    \<Longrightarrow> row_settled (key seg) (update seg) (xd_store (fst (foldl (poll_one idle) s gs)))"
  by (induction gs arbitrary: s) (simp_all add: poll_one_inv poll_one_keeps)

lemma poll_run_inv: "store_inv (xd_store (fst s)) \<Longrightarrow> store_inv (xd_store (fst (foldl (poll_one idle) s gs)))"
  by (induction gs arbitrary: s) (simp_all add: poll_one_inv)

lemma poll_one_cursor:
  assumes "file_ino g \<noteq> i"
  shows "seen_at prefix (fst (poll_one idle s g)) i = seen_at prefix (fst s) i"
proof (cases "due_at idle (fst s) g")
  case None
  then show ?thesis by (cases s) (simp add: poll_transcript_def)
next
  case (Some kt)
  obtain k t where kt: "kt = (k, t)" by fastforce
  obtain ino where ino: "ro_meta g = Some (ino, Some t)" "k = inode_key prefix ino"
    using Some kt by (auto simp: transcript_due_def split: if_splits option.splits)
  obtain r st where i: "ingest g t (xd_store (fst s)) = (r, st)" by fastforce
  have w: "seen_at prefix (write_cursor q k t n d) i = seen_at prefix d i" for q n d
    using assms ino by (cases i) (auto simp: seen_at_def write_cursor_def split: option.split)
  have x: "seen_at prefix (d\<lparr>xd_store := y\<rparr>) i = seen_at prefix d i" for d y by (simp add: seen_at_def)
  show ?thesis using Some kt i w x by (cases s; cases r) (auto simp: poll_transcript_def)
qed

lemma run_cursor_same: "(\<And>g. g \<in> set gs \<Longrightarrow> file_ino g \<noteq> i) \<Longrightarrow> seen_at prefix (fst (foldl (poll_one idle) s gs)) i = seen_at prefix (fst s) i"
  by (induction gs arbitrary: s) (simp_all add: poll_one_cursor)

lemma due_same: "seen_at prefix a (file_ino f) = seen_at prefix b (file_ino f) \<Longrightarrow> due_at idle a f = due_at idle b f"
proof (cases "ro_meta f")
  case (Some m)
  then show "seen_at prefix a (file_ino f) = seen_at prefix b (file_ino f) \<Longrightarrow> ?thesis"
    by (cases m; cases "snd m") (simp_all add: transcript_due_def seen_at_def read_cursor_def)
qed (simp add: transcript_due_def)

lemma poll_one_ok:
  assumes "due_at idle db f = Some (k, t)" "sound_file f" "read_segments f t = Inr segs"
  shows "\<exists>st. poll_one idle (db, n) f =
      (write_cursor (ro_cursor_fault f) k t (case segs of [] \<Rightarrow> [] | s # _ \<Rightarrow> sid s) (db\<lparr>xd_store := st\<rparr>), n + length segs)
    \<and> cd_sessions st = cd_sessions (foldl upsert (xd_store db) segs) \<and> cd_queue st = cd_queue (foldl upsert (xd_store db) segs)"
  using assms(1,3) ingest_transcript_ok[OF assms(2), of upsert sid segs "xd_store db"]
  by (intro exI[of _ "if segs \<noteq> [] then source_ok source (ro_health_fault f) now t (foldl upsert (xd_store db) segs) else foldl upsert (xd_store db) segs"])
     (simp add: poll_transcript_def source_ok_def)

lemma tick_covers:
  assumes "store_inv (xd_store db)" "concat roots = pre @ f # post" "due_at idle db f = Some (k, t)"
    and "sound_file f" "ro_cursor_fault f = None" "read_segments f t = Inr segs"
    and "list_all (\<lambda>g. file_ino g \<noteq> file_ino f) (pre @ post)" "list_all (\<lambda>g. session g \<noteq> session f) post"
  shows "\<exists>n db'. poll_transcripts True (due_at idle) ingest source now None roots db = (Inr n, db')
    \<and> list_all (\<lambda>seg. row_settled (key seg) (update seg) (xd_store db')) segs
    \<and> ck_last_seen_updated_at (read_cursor (xd_cursors db') k) = t"
proof -
  define s1 where "s1 = foldl (poll_one idle) (db, 0) pre"
  define s2 where "s2 = poll_one idle s1 f"
  define s3 where "s3 = foldl (poll_one idle) s2 post"
  have tick: "poll_transcripts True (due_at idle) ingest source now None roots db = (Inr (snd s3), fst s3)"
    by (simp add: poll_transcripts_def assms(2) s1_def s2_def s3_def split: prod.split)
  have i1: "store_inv (xd_store (fst s1))" unfolding s1_def using assms(1) by (intro poll_run_inv) simp
  have "seen_at prefix (fst s1) (file_ino f) = seen_at prefix db (file_ino f)"
    using assms(7) run_cursor_same[of pre "file_ino f" idle "(db, 0)"] by (simp add: s1_def list_all_iff)
  then have d: "due_at idle (fst s1) f = Some (k, t)" using assms(3) due_same by metis
  obtain st where st: "s2 = (write_cursor None k t (case segs of [] \<Rightarrow> [] | s # _ \<Rightarrow> sid s) ((fst s1)\<lparr>xd_store := st\<rparr>), snd s1 + length segs)"
      "cd_sessions st = cd_sessions (foldl upsert (xd_store (fst s1)) segs)" "cd_queue st = cd_queue (foldl upsert (xd_store (fst s1)) segs)"
    using poll_one_ok[OF d assms(4,6), of "snd s1"] assms(5) by (auto simp: s2_def)
  have "row_settled (key seg) (update seg) (xd_store (fst s3))" if seg: "seg \<in> set segs" for seg
    unfolding s3_def
  proof (rule run_row_kept)
    show "store_inv (xd_store (fst s2))" unfolding s2_def by (rule poll_one_inv[OF i1])
    show "row_settled (key seg) (update seg) (xd_store (fst s2))"
      using ingest_settles[OF assms(6) i1 seg] row_settled_cong[OF st(2,3)] by (simp add: st(1))
    show "fst (key seg) \<noteq> session g" if "g \<in> set post" for g
      using assms(8) keyed[OF assms(6) seg] that by (auto simp: list_all_iff)
  qed
  moreover have "ck_last_seen_updated_at (read_cursor (xd_cursors (fst s3)) k) = t"
  proof -
    obtain ino where ino: "ro_meta f = Some (ino, Some t)" "k = inode_key prefix ino"
      using assms(3) by (auto simp: transcript_due_def split: if_splits option.splits)
    have "seen_at prefix (fst s3) (Some ino) = seen_at prefix (fst s2) (Some ino)"
      unfolding s3_def using assms(7) ino(1) by (intro run_cursor_same) (auto simp: list_all_iff)
    then show ?thesis using ino(2) by (simp add: seen_at_def read_cursor_def st(1) write_cursor_def)
  qed
  ultimately show ?thesis by (simp add: tick list_all_iff)
qed

end

end
