(* ===== verification/CodexSegments.thy ===== *)
theory CodexSegments
  imports CodexSession
begin

text \<open>Properties of the Codex extraction: every segment is well formed, and its tokens are part of the reported total.\<close>

subsection \<open>The shape of a segment\<close>

definition cx_wf :: "codex_env \<Rightarrow> RolloutIdentity \<Rightarrow> path \<Rightarrow> nat \<Rightarrow> CodexSegment \<Rightarrow> bool" where
  "cx_wf env identity p i seg \<longleftrightarrow> cx_segment_index seg = int i \<and> cx_session_id seg = ri_session_id identity
     \<and> cx_parent_session_id seg = ri_parent_session_id identity \<and> cx_is_subagent seg = ri_is_subagent identity
     \<and> cx_source_file seg = p \<and> cx_start_time seg \<le> cx_end_time seg
     \<and> set (cx_user_prompts seg) \<union> set (cx_assistant_texts seg) \<union> tc_summary ` set (cx_tool_calls seg)
         \<subseteq> range (xe_redact (ce_extract env))"

definition cx_state_wf :: "codex_env \<Rightarrow> RolloutIdentity \<Rightarrow> path \<Rightarrow> codex_state \<Rightarrow> bool" where
  "cx_state_wf env identity p x \<longleftrightarrow>
     (\<forall>i < length (cs_segments x). cx_wf env identity p i (cs_segments x ! i) \<and> codex_has_content (cs_segments x ! i))
     \<and> (case cs_current x of None \<Rightarrow> True | Some c \<Rightarrow> cx_wf env identity p (length (cs_segments x)) c)"

lemma cx_wf_edit [simp]:
  "cx_wf env identity p i (seg\<lparr>cx_cwd := c\<rparr>) = cx_wf env identity p i seg"
  "cx_wf env identity p i (seg\<lparr>cx_usage := u\<rparr>) = cx_wf env identity p i seg"
  "cx_wf env identity p i (seg\<lparr>cx_message_count := n\<rparr>) = cx_wf env identity p i seg"
  by (simp_all add: cx_wf_def)

lemma cx_wf_grow:
  assumes "cx_wf env identity p i seg"
  shows "cx_wf env identity p i (seg\<lparr>cx_end_time := max (cx_end_time seg) t\<rparr>)"
    "cx_wf env identity p i (seg\<lparr>cx_user_prompts := cx_user_prompts seg @ [xe_redact (ce_extract env) s]\<rparr>)"
    "cx_wf env identity p i (seg\<lparr>cx_assistant_texts := cx_assistant_texts seg @ [xe_redact (ce_extract env) s]\<rparr>)"
    "cx_wf env identity p i (seg\<lparr>cx_tool_calls := cx_tool_calls seg @ [\<lparr>tc_name = n, tc_summary = xe_redact (ce_extract env) s\<rparr>]\<rparr>)"
  using assms by (auto simp: cx_wf_def)

lemma cx_wf_open: "cx_wf env identity p (length (cs_segments x)) (open_segment identity p ts x)"
  by (simp add: cx_wf_def open_segment_def Let_def)

lemma cx_state_close:
  assumes "cx_state_wf env identity p x"
  shows "cx_state_wf env identity p (close_at_boundary ts x)"
  using assms unfolding cx_state_wf_def close_at_boundary_def
  by (auto split: option.splits simp: nth_append less_Suc_eq)

lemma cx_state_prompt:
  assumes "cx_state_wf env identity p x"
  shows "cx_state_wf env identity p (take_prompt env identity p ts raw x)"
proof -
  let ?y = "close_at_boundary ts x"
  have y: "cx_state_wf env identity p ?y" using assms by (rule cx_state_close)
  define seg0 where "seg0 = (case cs_current ?y of
      Some seg \<Rightarrow> seg\<lparr>cx_usage := observe_context (cs_pending_model ?y) (cs_pending_effort ?y) (cx_usage seg)\<rparr>
    | None \<Rightarrow> open_segment identity p ts ?y)"
  have w: "cx_wf env identity p (length (cs_segments ?y)) seg0"
    using y cx_wf_open unfolding seg0_def cx_state_wf_def by (auto split: option.splits)
  define seg1 where "seg1 = seg0\<lparr>cx_end_time := (if ts > 0 then max (cx_end_time seg0) ts else cx_end_time seg0),
      cx_message_count := cx_message_count seg0 + 1\<rparr>"
  have "cx_wf env identity p (length (cs_segments ?y)) seg1"
    using cx_wf_grow(1)[OF w] w by (simp add: seg1_def)
  then show ?thesis
    using y cx_wf_grow(2) unfolding cx_state_wf_def take_prompt_def Let_def seg0_def[symmetric] seg1_def[symmetric] by auto
qed

lemma cx_state_tokens:
  "cx_state_wf env identity p x \<Longrightarrow> cx_state_wf env identity p (count_tokens k t payload x)"
  by (auto simp: cx_state_wf_def count_tokens_def Let_def split: option.splits)

lemma cx_state_item:
  assumes "cx_state_wf env identity p x"
  shows "cx_state_wf env identity p (take_item env k t role payload ts x)"
proof (cases "cs_current x")
  case (Some seg0)
  define seg where "seg = seg0\<lparr>cx_end_time := (if ts > 0 then max (cx_end_time seg0) ts else cx_end_time seg0),
      cx_message_count := cx_message_count seg0 + 1\<rparr>"
  have w: "cx_wf env identity p (length (cs_segments x)) seg0" using assms Some by (simp add: cx_state_wf_def)
  have "cx_wf env identity p (length (cs_segments x)) seg"
    using cx_wf_grow(1)[OF w] w by (simp add: seg_def)
  then show ?thesis
    using assms cx_wf_grow(3,4) Some unfolding cx_state_wf_def take_item_def
    by (simp add: Let_def seg_def[symmetric])
qed (use assms in \<open>simp add: take_item_def\<close>)

lemma cx_state_context: "cx_state_wf env identity p x \<Longrightarrow> cx_state_wf env identity p (take_context payload x)"
  unfolding cx_state_wf_def take_context_def Let_def by (auto split: option.splits)

interpretation cx_type: invariant_run "codex_step env identity p" "cx_state_wf env identity p" for env identity p
proof unfold_locales
  fix x obj assume w: "cx_state_wf env identity p x"
  have "cx_state_wf env identity p (x\<lparr>cs_cwd := c\<rparr>)" for c using w by (cases "cs_current x") (simp_all add: cx_state_wf_def)
  then show "cx_state_wf env identity p (codex_step env identity p x obj)"
    unfolding codex_step_def Let_def
    by (simp add: w cx_state_prompt cx_state_item cx_state_tokens cx_state_context split: option.split json.split)
qed

lemma cx_state_init: "cx_state_wf env identity p codex_init"
  by (simp add: cx_state_wf_def codex_init_def)

lemma cx_state_finish:
  assumes "cx_state_wf env identity p x" "i < length (codex_finish x)"
  shows "cx_wf env identity p i (codex_finish x ! i) \<and> codex_has_content (codex_finish x ! i)"
  using assms unfolding cx_state_wf_def codex_finish_def
  by (auto split: option.splits if_splits simp: nth_append less_Suc_eq codex_has_content_def)

text \<open>
  Every segment extracted from a rollout is well formed. The segments are numbered 0, 1, 2 in order,
  belong to the session, parent and file of the rollout, end no earlier than they start, are not empty, and hold only
  prompts, answers and tool summaries that went through the redaction engine.
\<close>

theorem codex_segments_wf:
  assumes "codex_extract_segments env p (Some ls) = Inr segs" "i < length segs"
  shows "cx_wf env (rollout_identity env p (List.map_filter (\<lambda>l. l) ls)) p i (segs ! i) \<and> codex_has_content (segs ! i)"
proof -
  let ?es = "List.map_filter (\<lambda>l. l) ls"
  have "segs = codex_finish (foldl (codex_step env (rollout_identity env p ?es) p) codex_init ?es)"
    using assms(1) by (simp add: codex_extract_segments_def Let_def)
  then show ?thesis
    using assms(2) cx_state_finish[OF cx_type.run_inv[OF cx_state_init]] by simp
qed

subsection \<open>Tokens\<close>

definition usage_le :: "UsageTotals \<Rightarrow> UsageTotals \<Rightarrow> bool" where
  "usage_le a b \<longleftrightarrow> ut_input_tokens a \<le> ut_input_tokens b \<and> ut_output_tokens a \<le> ut_output_tokens b
     \<and> ut_cache_read_tokens a \<le> ut_cache_read_tokens b \<and> ut_cache_creation_tokens a \<le> ut_cache_creation_tokens b"

lemma usage_le_refl [simp]: "usage_le a a" by (simp add: usage_le_def)
lemma usage_le_trans [trans]: "usage_le a b \<Longrightarrow> usage_le b c \<Longrightarrow> usage_le a c" by (auto simp: usage_le_def)
lemma usage_le_grow: "usage_le s a \<Longrightarrow> usage_le a b \<Longrightarrow> usage_le (usage_add s (usage_growth b a)) b"
  by (simp add: usage_le_def usage_add_def usage_growth_def)
lemma usage_le_drop: "usage_le no_usage b \<Longrightarrow> usage_le (usage_add a b) c \<Longrightarrow> usage_le a c"
  by (simp add: usage_le_def usage_add_def no_usage_def)
lemma usage_growth_nonneg: "usage_le no_usage a \<Longrightarrow> usage_le no_usage (usage_add a (usage_growth b c))"
  by (simp add: usage_le_def usage_add_def usage_growth_def no_usage_def)

text \<open>The cumulative totals a rollout reports, in order.\<close>

definition reported_total :: "json \<Rightarrow> UsageTotals option" where
  "reported_total obj = (case j_get obj ''payload'' of
     Some (JObj ms) \<Rightarrow>
       if str_or obj ''type'' [] = ''event_msg'' \<and> str_or (JObj ms) ''role'' [] \<noteq> ''developer''
          \<and> str_or (JObj ms) ''type'' [] = ''token_count''
       then map_option codex_usage_totals (Option.bind (j_get (JObj ms) ''info'') (\<lambda>i. j_get i ''total_token_usage''))
       else None
   | _ \<Rightarrow> None)"

abbreviation cx_totals :: "CodexSegment \<Rightarrow> UsageTotals" where
  "cx_totals seg \<equiv> usage_totals (cx_usage seg)"

definition open_totals :: "codex_state \<Rightarrow> UsageTotals list" where
  "open_totals x = (case cs_current x of None \<Rightarrow> [] | Some c \<Rightarrow> [cx_totals c])"

definition cx_held :: "codex_state \<Rightarrow> UsageTotals list" where
  "cx_held x = map cx_totals (cs_segments x) @ open_totals x"

lemma totals_context [simp]: "usage_totals (observe_context m e u) = usage_totals u"
  by (auto simp: observe_context_def observe_model_def observe_effort_def usage_totals_def Let_def split: option.split)

lemma totals_new [simp]: "usage_totals new_usage = no_usage"
  by (simp add: usage_totals_def new_usage_def)

lemma totals_add [simp]: "usage_totals (add_usage v u) = usage_add (usage_totals u) v"
  by (simp add: usage_totals_sum add_usage_def) (metis usage_ac)

lemma cx_held_item [simp]: "cx_held (take_item env k t role payload ts x) = cx_held x"
  "cs_prev_total (take_item env k t role payload ts x) = cs_prev_total x"
  by (auto simp: cx_held_def open_totals_def take_item_def Let_def split: option.split)

lemma cx_held_context [simp]: "cx_held (take_context payload x) = cx_held x" "cs_prev_total (take_context payload x) = cs_prev_total x"
  by (auto simp: cx_held_def open_totals_def take_context_def Let_def split: option.split)

lemma cx_held_prompt:
  obtains ys where "cx_held (take_prompt env identity p ts raw x) = cx_held (close_at_boundary ts x) @ ys" "ys = [] \<or> ys = [no_usage]"
proof -
  have "\<exists>ys. cx_held (take_prompt env identity p ts raw x) = cx_held (close_at_boundary ts x) @ ys \<and> (ys = [] \<or> ys = [no_usage])"
    by (cases "cs_current (close_at_boundary ts x)")
       (auto simp: cx_held_def open_totals_def take_prompt_def open_segment_def Let_def)
  then show thesis using that by blast
qed

lemma cx_held_close: "cx_held (close_at_boundary ts x) = cx_held x \<or> cx_held (close_at_boundary ts x) = map cx_totals (cs_segments x)"
  by (auto simp: cx_held_def open_totals_def close_at_boundary_def split: option.split)

lemma cx_held_segments: "set (map cx_totals (cs_segments x)) \<subseteq> set (cx_held x)"
  unfolding cx_held_def by simp

text \<open>No segment holds a negative count and together they hold no more than the last total.\<close>

definition tokens_inv :: "codex_state \<Rightarrow> bool" where
  "tokens_inv x \<longleftrightarrow> (\<forall>u \<in> set (cx_held x). usage_le no_usage u) \<and> usage_le (usage_sum (cx_held x)) (cs_prev_total x)"

lemma tokens_closed:
  assumes "tokens_inv x"
  shows "usage_le (usage_sum (map cx_totals (cs_segments x))) (cs_prev_total x)"
  using assms usage_le_drop unfolding tokens_inv_def cx_held_def open_totals_def
  by (auto split: option.splits)

lemma tokens_prompt:
  assumes "tokens_inv x"
  shows "tokens_inv (take_prompt env identity p ts raw x)"
proof -
  obtain ys where ys: "cx_held (take_prompt env identity p ts raw x) = cx_held (close_at_boundary ts x) @ ys" "ys = [] \<or> ys = [no_usage]"
    by (rule cx_held_prompt)
  have p: "cs_prev_total (take_prompt env identity p ts raw x) = cs_prev_total x"
    by (simp add: take_prompt_def close_at_boundary_def Let_def)
  have "set (cx_held (close_at_boundary ts x)) \<subseteq> set (cx_held x)"
    using cx_held_close[of ts x] cx_held_segments[of x] by (metis order_refl)
  moreover have "usage_le (usage_sum (cx_held (close_at_boundary ts x))) (cs_prev_total x)"
    using cx_held_close[of ts x] assms tokens_closed[OF assms] by (auto simp: tokens_inv_def)
  ultimately show ?thesis using ys assms p unfolding tokens_inv_def by auto
qed

lemma tokens_count:
  assumes "tokens_inv x" "usage_le (cs_prev_total x) u"
    "Option.bind (j_get payload ''info'') (\<lambda>i. j_get i ''total_token_usage'') = Some raw" "codex_usage_totals raw = u"
  shows "tokens_inv (count_tokens ''event_msg'' ''token_count'' payload x)"
    and "cs_prev_total (count_tokens ''event_msg'' ''token_count'' payload x) = u"
proof -
  show "cs_prev_total (count_tokens ''event_msg'' ''token_count'' payload x) = u"
    using assms(3,4) by (simp add: count_tokens_def Let_def)
  show "tokens_inv (count_tokens ''event_msg'' ''token_count'' payload x)"
  proof (cases "cs_current x")
    case None
    then show ?thesis using assms usage_le_trans by (auto simp: count_tokens_def Let_def tokens_inv_def cx_held_def open_totals_def)
  next
    case (Some c)
    let ?s = "usage_sum (map cx_totals (cs_segments x))"
    have "usage_le (usage_add (usage_add ?s (cx_totals c)) (usage_growth u (cs_prev_total x))) u"
      using assms(1,2) Some by (intro usage_le_grow) (simp_all add: tokens_inv_def cx_held_def open_totals_def)
    then show ?thesis
      using assms Some usage_growth_nonneg
      by (auto simp: count_tokens_def Let_def tokens_inv_def cx_held_def open_totals_def usage_add_assoc)
  qed
qed

lemma tokens_step:
  assumes "tokens_inv x" "\<And>u. reported_total obj = Some u \<Longrightarrow> usage_le (cs_prev_total x) u"
  shows "tokens_inv (codex_step env identity p x obj)
    \<and> cs_prev_total (codex_step env identity p x obj) = unwrap_or (reported_total obj) (cs_prev_total x)"
proof (cases "reported_total obj")
  case (Some u)
  obtain ms raw where m: "j_get obj ''payload'' = Some (JObj ms)" "str_or obj ''type'' [] = ''event_msg''"
    "str_or (JObj ms) ''role'' [] \<noteq> ''developer''" "str_or (JObj ms) ''type'' [] = ''token_count''"
    "Option.bind (j_get (JObj ms) ''info'') (\<lambda>i. j_get i ''total_token_usage'') = Some raw" "codex_usage_totals raw = u"
    using Some by (auto simp: reported_total_def split: option.splits json.splits if_splits)
  have "codex_step env identity p x obj = take_item env ''event_msg'' ''token_count'' (str_or (JObj ms) ''role'' []) (JObj ms)
      (codex_parse_ts env (str_or obj ''timestamp'' [])) (count_tokens ''event_msg'' ''token_count'' (JObj ms) x)"
    using m by (simp add: codex_step_def prompt_text_def Let_def)
  moreover note tokens_count[OF assms(1) assms(2)[OF Some] m(5,6)]
  ultimately show ?thesis using Some by (simp add: tokens_inv_def)
next
  case None
  have id: "count_tokens k t payload x = x"
    if "j_get obj ''payload'' = Some payload" "payload = JObj ms" "str_or obj ''type'' [] = k" "str_or payload ''type'' [] = t"
      "str_or payload ''role'' [] \<noteq> ''developer''" for k t payload ms
    using None that by (auto simp: reported_total_def count_tokens_def split: option.splits if_splits)
  have c: "tokens_inv (x\<lparr>cs_cwd := cwd\<rparr>)" for cwd
    using assms(1) by (simp add: tokens_inv_def cx_held_def open_totals_def cong: option.case_cong)
  have p: "cs_prev_total (take_prompt env identity p ts raw x) = cs_prev_total x" for ts raw
    by (simp add: take_prompt_def close_at_boundary_def Let_def)
  have i: "tokens_inv (take_item env k t role payload ts x)" "tokens_inv (take_context payload x)" for k t role payload ts
    using assms(1) by (simp_all add: tokens_inv_def)
  show ?thesis
    using None unfolding codex_step_def Let_def
    by (simp add: assms(1) c p i id tokens_prompt split: option.split json.split)
qed

lemma tokens_init: "tokens_inv codex_init" "cs_prev_total codex_init = no_usage"
  by (simp_all add: codex_init_def tokens_inv_def cx_held_def open_totals_def)

lemma reported_nonneg: "reported_total obj = Some u \<Longrightarrow> usage_le no_usage u"
proof -
  have "usage_le no_usage (codex_usage_totals raw)" for raw
    by (simp add: usage_le_def no_usage_def codex_usage_totals_def Let_def)
  then show "reported_total obj = Some u \<Longrightarrow> usage_le no_usage u"
    by (auto simp: reported_total_def split: option.splits json.splits if_splits)
qed

lemma tokens_finish:
  assumes "tokens_inv x"
  shows "usage_le (usage_sum (map cx_totals (codex_finish x))) (cs_prev_total x)"
  using assms tokens_closed[OF assms] unfolding codex_finish_def
  by (auto simp: tokens_inv_def cx_held_def open_totals_def split: option.splits)

lemma tokens_fold:
  assumes "tokens_inv x" "sorted_wrt usage_le (cs_prev_total x # List.map_filter reported_total objs)"
  shows "tokens_inv (foldl (codex_step env identity p) x objs)
    \<and> cs_prev_total (foldl (codex_step env identity p) x objs) = last (cs_prev_total x # List.map_filter reported_total objs)"
  using assms
proof (induction objs arbitrary: x)
  case (Cons obj objs)
  have "tokens_inv (codex_step env identity p x obj)
      \<and> cs_prev_total (codex_step env identity p x obj) = unwrap_or (reported_total obj) (cs_prev_total x)"
    using Cons.prems by (intro tokens_step) (auto simp: map_filter_simps)
  then show ?case
    using Cons.IH[of "codex_step env identity p x obj"] Cons.prems
    by (cases "reported_total obj") (auto simp: map_filter_simps)
qed (simp add: map_filter_simps)

text \<open>
  No token is counted twice. When the cumulative totals of a rollout never fall, the tokens of
  all its segments together stay within the last total reported, in each of the four counts, however often a record is
  repeated.
\<close>

theorem codex_tokens_bounded:
  assumes "codex_extract_segments env p (Some ls) = Inr segs"
    and "sorted_wrt usage_le (List.map_filter reported_total (List.map_filter (\<lambda>l. l) ls))"
  shows "usage_le (usage_sum (map (\<lambda>s. usage_totals (cx_usage s)) segs))
    (last (no_usage # List.map_filter reported_total (List.map_filter (\<lambda>l. l) ls)))"
proof -
  let ?es = "List.map_filter (\<lambda>l. l) ls"
  let ?x = "foldl (codex_step env (rollout_identity env p ?es) p) codex_init ?es"
  have n: "usage_le no_usage u" if "u \<in> set (List.map_filter reported_total ?es)" for u
    using that reported_nonneg by (auto simp: map_filter_def)
  have "tokens_inv ?x \<and> cs_prev_total ?x = last (no_usage # List.map_filter reported_total ?es)"
    using tokens_fold[OF tokens_init(1), of ?es env "rollout_identity env p ?es" p] n assms(2) unfolding tokens_init(2) by simp
  moreover have "segs = codex_finish ?x" using assms(1) by (simp add: codex_extract_segments_def Let_def)
  ultimately show ?thesis using tokens_finish[of ?x] by simp
qed

subsection \<open>An example rollout\<close>

definition codex_example_env :: codex_env where
  "codex_example_env = \<lparr>ce_extract = \<lparr>xe_redact = id, xe_parse_ts = (\<lambda>s. Some (int (length s))), xe_now_ms = 0, xe_print = (\<lambda>_. [])\<rparr>,
     ce_parse_json = (\<lambda>_. None), ce_parse_uuid = (\<lambda>_. None)\<rparr>"

definition codex_example_entry :: "string \<Rightarrow> string \<Rightarrow> (string \<times> json) list \<Rightarrow> json option" where
  "codex_example_entry kind ts payload = Some (JObj [(''type'', JStr kind), (''timestamp'', JStr ts), (''payload'', JObj payload)])"

definition codex_example_tokens :: "int \<Rightarrow> json option" where
  "codex_example_tokens n = codex_example_entry ''event_msg'' ''tt'' [(''type'', JStr ''token_count''),
     (''info'', JObj [(''total_token_usage'', JObj [(''input_tokens'', JInt n), (''output_tokens'', JInt 1)])])]"

definition codex_example_rollout :: "json option list" where
  "codex_example_rollout =
     [codex_example_entry ''session_meta'' ''t'' [(''id'', JStr ''s1''), (''cwd'', JStr ''/p'')], None,
      codex_example_entry ''event_msg'' ''t'' [(''type'', JStr ''user_message''), (''message'', JStr ''hi'')],
      codex_example_tokens 3, codex_example_tokens 3, codex_example_tokens 5]"

definition codex_example_path :: path where "codex_example_path = [''d'', ''rollout-a.jsonl'']"

lemma codex_example_segments:
  "\<exists>segs. codex_extract_segments codex_example_env codex_example_path (Some codex_example_rollout) = Inr segs \<and> segs \<noteq> []"
  by (intro exI conjI, rule codex_extract_segments_def[THEN trans], simp) (code_simp, simp)

lemma codex_segments_wf_witness:
  "cx_segment_index (projr (codex_extract_segments codex_example_env codex_example_path (Some codex_example_rollout)) ! 0) = 0"
proof -
  obtain segs where s: "codex_extract_segments codex_example_env codex_example_path (Some codex_example_rollout) = Inr segs" "segs \<noteq> []"
    using codex_example_segments by blast
  then show ?thesis using codex_segments_wf[OF s(1), of 0] by (simp add: cx_wf_def)
qed

lemma codex_tokens_bounded_witness:
  "usage_le (usage_sum (map (\<lambda>s. usage_totals (cx_usage s)) (projr (codex_extract_segments codex_example_env codex_example_path (Some codex_example_rollout)))))
     \<lparr>ut_input_tokens = 5, ut_output_tokens = 1, ut_cache_read_tokens = 0, ut_cache_creation_tokens = 0\<rparr>"
proof -
  obtain segs where s: "codex_extract_segments codex_example_env codex_example_path (Some codex_example_rollout) = Inr segs"
    using codex_example_segments by blast
  have t: "List.map_filter reported_total (List.map_filter (\<lambda>l. l) codex_example_rollout) =
      map (\<lambda>n. \<lparr>ut_input_tokens = n, ut_output_tokens = 1, ut_cache_read_tokens = 0, ut_cache_creation_tokens = 0\<rparr>) [3, 3, 5]"
    by code_simp
  then show ?thesis using codex_tokens_bounded[OF s] s by (simp add: usage_le_def)
qed

end
