(* ===== verification/CodexProperties.thy ===== *)
theory CodexProperties
  imports AgentStore CodexSegments
begin

text \<open>Properties of the Codex importer: segments, tokens, the stored rows, the poll and the coverage report.\<close>

subsection \<open>One Codex segment\<close>

lemma codex_row_fixed [simp]:
  "row_key (codex_insert_row env seg i) = codex_key seg" "as_id (codex_insert_row env seg i) = i"
  "row_key (codex_update_row e r) = row_key r" "as_id (codex_update_row e r) = as_id r"
  "as_last_enriched_content_hash (codex_update_row e r) = as_last_enriched_content_hash r"
  "as_content_hash (codex_insert_row env seg i) = Some (codex_content_hash (se_hash env) seg)"
  "as_content_hash (codex_update_row e r) = as_content_hash e"
  by (simp_all add: codex_insert_row_def codex_update_row_def row_key_def codex_key_def)

lemma codex_update_idem:
  "codex_update_row (codex_insert_row env seg i) (codex_update_row (codex_insert_row env seg j) r) = codex_update_row (codex_insert_row env seg j) r"
  "codex_update_row (codex_insert_row env seg i) r = codex_update_row (codex_insert_row env seg j) r"
  "codex_update_row (codex_insert_row env seg i) (codex_insert_row env seg j) = codex_insert_row env seg j"
  by (simp_all add: codex_update_row_def codex_insert_row_def)

interpretation codex_rows: segment_rows codex_key "codex_insert_row env" "\<lambda>seg r. codex_update_row (codex_insert_row env seg (as_id r)) r"
    "codex_content_hash (se_hash env)" "se_now_ms env" for env
  by unfold_locales (simp_all add: codex_update_idem(1,3))

lemma codex_upsert_eq: "codex_upsert env db seg = codex_rows.upsert env db seg"
  by (simp add: codex_upsert_def agent_upsert_def Let_def)

text \<open>The row is what the upsert writes, and its content is waiting, in work or enriched.\<close>

definition codex_settled :: "store_env \<Rightarrow> CodexSegment \<Rightarrow> claude_db \<Rightarrow> bool" where
  "codex_settled env seg db \<longleftrightarrow> (\<exists>r. find_row (codex_key seg) (cd_sessions db) = Some r
     \<and> codex_update_row (codex_insert_row env seg 0) r = r \<and> handled db r)"

lemma codex_settled_eq: "codex_settled env seg = row_settled (codex_key seg) (\<lambda>r. codex_update_row (codex_insert_row env seg (as_id r)) r)"
  unfolding codex_settled_def[abs_def] row_settled_def[abs_def] using codex_update_idem(2) by (intro ext) metis

lemma codex_frame [simp]:
  "cd_health (codex_upsert env db seg) = cd_health db" "cd_facts (codex_upsert env db seg) = cd_facts db"
  by (simp_all add: codex_upsert_eq codex_rows.upsert_frame)

interpretation codex: covering "codex_upsert env" store_inv "codex_settled env" "\<lambda>a b. codex_key a = codex_key b" for env
  unfolding codex_upsert_eq[abs_def] codex_settled_eq[abs_def] by (rule codex_rows.covering_axioms)

subsection \<open>One rollout\<close>

definition rollout_session :: "codex_env \<Rightarrow> path \<Rightarrow> json option list option \<Rightarrow> string option" where
  "rollout_session cenv p file_lines = map_option (\<lambda>ls. ri_session_id (rollout_identity cenv p (List.map_filter (\<lambda>l. l) ls))) file_lines"

lemma extracted_keys:
  assumes "codex_extract_segments cenv p file_lines = Inr segs"
  shows "\<exists>sid. rollout_session cenv p file_lines = Some sid \<and> map codex_key segs = map (\<lambda>i. (sid, ''codex'', int i)) [0..<length segs]"
proof -
  obtain ls where ls: "file_lines = Some ls" using assms by (auto simp: codex_extract_segments_def split: option.splits)
  let ?es = "List.map_filter (\<lambda>l. l) ls"
  let ?x = "foldl (codex_step cenv (rollout_identity cenv p ?es) p) codex_init ?es"
  have segs: "segs = codex_finish ?x" using assms by (simp add: codex_extract_segments_def Let_def ls)
  have "codex_key (segs ! i) = (ri_session_id (rollout_identity cenv p ?es), ''codex'', int i)" if "i < length segs" for i
    using cx_state_finish[OF cx_type.run_inv[OF cx_state_init], of i cenv "rollout_identity cenv p ?es" p ?es] that
    unfolding segs by (simp add: cx_wf_def codex_key_def)
  then have "map codex_key segs = map (\<lambda>i. (ri_session_id (rollout_identity cenv p ?es), ''codex'', int i)) [0..<length segs]"
    by (intro nth_equalityI) simp_all
  then show ?thesis by (simp add: rollout_session_def ls)
qed

lemma keys_session: "\<lbrakk>map codex_key segs = map (\<lambda>i. (sid, ''codex'', int i)) [0..<n]; seg \<in> set segs\<rbrakk> \<Longrightarrow> fst (codex_key seg) = sid"
  by (metis (no_types, lifting) fst_conv image_iff list.set_map)

lemma keys_distinct:
  assumes "map codex_key segs = map (\<lambda>i. (sid, ''codex'', int i)) [0..<length segs]"
  shows "sorted_wrt (\<lambda>a b. \<not> codex_key a = codex_key b) segs"
proof -
  have "distinct (map codex_key segs)" unfolding assms by (simp add: distinct_map inj_on_def)
  then show ?thesis by (simp add: distinct_map sorted_wrt_iff_nth_less distinct_conv_nth inj_on_def) 
qed

lemma upsert_all_fold: "upsert_all env segs faults db = Inr db' \<Longrightarrow> db' = foldl (codex_upsert env) db segs"
  by (induction segs arbitrary: faults db) (auto simp: upsert_segment_tx_def split: option.splits list.splits sum.splits)

lemma ingest_cases:
  assumes "codex_ingest_file cenv env p file_lines fs db = (r, db')"
  obtains (err) e where "r = Inl e" "db' = db"
    | (ok) segs where "codex_extract_segments cenv p file_lines = Inr segs"
        "r = Inr (length segs, case segs of [] \<Rightarrow> [] | s # _ \<Rightarrow> cx_session_id s)" "db' = foldl (codex_upsert env) db segs"
proof -
  consider (a) e where "r = Inl e" "db' = db"
    | (b) segs where "codex_extract_segments cenv p file_lines = Inr segs"
        "r = Inr (length segs, case segs of [] \<Rightarrow> [] | s # _ \<Rightarrow> cx_session_id s)" "db' = foldl (codex_upsert env) db segs"
    using assms unfolding codex_ingest_file_def
    by (auto simp del: upsert_all.simps dest!: upsert_all_fold split: sum.splits list.splits option.splits)
  then show thesis using err ok by cases blast+
qed

text \<open>
  C21 (codex_ingest_atomic): ingesting a rollout is all or nothing. On an error the database is as before; otherwise every
  extracted segment has a row with its content, which is pending, in work or already enriched, and no row of another
  session or harness and none of its queue entries has changed.
\<close>

theorem codex_ingest_atomic:
  assumes "store_inv db"
  shows "case codex_ingest_file cenv env p file_lines fs db of
      (Inl e, db') \<Rightarrow> db' = db
    | (Inr (n, sid), db') \<Rightarrow> \<exists>segs. codex_extract_segments cenv p file_lines = Inr segs \<and> n = length segs \<and> store_inv db'
        \<and> list_all (\<lambda>seg. codex_settled env seg db') segs
        \<and> list_all (\<lambda>r. as_harness r = ''codex'' \<and> rollout_session cenv p file_lines = Some (as_session_id r)
             \<or> find_row (row_key r) (cd_sessions db') = Some r
               \<and> queue_status (as_id r) (cd_queue db') = queue_status (as_id r) (cd_queue db)) (cd_sessions db)"
proof -
  obtain r db' where run: "codex_ingest_file cenv env p file_lines fs db = (r, db')" by fastforce
  then show ?thesis
  proof (cases rule: ingest_cases)
    case (ok segs)
    obtain sid where sid: "rollout_session cenv p file_lines = Some sid"
      "map codex_key segs = map (\<lambda>i. (sid, ''codex'', int i)) [0..<length segs]"
      using extracted_keys[OF ok(1)] by blast
    have frame: "find_row (row_key r) (cd_sessions db') = Some r \<and> queue_status (as_id r) (cd_queue db') = queue_status (as_id r) (cd_queue db)"
      if "r \<in> set (cd_sessions db)" "\<not> (as_harness r = ''codex'' \<and> as_session_id r = sid)" for r
    proof -
      have "find_row (row_key r) (cd_sessions db) = Some r"
        using that(1) assms find_row_unique unfolding store_inv_def by blast
      moreover have "row_key r \<noteq> codex_key seg" if "seg \<in> set segs" for seg
        using keys_session[OF sid(2) that] \<open>\<not> (as_harness r = ''codex'' \<and> as_session_id r = sid)\<close>
        by (auto simp: row_key_def codex_key_def)
      ultimately show ?thesis unfolding ok(3) codex_upsert_eq[abs_def] using codex_rows.fold_other[OF assms] by blast
    qed
    have "codex_settled env seg db'" if "seg \<in> set segs" for seg
      unfolding ok(3) using codex.run_settled[OF assms keys_distinct[OF sid(2)] that] .
    then show ?thesis
      using run ok(1,2) codex.run_inv[OF assms] frame sid(1) by (auto simp: list_all_iff ok(3))
  qed (use run in simp)
qed

subsection \<open>The poll\<close>

lemma codex_settled_cong:
  "cd_sessions a = cd_sessions b \<Longrightarrow> cd_queue a = cd_queue b \<Longrightarrow> codex_settled env seg a = codex_settled env seg b"
  "cd_sessions a = cd_sessions b \<Longrightarrow> cd_queue a = cd_queue b \<Longrightarrow> store_inv a = store_inv b"
  by (simp_all add: codex_settled_def handled_def store_inv_def)

lemma health_frame [simp]:
  "cd_sessions (map_codex_health q f db) = cd_sessions db" "cd_queue (map_codex_health q f db) = cd_queue db"
  by (simp_all add: map_codex_health_def split: option.split)

lemma write_cursor_frame [simp]: "xd_store (write_cursor q k m i db) = xd_store db"
  by (simp add: write_cursor_def split: option.split)

lemma poll_file_store:
  obtains segs where "cd_sessions (xd_store (fst (poll_file cenv env now idle s g))) = cd_sessions (foldl (codex_upsert env) (xd_store (fst s)) segs)"
    "cd_queue (xd_store (fst (poll_file cenv env now idle s g))) = cd_queue (foldl (codex_upsert env) (xd_store (fst s)) segs)"
    "segs = [] \<or> codex_extract_segments cenv (ro_path g) (ro_lines g) = Inr segs"
proof (cases "due cenv now idle (fst s) g")
  case None
  then show thesis using that[of "[]"] by (cases s) (simp add: poll_file_def)
next
  case (Some kt)
  obtain r st where i: "codex_ingest_file cenv env (ro_path g) (ro_lines g) (ro_faults g) (xd_store (fst s)) = (r, st)" by fastforce
  from i show thesis
  proof (cases rule: ingest_cases)
    case (err e)
    then show thesis using that[of "[]"] i Some by (cases s) (simp add: poll_file_def record_error_def)
  next
    case (ok segs)
    then show thesis using that[of segs] i Some
      by (cases s, cases kt) (simp add: poll_file_def bump_health_ok_def)
  qed
qed

lemma poll_file_inv:
  assumes "store_inv (xd_store (fst s))"
  shows "store_inv (xd_store (fst (poll_file cenv env now idle s g)))"
  by (rule poll_file_store[of cenv env now idle s g]) (use codex_settled_cong(2) codex.run_inv[OF assms] in metis)

lemma poll_file_keeps:
  assumes "store_inv (xd_store (fst s))" "codex_settled env seg (xd_store (fst s))"
    "rollout_session cenv (ro_path g) (ro_lines g) \<noteq> Some (cx_session_id seg)"
  shows "codex_settled env seg (xd_store (fst (poll_file cenv env now idle s g)))"
proof (rule poll_file_store[of cenv env now idle s g])
  fix segs
  assume eq: "cd_sessions (xd_store (fst (poll_file cenv env now idle s g))) = cd_sessions (foldl (codex_upsert env) (xd_store (fst s)) segs)"
    "cd_queue (xd_store (fst (poll_file cenv env now idle s g))) = cd_queue (foldl (codex_upsert env) (xd_store (fst s)) segs)"
    and e: "segs = [] \<or> codex_extract_segments cenv (ro_path g) (ro_lines g) = Inr segs"
  have "codex_key seg \<noteq> codex_key other" if "other \<in> set segs" for other
  proof -
    obtain sid where sid: "rollout_session cenv (ro_path g) (ro_lines g) = Some sid"
      "map codex_key segs = map (\<lambda>i. (sid, ''codex'', int i)) [0..<length segs]"
      using extracted_keys e \<open>other \<in> set segs\<close> by fastforce
    show ?thesis using keys_session[OF sid(2) that] sid(1) assms(3) by (auto simp: codex_key_def)
  qed
  then show ?thesis
    using codex.run_keeps[OF assms(1,2)] codex_settled_cong(1)[OF eq] by blast
qed

lemma poll_run_keeps:
  assumes "store_inv (xd_store (fst s))" "codex_settled env seg (xd_store (fst s))"
    "\<And>g. g \<in> set gs \<Longrightarrow> rollout_session cenv (ro_path g) (ro_lines g) \<noteq> Some (cx_session_id seg)"
  shows "codex_settled env seg (xd_store (fst (foldl (poll_file cenv env now idle) s gs)))"
  using assms by (induction gs arbitrary: s) (simp_all add: poll_file_inv poll_file_keeps)

lemma poll_file_count: "snd s \<le> snd (poll_file cenv env now idle s g)"
  by (auto simp: poll_file_def split: prod.split option.split sum.split)

interpretation poll: monotone_run "poll_file cenv env now idle" "\<lambda>s. store_inv (xd_store (fst s))" snd for cenv env now idle
  by unfold_locales (rule poll_file_inv poll_file_count; assumption?)+

lemma cursor_key_inj [simp]: "cursor_key a = cursor_key b \<longleftrightarrow> a = b"
  using nat_str_inj by (auto simp: cursor_key_def)

abbreviation ro_ino :: "rollout \<Rightarrow> nat option" where
  "ro_ino f \<equiv> map_option fst (ro_meta f)"

definition cursor_at :: "codex_db \<Rightarrow> nat option \<Rightarrow> CursorState option" where
  "cursor_at db i = Option.bind i (\<lambda>ino. map_of (xd_cursors db) (cursor_key ino))"

lemma due_Some:
  assumes "due cenv now idle db f = Some (k, t)"
  obtains ino where "ro_meta f = Some (ino, Some t)" "k = cursor_key ino"
  using assms that by (auto simp: due_def Let_def split: if_splits option.splits)

lemma due_cong: "cursor_at a (ro_ino f) = cursor_at b (ro_ino f) \<Longrightarrow> due cenv now idle a f = due cenv now idle b f"
proof (cases "ro_meta f")
  case (Some m)
  then show "cursor_at a (ro_ino f) = cursor_at b (ro_ino f) \<Longrightarrow> ?thesis"
    by (cases m; cases "snd m") (simp_all add: due_def cursor_at_def read_cursor_def Let_def)
qed (simp add: due_def)

lemma poll_file_cursor:
  assumes "ro_ino g \<noteq> i"
  shows "cursor_at (fst (poll_file cenv env now idle s g)) i = cursor_at (fst s) i"
proof (cases "due cenv now idle (fst s) g")
  case None
  then show ?thesis by (cases s) (simp add: poll_file_def)
next
  case (Some kt)
  obtain k t where kt: "kt = (k, t)" by fastforce
  obtain ino where ino: "ro_meta g = Some (ino, Some t)" "k = cursor_key ino" using Some kt due_Some by blast
  obtain db n where s: "s = (db, n)" by fastforce
  obtain r st where i: "codex_ingest_file cenv env (ro_path g) (ro_lines g) (ro_faults g) (xd_store db) = (r, st)" by fastforce
  have w: "cursor_at (write_cursor q k t sid d) i = cursor_at d i" for q sid d
    using assms ino by (cases i) (auto simp: cursor_at_def write_cursor_def split: option.split)
  have x: "cursor_at (d\<lparr>xd_store := y\<rparr>) i = cursor_at d i" for d y by (simp add: cursor_at_def)
  show ?thesis using Some kt s i w x by (cases r) (auto simp: poll_file_def)
qed

lemma poll_run_cursor:
  "(\<And>g. g \<in> set gs \<Longrightarrow> ro_ino g \<noteq> i) \<Longrightarrow> cursor_at (fst (foldl (poll_file cenv env now idle) s gs)) i = cursor_at (fst s) i"
  by (induction gs arbitrary: s) (simp_all add: poll_file_cursor)

text \<open>A rollout that is read and stored without a failing statement.\<close>

definition no_faults :: "rollout \<Rightarrow> bool" where
  "no_faults f \<longleftrightarrow> if_begin (ro_faults f) = None \<and> list_all (\<lambda>q. q = None) (if_steps (ro_faults f)) \<and> if_commit (ro_faults f) = None"

lemma upsert_all_ok: "list_all (\<lambda>q. q = None) faults \<Longrightarrow> upsert_all env segs faults db = Inr (foldl (codex_upsert env) db segs)"
  by (induction segs arbitrary: faults db) (auto simp: upsert_segment_tx_def split: list.split)

lemma codex_ingest_ok:
  assumes "no_faults f" "codex_extract_segments cenv (ro_path f) (ro_lines f) = Inr segs"
  shows "codex_ingest_file cenv env (ro_path f) (ro_lines f) (ro_faults f) db =
    (Inr (length segs, case segs of [] \<Rightarrow> [] | s # _ \<Rightarrow> cx_session_id s), foldl (codex_upsert env) db segs)"
  using assms upsert_all_ok[of "if_steps (ro_faults f)" env segs db]
  by (cases segs) (simp_all add: codex_ingest_file_def no_faults_def del: upsert_all.simps)

lemma poll_file_ok:
  assumes "due cenv now idle db f = Some (k, t)" "no_faults f"
    "codex_extract_segments cenv (ro_path f) (ro_lines f) = Inr segs"
  shows "\<exists>st. poll_file cenv env now idle (db, n) f =
      (write_cursor (ro_cursor_fault f) k t (case segs of [] \<Rightarrow> [] | s # _ \<Rightarrow> cx_session_id s) (db\<lparr>xd_store := st\<rparr>), n + length segs)
    \<and> cd_sessions st = cd_sessions (foldl (codex_upsert env) (xd_store db) segs)
    \<and> cd_queue st = cd_queue (foldl (codex_upsert env) (xd_store db) segs)"
  using assms(1) codex_ingest_ok[OF assms(2,3), of env "xd_store db"]
  by (intro exI[of _ "if segs \<noteq> [] then bump_health_ok (ro_health_fault f) (se_now_ms env) t (foldl (codex_upsert env) (xd_store db) segs)
      else foldl (codex_upsert env) (xd_store db) segs"])
     (simp add: poll_file_def bump_health_ok_def)

lemma sessions_differ:
  assumes "codex_extract_segments cenv p file_lines = Inr segs" "seg \<in> set segs"
  shows "rollout_session cenv p file_lines = Some (cx_session_id seg)"
  using extracted_keys[OF assms(1)] keys_session[OF _ assms(2)] by (fastforce simp: codex_key_def)

text \<open>
  C18 (codex_poll_covers): a poll stores every rollout that is due, whatever happens to the others. If the file is read
  and stored without a fault, then at the end of the tick each of its segments has a row with its content that is pending,
  in work or enriched, and its cursor is at the modification time seen, although any other file may have failed before or
  after it. The other files are only asked not to share its inode, and the later ones not to name the same session.
\<close>

theorem codex_poll_covers:
  assumes "store_inv (xd_store db)" "concat roots = pre @ f # post"
    and "due cenv now_ms (min_idle_secs * 1000) db f = Some (k, mtime_ms)"
    and "no_faults f" "ro_cursor_fault f = None" "codex_extract_segments cenv (ro_path f) (ro_lines f) = Inr segs"
    and "list_all (\<lambda>g. ro_ino g \<noteq> ro_ino f) (pre @ post)"
    and "list_all (\<lambda>g. rollout_session cenv (ro_path g) (ro_lines g) \<noteq> rollout_session cenv (ro_path f) (ro_lines f)) post"
  shows "case codex_poll_tick True cenv env now_ms min_idle_secs None roots db of
      (Inr n, db') \<Rightarrow> length segs \<le> n \<and> list_all (\<lambda>seg. codex_settled env seg (xd_store db')) segs
        \<and> ck_last_seen_updated_at (read_cursor (xd_cursors db') k) = mtime_ms
    | (Inl e, db') \<Rightarrow> False"
proof -
  let ?step = "poll_file cenv env now_ms (min_idle_secs * 1000)"
  define s1 where "s1 = foldl ?step (db, 0) pre"
  define s2 where "s2 = ?step s1 f"
  define s3 where "s3 = foldl ?step s2 post"
  have tick: "codex_poll_tick True cenv env now_ms min_idle_secs None roots db = (Inr (snd s3), fst s3)"
    by (simp add: codex_poll_tick_def assms(2) s1_def s2_def s3_def split: prod.split)
  have i1: "store_inv (xd_store (fst s1))" unfolding s1_def using assms(1) by (intro poll.run_inv) simp
  have "cursor_at (fst s1) (ro_ino f) = cursor_at db (ro_ino f)"
    using assms(7) poll_run_cursor[of pre "ro_ino f" cenv env now_ms "min_idle_secs * 1000" "(db, 0)"] by (simp add: s1_def list_all_iff)
  then have d: "due cenv now_ms (min_idle_secs * 1000) (fst s1) f = Some (k, mtime_ms)"
    using assms(3) due_cong[of "fst s1" f db] by metis
  obtain st where st: "s2 = (write_cursor None k mtime_ms (case segs of [] \<Rightarrow> [] | s # _ \<Rightarrow> cx_session_id s) ((fst s1)\<lparr>xd_store := st\<rparr>),
        snd s1 + length segs)"
      "cd_sessions st = cd_sessions (foldl (codex_upsert env) (xd_store (fst s1)) segs)"
      "cd_queue st = cd_queue (foldl (codex_upsert env) (xd_store (fst s1)) segs)"
    using poll_file_ok[OF d assms(4,6), of env "snd s1"] assms(5) by (auto simp: s2_def)
  obtain sid where sid: "map codex_key segs = map (\<lambda>i. (sid, ''codex'', int i)) [0..<length segs]"
    using extracted_keys[OF assms(6)] by blast
  have "codex_settled env seg (xd_store (fst s3))" if seg: "seg \<in> set segs" for seg
    unfolding s3_def
  proof (rule poll_run_keeps)
    show "store_inv (xd_store (fst s2))" unfolding s2_def by (rule poll_file_inv[OF i1])
    have "codex_settled env seg (foldl (codex_upsert env) (xd_store (fst s1)) segs)"
      by (rule codex.run_settled[OF i1 keys_distinct[OF sid] seg])
    then show "codex_settled env seg (xd_store (fst s2))" using codex_settled_cong(1)[OF st(2,3)] by (simp add: st(1))
    show "rollout_session cenv (ro_path g) (ro_lines g) \<noteq> Some (cx_session_id seg)" if "g \<in> set post" for g
      using assms(8) sessions_differ[OF assms(6) seg] that by (simp add: list_all_iff)
  qed
  moreover have "ck_last_seen_updated_at (read_cursor (xd_cursors (fst s3)) k) = mtime_ms"
  proof -
    obtain ino where ino: "ro_meta f = Some (ino, Some mtime_ms)" "k = cursor_key ino" using due_Some[OF assms(3)] .
    have "cursor_at (fst s3) (Some ino) = cursor_at (fst s2) (Some ino)"
      unfolding s3_def using assms(7) ino(1) by (intro poll_run_cursor) (auto simp: list_all_iff)
    then show ?thesis using ino(2) by (simp add: cursor_at_def read_cursor_def st(1) write_cursor_def)
  qed
  moreover have "snd s2 \<le> snd s3" unfolding s3_def s2_def by (rule poll.run_mono) (rule poll_file_inv[OF i1])
  then have "length segs \<le> snd s3" using st(1) by simp
  ultimately show ?thesis by (simp add: tick list_all_iff)
qed

text \<open>A rollout that is handled without a fault and whose name, if it has an id, names the session of its records.\<close>

definition clean_rollout :: "codex_env \<Rightarrow> rollout \<Rightarrow> bool" where
  "clean_rollout cenv f \<longleftrightarrow> no_faults f \<and> ro_cursor_fault f = None \<and> ro_lines f \<noteq> None
     \<and> (rollout_path_session_id cenv (ro_path f) = None
        \<or> rollout_path_session_id cenv (ro_path f) = rollout_session cenv (ro_path f) (ro_lines f))"

lemma clean_done:
  assumes "clean_rollout cenv f"
  shows "due cenv now idle (fst (poll_file cenv env now idle s f)) f = None"
proof (cases "due cenv now idle (fst s) f")
  case None
  then show ?thesis by (cases s) (simp add: poll_file_def)
next
  case (Some kt)
  obtain k t db n where kt: "kt = (k, t)" "s = (db, n)" by fastforce
  obtain ino where ino: "ro_meta f = Some (ino, Some t)" "k = cursor_key ino" using due_Some Some kt by blast
  obtain segs where segs: "codex_extract_segments cenv (ro_path f) (ro_lines f) = Inr segs"
    using assms by (auto simp: clean_rollout_def codex_extract_segments_def Let_def)
  obtain st where st: "poll_file cenv env now idle s f =
      (write_cursor None k t (case segs of [] \<Rightarrow> [] | s # _ \<Rightarrow> cx_session_id s) (db\<lparr>xd_store := st\<rparr>), n + length segs)"
    using poll_file_ok[OF _ _ segs, of now idle db k t env n] Some kt assms by (auto simp: clean_rollout_def)
  have "\<not> identity_drift cenv (ro_path f)
      \<lparr>ck_last_seen_updated_at = t, ck_last_id = (case segs of [] \<Rightarrow> [] | s # _ \<Rightarrow> cx_session_id s)\<rparr>"
  proof (cases segs)
    case (Cons seg rest)
    then show ?thesis
      using assms sessions_differ[OF segs, of seg] by (auto simp: identity_drift_def clean_rollout_def split: option.split)
  qed (simp add: identity_drift_def split: option.split)
  then show ?thesis
    unfolding st by (simp add: due_def ino write_cursor_def read_cursor_def Let_def)
qed

lemma poll_run_done:
  assumes "list_all (clean_rollout cenv) fs" "distinct (map ro_ino fs)" "f \<in> set fs"
  shows "due cenv now idle (fst (foldl (poll_file cenv env now idle) s fs)) f = None"
  using assms
proof (induction fs arbitrary: s)
  case (Cons g fs)
  show ?case
  proof (cases "f \<in> set fs")
    case False
    then have "f = g" using Cons.prems(3) by simp
    have "cursor_at (fst (foldl (poll_file cenv env now idle) (poll_file cenv env now idle s g) fs)) (ro_ino g)
        = cursor_at (fst (poll_file cenv env now idle s g)) (ro_ino g)"
      using Cons.prems(2) by (intro poll_run_cursor) (auto simp: image_iff)
    then show ?thesis using due_cong clean_done Cons.prems(1) \<open>f = g\<close> by (metis foldl_Cons list.pred_inject(2))
  qed (use Cons in simp)
qed simp

lemma poll_idle: "(\<And>f. f \<in> set fs \<Longrightarrow> due cenv now idle db f = None) \<Longrightarrow> foldl (poll_file cenv env now idle) (db, n) fs = (db, n)"
  by (induction fs) (simp_all add: poll_file_def)

text \<open>
  A poll converges. When every rollout is handled without a fault and named after its session,
  a second tick over the same files at the same time ingests nothing and leaves the database as it is.
\<close>

theorem codex_poll_settles:
  assumes "list_all (clean_rollout cenv) (concat roots)" "distinct (map ro_ino (concat roots))"
  shows "let db' = snd (codex_poll_tick True cenv env now_ms min_idle_secs None roots db)
    in codex_poll_tick True cenv env now_ms min_idle_secs None roots db' = (Inr 0, db')"
proof -
  let ?step = "poll_file cenv env now_ms (min_idle_secs * 1000)"
  obtain db' n where run: "foldl ?step (db, 0) (concat roots) = (db', n)" by fastforce
  have "foldl ?step (db', 0) (concat roots) = (db', 0)"
    using poll_run_done[OF assms, of _ now_ms "min_idle_secs * 1000" env "(db, 0)"] run by (intro poll_idle) simp
  then show ?thesis by (simp add: codex_poll_tick_def run)
qed

subsection \<open>Retries\<close>

text \<open>
  A re-parse renews the retries of a segment that has not been enriched. Whatever the file
  holds now, and in particular if the segment is unchanged, a queue entry that is not being processed goes back to pending
  with no retries counted and its error forgotten.
\<close>

theorem codex_reparse_retries:
  assumes "find_row (codex_key seg) (cd_sessions db) = Some r" "as_content_hash r = Some (codex_content_hash (se_hash env) seg)"
    and "as_last_enriched_content_hash r = None" "q \<in> set (cd_queue db)" "qr_session_id q = as_id r"
    and "distinct (map qr_session_id (cd_queue db))" "qr_status q \<noteq> ''processing''"
  shows "q\<lparr>qr_status := ''pending'', qr_retry_count := 0, qr_error_message := None, qr_updated_at := se_now_ms env\<rparr>
    \<in> set (cd_queue (codex_upsert env db seg))"
proof -
  have "queue_status (as_id r) (cd_queue db) \<noteq> Some ''processing''"
  proof
    assume "queue_status (as_id r) (cd_queue db) = Some ''processing''"
    then obtain q' where "q' \<in> set (cd_queue db)" "qr_session_id q' = as_id r" "qr_status q' = ''processing''"
      unfolding queue_status_def by (auto simp: find_Some_iff) (metis nth_mem)
    then have "q' = q" using assms(4-6) by (metis distinct_map inj_onD)
    then show False using \<open>qr_status q' = ''processing''\<close> assms(7) by simp
  qed
  then have "cd_queue (codex_upsert env db seg) = enqueue (se_now_ms env) (as_id r) (cd_queue db)"
    using assms(1,3) by (simp add: codex_upsert_eq codex_rows.upsert_queue)
  moreover have "list_ex (\<lambda>e. qr_session_id e = as_id r) (cd_queue db)" using assms(4,5) by (auto simp: list_ex_iff)
  ultimately show ?thesis using assms(4,5,7) by (auto simp: enqueue_def image_iff intro!: bexI[of _ q])
qed

subsection \<open>Coverage\<close>

definition report_total :: "CodexCoverageReport \<Rightarrow> nat" where
  "report_total r = cr_covered_threads r + length (cr_missing_rollout_threads r) + length (cr_in_flight_threads r)
     + length (cr_missing_hippo_threads r)"

text \<open>A thread Codex knows whose settled rollout left neither a row nor a mark in the cursors.\<close>

definition unseen :: "(path \<Rightarrow> file_stat option) \<Rightarrow> int \<Rightarrow> int \<Rightarrow> codex_db \<Rightarrow> state_thread \<Rightarrow> bool" where
  "unseen stat now idle db t \<longleftrightarrow> th_id t \<notin> set (codex_session_ids (cd_sessions (xd_store db)))
     \<and> stat (th_rollout_path t) \<noteq> None \<and> \<not> is_file_in_idle_window now (stat (th_rollout_path t)) idle
     \<and> \<not> processed_without_segments (xd_cursors db) (stat (th_rollout_path t))"

lemma classify_counts:
  "report_total (classify_thread stat now idle db r t) = Suc (report_total r)"
  "cr_total_state_threads (classify_thread stat now idle db r t) = cr_total_state_threads r"
  "set (cr_missing_hippo_threads (classify_thread stat now idle db r t))
     = set (cr_missing_hippo_threads r) \<union> (if unseen stat now idle db t then {th_id t} else {})"
  by (auto simp: classify_thread_def report_total_def unseen_def Let_def)

lemma classify_fold:
  "report_total (foldl (classify_thread stat now idle db) r ts) = report_total r + length ts"
  "cr_total_state_threads (foldl (classify_thread stat now idle db) r ts) = cr_total_state_threads r"
  "set (cr_missing_hippo_threads (foldl (classify_thread stat now idle db) r ts))
     = set (cr_missing_hippo_threads r) \<union> th_id ` {t \<in> set ts. unseen stat now idle db t}"
  by (induction ts arbitrary: r) (auto simp: classify_counts)

text \<open>
  The coverage report accounts for every thread Codex knows once: covered, without a rollout, in flight
  or missing. The missing ones are exactly the threads whose settled rollout left neither a row nor an empty-file mark.
\<close>

theorem coverage_exact:
  "let r = check_codex_coverage stat now_ms min_idle_secs db threads log_ids in
     cr_total_state_threads r = length threads \<and> report_total r = length threads
     \<and> set (cr_missing_hippo_threads r) = th_id ` {t \<in> set threads. unseen stat now_ms min_idle_secs db t}"
proof -
  have "report_total (r\<lparr>cr_zero_segment_threads := a, cr_in_flight_threads := sort (cr_in_flight_threads r),
      cr_missing_rollout_threads := sort (cr_missing_rollout_threads r), cr_missing_hippo_threads := sort (cr_missing_hippo_threads r),
      cr_log_only_thread_count := n\<rparr>) = report_total r" for r a n
    by (simp add: report_total_def)
  then show ?thesis
    by (simp add: check_codex_coverage_def Let_def classify_fold) (simp add: report_total_def)
qed

subsection \<open>Examples\<close>

definition codex_example_store_env :: store_env where
  "codex_example_store_env = \<lparr>se_now_ms = 100, se_start_text = (\<lambda>_. []), se_end_text = (\<lambda>_. []),
     se_hash = \<lparr>he_tools = (\<lambda>_. []), he_prompts = concat, he_hash = id\<rparr>\<rparr>"

definition codex_example_rollout_file :: rollout where
  "codex_example_rollout_file = \<lparr>ro_path = codex_example_path, ro_meta = Some (7, Some 10), ro_lines = Some codex_example_rollout,
     ro_faults = \<lparr>if_begin = None, if_steps = [], if_commit = None\<rparr>, ro_health_fault = None, ro_cursor_fault = None\<rparr>"

definition codex_example_broken_file :: rollout where
  "codex_example_broken_file = codex_example_rollout_file\<lparr>ro_meta := Some (8, Some 10), ro_lines := None\<rparr>"

definition codex_example_store :: claude_db where
  "codex_example_store = \<lparr>cd_sessions = [], cd_queue = [], cd_health = None, cd_facts = []\<rparr>"

definition codex_example_db :: codex_db where
  "codex_example_db = \<lparr>xd_store = codex_example_store, xd_cursors = []\<rparr>"

lemma codex_example_inv: "store_inv codex_example_store"
  by (simp add: store_inv_def codex_example_store_def)

lemma codex_example_clock: "se_now_ms codex_example_store_env = 100"
  by (simp add: codex_example_store_env_def)

lemma codex_example_due: "due codex_example_env 1000 0 codex_example_db codex_example_rollout_file = Some (cursor_key 7, 10)"
  by code_simp

lemma codex_ingest_atomic_witness:
  "case codex_ingest_file codex_example_env codex_example_store_env codex_example_path (Some codex_example_rollout)
      \<lparr>if_begin = None, if_steps = [], if_commit = Some ''locked''\<rparr> codex_example_store of
      (Inl e, db') \<Rightarrow> db' = codex_example_store
    | (Inr (n, sid), db') \<Rightarrow> \<exists>segs. codex_extract_segments codex_example_env codex_example_path (Some codex_example_rollout) = Inr segs
        \<and> n = length segs \<and> store_inv db' \<and> list_all (\<lambda>seg. codex_settled codex_example_store_env seg db') segs
        \<and> list_all (\<lambda>r. as_harness r = ''codex'' \<and> rollout_session codex_example_env codex_example_path (Some codex_example_rollout) = Some (as_session_id r)
             \<or> find_row (row_key r) (cd_sessions db') = Some r
               \<and> queue_status (as_id r) (cd_queue db') = queue_status (as_id r) (cd_queue codex_example_store)) (cd_sessions codex_example_store)"
  by (rule codex_ingest_atomic[OF codex_example_inv])

lemma codex_poll_covers_witness:
  "\<exists>segs db' n. segs \<noteq> [] \<and> codex_poll_tick True codex_example_env codex_example_store_env 1000 0 None
      [[codex_example_broken_file], [codex_example_rollout_file]] codex_example_db = (Inr n, db')
    \<and> list_all (\<lambda>seg. codex_settled codex_example_store_env seg (xd_store db')) segs"
proof -
  obtain segs where segs: "codex_extract_segments codex_example_env codex_example_path (Some codex_example_rollout) = Inr segs" "segs \<noteq> []"
    using codex_example_segments by blast
  obtain r db' where run: "codex_poll_tick True codex_example_env codex_example_store_env 1000 0 None
      [[codex_example_broken_file], [codex_example_rollout_file]] codex_example_db = (r, db')" by fastforce
  have "case codex_poll_tick True codex_example_env codex_example_store_env 1000 0 None [[codex_example_broken_file], [codex_example_rollout_file]] codex_example_db of
      (Inr n, db') \<Rightarrow> length segs \<le> n \<and> list_all (\<lambda>seg. codex_settled codex_example_store_env seg (xd_store db')) segs
        \<and> ck_last_seen_updated_at (read_cursor (xd_cursors db') (cursor_key 7)) = 10
    | (Inl e, db') \<Rightarrow> False"
  proof (rule codex_poll_covers[where pre = "[codex_example_broken_file]" and f = codex_example_rollout_file and post = "[]" and segs = segs])
    show "due codex_example_env 1000 (0 * 1000) codex_example_db codex_example_rollout_file = Some (cursor_key 7, 10)" using codex_example_due by simp
  qed (use segs codex_example_inv in \<open>simp_all add: codex_example_db_def codex_example_rollout_file_def codex_example_broken_file_def no_faults_def\<close>)
  then show ?thesis using run segs(2) by (cases r) auto
qed

lemma codex_poll_settles_witness:
  "fst (codex_poll_tick True codex_example_env codex_example_store_env 1000 0 None [[codex_example_rollout_file]]
      (snd (codex_poll_tick True codex_example_env codex_example_store_env 1000 0 None [[codex_example_rollout_file]] codex_example_db))) = Inr 0"
proof -
  have "clean_rollout codex_example_env codex_example_rollout_file"
    by (simp add: clean_rollout_def codex_example_rollout_file_def no_faults_def rollout_path_session_id_def codex_example_env_def Let_def split: option.split)
  then show ?thesis
    using codex_poll_settles[of codex_example_env "[[codex_example_rollout_file]]" codex_example_store_env 1000 0 codex_example_db] by (simp add: Let_def)
qed

lemma codex_reparse_retries_witness:
  "\<exists>db seg q. q \<in> set (cd_queue db) \<and> qr_status q = ''failed'' \<and> qr_retry_count q = 5
     \<and> q\<lparr>qr_status := ''pending'', qr_retry_count := 0, qr_error_message := None, qr_updated_at := 100\<rparr>
         \<in> set (cd_queue (codex_upsert codex_example_store_env db seg))"
proof -
  obtain seg :: CodexSegment where "True" by blast
  let ?r = "codex_insert_row codex_example_store_env seg 1"
  let ?q = "\<lparr>qr_session_id = 1, qr_status = ''failed'', qr_retry_count = 5, qr_error_message = Some ''e'', qr_enqueued_at = 1, qr_updated_at = 2\<rparr>"
  let ?db = "codex_example_store\<lparr>cd_sessions := [?r], cd_queue := [?q]\<rparr>"
  have "?q\<lparr>qr_status := ''pending'', qr_retry_count := 0, qr_error_message := None, qr_updated_at := se_now_ms codex_example_store_env\<rparr>
      \<in> set (cd_queue (codex_upsert codex_example_store_env ?db seg))"
    by (rule codex_reparse_retries[of _ _ ?r])
       (simp_all add: find_row_def codex_insert_row_def row_key_def codex_key_def)
  then show ?thesis by (intro exI[of _ ?db] exI[of _ seg] exI[of _ ?q]) (simp add: codex_example_clock)
qed

end
