(* ===== verification/ShellCapture.thy ===== *)
theory ShellCapture
  imports ClaudeToolCalls DaemonProperties Framing
begin

text \<open>
  The shell hook's side of the capture (\<open>handle_send_event_shell\<close> in \<open>hippo-daemon/src/commands.rs\<close>): reading the captured
  output of a command within a byte budget, building its envelope, and sending it to the daemon or, redacted, to the
  fallback file. A file is its bytes, \<open>None\<close> if it cannot be read.
\<close>

subsection \<open>Lossy decoding\<close>

text \<open>
  \<open>String::from_utf8_lossy\<close>: the length of the next character, or of the longest start of one that cannot be completed, which
  becomes U+FFFD.
\<close>

fun utf8_chunk :: "nat list \<Rightarrow> bool \<times> nat" where
  "utf8_chunk [] = (False, 0)"
| "utf8_chunk (a # r) =
     (if a < 128 then (True, 1)
      else case r of [] \<Rightarrow> (False, 1)
      | b # r1 \<Rightarrow>
          if 194 \<le> a \<and> a \<le> 223 then (if cont_nat b then (True, 2) else (False, 1))
          else if 224 \<le> a \<and> a \<le> 244 \<and> cont_nat b \<and> (a = 224 \<longrightarrow> 160 \<le> b) \<and> (a = 237 \<longrightarrow> b < 160)
                 \<and> (a = 240 \<longrightarrow> 144 \<le> b) \<and> (a = 244 \<longrightarrow> b < 144)
          then (case r1 of [] \<Rightarrow> (False, 2)
            | c # r2 \<Rightarrow>
                if \<not> cont_nat c then (False, 2)
                else if a \<le> 239 then (True, 3)
                else (case r2 of [] \<Rightarrow> (False, 3)
                  | d # r3 \<Rightarrow> if cont_nat d then (True, 4) else (False, 3)))
          else (False, 1))"

definition REPLACEMENT :: string where
  "REPLACEMENT = [CHR 0xEF, CHR 0xBF, CHR 0xBD]"

lemma utf8_chunk_pos: "bs \<noteq> [] \<Longrightarrow> 0 < snd (utf8_chunk bs)"
  by (cases bs) (auto split: list.splits)

lemma utf8_chunk_bytes: "s \<noteq> [] \<Longrightarrow> 0 < snd (utf8_chunk (bytes_of s))"
  by (rule utf8_chunk_pos) (simp add: bytes_of_def)

function from_utf8_lossy :: "string \<Rightarrow> string" where
  "from_utf8_lossy s = (if s = [] then [] else case utf8_chunk (bytes_of s) of (ok, n) \<Rightarrow>
     (if ok then take n s else REPLACEMENT) @ from_utf8_lossy (drop n s))"
  by pat_completeness auto
termination
  by (relation "measure length") (auto dest!: arg_cong[where f = snd] simp: utf8_chunk_bytes)

declare from_utf8_lossy.simps [simp del]

definition floor_char_boundary :: "string \<Rightarrow> nat \<Rightarrow> nat" where
  "floor_char_boundary s i = (if length s \<le> i then length s else back_off s i)"

subsection \<open>Reading captured output\<close>

definition SHELL_OUTPUT_BYTES :: nat where [hippo_defs]: "SHELL_OUTPUT_BYTES = 512 * 1024"

text \<open>
  The state of the loop: the head, the tail lines with their size, the counts and whether something was cut to the byte
  budget.
\<close>

record output_state =
  os_content :: string
  os_last :: "string list"
  os_last_bytes :: nat
  os_head_lines :: nat
  os_original_bytes :: nat
  os_total :: nat
  os_byte_truncated :: bool

definition output_init :: output_state where
  "output_init = \<lparr>os_content = [], os_last = [], os_last_bytes = 0, os_head_lines = 0, os_original_bytes = 0, os_total = 0,
     os_byte_truncated = False\<rparr>"

text \<open>\<open>while last.len() > tail || last_bytes > section_bytes\<close>; a list over its bounds is not empty.\<close>

fun drop_front :: "nat \<Rightarrow> nat \<Rightarrow> string list \<times> nat \<Rightarrow> string list \<times> nat" where
  "drop_front tail section_bytes ([], n) = ([], n)"
| "drop_front tail section_bytes (l # ls, n) =
     (if length (l # ls) > tail \<or> n > section_bytes then drop_front tail section_bytes (ls, n - length l) else (l # ls, n))"

text \<open>One line of the file, with its line end: at most \<open>section_bytes + 4\<close> bytes of it are read, the others skipped.\<close>

definition read_line :: "nat \<Rightarrow> nat \<Rightarrow> nat \<Rightarrow> output_state \<Rightarrow> string \<Rightarrow> output_state" where
  "read_line head tail section_bytes x l =
     (let line = take (section_bytes + 4) l;
          skipped = length l - length line;
          text0 = from_utf8_lossy line;
          text1 = take (floor_char_boundary text0 section_bytes) text0;
          y = x\<lparr>os_original_bytes := os_original_bytes x + length line + skipped, os_total := os_total x + 1,
                os_byte_truncated := os_byte_truncated x \<or> skipped > 0 \<or> length text0 > section_bytes\<rparr>
      in if os_total y \<le> head
         then let remaining = section_bytes - length (os_content y);
                  text2 = take (floor_char_boundary text1 remaining) text1
           in y\<lparr>os_byte_truncated := os_byte_truncated y \<or> length text1 > remaining,
                os_head_lines := os_head_lines y + (if text2 = [] then 0 else 1), os_content := os_content y @ text2\<rparr>
         else if tail > 0 \<and> text1 \<noteq> []
         then case drop_front tail section_bytes (os_last y @ [text1], os_last_bytes y + length text1) of
           (ls, n) \<Rightarrow> y\<lparr>os_last := ls, os_last_bytes := n\<rparr>
         else y)"

definition omitted_marker :: "nat \<Rightarrow> string" where
  "omitted_marker omitted = ''... ('' @ nat_str omitted @ '' lines omitted) ...'' @ [CHR 0x0A]"

definition limit_marker :: string where
  "limit_marker = CHR 0x0A # ''... (byte limit reached) ...'' @ [CHR 0x0A]"

definition finish_output :: "nat \<Rightarrow> output_state \<Rightarrow> CapturedOutput" where
  "finish_output max_bytes x =
     (let omitted = os_total x - os_head_lines x - length (os_last x) in
      \<lparr>co_content = os_content x
          @ (if max_bytes \<ge> 128 then (if omitted > 0 then omitted_marker omitted else []) @ (if os_byte_truncated x then limit_marker else [])
             else [])
          @ concat (os_last x),
       co_truncated = (os_byte_truncated x \<or> omitted > 0), co_original_bytes = int (os_original_bytes x)\<rparr>)"

definition read_shell_output :: "nat \<Rightarrow> nat \<Rightarrow> string option \<Rightarrow> nat \<Rightarrow> string + CapturedOutput" where
  "read_shell_output head tail content max_bytes = (case content of
     None \<Rightarrow> Inl ''reading captured output''
   | Some bytes \<Rightarrow> Inr (finish_output max_bytes
       (foldl (read_line head tail ((max_bytes - 128) div 2)) output_init (split_inclusive bytes))))"

subsection \<open>Sending a command\<close>

text \<open>The arguments of the hook, and its process environment.\<close>

record shell_args =
  sa_cmd :: string
  sa_exit :: int
  sa_cwd :: string
  sa_duration_ms :: int
  sa_git_repo :: "string option"
  sa_git_branch :: "string option"
  sa_git_commit :: "string option"
  sa_git_dirty :: bool
  sa_output :: "string option"
  sa_stdout_file :: "string option option"
  sa_stderr_file :: "string option option"
  sa_probe_tag :: "string option"
  sa_source_kind :: "string option"
  sa_tool_name :: "string option"

record shell_env =
  sx_session_var :: "string option"
  sx_parse_uuid :: "string \<Rightarrow> string option"
  sx_new_session :: string
  sx_hostname :: "string option"
  sx_git :: git_runner
  sx_vars :: "(string \<times> string) list"
  sx_shell_var :: "string option"
  sx_new_id :: string
  sx_now_ms :: int
  sx_json :: "EventEnvelope \<Rightarrow> string"
  sx_head_lines :: nat
  sx_tail_lines :: nat
  sx_redact :: redactor
  sx_date :: string
  sx_daemon :: daemon_env
  sx_answer :: "string \<Rightarrow> daemon_state \<Rightarrow> DaemonResponse"

definition detect_shell_kind :: "string option \<Rightarrow> ShellKind" where
  "detect_shell_kind shell = (case Option.bind shell path_name of
     None \<Rightarrow> Zsh
   | Some base \<Rightarrow> if base = ''zsh'' then Zsh else if base = ''bash'' then Bash else if base = ''fish'' then Fish else Unknown base)"

definition git_state_of :: "git_runner \<Rightarrow> shell_args \<Rightarrow> GitState option" where
  "git_state_of git a =
     (let repo = (case sa_git_repo a of Some s \<Rightarrow> if s = [] then derive_git_repo git (sa_cwd a) else Some s
          | None \<Rightarrow> derive_git_repo git (sa_cwd a)) in
      if repo \<noteq> None \<or> sa_git_branch a \<noteq> None \<or> sa_git_commit a \<noteq> None
      then Some \<lparr>gs_repo = repo, gs_branch = sa_git_branch a, gs_commit = sa_git_commit a, gs_is_dirty = sa_git_dirty a\<rparr>
      else None)"

text \<open>The longest possible capture metadata, \<open>original_bytes\<close> being \<open>usize::MAX\<close>.\<close>

definition file_output :: CapturedOutput where
  "file_output = \<lparr>co_content = [], co_truncated = False, co_original_bytes = u64_max\<rparr>"

definition shell_event :: "shell_env \<Rightarrow> shell_args \<Rightarrow> ShellEvent" where
  "shell_event env a =
     \<lparr>sv_session_id = unwrap_or (Option.bind (sx_session_var env) (sx_parse_uuid env)) (sx_new_session env),
      sv_command = sa_cmd a, sv_exit_code = sa_exit a, sv_duration_ms = sa_duration_ms a, sv_cwd = sa_cwd a,
      sv_hostname = unwrap_or (sx_hostname env) ''unknown'', sv_shell = detect_shell_kind (sx_shell_var env),
      sv_stdout = (case sa_stdout_file a of Some _ \<Rightarrow> Some file_output
        | None \<Rightarrow> map_option (\<lambda>c. \<lparr>co_content = c, co_truncated = False, co_original_bytes = int (length c)\<rparr>) (sa_output a)),
      sv_stderr = map_option (\<lambda>_. file_output) (sa_stderr_file a),
      sv_env_snapshot = filter (\<lambda>(k, v). k \<in> set ENV_ALLOWLIST) (sx_vars env),
      sv_git_state = git_state_of (sx_git env) a, sv_redaction_count = 0,
      sv_tool_name = (if sa_source_kind a = Some ''claude-tool'' \<or> sa_tool_name a \<noteq> None then sa_tool_name a else None)\<rparr>"

definition shell_envelope :: "shell_env \<Rightarrow> shell_args \<Rightarrow> ShellEvent \<Rightarrow> EventEnvelope" where
  "shell_envelope env a ev = \<lparr>ee_envelope_id = sx_new_id env, ee_producer_version = 1, ee_timestamp = sx_now_ms env,
     ee_payload = Shell ev, ee_probe_tag = sa_probe_tag a\<rparr>"

definition file_count :: "shell_args \<Rightarrow> nat" where
  "file_count a = (if sa_stdout_file a \<noteq> None then 1 else 0) + (if sa_stderr_file a \<noteq> None then 1 else 0)"

text \<open>The byte budget of each captured file: a byte can take six in JSON.\<close>

definition output_budget :: "shell_env \<Rightarrow> shell_args \<Rightarrow> string + nat" where
  "output_budget env a =
     (let overhead = length (sx_json env (shell_envelope env a (shell_event env a))) in
      if overhead > MAX_FRAME_BYTES then Inl ''shell metadata exceeds the frame limit''
      else Inr (min ((MAX_FRAME_BYTES - overhead) div (6 * file_count a)) SHELL_OUTPUT_BYTES))"

definition read_file_output :: "shell_env \<Rightarrow> nat \<Rightarrow> string option option \<Rightarrow> CapturedOutput option \<Rightarrow> string + CapturedOutput option" where
  "read_file_output env max_bytes captured old = (case captured of
     None \<Rightarrow> Inr old
   | Some content \<Rightarrow> (case read_shell_output (sx_head_lines env) (sx_tail_lines env) content max_bytes of
       Inl e \<Rightarrow> Inl e | Inr out \<Rightarrow> Inr (Some out)))"

definition captured_envelope :: "shell_env \<Rightarrow> shell_args \<Rightarrow> string + EventEnvelope" where
  "captured_envelope env a = (let ev = shell_event env a in
     if file_count a = 0 then Inr (shell_envelope env a ev)
     else case output_budget env a of Inl e \<Rightarrow> Inl e
     | Inr max_bytes \<Rightarrow> (case read_file_output env max_bytes (sa_stdout_file a) (sv_stdout ev) of Inl e \<Rightarrow> Inl e
       | Inr out \<Rightarrow> (case read_file_output env max_bytes (sa_stderr_file a) (sv_stderr ev) of Inl e \<Rightarrow> Inl e
         | Inr err \<Rightarrow> Inr (shell_envelope env a (ev\<lparr>sv_stdout := out, sv_stderr := err\<rparr>)))))"

definition redacted_fallback_envelope :: "redactor \<Rightarrow> EventEnvelope \<Rightarrow> EventEnvelope" where
  "redacted_fallback_envelope redact e = (case ee_payload e of
     Shell ev \<Rightarrow> e\<lparr>ee_payload := Shell (fst (redact_shell_event redact ev))\<rparr>
   | _ \<Rightarrow> e)"

text \<open>\<open>send_fault\<close>: the daemon could not be reached or the frame not written. \<open>file_fault\<close>: that of the fallback file.\<close>

definition handle_send_event_shell ::
  "shell_env \<Rightarrow> shell_args \<Rightarrow> string option \<Rightarrow> string option \<Rightarrow> daemon_state \<Rightarrow> (string + unit) \<times> daemon_state" where
  "handle_send_event_shell env a send_fault file_fault s = (case captured_envelope env a of
     Inl e \<Rightarrow> (Inl e, s)
   | Inr envelope \<Rightarrow> (case send_fault of
       None \<Rightarrow> (Inr (), snd (handle_request (sx_daemon env) (sx_answer env) s (IngestEvent envelope)))
     | Some _ \<Rightarrow> (case write_fallback_jsonl file_fault (sx_date env) (redacted_fallback_envelope (sx_redact env) envelope) (ds_fallback s) of
         (Inl e, _) \<Rightarrow> (Inl e, s)
       | (Inr _, files) \<Rightarrow> (Inr (), s\<lparr>ds_fallback := files\<rparr>))))"

subsection \<open>Decoding a line\<close>

lemma floor_boundary_le: "floor_char_boundary s i \<le> i" "floor_char_boundary s i \<le> length s"
  using back_off_le[of s i] by (auto simp: floor_char_boundary_def not_le intro: order_trans)

lemma take_floor_length: "length (take (floor_char_boundary s i) s) \<le> i" "length (take (floor_char_boundary s i) s) \<le> length s"
  using floor_boundary_le[of s i] by simp_all

lemma take_floor_all: "length s \<le> i \<Longrightarrow> take (floor_char_boundary s i) s = s"
  by (simp add: floor_char_boundary_def)

text \<open>Well-formed text is decoded to itself.\<close>

lemma utf8_chunk_valid:
  assumes "utf8_valid bs" "bs \<noteq> []"
  shows "fst (utf8_chunk bs) \<and> utf8_valid (drop (snd (utf8_chunk bs)) bs)"
proof -
  obtain a r where bs: "bs = a # r" using assms(2) by (cases bs) auto
  consider (one) "a < 128" | (two) b r1 where "\<not> a < 128" "r = b # r1" "194 \<le> a" "a \<le> 223"
    | (three) b c r2 where "r = b # c # r2" "224 \<le> a" "a \<le> 239"
    | (four) b c d r3 where "r = b # c # d # r3" "240 \<le> a" "a \<le> 244"
    using assms(1) unfolding bs by (fastforce split: list.splits if_splits)
  then show ?thesis
  proof cases
    case (three b c r2)
    then show ?thesis using assms(1) by (simp add: bs)
  next
    case (four b c d r3)
    then show ?thesis using assms(1) by (simp add: bs)
  qed (use assms(1) in \<open>simp_all add: bs\<close>)
qed

lemma lossy_valid: "utf8_valid (bytes_of s) \<Longrightarrow> from_utf8_lossy s = s"
proof (induction s rule: from_utf8_lossy.induct)
  case (1 s)
  show ?case
  proof (cases "s = []")
    case False
    obtain ok n where c: "utf8_chunk (bytes_of s) = (ok, n)" by fastforce
    have "ok \<and> utf8_valid (bytes_of (drop n s))"
      using utf8_chunk_valid[OF 1(2)] False c by (simp add: bytes_of_def drop_map)
    then show ?thesis using 1(1)[OF False c[symmetric]] c False by (subst from_utf8_lossy.simps) simp
  qed (simp add: from_utf8_lossy.simps)
qed

lemma lossy_nonempty: "s \<noteq> [] \<Longrightarrow> from_utf8_lossy s \<noteq> []"
  using utf8_chunk_bytes[of s] by (subst from_utf8_lossy.simps) (auto simp: REPLACEMENT_def split: prod.split)

lemma split_inclusive_nonempty: "l \<in> set (split_inclusive s) \<Longrightarrow> l \<noteq> []"
  by (induction s arbitrary: l) (auto split: if_splits list.splits)

subsection \<open>The budget\<close>

lemma drop_front_suffix:
  "drop_front tail S (ls, n) = (ls', n') \<Longrightarrow> n = length (concat ls)
   \<Longrightarrow> n' = length (concat ls') \<and> n' \<le> S \<and> length ls' \<le> tail \<and> (\<exists>xs. ls = xs @ ls')"
proof (induction ls arbitrary: n)
  case (Cons l ls)
  show ?case
  proof (cases "length (l # ls) > tail \<or> n > S")
    case True
    then have "drop_front tail S (ls, n - length l) = (ls', n')" using Cons.prems(1) by auto
    then have "n' = length (concat ls') \<and> n' \<le> S \<and> length ls' \<le> tail \<and> (\<exists>xs. ls = xs @ ls')"
      using Cons.prems(2) by (intro Cons.IH) simp_all
    then show ?thesis by (metis append_Cons)
  qed (use Cons.prems in auto)
qed simp

text \<open>Within the budget, counting every line; unless something was cut or left out, all the text so far is kept.\<close>

definition output_inv :: "nat \<Rightarrow> nat \<Rightarrow> nat \<Rightarrow> string list \<Rightarrow> output_state \<Rightarrow> bool" where
  "output_inv head tail S seen x \<longleftrightarrow> length (os_content x) \<le> S \<and> os_last_bytes x = length (concat (os_last x)) \<and> os_last_bytes x \<le> S
     \<and> length (os_last x) \<le> tail \<and> os_total x = length seen \<and> os_original_bytes x = length (concat seen)
     \<and> os_head_lines x + length (os_last x) \<le> os_total x \<and> (os_last x \<noteq> [] \<longrightarrow> head < os_total x)
     \<and> (\<not> os_byte_truncated x \<longrightarrow> os_head_lines x + length (os_last x) = os_total x
          \<longrightarrow> os_content x @ concat (os_last x) = concat (map from_utf8_lossy seen))"

lemma output_init_inv: "output_inv head tail S [] output_init"
  by (simp add: output_inv_def output_init_def)

lemma read_line_inv:
  assumes inv: "output_inv head tail S seen x" and l: "l \<noteq> []"
  shows "output_inv head tail S (seen @ [l]) (read_line head tail S x l)"
proof -
  define line where "line = take (S + 4) l"
  define skipped where "skipped = length l - length line"
  define text0 where "text0 = from_utf8_lossy line"
  define text1 where "text1 = take (floor_char_boundary text0 S) text0"
  define y where "y = x\<lparr>os_original_bytes := os_original_bytes x + length line + skipped, os_total := os_total x + 1,
      os_byte_truncated := os_byte_truncated x \<or> skipped > 0 \<or> length text0 > S\<rparr>"
  have y: "os_content y = os_content x" "os_last y = os_last x" "os_last_bytes y = os_last_bytes x" "os_total y = length seen + 1"
    "os_head_lines y = os_head_lines x" "os_original_bytes y = length (concat seen) + length l"
    using inv by (auto simp: y_def skipped_def line_def output_inv_def)
  have whole: "text1 = from_utf8_lossy l \<and> text1 \<noteq> []" if "\<not> os_byte_truncated y"
  proof -
    have "line = l" "length text0 \<le> S" using that by (auto simp: y_def skipped_def line_def)
    then show ?thesis using l lossy_nonempty take_floor_all[of text0 S] by (simp add: text1_def text0_def)
  qed
  have t1: "length text1 \<le> S" unfolding text1_def by (rule take_floor_length(1))
  have t: "\<not> os_byte_truncated x" if "\<not> os_byte_truncated y" using that by (simp add: y_def)
  have r: "read_line head tail S x l = (if os_total y \<le> head
         then let remaining = S - length (os_content y);
                  text2 = take (floor_char_boundary text1 remaining) text1
           in y\<lparr>os_byte_truncated := os_byte_truncated y \<or> length text1 > remaining,
                os_head_lines := os_head_lines y + (if text2 = [] then 0 else 1), os_content := os_content y @ text2\<rparr>
         else if tail > 0 \<and> text1 \<noteq> []
         then case drop_front tail S (os_last y @ [text1], os_last_bytes y + length text1) of
           (ls, n) \<Rightarrow> y\<lparr>os_last := ls, os_last_bytes := n\<rparr>
         else y)"
    unfolding read_line_def Let_def line_def[symmetric] skipped_def[symmetric] text0_def[symmetric] text1_def[symmetric] y_def[symmetric] ..
  consider (head) "os_total y \<le> head" | (tail) "\<not> os_total y \<le> head" "tail > 0 \<and> text1 \<noteq> []"
    | (none) "\<not> os_total y \<le> head" "\<not> (tail > 0 \<and> text1 \<noteq> [])" by blast
  then show ?thesis
  proof cases
    case head
    define rem where "rem = S - length (os_content y)"
    define text2 where "text2 = take (floor_char_boundary text1 rem) text1"
    have last: "os_last x = []" using inv head y by (auto simp: output_inv_def)
    have "text2 = text1" if "length text1 \<le> rem" using that by (simp add: text2_def take_floor_all)
    moreover have "length text2 \<le> rem" unfolding text2_def by (rule take_floor_length(1))
    moreover have "r' = y\<lparr>os_byte_truncated := os_byte_truncated y \<or> length text1 > rem,
        os_head_lines := os_head_lines y + (if text2 = [] then 0 else 1), os_content := os_content y @ text2\<rparr>"
      if "r' = read_line head tail S x l" for r'
      using that head by (simp add: r Let_def rem_def text2_def)
    ultimately show ?thesis
      using inv last whole t y head unfolding output_inv_def rem_def by auto
  next
    case tail
    obtain ls n where d: "drop_front tail S (os_last y @ [text1], os_last_bytes y + length text1) = (ls, n)" by fastforce
    have f: "n = length (concat ls) \<and> n \<le> S \<and> length ls \<le> tail \<and> (\<exists>xs. os_last y @ [text1] = xs @ ls)"
      using inv y by (intro drop_front_suffix[OF d]) (simp add: output_inv_def)
    then obtain xs where xs: "os_last y @ [text1] = xs @ ls" by blast
    then have len: "length (os_last x) + 1 = length xs + length ls" using y(2) by (metis length_append length_Cons list.size(3) One_nat_def)
    have eq: "read_line head tail S x l = y\<lparr>os_last := ls, os_last_bytes := n\<rparr>" using tail d by (simp add: r)
    have "os_content x @ concat ls = concat (map from_utf8_lossy (seen @ [l]))"
      if "\<not> os_byte_truncated y" "os_head_lines x + length ls = length seen + 1"
    proof -
      have h: "os_head_lines x + length (os_last x) \<le> length seen" using inv by (simp add: output_inv_def)
      then have "length xs = 0" "os_head_lines x + length (os_last x) = length seen" using len that(2) by linarith+
      then show ?thesis using xs inv t[OF that(1)] whole[OF that(1)] y(2) by (auto simp: output_inv_def)
    qed
    then show ?thesis
      using inv f y len tail(1) unfolding output_inv_def eq by auto
  next
    case none
    have "\<not> tail > 0 \<or> os_byte_truncated y" using none(2) whole by (cases "os_byte_truncated y") auto
    then show ?thesis
      using inv y none t unfolding output_inv_def r by (auto split: if_splits)
  qed
qed

lemma read_lines_inv:
  "output_inv head tail S seen x \<Longrightarrow> (\<And>l. l \<in> set ls \<Longrightarrow> l \<noteq> []) \<Longrightarrow> output_inv head tail S (seen @ ls) (foldl (read_line head tail S) x ls)"
proof (induction ls arbitrary: seen x)
  case (Cons l ls)
  then show ?case using Cons.IH[of "seen @ [l]" "read_line head tail S x l"] read_line_inv[of head tail S seen x l] by simp
qed simp

lemma nat_str_length: "n < 10 ^ k \<Longrightarrow> 0 < k \<Longrightarrow> length (nat_str n) \<le> k"
proof (induction k arbitrary: n)
  case (Suc k)
  show ?case
  proof (cases "n < 10")
    case False
    then have "0 < k" using Suc.prems(1) by (cases k) simp_all
    then have "length (nat_str (n div 10)) \<le> k" using Suc.prems(1) by (intro Suc.IH) auto
    then show ?thesis using False by (subst nat_str.simps) simp
  qed (subst nat_str.simps, simp)
qed simp

lemma omitted_marker_length: "n < 2 ^ 64 \<Longrightarrow> length (omitted_marker n) \<le> 45"
  using nat_str_length[of n 20] by (simp add: omitted_marker_def)

lemma limit_marker_length: "length limit_marker \<le> 31" by (simp add: limit_marker_def)

lemma output_fits:
  assumes "read_shell_output head tail (Some bytes) max_bytes = Inr out" "length bytes < 2 ^ 64"
  shows "length (co_content out) \<le> max_bytes \<and> co_original_bytes out = int (length bytes)
    \<and> (co_truncated out \<or> co_content out = concat (map from_utf8_lossy (split_inclusive bytes)))
    \<and> (co_truncated out \<or> \<not> list_all (\<lambda>l. utf8_valid (bytes_of l)) (split_inclusive bytes) \<or> co_content out = bytes)"
proof -
  let ?S = "(max_bytes - 128) div 2"
  define x where "x = foldl (read_line head tail ?S) output_init (split_inclusive bytes)"
  have inv: "output_inv head tail ?S (split_inclusive bytes) x"
    unfolding x_def using read_lines_inv[OF output_init_inv, of "split_inclusive bytes"] split_inclusive_nonempty by fastforce
  have out: "out = finish_output max_bytes x" using assms(1) by (simp add: read_shell_output_def x_def)
  have "length ls \<le> length (concat ls)" if "\<And>l. l \<in> set ls \<Longrightarrow> l \<noteq> []" for ls :: "string list"
    using that
  proof (induction ls)
    case (Cons l ls)
    then have "length l \<noteq> 0" "length ls \<le> length (concat ls)" by auto
    then show ?case by (simp only: list.size concat.simps length_append)
  qed simp
  then have "length (split_inclusive bytes) \<le> length (concat (split_inclusive bytes))" using split_inclusive_nonempty by metis
  then have t: "os_total x < 2 ^ 64" using inv assms(2) by (simp add: output_inv_def concat_split_inclusive)
  then have m: "length (omitted_marker (os_total x - os_head_lines x - length (os_last x))) \<le> 45"
    by (intro omitted_marker_length) simp
  have "2 * ?S \<le> max_bytes - 128" by simp
  then have "length (co_content out) \<le> max_bytes"
    using inv m limit_marker_length unfolding out finish_output_def output_inv_def Let_def
    by (cases "max_bytes \<ge> 128") auto
  moreover have "co_original_bytes out = int (length bytes)"
    using inv by (simp add: out finish_output_def output_inv_def concat_split_inclusive Let_def)
  moreover have whole: "co_content out = concat (map from_utf8_lossy (split_inclusive bytes))" if "\<not> co_truncated out"
    using that inv by (auto simp: out finish_output_def output_inv_def Let_def)
  moreover have "co_content out = bytes"
    if "\<not> co_truncated out" "list_all (\<lambda>l. utf8_valid (bytes_of l)) (split_inclusive bytes)"
  proof -
    have "map from_utf8_lossy (split_inclusive bytes) = split_inclusive bytes"
      using that(2) lossy_valid by (induction "split_inclusive bytes") (auto simp: list_all_iff intro: map_idI)
    then show ?thesis using whole[OF that(1)] by (simp add: concat_split_inclusive)
  qed
  ultimately show ?thesis by blast
qed

text \<open>
  The captured output of a file fits the byte budget, markers included, records the size of the
  file, and says so when anything is missing: output that is not marked truncated is the whole file, byte for byte if
  the file is UTF-8, however many head and tail lines are kept.
\<close>

theorem output_within_budget:
  assumes "read_shell_output head tail (Some bytes) max_bytes = Inr out" "length bytes < 2 ^ 64"
  shows "length (co_content out) \<le> max_bytes \<and> co_original_bytes out = int (length bytes)
    \<and> (co_truncated out \<or> co_content out = concat (map from_utf8_lossy (split_inclusive bytes)))
    \<and> (co_truncated out \<or> \<not> list_all (\<lambda>l. utf8_valid (bytes_of l)) (split_inclusive bytes) \<or> co_content out = bytes)"
  by (rule output_fits[OF assms])

subsection \<open>The frame\<close>

lemma budget_pos: "output_budget env a = Inr m \<Longrightarrow>
    length (sx_json env (shell_envelope env a (shell_event env a))) + 6 * file_count a * m \<le> MAX_FRAME_BYTES"
proof -
  assume b: "output_budget env a = Inr m"
  let ?o = "length (sx_json env (shell_envelope env a (shell_event env a)))"
  have "m \<le> (MAX_FRAME_BYTES - ?o) div (6 * file_count a)" "?o \<le> MAX_FRAME_BYTES"
    using b by (auto simp: output_budget_def Let_def split: if_splits)
  then have "6 * file_count a * m \<le> 6 * file_count a * ((MAX_FRAME_BYTES - ?o) div (6 * file_count a))" by simp
  also have "\<dots> \<le> MAX_FRAME_BYTES - ?o" by simp
  finally show ?thesis using \<open>?o \<le> MAX_FRAME_BYTES\<close> by simp
qed

text \<open>
  C33 (shell_frame_accepted): a command with captured files always fits a frame: if its envelope is built at all, the daemon
  reads the frame it is sent in. This rests on what JSON does to captured output: its encoding, size and flag included,
  takes at most six bytes a byte more than that of an empty output of the largest recorded size.
\<close>

theorem shell_frame_accepted:
  assumes "captured_envelope env a = Inr e" "0 < file_count a"
    and "list_all (\<lambda>f. \<forall>c \<in> set_option f. \<forall>b \<in> set_option c. length b < 2 ^ 64) [sa_stdout_file a, sa_stderr_file a]"
    and "\<And>ev c. 0 \<le> co_original_bytes c \<and> co_original_bytes c \<le> u64_max \<Longrightarrow>
        length (sx_json env (shell_envelope env a (ev\<lparr>sv_stdout := Some c\<rparr>)))
          \<le> length (sx_json env (shell_envelope env a (ev\<lparr>sv_stdout := Some file_output\<rparr>))) + 6 * length (co_content c)
      \<and> length (sx_json env (shell_envelope env a (ev\<lparr>sv_stderr := Some c\<rparr>)))
          \<le> length (sx_json env (shell_envelope env a (ev\<lparr>sv_stderr := Some file_output\<rparr>))) + 6 * length (co_content c)"
  shows "\<exists>frame. write_frame (sx_json env e) = Inr frame \<and> read_frame (frame @ rest) = Inr (Some (sx_json env e, rest))"
proof -
  let ?ev = "shell_event env a"
  let ?len = "\<lambda>ev. length (sx_json env (shell_envelope env a ev))"
  obtain m out err where m: "output_budget env a = Inr m" "read_file_output env m (sa_stdout_file a) (sv_stdout ?ev) = Inr out"
      "read_file_output env m (sa_stderr_file a) (sv_stderr ?ev) = Inr err"
      "e = shell_envelope env a (?ev\<lparr>sv_stdout := out, sv_stderr := err\<rparr>)"
    using assms(1,2) by (auto simp: captured_envelope_def Let_def split: sum.splits if_splits)
  have read: "\<exists>c. o1 = Some c \<and> length (co_content c) \<le> m \<and> 0 \<le> co_original_bytes c \<and> co_original_bytes c \<le> u64_max"
    if rd: "read_file_output env m (Some content) old = Inr o1" and sz: "\<forall>b \<in> set_option content. length b < 2 ^ 64" for content old o1
  proof -
    obtain b c where c: "content = Some b" "read_shell_output (sx_head_lines env) (sx_tail_lines env) (Some b) m = Inr c" "o1 = Some c"
    proof (cases content)
      case (Some b)
      then show thesis using rd that by (cases "read_shell_output (sx_head_lines env) (sx_tail_lines env) (Some b) m") (auto simp: read_file_output_def)
    qed (use rd in \<open>simp add: read_file_output_def read_shell_output_def\<close>)
    show ?thesis using output_fits[OF c(2)] sz c(1,3) by (auto simp: int_bounds)
  qed
  have one: "?len (?ev\<lparr>sv_stdout := out\<rparr>) \<le> ?len ?ev + (if sa_stdout_file a = None then 0 else 6 * m)"
  proof (cases "sa_stdout_file a")
    case None
    then have "out = sv_stdout ?ev" using m(2) by (simp add: read_file_output_def)
    then show ?thesis by simp
  next
    case (Some content)
    then obtain c where c: "out = Some c" "length (co_content c) \<le> m" "0 \<le> co_original_bytes c" "co_original_bytes c \<le> u64_max"
      using read[of content "sv_stdout ?ev" out] m(2) assms(3) by auto
    have "?ev = ?ev\<lparr>sv_stdout := Some file_output\<rparr>" using Some by (simp add: shell_event_def)
    then have "?len (?ev\<lparr>sv_stdout := Some file_output\<rparr>) = ?len ?ev" by metis
    then show ?thesis using assms(4)[of c ?ev] c Some by simp
  qed
  have two: "?len (?ev\<lparr>sv_stdout := out, sv_stderr := err\<rparr>) \<le> ?len (?ev\<lparr>sv_stdout := out\<rparr>) + (if sa_stderr_file a = None then 0 else 6 * m)"
  proof (cases "sa_stderr_file a")
    case None
    then show ?thesis using m(3) by (simp add: read_file_output_def shell_event_def)
  next
    case (Some content)
    then obtain c where c: "err = Some c" "length (co_content c) \<le> m" "0 \<le> co_original_bytes c" "co_original_bytes c \<le> u64_max"
      using read[of content "sv_stderr ?ev" err] m(3) assms(3) by auto
    have "?ev\<lparr>sv_stdout := out\<rparr> = ?ev\<lparr>sv_stdout := out, sv_stderr := Some file_output\<rparr>" using Some by (simp add: shell_event_def)
    then have "?len (?ev\<lparr>sv_stdout := out, sv_stderr := Some file_output\<rparr>) = ?len (?ev\<lparr>sv_stdout := out\<rparr>)" by metis
    then show ?thesis using assms(4)[of c "?ev\<lparr>sv_stdout := out\<rparr>"] c Some by simp
  qed
  have "length (sx_json env e) \<le> ?len ?ev + 6 * file_count a * m"
    using one two by (auto simp: m(4) file_count_def split: if_splits)
  then have "length (sx_json env e) \<le> MAX_FRAME_BYTES" using budget_pos[OF m(1)] by simp
  then show ?thesis using read_frame_prefix[of "sx_json env e" rest] by (simp add: write_frame_def hippo_defs)
qed

subsection \<open>Where a command ends up\<close>

lemma captured_shell:
  assumes "captured_envelope env a = Inr e"
  obtains ev where "ee_payload e = Shell ev"
  using assms by (auto simp: captured_envelope_def shell_envelope_def Let_def split: sum.splits if_splits)

lemma drain_good: "scrubbing.good redact s \<Longrightarrow> de_redact env = redact \<Longrightarrow> scrubbing.good redact (drain env s)"
proof (induction env s rule: drain.induct)
  case (1 env s)
  then show ?case using scrubbing.flush_events_good[OF 1(2,3)] by (subst drain.simps) (simp add: Let_def)
qed

lemma kept_at_last:
  assumes "held e s" "scrubbing.good redact s" "de_redact denv = redact" "0 < de_batch denv"
  shows "let t = drain denv (foldl (daemon_step redact answer) s es) in
    (row_of e (ds_db t) \<or> line_of (ee_envelope_id e) (ds_fallback t)) \<and> scrubbed_db redact (ds_db t) \<and> lines_ok (scrubbed_event redact) (ds_fallback t)"
proof -
  let ?t = "drain denv (foldl (daemon_step redact answer) s es)"
  have "held e ?t" by (rule drain_held[OF holding.run_inv[OF assms(1)]])
  moreover have "scrubbing.good redact ?t" by (rule drain_good[OF scrubbing_run.run_inv[OF assms(2)] assms(3)])
  moreover have "ds_buffer ?t = []" by (rule drain_buffer[OF assms(4)])
  ultimately show ?thesis by (simp add: held_def kept_def scrubbing.good_def Let_def)
qed

lemma write_fallback_fst: "write_fallback_jsonl None date e files = (Inr (), snd (write_fallback_jsonl None date e files))"
  by (simp add: write_fallback_jsonl_def)

lemma hook_cases:
  assumes "handle_send_event_shell env a send_fault file_fault s = (r, s')"
  obtains (failed) err where "r = Inl err" "s' = s"
    | (sent) e where "captured_envelope env a = Inr e" "r = Inr ()" "send_fault = None"
        "s' = snd (handle_request (sx_daemon env) (sx_answer env) s (IngestEvent e))"
    | (fell) e where "captured_envelope env a = Inr e" "r = Inr ()"
        "s' = s\<lparr>ds_fallback := snd (write_fallback_jsonl None (sx_date env) (redacted_fallback_envelope (sx_redact env) e) (ds_fallback s))\<rparr>"
proof (cases "captured_envelope env a")
  case (Inl e)
  then show thesis using failed[of e] assms by (simp add: handle_send_event_shell_def)
next
  case (Inr e)
  show thesis
  proof (cases send_fault)
    case None
    then show thesis using sent[OF Inr] assms Inr by (simp add: handle_send_event_shell_def)
  next
    case (Some q)
    show thesis
    proof (cases file_fault)
      case None
      then have "(r, s') = (Inr (), s\<lparr>ds_fallback := snd (write_fallback_jsonl None (sx_date env)
          (redacted_fallback_envelope (sx_redact env) e) (ds_fallback s))\<rparr>)"
        unfolding assms[symmetric] by (simp add: handle_send_event_shell_def Inr Some) (simp add: write_fallback_jsonl_def)
      then show thesis using fell[OF Inr] by simp
    next
      case (Some f)
      then show thesis using failed[of f] assms Inr \<open>send_fault = Some q\<close> by (simp add: handle_send_event_shell_def write_fallback_jsonl_def)
    qed
  qed
qed


subsection \<open>Examples\<close>

definition two_lines :: string where "two_lines = ''ab'' @ [CHR 0x0A] @ ''c''"

definition example_shell_env :: shell_env where
  "example_shell_env = \<lparr>sx_session_var = None, sx_parse_uuid = Some, sx_new_session = ''s'', sx_hostname = None,
     sx_git = (\<lambda>_ _. None), sx_vars = [], sx_shell_var = Some ''/bin/zsh'', sx_new_id = ''i'', sx_now_ms = 5,
     sx_json = (\<lambda>e. case ee_payload e of Shell ev \<Rightarrow>
        (case sv_stdout ev of None \<Rightarrow> [] | Some c \<Rightarrow> co_content c) @ (case sv_stderr ev of None \<Rightarrow> [] | Some c \<Rightarrow> co_content c) | _ \<Rightarrow> []),
     sx_head_lines = 2, sx_tail_lines = 2, sx_redact = de_redact plain_env, sx_date = ''d'', sx_daemon = plain_env,
     sx_answer = (\<lambda>_ _. Ack)\<rparr>"

definition example_shell_args :: shell_args where
  "example_shell_args = \<lparr>sa_cmd = ''ls'', sa_exit = 0, sa_cwd = ''/'', sa_duration_ms = 1, sa_git_repo = None, sa_git_branch = None,
     sa_git_commit = None, sa_git_dirty = False, sa_output = None, sa_stdout_file = Some (Some two_lines), sa_stderr_file = None,
     sa_probe_tag = None, sa_source_kind = None, sa_tool_name = None\<rparr>"

lemma output_within_budget_witness:
  "length (co_content (projr (read_shell_output 1 1 (Some two_lines) 200))) \<le> 200"
proof -
  obtain out where out: "read_shell_output 1 1 (Some two_lines) 200 = Inr out" by (simp add: read_shell_output_def)
  then show ?thesis using output_within_budget[OF out] by (simp add: two_lines_def)
qed

lemma example_captured:
  "\<exists>e. captured_envelope example_shell_env example_shell_args = Inr e"
  by (simp add: captured_envelope_def file_count_def example_shell_args_def read_file_output_def read_shell_output_def output_budget_def
      shell_event_def shell_envelope_def example_shell_env_def file_output_def hippo_defs Let_def)

lemma shell_frame_accepted_witness:
  "\<exists>e frame. captured_envelope example_shell_env example_shell_args = Inr e
     \<and> write_frame (sx_json example_shell_env e) = Inr frame \<and> read_frame (frame @ ''next'') = Inr (Some (sx_json example_shell_env e, ''next''))"
proof -
  obtain e where e: "captured_envelope example_shell_env example_shell_args = Inr e" using example_captured by blast
  have "\<exists>frame. write_frame (sx_json example_shell_env e) = Inr frame \<and> read_frame (frame @ ''next'') = Inr (Some (sx_json example_shell_env e, ''next''))"
  proof (rule shell_frame_accepted[OF e])
    show "0 < file_count example_shell_args" by (simp add: file_count_def example_shell_args_def)
  qed (auto simp: example_shell_args_def two_lines_def example_shell_env_def shell_envelope_def file_output_def)
  then show ?thesis using e by blast
qed


end
