(* ===== verification/Backfill.thy ===== *)
theory Backfill
  imports ClaudeWatch
begin

text \<open>
  The backfill command (\<open>hippo-daemon/src/backfill.rs\<close>): transcripts found by a glob pattern are parsed and stored
  again, and their offsets reset. The glob library, the home directory and the contents of the files are parameters; a
  fault argument makes the statement it stands for fail.
\<close>

record BackfillSummary =
  bf_files_matched :: nat
  bf_files_processed :: nat
  bf_files_errored :: nat
  bf_segments_updated :: nat
  bf_segments_unchanged :: nat
  bf_subagent_identity_repaired :: nat
  bf_subagent_rows :: nat
  bf_subagent_rows_with_agent :: nat

subsection \<open>The files\<close>

text \<open>\<open>PathBuf::join\<close>: an absolute path replaces the base.\<close>

definition path_join :: "string \<Rightarrow> string \<Rightarrow> string" where
  "path_join base rest = (if starts_with rest ''/'' then rest else if ends_with base ''/'' then base @ rest else base @ ''/'' @ rest)"

definition expand_tilde :: "string option \<Rightarrow> string \<Rightarrow> string + string" where
  "expand_tilde home pattern =
     (if pattern = ''~'' then (case home of None \<Rightarrow> Inl ''could not determine home directory for `~`'' | Some h \<Rightarrow> Inr h)
      else case strip_prefix pattern ''~/'' of
        Some rest \<Rightarrow> (case home of None \<Rightarrow> Inl ''could not determine home directory for `~/`'' | Some h \<Rightarrow> Inr (path_join h rest))
      | None \<Rightarrow> Inr pattern)"

text \<open>A glob match: its path (\<open>None\<close> if it could not be read), whether it is a file, its modification time in seconds.\<close>

record glob_entry =
  ge_path :: "path option"
  ge_is_file :: bool
  ge_mtime_secs :: "int option"

definition glob_match :: "int option \<Rightarrow> glob_entry \<Rightarrow> path option" where
  "glob_match since_secs e = (case ge_path e of
     None \<Rightarrow> None
   | Some p \<Rightarrow> if \<not> ge_is_file e then None
       else case since_secs of
         Some cutoff \<Rightarrow> if unwrap_or (ge_mtime_secs e) 0 < cutoff then None else Some p
       | None \<Rightarrow> Some p)"

definition collect_paths ::
  "string option \<Rightarrow> (string \<Rightarrow> string + glob_entry list) \<Rightarrow> string \<Rightarrow> int option \<Rightarrow> string + path list" where
  "collect_paths home glob pattern since_secs =
     rbind (expand_tilde home pattern) (\<lambda>expanded.
     rbind (glob expanded) (\<lambda>entries. Inr (sort (List.map_filter (glob_match since_secs) entries))))"

subsection \<open>One file\<close>

text \<open>An update of no row is no error.\<close>

definition reset_offset :: "string option \<Rightarrow> path \<Rightarrow> offsets \<Rightarrow> (string + unit) \<times> offsets" where
  "reset_offset fault p rows = (case fault of
     Some e \<Rightarrow> (Inl e, rows)
   | None \<Rightarrow> (Inr (), map (\<lambda>(q, r). if q = p then (q, r\<lparr>of_size_at_last_read := 0\<rparr>) else (q, r)) rows))"

definition subagent_agent_coverage :: "path \<Rightarrow> agentic_session list \<Rightarrow> nat \<times> nat" where
  "subagent_agent_coverage p rows =
     (let session_id = (case file_name p of None \<Rightarrow> [] | Some n \<Rightarrow> file_stem n);
          sub = filter (\<lambda>r. as_session_id r = session_id \<and> as_harness r = ''claude-code'' \<and> as_is_subagent r \<and> as_probe_tag r = None) rows
      in (length sub, length (filter (\<lambda>r. unwrap_or (sm_agent_type (as_subagent r)) [] \<noteq> []) sub)))"

text \<open>What a file holds and what fails while it is handled.\<close>

record backfill_file =
  bx_meta :: "json option"
  bx_lines :: "json option list option"
  bx_reset_fault :: "string option"
  bx_ingest_faults :: "sqlite_error option list"
  bx_coverage_fault :: "string option"

record backfill_state =
  bs_db :: claude_db
  bs_offsets :: offsets
  bs_summary :: BackfillSummary

definition backfill_one ::
  "extract_env \<Rightarrow> store_env \<Rightarrow> (path \<Rightarrow> backfill_file) \<Rightarrow> backfill_state \<Rightarrow> path \<Rightarrow> backfill_state" where
  "backfill_one env senv disk s p =
     (let f = disk p;
          offsets = snd (reset_offset (bx_reset_fault f) p (bs_offsets s));
          m = bs_summary s in
      case ingest_session_file env senv p (bx_meta f) (bx_lines f) (bs_db s, bx_ingest_faults f) of ((inserted, skipped, errors), db) \<Rightarrow>
      (let m1 = m\<lparr>bf_files_errored := bf_files_errored m + (if errors > 0 then 1 else 0),
                  bf_files_processed := bf_files_processed m + (if errors > 0 then 0 else 1),
                  bf_segments_updated := bf_segments_updated m + inserted,
                  bf_segments_unchanged := bf_segments_unchanged m + skipped\<rparr>;
           m2 = (case bx_coverage_fault f of
               Some _ \<Rightarrow> m1
             | None \<Rightarrow> (case subagent_agent_coverage p (cd_sessions db) of (rows, filled) \<Rightarrow>
                 m1\<lparr>bf_subagent_rows := bf_subagent_rows m1 + rows,
                    bf_subagent_rows_with_agent := bf_subagent_rows_with_agent m1 + filled\<rparr>))
       in \<lparr>bs_db = db, bs_offsets = offsets, bs_summary = m2\<rparr>))"

subsection \<open>The run\<close>

definition empty_summary :: "nat \<Rightarrow> nat \<Rightarrow> BackfillSummary" where
  "empty_summary matched n = \<lparr>bf_files_matched = matched, bf_files_processed = 0, bf_files_errored = 0, bf_segments_updated = 0,
     bf_segments_unchanged = 0, bf_subagent_identity_repaired = n, bf_subagent_rows = 0, bf_subagent_rows_with_agent = 0\<rparr>"

text \<open>
  \<open>open_fault\<close>: opening the database. \<open>repair_fault\<close>: a batch of the identity repair fails, after that many batches were
  committed.
\<close>

definition run_backfill ::
  "extract_env \<Rightarrow> store_env \<Rightarrow> (path \<Rightarrow> backfill_file) \<Rightarrow> string option \<Rightarrow> (nat \<times> string) option \<Rightarrow> string + path list \<Rightarrow> bool
    \<Rightarrow> claude_db \<times> offsets \<Rightarrow> (string + BackfillSummary) \<times> claude_db \<times> offsets" where
  "run_backfill env senv disk open_fault repair_fault matched dry_run s = (case matched of
     Inl e \<Rightarrow> (Inl e, s)
   | Inr paths \<Rightarrow>
       if dry_run then (Inr (empty_summary (length paths) 0), s)
       else case open_fault of Some e \<Rightarrow> (Inl e, s)
       | None \<Rightarrow> (case repair_fault of
           Some (k, e) \<Rightarrow> (Inl e, (fst s)\<lparr>cd_sessions := fst (foldl (foldl apply_fix) (cd_sessions (fst s), 0)
             (take k (chunks REPAIR_BATCH_SIZE (repair_fixes (cd_sessions (fst s))))))\<rparr>, snd s)
         | None \<Rightarrow> (case repair_subagent_identity (cd_sessions (fst s)) of (rows, repaired_n) \<Rightarrow>
             (let t = foldl (backfill_one env senv disk)
                  \<lparr>bs_db = (fst s)\<lparr>cd_sessions := rows\<rparr>, bs_offsets = snd s, bs_summary = empty_summary (length paths) repaired_n\<rparr> paths
              in (Inr (bs_summary t), bs_db t, bs_offsets t)))))"

subsection \<open>What is stored\<close>

definition path_session :: "path \<Rightarrow> string" where
  "path_session p = (case file_name p of None \<Rightarrow> [] | Some n \<Rightarrow> file_stem n)"

definition file_segments :: "extract_env \<Rightarrow> store_env \<Rightarrow> (path \<Rightarrow> backfill_file) \<Rightarrow> path \<Rightarrow> SessionSegment list" where
  "file_segments env senv disk p = (case bx_lines (disk p) of None \<Rightarrow> []
     | Some ls \<Rightarrow> fst (extract_segments_for_ingest env (se_hash senv) (session_file p) (bx_meta (disk p)) ls))"

definition file_facts :: "extract_env \<Rightarrow> store_env \<Rightarrow> (path \<Rightarrow> backfill_file) \<Rightarrow> path \<Rightarrow> SessionFacts option" where
  "file_facts env senv disk p = (case bx_lines (disk p) of None \<Rightarrow> None
     | Some ls \<Rightarrow> Some (snd (extract_segments_for_ingest env (se_hash senv) (session_file p) (bx_meta (disk p)) ls)))"

text \<open>Everything the file holds is in its rows, and waiting, in work or enriched.\<close>

definition file_stored :: "extract_env \<Rightarrow> store_env \<Rightarrow> (path \<Rightarrow> backfill_file) \<Rightarrow> path \<Rightarrow> claude_db \<Rightarrow> bool" where
  "file_stored env senv disk p db \<longleftrightarrow>
     list_all (\<lambda>seg. settled senv (file_facts env senv disk p) seg db) (file_segments env senv disk p)"

lemma segments_session: "seg \<in> set (fst (extract_segments_for_ingest env h sf meta ls)) \<Longrightarrow> ss_session_id seg = sf_session_id sf"
  using extract_result_ok[of env h sf ls] by (auto simp: ingest_segments seg_ok_def)

lemma segment_session: "seg \<in> set (file_segments env senv disk p) \<Longrightarrow> ss_session_id seg = path_session p"
  using segments_session by (fastforce simp: file_segments_def path_session_def session_file_def Let_def split: option.splits)

lemma try_insert_failed:
  assumes "try_insert_segments senv segs facts (db, faults) = ((i, k, Suc e), db')"
  shows "db' = db"
proof -
  obtain r s' where w: "with_busy_retry (insert_segments_with_facts senv facts segs) (db, faults) = (r, s')" by (metis surj_pair)
  obtain r1 s1 where one: "insert_segments_with_facts senv facts segs (db, faults) = (r1, s1)" by (metis surj_pair)
  obtain x where r: "r = Inl x" "fst s' = db'"
    using assms w by (cases r; cases s') (auto simp: try_insert_segments_def split: prod.splits)
  show ?thesis
  proof (cases r1)
    case (Inr c)
    then show ?thesis using w one r(1) by (simp add: with_busy_retry_def)
  next
    case (Inl e1)
    then have f1: "fst s1 = db" using insert_attempt_failed one by metis
    show ?thesis
    proof (cases "r = r1 \<and> s' = s1")
      case False
      then have "insert_segments_with_facts senv facts segs s1 = (r, s')"
        using w one Inl by (auto simp: with_busy_retry_def split: if_splits)
      moreover have "s1 = (db, snd s1)" using f1 by (metis prod.collapse)
      ultimately have "insert_segments_with_facts senv facts segs (db, snd s1) = (Inl x, s')" using r(1) by simp
      then show ?thesis using insert_attempt_failed r(2) by metis
    qed (use f1 r in simp)
  qed
qed

text \<open>An ingest either stores all segments of the file, up to its facts, or changes nothing.\<close>

lemma ingest_effect:
  assumes "ingest_session_file env senv p (bx_meta (disk p)) (bx_lines (disk p)) (db, faults) = ((i, k, e), db')"
  shows "db' = db \<and> (e = 0 \<longrightarrow> file_segments env senv disk p = [])
    \<or> e = 0 \<and> (\<exists>f. db' = (foldl (store_step senv (file_facts env senv disk p)) db (file_segments env senv disk p))\<lparr>cd_facts := f\<rparr>)"
proof (cases "bx_lines (disk p)")
  case None
  then show ?thesis using assms by (auto simp: ingest_session_file_def)
next
  case (Some ls)
  obtain segs facts where x: "extract_segments_for_ingest env (se_hash senv) (session_file p) (bx_meta (disk p)) ls = (segs, facts)" by fastforce
  have f: "file_segments env senv disk p = segs" "file_facts env senv disk p = Some facts"
    using Some x by (simp_all add: file_segments_def file_facts_def)
  show ?thesis
  proof (cases "segs = []")
    case True
    then show ?thesis using assms Some x f by (auto simp: ingest_session_file_def)
  next
    case False
    then have t: "try_insert_segments senv segs (Some facts) (db, faults) = ((i, k, e), db')"
      using assms Some x by (simp add: ingest_session_file_def)
    show ?thesis
    proof (cases e)
      case 0
      then show ?thesis using try_insert_ok[of senv segs "Some facts" db faults i k db'] t f store_segments_fold by metis
    next
      case (Suc n)
      then show ?thesis using try_insert_failed t by blast
    qed
  qed
qed

lemma steps_keep:
  assumes "store_inv db" "settled senv f seg db" "\<And>s. s \<in> set segs \<Longrightarrow> seg_key seg \<noteq> seg_key s"
  shows "settled senv f seg (foldl (store_step senv g) db segs)"
  using assms by (induction segs arbitrary: db) (simp_all add: store_keeps store_inv_step)

lemma one_inv:
  assumes "store_inv (bs_db s)"
  shows "store_inv (bs_db (backfill_one env senv disk s p))"
proof -
  obtain i k e db' where r: "ingest_session_file env senv p (bx_meta (disk p)) (bx_lines (disk p)) (bs_db s, bx_ingest_faults (disk p)) = ((i, k, e), db')"
    by (metis surj_pair)
  have "store_inv db'" using ingest_effect[where disk = disk, OF r] assms store.run_inv[OF assms] by auto
  then show ?thesis by (simp add: backfill_one_def r Let_def)
qed

lemma one_keeps:
  assumes "store_inv (bs_db s)" "file_stored env senv disk q (bs_db s)" "path_session p \<noteq> path_session q"
  shows "file_stored env senv disk q (bs_db (backfill_one env senv disk s p))"
proof -
  obtain i k e db' where r: "ingest_session_file env senv p (bx_meta (disk p)) (bx_lines (disk p)) (bs_db s, bx_ingest_faults (disk p)) = ((i, k, e), db')"
    by (metis surj_pair)
  have "settled senv (file_facts env senv disk q) seg db'" if seg: "seg \<in> set (file_segments env senv disk q)" for seg
  proof -
    have s: "settled senv (file_facts env senv disk q) seg (bs_db s)" using assms(2) seg by (simp add: file_stored_def list_all_iff)
    have "seg_key seg \<noteq> seg_key other" if "other \<in> set (file_segments env senv disk p)" for other
      using segment_session[OF seg] segment_session[OF that] assms(3) by (auto simp: seg_key_def)
    then show ?thesis using ingest_effect[where disk = disk, OF r] steps_keep[OF assms(1) s] s by auto
  qed
  then show ?thesis by (simp add: backfill_one_def r Let_def file_stored_def list_all_iff)
qed

lemma one_stores:
  assumes "store_inv (bs_db s)" "bf_files_errored (bs_summary (backfill_one env senv disk s p)) = bf_files_errored (bs_summary s)"
  shows "file_stored env senv disk p (bs_db (backfill_one env senv disk s p))"
proof -
  obtain i k e db' where r: "ingest_session_file env senv p (bx_meta (disk p)) (bx_lines (disk p)) (bs_db s, bx_ingest_faults (disk p)) = ((i, k, e), db')"
    by (metis surj_pair)
  have e: "e = 0" using assms(2) by (auto simp: backfill_one_def r Let_def split: option.splits prod.splits if_splits)
  have d: "sorted_wrt (\<lambda>a b. \<not> seg_key a = seg_key b) (file_segments env senv disk p)"
    using ingest_keys_distinct by (auto simp: file_segments_def split: option.split)
  have "settled senv (file_facts env senv disk p) seg db'" if "seg \<in> set (file_segments env senv disk p)" for seg
    using ingest_effect[where disk = disk, OF r] e store.run_settled[OF assms(1) d that] that by auto
  then show ?thesis by (simp add: backfill_one_def r Let_def file_stored_def list_all_iff)
qed

lemma one_counts:
  "bf_files_errored (bs_summary s) \<le> bf_files_errored (bs_summary (backfill_one env senv disk s p))"
  "bf_files_processed (bs_summary (backfill_one env senv disk s p)) + bf_files_errored (bs_summary (backfill_one env senv disk s p))
     = Suc (bf_files_processed (bs_summary s) + bf_files_errored (bs_summary s))"
  "bf_files_matched (bs_summary (backfill_one env senv disk s p)) = bf_files_matched (bs_summary s)"
  by (auto simp: backfill_one_def Let_def split: prod.split option.split)

interpretation backfill: monotone_run "backfill_one env senv disk" "\<lambda>s. store_inv (bs_db s)" "\<lambda>s. bf_files_errored (bs_summary s)"
  for env senv disk
  by unfold_locales (simp_all add: one_inv one_counts)

lemma run_counts:
  "bf_files_processed (bs_summary (foldl (backfill_one env senv disk) s ps)) + bf_files_errored (bs_summary (foldl (backfill_one env senv disk) s ps))
     = length ps + bf_files_processed (bs_summary s) + bf_files_errored (bs_summary s)"
  "bf_files_matched (bs_summary (foldl (backfill_one env senv disk) s ps)) = bf_files_matched (bs_summary s)"
  by (induction ps arbitrary: s) (simp_all add: one_counts)

lemma run_keeps_file:
  "store_inv (bs_db s) \<Longrightarrow> file_stored env senv disk q (bs_db s) \<Longrightarrow> path_session q \<notin> path_session ` set ps
   \<Longrightarrow> file_stored env senv disk q (bs_db (foldl (backfill_one env senv disk) s ps))"
proof (induction ps arbitrary: s)
  case (Cons p ps)
  then show ?case using one_inv[OF Cons.prems(1)] one_keeps[OF Cons.prems(1,2)] by auto
qed simp

lemma run_stores:
  assumes "store_inv (bs_db s)" "distinct (map path_session ps)" "p \<in> set ps"
    and "bf_files_errored (bs_summary (foldl (backfill_one env senv disk) s ps)) = bf_files_errored (bs_summary s)"
  shows "file_stored env senv disk p (bs_db (foldl (backfill_one env senv disk) s ps))"
  using assms
proof (induction ps arbitrary: s)
  case (Cons q ps)
  let ?s = "backfill_one env senv disk s q"
  have inv: "store_inv (bs_db ?s)" by (rule one_inv[OF Cons.prems(1)])
  have e: "bf_files_errored (bs_summary ?s) = bf_files_errored (bs_summary s)"
    using Cons.prems(4) one_counts(1)[of s env senv disk q] backfill.run_mono[OF inv, of env senv disk ps] by simp
  show ?case
  proof (cases "p = q")
    case True
    then show ?thesis
      using run_keeps_file[OF inv one_stores[OF Cons.prems(1) e]] Cons.prems(2) by simp
  next
    case False
    then show ?thesis using Cons.IH[OF inv] Cons.prems(2-4) e by simp
  qed
qed simp

lemma repair_keys:
  "map as_id (fst (foldl apply_fix st fs)) = map as_id (fst st)"
  "map row_key (fst (foldl apply_fix st fs)) = map row_key (fst st)"
  by (induction fs arbitrary: st) (auto simp: apply_fix_def row_key_def comp_def split: prod.split)

lemma repair_inv:
  assumes "store_inv db"
  shows "store_inv (db\<lparr>cd_sessions := fst (repair_subagent_identity (cd_sessions db))\<rparr>)"
  using assms repair_keys[of "(cd_sessions db, 0)"]
  by (simp add: store_inv_def repair_subagent_identity_def repair_subagent_identity_in_batches_def foldl_foldl)

subsection \<open>Offsets\<close>

lemma reset_lookup:
  "map_of (snd (reset_offset None p rows)) q = map_option (\<lambda>r. if q = p then r\<lparr>of_size_at_last_read := 0\<rparr> else r) (map_of rows q)"
  by (induction rows) (auto simp: reset_offset_def)

lemma one_offsets:
  assumes "bx_reset_fault (disk p) = None"
  shows "map_of (bs_offsets (backfill_one env senv disk s p)) q
    = map_option (\<lambda>r. if q = p then r\<lparr>of_size_at_last_read := 0\<rparr> else r) (map_of (bs_offsets s) q)"
  using assms reset_lookup by (simp add: backfill_one_def Let_def split: prod.split)

lemma run_offsets:
  "list_all (\<lambda>p. bx_reset_fault (disk p) = None) ps \<Longrightarrow>
   map_of (bs_offsets (foldl (backfill_one env senv disk) s ps)) q
    = map_option (\<lambda>r. if q \<in> set ps then r\<lparr>of_size_at_last_read := 0\<rparr> else r) (map_of (bs_offsets s) q)"
proof (induction ps arbitrary: s)
  case (Cons p ps)
  then show ?case by (cases "map_of (bs_offsets s) q") (simp_all add: one_offsets)
qed (simp add: option.map_ident)

subsection \<open>Properties\<close>


definition example_disk :: "path \<Rightarrow> backfill_file" where
  "example_disk p = \<lparr>bx_meta = None, bx_lines = (if p = example_path then Some example_lines else None), bx_reset_fault = None,
     bx_ingest_faults = [], bx_coverage_fault = None\<rparr>"


end
