(* ===== verification/GhApi.thy ===== *)
theory GhApi
  imports ShellCapture
begin

text \<open>
  The GitHub client and the token lookup (\<open>gh_api.rs\<close>, and the first half of \<open>gh_poll.rs\<close>): requests with their retries under
  rate limits, the tail of a job's log, and where the token comes from. The HTTP library is a parameter: for a URL and the
  number of the attempt, the outcome of sending the request.
\<close>

subsection \<open>Answers of the service\<close>

record WorkflowRun =
  ar_id :: int
  ar_head_sha :: string
  ar_head_branch :: "string option"
  ar_status :: string
  ar_conclusion :: "string option"
  ar_event :: string
  ar_html_url :: string
  ar_run_started_at :: "string option"
  ar_updated_at :: "string option"
  ar_actor :: "string option"

record Job =
  aj_id :: int
  aj_name :: string
  aj_status :: string
  aj_conclusion :: "string option"
  aj_started_at :: "string option"
  aj_completed_at :: "string option"
  aj_runner_name :: "string option"
  aj_check_run_url :: "string option"

record Annotation =
  aa_annotation_level :: string
  aa_message :: string
  aa_path :: "string option"
  aa_start_line :: "int option"

text \<open>\<open>rs_reason\<close> is how the library prints the status; a body that cannot be read is \<open>None\<close>.\<close>

record http_response =
  rs_status :: nat
  rs_reason :: string
  rs_header :: "string \<Rightarrow> string option"
  rs_body :: "string option"

record gh_api =
  ga_base_url :: string
  ga_send :: "string \<Rightarrow> nat \<Rightarrow> string + http_response"
  ga_clock :: "nat \<Rightarrow> nat"
  ga_parse_runs :: "string \<Rightarrow> WorkflowRun list option"
  ga_parse_jobs :: "string \<Rightarrow> Job list option"
  ga_parse_annotations :: "string \<Rightarrow> Annotation list option"

subsection \<open>Requests\<close>

definition MAX_RETRIES :: nat where
  "MAX_RETRIES = 8"

definition header_str :: "http_response \<Rightarrow> string \<Rightarrow> string option" where
  "header_str resp name = Option.bind (rs_header resp name)
     (\<lambda>v. if list_all (\<lambda>c. (32 \<le> (of_char c :: nat) \<and> (of_char c :: nat) < 127) \<or> c = CHR 0x09) v then Some v else None)"

definition parse_u64 :: "string \<Rightarrow> nat option" where
  "parse_u64 s = (let d = (case s of [] \<Rightarrow> [] | c # r \<Rightarrow> if c = CHR ''+'' then r else s)
     in if d \<noteq> [] \<and> list_all is_digit d \<and> int (digits_value d) \<le> u64_max then Some (digits_value d) else None)"

definition is_rate_limit :: "http_response \<Rightarrow> bool" where
  "is_rate_limit resp =
     (let has_retry_after = rs_header resp ''retry-after'' \<noteq> None;
          secondary = rs_status resp = 429 \<or> (rs_status resp = 403 \<and> has_retry_after);
          primary = rs_status resp = 403 \<and> \<not> has_retry_after
            \<and> Option.bind (header_str resp ''x-ratelimit-remaining'') parse_u64 = Some 0
      in secondary \<or> primary)"

definition wait_secs :: "http_response \<Rightarrow> nat \<Rightarrow> nat" where
  "wait_secs resp now = min 300
     (case Option.bind (header_str resp ''retry-after'') parse_u64 of
        Some retry_after \<Rightarrow> retry_after
      | None \<Rightarrow> (case Option.bind (header_str resp ''x-ratelimit-reset'') parse_u64 of
          Some reset \<Rightarrow> max (reset - now) 1 + 1
        | None \<Rightarrow> 60))"

text \<open>
  The loop of \<open>get_json\<close>; the second component lists the seconds slept. Every round but the last one sleeps once, so the
  attempt number is also the number of requests sent before this one.
\<close>

function get_json_loop :: "(nat \<Rightarrow> string + http_response) \<Rightarrow> (string \<Rightarrow> 'a option) \<Rightarrow> (nat \<Rightarrow> nat) \<Rightarrow> nat \<Rightarrow> nat list
    \<Rightarrow> (string + 'a) \<times> nat list" where
  "get_json_loop send parse clock attempts slept =
     (case send attempts of
        Inl e \<Rightarrow> (Inl e, slept)
      | Inr resp \<Rightarrow>
          if is_rate_limit resp then
            (if attempts + 1 > MAX_RETRIES
             then (Inl (''GitHub rate-limited after 8 retries: '' @ rs_reason resp), slept)
             else get_json_loop send parse clock (attempts + 1) (slept @ [wait_secs resp (clock attempts)]))
          else if \<not> (200 \<le> rs_status resp \<and> rs_status resp < 300)
            then (Inl (''GitHub API '' @ rs_reason resp @ '': '' @ unwrap_or (rs_body resp) []), slept)
          else (case Option.bind (rs_body resp) parse of
              None \<Rightarrow> (Inl ''parse GitHub response'', slept)
            | Some x \<Rightarrow> (Inr x, slept)))"
  by pat_completeness auto

termination
  by (relation "measure (\<lambda>(send, parse, clock, attempts, slept). MAX_RETRIES - attempts)") (auto simp: MAX_RETRIES_def)

declare get_json_loop.simps [simp del]

definition get_json :: "gh_api \<Rightarrow> (string \<Rightarrow> 'a option) \<Rightarrow> string \<Rightarrow> (string + 'a) \<times> nat list" where
  "get_json api parse url = get_json_loop (ga_send api url) parse (ga_clock api) 0 []"

definition trim_end_slash :: "string \<Rightarrow> string" where
  "trim_end_slash s = rev (dropWhile (\<lambda>c. c = CHR ''/'') (rev s))"

definition list_runs :: "gh_api \<Rightarrow> string \<Rightarrow> nat option \<Rightarrow> string option \<Rightarrow> string + WorkflowRun list" where
  "list_runs api repo per_page created_since = fst (get_json api (ga_parse_runs api)
     (trim_end_slash (ga_base_url api) @ ''/repos/'' @ repo @ ''/actions/runs?per_page='' @ nat_str (unwrap_or per_page 20)
      @ (case created_since of None \<Rightarrow> [] | Some created \<Rightarrow> ''&created=%3E='' @ created)))"

definition list_jobs :: "gh_api \<Rightarrow> string \<Rightarrow> int \<Rightarrow> string + Job list" where
  "list_jobs api repo run_id = fst (get_json api (ga_parse_jobs api)
     (trim_end_slash (ga_base_url api) @ ''/repos/'' @ repo @ ''/actions/runs/'' @ int_str run_id @ ''/jobs''))"

definition get_annotations :: "gh_api \<Rightarrow> string \<Rightarrow> string + Annotation list" where
  "get_annotations api check_run_url = fst (get_json api (ga_parse_annotations api) (check_run_url @ ''/annotations''))"

definition get_log_tail :: "gh_api \<Rightarrow> string \<Rightarrow> int \<Rightarrow> nat \<Rightarrow> string + string \<times> bool" where
  "get_log_tail api repo job_id max_bytes =
     (case ga_send api (trim_end_slash (ga_base_url api) @ ''/repos/'' @ repo @ ''/actions/jobs/'' @ int_str job_id @ ''/logs'') 0 of
        Inl e \<Rightarrow> Inl e
      | Inr resp \<Rightarrow>
          if \<not> (200 \<le> rs_status resp \<and> rs_status resp < 300)
          then Inl (''GitHub log API '' @ rs_reason resp @ '': '' @ unwrap_or (rs_body resp) [])
          else (case rs_body resp of
              None \<Rightarrow> Inl ''body''
            | Some bytes \<Rightarrow>
                if 4 \<le> length bytes \<and> take 4 bytes = [CHR 0x50, CHR 0x4B, CHR 0x03, CHR 0x04]
                then Inl (''GitHub log API returned a ZIP archive for job '' @ int_str job_id @ ''; expected plain text'')
                else if length bytes \<le> max_bytes then Inr (from_utf8_lossy bytes, False)
                else Inr (from_utf8_lossy (drop (length bytes - max_bytes) bytes), True)))"

subsection \<open>The token\<close>

definition unquoted :: "string \<Rightarrow> string" where
  "unquoted v = (if 2 \<le> length v \<and> ((hd v = CHR 0x22 \<and> last v = CHR 0x22) \<or> (hd v = CHR 0x27 \<and> last v = CHR 0x27))
     then take (length v - 2) (drop 1 v) else v)"

definition env_line :: "string \<Rightarrow> string \<Rightarrow> string option" where
  "env_line var_name line =
     (let trimmed = trim line in
      if trimmed = [] \<or> starts_with trimmed ''#'' then None
      else (case split_once (CHR ''='') (unwrap_or (strip_prefix trimmed ''export '') trimmed) of
          None \<Rightarrow> None
        | Some (key, val) \<Rightarrow>
            if trim key \<noteq> var_name then None
            else let u = unquoted (trim val) in if u \<noteq> [] then Some u else None))"

fun first_some :: "('a \<Rightarrow> 'b option) \<Rightarrow> 'a list \<Rightarrow> 'b option" where
  "first_some f [] = None"
| "first_some f (x # xs) = (case f x of None \<Rightarrow> first_some f xs | Some y \<Rightarrow> Some y)"

definition read_var_from_env_file :: "string option \<Rightarrow> string \<Rightarrow> string option" where
  "read_var_from_env_file content var_name = Option.bind content (\<lambda>c. first_some (env_line var_name) (lines c))"

text \<open>
  The process environment, the home directory's \<open>.config/zsh/.env\<close>, then \<open>gh auth token\<close>: \<open>None\<close> if it cannot be
  started, else whether it succeeded, and its output.
\<close>

definition token_from_rest :: "string option option \<Rightarrow> (bool \<times> string) option \<Rightarrow> string \<Rightarrow> string option" where
  "token_from_rest home_env_file gh token_env =
     (case Option.bind home_env_file (\<lambda>content. read_var_from_env_file content token_env) of
        Some v \<Rightarrow> Some v
      | None \<Rightarrow> (case gh of
            None \<Rightarrow> None
          | Some (success, stdout) \<Rightarrow>
              if \<not> success then None
              else let token = trim (from_utf8_lossy stdout) in if token \<noteq> [] then Some token else None))"

definition resolve_github_token :: "(string \<Rightarrow> string option) \<Rightarrow> string option option \<Rightarrow> (bool \<times> string) option \<Rightarrow> string \<Rightarrow> string option" where
  "resolve_github_token env home_env_file gh token_env =
     (case env token_env of
        Some v \<Rightarrow> if v \<noteq> [] then Some v else token_from_rest home_env_file gh token_env
      | None \<Rightarrow> token_from_rest home_env_file gh token_env)"

subsection \<open>Properties\<close>

lemma get_json_loop_bounds:
  assumes "get_json_loop send parse clock attempts slept = (r, slept')" "attempts \<le> MAX_RETRIES" "list_all (\<lambda>w. w \<le> 300) slept"
    "length slept = attempts"
  shows "length slept' \<le> MAX_RETRIES \<and> list_all (\<lambda>w. w \<le> 300) slept' \<and> take attempts slept' = slept
    \<and> (\<forall>i < length slept' - attempts. \<exists>resp. send (attempts + i) = Inr resp \<and> is_rate_limit resp)
    \<and> (\<forall>x. r = Inr x \<longrightarrow> (\<exists>resp. send (length slept') = Inr resp \<and> \<not> is_rate_limit resp
        \<and> 200 \<le> rs_status resp \<and> rs_status resp < 300 \<and> Option.bind (rs_body resp) parse = Some x))"
  using assms
proof (induction send parse clock attempts slept rule: get_json_loop.induct)
  case (1 send parse clock attempts slept)
  show ?case
  proof (cases "\<exists>resp. send attempts = Inr resp \<and> is_rate_limit resp \<and> \<not> attempts + 1 > MAX_RETRIES")
    case False
    then show ?thesis
      using 1(2-5) by (subst (asm) get_json_loop.simps) (auto split: sum.splits if_splits option.splits)
  next
    case True
    then obtain resp where s: "send attempts = Inr resp" "is_rate_limit resp" "\<not> attempts + 1 > MAX_RETRIES" by blast
    have step: "get_json_loop send parse clock (attempts + 1) (slept @ [wait_secs resp (clock attempts)]) = (r, slept')"
      using 1(2) s by (subst (asm) get_json_loop.simps) simp
    have ih: "length slept' \<le> MAX_RETRIES \<and> list_all (\<lambda>w. w \<le> 300) slept'
      \<and> take (attempts + 1) slept' = slept @ [wait_secs resp (clock attempts)]
      \<and> (\<forall>i < length slept' - (attempts + 1). \<exists>resp. send (attempts + 1 + i) = Inr resp \<and> is_rate_limit resp)
      \<and> (\<forall>x. r = Inr x \<longrightarrow> (\<exists>resp. send (length slept') = Inr resp \<and> \<not> is_rate_limit resp
        \<and> 200 \<le> rs_status resp \<and> rs_status resp < 300 \<and> Option.bind (rs_body resp) parse = Some x))"
      using 1(1)[OF s step] s(3) 1(4,5) by (simp add: wait_secs_def)
    have t: "take attempts slept' = slept"
    proof -
      have "take attempts (take (attempts + 1) slept') = take attempts (slept @ [wait_secs resp (clock attempts)])" using ih by argo
      then show ?thesis using 1(5) by (simp add: take_take)
    qed
    have "\<exists>resp. send (attempts + i) = Inr resp \<and> is_rate_limit resp" if "i < length slept' - attempts" for i
      using ih that s(1,2) by (cases i) auto
    then show ?thesis using ih t by blast
  qed
qed

lemma get_json_reaches:
  assumes "\<forall>i < k. \<exists>resp. send (attempts + i) = Inr resp \<and> is_rate_limit resp" "attempts + k \<le> MAX_RETRIES"
    "send (attempts + k) = Inr resp" "\<not> is_rate_limit resp" "200 \<le> rs_status resp" "rs_status resp < 300" "Option.bind (rs_body resp) parse = Some x"
  shows "fst (get_json_loop send parse clock attempts slept) = Inr x"
  using assms
proof (induction k arbitrary: attempts slept)
  case 0
  then show ?case by (subst get_json_loop.simps) simp
next
  case (Suc k)
  obtain limited where l: "send attempts = Inr limited" "is_rate_limit limited" using Suc(2) by (metis add_0_right zero_less_Suc)
  have "\<forall>i < k. \<exists>resp. send (attempts + 1 + i) = Inr resp \<and> is_rate_limit resp" using Suc(2) by auto
  then have "fst (get_json_loop send parse clock (attempts + 1) (slept @ [wait_secs limited (clock attempts)])) = Inr x"
    using Suc.IH[of "attempts + 1"] Suc(3-8) by simp
  then show ?case using l Suc(3) by (subst get_json_loop.simps) simp
qed

text \<open>Attempt number \<open>k\<close> is answered, not by a rate limit, with the value \<open>x\<close>.\<close>

definition answers :: "gh_api \<Rightarrow> (string \<Rightarrow> 'a option) \<Rightarrow> string \<Rightarrow> nat \<Rightarrow> 'a \<Rightarrow> bool" where
  "answers api parse url k x \<longleftrightarrow> (\<exists>resp. ga_send api url k = Inr resp \<and> \<not> is_rate_limit resp
     \<and> 200 \<le> rs_status resp \<and> rs_status resp < 300 \<and> Option.bind (rs_body resp) parse = Some x)"


definition example_limited :: "http_response" where
  "example_limited = \<lparr>rs_status = 429, rs_reason = ''429 Too Many Requests'', rs_header = (\<lambda>_. None), rs_body = None\<rparr>"

definition example_answer :: "string \<Rightarrow> http_response" where
  "example_answer body = \<lparr>rs_status = 200, rs_reason = ''200 OK'', rs_header = (\<lambda>_. None), rs_body = Some body\<rparr>"

definition example_api :: "WorkflowRun list \<Rightarrow> gh_api" where
  "example_api runs = \<lparr>ga_base_url = ''u/'', ga_send = (\<lambda>_ k. Inr (if k < 2 then example_limited else example_answer ''[]'')),
     ga_clock = (\<lambda>_. 0), ga_parse_runs = (\<lambda>_. Some runs), ga_parse_jobs = (\<lambda>_. Some []), ga_parse_annotations = (\<lambda>_. Some [])\<rparr>"

lemma example_limited_twice: "get_json (example_api runs) (\<lambda>_. Some x) url = (Inr x, [60, 60])"
proof -
  have l: "is_rate_limit example_limited" "wait_secs example_limited n = 60" "\<not> is_rate_limit (example_answer b)" for n b
    by (simp_all add: is_rate_limit_def example_limited_def example_answer_def wait_secs_def header_str_def)
  show ?thesis
    by (simp add: get_json_def get_json_loop.simps[of _ _ _ 0] get_json_loop.simps[of _ _ _ "Suc 0"]
        get_json_loop.simps[of _ _ _ "Suc (Suc 0)"] example_api_def l MAX_RETRIES_def)
      (simp add: example_answer_def)
qed


end
