(* ===== verification/GhPoll.thy ===== *)
theory GhPoll
  imports GhApi
begin

text \<open>
  One polling pass over the watched repositories (\<open>run_once\<close> in \<open>gh_poll.rs\<close>), the workflow tables it writes
  (\<open>workflow_store\<close> in \<open>storage.rs\<close>) and the annotation parser (\<open>gh_annotations.rs\<close>). Every statement has an outcome, taken from
  a list of faults; a statement that fails changes nothing. The redaction engines, the JSON printer, the RFC 3339 parser and
  the three regular expressions are parameters; a request is answered the same way each time a pass makes it.
\<close>

subsection \<open>Tables\<close>

record run_row =
  rn_id :: int
  rn_repo :: string
  rn_head_sha :: string
  rn_head_branch :: "string option"
  rn_event :: string
  rn_status :: string
  rn_conclusion :: "string option"
  rn_started_at :: "int option"
  rn_completed_at :: "int option"
  rn_html_url :: string
  rn_actor :: "string option"
  rn_raw_json :: string
  rn_first_seen_at :: int
  rn_last_seen_at :: int
  rn_enriched :: bool

record job_row =
  jb_id :: int
  jb_run_id :: int
  jb_name :: string
  jb_status :: string
  jb_conclusion :: "string option"
  jb_started_at :: "int option"
  jb_completed_at :: "int option"
  jb_runner_name :: "string option"
  jb_raw_json :: string

record annotation_row =
  an_job_id :: int
  an_level :: string
  an_tool :: "string option"
  an_rule_id :: "string option"
  an_path :: "string option"
  an_start_line :: "int option"
  an_message :: string

record excerpt_row =
  lx_job_id :: int
  lx_step_name :: "string option"
  lx_excerpt :: string
  lx_truncated :: bool

record workflow_queue_row =
  wq_run_id :: int
  wq_status :: string
  wq_enqueued_at :: int
  wq_updated_at :: int

record workflow_db =
  gd_runs :: "run_row list"
  gd_jobs :: "job_row list"
  gd_annotations :: "annotation_row list"
  gd_excerpts :: "excerpt_row list"
  gd_queue :: "workflow_queue_row list"
  gd_watch :: "watch_row list"

record gh_state =
  gs_db :: workflow_db
  gs_faults :: "string option list"

subsection \<open>Statements\<close>

definition sql :: "(workflow_db \<Rightarrow> workflow_db) \<Rightarrow> (gh_state, unit) proc" where
  "sql f s = (case next_fault (gs_faults s) of
       Some e \<Rightarrow> (Inl e, s\<lparr>gs_faults := tl (gs_faults s)\<rparr>)
     | None \<Rightarrow> (Inr (), s\<lparr>gs_db := f (gs_db s), gs_faults := tl (gs_faults s)\<rparr>))"

text \<open>A statement whose failure is ignored.\<close>

definition sql_try :: "(workflow_db \<Rightarrow> workflow_db) \<Rightarrow> (gh_state, unit) proc" where
  "sql_try f s = (Inr (), snd (sql f s))"

text \<open>\<open>INSERT ... ON CONFLICT(key) DO UPDATE\<close>.\<close>

definition upsert_on :: "('r \<Rightarrow> 'k) \<Rightarrow> ('r \<Rightarrow> 'r \<Rightarrow> 'r) \<Rightarrow> 'r \<Rightarrow> 'r list \<Rightarrow> 'r list" where
  "upsert_on key merge new rows =
     (if key new \<in> key ` set rows then map (\<lambda>r. if key r = key new then merge r new else r) rows else rows @ [new])"

definition merge_run :: "run_row \<Rightarrow> run_row \<Rightarrow> run_row" where
  "merge_run old new = old\<lparr>rn_status := rn_status new, rn_conclusion := rn_conclusion new, rn_completed_at := rn_completed_at new,
     rn_last_seen_at := rn_last_seen_at new, rn_raw_json := rn_raw_json new\<rparr>"

definition upsert_run :: "run_row \<Rightarrow> (gh_state, unit) proc" where
  "upsert_run run = sql (\<lambda>d. d\<lparr>gd_runs := upsert_on rn_id merge_run run (gd_runs d)\<rparr>)"

definition merge_job :: "job_row \<Rightarrow> job_row \<Rightarrow> job_row" where
  "merge_job old new = old\<lparr>jb_status := jb_status new, jb_conclusion := jb_conclusion new, jb_completed_at := jb_completed_at new,
     jb_raw_json := jb_raw_json new\<rparr>"

definition upsert_job :: "job_row \<Rightarrow> (gh_state, unit) proc" where
  "upsert_job job = sql (\<lambda>d. d\<lparr>gd_jobs := upsert_on jb_id merge_job job (gd_jobs d)\<rparr>)"

definition insert_log_excerpt :: "int \<Rightarrow> string option \<Rightarrow> string \<Rightarrow> bool \<Rightarrow> (gh_state, unit) proc" where
  "insert_log_excerpt job_id step_name excerpt truncated = sql (\<lambda>d. d\<lparr>gd_excerpts := gd_excerpts d @
     [\<lparr>lx_job_id = job_id, lx_step_name = step_name, lx_excerpt = excerpt, lx_truncated = truncated\<rparr>]\<rparr>)"

definition enqueue_enrichment :: "int \<Rightarrow> int \<Rightarrow> (gh_state, unit) proc" where
  "enqueue_enrichment run_id now_ms = sql (\<lambda>d.
     if run_id \<in> wq_run_id ` set (gd_queue d) then d
     else d\<lparr>gd_queue := gd_queue d @ [\<lparr>wq_run_id = run_id, wq_status = ''pending'', wq_enqueued_at = now_ms, wq_updated_at = now_ms\<rparr>]\<rparr>)"

subsection \<open>Annotations\<close>

text \<open>The first capture group of the first match of each regular expression.\<close>

record annotation_res =
  re_ruff :: "string \<Rightarrow> string option"
  re_cargo :: "string \<Rightarrow> string option"
  re_mypy :: "string \<Rightarrow> string option"

definition parse_annotation :: "annotation_res \<Rightarrow> string \<Rightarrow> string \<Rightarrow> string option \<times> string option" where
  "parse_annotation res job_name message =
     (let job_lower = map to_ascii_lowercase job_name;
          lints = str_contains job_lower ''ruff'' \<or> str_contains job_lower ''lint'';
          types = str_contains job_lower ''type'' \<or> str_contains job_lower ''mypy'' \<or> str_contains job_lower ''pyright'';
          tests = str_contains job_lower ''pytest'' \<or> str_contains job_lower ''test''
      in case re_cargo res message of
           Some c \<Rightarrow> (Some ''cargo'', Some c)
         | None \<Rightarrow> (case (if lints then re_ruff res message else None) of
             Some c \<Rightarrow> (Some ''ruff'', Some c)
           | None \<Rightarrow> (case (if types then re_mypy res message else None) of
               Some c \<Rightarrow> (Some (if str_contains job_lower ''pyright'' then ''pyright'' else ''mypy''), Some c)
             | None \<Rightarrow> if tests \<and> (str_contains message ''FAILED '' \<or> str_contains message ''AssertionError'')
                 then (Some ''pytest'', None) else (None, None))))"

definition insert_annotation :: "annotation_res \<Rightarrow> int \<Rightarrow> string \<Rightarrow> string \<Rightarrow> string \<Rightarrow> string option \<Rightarrow> int option \<Rightarrow> (gh_state, unit) proc" where
  "insert_annotation res job_id job_name level message ann_path start_line =
     (case parse_annotation res job_name message of (tool, rule_id) \<Rightarrow>
        sql (\<lambda>d. d\<lparr>gd_annotations := gd_annotations d @ [\<lparr>an_job_id = job_id, an_level = level, an_tool = tool, an_rule_id = rule_id,
          an_path = ann_path, an_start_line = start_line, an_message = message\<rparr>]\<rparr>))"

subsection \<open>The pass\<close>

record PollConfig =
  pc_watched_repos :: "string list"
  pc_log_excerpt_max_bytes :: nat
  pc_redact_config_path :: "string option"

record poll_env =
  pl_api :: gh_api
  pl_builtin :: redactor
  pl_load_redactor :: "string \<Rightarrow> string + redactor"
  pl_parse_rfc3339 :: "string \<Rightarrow> int option"
  pl_run_json :: "WorkflowRun \<Rightarrow> string"
  pl_job_json :: "Job \<Rightarrow> string"
  pl_res :: annotation_res

definition poll_redactor :: "poll_env \<Rightarrow> PollConfig \<Rightarrow> redactor" where
  "poll_redactor env cfg = (case pc_redact_config_path cfg of
       Some p \<Rightarrow> (case pl_load_redactor env p of Inr engine \<Rightarrow> engine | Inl e \<Rightarrow> pl_builtin env)
     | None \<Rightarrow> pl_builtin env)"

definition poll_ts :: "poll_env \<Rightarrow> string option \<Rightarrow> int option" where
  "poll_ts env s = Option.bind s (pl_parse_rfc3339 env)"

definition run_row_of :: "poll_env \<Rightarrow> redactor \<Rightarrow> string \<Rightarrow> int \<Rightarrow> WorkflowRun \<Rightarrow> run_row" where
  "run_row_of env redact repo now run =
     \<lparr>rn_id = ar_id run, rn_repo = repo, rn_head_sha = ar_head_sha run, rn_head_branch = ar_head_branch run, rn_event = ar_event run,
      rn_status = ar_status run, rn_conclusion = ar_conclusion run, rn_started_at = poll_ts env (ar_run_started_at run),
      rn_completed_at = poll_ts env (ar_updated_at run), rn_html_url = ar_html_url run, rn_actor = ar_actor run,
      rn_raw_json = rr_text (redact (pl_run_json env run)), rn_first_seen_at = now, rn_last_seen_at = now, rn_enriched = False\<rparr>"

definition job_row_of :: "poll_env \<Rightarrow> redactor \<Rightarrow> int \<Rightarrow> Job \<Rightarrow> job_row" where
  "job_row_of env redact run_id job =
     \<lparr>jb_id = aj_id job, jb_run_id = run_id, jb_name = aj_name job, jb_status = aj_status job, jb_conclusion = aj_conclusion job,
      jb_started_at = poll_ts env (aj_started_at job), jb_completed_at = poll_ts env (aj_completed_at job),
      jb_runner_name = aj_runner_name job, jb_raw_json = rr_text (redact (pl_job_json env job))\<rparr>"

text \<open>What a completed run does to the watch list.\<close>

definition is_bad :: "string \<Rightarrow> bool" where
  "is_bad concl \<longleftrightarrow> concl = ''failure'' \<or> concl = ''cancelled''"

definition drop_watch :: "string \<Rightarrow> string \<Rightarrow> watch_row list \<Rightarrow> watch_row list" where
  "drop_watch sha repo rows = filter (\<lambda>r. \<not> (wr_sha r = sha \<and> wr_repo r = repo)) rows"

definition settle_watch :: "string \<Rightarrow> WorkflowRun \<Rightarrow> (gh_state, unit) proc" where
  "settle_watch repo run = (case ar_conclusion run of
       None \<Rightarrow> p_ret ()
     | Some concl \<Rightarrow>
         if is_bad concl then sql (\<lambda>d. d\<lparr>gd_watch := fst (mark_terminal (ar_head_sha run) repo concl (gd_watch d))\<rparr>)
         else sql_try (\<lambda>d. d\<lparr>gd_watch := drop_watch (ar_head_sha run) repo (gd_watch d)\<rparr>))"

definition store_annotations :: "poll_env \<Rightarrow> redactor \<Rightarrow> Job \<Rightarrow> (gh_state, unit) proc" where
  "store_annotations env redact job = (case aj_check_run_url job of
       None \<Rightarrow> p_ret ()
     | Some cru \<Rightarrow>
         (let annotations = (case get_annotations (pl_api env) cru of Inr a \<Rightarrow> a | Inl e \<Rightarrow> []) in
          p_bind (sql (\<lambda>d. d\<lparr>gd_annotations := filter (\<lambda>r. an_job_id r \<noteq> aj_id job) (gd_annotations d)\<rparr>)) (\<lambda>_.
          p_each (\<lambda>a. insert_annotation (pl_res env) (aj_id job) (aj_name job) (aa_annotation_level a)
              (rr_text (redact (aa_message a))) (aa_path a) (aa_start_line a)) annotations)))"

definition store_log :: "poll_env \<Rightarrow> PollConfig \<Rightarrow> redactor \<Rightarrow> string \<Rightarrow> Job \<Rightarrow> (gh_state, unit) proc" where
  "store_log env cfg redact repo job =
     (if aj_conclusion job = Some ''failure'' \<or> aj_conclusion job = Some ''cancelled'' then
        (case get_log_tail (pl_api env) repo (aj_id job) (pc_log_excerpt_max_bytes cfg) of
           Inl e \<Rightarrow> p_ret ()
         | Inr (excerpt, truncated) \<Rightarrow>
             p_bind (sql (\<lambda>d. d\<lparr>gd_excerpts := filter (\<lambda>r. lx_job_id r \<noteq> aj_id job) (gd_excerpts d)\<rparr>)) (\<lambda>_.
             insert_log_excerpt (aj_id job) None (rr_text (redact excerpt)) truncated))
      else p_ret ())"

definition poll_job :: "poll_env \<Rightarrow> PollConfig \<Rightarrow> redactor \<Rightarrow> string \<Rightarrow> int \<Rightarrow> Job \<Rightarrow> (gh_state, unit) proc" where
  "poll_job env cfg redact repo run_id job =
     p_bind (upsert_job (job_row_of env redact run_id job)) (\<lambda>_.
     p_bind (store_annotations env redact job) (\<lambda>_. store_log env cfg redact repo job))"

text \<open>\<open>SELECT enriched ... unwrap_or(false)\<close>: a failed read counts as not enriched.\<close>

definition already_enriched :: "int \<Rightarrow> (gh_state, bool) proc" where
  "already_enriched run_id s = (case sql (\<lambda>d. d) s of
       (Inl e, t) \<Rightarrow> (Inr False, t)
     | (Inr _, t) \<Rightarrow> (Inr (list_ex (\<lambda>r. rn_id r = run_id \<and> rn_enriched r) (gd_runs (gs_db t))), t))"

definition drill_down :: "poll_env \<Rightarrow> PollConfig \<Rightarrow> redactor \<Rightarrow> int \<Rightarrow> string \<Rightarrow> WorkflowRun \<Rightarrow> (gh_state, unit) proc" where
  "drill_down env cfg redact now repo run =
     p_bind (already_enriched (ar_id run)) (\<lambda>enriched.
       if enriched then p_ret ()
       else (case list_jobs (pl_api env) repo (ar_id run) of
           Inl e \<Rightarrow> p_ret ()
         | Inr jobs \<Rightarrow>
             p_bind (p_each (poll_job env cfg redact repo (ar_id run)) jobs) (\<lambda>_. enqueue_enrichment (ar_id run) now)))"

definition poll_run :: "poll_env \<Rightarrow> PollConfig \<Rightarrow> redactor \<Rightarrow> int \<Rightarrow> string \<Rightarrow> WorkflowRun \<Rightarrow> (gh_state, unit) proc" where
  "poll_run env cfg redact now repo run =
     p_bind (upsert_run (run_row_of env redact repo now run)) (\<lambda>_.
       if ar_status run = ''completed'' then p_bind (settle_watch repo run) (\<lambda>_. drill_down env cfg redact now repo run)
       else p_ret ())"

definition poll_repo :: "poll_env \<Rightarrow> PollConfig \<Rightarrow> redactor \<Rightarrow> int \<Rightarrow> string \<Rightarrow> (gh_state, unit) proc" where
  "poll_repo env cfg redact now repo =
     (case list_runs (pl_api env) repo (Some 20) None of
        Inl e \<Rightarrow> p_lift (Inl (''list_runs for '' @ repo @ '': '' @ e))
      | Inr runs \<Rightarrow> p_each (poll_run env cfg redact now repo) runs)"

definition run_once :: "poll_env \<Rightarrow> PollConfig \<Rightarrow> int \<Rightarrow> (gh_state, unit) proc" where
  "run_once env cfg now =
     p_bind (sql (\<lambda>d. d)) (\<lambda>_.
     p_bind (p_each (poll_repo env cfg (poll_redactor env cfg) now) (pc_watched_repos cfg)) (\<lambda>_.
     sql_try (\<lambda>d. d\<lparr>gd_watch := fst (cleanup_expired now (gd_watch d))\<rparr>)))"

subsection \<open>Statements and what they keep\<close>

lemma upsert_on_keys: "key new \<in> key ` set rows \<Longrightarrow> (\<And>r. key (merge r new) = key r) \<Longrightarrow> map key (upsert_on key merge new rows) = map key rows"
  "key new \<notin> key ` set rows \<Longrightarrow> map key (upsert_on key merge new rows) = map key rows @ [key new]"
  by (auto simp: upsert_on_def)

lemma upsert_on_ids: "(\<And>r. key (merge r new) = key r) \<Longrightarrow> key ` set (upsert_on key merge new rows) = insert (key new) (key ` set rows)"
  using upsert_on_keys[of key new rows merge] by (cases "key new \<in> key ` set rows") (simp_all flip: set_map add: insert_absorb)

lemma upsert_on_distinct:
  "(\<And>r. key (merge r new) = key r) \<Longrightarrow> distinct (map key rows) \<Longrightarrow> distinct (map key (upsert_on key merge new rows))"
  by (cases "key new \<in> key ` set rows") (simp_all add: upsert_on_keys)

lemma upsert_on_new: "\<exists>row \<in> set (upsert_on key merge new rows). row = new \<or> (\<exists>old \<in> set rows. key old = key new \<and> row = merge old new)"
proof (cases "\<exists>old \<in> set rows. key old = key new")
  case True
  then obtain old where o: "old \<in> set rows" "key old = key new" by blast
  then have "key new \<in> key ` set rows" "merge old new \<in> (\<lambda>r. if key r = key new then merge r new else r) ` set rows"
    by (auto intro: rev_image_eqI)
  then have "merge old new \<in> set (upsert_on key merge new rows)" by (simp only: upsert_on_def if_True set_map)
  then show ?thesis using o by blast
qed (auto simp: upsert_on_def image_iff)

lemma upsert_on_all:
  "list_all P rows \<Longrightarrow> P new \<Longrightarrow> (\<And>r. P r \<Longrightarrow> P (merge r new)) \<Longrightarrow> list_all P (upsert_on key merge new rows)"
  by (auto simp: upsert_on_def list_all_iff)

lemma merge_keys [simp]: "rn_id (merge_run r new) = rn_id r" "jb_id (merge_job j job) = jb_id j" "jb_run_id (merge_job j job) = jb_run_id j"
  by (simp_all add: merge_run_def merge_job_def)

lemma row_of_keys [simp]: "rn_id (run_row_of env redact repo now run) = ar_id run" "jb_id (job_row_of env redact r job) = aj_id job"
    "jb_run_id (job_row_of env redact r job) = r"
  by (simp_all add: run_row_of_def job_row_of_def)

definition db_keeps :: "(workflow_db \<Rightarrow> bool) \<Rightarrow> (gh_state, 'a) proc \<Rightarrow> bool" where
  "db_keeps Q m \<longleftrightarrow> p_keeps (\<lambda>s. Q (gs_db s)) m"

lemma db_keeps_sql [keeping]: "(\<And>d. Q d \<Longrightarrow> Q (f d)) \<Longrightarrow> db_keeps Q (sql f)"
  by (simp add: db_keeps_def p_keeps_def sql_def split: option.split)

lemma db_keeps_try [keeping]: "(\<And>d. Q d \<Longrightarrow> Q (f d)) \<Longrightarrow> db_keeps Q (sql_try f)"
  by (simp add: db_keeps_def p_keeps_def sql_def sql_try_def split: option.split)

lemma db_keeps_enriched [keeping]: "db_keeps Q (already_enriched r)"
  by (simp add: db_keeps_def p_keeps_def sql_def already_enriched_def split: option.split)

lemma db_keeping [keeping]:
  "db_keeps Q (p_ret x1)" "db_keeps Q (p_lift r2)"
  "db_keeps Q m3 \<Longrightarrow> (\<And>x. db_keeps Q (f3 x)) \<Longrightarrow> db_keeps Q (p_bind m3 f3)"
  "db_keeps Q m4 \<Longrightarrow> db_keeps Q n4 \<Longrightarrow> db_keeps Q (if b then m4 else n4)"
  "db_keeps Q m5 \<Longrightarrow> (\<And>x. db_keeps Q (f5 x)) \<Longrightarrow> db_keeps Q (case c5 of None \<Rightarrow> m5 | Some x \<Rightarrow> f5 x)"
  "(\<And>e. db_keeps Q (g6 e)) \<Longrightarrow> (\<And>x. db_keeps Q (f6 x)) \<Longrightarrow> db_keeps Q (case c6 of Inl e \<Rightarrow> g6 e | Inr x \<Rightarrow> f6 x)"
  "(\<And>x y. db_keeps Q (h7 x y)) \<Longrightarrow> db_keeps Q (case p7 of (x, y) \<Rightarrow> h7 x y)"
  unfolding db_keeps_def by (rule keeping | assumption)+ (simp split: prod.split)

lemma db_keeps_each: "(\<And>x. x \<in> set xs \<Longrightarrow> db_keeps Q (f x)) \<Longrightarrow> db_keeps Q (p_each f xs)"
  unfolding db_keeps_def by (rule p_keeps_each)

lemma db_keepsD: "db_keeps Q m \<Longrightarrow> Q (gs_db s) \<Longrightarrow> m s = (r, t) \<Longrightarrow> Q (gs_db t)"
  unfolding db_keeps_def by (rule p_keepsD)

text \<open>A statement after which more is known.\<close>

lemma db_keeps_then:
  assumes "\<And>d. Q d \<Longrightarrow> R (f d)" "\<And>x. db_keeps R (k x)" "\<And>d. R d \<Longrightarrow> Q d"
  shows "db_keeps Q (p_bind (sql f) k)"
proof -
  have "Q (gs_db (snd (p_bind (sql f) k s)))" if q: "Q (gs_db s)" for s
  proof (cases "next_fault (gs_faults s)")
    case None
    then have "p_bind (sql f) k s = k () (s\<lparr>gs_db := f (gs_db s), gs_faults := tl (gs_faults s)\<rparr>)" by (simp add: sql_def p_bind_def)
    moreover have "R (gs_db (snd (k () (s\<lparr>gs_db := f (gs_db s), gs_faults := tl (gs_faults s)\<rparr>))))"
      using assms(2)[of "()"] assms(1)[OF q] by (simp add: db_keeps_def p_keeps_def)
    ultimately show ?thesis using assms(3) by simp
  qed (simp add: sql_def p_bind_def q)
  then show ?thesis by (simp add: db_keeps_def p_keeps_def)
qed

text \<open>
  The contract of the statements of a pass: a property of the tables that each of them keeps, given that the run or job
  a row refers to is there. A pass then keeps it, also when it is cut short.
\<close>

definition has_run :: "int \<Rightarrow> workflow_db \<Rightarrow> bool" where
  "has_run r d \<longleftrightarrow> r \<in> rn_id ` set (gd_runs d)"

definition has_job :: "int \<Rightarrow> workflow_db \<Rightarrow> bool" where
  "has_job j d \<longleftrightarrow> j \<in> jb_id ` set (gd_jobs d)"

definition put_run :: "run_row \<Rightarrow> workflow_db \<Rightarrow> workflow_db" where
  "put_run run d = d\<lparr>gd_runs := upsert_on rn_id merge_run run (gd_runs d)\<rparr>"

definition put_job :: "job_row \<Rightarrow> workflow_db \<Rightarrow> workflow_db" where
  "put_job job d = d\<lparr>gd_jobs := upsert_on jb_id merge_job job (gd_jobs d)\<rparr>"

lemma has_put [simp]:
  "has_run r (put_run run d) \<longleftrightarrow> r = rn_id run \<or> has_run r d" "has_job j (put_run run d) \<longleftrightarrow> has_job j d"
  "has_run r (put_job job d) \<longleftrightarrow> has_run r d" "has_job j (put_job job d) \<longleftrightarrow> j = jb_id job \<or> has_job j d"
  by (simp_all add: has_run_def has_job_def put_run_def put_job_def upsert_on_ids)

lemma has_other [simp]:
  "has_run r (gd_annotations_update a d) \<longleftrightarrow> has_run r d" "has_job r (gd_annotations_update a d) \<longleftrightarrow> has_job r d"
  "has_run r (gd_excerpts_update x d) \<longleftrightarrow> has_run r d" "has_job r (gd_excerpts_update x d) \<longleftrightarrow> has_job r d"
  "has_run r (gd_queue_update q d) \<longleftrightarrow> has_run r d" "has_job r (gd_queue_update q d) \<longleftrightarrow> has_job r d"
  "has_run r (gd_watch_update w d) \<longleftrightarrow> has_run r d" "has_job r (gd_watch_update w d) \<longleftrightarrow> has_job r d"
  by (simp_all add: has_run_def has_job_def)

locale workflow_law =
  fixes law :: "workflow_db \<Rightarrow> bool" and redact :: redactor
  assumes law_run: "law d \<Longrightarrow> rn_raw_json run = rr_text (redact raw) \<Longrightarrow> \<not> rn_enriched run \<Longrightarrow> law (put_run run d)"
    and law_job: "law d \<Longrightarrow> has_run (jb_run_id job) d \<Longrightarrow> jb_raw_json job = rr_text (redact raw) \<Longrightarrow> law (put_job job d)"
    and law_no_annotation: "law d \<Longrightarrow> law (d\<lparr>gd_annotations := filter p (gd_annotations d)\<rparr>)"
    and law_annotation: "law d \<Longrightarrow> has_job (an_job_id a) d \<Longrightarrow> an_message a = rr_text (redact raw) \<Longrightarrow> law (d\<lparr>gd_annotations := gd_annotations d @ [a]\<rparr>)"
    and law_no_excerpt: "law d \<Longrightarrow> law (d\<lparr>gd_excerpts := filter q (gd_excerpts d)\<rparr>)"
    and law_excerpt: "law d \<Longrightarrow> has_job (lx_job_id x) d \<Longrightarrow> lx_excerpt x = rr_text (redact raw) \<Longrightarrow> law (d\<lparr>gd_excerpts := gd_excerpts d @ [x]\<rparr>)"
    and law_queue: "law d \<Longrightarrow> has_run (wq_run_id w) d \<Longrightarrow> wq_run_id w \<notin> wq_run_id ` set (gd_queue d) \<Longrightarrow> law (d\<lparr>gd_queue := gd_queue d @ [w]\<rparr>)"
    and law_watch: "law d \<Longrightarrow> law (d\<lparr>gd_watch := rows\<rparr>)"
begin

lemma annotations_keep:
  "db_keeps (\<lambda>d. law d \<and> has_run r d \<and> has_job (aj_id job) d) (store_annotations env redact job)"
  unfolding store_annotations_def insert_annotation_def Let_def
  by (intro keeping db_keeps_each) (auto intro!: law_no_annotation law_annotation)

lemma log_keeps: "db_keeps (\<lambda>d. law d \<and> has_run r d \<and> has_job (aj_id job) d) (store_log env cfg redact repo job)"
  unfolding store_log_def insert_log_excerpt_def
  by (intro keeping) (auto intro!: law_no_excerpt law_excerpt)

end

context workflow_law begin

lemma job_keeps: "db_keeps (\<lambda>d. law d \<and> has_run r d) (poll_job env cfg redact repo r job)"
  unfolding poll_job_def upsert_job_def put_job_def[symmetric]
  by (rule db_keeps_then[where R = "\<lambda>d. law d \<and> has_run r d \<and> has_job (aj_id job) d"])
    (auto intro!: keeping annotations_keep log_keeps law_job simp: job_row_of_def)

lemma drill_keeps: "db_keeps (\<lambda>d. law d \<and> has_run (ar_id run) d) (drill_down env cfg redact now repo run)"
proof -
  have "db_keeps (\<lambda>d. law d \<and> has_run (ar_id run) d) (enqueue_enrichment (ar_id run) now)"
    unfolding enqueue_enrichment_def by (rule db_keeps_sql) (simp add: law_queue)
  then show ?thesis unfolding drill_down_def by (intro keeping db_keeps_each job_keeps)
qed

lemma run_keeps: "db_keeps law (poll_run env cfg redact now repo run)"
proof -
  have "db_keeps (\<lambda>d. law d \<and> has_run (ar_id run) d) (settle_watch repo run)"
    unfolding settle_watch_def by (intro keeping) (auto intro: law_watch)
  with drill_keeps show ?thesis
    unfolding poll_run_def upsert_run_def put_run_def[symmetric]
    by (intro db_keeps_then[where R = "\<lambda>d. law d \<and> has_run (ar_id run) d"]) (auto intro!: keeping law_run simp: run_row_of_def)
qed

lemma once_keeps: "poll_redactor env cfg = redact \<Longrightarrow> db_keeps law (run_once env cfg now)"
  unfolding run_once_def poll_repo_def by (simp only:, intro keeping db_keeps_each run_keeps law_watch)

end

text \<open>
  The keys and references of the schema: ids are unique, a job belongs to a stored run, an annotation or an excerpt to a stored
  job, and a run waits in the queue at most once.
\<close>

definition tables_ok :: "workflow_db \<Rightarrow> bool" where
  "tables_ok d \<longleftrightarrow> distinct (map rn_id (gd_runs d)) \<and> distinct (map jb_id (gd_jobs d)) \<and> distinct (map wq_run_id (gd_queue d))
     \<and> list_all (\<lambda>j. has_run (jb_run_id j) d) (gd_jobs d) \<and> list_all (\<lambda>a. has_job (an_job_id a) d) (gd_annotations d)
     \<and> list_all (\<lambda>x. has_job (lx_job_id x) d) (gd_excerpts d) \<and> list_all (\<lambda>w. has_run (wq_run_id w) d) (gd_queue d)"

text \<open>What GitHub sends as free text is stored redacted: the JSON of runs and jobs, annotation messages and log excerpts.\<close>

definition texts_redacted :: "redactor \<Rightarrow> workflow_db \<Rightarrow> bool" where
  "texts_redacted redact d \<longleftrightarrow> (let clean = (\<lambda>s. \<exists>raw. s = rr_text (redact raw)) in
     list_all (\<lambda>r. clean (rn_raw_json r)) (gd_runs d) \<and> list_all (\<lambda>j. clean (jb_raw_json j)) (gd_jobs d)
     \<and> list_all (\<lambda>a. clean (an_message a)) (gd_annotations d) \<and> list_all (\<lambda>x. clean (lx_excerpt x)) (gd_excerpts d))"

lemma put_fields [simp]:
  "gd_runs (put_run run d) = upsert_on rn_id merge_run run (gd_runs d)" "gd_jobs (put_run run d) = gd_jobs d"
  "gd_annotations (put_run run d) = gd_annotations d" "gd_excerpts (put_run run d) = gd_excerpts d" "gd_queue (put_run run d) = gd_queue d"
  "gd_jobs (put_job job d) = upsert_on jb_id merge_job job (gd_jobs d)" "gd_runs (put_job job d) = gd_runs d"
  "gd_annotations (put_job job d) = gd_annotations d" "gd_excerpts (put_job job d) = gd_excerpts d" "gd_queue (put_job job d) = gd_queue d"
  by (simp_all add: put_run_def put_job_def)

lemma put_run_tables: "tables_ok d \<Longrightarrow> tables_ok (put_run run d)"
  by (auto simp: tables_ok_def upsert_on_distinct list_all_iff)

lemma put_job_tables: "tables_ok d \<Longrightarrow> has_run (jb_run_id job) d \<Longrightarrow> tables_ok (put_job job d)"
  by (auto simp: tables_ok_def upsert_on_distinct intro!: upsert_on_all) (auto simp: list_all_iff)

interpretation refs: workflow_law tables_ok redact
  by unfold_locales (simp_all add: put_run_tables put_job_tables, auto simp: tables_ok_def list_all_iff)

lemma put_texts:
  "texts_redacted redact d \<Longrightarrow> rn_raw_json run = rr_text (redact raw) \<Longrightarrow> texts_redacted redact (put_run run d)"
  "texts_redacted redact d \<Longrightarrow> jb_raw_json job = rr_text (redact raw) \<Longrightarrow> texts_redacted redact (put_job job d)"
  by (auto simp: texts_redacted_def merge_run_def merge_job_def intro!: upsert_on_all)

interpretation texts: workflow_law "texts_redacted redact" redact
  by unfold_locales (simp_all add: put_texts, auto simp: texts_redacted_def list_all_iff)

subsection \<open>What a pass keeps\<close>

text \<open>
  C35 (poll_keeps): a polling pass keeps the tables consistent and the stored text redacted, whatever GitHub answers and
  whichever statement fails: ids stay unique, no job, annotation, excerpt or queue entry refers to a run or job that is not
  there, and the JSON of runs and jobs, annotation messages and log excerpts are stored as the redactor returned them.
\<close>

theorem poll_keeps:
  assumes "run_once env cfg now s = (r, t)" "tables_ok (gs_db s)" "texts_redacted (poll_redactor env cfg) (gs_db s)"
  shows "tables_ok (gs_db t) \<and> texts_redacted (poll_redactor env cfg) (gs_db t)"
  using db_keepsD[OF refs.once_keeps[OF refl] assms(2,1)] db_keepsD[OF texts.once_keeps[OF refl] assms(3,1)] by simp

subsection \<open>What a pass stores of a job\<close>

definition annotation_row_of :: "poll_env \<Rightarrow> redactor \<Rightarrow> Job \<Rightarrow> Annotation \<Rightarrow> annotation_row" where
  "annotation_row_of env redact job a = (let message = rr_text (redact (aa_message a)); parsed = parse_annotation (pl_res env) (aj_name job) message
     in \<lparr>an_job_id = aj_id job, an_level = aa_annotation_level a, an_tool = fst parsed, an_rule_id = snd parsed, an_path = aa_path a,
         an_start_line = aa_start_line a, an_message = message\<rparr>)"

lemma sql_Inr: "sql f s = (Inr u, t) \<longleftrightarrow> next_fault (gs_faults s) = None \<and> t = s\<lparr>gs_db := f (gs_db s), gs_faults := tl (gs_faults s)\<rparr>"
  by (auto simp: sql_def split: option.splits)

lemma insert_annotations_Inr:
  "p_each (\<lambda>a. insert_annotation (pl_res env) (aj_id job) (aj_name job) (aa_annotation_level a) (rr_text (redact (aa_message a)))
     (aa_path a) (aa_start_line a)) as s = (Inr (), t)
   \<Longrightarrow> gs_db t = (gs_db s)\<lparr>gd_annotations := gd_annotations (gs_db s) @ map (annotation_row_of env redact job) as\<rparr>"
  by (induction as arbitrary: s)
    (auto simp: p_bind_Inr sql_Inr insert_annotation_def annotation_row_of_def Let_def split: prod.splits)

definition annotations_of :: "int \<Rightarrow> workflow_db \<Rightarrow> annotation_row list" where
  "annotations_of j d = filter (\<lambda>a. an_job_id a = j) (gd_annotations d)"

definition excerpts_of :: "int \<Rightarrow> workflow_db \<Rightarrow> excerpt_row list" where
  "excerpts_of j d = filter (\<lambda>x. lx_job_id x = j) (gd_excerpts d)"

definition fetched_annotations :: "poll_env \<Rightarrow> redactor \<Rightarrow> Job \<Rightarrow> workflow_db \<Rightarrow> annotation_row list" where
  "fetched_annotations env redact job d = (case aj_check_run_url job of
       None \<Rightarrow> annotations_of (aj_id job) d
     | Some cru \<Rightarrow> (case get_annotations (pl_api env) cru of Inl e \<Rightarrow> [] | Inr as \<Rightarrow> map (annotation_row_of env redact job) as))"

definition fetched_excerpts :: "poll_env \<Rightarrow> PollConfig \<Rightarrow> redactor \<Rightarrow> string \<Rightarrow> Job \<Rightarrow> workflow_db \<Rightarrow> excerpt_row list" where
  "fetched_excerpts env cfg redact repo job d =
     (if aj_conclusion job = Some ''failure'' \<or> aj_conclusion job = Some ''cancelled'' then
        (case get_log_tail (pl_api env) repo (aj_id job) (pc_log_excerpt_max_bytes cfg) of
           Inl e \<Rightarrow> excerpts_of (aj_id job) d
         | Inr (excerpt, truncated) \<Rightarrow>
             [\<lparr>lx_job_id = aj_id job, lx_step_name = None, lx_excerpt = rr_text (redact excerpt), lx_truncated = truncated\<rparr>])
      else excerpts_of (aj_id job) d)"

lemma annotation_row_job [simp]: "an_job_id (annotation_row_of env redact job a) = aj_id job"
  by (simp add: annotation_row_of_def Let_def)

lemma store_annotations_Inr:
  "store_annotations env redact job s = (Inr (), t) \<Longrightarrow> \<exists>rows. gs_db t = (gs_db s)\<lparr>gd_annotations := rows\<rparr>
     \<and> filter (\<lambda>a. an_job_id a = aj_id job) rows = fetched_annotations env redact job (gs_db s)
     \<and> filter (\<lambda>a. an_job_id a \<noteq> aj_id job) rows = filter (\<lambda>a. an_job_id a \<noteq> aj_id job) (gd_annotations (gs_db s))"
  by (auto simp: store_annotations_def fetched_annotations_def annotations_of_def p_bind_Inr sql_Inr Let_def filter_empty_conv
      dest!: insert_annotations_Inr split: option.splits sum.splits intro!: exI[of _ "gd_annotations (gs_db t)"] filter_True)

lemma store_log_Inr:
  "store_log env cfg redact repo job s = (Inr (), t) \<Longrightarrow> \<exists>rows. gs_db t = (gs_db s)\<lparr>gd_excerpts := rows\<rparr>
     \<and> filter (\<lambda>x. lx_job_id x = aj_id job) rows = fetched_excerpts env cfg redact repo job (gs_db s)
     \<and> filter (\<lambda>x. lx_job_id x \<noteq> aj_id job) rows = filter (\<lambda>x. lx_job_id x \<noteq> aj_id job) (gd_excerpts (gs_db s))"
  by (auto simp: store_log_def fetched_excerpts_def excerpts_of_def insert_log_excerpt_def p_bind_Inr sql_Inr filter_empty_conv
      split: if_splits sum.splits intro!: exI[of _ "gd_excerpts (gs_db t)"])

text \<open>
  When the handling of a job ends without an error, its row has the status and conclusion GitHub reported,
  its annotations are exactly those just fetched, and a failed or cancelled job whose log could be read has
  exactly one excerpt, the redacted tail. If the request for the annotations failed, the job ends with no annotations,
  so a transient failure deletes those of an earlier pass; a failed log request keeps the earlier excerpt. The annotations
  and excerpts of other jobs, the runs, the queue and the watch list are unchanged.
\<close>

theorem poll_job_exact:
  assumes "poll_job env cfg redact repo r job s = (Inr (), t)"
  shows "(\<exists>row \<in> set (gd_jobs (gs_db t)). jb_id row = aj_id job \<and> jb_status row = aj_status job \<and> jb_conclusion row = aj_conclusion job)
    \<and> annotations_of (aj_id job) (gs_db t) = fetched_annotations env redact job (gs_db s)
    \<and> excerpts_of (aj_id job) (gs_db t) = fetched_excerpts env cfg redact repo job (gs_db s)
    \<and> (\<forall>j. j \<noteq> aj_id job \<longrightarrow> annotations_of j (gs_db t) = annotations_of j (gs_db s) \<and> excerpts_of j (gs_db t) = excerpts_of j (gs_db s))
    \<and> gd_runs (gs_db t) = gd_runs (gs_db s) \<and> gd_queue (gs_db t) = gd_queue (gs_db s) \<and> gd_watch (gs_db t) = gd_watch (gs_db s)"
proof -
  let ?row = "job_row_of env redact r job"
  obtain s1 s2 where steps: "upsert_job ?row s = (Inr (), s1)" "store_annotations env redact job s1 = (Inr (), s2)"
      "store_log env cfg redact repo job s2 = (Inr (), t)"
    using assms by (auto simp: poll_job_def p_bind_Inr)
  have s1: "gs_db s1 = put_job ?row (gs_db s)" using steps(1) by (auto simp: upsert_job_def sql_Inr put_job_def)
  obtain rows where a: "gs_db s2 = (gs_db s1)\<lparr>gd_annotations := rows\<rparr>"
      "filter (\<lambda>a. an_job_id a = aj_id job) rows = fetched_annotations env redact job (gs_db s1)"
      "filter (\<lambda>a. an_job_id a \<noteq> aj_id job) rows = filter (\<lambda>a. an_job_id a \<noteq> aj_id job) (gd_annotations (gs_db s1))"
    using store_annotations_Inr[OF steps(2)] by blast
  obtain xs where x: "gs_db t = (gs_db s2)\<lparr>gd_excerpts := xs\<rparr>"
      "filter (\<lambda>x. lx_job_id x = aj_id job) xs = fetched_excerpts env cfg redact repo job (gs_db s2)"
      "filter (\<lambda>x. lx_job_id x \<noteq> aj_id job) xs = filter (\<lambda>x. lx_job_id x \<noteq> aj_id job) (gd_excerpts (gs_db s2))"
    using store_log_Inr[OF steps(3)] by blast
  have others: "filter (\<lambda>z. k z = j) zs = filter (\<lambda>z. k z = j) zs'"
    if "filter (\<lambda>z. k z \<noteq> i) zs = filter (\<lambda>z. k z \<noteq> i) zs'" "j \<noteq> i" for k :: "'z \<Rightarrow> int" and i j zs zs'
    using arg_cong[OF that(1), of "filter (\<lambda>z. k z = j)"] that(2) by (simp add: filter_filter conj_commute cong: conj_cong)
  have "\<exists>row \<in> set (upsert_on jb_id merge_job ?row (gd_jobs (gs_db s))). jb_id row = aj_id job \<and> jb_status row = aj_status job
      \<and> jb_conclusion row = aj_conclusion job"
    by (rule bexE[OF upsert_on_new[of jb_id merge_job ?row "gd_jobs (gs_db s)"]], rule bexI)
      (auto simp: merge_job_def job_row_of_def)
  moreover have "fetched_annotations env redact job (gs_db s1) = fetched_annotations env redact job (gs_db s)"
      "fetched_excerpts env cfg redact repo job (gs_db s2) = fetched_excerpts env cfg redact repo job (gs_db s)"
    using s1 a(1) by (auto simp: fetched_annotations_def fetched_excerpts_def annotations_of_def excerpts_of_def split: option.split sum.split)
  moreover have "gd_watch (put_job ?row d) = gd_watch d" for d by (simp add: put_job_def)
  ultimately show ?thesis
    using s1 a x by (auto simp: annotations_of_def excerpts_of_def intro: others)
qed

subsection \<open>What a pass covers\<close>

definition queued :: "int \<Rightarrow> workflow_db \<Rightarrow> bool" where
  "queued r d \<longleftrightarrow> r \<in> wq_run_id ` set (gd_queue d)"

definition enriched_in :: "workflow_db \<Rightarrow> int \<Rightarrow> bool" where
  "enriched_in d r \<longleftrightarrow> list_ex (\<lambda>row. rn_id row = r \<and> rn_enriched row) (gd_runs d)"

interpretation fresh: workflow_law "\<lambda>d. \<not> enriched_in d r" redact
  by unfold_locales (auto simp: enriched_in_def list_ex_iff upsert_on_def merge_run_def split: if_splits)

definition present :: "int set \<Rightarrow> int set \<Rightarrow> int set \<Rightarrow> workflow_db \<Rightarrow> bool" where
  "present R J Q d \<longleftrightarrow> (\<forall>r \<in> R. has_run r d) \<and> (\<forall>j \<in> J. has_job j d) \<and> (\<forall>q \<in> Q. queued q d)"

interpretation stays: workflow_law "present R J Q" redact
  by unfold_locales (auto simp: present_def queued_def)

lemma job_present: "poll_job env cfg redact repo r job s = (Inr (), t) \<Longrightarrow> has_job (aj_id job) (gs_db t)"
  using upsert_on_ids[of jb_id merge_job]
  by (auto simp: poll_job_def p_bind_Inr upsert_job_def sql_Inr has_job_def dest!: store_annotations_Inr store_log_Inr)

lemma each_present:
  assumes "p_each (poll_job env cfg redact repo r) jobs s = (Inr (), t)" "job \<in> set jobs" "has_run r (gs_db s)"
  shows "has_job (aj_id job) (gs_db t)"
proof -
  have k: "p_keeps (\<lambda>s. present R J Q (gs_db s) \<and> has_run r (gs_db s)) (poll_job env cfg redact repo r y)" for R J Q y
    using stays.job_keeps[of R J Q r env cfg redact repo y] by (simp add: db_keeps_def)
  have "has_job (aj_id job) (gs_db t) \<and> has_run r (gs_db t)"
    using assms
  proof (rule p_each_establishes[where I = "\<lambda>s. has_run r (gs_db s)"])
    show "p_keeps (\<lambda>s. has_run r (gs_db s)) (poll_job env cfg redact repo r y)" for y using k[of "{}" "{}" "{}"] by (simp add: present_def)
    show "p_keeps (\<lambda>s. has_job (aj_id job) (gs_db s) \<and> has_run r (gs_db s)) (poll_job env cfg redact repo r y)" for y
      using k[of "{}" "{aj_id job}" "{}"] by (simp add: present_def)
    show "has_job (aj_id job) (gs_db v) \<and> has_run r (gs_db v)" if "has_run r (gs_db u)" "poll_job env cfg redact repo r job u = (Inr (), v)" for u v
      using job_present[OF that(2)] p_keepsD[OF k[of "{}" "{}" "{}"] _ that(2)] that(1) by (simp add: present_def)
  qed
  then show ?thesis by simp
qed

lemma sql_try_watch: "sql_try (\<lambda>d. d\<lparr>gd_watch := f d\<rparr>) s = (r, t) \<Longrightarrow> \<exists>w. gs_db t = (gs_db s)\<lparr>gd_watch := w\<rparr>"
  by (auto simp: sql_try_def sql_def split: option.splits intro: exI[of _ "gd_watch (gs_db s)"])

lemma settle_watch_Inr: "settle_watch repo run s = (Inr (), t) \<Longrightarrow> \<exists>w. gs_db t = (gs_db s)\<lparr>gd_watch := w\<rparr>"
  by (auto simp: settle_watch_def sql_Inr sql_try_def sql_def split: option.splits if_splits intro: exI[of _ "gd_watch (gs_db s)"])

lemma run_covers:
  assumes "poll_run env cfg redact now repo run s = (Inr (), t)" "\<not> enriched_in (gs_db s) (ar_id run)" "ar_status run = ''completed''"
    "list_jobs (pl_api env) repo (ar_id run) = Inr jobs"
  shows "queued (ar_id run) (gs_db t) \<and> (\<forall>job \<in> set jobs. has_job (aj_id job) (gs_db t))"
proof -
  obtain s1 s2 s3 x where steps: "upsert_run (run_row_of env redact repo now run) s = (Inr (), s1)" "settle_watch repo run s1 = (Inr (), s2)"
      "already_enriched (ar_id run) s2 = (Inr x, s3)"
      "(if x then p_ret () else case list_jobs (pl_api env) repo (ar_id run) of Inl e \<Rightarrow> p_ret ()
         | Inr jobs \<Rightarrow> p_bind (p_each (poll_job env cfg redact repo (ar_id run)) jobs) (\<lambda>_. enqueue_enrichment (ar_id run) now)) s3 = (Inr (), t)"
    using assms(1,3) by (auto simp: poll_run_def drill_down_def p_bind_Inr)
  have s1: "gs_db s1 = put_run (run_row_of env redact repo now run) (gs_db s)" using steps(1) by (simp add: upsert_run_def sql_Inr put_run_def)
  obtain w where w: "gs_db s2 = (gs_db s1)\<lparr>gd_watch := w\<rparr>" using settle_watch_Inr[OF steps(2)] by blast
  have s3: "gs_db s3 = gs_db s2" using steps(3) by (auto simp: already_enriched_def sql_def split: option.splits)
  have "\<not> enriched_in (gs_db s3) (ar_id run)"
    using fresh.law_run[OF assms(2), of "run_row_of env redact repo now run" redact] s1 w s3 by (simp add: run_row_of_def enriched_in_def)
  then have x: "\<not> x" using steps(3) s3 by (auto simp: already_enriched_def sql_def enriched_in_def split: option.splits)
  obtain s4 where s4: "p_each (poll_job env cfg redact repo (ar_id run)) jobs s3 = (Inr (), s4)" "enqueue_enrichment (ar_id run) now s4 = (Inr (), t)"
    using steps(4) x assms(4) by (auto simp: p_bind_Inr)
  have "has_run (ar_id run) (gs_db s3)" using s1 w s3 by simp
  then have "has_job (aj_id job) (gs_db s4)" if "job \<in> set jobs" for job using each_present[OF s4(1) that] by simp
  then show ?thesis using s4(2) by (auto simp: enqueue_enrichment_def sql_Inr queued_def)
qed

lemma run_present:
  assumes "poll_run env cfg redact now repo run s = (Inr (), t)"
  shows "has_run (ar_id run) (gs_db t)"
proof -
  obtain s1 where s1: "upsert_run (run_row_of env redact repo now run) s = (Inr (), s1)"
      "(if ar_status run = ''completed'' then p_bind (settle_watch repo run) (\<lambda>_. drill_down env cfg redact now repo run) else p_ret ()) s1 = (Inr (), t)"
    using assms by (auto simp: poll_run_def p_bind_Inr)
  have here: "has_run (ar_id run) (gs_db s1)" using s1(1) by (auto simp: upsert_run_def sql_Inr simp flip: put_run_def)
  have "db_keeps (has_run (ar_id run)) (settle_watch repo run)" unfolding settle_watch_def by (intro keeping) auto
  moreover have "db_keeps (has_run (ar_id run)) (drill_down env cfg redact now repo run)"
    using stays.drill_keeps[of "{}" "{}" "{}"] by (simp add: present_def)
  ultimately have "db_keeps (has_run (ar_id run))
      (if ar_status run = ''completed'' then p_bind (settle_watch repo run) (\<lambda>_. drill_down env cfg redact now repo run) else p_ret ())"
    by (intro keeping)
  from db_keepsD[OF this here s1(2)] show ?thesis .
qed

text \<open>What a pass that started on the tables \<open>d0\<close> owes a listed run: its row, and its queue entry and jobs if it was to be drilled down.\<close>

definition run_owed :: "poll_env \<Rightarrow> string \<Rightarrow> workflow_db \<Rightarrow> WorkflowRun \<Rightarrow> workflow_db \<Rightarrow> bool" where
  "run_owed env repo d0 run d \<longleftrightarrow> has_run (ar_id run) d \<and> (ar_status run = ''completed'' \<and> \<not> enriched_in d0 (ar_id run) \<longrightarrow>
     (\<forall>jobs. list_jobs (pl_api env) repo (ar_id run) = Inr jobs \<longrightarrow> queued (ar_id run) d \<and> (\<forall>job \<in> set jobs. has_job (aj_id job) d)))"

definition not_newly_enriched :: "workflow_db \<Rightarrow> int \<Rightarrow> workflow_db \<Rightarrow> bool" where
  "not_newly_enriched d0 r d \<longleftrightarrow> enriched_in d0 r \<or> \<not> enriched_in d r"

lemma run_owed_present: "\<exists>J Q. run_owed env repo d0 run = present {ar_id run} J Q"
proof (cases "ar_status run = ''completed'' \<and> \<not> enriched_in d0 (ar_id run)")
  case True
  show ?thesis
  proof (cases "list_jobs (pl_api env) repo (ar_id run)")
    case (Inr jobs)
    then have "run_owed env repo d0 run = present {ar_id run} (aj_id ` set jobs) {ar_id run}"
      using True by (auto simp: run_owed_def present_def)
    then show ?thesis by blast
  qed (rule exI[of _ "{}"], rule exI[of _ "{}"], auto simp: run_owed_def present_def)
qed (rule exI[of _ "{}"], rule exI[of _ "{}"], auto simp: run_owed_def present_def)

lemma owed_stays: "db_keeps (run_owed env repo d0 run) (poll_run env' cfg redact now repo' run')"
  using run_owed_present[of env repo d0 run] stays.run_keeps by metis

lemma fresh_stays: "db_keeps (not_newly_enriched d0 r) (poll_run env cfg redact now repo run)"
  using fresh.run_keeps[of r env cfg redact now repo run] by (auto simp: db_keeps_def p_keeps_def not_newly_enriched_def)

lemma repo_keeps: "(\<And>run. db_keeps Q (poll_run env cfg redact now repo run)) \<Longrightarrow> db_keeps Q (poll_repo env cfg redact now repo)"
  unfolding poll_repo_def by (intro keeping db_keeps_each)

lemma repo_owed:
  assumes "poll_repo env cfg redact now repo u = (Inr (), v)" "not_newly_enriched d0 (ar_id run) (gs_db u)"
    "list_runs (pl_api env) repo (Some 20) None = Inr runs" "run \<in> set runs"
  shows "run_owed env repo d0 run (gs_db v)"
proof -
  have "p_each (poll_run env cfg redact now repo) runs u = (Inr (), v)" using assms(1,3) by (simp add: poll_repo_def)
  then show ?thesis using assms(4,2)
  proof (rule p_each_establishes[where I = "\<lambda>u. not_newly_enriched d0 (ar_id run) (gs_db u)"])
    show "run_owed env repo d0 run (gs_db v')"
      if "not_newly_enriched d0 (ar_id run) (gs_db u')" and r: "poll_run env cfg redact now repo run u' = (Inr (), v')" for u' v'
      using run_covers[OF r] run_present[OF r] that(1) by (auto simp: run_owed_def not_newly_enriched_def)
  qed (use owed_stays fresh_stays in \<open>simp_all add: db_keeps_def\<close>)
qed

lemma once_steps:
  assumes "run_once env cfg now s = (Inr (), t)"
  obtains s1 s2 w where "gs_db s1 = gs_db s" "p_each (poll_repo env cfg (poll_redactor env cfg) now) (pc_watched_repos cfg) s1 = (Inr (), s2)"
    "gs_db t = (gs_db s2)\<lparr>gd_watch := w\<rparr>"
proof -
  obtain s1 s2 where u: "sql (\<lambda>d. d) s = (Inr (), s1)" "p_each (poll_repo env cfg (poll_redactor env cfg) now) (pc_watched_repos cfg) s1 = (Inr (), s2)"
      "sql_try (\<lambda>d. d\<lparr>gd_watch := fst (cleanup_expired now (gd_watch d))\<rparr>) s2 = (Inr (), t)"
    using assms by (auto simp: run_once_def p_bind_Inr)
  show thesis using that[of s1 s2] u(1,2) sql_try_watch[OF u(3)] by (auto simp: sql_Inr)
qed

lemma unlisted_fails:
  "list_runs (pl_api env) repo (Some 20) None = Inl e \<Longrightarrow> repo \<in> set repos \<Longrightarrow> p_each (poll_repo env cfg redact now) repos u \<noteq> (Inr (), v)"
  by (induction repos arbitrary: u) (auto simp: p_bind_Inr poll_repo_def)

text \<open>
  C23 (poll_covers): a pass that ends without an error has read every watched repository; each run of its answer has a row, and
  each completed run whose jobs could be listed and which was not enriched yet is in the enrichment queue with a row for every
  job.
\<close>

theorem poll_covers:
  assumes "run_once env cfg now s = (Inr (), t)" "repo \<in> set (pc_watched_repos cfg)"
  shows "\<exists>runs. list_runs (pl_api env) repo (Some 20) None = Inr runs \<and> (\<forall>run \<in> set runs. has_run (ar_id run) (gs_db t)
    \<and> (ar_status run = ''completed'' \<and> \<not> enriched_in (gs_db s) (ar_id run) \<longrightarrow>
        (\<forall>jobs. list_jobs (pl_api env) repo (ar_id run) = Inr jobs \<longrightarrow>
           queued (ar_id run) (gs_db t) \<and> (\<forall>job \<in> set jobs. has_job (aj_id job) (gs_db t)))))"
proof -
  obtain s1 s2 w where steps: "gs_db s1 = gs_db s" "p_each (poll_repo env cfg (poll_redactor env cfg) now) (pc_watched_repos cfg) s1 = (Inr (), s2)"
    "gs_db t = (gs_db s2)\<lparr>gd_watch := w\<rparr>" using once_steps[OF assms(1)] by blast
  obtain runs where runs: "list_runs (pl_api env) repo (Some 20) None = Inr runs"
    using unlisted_fails[of env repo _ "pc_watched_repos cfg"] steps(2) assms(2) by (metis sum.exhaust)
  have "run_owed env repo (gs_db s) run (gs_db s2)" if "run \<in> set runs" for run
    using steps(2) assms(2)
  proof (rule p_each_establishes[where I = "\<lambda>u. not_newly_enriched (gs_db s) (ar_id run) (gs_db u)"])
    show "p_keeps (\<lambda>u. not_newly_enriched (gs_db s) (ar_id run) (gs_db u)) (poll_repo env cfg (poll_redactor env cfg) now y)" for y
      using repo_keeps[OF fresh_stays] by (simp add: db_keeps_def)
    show "p_keeps (\<lambda>u. run_owed env repo (gs_db s) run (gs_db u)) (poll_repo env cfg (poll_redactor env cfg) now y)" for y
      using repo_keeps[OF owed_stays] by (simp add: db_keeps_def)
  qed (use repo_owed[OF _ _ runs that] steps(1) in \<open>simp_all add: not_newly_enriched_def\<close>)
  then show ?thesis using runs steps(3) by (auto simp: run_owed_def queued_def)
qed

subsection \<open>The watch list\<close>

text \<open>A procedure that ends well when no statement fails, and then changes the watch list by \<open>g\<close>.\<close>

definition calm :: "gh_state \<Rightarrow> bool" where
  "calm s \<longleftrightarrow> set (gs_faults s) \<subseteq> {None}"

definition watches :: "(watch_row list \<Rightarrow> watch_row list) \<Rightarrow> (gh_state, 'a) proc \<Rightarrow> bool" where
  "watches g m \<longleftrightarrow> (\<forall>s. calm s \<longrightarrow> (\<exists>x t. m s = (Inr x, t) \<and> calm t \<and> gd_watch (gs_db t) = g (gd_watch (gs_db s))))"

lemma calm_next: "calm s \<Longrightarrow> next_fault (gs_faults s) = None \<and> calm (s\<lparr>gs_faults := tl (gs_faults s)\<rparr>) \<and> calm (s\<lparr>gs_db := d, gs_faults := tl (gs_faults s)\<rparr>)"
  by (cases "gs_faults s") (auto simp: calm_def next_fault_def)

lemma watches_sql: "(\<And>d. gd_watch (f d) = g (gd_watch d)) \<Longrightarrow> watches g (sql f)"
  by (auto simp: watches_def sql_def calm_next)

lemma watches_try: "(\<And>d. gd_watch (f d) = g (gd_watch d)) \<Longrightarrow> watches g (sql_try f)"
  by (auto simp: watches_def sql_def sql_try_def calm_next)

lemma watches_enriched: "watches (\<lambda>w. w) (already_enriched r)"
  by (auto simp: watches_def sql_def already_enriched_def calm_next)

lemma watches_ret: "watches (\<lambda>w. w) (p_ret x)"
  by (simp add: watches_def)

lemma watches_bind:
  assumes m: "watches g m" and f: "\<And>x. watches h (f x)"
  shows "watches (\<lambda>w. h (g w)) (p_bind m f)"
  unfolding watches_def
proof (intro allI impI)
  fix s assume "calm s"
  with m obtain x u where u: "m s = (Inr x, u)" "calm u" "gd_watch (gs_db u) = g (gd_watch (gs_db s))" unfolding watches_def by blast
  with f[of x] obtain y t where "f x u = (Inr y, t)" "calm t" "gd_watch (gs_db t) = h (gd_watch (gs_db u))" unfolding watches_def by blast
  with u show "\<exists>x t. p_bind m f s = (Inr x, t) \<and> calm t \<and> gd_watch (gs_db t) = h (g (gd_watch (gs_db s)))" by simp
qed

lemma watches_each: "(\<And>x. x \<in> set xs \<Longrightarrow> watches (g x) (f x)) \<Longrightarrow> watches (\<lambda>w. foldl (\<lambda>w x. g x w) w xs) (p_each f xs)"
proof (induction xs)
  case (Cons x xs)
  then show ?case using watches_bind[of "g x" "f x" "\<lambda>w. foldl (\<lambda>w x. g x w) w xs" "\<lambda>_. p_each f xs"] by simp
qed (simp add: watches_ret)

lemma foldl_same [simp]: "foldl (\<lambda>w x. w) w xs = w"
  by (induction xs) simp_all

lemma watches_quiet_bind: "watches (\<lambda>w. w) m \<Longrightarrow> (\<And>x. watches (\<lambda>w. w) (f x)) \<Longrightarrow> watches (\<lambda>w. w) (p_bind m f)"
  using watches_bind[of "\<lambda>w. w" m "\<lambda>w. w" f] by simp

lemma watches_quiet_each: "(\<And>x. watches (\<lambda>w. w) (f x)) \<Longrightarrow> watches (\<lambda>w. w) (p_each f xs)"
  using watches_each[of xs "\<lambda>x w. w" f] by simp

lemma watches_annotation: "watches (\<lambda>w. w) (insert_annotation res j n l m p k)"
  by (auto simp: insert_annotation_def intro!: watches_sql split: prod.split)

lemma watches_job: "watches (\<lambda>w. w) (poll_job env cfg redact repo r job)"
  unfolding poll_job_def upsert_job_def store_annotations_def store_log_def insert_log_excerpt_def Let_def
  by (auto intro!: watches_quiet_bind watches_quiet_each watches_sql watches_ret watches_annotation split: option.split sum.split)

lemma watches_drill: "watches (\<lambda>w. w) (drill_down env cfg redact now repo run)"
  unfolding drill_down_def enqueue_enrichment_def
  by (auto intro!: watches_quiet_bind watches_quiet_each watches_sql watches_ret watches_enriched watches_job split: sum.split)

definition watch_after :: "string \<Rightarrow> WorkflowRun \<Rightarrow> watch_row list \<Rightarrow> watch_row list" where
  "watch_after repo run w = (if ar_status run = ''completed'' then (case ar_conclusion run of None \<Rightarrow> w
     | Some c \<Rightarrow> if is_bad c then fst (mark_terminal (ar_head_sha run) repo c w) else drop_watch (ar_head_sha run) repo w) else w)"

lemma watches_run: "watches (watch_after repo run) (poll_run env cfg redact now repo run)"
proof -
  have settle: "watches (\<lambda>w. case ar_conclusion run of None \<Rightarrow> w | Some c \<Rightarrow> if is_bad c then fst (mark_terminal (ar_head_sha run) repo c w)
      else drop_watch (ar_head_sha run) repo w) (settle_watch repo run)"
    by (auto simp: settle_watch_def intro!: watches_ret watches_sql watches_try split: option.split)
  have up: "watches (\<lambda>w. w) (upsert_run (run_row_of env redact repo now run))" by (simp add: upsert_run_def watches_sql)
  have eq: "(\<lambda>w. (case ar_conclusion run of None \<Rightarrow> w | Some c \<Rightarrow> if is_bad c then fst (mark_terminal (ar_head_sha run) repo c w)
      else drop_watch (ar_head_sha run) repo w)) = watch_after repo run" if "ar_status run = ''completed''"
    using that by (auto simp: watch_after_def)
  show ?thesis
  proof (cases "ar_status run = ''completed''")
    case True
    then show ?thesis using watches_bind[OF up watches_bind[OF settle watches_drill]] by (simp add: poll_run_def eq[OF True])
  next
    case False
    then have "watch_after repo run = (\<lambda>w. w)" by (auto simp: watch_after_def)
    then show ?thesis using False watches_quiet_bind[OF up, of "\<lambda>_. p_ret ()"] by (simp add: poll_run_def watches_ret)
  qed
qed

text \<open>The conclusions of the completed runs of a commit in a repository, in the order a pass meets them.\<close>

definition verdict :: "string \<Rightarrow> string \<Rightarrow> string \<times> WorkflowRun \<Rightarrow> string list" where
  "verdict sha repo e = (case e of (repo', run) \<Rightarrow>
     if repo' = repo \<and> ar_head_sha run = sha \<and> ar_status run = ''completed'' then (case ar_conclusion run of None \<Rightarrow> [] | Some c \<Rightarrow> [c]) else [])"

definition listed :: "poll_env \<Rightarrow> string \<Rightarrow> WorkflowRun list" where
  "listed env repo = (case list_runs (pl_api env) repo (Some 20) None of Inl e \<Rightarrow> [] | Inr runs \<Rightarrow> runs)"

definition verdicts :: "poll_env \<Rightarrow> PollConfig \<Rightarrow> string \<Rightarrow> string \<Rightarrow> string list" where
  "verdicts env cfg sha repo =
     concat (map (\<lambda>repo'. concat (map (\<lambda>run. verdict sha repo (repo', run)) (listed env repo'))) (pc_watched_repos cfg))"

definition watch_of :: "string \<Rightarrow> string \<Rightarrow> watch_row list \<Rightarrow> watch_row list" where
  "watch_of sha repo w = filter (\<lambda>r. wr_sha r = sha \<and> wr_repo r = repo) w"

definition verdict_step :: "watch_row list \<Rightarrow> string \<Rightarrow> watch_row list" where
  "verdict_step rows c = (if is_bad c then map (\<lambda>r. r\<lparr>wr_terminal_status := Some c\<rparr>) rows else [])"

lemma watch_of_marked: "watch_of sha repo (map (\<lambda>r. if wr_sha r = sha' \<and> wr_repo r = repo' then r\<lparr>wr_terminal_status := st\<rparr> else r) w) =
    (if sha = sha' \<and> repo = repo' then map (\<lambda>r. r\<lparr>wr_terminal_status := st\<rparr>) (watch_of sha repo w) else watch_of sha repo w)"
  by (induction w) (auto simp: watch_of_def)

lemma watch_of_dropped: "watch_of sha repo (drop_watch sha' repo' w) = (if sha = sha' \<and> repo = repo' then [] else watch_of sha repo w)"
  by (induction w) (auto simp: watch_of_def drop_watch_def)

lemma watch_of_after: "watch_of sha repo (watch_after repo' run w) = foldl verdict_step (watch_of sha repo w) (verdict sha repo (repo', run))"
  by (auto simp: watch_after_def verdict_def verdict_step_def mark_terminal_def watch_of_marked watch_of_dropped split: option.split)

lemma watch_of_runs: "watch_of sha repo (foldl (\<lambda>w run. watch_after repo' run w) w runs) =
    foldl verdict_step (watch_of sha repo w) (concat (map (\<lambda>run. verdict sha repo (repo', run)) runs))"
  by (induction runs arbitrary: w) (simp_all add: watch_of_after)

lemma watch_of_repos: "watch_of sha repo (foldl (\<lambda>w repo'. foldl (\<lambda>w run. watch_after repo' run w) w (listed env repo')) w repos) =
    foldl verdict_step (watch_of sha repo w) (concat (map (\<lambda>repo'. concat (map (\<lambda>run. verdict sha repo (repo', run)) (listed env repo'))) repos))"
  by (induction repos arbitrary: w) (simp_all add: watch_of_runs)

lemma verdicts_none: "foldl verdict_step [] cs = []"
  by (induction cs) (simp_all add: verdict_step_def)

lemma verdicts_good: "c \<in> set cs \<Longrightarrow> \<not> is_bad c \<Longrightarrow> foldl verdict_step rows cs = []"
  by (induction cs arbitrary: rows) (auto simp: verdict_step_def verdicts_none)

lemma verdicts_bad: "cs \<noteq> [] \<Longrightarrow> list_all is_bad cs \<Longrightarrow> foldl verdict_step rows cs = map (\<lambda>r. r\<lparr>wr_terminal_status := Some (last cs)\<rparr>) rows"
proof (induction cs arbitrary: rows)
  case (Cons c cs)
  then show ?case by (cases "cs = []") (simp_all add: verdict_step_def)
qed simp

lemma watches_once:
  assumes "list_all (\<lambda>repo. \<exists>runs. list_runs (pl_api env) repo (Some 20) None = Inr runs) (pc_watched_repos cfg)"
  shows "watches (\<lambda>w. fst (cleanup_expired now
    (foldl (\<lambda>w repo. foldl (\<lambda>w run. watch_after repo run w) w (listed env repo)) w (pc_watched_repos cfg)))) (run_once env cfg now)"
proof -
  let ?redact = "poll_redactor env cfg"
  have repo: "watches (\<lambda>w. foldl (\<lambda>w run. watch_after repo run w) w (listed env repo)) (poll_repo env cfg ?redact now repo)"
    if "repo \<in> set (pc_watched_repos cfg)" for repo
    using that assms watches_each[of "listed env repo" "watch_after repo" "poll_run env cfg ?redact now repo"] watches_run
    by (auto simp: poll_repo_def listed_def list_all_iff)
  have "watches (\<lambda>w. foldl (\<lambda>w repo. foldl (\<lambda>w run. watch_after repo run w) w (listed env repo)) w (pc_watched_repos cfg))
      (p_each (poll_repo env cfg ?redact now) (pc_watched_repos cfg))"
    by (rule watches_each[where g = "\<lambda>repo w. foldl (\<lambda>w run. watch_after repo run w) w (listed env repo)"]) (rule repo)
  moreover have "watches (\<lambda>w. fst (cleanup_expired now w)) (sql_try (\<lambda>d. d\<lparr>gd_watch := fst (cleanup_expired now (gd_watch d))\<rparr>))"
    by (rule watches_try) simp
  moreover have "watches (\<lambda>w. w) (sql (\<lambda>d. d))" by (rule watches_sql) simp
  ultimately show ?thesis unfolding run_once_def by (intro watches_bind[where g = "\<lambda>w. w", simplified] watches_bind)
qed

text \<open>
  C22 (watch_fate): in a pass without faults, the watch on a commit of a repository is decided by the completed runs of that
  commit. If one of them neither failed nor was cancelled, the watch is gone, whatever the others did and in whichever order
  they come: a failure beside a success is never notified. If all failed or were cancelled, every watch that has not been notified is
  pending with the last of their conclusions until it expires. With none, the watch is kept, but for the clean-up.
\<close>

theorem watch_fate:
  assumes "calm s" "list_all (\<lambda>repo. \<exists>runs. list_runs (pl_api env) repo (Some 20) None = Inr runs) (pc_watched_repos cfg)"
    and "run_once env cfg now s = (r, t)"
  shows "r = Inr ()
    \<and> (list_ex (\<lambda>c. \<not> is_bad c) (verdicts env cfg sha repo) \<longrightarrow> watch_of sha repo (gd_watch (gs_db t)) = [])
    \<and> (verdicts env cfg sha repo \<noteq> [] \<and> list_all is_bad (verdicts env cfg sha repo) \<longrightarrow>
        (\<forall>row \<in> set (watch_of sha repo (gd_watch (gs_db s))). \<forall>later < wr_expires_at row. \<not> wr_notified row \<longrightarrow>
          row\<lparr>wr_terminal_status := Some (last (verdicts env cfg sha repo))\<rparr> \<in> set (pending_notifications later (gd_watch (gs_db t)))))
    \<and> (verdicts env cfg sha repo = [] \<longrightarrow>
        watch_of sha repo (gd_watch (gs_db t)) = fst (cleanup_expired now (watch_of sha repo (gd_watch (gs_db s)))))"
proof -
  have t: "r = Inr ()" "gd_watch (gs_db t) = fst (cleanup_expired now (foldl (\<lambda>w repo. foldl (\<lambda>w run. watch_after repo run w) w (listed env repo))
      (gd_watch (gs_db s)) (pc_watched_repos cfg)))"
    using watches_once[OF assms(2), of now] assms(1,3) by (auto simp: watches_def)
  have clean: "watch_of sha repo (fst (cleanup_expired now w)) = fst (cleanup_expired now (watch_of sha repo w))" for w
    by (simp add: watch_of_def cleanup_expired_def Let_def conj_commute)
  have w: "watch_of sha repo (gd_watch (gs_db t)) = fst (cleanup_expired now (foldl verdict_step (watch_of sha repo (gd_watch (gs_db s))) (verdicts env cfg sha repo)))"
    unfolding t(2) clean watch_of_repos verdicts_def ..
  have "watch_of sha repo (gd_watch (gs_db t)) = []" if "list_ex (\<lambda>c. \<not> is_bad c) (verdicts env cfg sha repo)"
    using that verdicts_good by (auto simp: w list_ex_iff cleanup_expired_def)
  moreover have "row\<lparr>wr_terminal_status := Some (last cs)\<rparr> \<in> set (pending_notifications later (gd_watch (gs_db t)))"
    if cs: "cs = verdicts env cfg sha repo" "cs \<noteq> []" "list_all is_bad cs" and row: "row \<in> set (watch_of sha repo (gd_watch (gs_db s)))"
      "later < wr_expires_at row" "\<not> wr_notified row" for cs row later
  proof -
    have "row\<lparr>wr_terminal_status := Some (last cs)\<rparr> \<in> set (watch_of sha repo (gd_watch (gs_db t)))"
      using row(1,3) by (auto simp: w verdicts_bad cs(1)[symmetric] cs(2,3) cleanup_expired_def)
    moreover have "is_bad (last cs)" using cs(2,3) by (simp add: list_all_iff)
    ultimately show ?thesis using row(2,3) by (auto simp: watch_of_def pending_notifications_def is_bad_def)
  qed
  ultimately show ?thesis using t(1) w by auto
qed

subsection \<open>Examples\<close>

definition example_ci :: "int \<Rightarrow> string \<Rightarrow> WorkflowRun" where
  "example_ci i concl = \<lparr>ar_id = i, ar_head_sha = ''abc'', ar_head_branch = None, ar_status = ''completed'', ar_conclusion = Some concl,
     ar_event = ''push'', ar_html_url = [], ar_run_started_at = None, ar_updated_at = None, ar_actor = None\<rparr>"

definition example_poll :: poll_env where
  "example_poll = \<lparr>pl_api = example_api [example_ci 1 ''failure'', example_ci 2 ''success''],
     pl_builtin = (\<lambda>s. \<lparr>rr_text = ''x'', rr_count = 1, rr_hits = []\<rparr>), pl_load_redactor = (\<lambda>_. Inl []), pl_parse_rfc3339 = (\<lambda>_. None),
     pl_run_json = (\<lambda>_. ''secret''), pl_job_json = (\<lambda>_. ''secret''),
     pl_res = \<lparr>re_ruff = (\<lambda>_. None), re_cargo = (\<lambda>_. None), re_mypy = (\<lambda>_. None)\<rparr>\<rparr>"

definition example_poll_config :: PollConfig where
  "example_poll_config = \<lparr>pc_watched_repos = [''o/r''], pc_log_excerpt_max_bytes = 100, pc_redact_config_path = None\<rparr>"

definition example_gh :: gh_state where
  "example_gh = \<lparr>gs_db = \<lparr>gd_runs = [], gd_jobs = [], gd_annotations = [], gd_excerpts = [], gd_queue = [],
       gd_watch = [\<lparr>wr_sha = ''abc'', wr_repo = ''o/r'', wr_created_at = 0, wr_expires_at = 100, wr_terminal_status = None, wr_notified = False\<rparr>]\<rparr>,
     gs_faults = []\<rparr>"

lemma example_listing:
  "list_runs (pl_api example_poll) repo n c = Inr [example_ci 1 ''failure'', example_ci 2 ''success'']"
  "list_jobs (pl_api example_poll) repo i = Inr []"
proof -
  have p: "ga_parse_runs (example_api rs) = (\<lambda>_. Some rs)" "ga_parse_jobs (example_api rs) = (\<lambda>_. Some [])" for rs
    by (simp_all add: example_api_def)
  show "list_runs (pl_api example_poll) repo n c = Inr [example_ci 1 ''failure'', example_ci 2 ''success'']" "list_jobs (pl_api example_poll) repo i = Inr []"
    by (simp_all add: example_poll_def list_runs_def list_jobs_def p example_limited_twice)
qed

lemma example_calm: "calm example_gh" "list_all (\<lambda>repo. \<exists>runs. list_runs (pl_api example_poll) repo (Some 20) None = Inr runs) (pc_watched_repos cfg)"
  by (simp_all add: calm_def example_gh_def example_listing list_all_iff)

lemma example_pass: obtains t where "run_once example_poll example_poll_config 5 example_gh = (Inr (), t)"
  using that watches_once[OF example_calm(2)[of example_poll_config], of 5] example_calm(1) by (auto simp: watches_def)

lemma poll_keeps_witness:
  "\<exists>t. run_once example_poll example_poll_config 5 example_gh = (Inr (), t) \<and> tables_ok (gs_db t)
     \<and> texts_redacted (poll_redactor example_poll example_poll_config) (gs_db t)"
proof -
  obtain t where t: "run_once example_poll example_poll_config 5 example_gh = (Inr (), t)" by (rule example_pass)
  have "tables_ok (gs_db example_gh)" "texts_redacted redact (gs_db example_gh)" for redact
    by (simp_all add: tables_ok_def texts_redacted_def example_gh_def)
  from poll_keeps[OF t this] t show ?thesis by blast
qed

lemma poll_covers_witness:
  "\<exists>t. run_once example_poll example_poll_config 5 example_gh = (Inr (), t) \<and> has_run 1 (gs_db t) \<and> queued 1 (gs_db t) \<and> queued 2 (gs_db t)"
proof -
  obtain t where t: "run_once example_poll example_poll_config 5 example_gh = (Inr (), t)" by (rule example_pass)
  have "''o/r'' \<in> set (pc_watched_repos example_poll_config)" by (simp add: example_poll_config_def)
  from poll_covers[OF t this] t show ?thesis
    by (auto simp: example_listing example_ci_def enriched_in_def example_gh_def)
qed

lemma watch_fate_witness:
  "\<exists>t. run_once example_poll example_poll_config 5 example_gh = (Inr (), t) \<and> verdicts example_poll example_poll_config ''abc'' ''o/r'' = [''failure'', ''success'']
     \<and> watch_of ''abc'' ''o/r'' (gd_watch (gs_db t)) = []"
proof -
  obtain t where t: "run_once example_poll example_poll_config 5 example_gh = (Inr (), t)" by (rule example_pass)
  have v: "verdicts example_poll example_poll_config ''abc'' ''o/r'' = [''failure'', ''success'']"
    by (simp add: verdicts_def verdict_def listed_def example_listing example_ci_def example_poll_config_def)
  from watch_fate[OF example_calm t, of "''abc''" "''o/r''"] t v show ?thesis by (simp add: is_bad_def)
qed

definition example_job :: Job where
  "example_job = \<lparr>aj_id = 7, aj_name = ''test'', aj_status = ''completed'', aj_conclusion = Some ''failure'', aj_started_at = None,
     aj_completed_at = None, aj_runner_name = None, aj_check_run_url = Some ''u''\<rparr>"

lemma poll_job_exact_witness:
  "\<exists>t. poll_job example_poll example_poll_config (pl_builtin example_poll) ''o/r'' 1 example_job example_gh = (Inr (), t)
     \<and> annotations_of 7 (gs_db t) = [] \<and> (\<exists>row \<in> set (gd_jobs (gs_db t)). jb_id row = 7 \<and> jb_conclusion row = Some ''failure'')"
proof -
  obtain t where t: "poll_job example_poll example_poll_config (pl_builtin example_poll) ''o/r'' 1 example_job example_gh = (Inr (), t)"
    using watches_job[of example_poll example_poll_config "pl_builtin example_poll" "''o/r''" 1 example_job] example_calm(1)
    by (auto simp: watches_def)
  have "get_annotations (pl_api example_poll) u = Inr []" for u
  proof -
    have "ga_parse_annotations (example_api rs) = (\<lambda>_. Some [])" for rs by (simp add: example_api_def)
    then show ?thesis by (simp add: example_poll_def get_annotations_def example_limited_twice)
  qed
  with poll_job_exact[OF t] t show ?thesis by (auto simp: fetched_annotations_def example_job_def)
qed

end
