(* ===== verification/PiSession.thy ===== *)
theory PiSession
  imports CodexSession
begin

text \<open>
  Pi transcripts (\<open>hippo-daemon/src/pi_session.rs\<close>): who a transcript belongs to, and its split into segments. Main
  sessions open with a \<open>session\<close> line; reviewer transcripts carry a run id on every line. A transcript is the list of its lines, each
  what it parses to; the parsers and the redaction are those of the other importers.
\<close>

definition pi_TASK_GAP_MS :: int where "pi_TASK_GAP_MS = 5 * 60 * 1000"
definition pi_MAX_SEGMENT_CHARS :: nat where "pi_MAX_SEGMENT_CHARS = 12000"

record PiSegment =
  ps_session_id :: string
  ps_project_dir :: string
  ps_cwd :: string
  ps_segment_index :: int
  ps_start_time :: int
  ps_end_time :: int
  ps_user_prompts :: "string list"
  ps_assistant_texts :: "string list"
  ps_tool_calls :: "ToolCallSummary list"
  ps_message_count :: int
  ps_token_count :: int
  ps_source_file :: path
  ps_is_subagent :: bool
  ps_parent_session_id :: "string option"

subsection \<open>Texts\<close>

text \<open>The first of the named arguments, else the first non-empty string, else the JSON.\<close>

definition argument_summary :: "string list \<Rightarrow> (json \<Rightarrow> string) \<Rightarrow> json \<Rightarrow> string" where
  "argument_summary names print input = (case as_object input of
     None \<Rightarrow> chars_take 80 (print input)
   | Some obj \<Rightarrow> (case List.map_filter (\<lambda>k. Option.bind (map_of obj k) as_str) names of
       v # _ \<Rightarrow> chars_take 120 v
     | [] \<Rightarrow> (case filter (\<lambda>s. s \<noteq> []) (List.map_filter (\<lambda>(_, v). as_str v) obj) of
         s # _ \<Rightarrow> chars_take 80 s
       | [] \<Rightarrow> chars_take 80 (print input))))"

definition pi_tool_summary :: "codex_env \<Rightarrow> json \<Rightarrow> string" where
  "pi_tool_summary env = argument_summary
     [''command'', ''cmd'', ''file_path'', ''filePath'', ''path'', ''glob_pattern'', ''pattern'', ''query'', ''search'', ''tool'',
      ''uri'', ''target_directory'', ''server''] (xe_print (ce_extract env))"

definition pi_parse_ts :: "codex_env \<Rightarrow> string \<Rightarrow> int" where
  "pi_parse_ts env ts = (if ts = [] then 0 else unwrap_or (xe_parse_ts (ce_extract env) ts) 0)"

definition pi_text_blocks :: "json \<Rightarrow> string list" where
  "pi_text_blocks content = (case as_array content of
     None \<Rightarrow> []
   | Some blocks \<Rightarrow> List.map_filter (\<lambda>b. str_field b ''text'') (filter (\<lambda>b. str_field b ''type'' = Some ''text'') blocks))"

subsection \<open>Identity\<close>

definition project_dir_for :: "string \<Rightarrow> string \<Rightarrow> string" where
  "project_dir_for cwd slug = unwrap_or (path_name cwd) slug"

definition trim_dashes :: "string \<Rightarrow> string" where
  "trim_dashes s = rev (dropWhile (\<lambda>c. c = CHR ''-'') (rev (dropWhile (\<lambda>c. c = CHR ''-'') s)))"

definition dash_to_slash :: "string \<Rightarrow> string" where
  "dash_to_slash = map (\<lambda>c. if c = CHR ''-'' then CHR ''/'' else c)"

definition pi_decode_slug_to_cwd :: "string \<Rightarrow> string" where
  "pi_decode_slug_to_cwd slug = (if trim_dashes slug = [] then [] else ''/'' @ dash_to_slash (trim_dashes slug))"

text \<open>The nearest ancestor directory whose name looks like a slug.\<close>

definition find_slug :: "path \<Rightarrow> string" where
  "find_slug p = (case find (\<lambda>n. starts_with n ''--'' \<and> ends_with n ''--'' \<and> length n > 4) (rev (butlast p)) of
     None \<Rightarrow> [] | Some n \<Rightarrow> n)"

definition last_part :: "string \<Rightarrow> string" where
  "last_part s = last (split_on (CHR ''_'') s)"

definition session_id_from_filename :: "codex_env \<Rightarrow> path \<Rightarrow> string" where
  "session_id_from_filename env p =
     (let stem = (case file_name p of None \<Rightarrow> ''pi-unknown'' | Some n \<Rightarrow> file_stem n);
          candidate = last_part (unwrap_or (strip_suffix stem ''_reviewer_transcript'') stem)
      in if ce_parse_uuid env candidate \<noteq> None then candidate else stem)"

record PathIdentity =
  pid_session_id :: string
  pid_project_dir :: string
  pid_cwd :: string
  pid_is_subagent :: bool
  pid_parent_session_id :: "string option"

text \<open>The parent of a run: beyond the file, the \<open>run-0\<close> directory and the directory of the run, the nearest name ending in a UUID.\<close>

definition run_parent :: "codex_env \<Rightarrow> path \<Rightarrow> string option" where
  "run_parent env p = (case dropWhile (\<lambda>c. c \<noteq> ''run-0'') (tl (rev p)) of
     [] \<Rightarrow> None
   | _ # upper \<Rightarrow> (case filter (\<lambda>c. ce_parse_uuid env (last_part c) \<noteq> None) (drop 1 upper) of [] \<Rightarrow> None | c # _ \<Rightarrow> Some (last_part c)))"

definition pi_identity :: "codex_env \<Rightarrow> path \<Rightarrow> string option \<Rightarrow> string \<Rightarrow> string option \<Rightarrow> PathIdentity" where
  "pi_identity env p header_id header_cwd line_cwd =
     (let session_id = (case header_id of Some i \<Rightarrow> if i = [] then session_id_from_filename env p else i
            | None \<Rightarrow> session_id_from_filename env p);
          is_artifact = list_ex (\<lambda>c. c = ''subagents'' \<or> c = ''subagent-artifacts'') p;
          is_run = list_ex (\<lambda>c. c = ''run-0'') p;
          slug = find_slug p;
          cwd = (if header_cwd \<noteq> [] then header_cwd
            else case line_cwd of Some lc \<Rightarrow> if lc = [] then pi_decode_slug_to_cwd slug else lc | None \<Rightarrow> pi_decode_slug_to_cwd slug)
      in \<lparr>pid_session_id = session_id, pid_project_dir = project_dir_for cwd slug, pid_cwd = cwd, pid_is_subagent = is_artifact \<or> is_run,
          pid_parent_session_id = (if is_run \<and> \<not> is_artifact then run_parent env p else None)\<rparr>)"

text \<open>The first pass over the lines.\<close>

record pi_header =
  ph_id :: "string option"
  ph_cwd :: string
  ph_ts :: int
  ph_line_cwd :: "string option"

definition is_session_line :: "json \<Rightarrow> bool" where
  "is_session_line obj \<longleftrightarrow> str_field obj ''type'' = Some ''session''"

definition is_reviewer_message :: "json \<Rightarrow> bool" where
  "is_reviewer_message obj \<longleftrightarrow> str_field obj ''recordType'' = Some ''message''"

definition run_id_of :: "json \<Rightarrow> string option" where
  "run_id_of obj = (if is_reviewer_message obj then
     (case str_field obj ''runId'' of Some i \<Rightarrow> if i = [] then None else Some i | None \<Rightarrow> None) else None)"

fun pi_scan :: "codex_env \<Rightarrow> json list \<Rightarrow> pi_header \<Rightarrow> pi_header" where
  "pi_scan env [] h = h"
| "pi_scan env (obj # rest) h =
     (let line_cwd = (case ph_line_cwd h of Some c \<Rightarrow> Some c
            | None \<Rightarrow> (case str_field obj ''cwd'' of Some c \<Rightarrow> if c = [] then None else Some c | None \<Rightarrow> None));
          h1 = h\<lparr>ph_line_cwd := line_cwd\<rparr> in
      if is_session_line obj
      then h1\<lparr>ph_id := str_field obj ''id'', ph_cwd := str_or obj ''cwd'' [], ph_ts := pi_parse_ts env (str_or obj ''timestamp'' [])\<rparr>
      else (let h2 = (if ph_id h1 = None then h1\<lparr>ph_id := run_id_of obj\<rparr> else h1) in
        if ph_id h2 \<noteq> None \<and> ph_line_cwd h2 \<noteq> None then h2 else pi_scan env rest h2))"

definition pi_scan_start :: pi_header where
  "pi_scan_start = \<lparr>ph_id = None, ph_cwd = [], ph_ts = 0, ph_line_cwd = None\<rparr>"

definition pi_transcript_identity :: "codex_env \<Rightarrow> path \<Rightarrow> json list \<Rightarrow> PathIdentity" where
  "pi_transcript_identity env p entries =
     (let h = pi_scan env entries pi_scan_start in pi_identity env p (ph_id h) (ph_cwd h) (ph_line_cwd h))"

text \<open>The id the coverage check compares with, read by a pass of its own.\<close>

definition session_file_id :: "codex_env \<Rightarrow> path \<Rightarrow> json list option \<Rightarrow> string" where
  "session_file_id env p entries = (case entries of
     None \<Rightarrow> session_id_from_filename env p
   | Some es \<Rightarrow> (case List.map_filter (\<lambda>obj.
         case (if is_session_line obj then str_field obj ''id'' else None) of
           Some i \<Rightarrow> if i = [] then run_id_of obj else Some i
         | None \<Rightarrow> run_id_of obj) es of
       i # _ \<Rightarrow> i
     | [] \<Rightarrow> session_id_from_filename env p))"

subsection \<open>Segments\<close>

record pi_state =
  pst_segments :: "PiSegment list"
  pst_current :: "PiSegment option"
  pst_chars :: nat
  pst_last_user :: int

definition pi_init :: pi_state where
  "pi_init = \<lparr>pst_segments = [], pst_current = None, pst_chars = 0, pst_last_user = 0\<rparr>"

definition pi_new_segment :: "PathIdentity \<Rightarrow> path \<Rightarrow> int \<Rightarrow> int \<Rightarrow> PiSegment" where
  "pi_new_segment i p index ts =
     \<lparr>ps_session_id = pid_session_id i, ps_project_dir = pid_project_dir i, ps_cwd = pid_cwd i, ps_segment_index = index,
      ps_start_time = ts, ps_end_time = ts, ps_user_prompts = [], ps_assistant_texts = [], ps_tool_calls = [], ps_message_count = 0,
      ps_token_count = 0, ps_source_file = p, ps_is_subagent = pid_is_subagent i, ps_parent_session_id = pid_parent_session_id i\<rparr>"

definition pi_has_content :: "PiSegment \<Rightarrow> bool" where
  "pi_has_content seg \<longleftrightarrow> ps_user_prompts seg \<noteq> [] \<or> ps_tool_calls seg \<noteq> [] \<or> ps_assistant_texts seg \<noteq> []"

definition pi_role :: "json \<Rightarrow> json \<Rightarrow> string" where
  "pi_role obj msg = (if is_reviewer_message obj
     then (case str_field obj ''role'' of Some r \<Rightarrow> if r = [] then str_or msg ''role'' [] else r | None \<Rightarrow> str_or msg ''role'' [])
     else str_or msg ''role'' [])"

definition positive :: "int option \<Rightarrow> int option" where
  "positive t = Option.bind t (\<lambda>n. if n > 0 then Some n else None)"

text \<open>The time a line carries, and the time it is given.\<close>

definition line_time :: "codex_env \<Rightarrow> json \<Rightarrow> json \<Rightarrow> int option" where
  "line_time env obj msg = opt_or (positive (Option.bind (j_get msg ''timestamp'') as_i64))
     (opt_or (positive (Option.bind (j_get obj ''ts'') as_i64)) (positive (Some (pi_parse_ts env (str_or obj ''timestamp'' [])))))"

definition pi_time :: "codex_env \<Rightarrow> int \<Rightarrow> json \<Rightarrow> json \<Rightarrow> int" where
  "pi_time env mtime_ms obj msg = unwrap_or (line_time env obj msg) mtime_ms"

definition pi_prompts :: "json \<Rightarrow> string list" where
  "pi_prompts content = filter (\<lambda>t. t \<noteq> []) (map (\<lambda>t. chars_take 500 (trim t)) (pi_text_blocks content))"

definition pi_close :: "int \<Rightarrow> pi_state \<Rightarrow> pi_state" where
  "pi_close ts x =
     (if pst_last_user x > 0 \<and> ts > 0 \<and> (ts - pst_last_user x > pi_TASK_GAP_MS \<or> pst_chars x > pi_MAX_SEGMENT_CHARS)
      then (case pst_current x of
          None \<Rightarrow> x
        | Some seg \<Rightarrow> x\<lparr>pst_segments := (if pi_has_content seg then pst_segments x @ [seg] else pst_segments x), pst_current := None, pst_chars := 0\<rparr>)
      else x)"

definition pi_take_prompts :: "codex_env \<Rightarrow> PathIdentity \<Rightarrow> path \<Rightarrow> int \<Rightarrow> string list \<Rightarrow> pi_state \<Rightarrow> pi_state" where
  "pi_take_prompts env i p ts prompts x0 =
     (let x = pi_close ts x0;
          seg = (case pst_current x of Some seg \<Rightarrow> seg | None \<Rightarrow> pi_new_segment i p (int (length (pst_segments x))) ts);
          redacted = map (xe_redact (ce_extract env)) prompts
      in x\<lparr>pst_last_user := (if ts > 0 then ts else pst_last_user x), pst_chars := pst_chars x + sum_list (map chars_count redacted),
           pst_current := Some (seg\<lparr>ps_end_time := (if ts > 0 then max (ps_end_time seg) ts else ps_end_time seg),
             ps_message_count := ps_message_count seg + 1, ps_user_prompts := ps_user_prompts seg @ redacted\<rparr>)\<rparr>)"

definition pi_take_block :: "codex_env \<Rightarrow> PiSegment \<times> nat \<Rightarrow> json \<Rightarrow> PiSegment \<times> nat" where
  "pi_take_block env s b = (case s of (seg, chars_n) \<Rightarrow>
     (if str_field b ''type'' = Some ''text'' then
        (let t = trim (str_or b ''text'' []) in
         if t = [] then s
         else let redacted = xe_redact (ce_extract env) (chars_take 300 t) in
           (seg\<lparr>ps_assistant_texts := ps_assistant_texts seg @ [redacted]\<rparr>, chars_n + chars_count redacted))
      else if str_field b ''type'' = Some ''toolCall'' then
        (let name = str_or b ''name'' [] in
         if name = [] then s
         else let summary = xe_redact (ce_extract env) (pi_tool_summary env (unwrap_or (j_get b ''arguments'') JNull)) in
           (seg\<lparr>ps_tool_calls := ps_tool_calls seg @ [\<lparr>tc_name = name, tc_summary = summary\<rparr>]\<rparr>, chars_n + chars_count summary))
      else s))"

definition pi_usage :: "json \<Rightarrow> json \<Rightarrow> int" where
  "pi_usage obj msg = (case opt_or (j_get msg ''usage'') (j_get obj ''usage'') of
     None \<Rightarrow> 0
   | Some usage \<Rightarrow> unwrap_or (Option.bind (j_get usage ''input'') as_i64) 0 + unwrap_or (Option.bind (j_get usage ''output'') as_i64) 0)"

definition pi_take_assistant :: "codex_env \<Rightarrow> int \<Rightarrow> json \<Rightarrow> json \<Rightarrow> json \<Rightarrow> pi_state \<Rightarrow> pi_state" where
  "pi_take_assistant env ts obj msg content x = (case pst_current x of
     None \<Rightarrow> x
   | Some seg \<Rightarrow>
       (let seg1 = seg\<lparr>ps_end_time := (if ts > 0 then max (ps_end_time seg) ts else ps_end_time seg),
                       ps_message_count := ps_message_count seg + 1, ps_token_count := ps_token_count seg + pi_usage obj msg\<rparr>;
            (seg2, n) = foldl (pi_take_block env) (seg1, pst_chars x) (unwrap_or (as_array content) [])
        in x\<lparr>pst_current := Some seg2, pst_chars := n\<rparr>))"

definition pi_step :: "codex_env \<Rightarrow> PathIdentity \<Rightarrow> path \<Rightarrow> int \<Rightarrow> pi_state \<Rightarrow> json \<Rightarrow> pi_state" where
  "pi_step env i p mtime_ms x obj =
     (if str_field obj ''type'' \<noteq> Some ''message'' \<and> \<not> is_reviewer_message obj then x
      else let msg = unwrap_or (j_get obj ''message'') JNull;
               role = pi_role obj msg;
               ts = pi_time env mtime_ms obj msg;
               content = unwrap_or (j_get msg ''content'') JNull in
        if role = ''user'' then (if pi_prompts content = [] then x else pi_take_prompts env i p ts (pi_prompts content) x)
        else if role \<noteq> ''assistant'' then x
        else pi_take_assistant env ts obj msg content x)"

definition pi_finish :: "pi_state \<Rightarrow> PiSegment list" where
  "pi_finish x = (case pst_current x of
     Some seg \<Rightarrow> if pi_has_content seg then pst_segments x @ [seg] else pst_segments x
   | None \<Rightarrow> pst_segments x)"

definition pi_backfill_time :: "int \<Rightarrow> PiSegment \<Rightarrow> PiSegment" where
  "pi_backfill_time mtime_ms seg = seg\<lparr>ps_start_time := (if ps_start_time seg \<le> 0 then mtime_ms else ps_start_time seg),
     ps_end_time := (if ps_end_time seg \<le> 0 then mtime_ms else ps_end_time seg)\<rparr>"

definition pi_extract_segments :: "codex_env \<Rightarrow> path \<Rightarrow> int \<Rightarrow> json option list option \<Rightarrow> string + PiSegment list" where
  "pi_extract_segments env p mtime_ms file_lines = (case file_lines of
     None \<Rightarrow> Inl ''read pi transcript''
   | Some ls \<Rightarrow>
       (let entries = List.map_filter (\<lambda>l. l) ls;
            segments = pi_finish (foldl (pi_step env (pi_transcript_identity env p entries) p mtime_ms) pi_init entries)
        in Inr (if ph_ts (pi_scan env entries pi_scan_start) \<le> 0 \<and> mtime_ms > 0 then map (pi_backfill_time mtime_ms) segments else segments)))"

end
