(* ===== verification/CursorSession.thy ===== *)
theory CursorSession
  imports PiSession
begin

text \<open>
  Transcripts of the Cursor agent (\<open>hippo-daemon/src/cursor_session.rs\<close>). They carry neither times nor identity: the session is
  named by the path, every segment gets the file's modification time, and the working directory is recovered from the absolute
  paths in the tool calls, because the directory name Cursor derives from it is ambiguous.
\<close>

definition cursor_MAX_SEGMENT_CHARS :: nat where "cursor_MAX_SEGMENT_CHARS = 12000"

record CursorSegment =
  us_session_id :: string
  us_project_dir :: string
  us_cwd :: string
  us_segment_index :: int
  us_start_time :: int
  us_end_time :: int
  us_user_prompts :: "string list"
  us_assistant_texts :: "string list"
  us_tool_calls :: "ToolCallSummary list"
  us_message_count :: int
  us_source_file :: path
  us_is_subagent :: bool
  us_parent_session_id :: "string option"

definition cursor_tool_summary :: "codex_env \<Rightarrow> json \<Rightarrow> string" where
  "cursor_tool_summary env = argument_summary
     [''command'', ''cmd'', ''file_path'', ''filePath'', ''path'', ''glob_pattern'', ''pattern'', ''query'', ''uri'', ''target_directory'']
     (xe_print (ce_extract env))"

subsection \<open>The working directory\<close>

definition cursor_decode_slug :: "string \<Rightarrow> string" where
  "cursor_decode_slug slug = (if slug = ''empty-window'' \<or> starts_with slug ''var-folders'' \<or> list_all is_digit slug then []
     else ''/'' @ dash_to_slash slug)"

text \<open>
  \<open>split_whitespace\<close>: the maximal runs of bytes between white space characters. \<open>ws_len\<close> is the length of the white space
  character at the front, if there is one.
\<close>

function whitespace_tokens :: "string \<Rightarrow> string \<Rightarrow> string list" where
  "whitespace_tokens s word = (if s = [] then (if word = [] then [] else [rev word])
     else let n = ws_len (bytes_of s) in
       if n > 0 then (if word = [] then [] else [rev word]) @ whitespace_tokens (drop n s) []
       else whitespace_tokens (tl s) (hd s # word))"
  by pat_completeness auto

termination
  by (relation "measure (length \<circ> fst)") auto

definition is_quoting :: "char \<Rightarrow> bool" where
  "is_quoting c \<longleftrightarrow> c \<in> {CHR 0x22, CHR 0x27, CHR 0x60, CHR ''('', CHR '')'', CHR '','', CHR '';'', CHR '':''}"

definition trim_quoting :: "string \<Rightarrow> string" where
  "trim_quoting s = rev (dropWhile is_quoting (rev (dropWhile is_quoting s)))"

definition absolute_tokens_in_command :: "string \<Rightarrow> string list" where
  "absolute_tokens_in_command command = filter (\<lambda>t. starts_with t ''/'') (map trim_quoting (whitespace_tokens command []))"

definition collect_tool_paths :: "json \<Rightarrow> string list" where
  "collect_tool_paths input = (case as_object input of
     None \<Rightarrow> []
   | Some obj \<Rightarrow>
       filter (\<lambda>v. starts_with v ''/'') (List.map_filter (\<lambda>k. Option.bind (map_of obj k) as_str)
         [''path'', ''file_path'', ''filePath'', ''cwd'', ''target_directory''])
       @ concat (map absolute_tokens_in_command (List.map_filter (\<lambda>k. Option.bind (map_of obj k) as_str) [''command'', ''cmd''])))"

text \<open>
  \<open>Path::ancestors\<close> of an absolute path, each without its leading slash. The path itself is taken as it is written; a parent is
  a slice of it without the last component, and without the empty components and single dots before that.
\<close>

definition trim_pieces :: "string list \<Rightarrow> string list" where
  "trim_pieces ps = rev (dropWhile (\<lambda>c. c = [] \<or> c = ''.'') (rev ps))"

lemma length_trim_pieces: "length (trim_pieces ps) \<le> length ps"
  using length_dropWhile_le[of _ "rev ps"] by (simp add: trim_pieces_def)

function parent_pieces :: "string list \<Rightarrow> string list list" where
  "parent_pieces ps = (if trim_pieces ps = [] then []
     else trim_pieces (butlast (trim_pieces ps)) # parent_pieces (trim_pieces (butlast (trim_pieces ps))))"
  by pat_completeness auto

termination
proof (relation "measure length")
  fix ps :: "string list" assume "trim_pieces ps \<noteq> []"
  then show "(trim_pieces (butlast (trim_pieces ps)), ps) \<in> measure length"
    using length_trim_pieces[of ps] length_trim_pieces[of "butlast (trim_pieces ps)"] by (cases "trim_pieces ps") auto
qed simp

definition ancestor_rels :: "string \<Rightarrow> string list" where
  "ancestor_rels candidate = (case strip_prefix candidate ''/'' of
     None \<Rightarrow> []
   | Some rel \<Rightarrow> filter (\<lambda>r. r \<noteq> []) (rel # map (join ''/'') (parent_pieces (split_on (CHR ''/'') rel))))"

definition encode_cwd :: "string \<Rightarrow> string" where
  "encode_cwd rel = map (\<lambda>c. if c = CHR ''/'' then CHR ''-'' else c) rel"

definition recover_cwd_from_paths :: "string \<Rightarrow> string list \<Rightarrow> string option" where
  "recover_cwd_from_paths slug candidates = (if slug = [] then None
     else map_option (\<lambda>rel. ''/'' @ rel) (find (\<lambda>rel. encode_cwd rel = slug) (concat (map ancestor_rels candidates))))"

subsection \<open>Identity\<close>

record cursor_identity =
  cid_session_id :: string
  cid_project_dir :: string
  cid_cwd :: string
  cid_slug :: string
  cid_is_subagent :: bool
  cid_parent_session_id :: "string option"

definition slug_of_path :: "path \<Rightarrow> string" where
  "slug_of_path p = (let before = takeWhile (\<lambda>c. c \<noteq> ''agent-transcripts'') p in
     if before = p then [] else if before = [] then ''/'' else last before)"

definition cursor_path_identity :: "path \<Rightarrow> cursor_identity" where
  "cursor_path_identity p =
     (let is_sub = (Option.bind (parent p) file_name = Some ''subagents'');
          slug = slug_of_path p;
          cwd = cursor_decode_slug slug
      in \<lparr>cid_session_id = (case file_name p of None \<Rightarrow> ''cursor-unknown'' | Some n \<Rightarrow> file_stem n),
          cid_project_dir = project_dir_for cwd slug, cid_cwd = cwd, cid_slug = slug, cid_is_subagent = is_sub,
          cid_parent_session_id = (if is_sub then Option.bind (Option.bind (parent p) parent) file_name else None)\<rparr>)"

subsection \<open>Texts\<close>

text \<open>\<open>str::find\<close>: the first occurrence.\<close>

fun find_str :: "string \<Rightarrow> string \<Rightarrow> nat option" where
  "find_str [] p = (if p = [] then Some 0 else None)"
| "find_str (c # cs) p = (if starts_with (c # cs) p then Some 0 else map_option Suc (find_str cs p))"

definition cursor_user_text :: "string \<Rightarrow> string" where
  "cursor_user_text text = (let inner = (case (find_str text ''<user_query>'', find_str text ''</user_query>'') of
        (Some s, Some e) \<Rightarrow> if e > s then take (e - (s + 12)) (drop (s + 12) text) else text
      | _ \<Rightarrow> text)
     in chars_take 500 (trim inner))"

definition cursor_text_blocks :: "json \<Rightarrow> string list" where
  "cursor_text_blocks content = (case as_array content of
     None \<Rightarrow> []
   | Some blocks \<Rightarrow> List.map_filter (\<lambda>b. str_field b ''text'') (filter (\<lambda>b. str_field b ''type'' = Some ''text'') blocks))"

function trim_end_marker :: "string \<Rightarrow> string \<Rightarrow> string" where
  "trim_end_marker p s = (case strip_suffix s p of
     Some r \<Rightarrow> if p = [] then s else trim_end_marker p r
   | None \<Rightarrow> s)"
  by pat_completeness auto

termination
  by (relation "measure (length \<circ> snd)") (auto simp: strip_suffix_def ends_with_iff split: if_splits)

declare whitespace_tokens.simps [simp del] parent_pieces.simps [simp del] trim_end_marker.simps [simp del]

subsection \<open>Segments\<close>

record cursor_state =
  ust_segments :: "CursorSegment list"
  ust_current :: "CursorSegment option"
  ust_chars :: nat
  ust_paths :: "string list"

definition cursor_init :: cursor_state where
  "cursor_init = \<lparr>ust_segments = [], ust_current = None, ust_chars = 0, ust_paths = []\<rparr>"

definition cursor_new_segment :: "cursor_identity \<Rightarrow> path \<Rightarrow> int \<Rightarrow> int \<Rightarrow> CursorSegment" where
  "cursor_new_segment i p mtime_ms index =
     \<lparr>us_session_id = cid_session_id i, us_project_dir = cid_project_dir i, us_cwd = cid_cwd i, us_segment_index = index,
      us_start_time = mtime_ms, us_end_time = mtime_ms, us_user_prompts = [], us_assistant_texts = [], us_tool_calls = [],
      us_message_count = 0, us_source_file = p, us_is_subagent = cid_is_subagent i, us_parent_session_id = cid_parent_session_id i\<rparr>"

definition cursor_close :: "cursor_state \<Rightarrow> cursor_state" where
  "cursor_close x = (if ust_chars x > cursor_MAX_SEGMENT_CHARS then (case ust_current x of
       None \<Rightarrow> x
     | Some seg \<Rightarrow> x\<lparr>ust_segments := ust_segments x @ [seg], ust_current := None, ust_chars := 0\<rparr>)
     else x)"

definition cursor_take_prompts :: "codex_env \<Rightarrow> cursor_identity \<Rightarrow> path \<Rightarrow> int \<Rightarrow> string list \<Rightarrow> cursor_state \<Rightarrow> cursor_state" where
  "cursor_take_prompts env i p mtime_ms prompts x0 =
     (let x = cursor_close x0;
          seg = (case ust_current x of Some seg \<Rightarrow> seg | None \<Rightarrow> cursor_new_segment i p mtime_ms (int (length (ust_segments x))));
          redacted = map (xe_redact (ce_extract env)) prompts
      in x\<lparr>ust_chars := ust_chars x + sum_list (map chars_count redacted),
           ust_current := Some (seg\<lparr>us_message_count := us_message_count seg + 1, us_user_prompts := us_user_prompts seg @ redacted\<rparr>)\<rparr>)"

definition cursor_texts :: "json \<Rightarrow> string list" where
  "cursor_texts content = filter (\<lambda>t. t \<noteq> []) (map (\<lambda>t. trim (trim_end_marker ''[REDACTED]'' t)) (cursor_text_blocks content))"

definition tool_uses :: "json \<Rightarrow> json list" where
  "tool_uses content = filter (\<lambda>b. str_field b ''type'' = Some ''tool_use'' \<and> str_or b ''name'' [] \<noteq> []) (unwrap_or (as_array content) [])"

definition cursor_take_assistant :: "codex_env \<Rightarrow> json \<Rightarrow> CursorSegment \<Rightarrow> cursor_state \<Rightarrow> cursor_state" where
  "cursor_take_assistant env content seg x =
     (let redact = xe_redact (ce_extract env);
          texts = map (\<lambda>t. redact (chars_take 300 t)) (cursor_texts content);
          input = (\<lambda>b. unwrap_or (j_get b ''input'') JNull);
          calls = map (\<lambda>b. \<lparr>tc_name = str_or b ''name'' [], tc_summary = redact (cursor_tool_summary env (input b))\<rparr>) (tool_uses content)
      in x\<lparr>ust_paths := ust_paths x @ concat (map (\<lambda>b. collect_tool_paths (input b)) (tool_uses content)),
           ust_chars := ust_chars x + sum_list (map chars_count texts) + sum_list (map (\<lambda>c. chars_count (tc_summary c)) calls),
           ust_current := Some (seg\<lparr>us_assistant_texts := us_assistant_texts seg @ texts, us_tool_calls := us_tool_calls seg @ calls\<rparr>)\<rparr>)"

definition cursor_step :: "codex_env \<Rightarrow> cursor_identity \<Rightarrow> path \<Rightarrow> int \<Rightarrow> cursor_state \<Rightarrow> json \<Rightarrow> cursor_state" where
  "cursor_step env i p mtime_ms x obj =
     (let role = str_or obj ''role'' [];
          content = unwrap_or (Option.bind (j_get obj ''message'') (\<lambda>m. j_get m ''content'')) JNull
      in if role = ''user'' then
           (let prompts = filter (\<lambda>t. t \<noteq> []) (map cursor_user_text (cursor_text_blocks content)) in
            if prompts = [] then x else cursor_take_prompts env i p mtime_ms prompts x)
         else (case ust_current x of
             None \<Rightarrow> x
           | Some seg \<Rightarrow> (let seg1 = seg\<lparr>us_message_count := us_message_count seg + 1\<rparr> in
               if role = ''assistant'' then cursor_take_assistant env content seg1 x else x\<lparr>ust_current := Some seg1\<rparr>)))"

definition cursor_finish :: "cursor_state \<Rightarrow> CursorSegment list" where
  "cursor_finish x = (case ust_current x of
     Some seg \<Rightarrow> if us_user_prompts seg \<noteq> [] \<or> us_tool_calls seg \<noteq> [] \<or> us_assistant_texts seg \<noteq> [] then ust_segments x @ [seg] else ust_segments x
   | None \<Rightarrow> ust_segments x)"

definition set_cwd :: "string \<Rightarrow> string \<Rightarrow> CursorSegment \<Rightarrow> CursorSegment" where
  "set_cwd cwd slug seg = seg\<lparr>us_cwd := cwd, us_project_dir := project_dir_for cwd slug\<rparr>"

definition cursor_extract_segments :: "codex_env \<Rightarrow> path \<Rightarrow> int \<Rightarrow> json option list option \<Rightarrow> string + CursorSegment list" where
  "cursor_extract_segments env p mtime_ms file_lines = (case file_lines of
     None \<Rightarrow> Inl ''read cursor transcript''
   | Some ls \<Rightarrow>
       (let i = cursor_path_identity p;
            x = foldl (cursor_step env i p mtime_ms) cursor_init (List.map_filter (\<lambda>l. l) ls)
        in Inr (case recover_cwd_from_paths (cid_slug i) (ust_paths x) of
            None \<Rightarrow> cursor_finish x
          | Some cwd \<Rightarrow> map (set_cwd cwd (cid_slug i)) (cursor_finish x))))"

end
