(* ===== verification/AgentImport.thy ===== *)
theory AgentImport
  imports AgentStore CursorSession
begin

text \<open>
  Storing Pi and Cursor segments and polling their transcripts (\<open>pi_session.rs\<close>, \<open>cursor_session.rs\<close>), as instances of the store
  and the poll of theory \<open>AgentStore\<close>; and the properties of both importers.
\<close>

subsection \<open>Rows\<close>

definition session_digest :: "string \<Rightarrow> bool \<Rightarrow> string \<Rightarrow> string list \<Rightarrow> ToolCallSummary list \<Rightarrow> string list \<Rightarrow> string" where
  "session_digest name is_sub cwd prompts calls texts = join nl
     ([name @ (if is_sub then '' session (subagent, project: '' else '' session (project: '') @ cwd @ '')'']
      @ (if prompts = [] then []
         else [[], ''User requests:'']
           @ map (\<lambda>(i, p). ''  '' @ nat_str (i + 1) @ ''. '' @ [CHR 0x22] @ p @ [CHR 0x22]) (enumerate 0 (take 30 prompts))
           @ (if length prompts > 30 then [more_line (length prompts - 30)] else []))
      @ (if calls = [] then []
         else [[], ''Work performed:'']
           @ map (\<lambda>t. ''  - '' @ tc_name t @ '': '' @ tc_summary t) (take 60 calls)
           @ (if length calls > 60 then [more_line (length calls - 60)] else []))
      @ (if texts = [] then []
         else [[], ''Assistant responses (excerpts):'']
           @ map (\<lambda>t. ''  - '' @ [CHR 0x22] @ t @ [CHR 0x22]) (take 5 texts)))"

definition pi_summary_text :: "PiSegment \<Rightarrow> string" where
  "pi_summary_text seg = session_digest ''Pi'' (ps_is_subagent seg) (ps_cwd seg) (ps_user_prompts seg) (ps_tool_calls seg) (ps_assistant_texts seg)"

definition pi_content_hash :: "hash_env \<Rightarrow> PiSegment \<Rightarrow> string" where
  "pi_content_hash h seg =
     he_hash h (he_tools h (ps_tool_calls seg) @ ''|'' @ he_prompts h (ps_user_prompts seg) @ ''|'' @ join nl (ps_assistant_texts seg))"

definition pi_key :: "PiSegment \<Rightarrow> string \<times> string \<times> int" where
  "pi_key seg = (ps_session_id seg, ''pi'', ps_segment_index seg)"

definition pi_insert_row :: "store_env \<Rightarrow> PiSegment \<Rightarrow> int \<Rightarrow> agentic_session" where
  "pi_insert_row env seg row_id =
     \<lparr>as_id = row_id, as_session_id = ps_session_id seg, as_harness = ''pi'', as_segment_index = ps_segment_index seg,
      as_project_dir = ps_project_dir seg, as_cwd = ps_cwd seg, as_git_branch = None, as_title = [],
      as_parent_session_id = ps_parent_session_id seg, as_is_subagent = ps_is_subagent seg,
      as_summary_text = pi_summary_text seg, as_tool_calls = ps_tool_calls seg, as_user_prompts = ps_user_prompts seg,
      as_source_file = ps_source_file seg, as_message_count = ps_message_count seg, as_token_count = ps_token_count seg,
      as_start_time = ps_start_time seg, as_end_time = ps_end_time seg,
      as_content_hash = Some (pi_content_hash (se_hash env) seg), as_last_enriched_content_hash = None,
      as_created_at = se_now_ms env, as_model = [], as_requested_model = None, as_effort = None, as_totals = no_usage,
      as_subagent = no_subagent, as_hooks = no_hooks, as_probe_tag = None\<rparr>"

definition pi_update_row :: "store_env \<Rightarrow> PiSegment \<Rightarrow> agentic_session \<Rightarrow> agentic_session" where
  "pi_update_row env seg r =
     r\<lparr>as_end_time := ps_end_time seg, as_summary_text := pi_summary_text seg, as_tool_calls := ps_tool_calls seg,
       as_user_prompts := ps_user_prompts seg, as_message_count := ps_message_count seg, as_token_count := ps_token_count seg,
       as_content_hash := Some (pi_content_hash (se_hash env) seg), as_cwd := ps_cwd seg, as_project_dir := ps_project_dir seg,
       as_is_subagent := ps_is_subagent seg, as_parent_session_id := ps_parent_session_id seg\<rparr>"

definition pi_upsert :: "store_env \<Rightarrow> claude_db \<Rightarrow> PiSegment \<Rightarrow> claude_db" where
  "pi_upsert env db seg = agent_upsert (pi_key seg) (pi_insert_row env seg) (pi_update_row env seg)
     (pi_content_hash (se_hash env) seg) (se_now_ms env) db"

definition cursor_summary_text :: "CursorSegment \<Rightarrow> string" where
  "cursor_summary_text seg =
     session_digest ''Cursor'' (us_is_subagent seg) (us_cwd seg) (us_user_prompts seg) (us_tool_calls seg) (us_assistant_texts seg)"

definition cursor_content_hash :: "hash_env \<Rightarrow> CursorSegment \<Rightarrow> string" where
  "cursor_content_hash h seg =
     he_hash h (he_tools h (us_tool_calls seg) @ ''|'' @ he_prompts h (us_user_prompts seg) @ ''|'' @ join nl (us_assistant_texts seg))"

definition cursor_segment_key :: "CursorSegment \<Rightarrow> string \<times> string \<times> int" where
  "cursor_segment_key seg = (us_session_id seg, ''cursor'', us_segment_index seg)"

definition cursor_insert_row :: "store_env \<Rightarrow> CursorSegment \<Rightarrow> int \<Rightarrow> agentic_session" where
  "cursor_insert_row env seg row_id =
     \<lparr>as_id = row_id, as_session_id = us_session_id seg, as_harness = ''cursor'', as_segment_index = us_segment_index seg,
      as_project_dir = us_project_dir seg, as_cwd = us_cwd seg, as_git_branch = None, as_title = [],
      as_parent_session_id = us_parent_session_id seg, as_is_subagent = us_is_subagent seg,
      as_summary_text = cursor_summary_text seg, as_tool_calls = us_tool_calls seg, as_user_prompts = us_user_prompts seg,
      as_source_file = us_source_file seg, as_message_count = us_message_count seg, as_token_count = 0,
      as_start_time = us_start_time seg, as_end_time = us_end_time seg,
      as_content_hash = Some (cursor_content_hash (se_hash env) seg), as_last_enriched_content_hash = None,
      as_created_at = se_now_ms env, as_model = [], as_requested_model = None, as_effort = None, as_totals = no_usage,
      as_subagent = no_subagent, as_hooks = no_hooks, as_probe_tag = None\<rparr>"

definition cursor_update_row :: "store_env \<Rightarrow> CursorSegment \<Rightarrow> agentic_session \<Rightarrow> agentic_session" where
  "cursor_update_row env seg r =
     r\<lparr>as_end_time := us_end_time seg, as_summary_text := cursor_summary_text seg, as_tool_calls := us_tool_calls seg,
       as_user_prompts := us_user_prompts seg, as_message_count := us_message_count seg,
       as_content_hash := Some (cursor_content_hash (se_hash env) seg), as_cwd := us_cwd seg, as_project_dir := us_project_dir seg,
       as_is_subagent := us_is_subagent seg, as_parent_session_id := us_parent_session_id seg\<rparr>"

definition cursor_upsert :: "store_env \<Rightarrow> claude_db \<Rightarrow> CursorSegment \<Rightarrow> claude_db" where
  "cursor_upsert env db seg = agent_upsert (cursor_segment_key seg) (cursor_insert_row env seg) (cursor_update_row env seg)
     (cursor_content_hash (se_hash env) seg) (se_now_ms env) db"

interpretation pi_rows: segment_rows pi_key "pi_insert_row env" "pi_update_row env" "pi_content_hash (se_hash env)" "se_now_ms env" for env
  by unfold_locales (simp_all add: pi_insert_row_def pi_update_row_def pi_key_def row_key_def)

interpretation cursor_rows: segment_rows cursor_segment_key "cursor_insert_row env" "cursor_update_row env" "cursor_content_hash (se_hash env)"
    "se_now_ms env" for env
  by unfold_locales (simp_all add: cursor_insert_row_def cursor_update_row_def cursor_segment_key_def row_key_def)

subsection \<open>Files and polls\<close>

definition has_extension :: "string \<Rightarrow> path \<Rightarrow> bool" where
  "has_extension ext p \<longleftrightarrow> (case file_name p of None \<Rightarrow> False
     | Some n \<Rightarrow> (case strip_suffix n (''.'' @ ext) of None \<Rightarrow> False | Some stem \<Rightarrow> stem \<noteq> []))"

definition pi_is_transcript :: "path \<Rightarrow> bool" where
  "pi_is_transcript p \<longleftrightarrow> has_extension ''jsonl'' p"

definition cursor_is_transcript :: "path \<Rightarrow> bool" where
  "cursor_is_transcript p \<longleftrightarrow> has_extension ''jsonl'' p \<and> list_ex (\<lambda>c. c = ''agent-transcripts'') p"

definition pi_ingest_file :: "codex_env \<Rightarrow> store_env \<Rightarrow> rollout \<Rightarrow> int \<Rightarrow> claude_db \<Rightarrow> (string + nat \<times> string) \<times> claude_db" where
  "pi_ingest_file cenv env f mtime_ms =
     ingest_transcript (pi_upsert env) ps_session_id (pi_extract_segments cenv (ro_path f) mtime_ms (ro_lines f)) (ro_faults f)"

definition cursor_ingest_file :: "codex_env \<Rightarrow> store_env \<Rightarrow> rollout \<Rightarrow> int \<Rightarrow> claude_db \<Rightarrow> (string + nat \<times> string) \<times> claude_db" where
  "cursor_ingest_file cenv env f mtime_ms =
     ingest_transcript (cursor_upsert env) us_session_id (cursor_extract_segments cenv (ro_path f) mtime_ms (ro_lines f)) (ro_faults f)"

definition pi_poll_tick :: "bool \<Rightarrow> codex_env \<Rightarrow> store_env \<Rightarrow> int \<Rightarrow> string option \<Rightarrow> rollout list list \<Rightarrow> codex_db \<Rightarrow> (string + nat) \<times> codex_db" where
  "pi_poll_tick enabled cenv env min_idle_secs = poll_transcripts enabled
     (transcript_due pi_is_transcript ''pi-'' (se_now_ms env) (min_idle_secs * 1000)) (pi_ingest_file cenv env)
     ''agentic-session-pi'' (se_now_ms env)"

definition cursor_poll_tick :: "bool \<Rightarrow> codex_env \<Rightarrow> store_env \<Rightarrow> int \<Rightarrow> string option \<Rightarrow> rollout list list \<Rightarrow> codex_db \<Rightarrow> (string + nat) \<times> codex_db" where
  "cursor_poll_tick enabled cenv env min_idle_secs = poll_transcripts enabled
     (transcript_due cursor_is_transcript ''cursor-agent-'' (se_now_ms env) (min_idle_secs * 1000)) (cursor_ingest_file cenv env)
     ''agentic-session-cursor'' (se_now_ms env)"

text \<open>
  The manual import of one file. An unreadable modification time is replaced by the clock; \<open>None\<close> as metadata is an error.
\<close>

definition ingest_one ::
  "string \<Rightarrow> string \<Rightarrow> (rollout \<Rightarrow> int \<Rightarrow> claude_db \<Rightarrow> (string + nat \<times> string) \<times> claude_db) \<Rightarrow> int \<Rightarrow> string option \<Rightarrow> rollout \<Rightarrow> codex_db
    \<Rightarrow> (string + nat) \<times> codex_db" where
  "ingest_one prefix source ingest now_ms open_fault f db = (case open_fault of
     Some e \<Rightarrow> (Inl e, db)
   | None \<Rightarrow> (case ro_meta f of
       None \<Rightarrow> (Inl ''read metadata'', db)
     | Some (ino, mtime) \<Rightarrow>
         (let mtime_ms = unwrap_or mtime now_ms in
          case ingest f mtime_ms (xd_store db) of
            (Inl e, st) \<Rightarrow> (Inl e, db\<lparr>xd_store := st\<rparr>)
          | (Inr (n, session_id), st) \<Rightarrow>
              (Inr n, write_cursor (ro_cursor_fault f) (inode_key prefix ino) mtime_ms session_id
                 (db\<lparr>xd_store := (if n > 0 then source_ok source (ro_health_fault f) now_ms mtime_ms st else st)\<rparr>)))))"

definition pi_ingest_one :: "codex_env \<Rightarrow> store_env \<Rightarrow> string option \<Rightarrow> rollout \<Rightarrow> codex_db \<Rightarrow> (string + nat) \<times> codex_db" where
  "pi_ingest_one cenv env = ingest_one ''pi-'' ''agentic-session-pi'' (pi_ingest_file cenv env) (se_now_ms env)"

definition cursor_ingest_one :: "codex_env \<Rightarrow> store_env \<Rightarrow> string option \<Rightarrow> rollout \<Rightarrow> codex_db \<Rightarrow> (string + nat) \<times> codex_db" where
  "cursor_ingest_one cenv env = ingest_one ''cursor-agent-'' ''agentic-session-cursor'' (cursor_ingest_file cenv env) (se_now_ms env)"

text \<open>Whether this version of a file was read and had no segments: \<open>len\<close> is its length.\<close>

definition version_without_segments :: "string \<Rightarrow> (string \<times> CursorState) list \<Rightarrow> (file_stat \<times> nat) option \<Rightarrow> bool" where
  "version_without_segments prefix cursors meta = (case meta of None \<Rightarrow> False
     | Some (m, len) \<Rightarrow> (case fs_mtime_ms m of None \<Rightarrow> False
         | Some t \<Rightarrow> (case map_of cursors (inode_key prefix (fs_ino m)) of None \<Rightarrow> False
             | Some st \<Rightarrow> ck_last_seen_updated_at st \<ge> t \<and> (ck_last_id st = [] \<or> len = 0))))"

definition pi_processed_without_segments :: "(string \<times> CursorState) list \<Rightarrow> (file_stat \<times> nat) option \<Rightarrow> bool" where
  "pi_processed_without_segments = version_without_segments ''pi-''"

definition cursor_processed_without_segments :: "(string \<times> CursorState) list \<Rightarrow> (file_stat \<times> nat) option \<Rightarrow> bool" where
  "cursor_processed_without_segments = version_without_segments ''cursor-agent-''"

end
