(* ===== verification/AgentProperties.thy ===== *)
theory AgentProperties
  imports AgentImport CodexProperties "HOL-Library.Sublist"
begin

text \<open>Properties of the Pi and Cursor importers: numbering, growth of a transcript, identity, and the polls.\<close>

subsection \<open>Growth of a Pi transcript\<close>

text \<open>A segment of a longer transcript that continues one of a shorter transcript.\<close>

definition pi_continues :: "PiSegment \<Rightarrow> PiSegment \<Rightarrow> bool" where
  "pi_continues a b \<longleftrightarrow> pi_key b = pi_key a \<and> ps_start_time b = ps_start_time a \<and> ps_end_time a \<le> ps_end_time b
     \<and> prefix (ps_user_prompts a) (ps_user_prompts b) \<and> prefix (ps_assistant_texts a) (ps_assistant_texts b)
     \<and> prefix (ps_tool_calls a) (ps_tool_calls b) \<and> ps_message_count a \<le> ps_message_count b"

lemma pi_continues_refl [simp]: "pi_continues a a"
  by (simp add: pi_continues_def)

lemma pi_continues_trans: "pi_continues a b \<Longrightarrow> pi_continues b c \<Longrightarrow> pi_continues a c"
  unfolding pi_continues_def by (auto intro: prefix_order.trans)

lemma pi_continues_content: "pi_continues a b \<Longrightarrow> pi_has_content a \<Longrightarrow> pi_has_content b"
  by (auto simp: pi_continues_def pi_has_content_def)

text \<open>The segments with the open one at the end, and how a state develops: closed segments stay, the open one continues.\<close>

definition pi_all :: "pi_state \<Rightarrow> PiSegment list" where
  "pi_all x = pst_segments x @ (case pst_current x of None \<Rightarrow> [] | Some seg \<Rightarrow> [seg])"

definition pi_develops :: "pi_state \<Rightarrow> pi_state \<Rightarrow> bool" where
  "pi_develops x y \<longleftrightarrow> prefix (pst_segments x) (pst_segments y) \<and> length (pi_all x) \<le> length (pi_all y)
     \<and> (case pst_current x of None \<Rightarrow> True | Some seg \<Rightarrow> pi_continues seg (pi_all y ! length (pst_segments x)))"

text \<open>What holds in every state: segments are numbered in order and belong to the session, and each has a prompt.\<close>

definition pi_seg_ok :: "PathIdentity \<Rightarrow> nat \<Rightarrow> PiSegment \<Rightarrow> bool" where
  "pi_seg_ok i n seg \<longleftrightarrow> pi_key seg = (pid_session_id i, ''pi'', int n) \<and> ps_user_prompts seg \<noteq> []"

definition pi_state_ok :: "PathIdentity \<Rightarrow> pi_state \<Rightarrow> bool" where
  "pi_state_ok i x \<longleftrightarrow> (\<forall>n < length (pi_all x). pi_seg_ok i n (pi_all x ! n))"

lemma pi_develops_refl [simp]: "pi_develops x x"
  by (simp add: pi_develops_def pi_all_def split: option.split)

lemma pi_develops_trans:
  assumes "pi_develops x y" "pi_develops y z"
  shows "pi_develops x z"
proof -
  have "pi_continues seg (pi_all z ! length (pst_segments x))" if cur: "pst_current x = Some seg" for seg
  proof -
    have a: "pi_continues seg (pi_all y ! length (pst_segments x))" using assms(1) cur by (simp add: pi_develops_def)
    have n: "length (pst_segments x) < length (pi_all y)" using assms(1) cur by (simp add: pi_develops_def pi_all_def)
    show ?thesis
    proof (cases "length (pst_segments x) < length (pst_segments y)")
      case True
      then have "pi_all z ! length (pst_segments x) = pi_all y ! length (pst_segments x)"
        using assms(2) by (auto simp: pi_develops_def pi_all_def nth_append elim!: prefixE)
      then show ?thesis using a by simp
    next
      case False
      then obtain seg' where "pst_current y = Some seg'" "length (pst_segments x) = length (pst_segments y)" "pi_all y ! length (pst_segments x) = seg'"
        using n assms(1) by (auto simp: pi_all_def pi_develops_def nth_append prefix_length_le dest!: prefix_length_le split: option.splits)
      then show ?thesis using a assms(2) by (auto simp: pi_develops_def intro: pi_continues_trans)
    qed
  qed
  then show ?thesis using assms by (auto simp: pi_develops_def split: option.split intro: prefix_order.trans)
qed

lemma pi_close_step:
  assumes "pi_state_ok i x"
  shows "pi_develops x (pi_close ts x) \<and> pi_state_ok i (pi_close ts x)"
proof -
  have c: "pi_has_content seg" if "pst_current x = Some seg" for seg
    using assms that unfolding pi_state_ok_def by (auto simp: pi_all_def pi_seg_ok_def pi_has_content_def dest: spec[of _ "length (pst_segments x)"])
  have "pi_all (pi_close ts x) = pi_all x" using c by (auto simp: pi_close_def pi_all_def split: option.split)
  moreover have "prefix (pst_segments x) (pst_segments (pi_close ts x))" by (auto simp: pi_close_def split: option.split)
  ultimately show ?thesis
    using assms by (auto simp: pi_develops_def pi_state_ok_def) (auto simp: pi_all_def split: option.split)
qed

text \<open>Replacing the open segment by one that continues it, or opening a segment.\<close>

lemma pi_edit_step:
  assumes "pi_state_ok i x" "pst_segments y = pst_segments x" "pst_current y = Some seg'" "pi_seg_ok i (length (pst_segments x)) seg'"
    "\<And>seg. pst_current x = Some seg \<Longrightarrow> pi_continues seg seg'"
  shows "pi_develops x y \<and> pi_state_ok i y"
proof -
  have "pi_seg_ok i n (pst_segments x ! n)" if "n < length (pst_segments x)" for n
    using assms(1) that unfolding pi_state_ok_def by (auto simp: pi_all_def nth_append dest: spec[of _ n])
  moreover have all: "pi_all y = pst_segments x @ [seg']" using assms(2,3) by (simp add: pi_all_def)
  ultimately have "pi_state_ok i y" using assms(4) by (auto simp: pi_state_ok_def nth_append less_Suc_eq)
  moreover have "length (pi_all x) \<le> length (pi_all y)" unfolding all by (simp add: pi_all_def split: option.split)
  moreover have "case pst_current x of None \<Rightarrow> True | Some seg \<Rightarrow> pi_continues seg (pi_all y ! length (pst_segments x))"
    unfolding all using assms(5) by (simp split: option.split)
  ultimately show ?thesis using assms(2) by (simp add: pi_develops_def)
qed

lemma pi_current_ok: "pi_state_ok i x \<Longrightarrow> pst_current x = Some seg \<Longrightarrow> pi_seg_ok i (length (pst_segments x)) seg"
  unfolding pi_state_ok_def by (auto simp: pi_all_def dest: spec[of _ "length (pst_segments x)"])

lemma pi_prompts_step:
  assumes "pi_state_ok i x" "prompts \<noteq> []"
  shows "pi_develops x (pi_take_prompts env i p ts prompts x) \<and> pi_state_ok i (pi_take_prompts env i p ts prompts x)"
proof -
  let ?y = "pi_close ts x"
  have y: "pi_develops x ?y" "pi_state_ok i ?y" using pi_close_step[OF assms(1)] by simp_all
  define seg0 where "seg0 = (case pst_current ?y of Some seg \<Rightarrow> seg | None \<Rightarrow> pi_new_segment i p (int (length (pst_segments ?y))) ts)"
  define redacted where "redacted = map (xe_redact (ce_extract env)) prompts"
  define seg' where "seg' = seg0\<lparr>ps_end_time := (if ts > 0 then max (ps_end_time seg0) ts else ps_end_time seg0),
      ps_message_count := ps_message_count seg0 + 1, ps_user_prompts := ps_user_prompts seg0 @ redacted\<rparr>"
  define z where "z = pi_take_prompts env i p ts prompts x"
  have z: "pst_segments z = pst_segments ?y" "pst_current z = Some seg'"
    by (simp_all add: z_def pi_take_prompts_def Let_def seg0_def redacted_def seg'_def)
  have key: "pi_key seg' = pi_key seg0" "ps_user_prompts seg' \<noteq> []" using assms(2) by (simp_all add: seg'_def pi_key_def redacted_def)
  have cont: "pi_continues seg0 seg'" by (simp add: seg'_def pi_continues_def pi_key_def)
  have "pi_key seg0 = (pid_session_id i, ''pi'', int (length (pst_segments ?y)))"
  proof (cases "pst_current ?y")
    case None
    then show ?thesis by (simp add: seg0_def pi_new_segment_def pi_key_def)
  next
    case (Some seg)
    then show ?thesis using pi_current_ok[OF y(2) Some] by (simp add: seg0_def pi_seg_ok_def)
  qed
  then have "pi_develops ?y z \<and> pi_state_ok i z"
    using key cont by (intro pi_edit_step[OF y(2) z]) (auto simp: pi_seg_ok_def seg0_def)
  then show ?thesis using y(1) pi_develops_trans unfolding z_def by blast
qed

lemma pi_block_continues: "pi_continues seg (fst s) \<Longrightarrow> pi_continues seg (fst (pi_take_block env s b))"
  by (cases s) (auto simp: pi_take_block_def Let_def pi_continues_def pi_key_def intro: prefix_order.trans)

lemma pi_blocks_continue: "pi_continues seg (fst s) \<Longrightarrow> pi_continues seg (fst (foldl (pi_take_block env) s bs))"
  by (induction bs arbitrary: s) (simp_all add: pi_block_continues)

lemma pi_continues_ok: "pi_continues a b \<Longrightarrow> pi_seg_ok i n a \<Longrightarrow> pi_seg_ok i n b"
  by (auto simp: pi_continues_def pi_seg_ok_def)

lemma pi_assistant_step:
  assumes "pi_state_ok i x"
  shows "pi_develops x (pi_take_assistant env ts obj msg content x) \<and> pi_state_ok i (pi_take_assistant env ts obj msg content x)"
proof (cases "pst_current x")
  case (Some seg)
  define seg1 where "seg1 = seg\<lparr>ps_end_time := (if ts > 0 then max (ps_end_time seg) ts else ps_end_time seg),
      ps_message_count := ps_message_count seg + 1, ps_token_count := ps_token_count seg + pi_usage obj msg\<rparr>"
  obtain seg2 n where f: "foldl (pi_take_block env) (seg1, pst_chars x) (unwrap_or (as_array content) []) = (seg2, n)" by fastforce
  have "pi_continues seg seg1" by (simp add: seg1_def pi_continues_def pi_key_def)
  then have c: "pi_continues seg seg2" using pi_blocks_continue[of seg "(seg1, pst_chars x)" env "unwrap_or (as_array content) []"] f by simp
  have t: "pi_take_assistant env ts obj msg content x = x\<lparr>pst_current := Some seg2, pst_chars := n\<rparr>"
    using Some f by (simp add: pi_take_assistant_def Let_def seg1_def)
  show ?thesis
    unfolding t by (rule pi_edit_step[OF assms]) (use c Some pi_continues_ok pi_current_ok[OF assms Some] in simp_all)
qed (simp add: pi_take_assistant_def assms)

lemma pi_step_ok:
  assumes "pi_state_ok i x"
  shows "pi_develops x (pi_step env i p mtime_ms x obj) \<and> pi_state_ok i (pi_step env i p mtime_ms x obj)"
  using assms pi_prompts_step[OF assms] pi_assistant_step[OF assms] by (simp add: pi_step_def Let_def)

lemma pi_init_ok: "pi_state_ok i pi_init"
  by (simp add: pi_state_ok_def pi_all_def pi_init_def)

interpretation pi_run: invariant_run "pi_step env i p mtime_ms" "pi_state_ok i" for env i p mtime_ms
  by unfold_locales (simp add: pi_step_ok)

lemma pi_run_develops: "pi_state_ok i x \<Longrightarrow> pi_develops x (foldl (pi_step env i p mtime_ms) x objs)"
proof (induction objs arbitrary: x)
  case (Cons obj objs)
  then show ?case using pi_step_ok[OF Cons.prems, of env p mtime_ms obj] pi_develops_trans by (metis foldl_Cons)
qed simp

lemma pi_finish_all:
  assumes "pi_state_ok i x"
  shows "pi_finish x = pi_all x"
proof (cases "pst_current x")
  case (Some seg)
  then show ?thesis using pi_current_ok[OF assms Some] by (simp add: pi_finish_def pi_all_def pi_seg_ok_def pi_has_content_def)
qed (simp add: pi_finish_def pi_all_def)

lemma pi_backfill_fixed [simp]: "pi_key (pi_backfill_time t seg) = pi_key seg"
  by (simp add: pi_backfill_time_def pi_key_def)

definition pi_session :: "codex_env \<Rightarrow> rollout \<Rightarrow> string" where
  "pi_session cenv f = (case ro_lines f of None \<Rightarrow> [] | Some ls \<Rightarrow> pid_session_id (pi_transcript_identity cenv (ro_path f) (List.map_filter (\<lambda>l. l) ls)))"

lemma pi_numbered:
  assumes "pi_extract_segments cenv (ro_path f) t (ro_lines f) = Inr segs"
  shows "map pi_key segs = map (\<lambda>n. (pi_session cenv f, ''pi'', int n)) [0..<length segs]"
proof -
  obtain ls where ls: "ro_lines f = Some ls" using assms by (auto simp: pi_extract_segments_def split: option.splits)
  let ?es = "List.map_filter (\<lambda>l. l) ls"
  let ?i = "pi_transcript_identity cenv (ro_path f) ?es"
  let ?x = "foldl (pi_step cenv ?i (ro_path f) t) pi_init ?es"
  have ok: "pi_state_ok ?i ?x" by (rule pi_run.run_inv[OF pi_init_ok])
  have "map pi_key segs = map pi_key (pi_all ?x)"
    using assms ls pi_finish_all[OF ok] by (auto simp: pi_extract_segments_def Let_def split: if_splits)
  moreover have "map pi_key (pi_all ?x) = map (\<lambda>n. (pi_session cenv f, ''pi'', int n)) [0..<length (pi_all ?x)]"
    using ok by (intro nth_equalityI) (auto simp: pi_state_ok_def pi_seg_ok_def pi_session_def ls)
  ultimately show ?thesis by (metis length_map)
qed

text \<open>A line whose time does not depend on the file.\<close>

definition timed :: "codex_env \<Rightarrow> json \<Rightarrow> bool" where
  "timed env obj \<longleftrightarrow> (str_field obj ''type'' = Some ''message'' \<or> is_reviewer_message obj)
     \<longrightarrow> line_time env obj (unwrap_or (j_get obj ''message'') JNull) \<noteq> None"

lemma timed_step: "timed env obj \<Longrightarrow> pi_step env i p t x obj = pi_step env i p t' x obj"
  by (auto simp: timed_def pi_step_def pi_time_def Let_def)

lemma timed_run: "list_all (timed env) objs \<Longrightarrow> foldl (pi_step env i p t) x objs = foldl (pi_step env i p t') x objs"
proof (induction objs arbitrary: x)
  case (Cons obj objs)
  then show ?case using timed_step[of env obj i p t x t'] by simp
qed simp

lemma pi_scan_append: "ph_ts h \<le> 0 \<Longrightarrow> 0 < ph_ts (pi_scan env es h) \<Longrightarrow> pi_scan env (es @ es') h = pi_scan env es h"
  by (induction env es h rule: pi_scan.induct) (auto simp: Let_def split: if_splits)

text \<open>
  C28 (pi_growth): when a Pi transcript with a dated header and dated messages grows, every segment that was closed is
  extracted again exactly as before, under the same index, and the last one is continued: it keeps its start, and its prompts, texts and tool
  calls are a prefix of the new ones. So reading the file again, at a later modification time, updates only the row of the last
  segment and adds rows after it.
\<close>

theorem pi_growth:
  assumes "pi_extract_segments env p t (Some ls) = Inr old" "pi_extract_segments env p t' (Some (ls @ ls')) = Inr new"
    and "0 < ph_ts (pi_scan env (List.map_filter (\<lambda>l. l) ls) pi_scan_start)" "list_all (timed env) (List.map_filter (\<lambda>l. l) ls)"
  shows "length old \<le> length new \<and> (\<forall>n < length old. pi_continues (old ! n) (new ! n) \<and> (Suc n < length old \<longrightarrow> new ! n = old ! n))"
proof -
  let ?es = "List.map_filter (\<lambda>l. l) ls"
  let ?es' = "List.map_filter (\<lambda>l. l) ls'"
  have scan: "pi_scan env (?es @ ?es') pi_scan_start = pi_scan env ?es pi_scan_start"
    using assms(3) by (intro pi_scan_append) (simp_all add: pi_scan_start_def)
  have es: "List.map_filter (\<lambda>l. l) (ls @ ls') = ?es @ ?es'" by (induction ls) (auto simp: List.map_filter_def)
  define i where "i = pi_transcript_identity env p ?es"
  have i: "pi_transcript_identity env p (?es @ ?es') = i" by (simp add: i_def pi_transcript_identity_def scan)
  define x where "x = foldl (pi_step env i p t') pi_init ?es"
  define y where "y = foldl (pi_step env i p t') x ?es'"
  have ok: "pi_state_ok i x" "pi_state_ok i y" unfolding y_def x_def by (intro pi_run.run_inv pi_init_ok)+
  have "old = pi_all x"
    using assms(1,3) timed_run[OF assms(4)] pi_finish_all[OF ok(1)]
    by (simp add: pi_extract_segments_def Let_def i_def[symmetric] x_def) (metis (no_types))
  moreover have "new = pi_all y"
    using assms(2,3) pi_finish_all[OF ok(2)] by (simp add: pi_extract_segments_def Let_def es i scan y_def x_def)
  moreover have d: "pi_develops x y" unfolding y_def by (rule pi_run_develops[OF ok(1)])
  moreover have "pi_continues (pi_all x ! n) (pi_all y ! n) \<and> (Suc n < length (pi_all x) \<longrightarrow> pi_all y ! n = pi_all x ! n)"
    if n: "n < length (pi_all x)" for n
  proof (cases "n < length (pst_segments x)")
    case True
    then have "pi_all y ! n = pi_all x ! n" using d by (auto simp: pi_develops_def pi_all_def nth_append elim!: prefixE)
    then show ?thesis by simp
  next
    case False
    then obtain seg where "pst_current x = Some seg" "n = length (pst_segments x)" using n by (auto simp: pi_all_def split: option.splits)
    then show ?thesis using d by (simp add: pi_develops_def pi_all_def)
  qed
  ultimately show ?thesis by (simp add: pi_develops_def)
qed

subsection \<open>The key of the coverage check\<close>

lemma pi_scan_found: "ph_id h \<noteq> None \<Longrightarrow> \<not> list_ex is_session_line es \<Longrightarrow> ph_id (pi_scan env es h) = ph_id h"
  by (induction env es h rule: pi_scan.induct) (auto simp: Let_def)

lemma pi_scan_reviewer:
  "ph_id h = None \<Longrightarrow> \<not> list_ex is_session_line es
    \<Longrightarrow> ph_id (pi_scan env es h) = (case List.map_filter run_id_of es of [] \<Rightarrow> None | i # _ \<Rightarrow> Some i)"
proof (induction env es h rule: pi_scan.induct)
  case (2 env obj rest h)
  show ?case
  proof (cases "run_id_of obj")
    case None
    then show ?thesis using 2 by (simp add: Let_def List.map_filter_simps)
  next
    case (Some r)
    then show ?thesis using 2(2,3) pi_scan_found by (simp add: Let_def List.map_filter_simps)
  qed
qed (simp add: List.map_filter_simps)

lemma pi_scan_header:
  "list_all (\<lambda>obj. \<not> is_session_line obj \<and> run_id_of obj = None) pre \<Longrightarrow> is_session_line hd_line \<Longrightarrow> ph_id h = None
    \<Longrightarrow> ph_id (pi_scan env (pre @ hd_line # post) h) = str_field hd_line ''id''"
  by (induction pre arbitrary: h) (simp_all add: Let_def)

text \<open>
  The id the coverage check computes for a Pi transcript is the session id its rows are stored under, for a
  main session (a header with an id, before any reviewer record) and for a reviewer transcript (no header). The two passes are
  not the same, though: in a file that has a reviewer record without a working directory before its header, the check takes the
  run id, and the rows carry the id of the header.
\<close>

theorem pi_coverage_key:
  "(list_all (\<lambda>obj. \<not> is_session_line obj \<and> run_id_of obj = None) pre \<and> is_session_line header \<and> str_field header ''id'' = Some i \<and> i \<noteq> []
     \<longrightarrow> session_file_id env p (Some (pre @ header # post)) = pid_session_id (pi_transcript_identity env p (pre @ header # post)))
   \<and> (\<not> list_ex is_session_line es \<longrightarrow> session_file_id env p (Some es) = pid_session_id (pi_transcript_identity env p es))
   \<and> (run_id_of r = Some k \<and> str_field r ''cwd'' = None \<and> \<not> is_session_line r \<and> is_session_line header \<and> str_field header ''id'' = Some i \<and> i \<noteq> []
     \<longrightarrow> session_file_id env p (Some (r # header # post)) = k \<and> pid_session_id (pi_transcript_identity env p (r # header # post)) = i)"
proof (intro conjI impI; (elim conjE)?)
  assume a: "list_all (\<lambda>obj. \<not> is_session_line obj \<and> run_id_of obj = None) pre" "is_session_line header" "str_field header ''id'' = Some i" "i \<noteq> []"
  have "session_file_id env p (Some (pre @ header # post)) = i"
    using a by (induction pre) (simp_all add: session_file_id_def List.map_filter_simps)
  then show "session_file_id env p (Some (pre @ header # post)) = pid_session_id (pi_transcript_identity env p (pre @ header # post))"
    using a by (simp add: pi_transcript_identity_def Let_def pi_identity_def pi_scan_header pi_scan_start_def)
next
  assume a: "\<not> list_ex is_session_line es"
  have "List.map_filter (\<lambda>obj. case (if is_session_line obj then str_field obj ''id'' else None) of
      Some i \<Rightarrow> if i = [] then run_id_of obj else Some i | None \<Rightarrow> run_id_of obj) es = List.map_filter run_id_of es"
    using a by (induction es) (simp_all add: List.map_filter_simps split: option.split)
  moreover have "k \<noteq> []" if "k \<in> set (List.map_filter run_id_of es)" for k
    using that by (induction es) (auto simp: List.map_filter_simps run_id_of_def split: if_splits option.splits)
  ultimately show "session_file_id env p (Some es) = pid_session_id (pi_transcript_identity env p es)"
    using pi_scan_reviewer[of pi_scan_start es env] a
    by (cases "List.map_filter run_id_of es") (simp_all add: session_file_id_def pi_transcript_identity_def Let_def pi_identity_def pi_scan_start_def)
next
  assume a: "run_id_of r = Some k" "\<not> is_session_line r"
  then show "session_file_id env p (Some (r # header # post)) = k"
    by (simp add: session_file_id_def List.map_filter_simps)
next
  assume a: "run_id_of r = Some k" "str_field r ''cwd'' = None" "\<not> is_session_line r" "is_session_line header" "str_field header ''id'' = Some i" "i \<noteq> []"
  then show "pid_session_id (pi_transcript_identity env p (r # header # post)) = i"
    by (simp add: pi_transcript_identity_def Let_def pi_identity_def pi_scan_start_def)
qed

subsection \<open>Cursor segments are numbered\<close>

definition cursor_all :: "cursor_state \<Rightarrow> CursorSegment list" where
  "cursor_all x = ust_segments x @ (case ust_current x of None \<Rightarrow> [] | Some seg \<Rightarrow> [seg])"

definition cursor_state_ok :: "cursor_identity \<Rightarrow> cursor_state \<Rightarrow> bool" where
  "cursor_state_ok i x \<longleftrightarrow> map cursor_segment_key (cursor_all x) = map (\<lambda>n. (cid_session_id i, ''cursor'', int n)) [0..<length (cursor_all x)]
     \<and> list_all (\<lambda>seg. us_user_prompts seg \<noteq> []) (cursor_all x)"

text \<open>The open segment is replaced by one with the same key.\<close>

lemma cursor_replace:
  assumes "cursor_state_ok i x" "ust_current x = Some seg" "cursor_segment_key seg' = cursor_segment_key seg" "us_user_prompts seg' \<noteq> []"
    and "ust_segments y = ust_segments x" "ust_current y = Some seg'"
  shows "cursor_state_ok i y"
  using assms by (simp add: cursor_state_ok_def cursor_all_def)

lemma cursor_prompts_open:
  assumes "cursor_state_ok i x" "ust_current x = None" "cursor_segment_key seg' = (cid_session_id i, ''cursor'', int (length (ust_segments x)))"
    and "us_user_prompts seg' \<noteq> []" "ust_segments y = ust_segments x" "ust_current y = Some seg'"
  shows "cursor_state_ok i y"
  using assms by (simp add: cursor_state_ok_def cursor_all_def)

lemma cursor_close_ok: "cursor_state_ok i x \<Longrightarrow> cursor_state_ok i (cursor_close x)"
  by (cases "ust_current x") (simp_all add: cursor_close_def cursor_state_ok_def cursor_all_def)

lemma cursor_prompts_ok:
  assumes "cursor_state_ok i x" "prompts \<noteq> []"
  shows "cursor_state_ok i (cursor_take_prompts env i p t prompts x)"
proof (cases "ust_current (cursor_close x)")
  case None
  show ?thesis
    by (rule cursor_prompts_open[OF cursor_close_ok[OF assms(1)] None, where seg' = "the (ust_current (cursor_take_prompts env i p t prompts x))"])
       (use None assms(2) in \<open>simp_all add: cursor_take_prompts_def Let_def cursor_segment_key_def cursor_new_segment_def\<close>)
next
  case (Some seg)
  show ?thesis
    by (rule cursor_replace[OF cursor_close_ok[OF assms(1)] Some, where seg' = "the (ust_current (cursor_take_prompts env i p t prompts x))"])
       (use Some assms(2) in \<open>simp_all add: cursor_take_prompts_def Let_def cursor_segment_key_def\<close>)
qed

lemma cursor_step_ok:
  assumes "cursor_state_ok i x"
  shows "cursor_state_ok i (cursor_step env i p t x obj)"
proof (cases "str_or obj ''role'' [] = ''user''")
  case True
  then show ?thesis using assms cursor_prompts_ok by (simp add: cursor_step_def Let_def)
next
  case False
  show ?thesis
  proof (cases "ust_current x")
    case None
    then show ?thesis using False assms by (simp add: cursor_step_def Let_def)
  next
    case (Some seg)
    have u: "us_user_prompts seg \<noteq> []" using assms Some by (simp add: cursor_state_ok_def cursor_all_def)
    show ?thesis
      by (rule cursor_replace[OF assms Some, where seg' = "the (ust_current (cursor_step env i p t x obj))"])
         (use False Some u in \<open>simp_all add: cursor_step_def cursor_take_assistant_def Let_def cursor_segment_key_def\<close>)
  qed
qed

interpretation cursor_run: invariant_run "cursor_step env i p t" "cursor_state_ok i" for env i p t
  by unfold_locales (rule cursor_step_ok)

lemma cursor_init_ok: "cursor_state_ok i cursor_init"
  by (simp add: cursor_state_ok_def cursor_all_def cursor_init_def)

lemma cursor_finish_all: "cursor_state_ok i x \<Longrightarrow> cursor_finish x = cursor_all x"
  by (cases "ust_current x") (auto simp: cursor_finish_def cursor_all_def cursor_state_ok_def)

lemma set_cwd_key [simp]: "cursor_segment_key (set_cwd cwd slug seg) = cursor_segment_key seg"
  by (simp add: set_cwd_def cursor_segment_key_def)

lemma cursor_numbered:
  assumes "cursor_extract_segments cenv p t entries = Inr segs"
  shows "map cursor_segment_key segs = map (\<lambda>n. (cid_session_id (cursor_path_identity p), ''cursor'', int n)) [0..<length segs]"
proof -
  obtain ls where ls: "entries = Some ls" using assms by (auto simp: cursor_extract_segments_def split: option.splits)
  let ?x = "foldl (cursor_step cenv (cursor_path_identity p) p t) cursor_init (List.map_filter (\<lambda>l. l) ls)"
  have ok: "cursor_state_ok (cursor_path_identity p) ?x" by (rule cursor_run.run_inv[OF cursor_init_ok])
  have s: "segs = cursor_all ?x \<or> (\<exists>cwd. segs = map (set_cwd cwd (cid_slug (cursor_path_identity p))) (cursor_all ?x))"
    using assms ls cursor_finish_all[OF ok] by (auto simp: cursor_extract_segments_def Let_def split: option.splits)
  then have "map cursor_segment_key segs = map cursor_segment_key (cursor_all ?x)" by auto
  then show ?thesis using ok s by (auto simp: cursor_state_ok_def)
qed

subsection \<open>The polls\<close>

interpretation pi_poller: transcript_poller pi_key "pi_insert_row env" "pi_update_row env" "pi_content_hash (se_hash env)" "se_now_ms env"
    "\<lambda>f t. pi_extract_segments cenv (ro_path f) t (ro_lines f)" "pi_session cenv" "''pi''" ps_session_id pi_is_transcript "''pi-''"
    "''agentic-session-pi''" for cenv env
  by unfold_locales (rule pi_numbered)

interpretation cursor_poller: transcript_poller cursor_segment_key "cursor_insert_row env" "cursor_update_row env"
    "cursor_content_hash (se_hash env)" "se_now_ms env" "\<lambda>f t. cursor_extract_segments cenv (ro_path f) t (ro_lines f)"
    "\<lambda>f. cid_session_id (cursor_path_identity (ro_path f))" "''cursor''" us_session_id cursor_is_transcript "''cursor-agent-''"
    "''agentic-session-cursor''" for cenv env
  by unfold_locales (rule cursor_numbered)

definition pi_due :: "store_env \<Rightarrow> int \<Rightarrow> codex_db \<Rightarrow> rollout \<Rightarrow> (string \<times> int) option" where
  "pi_due env min_idle_secs = transcript_due pi_is_transcript ''pi-'' (se_now_ms env) (min_idle_secs * 1000)"

definition cursor_due :: "store_env \<Rightarrow> int \<Rightarrow> codex_db \<Rightarrow> rollout \<Rightarrow> (string \<times> int) option" where
  "cursor_due env min_idle_secs = transcript_due cursor_is_transcript ''cursor-agent-'' (se_now_ms env) (min_idle_secs * 1000)"

lemma pi_tick_eq: "pi_poll_tick True cenv env idle q roots db =
    poll_transcripts True (pi_due env idle) (pi_poller.ingest env cenv) ''agentic-session-pi'' (se_now_ms env) q roots db"
  by (simp add: pi_poll_tick_def pi_due_def pi_ingest_file_def[abs_def] pi_upsert_def[abs_def])

lemma cursor_tick_eq: "cursor_poll_tick True cenv env idle q roots db =
    poll_transcripts True (cursor_due env idle) (cursor_poller.ingest env cenv) ''agentic-session-cursor'' (se_now_ms env) q roots db"
  by (simp add: cursor_poll_tick_def cursor_due_def cursor_ingest_file_def[abs_def] cursor_upsert_def[abs_def])

text \<open>
  C29 (pi_poll_covers): a poll stores every Pi transcript that is due, whatever happens to the others. If the file is read and
  stored without a fault, then at the end of the tick each of its segments has a row with its content that is pending, in work or
  enriched, and the file's cursor is at the modification time seen. The other files are only asked not to share its inode, and
  the later ones not to carry the same session.
\<close>

theorem pi_poll_covers:
  assumes "store_inv (xd_store db)" "concat roots = pre @ f # post" "pi_due env min_idle_secs db f = Some (k, mtime_ms)"
    and "sound_file f" "ro_cursor_fault f = None" "pi_extract_segments cenv (ro_path f) mtime_ms (ro_lines f) = Inr segs"
    and "list_all (\<lambda>g. file_ino g \<noteq> file_ino f) (pre @ post)" "list_all (\<lambda>g. pi_session cenv g \<noteq> pi_session cenv f) post"
  shows "\<exists>n db'. pi_poll_tick True cenv env min_idle_secs None roots db = (Inr n, db')
    \<and> list_all (\<lambda>seg. row_settled (pi_key seg) (pi_update_row env seg) (xd_store db')) segs
    \<and> ck_last_seen_updated_at (read_cursor (xd_cursors db') k) = mtime_ms"
  unfolding pi_tick_eq using pi_poller.tick_covers[OF assms(1,2) _ assms(4-8)] assms(3) by (simp add: pi_due_def)

text \<open>
  A poll stores every Cursor transcript that is due, whatever happens to the others, under the same
  conditions; its session is the name of the file, so the later files are asked not to have the same stem.
\<close>

theorem cursor_poll_covers:
  assumes "store_inv (xd_store db)" "concat roots = pre @ f # post" "cursor_due env min_idle_secs db f = Some (k, mtime_ms)"
    and "sound_file f" "ro_cursor_fault f = None" "cursor_extract_segments cenv (ro_path f) mtime_ms (ro_lines f) = Inr segs"
    and "list_all (\<lambda>g. file_ino g \<noteq> file_ino f) (pre @ post)"
    and "list_all (\<lambda>g. cid_session_id (cursor_path_identity (ro_path g)) \<noteq> cid_session_id (cursor_path_identity (ro_path f))) post"
  shows "\<exists>n db'. cursor_poll_tick True cenv env min_idle_secs None roots db = (Inr n, db')
    \<and> list_all (\<lambda>seg. row_settled (cursor_segment_key seg) (cursor_update_row env seg) (xd_store db')) segs
    \<and> ck_last_seen_updated_at (read_cursor (xd_cursors db') k) = mtime_ms"
  unfolding cursor_tick_eq using cursor_poller.tick_covers[OF assms(1,2) _ assms(4-8)] assms(3) by (simp add: cursor_due_def)

subsection \<open>The working directory of a Cursor transcript\<close>

lemma cursor_decode_encode:
  assumes "CHR ''-'' \<notin> set rel"
  shows "dash_to_slash (encode_cwd rel) = rel"
  using assms by (induction rel) (auto simp: dash_to_slash_def encode_cwd_def)

text \<open>The pieces of a clean relative path: none is empty or a single dot.\<close>

definition clean_rel :: "string list \<Rightarrow> bool" where
  "clean_rel ps \<longleftrightarrow> ps \<noteq> [] \<and> list_all (\<lambda>c. c \<noteq> [] \<and> c \<noteq> ''.'' \<and> CHR ''/'' \<notin> set c) ps"

lemma trim_clean: "list_all (\<lambda>c. c \<noteq> [] \<and> c \<noteq> ''.'' \<and> CHR ''/'' \<notin> set c) ps \<Longrightarrow> trim_pieces ps = ps"
  by (cases ps rule: rev_cases) (auto simp: trim_pieces_def)

lemma butlast_clean: "list_all (\<lambda>c. c \<noteq> [] \<and> c \<noteq> ''.'' \<and> CHR ''/'' \<notin> set c) ps
    \<Longrightarrow> list_all (\<lambda>c. c \<noteq> [] \<and> c \<noteq> ''.'' \<and> CHR ''/'' \<notin> set c) (butlast ps)"
  by (cases ps rule: rev_cases) simp_all

lemma parents_of_clean:
  "list_all (\<lambda>c. c \<noteq> [] \<and> c \<noteq> ''.'' \<and> CHR ''/'' \<notin> set c) (ps @ qs) \<Longrightarrow> qs \<noteq> [] \<Longrightarrow> ps \<in> set (parent_pieces (ps @ qs))"
proof (induction qs rule: rev_induct)
  case (snoc q qs)
  have t: "trim_pieces (ps @ qs @ [q]) = ps @ qs @ [q]" "trim_pieces (ps @ qs) = ps @ qs"
    using snoc.prems(1) by (auto intro!: trim_clean)
  then have "parent_pieces (ps @ qs @ [q]) = (ps @ qs) # parent_pieces (ps @ qs)"
    by (subst parent_pieces.simps) (simp add: butlast_append)
  then show ?case using snoc.IH snoc.prems(1) by (cases "qs = []") simp_all
qed simp

lemma parents_are_prefixes:
  "list_all (\<lambda>c. c \<noteq> [] \<and> c \<noteq> ''.'' \<and> CHR ''/'' \<notin> set c) ps \<Longrightarrow> r \<in> set (parent_pieces ps) \<Longrightarrow> prefix r ps"
proof (induction ps rule: parent_pieces.induct)
  case (1 ps)
  have t: "trim_pieces ps = ps" "trim_pieces (butlast ps) = butlast ps" using "1.prems"(1) by (auto intro!: trim_clean butlast_clean)
  have ne: "ps \<noteq> []" using "1.prems"(2) by (auto simp: trim_pieces_def parent_pieces.simps[of "[]"])
  then have "r = butlast ps \<or> r \<in> set (parent_pieces (butlast ps))"
    using "1.prems"(2) t by (subst (asm) parent_pieces.simps) simp
  then have "prefix r (butlast ps)" using "1.IH" "1.prems"(1) t ne butlast_clean by auto
  then show ?case using prefixeq_butlast[of ps] prefix_order.trans by blast
qed

lemma join_append: "a \<noteq> [] \<Longrightarrow> b \<noteq> [] \<Longrightarrow> join d (a @ b) = join d a @ d @ join d b"
proof (induction a)
  case (Cons p ps)
  then show ?case by (cases ps; cases b) auto
qed simp

lemma join_prefix:
  assumes "prefix r ps"
  shows "prefix (join d r) (join d ps)"
  using assms
proof (elim prefixE)
  fix zs assume "ps = r @ zs"
  then show ?thesis by (cases "r = [] \<or> zs = []") (auto simp: join_append)
qed

lemma find_the:
  assumes "x \<in> set xs" "P x" "\<And>y. y \<in> set xs \<Longrightarrow> P y \<Longrightarrow> y = x"
  shows "find P xs = Some x"
proof (cases "find P xs")
  case None
  then show ?thesis using assms(1,2) by (auto simp: find_None_iff)
next
  case (Some y)
  then have "y \<in> set xs" "P y" by (auto simp: find_Some_iff)
  then show ?thesis using assms(3) Some by metis
qed

lemma split_join: "ps \<noteq> [] \<Longrightarrow> list_all (\<lambda>c. CHR ''/'' \<notin> set c) ps \<Longrightarrow> split_on (CHR ''/'') (join ''/'' ps) = ps"
proof (induction ps)
  case (Cons p ps)
  then show ?case by (cases ps) (auto simp: split_on_none split_on_append)
qed simp

text \<open>
  C30 (cursor_cwd_recovered): the working directory of a Cursor transcript is recovered exactly, with its dashes, from a tool path in or
  below it: the path of a directory encodes to the slug, none of the paths before it has an ancestor with the same encoding, and the
  result is the directory. Dashes and slashes are told apart although the slug writes both as a dash.
\<close>

theorem cursor_cwd_recovered:
  assumes "clean_rel ps" "list_all (\<lambda>c. c \<noteq> [] \<and> c \<noteq> ''.'' \<and> CHR ''/'' \<notin> set c) qs"
    and "list_all (\<lambda>a. encode_cwd (join ''/'' ps) \<notin> encode_cwd ` set (ancestor_rels a)) before"
  shows "recover_cwd_from_paths (encode_cwd (join ''/'' ps)) (before @ (''/'' @ join ''/'' (ps @ qs)) # after) = Some (''/'' @ join ''/'' ps)"
proof -
  let ?j = "join ''/''"
  let ?P = "\<lambda>rel. encode_cwd rel = encode_cwd (?j ps)"
  have clean: "list_all (\<lambda>c. c \<noteq> [] \<and> c \<noteq> ''.'' \<and> CHR ''/'' \<notin> set c) (ps @ qs)" using assms(1,2) by (simp add: clean_rel_def)
  have ne: "ps \<noteq> []" "?j ps \<noteq> []" using assms(1) by (cases ps; cases "tl ps"; auto simp: clean_rel_def)+
  have rels: "ancestor_rels (''/'' @ ?j (ps @ qs)) = filter (\<lambda>r. r \<noteq> []) (?j (ps @ qs) # map ?j (parent_pieces (ps @ qs)))"
    using split_join[of "ps @ qs"] clean ne(1) by (simp add: ancestor_rels_def strip_prefix_def list_all_iff)
  have "?j ps \<in> set (ancestor_rels (''/'' @ ?j (ps @ qs)))"
    using parents_of_clean[OF clean] ne unfolding rels by (cases "qs = []") auto
  moreover have "r = ?j ps" if "r \<in> set (ancestor_rels (''/'' @ ?j (ps @ qs)))" "?P r" for r
  proof -
    have "r = ?j (ps @ qs) \<or> (\<exists>x \<in> set (parent_pieces (ps @ qs)). r = ?j x)" using that(1) unfolding rels by (simp split: if_splits) blast+
    then have "prefix r (?j (ps @ qs))" using join_prefix[OF parents_are_prefixes[OF clean]] by blast
    moreover have "prefix (?j ps) (?j (ps @ qs))" by (simp add: join_prefix)
    moreover have "length r = length (?j ps)" using that(2) by (metis encode_cwd_def length_map)
    ultimately show ?thesis by (metis append_eq_append_conv prefix_def)
  qed
  ultimately have here: "find ?P (ancestor_rels (''/'' @ ?j (ps @ qs))) = Some (?j ps)"
    by (intro find_the) auto
  have "find ?P (concat (map ancestor_rels before)) = None"
    using assms(3) by (auto simp: find_None_iff list_all_iff dest: sym)
  then show ?thesis using here ne by (simp add: recover_cwd_from_paths_def find_append encode_cwd_def)
qed

subsection \<open>Concrete transcripts\<close>

definition pi_example_message :: "string \<Rightarrow> string \<Rightarrow> json option" where
  "pi_example_message role text = Some (JObj [(''type'', JStr ''message''), (''timestamp'', JStr ''tt''),
     (''message'', JObj [(''role'', JStr role), (''content'', JArr [JObj [(''type'', JStr ''text''), (''text'', JStr text)]])])])"

definition pi_example_header :: json where
  "pi_example_header = JObj [(''type'', JStr ''session''), (''id'', JStr ''s1''), (''timestamp'', JStr ''t''), (''cwd'', JStr ''/p'')]"

definition pi_example_lines :: "json option list" where
  "pi_example_lines = [Some pi_example_header, None, pi_example_message ''user'' ''fix it'']"

definition pi_example_file :: rollout where
  "pi_example_file = \<lparr>ro_path = [''sessions'', ''a.jsonl''], ro_meta = Some (7, Some 10), ro_lines = Some pi_example_lines,
     ro_faults = \<lparr>if_begin = None, if_steps = [], if_commit = None\<rparr>, ro_health_fault = None, ro_cursor_fault = None\<rparr>"

lemma pi_example_extracts: "\<exists>segs. pi_extract_segments codex_example_env p t (Some ls) = Inr segs"
  by (simp add: pi_extract_segments_def Let_def)

lemma pi_example_segment:
  "length (projr (pi_extract_segments codex_example_env (ro_path pi_example_file) 10 (Some pi_example_lines))) = 1"
  by code_simp

lemma pi_growth_witness:
  "\<exists>new. pi_extract_segments codex_example_env (ro_path pi_example_file) 20 (Some (pi_example_lines @ [pi_example_message ''assistant'' ''done''])) = Inr new
    \<and> pi_continues (projr (pi_extract_segments codex_example_env (ro_path pi_example_file) 10 (Some pi_example_lines)) ! 0) (new ! 0)"
proof -
  let ?p = "ro_path pi_example_file"
  obtain old where old: "pi_extract_segments codex_example_env ?p 10 (Some pi_example_lines) = Inr old" using pi_example_extracts by blast
  obtain new where new: "pi_extract_segments codex_example_env ?p 20 (Some (pi_example_lines @ [pi_example_message ''assistant'' ''done''])) = Inr new"
    using pi_example_extracts by blast
  have "0 < ph_ts (pi_scan codex_example_env (List.map_filter (\<lambda>l. l) pi_example_lines) pi_scan_start)" by code_simp
  moreover have "list_all (timed codex_example_env) (List.map_filter (\<lambda>l. l) pi_example_lines)" by code_simp
  ultimately show ?thesis using pi_growth[OF old new] pi_example_segment old new by simp
qed

lemma pi_coverage_key_witness:
  "session_file_id codex_example_env [''a.jsonl''] (Some ([] @ pi_example_header # []))
     = pid_session_id (pi_transcript_identity codex_example_env [''a.jsonl''] ([] @ pi_example_header # []))"
proof -
  have "is_session_line pi_example_header \<and> str_field pi_example_header ''id'' = Some ''s1''" by code_simp
  then show ?thesis using pi_coverage_key[of "[]" pi_example_header "''s1''" codex_example_env "[''a.jsonl'']" "[]"] by simp
qed

lemma cursor_cwd_recovered_witness:
  "recover_cwd_from_paths ''Users-me-my-app'' [''/etc/hosts'', ''/Users/me/my-app/src/main.rs''] = Some ''/Users/me/my-app''"
proof -
  let ?ps = "[''Users'', ''me'', ''my-app'']"
  have "clean_rel ?ps" by (simp add: clean_rel_def)
  moreover have "list_all (\<lambda>a. encode_cwd (join ''/'' ?ps) \<notin> encode_cwd ` set (ancestor_rels a)) [''/etc/hosts'']" by code_simp
  moreover have "encode_cwd (join ''/'' ?ps) = ''Users-me-my-app''" by code_simp
  ultimately show ?thesis
    using cursor_cwd_recovered[of ?ps "[''src'', ''main.rs'']" "[''/etc/hosts'']" "[]"] by simp
qed

definition pi_example_broken_file :: rollout where
  "pi_example_broken_file = pi_example_file\<lparr>ro_meta := Some (8, Some 10), ro_lines := None\<rparr>"

lemma pi_poll_covers_witness:
  "\<exists>segs db' n. segs \<noteq> [] \<and> pi_poll_tick True codex_example_env codex_example_store_env 0 None [[pi_example_broken_file], [pi_example_file]] codex_example_db
      = (Inr n, db')
    \<and> list_all (\<lambda>seg. row_settled (pi_key seg) (pi_update_row codex_example_store_env seg) (xd_store db')) segs"
proof -
  obtain segs where segs: "pi_extract_segments codex_example_env (ro_path pi_example_file) 10 (ro_lines pi_example_file) = Inr segs"
    using pi_example_extracts[of "ro_path pi_example_file" 10 pi_example_lines] by (auto simp: pi_example_file_def)
  then have "segs \<noteq> []" using pi_example_segment by (auto simp: pi_example_file_def)
  moreover have "pi_due codex_example_store_env 0 codex_example_db pi_example_file = Some (inode_key ''pi-'' 7, 10)" by code_simp
  ultimately show ?thesis
    using pi_poll_covers[of codex_example_db "[[pi_example_broken_file], [pi_example_file]]" "[pi_example_broken_file]" pi_example_file "[]"
        codex_example_store_env 0 _ 10 codex_example_env segs] segs codex_example_inv
    by (simp add: codex_example_db_def pi_example_file_def pi_example_broken_file_def sound_file_def) blast
qed

definition cursor_example_file :: rollout where
  "cursor_example_file = pi_example_file\<lparr>ro_path := [''Users-me-app'', ''agent-transcripts'', ''c1'', ''c1.jsonl''],
     ro_lines := Some [Some (JObj [(''role'', JStr ''user''),
       (''message'', JObj [(''content'', JArr [JObj [(''type'', JStr ''text''), (''text'', JStr ''fix it'')]])])])]\<rparr>"

lemma cursor_poll_covers_witness:
  "\<exists>segs db' n. segs \<noteq> [] \<and> cursor_poll_tick True codex_example_env codex_example_store_env 0 None [[cursor_example_file]] codex_example_db = (Inr n, db')
    \<and> list_all (\<lambda>seg. row_settled (cursor_segment_key seg) (cursor_update_row codex_example_store_env seg) (xd_store db')) segs"
proof -
  obtain segs where segs: "cursor_extract_segments codex_example_env (ro_path cursor_example_file) 10 (ro_lines cursor_example_file) = Inr segs"
    by (auto simp: cursor_example_file_def cursor_extract_segments_def Let_def)
  have "length (projr (cursor_extract_segments codex_example_env (ro_path cursor_example_file) 10 (ro_lines cursor_example_file))) = 1" by code_simp
  then have "segs \<noteq> []" using segs by auto
  moreover have "cursor_due codex_example_store_env 0 codex_example_db cursor_example_file = Some (inode_key ''cursor-agent-'' 7, 10)" by code_simp
  ultimately show ?thesis
    using cursor_poll_covers[of codex_example_db "[[cursor_example_file]]" "[]" cursor_example_file "[]"
        codex_example_store_env 0 _ 10 codex_example_env segs] segs codex_example_inv
    by (simp add: codex_example_db_def cursor_example_file_def pi_example_file_def sound_file_def) blast
qed

end
