(* ===== verification/OpencodeSession.thy ===== *)
theory OpencodeSession
  imports AgentStore PageDiff
begin

text \<open>
  OpenCode sessions (\<open>hippo-daemon/src/opencode_session.rs\<close>, with \<open>render_command\<close> of \<open>hippo-core/src/agentic/render.rs\<close>). OpenCode
  keeps its sessions in a database of its own; the poll reads its tables and stores one row for each session that is new or was
  updated since. The rows of a query are lists in the query's order; a query or statement that fails is a fault argument.
\<close>

subsection \<open>Commands\<close>

definition str_arg :: "json \<Rightarrow> string \<Rightarrow> string \<Rightarrow> string" where
  "str_arg input k d = unwrap_or (str_field input k) d"

definition file_path_field :: "json \<Rightarrow> string" where
  "file_path_field input = unwrap_or (opt_or (str_field input ''filePath'') (str_field input ''file_path'')) ''<unknown>''"

definition quoted :: "string \<Rightarrow> string" where
  "quoted s = [CHR 0x27] @ s @ [CHR 0x27]"

definition render_command :: "string \<Rightarrow> json \<Rightarrow> string" where
  "render_command tool_name input =
     (if tool_name \<in> {''Bash'', ''bash''} then str_arg input ''command'' ''bash''
      else if tool_name = ''exec_command'' then str_arg input ''cmd'' ''exec''
      else if tool_name \<in> {''Read'', ''read''} then ''read '' @ file_path_field input
      else if tool_name \<in> {''Edit'', ''edit''} then ''edit '' @ file_path_field input
      else if tool_name \<in> {''Write'', ''write''} then ''write '' @ file_path_field input
      else if tool_name \<in> {''Grep'', ''grep''} then ''grep '' @ quoted (str_arg input ''pattern'' ''*'') @ '' '' @ str_arg input ''path'' ''.''
      else if tool_name \<in> {''Glob'', ''glob''} then ''glob '' @ quoted (str_arg input ''pattern'' ''*'')
      else if tool_name \<in> {''Agent'', ''agent''} then ''agent: '' @ str_arg input ''description'' ''agent task''
      else if tool_name = ''TaskCreate'' then ''task: '' @ str_arg input ''subject'' ''task''
      else if tool_name = ''TaskUpdate'' then ''task-update: '' @ str_arg input ''taskId'' ''?'' @ '' '' @ str_arg input ''status'' ''?''
      else if tool_name = ''Skill'' then ''skill: '' @ str_arg input ''skill'' ''?''
      else if tool_name = ''skill'' then ''skill: '' @ str_arg input ''name'' ''?''
      else if tool_name = ''WebFetch'' then ''fetch '' @ str_arg input ''url'' ''<url>''
      else if tool_name = ''WebSearch'' then ''search '' @ quoted (str_arg input ''query'' [])
      else tool_name)"

subsection \<open>The source database\<close>

record OpencodeContext =
  oc_user_prompts :: "string list"
  oc_assistant_texts :: "string list"
  oc_tool_calls :: "string list"
  oc_files_touched :: "string list"
  oc_message_count :: int
  oc_token_count :: int

definition no_context :: OpencodeContext where
  "no_context = \<lparr>oc_user_prompts = [], oc_assistant_texts = [], oc_tool_calls = [], oc_files_touched = [], oc_message_count = 0, oc_token_count = 0\<rparr>"

record OpencodeSession =
  os_id :: string
  os_slug :: string
  os_title :: string
  os_directory :: string
  os_parent_id :: "string option"
  os_agent :: "string option"
  os_model :: "string option"
  os_time_created :: int
  os_time_updated :: int
  os_summary_additions :: "int option"
  os_summary_deletions :: "int option"
  os_summary_files :: "int option"
  os_summary_diffs :: "string option"
  os_context :: OpencodeContext

text \<open>
  The tables \<open>session\<close>, \<open>message\<close> and \<open>part\<close>, the last two in the order of their creation; either of them may be missing. The data of a row is the text of
  a JSON value.
\<close>

record message_row =
  ms_id :: string
  ms_session_id :: string
  ms_data :: string

record part_row =
  pa_message_id :: string
  pa_session_id :: string
  pa_data :: string

record opencode_source =
  sr_sessions :: "OpencodeSession list"
  sr_messages :: "message_row list option"
  sr_parts :: "part_row list option"

text \<open>The query of \<open>read_new_sessions\<close> and its filter; \<open>known\<close> has the end time stored for a session.\<close>

definition opencode_newer :: "(string \<Rightarrow> int option) \<Rightarrow> OpencodeSession \<Rightarrow> bool" where
  "opencode_newer known s \<longleftrightarrow> (case known (os_id s) of None \<Rightarrow> True | Some stored_end_time \<Rightarrow> os_time_updated s > stored_end_time)"

definition read_new_sessions :: "opencode_source \<Rightarrow> (string \<Rightarrow> int option) \<Rightarrow> OpencodeSession list" where
  "read_new_sessions src known =
     filter (opencode_newer known) (map (\<lambda>s. s\<lparr>os_context := no_context\<rparr>) (sort_key os_time_updated (sort_key os_id (sr_sessions src))))"

definition sessions_in_probe_window :: "opencode_source \<Rightarrow> int \<Rightarrow> int \<Rightarrow> (string \<times> int) list" where
  "sessions_in_probe_window src min_updated max_updated = map (\<lambda>s. (os_id s, os_time_updated s))
     (sort_key os_time_updated (filter (\<lambda>s. os_time_updated s \<ge> min_updated \<and> os_time_updated s \<le> max_updated) (sr_sessions src)))"

subsection \<open>The context of a session\<close>

definition first_non_empty_str :: "json \<Rightarrow> string list \<Rightarrow> string option" where
  "first_non_empty_str v keys = (case List.map_filter (str_field v) keys of
     [] \<Rightarrow> None | s # _ \<Rightarrow> if trim s = [] then None else Some s)"

fun tokens_from_value :: "json \<Rightarrow> int" where
  "tokens_from_value (JInt n) = unwrap_or (as_i64 (JInt n)) 0"
| "tokens_from_value (JObj ms) = (case Option.bind (map_of ms ''total'') as_i64 of
     Some t \<Rightarrow> t | None \<Rightarrow> sum_list (map (\<lambda>m. tokens_from_value (snd m)) ms))"
| "tokens_from_value _ = 0"

definition push_redacted :: "(string \<Rightarrow> string) \<Rightarrow> string list \<Rightarrow> string \<Rightarrow> nat \<Rightarrow> string list" where
  "push_redacted redact target text max_chars = (let redacted = redact (chars_take max_chars (trim text)) in
     if redacted \<noteq> [] \<and> redacted \<notin> set target then target @ [redacted] else target)"

definition push_new :: "string list \<Rightarrow> string \<Rightarrow> string list" where
  "push_new target x = (if x \<in> set target then target else target @ [x])"

definition state_field :: "json \<Rightarrow> string \<Rightarrow> json option" where
  "state_field part k = Option.bind (j_get part ''state'') (\<lambda>s. j_get s k)"

definition summarize_tool :: "(string \<Rightarrow> string) \<Rightarrow> string \<Rightarrow> json \<Rightarrow> string" where
  "summarize_tool redact tool part =
     (let input = unwrap_or (opt_or (state_field part ''input'') (j_get part ''input'')) JNull;
          rendered = render_command tool input;
          summary = (if rendered = tool
            then unwrap_or (first_non_empty_str input
              [''command'', ''cmd'', ''filePath'', ''file_path'', ''path'', ''query'', ''pattern'', ''description'']) tool
            else rendered);
          output = (case Option.bind (state_field part ''output'') as_str of
              None \<Rightarrow> []
            | Some out \<Rightarrow> (case find (\<lambda>l. trim l \<noteq> []) (lines out) of None \<Rightarrow> [] | Some l \<Rightarrow> '' -> '' @ chars_take 120 l))
      in redact (chars_take 300 (summary @ output)))"

definition extract_patch_files :: "json \<Rightarrow> string list" where
  "extract_patch_files part = (case Option.bind (j_get part ''files'') as_array of
     None \<Rightarrow> []
   | Some files \<Rightarrow> map (chars_take 240) (filter (\<lambda>p. trim p \<noteq> [])
       (List.map_filter (\<lambda>f. opt_or (as_str f) (first_non_empty_str f [''path'', ''name''])) files)))"

definition take_message :: "codex_env \<Rightarrow> OpencodeContext \<Rightarrow> string \<Rightarrow> OpencodeContext" where
  "take_message env c data = (case ce_parse_json env data of
     None \<Rightarrow> c
   | Some v \<Rightarrow> c\<lparr>oc_message_count := oc_message_count c + 1,
       oc_token_count := oc_token_count c + (case j_get v ''tokens'' of None \<Rightarrow> 0 | Some tokens \<Rightarrow> tokens_from_value tokens)\<rparr>)"

definition take_part :: "(string \<Rightarrow> string) \<Rightarrow> bool \<Rightarrow> OpencodeContext \<Rightarrow> string \<times> json \<Rightarrow> OpencodeContext" where
  "take_part redact with_steps c row = (case row of (role, part) \<Rightarrow>
     (let kind = unwrap_or (str_field part ''type'') [] in
      if kind = ''text'' then (case str_field part ''text'' of
          None \<Rightarrow> c
        | Some text \<Rightarrow>
            if role = ''user'' then c\<lparr>oc_user_prompts := push_redacted redact (oc_user_prompts c) text 500\<rparr>
            else if role = ''assistant'' then c\<lparr>oc_assistant_texts := push_redacted redact (oc_assistant_texts c) text 300\<rparr>
            else c)
      else if kind = ''tool'' then
        (let tool = unwrap_or (str_field part ''tool'') ''tool''; summary = summarize_tool redact tool part in
         if summary = [] then c else c\<lparr>oc_tool_calls := push_new (oc_tool_calls c) (tool @ '': '' @ summary)\<rparr>)
      else if kind = ''patch'' then c\<lparr>oc_files_touched := foldl push_new (oc_files_touched c) (extract_patch_files part)\<rparr>
      else if kind = ''file'' then (case first_non_empty_str part [''path'', ''filename'', ''name''] of
          None \<Rightarrow> c
        | Some p \<Rightarrow> if p \<in> set (oc_files_touched c) then c else c\<lparr>oc_files_touched := oc_files_touched c @ [chars_take 240 p]\<rparr>)
      else if kind = ''step-finish'' \<and> with_steps then
        c\<lparr>oc_token_count := oc_token_count c + (case j_get part ''tokens'' of None \<Rightarrow> 0 | Some tokens \<Rightarrow> tokens_from_value tokens)\<rparr>
      else c))"

text \<open>The join of the parts with their messages: the role of the message and the part.\<close>

definition part_rows :: "codex_env \<Rightarrow> opencode_source \<Rightarrow> string \<Rightarrow> (string \<times> json) list" where
  "part_rows env src session_id =
     (let parse = (\<lambda>d. unwrap_or (ce_parse_json env d) JNull);
          data_of = (\<lambda>p. case find (\<lambda>m. ms_id m = pa_message_id p) (unwrap_or (sr_messages src) []) of None \<Rightarrow> ''{}'' | Some m \<Rightarrow> ms_data m)
      in map (\<lambda>p. (unwrap_or (str_field (parse (data_of p)) ''role'') [], parse (pa_data p)))
           (filter (\<lambda>p. pa_session_id p = session_id) (unwrap_or (sr_parts src) [])))"

definition read_session_context :: "codex_env \<Rightarrow> opencode_source \<Rightarrow> string \<Rightarrow> OpencodeContext" where
  "read_session_context env src session_id =
     (let messages = map ms_data (filter (\<lambda>m. ms_session_id m = session_id) (unwrap_or (sr_messages src) []));
          c = foldl (take_message env) no_context messages
      in if sr_parts src = None then c
         else foldl (take_part (xe_redact (ce_extract env)) (oc_token_count c = 0)) c (part_rows env src session_id))"

subsection \<open>Texts\<close>

definition opencode_summary_text :: "OpencodeSession \<Rightarrow> string" where
  "opencode_summary_text s =
     (let c = os_context s;
          adds = unwrap_or (os_summary_additions s) 0; dels = unwrap_or (os_summary_deletions s) 0; files = unwrap_or (os_summary_files s) 0;
          shown = (\<lambda>name x. case x of Some v \<Rightarrow> if v = [] then [] else [name @ v] | None \<Rightarrow> [])
      in join nl
        ([''Opencode session (project: '' @ os_directory s @ '', slug: '' @ os_slug s @ '')'']
         @ (if os_title s = [] then [] else [''Title: '' @ os_title s])
         @ shown ''Agent: '' (os_agent s) @ shown ''Model: '' (os_model s)
         @ (if adds > 0 \<or> dels > 0 \<or> files > 0
            then [''Snapshot diffs: +'' @ int_str adds @ ''/-'' @ int_str dels @ '' lines, '' @ int_str files @ '' files''] else [])
         @ (if oc_user_prompts c = [] then []
            else ''User requests:'' # map (\<lambda>(i, p). ''  '' @ nat_str (i + 1) @ ''. '' @ [CHR 0x22] @ p @ [CHR 0x22]) (enumerate 0 (take 20 (oc_user_prompts c))))
         @ (if oc_tool_calls c = [] then [] else ''Work performed:'' # map (\<lambda>t. ''  - '' @ t) (take 40 (oc_tool_calls c)))
         @ (if oc_files_touched c = [] then [] else ''Files touched:'' # map (\<lambda>p. ''  - '' @ p) (take 40 (oc_files_touched c)))
         @ (if oc_assistant_texts c = [] then []
            else ''Assistant excerpts:'' # map (\<lambda>t. ''  - '' @ [CHR 0x22] @ t @ [CHR 0x22]) (take 10 (oc_assistant_texts c)))))"

text \<open>\<open>i64::to_le_bytes\<close>.\<close>

definition i64_bytes :: "int \<Rightarrow> string" where
  "i64_bytes n = le_bytes 8 (nat (n mod 2 ^ 64))"

definition opencode_content_hash :: "hash_env \<Rightarrow> OpencodeSession \<Rightarrow> string" where
  "opencode_content_hash h s = (let c = os_context s in
     he_hash h (he_prompts h (oc_tool_calls c) @ ''|'' @ he_prompts h (oc_user_prompts c) @ ''|'' @ join nl (oc_assistant_texts c) @ ''|''
       @ i64_bytes (unwrap_or (os_summary_additions s) 0) @ i64_bytes (unwrap_or (os_summary_deletions s) 0)
       @ i64_bytes (unwrap_or (os_summary_files s) 0) @ ''|'' @ unwrap_or (os_summary_diffs s) [] @ ''|'' @ he_prompts h (oc_files_touched c)))"

fun redact_json :: "(string \<Rightarrow> string) \<Rightarrow> json \<Rightarrow> json" where
  "redact_json redact (JStr s) = JStr (redact s)"
| "redact_json redact (JArr vs) = JArr (map (redact_json redact) vs)"
| "redact_json redact (JObj ms) = JObj (map (\<lambda>m. (fst m, redact_json redact (snd m))) ms)"
| "redact_json redact v = v"

definition redact_session_metadata :: "codex_env \<Rightarrow> OpencodeSession \<Rightarrow> OpencodeSession" where
  "redact_session_metadata env s = (let redact = xe_redact (ce_extract env) in
     s\<lparr>os_title := redact (os_title s), os_slug := redact (os_slug s),
       os_summary_diffs := map_option (\<lambda>raw. xe_print (ce_extract env)
         (redact_json redact (unwrap_or (ce_parse_json env raw) (JStr raw)))) (os_summary_diffs s)\<rparr>)"

end
