(* ===== verification/OpencodeStore.thy ===== *)
theory OpencodeStore
  imports OpencodeSession
begin

text \<open>
  Storing OpenCode sessions and the poll (\<open>opencode_session.rs\<close>). A session is one row of \<open>agentic_sessions\<close>, with segment index 0, and its
  stored end time is its watermark. The columns that only this importer writes are kept beside the rows of the store, by row id.
\<close>

record opencode_columns =
  ol_agent :: string
  ol_slug :: string
  ol_snapshot_diffs :: string
  ol_commit_messages :: string

record opencode_db =
  od_store :: claude_db
  od_columns :: "int \<rightharpoonup> opencode_columns"

subsection \<open>What is stored\<close>

definition read_known_end_times :: "claude_db \<Rightarrow> string \<Rightarrow> int option" where
  "read_known_end_times db = map_of (rev (map (\<lambda>r. (as_session_id r, as_end_time r)) (filter (\<lambda>r. as_harness r = ''opencode'') (cd_sessions db))))"

definition read_processing_ids :: "claude_db \<Rightarrow> string set" where
  "read_processing_ids db = set (map as_session_id (filter (\<lambda>r. as_harness r = ''opencode''
     \<and> queue_status (as_id r) (cd_queue db) = Some ''processing'') (cd_sessions db)))"

subsection \<open>The upsert\<close>

definition opencode_key :: "OpencodeSession \<Rightarrow> string \<times> string \<times> int" where
  "opencode_key s = (os_id s, ''opencode'', 0)"

definition opencode_insert_row :: "store_env \<Rightarrow> OpencodeSession \<Rightarrow> int \<Rightarrow> agentic_session" where
  "opencode_insert_row env s row_id =
     \<lparr>as_id = row_id, as_session_id = os_id s, as_harness = ''opencode'', as_segment_index = 0,
      as_project_dir = os_directory s, as_cwd = os_directory s, as_git_branch = None, as_title = os_title s,
      as_parent_session_id = os_parent_id s, as_is_subagent = False,
      as_summary_text = opencode_summary_text s, as_tool_calls = [], as_user_prompts = [],
      as_source_file = [], as_message_count = oc_message_count (os_context s), as_token_count = oc_token_count (os_context s),
      as_start_time = os_time_created s, as_end_time = os_time_updated s,
      as_content_hash = Some (opencode_content_hash (se_hash env) s), as_last_enriched_content_hash = None,
      as_created_at = se_now_ms env, as_model = unwrap_or (os_model s) [], as_requested_model = None, as_effort = None, as_totals = no_usage,
      as_subagent = no_subagent, as_hooks = no_hooks, as_probe_tag = None\<rparr>"

definition opencode_update_row :: "store_env \<Rightarrow> OpencodeSession \<Rightarrow> agentic_session \<Rightarrow> agentic_session" where
  "opencode_update_row env s r =
     r\<lparr>as_model := unwrap_or (os_model s) [], as_title := os_title s, as_summary_text := opencode_summary_text s,
       as_message_count := oc_message_count (os_context s), as_token_count := oc_token_count (os_context s),
       as_end_time := os_time_updated s, as_content_hash := Some (opencode_content_hash (se_hash env) s)\<rparr>"

definition opencode_columns_of :: "OpencodeSession \<Rightarrow> opencode_columns" where
  "opencode_columns_of s = \<lparr>ol_agent = unwrap_or (os_agent s) [], ol_slug = os_slug s,
     ol_snapshot_diffs = unwrap_or (os_summary_diffs s) ''null'', ol_commit_messages = ''[]''\<rparr>"

text \<open>
  One transaction: the row, its queue entry and the health row. A statement that fails, or a missing health table, leaves the database as it was.
\<close>

definition opencode_upsert :: "store_env \<Rightarrow> string option \<Rightarrow> OpencodeSession \<Rightarrow> opencode_db \<Rightarrow> string + opencode_db" where
  "opencode_upsert env fault s db = (case fault of
     Some e \<Rightarrow> Inl e
   | None \<Rightarrow> if cd_health (od_store db) = None then Inl ''no such table: source_health''
     else let st = agent_upsert (opencode_key s) (opencode_insert_row env s) (opencode_update_row env s)
            (opencode_content_hash (se_hash env) s) (se_now_ms env) (od_store db);
              row_id = (case find_row (opencode_key s) (cd_sessions st) of None \<Rightarrow> 0 | Some r \<Rightarrow> as_id r)
     in Inr (db\<lparr>od_store := source_ok ''agentic-session-opencode'' None (se_now_ms env) (os_time_updated s) st,
                od_columns := (od_columns db)(row_id \<mapsto> opencode_columns_of s)\<rparr>))"

subsection \<open>The poll\<close>

text \<open>
  What can fail in a tick: opening either database, the queries before the loop, the context queries and the transaction of each session,
  and the update of the health row after a failed one.
\<close>

record opencode_faults =
  of_source_open :: bool
  of_store_open :: bool
  of_queries :: "string option"
  of_context :: "string \<Rightarrow> string option"
  of_upsert :: "string \<Rightarrow> string option"
  of_health :: "string \<Rightarrow> string option"

definition load_session :: "codex_env \<Rightarrow> opencode_source \<Rightarrow> opencode_faults \<Rightarrow> OpencodeSession \<Rightarrow> OpencodeSession" where
  "load_session cenv src fs s = (let s' = redact_session_metadata cenv s in
     case of_context fs (os_id s) of
       None \<Rightarrow> s'\<lparr>os_context := read_session_context cenv src (os_id s)\<rparr>
     | Some _ \<Rightarrow> s')"

definition poll_session :: "store_env \<Rightarrow> opencode_faults \<Rightarrow> opencode_db \<times> nat \<Rightarrow> OpencodeSession \<Rightarrow> opencode_db \<times> nat" where
  "poll_session env fs x s = (case x of (db, n) \<Rightarrow> (case opencode_upsert env (of_upsert fs (os_id s)) s db of
     Inr db' \<Rightarrow> (db', n + 1)
   | Inl e \<Rightarrow> (db\<lparr>od_store := source_error ''agentic-session-opencode'' (of_health fs (os_id s)) (se_now_ms env) e (od_store db)\<rparr>, n)))"

definition sessions_to_store :: "codex_env \<Rightarrow> opencode_source \<Rightarrow> opencode_faults \<Rightarrow> opencode_db \<Rightarrow> OpencodeSession list" where
  "sessions_to_store cenv src fs db = map (load_session cenv src fs)
     (filter (\<lambda>s. os_id s \<notin> read_processing_ids (od_store db)) (read_new_sessions src (read_known_end_times (od_store db))))"

definition opencode_poll_tick ::
  "bool \<Rightarrow> codex_env \<Rightarrow> store_env \<Rightarrow> opencode_faults \<Rightarrow> opencode_source option \<Rightarrow> opencode_db \<Rightarrow> (string + nat) \<times> opencode_db" where
  "opencode_poll_tick enabled cenv env fs source db =
     (if \<not> enabled then (Inr 0, db)
      else case source of None \<Rightarrow> (Inr 0, db)
      | Some src \<Rightarrow>
          (if of_source_open fs \<or> of_store_open fs then (Inr 0, db)
           else case of_queries fs of Some e \<Rightarrow> (Inl e, db)
           | None \<Rightarrow> (case foldl (poll_session env fs) (db, 0) (sessions_to_store cenv src fs db) of (db', n) \<Rightarrow> (Inr n, db'))))"

subsection \<open>Rows and watermarks\<close>

interpretation opencode_rows: segment_rows opencode_key "opencode_insert_row env" "opencode_update_row env" "opencode_content_hash (se_hash env)"
    "se_now_ms env" for env
  by unfold_locales (simp_all add: opencode_insert_row_def opencode_update_row_def opencode_key_def row_key_def)

text \<open>The rows of the importer are rows with segment index 0.\<close>

definition opencode_inv :: "opencode_db \<Rightarrow> bool" where
  "opencode_inv db \<longleftrightarrow> store_inv (od_store db)
     \<and> list_all (\<lambda>r. as_harness r = ''opencode'' \<longrightarrow> as_segment_index r = 0) (cd_sessions (od_store db))"

abbreviation opencode_row :: "opencode_db \<Rightarrow> OpencodeSession \<Rightarrow> agentic_session option" where
  "opencode_row db s \<equiv> find_row (opencode_key s) (cd_sessions (od_store db))"

lemma known_is_row:
  assumes "opencode_inv db"
  shows "read_known_end_times (od_store db) (os_id s) = map_option as_end_time (opencode_row db s)"
proof -
  let ?rows = "filter (\<lambda>r. as_harness r = ''opencode'') (cd_sessions (od_store db))"
  have idx: "as_segment_index r = 0" if "r \<in> set ?rows" for r using assms that by (simp add: opencode_inv_def list_all_iff)
  have keys: "distinct (map row_key ?rows)" using assms by (simp add: opencode_inv_def store_inv_def distinct_map_filter)
  have "inj_on (\<lambda>r. as_session_id r) (set ?rows)"
  proof (rule inj_onI)
    fix a b assume ab: "a \<in> set ?rows" "b \<in> set ?rows" "as_session_id a = as_session_id b"
    then have "row_key a = row_key b" using idx[OF ab(1)] idx[OF ab(2)] by (simp add: row_key_def)
    then show "a = b" using keys ab by (auto simp: distinct_map inj_on_def)
  qed
  then have d: "distinct (map as_session_id ?rows)" using keys by (simp add: distinct_map)
  let ?ps = "map (\<lambda>r. (as_session_id r, as_end_time r)) ?rows"
  have dm: "distinct (map fst (rev ?ps))" using d by (simp add: rev_map[symmetric] comp_def)
  show ?thesis
  proof (cases "opencode_row db s")
    case None
    have "os_id s \<notin> fst ` set ?ps"
    proof
      assume "os_id s \<in> fst ` set ?ps"
      then obtain r where r: "r \<in> set ?rows" "as_session_id r = os_id s" by auto
      then have "row_key r = opencode_key s" using idx[OF r(1)] by (simp add: row_key_def opencode_key_def)
      then show False using None r(1) by (force simp: find_row_None)
    qed
    then have "map_of (rev ?ps) (os_id s) = None" by (simp add: map_of_eq_None_iff)
    then show ?thesis using None by (simp add: read_known_end_times_def)
  next
    case (Some r)
    then have "r \<in> set (cd_sessions (od_store db))" "row_key r = opencode_key s" using find_row_Some by auto
    then have "(os_id s, as_end_time r) \<in> set (rev ?ps)" by (force simp: row_key_def opencode_key_def)
    then have "map_of (rev ?ps) (os_id s) = Some (as_end_time r)" using dm map_of_is_SomeI by fast
    then show ?thesis using Some by (simp add: read_known_end_times_def)
  qed
qed

lemma processing_is_row:
  assumes "opencode_inv db"
  shows "os_id s \<in> read_processing_ids (od_store db) \<longleftrightarrow>
    (\<exists>r. opencode_row db s = Some r \<and> queue_status (as_id r) (cd_queue (od_store db)) = Some ''processing'')"
proof
  assume "os_id s \<in> read_processing_ids (od_store db)"
  then obtain r where r: "r \<in> set (cd_sessions (od_store db))" "as_harness r = ''opencode''" "as_session_id r = os_id s"
      "queue_status (as_id r) (cd_queue (od_store db)) = Some ''processing''"
    by (auto simp: read_processing_ids_def)
  then have "row_key r = opencode_key s" using assms by (simp add: opencode_inv_def list_all_iff row_key_def opencode_key_def)
  then have "opencode_row db s = Some r" using find_row_unique[OF _ r(1)] assms by (simp add: opencode_inv_def store_inv_def)
  then show "\<exists>r. opencode_row db s = Some r \<and> queue_status (as_id r) (cd_queue (od_store db)) = Some ''processing''" using r(4) by blast
next
  assume "\<exists>r. opencode_row db s = Some r \<and> queue_status (as_id r) (cd_queue (od_store db)) = Some ''processing''"
  then obtain r where r: "opencode_row db s = Some r" "queue_status (as_id r) (cd_queue (od_store db)) = Some ''processing''" by blast
  then have "r \<in> set (cd_sessions (od_store db))" "row_key r = opencode_key s" using find_row_Some by auto
  then show "os_id s \<in> read_processing_ids (od_store db)" using r(2) by (force simp: read_processing_ids_def row_key_def opencode_key_def)
qed

end
