(* ===== verification/OpencodeProperties.thy ===== *)
theory OpencodeProperties
  imports OpencodeStore CodexProperties
begin

text \<open>Properties of the OpenCode importer: what a tick does to the row of each session, and when content can be left behind.\<close>

subsection \<open>One session\<close>

lemma source_ok_same [simp]:
  "cd_sessions (source_ok src q now t db) = cd_sessions db" "cd_queue (source_ok src q now t db) = cd_queue db"
  "cd_sessions (source_error src q now e db) = cd_sessions db" "cd_queue (source_error src q now e db) = cd_queue db"
  by (simp_all add: source_ok_def source_error_def)

lemma health_present [simp]: "cd_health (map_source_health src q f db) = None \<longleftrightarrow> cd_health db = None"
  by (simp add: map_source_health_def split: option.split)

lemma upsert_result:
  assumes "opencode_upsert env fault s db = Inr db'"
  shows "cd_sessions (od_store db') = cd_sessions (opencode_rows.upsert env (od_store db) s)"
    "cd_queue (od_store db') = cd_queue (opencode_rows.upsert env (od_store db) s)" "cd_health (od_store db') \<noteq> None"
  using assms opencode_rows.upsert_frame(1)[where env = env and db = "od_store db" and seg = s]
  by (auto simp: opencode_upsert_def Let_def source_ok_def map_source_health_def split: option.splits if_splits)

lemma upsert_ok: "cd_health (od_store db) \<noteq> None \<Longrightarrow> \<exists>db'. opencode_upsert env None s db = Inr db'"
  by (simp add: opencode_upsert_def Let_def)

text \<open>The sessions and the queue after a step are those of an upsert, or as they were.\<close>

lemma poll_session_cases:
  obtains (stored) "cd_sessions (od_store (fst (poll_session env fs x s))) = cd_sessions (opencode_rows.upsert env (od_store (fst x)) s)"
      "cd_queue (od_store (fst (poll_session env fs x s))) = cd_queue (opencode_rows.upsert env (od_store (fst x)) s)"
    | (failed) "cd_sessions (od_store (fst (poll_session env fs x s))) = cd_sessions (od_store (fst x))"
      "cd_queue (od_store (fst (poll_session env fs x s))) = cd_queue (od_store (fst x))"
      "of_upsert fs (os_id s) \<noteq> None \<or> cd_health (od_store (fst x)) = None"
proof (cases "opencode_upsert env (of_upsert fs (os_id s)) s (fst x)")
  case (Inl e)
  then have "of_upsert fs (os_id s) \<noteq> None \<or> cd_health (od_store (fst x)) = None"
    using upsert_ok[of "fst x" env s] by (cases "of_upsert fs (os_id s)"; cases "cd_health (od_store (fst x)) = None") auto
  then show thesis using failed Inl by (cases x) (simp add: poll_session_def)
next
  case (Inr db')
  then show thesis using stored upsert_result[OF Inr] by (cases x) (simp add: poll_session_def)
qed

lemma opencode_inv_cong:
  "cd_sessions (od_store a) = cd_sessions (od_store b) \<Longrightarrow> cd_queue (od_store a) = cd_queue (od_store b) \<Longrightarrow> opencode_inv a = opencode_inv b"
  using store_inv_cong[of "od_store a" "od_store b"] by (simp add: opencode_inv_def)

lemma upsert_index:
  assumes "list_all (\<lambda>r. as_harness r = ''opencode'' \<longrightarrow> as_segment_index r = 0) (cd_sessions st)"
  shows "list_all (\<lambda>r. as_harness r = ''opencode'' \<longrightarrow> as_segment_index r = 0) (cd_sessions (opencode_rows.upsert env st s))"
  using assms unfolding opencode_rows.upsert_sessions put_row_def
  by (auto simp: list_all_iff opencode_insert_row_def opencode_update_row_def split: option.split)

lemma poll_session_inv: "opencode_inv (fst x) \<Longrightarrow> opencode_inv (fst (poll_session env fs x s))"
proof (cases rule: poll_session_cases[of env fs x s])
  case stored
  assume i: "opencode_inv (fst x)"
  have "store_inv (od_store (fst (poll_session env fs x s)))"
    using opencode_rows.upsert_inv[where env = env and db = "od_store (fst x)" and seg = s] store_inv_cong[OF stored] i by (simp add: opencode_inv_def)
  then show ?thesis using i upsert_index[where st = "od_store (fst x)" and env = env and s = s] by (simp add: opencode_inv_def stored(1))
next
  case failed
  then show "opencode_inv (fst x) \<Longrightarrow> ?thesis" using opencode_inv_cong[OF failed(1,2)] by simp
qed

lemma poll_session_health: "cd_health (od_store (fst (poll_session env fs x s))) = None \<longleftrightarrow> cd_health (od_store (fst x)) = None"
proof (cases "opencode_upsert env (of_upsert fs (os_id s)) s (fst x)")
  case (Inl e)
  then show ?thesis by (cases x) (simp add: poll_session_def source_error_def)
next
  case (Inr db')
  moreover have "cd_health (od_store (fst x)) \<noteq> None" using Inr by (auto simp: opencode_upsert_def split: option.splits if_splits)
  moreover have "cd_health (od_store db') \<noteq> None" by (rule upsert_result(3)[OF Inr])
  ultimately show ?thesis by (cases x) (auto simp: poll_session_def)
qed

text \<open>What the store says of a session: its row and the state of its queue entry.\<close>

definition stored_state :: "opencode_db \<Rightarrow> OpencodeSession \<Rightarrow> (agentic_session \<times> string option) option" where
  "stored_state db s = map_option (\<lambda>r. (r, queue_status (as_id r) (cd_queue (od_store db)))) (opencode_row db s)"

lemma poll_session_other:
  assumes "opencode_inv (fst x)" "os_id t \<noteq> os_id s"
  shows "stored_state (fst (poll_session env fs x t)) s = stored_state (fst x) s"
proof (cases rule: poll_session_cases[of env fs x t])
  case stored
  have k: "opencode_key s \<noteq> opencode_key t" using assms(2) by (simp add: opencode_key_def)
  show ?thesis
  proof (cases "opencode_row (fst x) s")
    case None
    then have "opencode_row (fst (poll_session env fs x t)) s = None" using k by (simp add: stored(1) opencode_rows.find_upsert)
    then show ?thesis using None by (simp add: stored_state_def)
  next
    case (Some r)
    then show ?thesis using opencode_rows.upsert_other[OF _ Some k, where env = env] assms(1) by (simp add: stored_state_def stored opencode_inv_def)
  qed
next
  case failed
  then show ?thesis by (simp add: stored_state_def)
qed

text \<open>The session is being enriched; and its content is stored and waits in the queue or was enriched.\<close>

definition claimed :: "opencode_db \<Rightarrow> OpencodeSession \<Rightarrow> bool" where
  "claimed db s \<longleftrightarrow> (\<exists>r. stored_state db s = Some (r, Some ''processing''))"

definition opencode_fresh :: "store_env \<Rightarrow> OpencodeSession \<Rightarrow> opencode_db \<Rightarrow> bool" where
  "opencode_fresh env q db \<longleftrightarrow> (\<exists>r status. stored_state db q = Some (r, status) \<and> opencode_update_row env q r = r
     \<and> (status = Some ''pending'' \<or> as_last_enriched_content_hash r = as_content_hash r))"

lemma fresh_settled: "opencode_fresh env q db \<Longrightarrow> row_settled (opencode_key q) (opencode_update_row env q) (od_store db)"
proof -
  assume "opencode_fresh env q db"
  then obtain r where r: "opencode_row db q = Some r" "opencode_update_row env q r = r"
      "queue_status (as_id r) (cd_queue (od_store db)) = Some ''pending'' \<or> as_last_enriched_content_hash r = as_content_hash r"
    by (auto simp: opencode_fresh_def stored_state_def)
  have "as_content_hash (opencode_update_row env q r) = Some (opencode_content_hash (se_hash env) q)" by (simp add: opencode_update_row_def)
  then show ?thesis using r by (auto simp: row_settled_def handled_def)
qed

lemma poll_session_settles:
  assumes "opencode_inv (fst x)" "of_upsert fs (os_id s) = None" "cd_health (od_store (fst x)) \<noteq> None" "\<not> claimed (fst x) s"
  shows "opencode_fresh env s (fst (poll_session env fs x s))"
proof (cases rule: poll_session_cases[of env fs x s])
  case stored
  let ?db = "fst (poll_session env fs x s)"
  have "row_settled (opencode_key s) (opencode_update_row env s) (od_store ?db)"
    using opencode_rows.upsert_settles[where env = env and db = "od_store (fst x)" and seg = s] row_settled_cong[OF stored] assms(1)
    by (simp add: opencode_inv_def)
  then obtain r where r: "opencode_row ?db s = Some r" "opencode_update_row env s r = r" "handled (od_store ?db) r" by (auto simp: row_settled_def)
  have "queue_status (as_id r) (cd_queue (od_store ?db)) \<noteq> Some ''processing''"
  proof (cases "opencode_row (fst x) s")
    case None
    let ?i = "next_row_id (cd_sessions (od_store (fst x)))"
    have "?i \<notin> set (map qr_session_id (cd_queue (od_store (fst x))))"
      using assms(1) next_row_id_fresh[of "cd_sessions (od_store (fst x))"] unfolding opencode_inv_def store_inv_def by blast
    then have "queue_status ?i (cd_queue (od_store (fst x))) = None" by (force simp: queue_status_def find_None_iff)
    moreover have "as_id r = ?i" using r(1) None opencode_rows.new_row(2) by (auto simp: stored(1) opencode_rows.find_upsert)
    ultimately show ?thesis using None by (simp add: stored(2) opencode_rows.upsert_queue queue_status_enqueue)
  next
    case (Some q)
    then have "as_id r = as_id q" using r(1) opencode_rows.update_row(2) by (auto simp: stored(1) opencode_rows.find_upsert)
    moreover have "queue_status (as_id q) (cd_queue (od_store (fst x))) \<noteq> Some ''processing''" using assms(4) Some by (simp add: claimed_def stored_state_def)
    ultimately show ?thesis using Some by (simp add: stored(2) opencode_rows.upsert_queue queue_status_enqueue)
  qed
  then show ?thesis using r by (auto simp: opencode_fresh_def stored_state_def handled_def)
qed (use assms(2,3) in simp_all)

lemma settled_by_state:
  assumes "stored_state a s = stored_state b s"
  shows "row_settled (opencode_key s) u (od_store a) = row_settled (opencode_key s) u (od_store b)"
proof (cases "opencode_row a s")
  case None
  then show ?thesis using assms by (auto simp: stored_state_def row_settled_def)
next
  case (Some r)
  moreover obtain q where "opencode_row b s = Some q" using assms Some by (cases "opencode_row b s") (auto simp: stored_state_def)
  moreover have "r = q" "queue_status (as_id q) (cd_queue (od_store a)) = queue_status (as_id q) (cd_queue (od_store b))"
    using assms calculation by (auto simp: stored_state_def)
  ultimately show ?thesis by (simp add: row_settled_def handled_def)
qed

subsection \<open>A tick\<close>

interpretation opencode_run: invariant_run "poll_session env fs" "\<lambda>x. opencode_inv (fst x)" for env fs
  by unfold_locales (rule poll_session_inv)

lemma run_other:
  "opencode_inv (fst x) \<Longrightarrow> (\<And>t. t \<in> set ts \<Longrightarrow> os_id t \<noteq> os_id s) \<Longrightarrow> stored_state (fst (foldl (poll_session env fs) x ts)) s = stored_state (fst x) s"
  by (induction ts arbitrary: x) (simp_all add: poll_session_inv poll_session_other)

lemma run_health: "cd_health (od_store (fst (foldl (poll_session env fs) x ts))) = None \<longleftrightarrow> cd_health (od_store (fst x)) = None"
  by (induction ts arbitrary: x) (simp_all add: poll_session_health)

lemma run_in:
  assumes "opencode_inv (fst x)" "distinct (map os_id ts)" "s \<in> set ts" "\<not> claimed (fst x) s"
  shows "(if of_upsert fs (os_id s) = None \<and> cd_health (od_store (fst x)) \<noteq> None
      then opencode_fresh env s (fst (foldl (poll_session env fs) x ts))
      else stored_state (fst (foldl (poll_session env fs) x ts)) s = stored_state (fst x) s)"
proof -
  obtain pre post where ts: "ts = pre @ s # post" using assms(3) by (meson split_list)
  have d: "os_id t \<noteq> os_id s" if "t \<in> set pre \<or> t \<in> set post" for t
  proof -
    have "os_id s \<notin> os_id ` set pre" "os_id s \<notin> os_id ` set post" using assms(2) by (simp_all add: ts)
    then show ?thesis using that by (metis imageI)
  qed
  define y where "y = foldl (poll_session env fs) x pre"
  define z where "z = poll_session env fs y s"
  have iy: "opencode_inv (fst y)" unfolding y_def by (rule opencode_run.run_inv[OF assms(1)])
  then have iz: "opencode_inv (fst z)" unfolding z_def by (rule poll_session_inv)
  have y: "stored_state (fst y) s = stored_state (fst x) s" unfolding y_def using d by (intro run_other assms(1)) blast
  have w: "stored_state (fst (foldl (poll_session env fs) x ts)) s = stored_state (fst z) s"
    using run_other[OF iz, of post s env fs] d by (simp add: ts y_def z_def)
  have hy: "cd_health (od_store (fst y)) = None \<longleftrightarrow> cd_health (od_store (fst x)) = None" by (simp add: y_def run_health)
  show ?thesis
  proof (cases "of_upsert fs (os_id s) = None \<and> cd_health (od_store (fst x)) \<noteq> None")
    case True
    then have "opencode_fresh env s (fst z)"
      unfolding z_def using iy hy y assms(4) by (intro poll_session_settles) (simp_all add: claimed_def)
    then show ?thesis using True w by (simp add: opencode_fresh_def)
  next
    case False
    have "opencode_upsert env (of_upsert fs (os_id s)) s (fst y) \<noteq> Inr db'" for db'
      using False hy by (auto simp: opencode_upsert_def split: option.split)
    then have "stored_state (fst z) s = stored_state (fst y) s"
      unfolding z_def by (cases "opencode_upsert env (of_upsert fs (os_id s)) s (fst y)"; cases y) (auto simp: poll_session_def stored_state_def)
    then show ?thesis using False w y by auto
  qed
qed

lemma load_fixed [simp]: "os_id (load_session cenv src fs s) = os_id s" "os_time_updated (load_session cenv src fs s) = os_time_updated s"
  by (simp_all add: load_session_def redact_session_metadata_def Let_def split: option.split)

abbreviation bare :: "OpencodeSession \<Rightarrow> OpencodeSession" where
  "bare s \<equiv> s\<lparr>os_context := no_context\<rparr>"

lemma newer_bare [simp]: "opencode_newer known (bare s) = opencode_newer known s"
  by (simp add: opencode_newer_def split: option.split)

definition opencode_selected :: "opencode_db \<Rightarrow> OpencodeSession \<Rightarrow> bool" where
  "opencode_selected db s \<longleftrightarrow> opencode_newer (read_known_end_times (od_store db)) s \<and> os_id s \<notin> read_processing_ids (od_store db)"

lemma selected_free: "opencode_inv db \<Longrightarrow> opencode_selected db s \<Longrightarrow> \<not> claimed db s"
  by (auto simp: opencode_selected_def claimed_def stored_state_def processing_is_row)

lemma stored_sessions: "set (sessions_to_store cenv src fs db) = (\<lambda>s. load_session cenv src fs (bare s)) ` {s \<in> set (sr_sessions src). opencode_selected db s}"
  by (force simp: sessions_to_store_def read_new_sessions_def opencode_selected_def)

lemma stored_sessions_distinct:
  assumes "distinct (map os_id (sr_sessions src))"
  shows "distinct (map os_id (sessions_to_store cenv src fs db))"
proof -
  let ?l = "sort_key os_time_updated (sort_key os_id (sr_sessions src))"
  have "distinct (map os_id ?l)" using assms by (simp add: distinct_map)
  then have "distinct (map os_id (map bare ?l))" by (simp add: comp_def)
  then have "distinct (map os_id (filter P (filter Q (map bare ?l))))" for P Q by (intro distinct_map_filter)
  then show ?thesis by (simp add: sessions_to_store_def read_new_sessions_def comp_def)
qed

text \<open>
  The tick, when it gets to the loop: a selected session whose transaction does not fail is settled, every other session is as it was.
\<close>

lemma tick_fate:
  assumes "opencode_inv db" "distinct (map os_id (sr_sessions src))" "s \<in> set (sr_sessions src)"
  shows "(if opencode_selected db s \<and> of_upsert fs (os_id s) = None \<and> cd_health (od_store db) \<noteq> None
      then opencode_fresh env (load_session cenv src fs (bare s)) (fst (foldl (poll_session env fs) (db, 0) (sessions_to_store cenv src fs db)))
      else stored_state (fst (foldl (poll_session env fs) (db, 0) (sessions_to_store cenv src fs db))) s = stored_state db s)"
proof (cases "opencode_selected db s")
  case True
  let ?t = "load_session cenv src fs (bare s)"
  have "?t \<in> set (sessions_to_store cenv src fs db)" using True assms(3) by (auto simp: stored_sessions)
  moreover have "opencode_key ?t = opencode_key s" "stored_state x ?t = stored_state x s" for x
    by (simp_all add: opencode_key_def stored_state_def)
  ultimately show ?thesis
    using run_in[where x = "(db, 0)" and ts = "sessions_to_store cenv src fs db" and s = ?t and fs = fs and env = env]
      stored_sessions_distinct[OF assms(2), of cenv fs db] assms(1) True selected_free[OF assms(1) True] by (auto simp: claimed_def split: if_splits)
next
  case False
  have "os_id t \<noteq> os_id s" if t: "t \<in> set (sessions_to_store cenv src fs db)" for t
  proof
    assume "os_id t = os_id s"
    then obtain q where "q \<in> set (sr_sessions src)" "opencode_selected db q" "os_id q = os_id s" using t by (auto simp: stored_sessions)
    then have "q = s" using assms(2,3) by (auto simp: distinct_map inj_on_def)
    then show False using False \<open>opencode_selected db q\<close> by simp
  qed
  then show ?thesis using run_other[of "(db, 0)"] assms(1) False by simp
qed

lemma loaded_state [simp]: "stored_state db (load_session cenv src fs q) = stored_state db q"
  by (simp add: stored_state_def opencode_key_def)

lemma bare_state [simp]: "stored_state db (bare s) = stored_state db s"
  by (simp add: stored_state_def opencode_key_def)

lemma settled_watermark:
  assumes "opencode_fresh env q db" "opencode_key q = opencode_key s" "os_time_updated q = os_time_updated s" "opencode_inv db"
  shows "\<not> opencode_newer (read_known_end_times (od_store db)) s"
proof -
  obtain r where r: "opencode_row db s = Some r" "opencode_update_row env q r = r" using assms(1,2) by (auto simp: opencode_fresh_def stored_state_def)
  have "as_end_time (opencode_update_row env q r) = os_time_updated q" by (simp add: opencode_update_row_def)
  then show ?thesis using r assms(3) known_is_row[OF assms(4), of s] by (simp add: opencode_newer_def)
qed

lemma tick_inv: "opencode_inv db \<Longrightarrow> opencode_inv (snd (opencode_poll_tick enabled cenv env fs source db))"
  using opencode_run.run_inv[of "(db, 0)"] by (auto simp: opencode_poll_tick_def split: option.split prod.split) (metis fst_conv)

text \<open>The state of a session after a tick is the state before it, or the session was selected and is settled.\<close>

lemma tick_cases:
  assumes "opencode_inv db" "distinct (map os_id (sr_sessions src))" "s \<in> set (sr_sessions src)"
  shows "stored_state (snd (opencode_poll_tick enabled cenv env fs (Some src) db)) s = stored_state db s
    \<or> opencode_selected db s \<and> of_upsert fs (os_id s) = None
      \<and> opencode_fresh env (load_session cenv src fs (bare s)) (snd (opencode_poll_tick enabled cenv env fs (Some src) db))"
  using tick_fate[OF assms, of fs env cenv] by (auto simp: opencode_poll_tick_def split: option.split prod.split if_splits)

lemma newer_by_state:
  "opencode_inv a \<Longrightarrow> opencode_inv b \<Longrightarrow> stored_state a s = stored_state b s
    \<Longrightarrow> opencode_newer (read_known_end_times (od_store a)) s = opencode_newer (read_known_end_times (od_store b)) s"
  by (cases "opencode_row a s"; cases "opencode_row b s") (auto simp: opencode_newer_def known_is_row stored_state_def)

lemma selected_by_row:
  "opencode_inv db \<Longrightarrow> opencode_selected db s \<longleftrightarrow>
    (case opencode_row db s of None \<Rightarrow> True | Some r \<Rightarrow> as_end_time r < os_time_updated s) \<and> \<not> claimed db s"
  by (cases "opencode_row db s") (auto simp: opencode_selected_def opencode_newer_def known_is_row processing_is_row claimed_def stored_state_def)

text \<open>
  C25 (opencode_poll_covers): a tick of the OpenCode poll stores every session that is new or was updated since it was stored and is not being
  enriched: its row has the current content, which is pending or was enriched, although the
  transactions of other sessions may fail. A session that is being enriched or has not changed keeps its row and its queue entry.
\<close>

theorem opencode_poll_covers:
  assumes "opencode_inv db" "distinct (map os_id (sr_sessions src))" "s \<in> set (sr_sessions src)"
    and "\<not> of_source_open fs" "\<not> of_store_open fs" "of_queries fs = None" "cd_health (od_store db) \<noteq> None"
  shows "case opencode_poll_tick True cenv env fs (Some src) db of
      (Inl e, db') \<Rightarrow> False
    | (Inr n, db') \<Rightarrow> opencode_inv db' \<and>
        (if (case opencode_row db s of None \<Rightarrow> True | Some r \<Rightarrow> as_end_time r < os_time_updated s) \<and> \<not> claimed db s \<and> of_upsert fs (os_id s) = None
         then opencode_fresh env (load_session cenv src fs (bare s)) db'
         else stored_state db' s = stored_state db s)"
proof -
  let ?x = "foldl (poll_session env fs) (db, 0) (sessions_to_store cenv src fs db)"
  have tick: "opencode_poll_tick True cenv env fs (Some src) db = (Inr (snd ?x), fst ?x)"
    using assms(4-6) by (simp add: opencode_poll_tick_def split: prod.split)
  have i: "opencode_inv (fst ?x)" using opencode_run.run_inv[of "(db, 0)"] assms(1) by simp
  show ?thesis
    using tick_fate[OF assms(1-3), of fs env cenv] assms(7) i selected_by_row[OF assms(1), of s] by (auto simp: tick split: if_splits)
qed

text \<open>
  C24 (opencode_never_strands): whatever fails in a tick but the queries of a session's messages and parts, the session is not left behind: if
  before the tick it was due to be read again or stored with its content, so it is after it; and a row that the tick changed has content that
  is pending or was enriched. In particular a session whose transaction failed, or that is being enriched, is read again.
\<close>

theorem opencode_never_strands:
  assumes "opencode_inv db" "distinct (map os_id (sr_sessions src))" "s \<in> set (sr_sessions src)" "of_context fs (os_id s) = None"
    and "content = (redact_session_metadata cenv s)\<lparr>os_context := read_session_context cenv src (os_id s)\<rparr>"
    and "opencode_newer (read_known_end_times (od_store db)) s \<or> row_settled (opencode_key s) (opencode_update_row env content) (od_store db)"
    and "db' = snd (opencode_poll_tick enabled cenv env fs (Some src) db)"
  shows "(opencode_newer (read_known_end_times (od_store db')) s \<or> row_settled (opencode_key s) (opencode_update_row env content) (od_store db'))
    \<and> (stored_state db' s = stored_state db s \<or> opencode_fresh env content db')"
proof -
  have c: "load_session cenv src fs (bare s) = content"
    using assms(4) by (simp add: assms(5) load_session_def redact_session_metadata_def Let_def)
  have key: "opencode_key content = opencode_key s" by (simp add: assms(5) redact_session_metadata_def opencode_key_def Let_def)
  have i: "opencode_inv db'" unfolding assms(7) by (rule tick_inv[OF assms(1)])
  from tick_cases[OF assms(1-3), of enabled cenv env fs] show ?thesis
    using newer_by_state[OF i assms(1)] settled_by_state[of db' s db] assms(6) fresh_settled[of env content db'] key by (auto simp: c assms(7))
qed

text \<open>
  C26 (opencode_context_lost): when the messages or parts of a selected session cannot be read, the tick stores the session without them, and
  its watermark is the time of the update: the session is not read again until OpenCode changes it, and no later tick on the same
  source repairs its row.
\<close>

theorem opencode_context_lost:
  assumes "opencode_inv db" "distinct (map os_id (sr_sessions src))" "s \<in> set (sr_sessions src)" "of_context fs (os_id s) = Some e"
    and "\<not> of_source_open fs" "\<not> of_store_open fs" "of_queries fs = None" "cd_health (od_store db) \<noteq> None"
    and "opencode_newer (read_known_end_times (od_store db)) s" "os_id s \<notin> read_processing_ids (od_store db)" "of_upsert fs (os_id s) = None"
    and "db' = snd (opencode_poll_tick True cenv env fs (Some src) db)"
  shows "\<exists>r. opencode_row db' s = Some r \<and> as_message_count r = 0
    \<and> as_summary_text r = opencode_summary_text (redact_session_metadata cenv (s\<lparr>os_context := no_context\<rparr>))
    \<and> opencode_row (snd (opencode_poll_tick enabled cenv' env' fs' (Some src) db')) s = Some r"
proof -
  let ?q = "load_session cenv src fs (bare s)"
  have q: "?q = redact_session_metadata cenv (s\<lparr>os_context := no_context\<rparr>)" using assms(4) by (simp add: load_session_def Let_def)
  have i: "opencode_inv db'" unfolding assms(12) by (rule tick_inv[OF assms(1)])
  have f: "opencode_fresh env ?q db'"
    using tick_fate[OF assms(1-3), of fs env cenv] assms(5-12) by (auto simp: opencode_poll_tick_def opencode_selected_def split: prod.split)
  then have n: "\<not> opencode_newer (read_known_end_times (od_store db')) s" by (rule settled_watermark) (simp_all add: i opencode_key_def)
  obtain r where r: "opencode_row db' s = Some r" "opencode_update_row env ?q r = r"
    using f by (auto simp: opencode_fresh_def stored_state_def opencode_key_def)
  have "os_context ?q = no_context" by (simp add: q redact_session_metadata_def Let_def)
  then have "as_message_count (opencode_update_row env ?q r) = 0" "as_summary_text (opencode_update_row env ?q r) = opencode_summary_text ?q"
    by (simp_all add: opencode_update_row_def) (simp add: no_context_def)
  moreover have "stored_state (snd (opencode_poll_tick enabled cenv' env' fs' (Some src) db')) s = stored_state db' s"
    using tick_cases[OF i assms(2,3), of enabled cenv' env' fs'] n by (auto simp: opencode_selected_def)
  then have "opencode_row (snd (opencode_poll_tick enabled cenv' env' fs' (Some src) db')) s = opencode_row db' s"
    by (cases "opencode_row db' s"; cases "opencode_row (snd (opencode_poll_tick enabled cenv' env' fs' (Some src) db')) s") (auto simp: stored_state_def)
  ultimately show ?thesis using r q by auto
qed

subsection \<open>Redaction\<close>

text \<open>Every string inside a value.\<close>

fun strings_of :: "json \<Rightarrow> string list" where
  "strings_of (JStr s) = [s]"
| "strings_of (JArr vs) = concat (map strings_of vs)"
| "strings_of (JObj ms) = concat (map (\<lambda>m. strings_of (snd m)) ms)"
| "strings_of _ = []"

lemma redact_json_strings: "strings_of (redact_json redact v) = map redact (strings_of v)"
  by (induction v rule: strings_of.induct) (simp_all add: map_concat comp_def cong: map_cong)

text \<open>What the redaction leaves of a context: prompts and texts are redacted as a whole, a tool call behind the name of the tool.\<close>

definition context_redacted :: "(string \<Rightarrow> string) \<Rightarrow> OpencodeContext \<Rightarrow> bool" where
  "context_redacted redact c \<longleftrightarrow> set (oc_user_prompts c) \<subseteq> range redact \<and> set (oc_assistant_texts c) \<subseteq> range redact
     \<and> set (oc_tool_calls c) \<subseteq> {tool @ '': '' @ redact x | tool x. True}"

lemma push_redacted_range: "set xs \<subseteq> range redact \<Longrightarrow> set (push_redacted redact xs t n) \<subseteq> range redact"
  by (auto simp: push_redacted_def Let_def)

lemma summary_redacted: "\<exists>x. summarize_tool redact tool part = redact x"
  by (auto simp: summarize_tool_def Let_def)

lemma context_prompts: "context_redacted redact c \<Longrightarrow> context_redacted redact (c\<lparr>oc_user_prompts := push_redacted redact (oc_user_prompts c) t n\<rparr>)"
  by (simp add: context_redacted_def push_redacted_range)

lemma context_texts: "context_redacted redact c \<Longrightarrow> context_redacted redact (c\<lparr>oc_assistant_texts := push_redacted redact (oc_assistant_texts c) t n\<rparr>)"
  by (simp add: context_redacted_def push_redacted_range)

lemma context_calls:
  "context_redacted redact c \<Longrightarrow> context_redacted redact (c\<lparr>oc_tool_calls := push_new (oc_tool_calls c) (tool @ '': '' @ summarize_tool redact tool part)\<rparr>)"
  using summary_redacted[of redact tool part] by (auto simp: context_redacted_def push_new_def)

lemma context_rest [simp]:
  "context_redacted redact (c\<lparr>oc_files_touched := fs\<rparr>) = context_redacted redact c"
  "context_redacted redact (c\<lparr>oc_token_count := n\<rparr>) = context_redacted redact c"
  by (simp_all add: context_redacted_def)

lemma take_part_redacted: "context_redacted redact c \<Longrightarrow> context_redacted redact (take_part redact b c row)"
  by (cases row) (simp add: take_part_def Let_def context_prompts context_texts context_calls[simplified] split: option.split)

lemma take_message_redacted: "context_redacted redact c \<Longrightarrow> context_redacted redact (take_message env c d)"
  by (simp add: take_message_def context_redacted_def split: option.split)

interpretation part_run: invariant_run "take_part redact b" "context_redacted redact" for redact b
  by unfold_locales (rule take_part_redacted)

interpretation message_run: invariant_run "take_message env" "context_redacted redact" for env redact
  by unfold_locales (rule take_message_redacted)

text \<open>
  What a tick stores of a session was redacted: the title, the slug, every string of the diffs, each prompt and
  assistant text, and each tool call after the name of its tool.
\<close>

theorem opencode_redacted:
  "\<exists>diffs. let redact = xe_redact (ce_extract env); q = load_session env src fs (bare s) in
     os_title q = redact (os_title s) \<and> os_slug q = redact (os_slug s)
     \<and> os_summary_diffs q = map_option (xe_print (ce_extract env)) diffs
     \<and> (\<forall>v. diffs = Some v \<longrightarrow> set (strings_of v) \<subseteq> range redact)
     \<and> context_redacted redact (os_context q)"
proof -
  let ?redact = "xe_redact (ce_extract env)"
  let ?diffs = "map_option (\<lambda>raw. redact_json ?redact (unwrap_or (ce_parse_json env raw) (JStr raw))) (os_summary_diffs s)"
  have e: "context_redacted ?redact no_context" by (simp add: context_redacted_def no_context_def)
  have "context_redacted ?redact (read_session_context env src i)" for i
    using part_run.run_inv message_run.run_inv[OF e] by (simp add: read_session_context_def Let_def)
  then show ?thesis
    using e by (intro exI[of _ ?diffs])
      (auto simp: load_session_def redact_session_metadata_def redact_json_strings option.map_comp comp_def Let_def split: option.split)
qed

subsection \<open>A concrete source\<close>

definition opencode_example_session :: OpencodeSession where
  "opencode_example_session = \<lparr>os_id = ''s1'', os_slug = ''a'', os_title = ''t'', os_directory = ''/p'', os_parent_id = None, os_agent = None,
     os_model = None, os_time_created = 1, os_time_updated = 5, os_summary_additions = None, os_summary_deletions = None,
     os_summary_files = None, os_summary_diffs = None, os_context = no_context\<rparr>"

definition opencode_example_env :: codex_env where
  "opencode_example_env = codex_example_env\<lparr>ce_parse_json := (\<lambda>d. if d = ''m'' then Some (JObj [(''role'', JStr ''user'')])
     else if d = ''p'' then Some (JObj [(''type'', JStr ''text''), (''text'', JStr ''fix it'')]) else None)\<rparr>"

definition opencode_example_source :: opencode_source where
  "opencode_example_source = \<lparr>sr_sessions = [opencode_example_session],
     sr_messages = Some [\<lparr>ms_id = ''m1'', ms_session_id = ''s1'', ms_data = ''m''\<rparr>],
     sr_parts = Some [\<lparr>pa_message_id = ''m1'', pa_session_id = ''s1'', pa_data = ''p''\<rparr>]\<rparr>"

definition opencode_no_faults :: opencode_faults where
  "opencode_no_faults = \<lparr>of_source_open = False, of_store_open = False, of_queries = None, of_context = (\<lambda>_. None), of_upsert = (\<lambda>_. None),
     of_health = (\<lambda>_. None)\<rparr>"

definition opencode_example_db :: opencode_db where
  "opencode_example_db = \<lparr>od_store = codex_example_store\<lparr>cd_health := Some []\<rparr>, od_columns = (\<lambda>_. None)\<rparr>"

lemma opencode_example_state:
  "opencode_inv opencode_example_db" "distinct (map os_id (sr_sessions opencode_example_source))"
  "opencode_example_session \<in> set (sr_sessions opencode_example_source)" "cd_health (od_store opencode_example_db) \<noteq> None"
  "opencode_newer (read_known_end_times (od_store opencode_example_db)) opencode_example_session"
  "os_id opencode_example_session \<notin> read_processing_ids (od_store opencode_example_db)"
  by (simp_all add: opencode_inv_def opencode_example_db_def codex_example_store_def store_inv_def opencode_example_source_def
      opencode_newer_def read_known_end_times_def read_processing_ids_def)

lemma opencode_example_prompt: "oc_user_prompts (read_session_context opencode_example_env opencode_example_source ''s1'') = [''fix it'']"
  by code_simp

lemma opencode_poll_covers_witness:
  "\<exists>n db'. opencode_poll_tick True opencode_example_env codex_example_store_env opencode_no_faults (Some opencode_example_source) opencode_example_db = (Inr n, db')
    \<and> opencode_fresh codex_example_store_env (load_session opencode_example_env opencode_example_source opencode_no_faults (bare opencode_example_session)) db'"
proof -
  have "opencode_row opencode_example_db opencode_example_session = None"
    by (simp add: opencode_example_db_def codex_example_store_def find_row_def)
  moreover from this have "\<not> claimed opencode_example_db opencode_example_session" by (simp add: claimed_def stored_state_def)
  moreover have "\<not> of_source_open opencode_no_faults" "\<not> of_store_open opencode_no_faults" "of_queries opencode_no_faults = None"
    "of_upsert opencode_no_faults i = None" for i by (simp_all add: opencode_no_faults_def)
  ultimately show ?thesis
    using opencode_poll_covers[OF opencode_example_state(1-3), where fs = opencode_no_faults and cenv = opencode_example_env
        and env = codex_example_store_env] opencode_example_state(4)
    by (auto split: prod.splits sum.splits)
qed

lemma opencode_never_strands_witness:
  "opencode_newer (read_known_end_times (od_store (snd (opencode_poll_tick True opencode_example_env codex_example_store_env
      (opencode_no_faults\<lparr>of_upsert := (\<lambda>_. Some ''locked'')\<rparr>) (Some opencode_example_source) opencode_example_db)))) opencode_example_session
   \<or> row_settled (opencode_key opencode_example_session) (opencode_update_row codex_example_store_env ((redact_session_metadata opencode_example_env
        opencode_example_session)\<lparr>os_context := read_session_context opencode_example_env opencode_example_source (os_id opencode_example_session)\<rparr>))
      (od_store (snd (opencode_poll_tick True opencode_example_env codex_example_store_env
      (opencode_no_faults\<lparr>of_upsert := (\<lambda>_. Some ''locked'')\<rparr>) (Some opencode_example_source) opencode_example_db)))"
  by (rule opencode_never_strands[OF opencode_example_state(1-3) _ refl _ refl, THEN conjunct1])
     (use opencode_example_state(5) in \<open>simp_all add: opencode_no_faults_def\<close>)

lemma opencode_context_lost_witness:
  "\<exists>r. opencode_row (snd (opencode_poll_tick True opencode_example_env codex_example_store_env
      (opencode_no_faults\<lparr>of_context := (\<lambda>_. Some ''locked'')\<rparr>) (Some opencode_example_source) opencode_example_db)) opencode_example_session = Some r
    \<and> as_message_count r = 0"
  using opencode_context_lost[OF opencode_example_state(1-3), of "opencode_no_faults\<lparr>of_context := (\<lambda>_. Some ''locked'')\<rparr>" "''locked''"]
    opencode_example_state(4-6) by (fastforce simp: opencode_no_faults_def)



end
