(* ===== verification/PayloadGc.thy ===== *)
theory PayloadGc
  imports BackupTypes "HOL-Library.List_Lexorder" "HOL-Library.Char_ord"
begin

text \<open>
  The payload sweep of \<open>hippo-core/src/storage.rs\<close> (\<open>gc_event_payloads\<close>): expired output and environment references of events and
  expired free text of the evaluation tables are cleared in batches of at most 100 rows, each batch in one transaction with a
  receipt for every payload it clears, and never where evidence still cites the row. A table is the list of its rows; the rows
  carry the columns the sweep reads or writes. The digest of a receipt is a parameter.
\<close>

definition PAYLOAD_TTL_MS :: int where "PAYLOAD_TTL_MS = 7776000000"
definition GC_BATCH :: nat where "GC_BATCH = 100"

record payload_row =
  py_id :: int
  py_created_at :: int
  py_payload_expiry :: "int option"
  py_stdout :: "string option"
  py_stderr :: "string option"
  py_env_snapshot_id :: "int option"

record snapshot_row =
  sn_id :: int
  sn_env_json :: string

record receipt =
  rc_content_hash :: string
  rc_ts :: int
  rc_reason :: string
  rc_what :: string

text \<open>A row of \<open>eval_findings\<close> or \<open>eval_verdicts\<close>: its key, the finding, the expiry and the named texts; a verdict has further columns.\<close>

record eval_row =
  ey_key :: string
  ey_finding_id :: string
  ey_payload_expiry :: int
  ey_texts :: "(string \<times> string option) list"

record verdict_row = eval_row +
  vd_verdict :: string
  vd_auto :: bool
  vd_decided_at :: int

text \<open>The optional citation tables are \<open>None\<close> when they do not exist; an epitaph has the value of \<open>evidence_refs\<close>.\<close>

record payload_db =
  pd_events :: "payload_row list"
  pd_snapshots :: "snapshot_row list"
  pd_receipts :: "receipt list"
  pd_node_evidence :: "(string \<times> string) list option"
  pd_epitaphs :: "string option list option"
  pd_findings :: "eval_row list"
  pd_verdicts :: "verdict_row list"

record gc_env =
  ge_sha256 :: "string \<Rightarrow> string"
  ge_parse_strings :: "string \<Rightarrow> string list option"

subsection \<open>Pins\<close>

definition event_pin_from_ref :: "string \<Rightarrow> string \<Rightarrow> string + int option" where
  "event_pin_from_ref kind i =
     (if i = [] \<or> \<not> list_all is_digit i then Inl ''incompatible evidence reference: expected a decimal row id''
      else if int (digits_value i) > i64_max then Inl ''evidence row id exceeds i64''
      else if kind = ''shell'' then Inr (Some (int (digits_value i)))
      else if kind \<in> {''claude'', ''codex'', ''cursor'', ''opencode'', ''pi'', ''browser'', ''workflow'', ''memory''} then Inr None
      else Inl (''incompatible evidence reference type: '' @ kind))"

fun pins_of_refs :: "(string \<times> string) list \<Rightarrow> string + int list" where
  "pins_of_refs [] = Inr []"
| "pins_of_refs ((kind, i) # refs) = (case event_pin_from_ref kind i of
     Inl e \<Rightarrow> Inl e
   | Inr pin \<Rightarrow> (case pins_of_refs refs of Inl e \<Rightarrow> Inl e
       | Inr pins \<Rightarrow> Inr ((case pin of None \<Rightarrow> [] | Some p \<Rightarrow> [p]) @ pins)))"

fun citations :: "string list \<Rightarrow> string + (string \<times> string) list" where
  "citations [] = Inr []"
| "citations (c # cs) = (case split_once (CHR ''-'') (trim c) of
     None \<Rightarrow> Inl ''incompatible epitaph evidence citation''
   | Some ref \<Rightarrow> (case citations cs of Inl e \<Rightarrow> Inl e | Inr refs \<Rightarrow> Inr (ref # refs)))"

fun pins_of_epitaphs :: "gc_env \<Rightarrow> string option list \<Rightarrow> string + int list" where
  "pins_of_epitaphs env [] = Inr []"
| "pins_of_epitaphs env (None # rows) = pins_of_epitaphs env rows"
| "pins_of_epitaphs env (Some text # rows) = (case ge_parse_strings env text of
     None \<Rightarrow> Inl ''incompatible epitaphs.evidence_refs: expected JSON citation strings''
   | Some cs \<Rightarrow> (case citations cs of Inl e \<Rightarrow> Inl e
       | Inr refs \<Rightarrow> (case pins_of_refs refs of Inl e \<Rightarrow> Inl e
           | Inr pins \<Rightarrow> (case pins_of_epitaphs env rows of Inl e \<Rightarrow> Inl e | Inr pins' \<Rightarrow> Inr (pins @ pins')))))"

definition event_payload_pins :: "gc_env \<Rightarrow> payload_db \<Rightarrow> string + int list" where
  "event_payload_pins env db = (case pins_of_refs (unwrap_or (pd_node_evidence db) []) of
     Inl e \<Rightarrow> Inl e
   | Inr pins \<Rightarrow> (case pins_of_epitaphs env (unwrap_or (pd_epitaphs db) []) of Inl e \<Rightarrow> Inl e | Inr pins' \<Rightarrow> Inr (pins @ pins')))"

text \<open>The verdict that comes first in the order of \<open>ROW_NUMBER\<close>: human before automatic, then the latest, then the greatest key.\<close>

definition verdict_before :: "verdict_row \<Rightarrow> verdict_row \<Rightarrow> bool" where
  "verdict_before a b \<longleftrightarrow> (if vd_auto a \<noteq> vd_auto b then vd_auto b
     else if vd_decided_at a \<noteq> vd_decided_at b then vd_decided_at a > vd_decided_at b else ey_key a > ey_key b)"

definition effective_verdict :: "verdict_row list \<Rightarrow> string \<Rightarrow> verdict_row option" where
  "effective_verdict rows f = (let same = filter (\<lambda>v. ey_finding_id v = f) rows in
     find (\<lambda>v. list_all (\<lambda>w. \<not> verdict_before w v) same) same)"

definition eval_payload_pins :: "verdict_row list \<Rightarrow> string list" where
  "eval_payload_pins rows = filter (\<lambda>f. case effective_verdict rows f of None \<Rightarrow> False | Some v \<Rightarrow> vd_verdict v = ''accepted'')
     (remdups (map ey_finding_id rows))"

subsection \<open>Events\<close>

definition gc_receipt :: "gc_env \<Rightarrow> int \<Rightarrow> string \<Rightarrow> string \<Rightarrow> receipt" where
  "gc_receipt env now_ms what content =
     \<lparr>rc_content_hash = ge_sha256 env content, rc_ts = now_ms, rc_reason = ''payload_expired'', rc_what = what\<rparr>"

definition payload_expired :: "int \<Rightarrow> payload_row \<Rightarrow> bool" where
  "payload_expired now_ms r \<longleftrightarrow> unwrap_or (py_payload_expiry r) (py_created_at r + PAYLOAD_TTL_MS) \<le> now_ms"

definition has_payload :: "payload_row \<Rightarrow> bool" where
  "has_payload r \<longleftrightarrow> py_stdout r \<noteq> None \<or> py_stderr r \<noteq> None \<or> py_env_snapshot_id r \<noteq> None"

definition clear_payload :: "payload_row \<Rightarrow> payload_row" where
  "clear_payload r = r\<lparr>py_stdout := None, py_stderr := None, py_env_snapshot_id := None,
     py_payload_expiry := Some (unwrap_or (py_payload_expiry r) (py_created_at r + PAYLOAD_TTL_MS))\<rparr>"

definition event_field :: "int \<Rightarrow> string \<Rightarrow> string" where
  "event_field i field = ''events/'' @ int_str i @ ''/'' @ field"

definition opt_receipts :: "gc_env \<Rightarrow> int \<Rightarrow> string \<Rightarrow> string option \<Rightarrow> receipt list" where
  "opt_receipts env now_ms what content = (case content of None \<Rightarrow> [] | Some c \<Rightarrow> [gc_receipt env now_ms what c])"

definition row_receipts :: "gc_env \<Rightarrow> int \<Rightarrow> payload_row \<Rightarrow> receipt list" where
  "row_receipts env now_ms r =
     opt_receipts env now_ms (event_field (py_id r) ''stdout'') (py_stdout r)
     @ opt_receipts env now_ms (event_field (py_id r) ''stderr'') (py_stderr r)
     @ opt_receipts env now_ms (event_field (py_id r) ''env_snapshot_id'') (map_option int_str (py_env_snapshot_id r))"

text \<open>A snapshot that no event refers to any more is emptied; its row stays.\<close>

definition drop_snapshot :: "gc_env \<Rightarrow> int \<Rightarrow> int option \<Rightarrow> payload_db \<Rightarrow> payload_db" where
  "drop_snapshot env now_ms env_id db = (case env_id of
     None \<Rightarrow> db
   | Some i \<Rightarrow> (case find (\<lambda>s. sn_id s = i \<and> sn_env_json s \<noteq> []) (pd_snapshots db) of
       None \<Rightarrow> db
     | Some s \<Rightarrow> if list_ex (\<lambda>e. py_env_snapshot_id e = Some i) (pd_events db) then db
         else db\<lparr>pd_receipts := pd_receipts db @ [gc_receipt env now_ms (''env_snapshots/'' @ int_str i @ ''/env_json'') (sn_env_json s)],
                 pd_snapshots := map (\<lambda>s. if sn_id s = i then s\<lparr>sn_env_json := []\<rparr> else s) (pd_snapshots db)\<rparr>))"

definition gc_row :: "gc_env \<Rightarrow> int \<Rightarrow> int list \<Rightarrow> payload_db \<Rightarrow> payload_row \<Rightarrow> payload_db" where
  "gc_row env now_ms pins db r = (if py_id r \<in> set pins then db
     else drop_snapshot env now_ms (py_env_snapshot_id r)
       (db\<lparr>pd_receipts := pd_receipts db @ row_receipts env now_ms r,
           pd_events := map (\<lambda>e. if py_id e = py_id r then clear_payload e else e) (pd_events db)\<rparr>))"

definition gc_candidates :: "int \<Rightarrow> int \<Rightarrow> int \<Rightarrow> payload_row list \<Rightarrow> payload_row list" where
  "gc_candidates now_ms cursor top_id rows = take GC_BATCH (sort_key py_id
     (filter (\<lambda>r. py_id r \<ge> cursor \<and> py_id r \<le> top_id \<and> payload_expired now_ms r \<and> has_payload r) rows))"

definition gc_stopped :: "nat \<Rightarrow> string \<Rightarrow> string \<Rightarrow> string" where
  "gc_stopped cleared what e = ''payload GC stopped after '' @ int_str (int cleared) @ '' committed '' @ what
     @ '' clears; current batch rolled back: '' @ e"

lemma gc_row_ids: "map py_id (pd_events (gc_row env now_ms pins db r)) = map py_id (pd_events db)"
  by (auto simp: gc_row_def drop_snapshot_def clear_payload_def split: option.split)

lemma gc_rows_ids: "map py_id (pd_events (foldl (gc_row env now_ms pins) db rows)) = map py_id (pd_events db)"
  by (induction rows arbitrary: db) (simp_all add: gc_row_ids)

text \<open>
  The loop over the batches. A fault is the error of some statement of a batch, which is rolled back; the pins are read anew in
  each batch, and a reference that is not understood is an error as well. The error says how much earlier batches have cleared, and the
  count is that of the rows cleared.
\<close>

function gc_events :: "gc_env \<Rightarrow> int \<Rightarrow> int \<Rightarrow> string option list \<Rightarrow> int \<Rightarrow> nat \<Rightarrow> payload_db \<Rightarrow> (string + nat) \<times> payload_db" where
  "gc_events env now_ms top_id faults cursor cleared db =
     (case faults of Some e # _ \<Rightarrow> (Inl (gc_stopped cleared ''event'' e), db)
      | _ \<Rightarrow> (case event_payload_pins env db of Inl e \<Rightarrow> (Inl (gc_stopped cleared ''event'' e), db)
        | Inr pins \<Rightarrow>
            (let rows = gc_candidates now_ms cursor top_id (pd_events db);
                 db' = foldl (gc_row env now_ms pins) db rows;
                 cleared' = cleared + length (filter (\<lambda>r. py_id r \<notin> set pins) rows)
             in if length rows < GC_BATCH then (Inr cleared', db')
                else if py_id (last rows) = i64_max then (Inr cleared', db')
                else gc_events env now_ms top_id (tl faults) (py_id (last rows) + 1) cleared' db')))"
  by pat_completeness auto

text \<open>A full batch moves the cursor past a row.\<close>

lemma gc_batch_last:
  assumes "rows = gc_candidates now_ms cursor top_id es" "\<not> length rows < GC_BATCH"
  shows "last rows \<in> set es" "py_id (last rows) \<ge> cursor"
proof -
  have "rows \<noteq> []" using assms(2) by (auto simp: GC_BATCH_def)
  then have "last rows \<in> set rows" by simp
  then have "last rows \<in> set (filter (\<lambda>r. py_id r \<ge> cursor \<and> py_id r \<le> top_id \<and> payload_expired now_ms r \<and> has_payload r) es)"
    unfolding assms(1) gc_candidates_def using in_set_takeD[of _ GC_BATCH] by fastforce
  then show "last rows \<in> set es" "py_id (last rows) \<ge> cursor" by simp_all
qed

lemma ids_above: "map py_id es' = map py_id es \<Longrightarrow> length (filter (\<lambda>r. P (py_id r)) es') = length (filter (\<lambda>r. P (py_id r)) es)"
  using length_filter_map[of P py_id es] length_filter_map[of P py_id es'] by (simp add: comp_def)

lemma length_filter_less: "x \<in> set xs \<Longrightarrow> P x \<Longrightarrow> \<not> Q x \<Longrightarrow> (\<And>y. Q y \<Longrightarrow> P y) \<Longrightarrow> length (filter Q xs) < length (filter P xs)"
proof -
  assume a: "x \<in> set xs" "P x" "\<not> Q x" "\<And>y. Q y \<Longrightarrow> P y"
  obtain ys zs where xs: "xs = ys @ x # zs" using split_list[OF a(1)] by blast
  have m: "length (filter Q us) \<le> length (filter P us)" for us by (induction us) (auto dest: a(4))
  show ?thesis using m[of ys] m[of zs] a(2,3) by (simp add: xs)
qed

lemma gc_measure:
  assumes "\<not> length (gc_candidates now_ms cursor top_id (pd_events db)) < GC_BATCH"
  shows "length (filter (\<lambda>r. py_id (last (gc_candidates now_ms cursor top_id (pd_events db))) + 1 \<le> py_id r)
      (pd_events (foldl (gc_row env now_ms pins) db (gc_candidates now_ms cursor top_id (pd_events db)))))
    < length (filter (\<lambda>r. cursor \<le> py_id r) (pd_events db))"
proof -
  let ?rows = "gc_candidates now_ms cursor top_id (pd_events db)"
  let ?l = "py_id (last ?rows)"
  have "length (filter (\<lambda>r. ?l + 1 \<le> py_id r) (pd_events (foldl (gc_row env now_ms pins) db ?rows))) = length (filter (\<lambda>r. ?l + 1 \<le> py_id r) (pd_events db))"
    using ids_above[OF gc_rows_ids, of "\<lambda>i. ?l + 1 \<le> i"] by simp
  also have "\<dots> < length (filter (\<lambda>r. cursor \<le> py_id r) (pd_events db))"
    by (rule length_filter_less[OF gc_batch_last(1)[OF refl assms]]) (use gc_batch_last(2)[OF refl assms] in auto)
  finally show ?thesis .
qed

termination gc_events
  by (relation "measure (\<lambda>(env, now_ms, top_id, faults, cursor, cleared, db). length (filter (\<lambda>r. cursor \<le> py_id r) (pd_events db)))")
     (auto simp: gc_measure)

declare gc_events.simps [simp del]

subsection \<open>Evaluation texts\<close>

definition eval_candidates :: "int \<Rightarrow> string option \<Rightarrow> 'a eval_row_scheme list \<Rightarrow> 'a eval_row_scheme list" where
  "eval_candidates now_ms cursor rows = take GC_BATCH (sort_key ey_key
     (filter (\<lambda>r. (case cursor of None \<Rightarrow> True | Some k \<Rightarrow> ey_key r > k) \<and> ey_payload_expiry r \<le> now_ms \<and> list_ex (\<lambda>t. snd t \<noteq> None) (ey_texts r)) rows))"

definition clear_texts :: "'a eval_row_scheme \<Rightarrow> 'a eval_row_scheme" where
  "clear_texts r = r\<lparr>ey_texts := map (\<lambda>t. (fst t, None)) (ey_texts r)\<rparr>"

definition eval_receipts :: "gc_env \<Rightarrow> int \<Rightarrow> string \<Rightarrow> 'a eval_row_scheme \<Rightarrow> receipt list" where
  "eval_receipts env now_ms table r =
     concat (map (\<lambda>t. opt_receipts env now_ms (table @ ''/'' @ ey_key r @ ''/'' @ fst t) (snd t)) (ey_texts r))"

definition eval_gc_row ::
  "gc_env \<Rightarrow> int \<Rightarrow> string \<Rightarrow> string list \<Rightarrow> 'a eval_row_scheme list \<times> receipt list \<Rightarrow> 'a eval_row_scheme \<Rightarrow> 'a eval_row_scheme list \<times> receipt list" where
  "eval_gc_row env now_ms table pins st r = (if ey_finding_id r \<in> set pins then st
     else (map (\<lambda>e. if ey_key e = ey_key r then clear_texts e else e) (fst st), snd st @ eval_receipts env now_ms table r))"

lemma eval_rows_keys: "map ey_key (fst (foldl (eval_gc_row env now_ms table pins) st rows)) = map ey_key (fst st)"
  by (induction rows arbitrary: st) (auto simp: eval_gc_row_def clear_texts_def)

definition after_key :: "string option \<Rightarrow> 'a eval_row_scheme \<Rightarrow> bool" where
  "after_key cursor r \<longleftrightarrow> (case cursor of None \<Rightarrow> True | Some k \<Rightarrow> ey_key r > k)"

lemma eval_batch_last:
  assumes "\<not> length (eval_candidates now_ms cursor es) < GC_BATCH"
  shows "last (eval_candidates now_ms cursor es) \<in> set es" "after_key cursor (last (eval_candidates now_ms cursor es))"
proof -
  have "eval_candidates now_ms cursor es \<noteq> []" using assms by (auto simp: GC_BATCH_def)
  then have "last (eval_candidates now_ms cursor es) \<in> set (eval_candidates now_ms cursor es)" by simp
  then have "last (eval_candidates now_ms cursor es) \<in> set (filter (after_key cursor) es)"
    unfolding eval_candidates_def after_key_def using in_set_takeD[of _ GC_BATCH] by fastforce
  then show "last (eval_candidates now_ms cursor es) \<in> set es" "after_key cursor (last (eval_candidates now_ms cursor es))" by simp_all
qed

text \<open>The loop of \<open>gc_eval_payload_table\<close>; \<open>pins_of\<close> derives the pins of a batch from the rows of the table as they are then.\<close>

function gc_eval ::
  "gc_env \<Rightarrow> int \<Rightarrow> string \<Rightarrow> ('a eval_row_scheme list \<Rightarrow> string list) \<Rightarrow> string option list \<Rightarrow> string option \<Rightarrow> nat
    \<Rightarrow> 'a eval_row_scheme list \<times> receipt list \<Rightarrow> (string + nat) \<times> 'a eval_row_scheme list \<times> receipt list" where
  "gc_eval env now_ms table pins_of faults cursor cleared st =
     (case faults of Some e # _ \<Rightarrow> (Inl (gc_stopped cleared table e), st)
      | _ \<Rightarrow>
          (let rows = eval_candidates now_ms cursor (fst st);
               pins = pins_of (fst st);
               st' = foldl (eval_gc_row env now_ms table pins) st rows;
               cleared' = cleared + length (filter (\<lambda>r. ey_finding_id r \<notin> set pins) rows)
           in if length rows < GC_BATCH then (Inr cleared', st')
              else gc_eval env now_ms table pins_of (tl faults) (Some (ey_key (last rows))) cleared' st'))"
  by pat_completeness auto

lemma keys_after: "map ey_key es' = map ey_key es \<Longrightarrow> length (filter (after_key c) es') = length (filter (after_key c) es)"
  using length_filter_map[of "\<lambda>k. case c of None \<Rightarrow> True | Some x \<Rightarrow> k > x" ey_key es]
    length_filter_map[of "\<lambda>k. case c of None \<Rightarrow> True | Some x \<Rightarrow> k > x" ey_key es'] by (simp add: comp_def after_key_def[abs_def])

lemma eval_measure:
  assumes "\<not> length (eval_candidates now_ms cursor (fst st)) < GC_BATCH"
  shows "length (filter (after_key (Some (ey_key (last (eval_candidates now_ms cursor (fst st))))))
      (fst (foldl (eval_gc_row env now_ms table pins) st (eval_candidates now_ms cursor (fst st)))))
    < length (filter (after_key cursor) (fst st))"
proof -
  let ?l = "last (eval_candidates now_ms cursor (fst st))"
  have l: "?l \<in> set (fst st)" "after_key cursor ?l" using eval_batch_last[OF assms] by blast+
  have "after_key cursor y" if "after_key (Some (ey_key ?l)) y" for y using that l(2) by (cases cursor) (auto simp: after_key_def)
  then show ?thesis
    unfolding keys_after[OF eval_rows_keys] using l by (intro length_filter_less[of ?l]) (auto simp: after_key_def)
qed

termination gc_eval
  by (relation "measure (\<lambda>(env, now_ms, table, pins_of, faults, cursor, cleared, st). length (filter (after_key cursor) (fst st)))")
     (auto simp: eval_measure)

declare gc_eval.simps [simp del]

subsection \<open>The sweep\<close>

datatype PayloadCheckpoint = Truncated | Busy | NotWal | Failed string

text \<open>What the checkpoint pragma answers: whether it was busy and the frames of the log.\<close>

definition payload_checkpoint :: "string + int \<times> int \<Rightarrow> PayloadCheckpoint" where
  "payload_checkpoint answer = (case answer of Inl e \<Rightarrow> Failed e
     | Inr (busy, n) \<Rightarrow> if busy = 0 then (if n \<ge> 0 then Truncated else NotWal) else Busy)"

record PayloadGcReport =
  gr_events_cleared :: nat
  gr_eval_findings_cleared :: nat
  gr_eval_verdicts_cleared :: nat
  gr_checkpoint :: PayloadCheckpoint

record gc_faults =
  gf_start :: "string option"
  gf_events :: "string option list"
  gf_findings :: "string option list"
  gf_verdicts :: "string option list"

definition gc_event_payloads ::
  "gc_env \<Rightarrow> int \<Rightarrow> bool \<Rightarrow> gc_faults \<Rightarrow> string + int \<times> int \<Rightarrow> payload_db \<Rightarrow> (string + PayloadGcReport) \<times> payload_db" where
  "gc_event_payloads env now_ms autocommit fs checkpoint db =
     (if \<not> autocommit then (Inl ''payload GC requires its own connection transaction'', db)
      else case gf_start fs of Some e \<Rightarrow> (Inl e, db)
      | None \<Rightarrow>
          (case gc_events env now_ms (unwrap_or (sql_max (map py_id (pd_events db))) 0) (gf_events fs) i64_min 0 db of
             (Inl e, db1) \<Rightarrow> (Inl e, db1)
           | (Inr n, db1) \<Rightarrow>
               (case gc_eval env now_ms ''eval_findings'' (\<lambda>_. eval_payload_pins (pd_verdicts db1)) (gf_findings fs) None 0 (pd_findings db1, pd_receipts db1) of
                  (Inl e, rows, rcs) \<Rightarrow> (Inl e, db1\<lparr>pd_findings := rows, pd_receipts := rcs\<rparr>)
                | (Inr n', rows, rcs) \<Rightarrow>
                    (let db2 = db1\<lparr>pd_findings := rows, pd_receipts := rcs\<rparr> in
                     (case gc_eval env now_ms ''eval_verdicts'' eval_payload_pins (gf_verdicts fs) None 0 (pd_verdicts db2, pd_receipts db2) of
                        (Inl e, vs, rcs') \<Rightarrow> (Inl e, db2\<lparr>pd_verdicts := vs, pd_receipts := rcs'\<rparr>)
                      | (Inr n'', vs, rcs') \<Rightarrow>
                          (Inr \<lparr>gr_events_cleared = n, gr_eval_findings_cleared = n', gr_eval_verdicts_cleared = n'',
                                gr_checkpoint = payload_checkpoint checkpoint\<rparr>, db2\<lparr>pd_verdicts := vs, pd_receipts := rcs'\<rparr>))))))"

end
