(* ===== verification/PayloadProperties.thy ===== *)
theory PayloadProperties
  imports PayloadGc
begin

text \<open>
  Properties of the payload sweep: it clears exactly the expired payloads that nothing cites, in whatever batches; what is cleared has a
  receipt, and what is cited stays, whatever fails.
\<close>

subsection \<open>A batch\<close>

lemma clear_payload_simps [simp]: "py_id (clear_payload r) = py_id r" "clear_payload (clear_payload r) = clear_payload r" "\<not> has_payload (clear_payload r)"
  by (simp_all add: clear_payload_def has_payload_def)

lemma drop_snapshot_frame [simp]:
  "pd_events (drop_snapshot env now_ms i db) = pd_events db" "pd_node_evidence (drop_snapshot env now_ms i db) = pd_node_evidence db"
  "pd_epitaphs (drop_snapshot env now_ms i db) = pd_epitaphs db" "pd_findings (drop_snapshot env now_ms i db) = pd_findings db"
  "pd_verdicts (drop_snapshot env now_ms i db) = pd_verdicts db"
  by (simp_all add: drop_snapshot_def split: option.split)

lemma gc_row_events:
  "pd_events (gc_row env now_ms pins db r) = map (\<lambda>e. if py_id e = py_id r \<and> py_id e \<notin> set pins then clear_payload e else e) (pd_events db)"
  by (auto simp: gc_row_def intro!: map_idI[symmetric])

lemma gc_rows_frame:
  "pd_findings (foldl (gc_row env now_ms pins) db rows) = pd_findings db" "pd_verdicts (foldl (gc_row env now_ms pins) db rows) = pd_verdicts db"
  by (induction rows arbitrary: db) (simp_all add: gc_row_def)

lemma gc_row_pins [simp]: "event_payload_pins env (gc_row e now_ms pins db r) = event_payload_pins env db"
  by (simp add: event_payload_pins_def gc_row_def split: sum.split)

lemma gc_rows_pins [simp]: "event_payload_pins env (foldl (gc_row e now_ms pins) db rows) = event_payload_pins env db"
  by (induction rows arbitrary: db) simp_all

lemma gc_rows_events:
  "pd_events (foldl (gc_row env now_ms pins) db rows) =
    map (\<lambda>e. if py_id e \<in> py_id ` set rows \<and> py_id e \<notin> set pins then clear_payload e else e) (pd_events db)"
proof (induction rows arbitrary: db)
  case (Cons r rows)
  then show ?case by (auto simp: gc_row_events)
qed simp

text \<open>The first rows of a sorted table are those up to the last of them.\<close>

lemma take_sorted:
  assumes "sorted (map k xs)" "distinct (map k xs)" "take n xs \<noteq> []"
  shows "set (take n xs) = {x \<in> set xs. k x \<le> k (last (take n xs))}"
proof -
  have xs: "xs = take n xs @ drop n xs" by simp
  have s: "sorted (map k (take n xs @ drop n xs))" "distinct (map k (take n xs @ drop n xs))" using assms(1,2) by simp_all
  have "k x \<le> k (last (take n xs))" if x: "x \<in> set (take n xs)" for x
  proof -
    obtain ys l where t: "take n xs = ys @ [l]" using assms(3) by (metis append_butlast_last_id)
    have "sorted (map k (ys @ [l]))" using s(1) unfolding t map_append sorted_append by simp
    then show ?thesis using x unfolding t by (auto simp: sorted_append)
  qed
  moreover have "\<not> k x \<le> k (last (take n xs))" if x: "x \<in> set (drop n xs)" for x
  proof -
    have l: "last (take n xs) \<in> set (take n xs)" using assms(3) by simp
    then have "k (last (take n xs)) \<le> k x" using s(1) x unfolding map_append sorted_append by auto
    moreover have "k (last (take n xs)) \<noteq> k x" using s(2) x l unfolding map_append distinct_append by fastforce
    ultimately show ?thesis by simp
  qed
  moreover have "set xs = set (take n xs) \<union> set (drop n xs)" by (metis append_take_drop_id set_append)
  ultimately show ?thesis by blast
qed

definition gc_candidate :: "int \<Rightarrow> int \<Rightarrow> int \<Rightarrow> payload_row \<Rightarrow> bool" where
  "gc_candidate now_ms cursor top_id r \<longleftrightarrow> py_id r \<ge> cursor \<and> py_id r \<le> top_id \<and> payload_expired now_ms r \<and> has_payload r"

lemma gc_batch:
  assumes "distinct (map py_id es)"
  shows "length (gc_candidates now_ms cursor top_id es) < GC_BATCH \<Longrightarrow> set (gc_candidates now_ms cursor top_id es) = {r \<in> set es. gc_candidate now_ms cursor top_id r}"
    and "\<not> length (gc_candidates now_ms cursor top_id es) < GC_BATCH \<Longrightarrow> set (gc_candidates now_ms cursor top_id es) =
      {r \<in> set es. gc_candidate now_ms cursor top_id r \<and> py_id r \<le> py_id (last (gc_candidates now_ms cursor top_id es))}"
    and "distinct (gc_candidates now_ms cursor top_id es)"
proof -
  let ?xs = "sort_key py_id (filter (gc_candidate now_ms cursor top_id) es)"
  have c: "gc_candidates now_ms cursor top_id es = take GC_BATCH ?xs" by (simp add: gc_candidates_def gc_candidate_def[abs_def])
  have d: "distinct (map py_id ?xs)" using assms by (simp add: distinct_map inj_on_def)
  have xs: "set ?xs = {r \<in> set es. gc_candidate now_ms cursor top_id r}" by auto
  show "length (gc_candidates now_ms cursor top_id es) < GC_BATCH \<Longrightarrow> set (gc_candidates now_ms cursor top_id es) = {r \<in> set es. gc_candidate now_ms cursor top_id r}"
    unfolding c using xs by simp
  show "set (gc_candidates now_ms cursor top_id es) = {r \<in> set es. gc_candidate now_ms cursor top_id r \<and> py_id r \<le> py_id (last (gc_candidates now_ms cursor top_id es))}"
    if "\<not> length (gc_candidates now_ms cursor top_id es) < GC_BATCH"
  proof -
    have "length (take GC_BATCH ?xs) \<noteq> 0" using that unfolding c GC_BATCH_def by simp
    then have "take GC_BATCH ?xs \<noteq> []" by blast
    then show ?thesis using take_sorted[OF _ d, of GC_BATCH] xs unfolding c by auto
  qed
  show "distinct (gc_candidates now_ms cursor top_id es)" unfolding c using d by (intro distinct_take) (simp only: distinct_map)
qed

lemma gc_events_step:
  assumes "\<nexists>e fs. faults = Some e # fs" "event_payload_pins env db = Inr pins" "rows = gc_candidates now_ms cursor top_id (pd_events db)"
  shows "gc_events env now_ms top_id faults cursor cleared db =
    (if length rows < GC_BATCH \<or> py_id (last rows) = i64_max
     then (Inr (cleared + length (filter (\<lambda>r. py_id r \<notin> set pins) rows)), foldl (gc_row env now_ms pins) db rows)
     else gc_events env now_ms top_id (tl faults) (py_id (last rows) + 1) (cleared + length (filter (\<lambda>r. py_id r \<notin> set pins) rows))
       (foldl (gc_row env now_ms pins) db rows))"
  unfolding assms(3) using assms(1,2) by (subst gc_events.simps) (simp add: Let_def split: list.split option.split)

lemma gc_events_error:
  "(\<exists>e fs. faults = Some e # fs) \<or> (\<exists>e. event_payload_pins env db = Inl e) \<Longrightarrow> snd (gc_events env now_ms top_id faults cursor cleared db) = db"
  by (subst gc_events.simps) (auto split: list.split option.split sum.split)

text \<open>What every batch keeps, the loop keeps, whether it ends in an error or not.\<close>

lemma gc_events_rule:
  assumes "\<And>cursor db pins. P db \<Longrightarrow> event_payload_pins env db = Inr pins
      \<Longrightarrow> P (foldl (gc_row env now_ms pins) db (gc_candidates now_ms cursor top_id (pd_events db)))" and "P db"
  shows "P (snd (gc_events env now_ms top_id faults cursor cleared db))"
  using assms
proof (induction env now_ms top_id faults cursor cleared db rule: gc_events.induct)
  case (1 env now_ms top_id faults cursor cleared db)
  show ?case
  proof (cases "(\<exists>e fs. faults = Some e # fs) \<or> (\<exists>e. event_payload_pins env db = Inl e)")
    case True
    then show ?thesis using "1.prems"(2) by (simp add: gc_events_error)
  next
    case False
    then obtain pins where pins: "event_payload_pins env db = Inr pins" by (cases "event_payload_pins env db") auto
    let ?rows = "gc_candidates now_ms cursor top_id (pd_events db)"
    have P: "P (foldl (gc_row env now_ms pins) db ?rows)" by (rule "1.prems"(1)[OF "1.prems"(2) pins])
    have f: "\<nexists>e fs. faults = Some e # fs" using False by blast
    show ?thesis
    proof (cases "length ?rows < GC_BATCH \<or> py_id (last ?rows) = i64_max")
      case True
      then show ?thesis using P by (simp add: gc_events_step[OF f pins refl])
    next
      case False
      then have l: "\<not> length ?rows < GC_BATCH" and m: "py_id (last ?rows) \<noteq> i64_max" by blast+
      have "P (snd (gc_events env now_ms top_id (tl faults) (py_id (last ?rows) + 1)
          (cleared + length (filter (\<lambda>r. py_id r \<notin> set pins) ?rows)) (foldl (gc_row env now_ms pins) db ?rows)))"
      proof (cases faults)
        case Nil
        show ?thesis by (rule "1.IH"(1)[OF Nil pins refl refl refl l m "1.prems"(1) P])
      next
        case (Cons q fs)
        then have "q = None" using f by (cases q) auto
        then show ?thesis using "1.IH"(2)[OF Cons _ pins refl refl refl l m "1.prems"(1) P] by blast
      qed
      then show ?thesis using False by (simp add: gc_events_step[OF f pins refl])
    qed
  qed
qed

text \<open>The same for the loop over a table of the evaluations.\<close>

lemma gc_eval_rule:
  assumes "\<And>cursor st. P st \<Longrightarrow> P (foldl (eval_gc_row env now_ms table (pins_of (fst st))) st (eval_candidates now_ms cursor (fst st)))" and "P st"
  shows "P (snd (gc_eval env now_ms table pins_of faults cursor cleared st))"
  using assms
proof (induction env now_ms table pins_of faults cursor cleared st rule: gc_eval.induct)
  case (1 env now_ms table pins_of faults cursor cleared st)
  let ?rows = "eval_candidates now_ms cursor (fst st)"
  let ?pins = "pins_of (fst st)"
  let ?st = "foldl (eval_gc_row env now_ms table ?pins) st ?rows"
  let ?n = "cleared + length (filter (\<lambda>r. ey_finding_id r \<notin> set ?pins) ?rows)"
  show ?case
  proof (cases "\<exists>e fs. faults = Some e # fs")
    case True
    then show ?thesis using "1.prems"(2) by (subst gc_eval.simps) auto
  next
    case False
    then have step: "gc_eval env now_ms table pins_of faults cursor cleared st =
        (if length ?rows < GC_BATCH then (Inr ?n, ?st)
         else gc_eval env now_ms table pins_of (tl faults) (Some (ey_key (last ?rows))) ?n ?st)"
      by (subst gc_eval.simps) (auto simp: Let_def split: list.split option.split)
    have P: "P ?st" by (rule "1.prems"(1)[OF "1.prems"(2)])
    show ?thesis
    proof (cases "length ?rows < GC_BATCH")
      case True
      then show ?thesis using P step by simp
    next
      case l: False
      have "P (snd (gc_eval env now_ms table pins_of (tl faults) (Some (ey_key (last ?rows))) ?n ?st))"
      proof (cases faults)
        case Nil
        show ?thesis by (rule "1.IH"(1)[OF Nil refl refl refl refl l "1.prems"(1) P])
      next
        case (Cons q fs)
        then have "q = None" using False by (cases q) auto
        then show ?thesis using "1.IH"(2)[OF Cons _ refl refl refl refl l "1.prems"(1) P] by blast
      qed
      then show ?thesis using l step by simp
    qed
  qed
qed

subsection \<open>The sweep clears what is expired and not cited\<close>

text \<open>What the sweep is for, without batches.\<close>

definition gc_due :: "int \<Rightarrow> int list \<Rightarrow> payload_row \<Rightarrow> bool" where
  "gc_due now_ms pins r \<longleftrightarrow> payload_expired now_ms r \<and> has_payload r \<and> py_id r \<notin> set pins"

definition swept :: "(payload_row \<Rightarrow> bool) \<Rightarrow> payload_row \<Rightarrow> payload_row" where
  "swept P r = (if P r then clear_payload r else r)"

lemma batch_clears:
  assumes "distinct (map py_id (pd_events db))" "set rows = {r \<in> set (pd_events db). C r}"
  shows "pd_events (foldl (gc_row env now_ms pins) db rows) = map (swept (\<lambda>r. C r \<and> py_id r \<notin> set pins)) (pd_events db)"
  unfolding gc_rows_events
proof (rule map_cong[OF refl])
  fix e assume e: "e \<in> set (pd_events db)"
  have "py_id e \<in> py_id ` set rows \<longleftrightarrow> C e"
    using assms e unfolding distinct_map inj_on_def assms(2) by auto
  then show "(if py_id e \<in> py_id ` set rows \<and> py_id e \<notin> set pins then clear_payload e else e) = swept (\<lambda>r. C r \<and> py_id r \<notin> set pins) e"
    by (simp add: swept_def)
qed

lemma batch_count:
  assumes "distinct (map py_id (pd_events db))" "distinct rows" "set rows = {r \<in> set (pd_events db). C r}"
  shows "length (filter (\<lambda>r. py_id r \<notin> set pins) rows) = length (filter (\<lambda>r. C r \<and> py_id r \<notin> set pins) (pd_events db))"
proof -
  have "distinct (pd_events db)" using assms(1) by (simp only: distinct_map)
  then have "card (set (filter (\<lambda>r. C r \<and> py_id r \<notin> set pins) (pd_events db))) = length (filter (\<lambda>r. C r \<and> py_id r \<notin> set pins) (pd_events db))"
    by (intro distinct_card distinct_filter)
  moreover have "card (set (filter (\<lambda>r. py_id r \<notin> set pins) rows)) = length (filter (\<lambda>r. py_id r \<notin> set pins) rows)"
    using assms(2) by (intro distinct_card distinct_filter)
  moreover have "set (filter (\<lambda>r. py_id r \<notin> set pins) rows) = set (filter (\<lambda>r. C r \<and> py_id r \<notin> set pins) (pd_events db))"
    using assms(3) by auto
  ultimately show ?thesis by simp
qed

lemma count_split:
  "(\<And>x. x \<in> set xs \<Longrightarrow> R x \<longleftrightarrow> P x \<or> Q x) \<Longrightarrow> (\<And>x. \<not> (P x \<and> Q x)) \<Longrightarrow> length (filter P xs) + length (filter Q xs) = length (filter R xs)"
  by (induction xs) auto

lemma candidate_after:
  assumes "\<And>r. py_id (f r) = py_id r" "\<And>r. py_id r > l \<Longrightarrow> f r = r"
  shows "length (filter (\<lambda>r. gc_candidate now_ms (l + 1) top_id r \<and> py_id r \<notin> S) (map f es))
    = length (filter (\<lambda>r. gc_candidate now_ms (l + 1) top_id r \<and> py_id r \<notin> S) es)"
proof (induction es)
  case (Cons e es)
  have "gc_candidate now_ms (l + 1) top_id (f e) = gc_candidate now_ms (l + 1) top_id e"
  proof (cases "py_id e > l")
    case True
    then show ?thesis using assms(2) by simp
  next
    case False
    then show ?thesis using assms(1) by (simp add: gc_candidate_def)
  qed
  then show ?case using Cons assms(1) by simp
qed simp

lemma swept_id [simp]: "py_id (swept P r) = py_id r"
  by (simp add: swept_def)

lemma gc_events_all:
  assumes "event_payload_pins env db = Inr pins" "distinct (map py_id (pd_events db))" "list_all (\<lambda>r. py_id r \<le> i64_max) (pd_events db)"
    and "list_all (\<lambda>f. f = None) faults"
  shows "\<exists>db'. gc_events env now_ms top_id faults cursor cleared db =
      (Inr (cleared + length (filter (\<lambda>r. gc_candidate now_ms cursor top_id r \<and> py_id r \<notin> set pins) (pd_events db))), db')
    \<and> pd_events db' = map (swept (\<lambda>r. gc_candidate now_ms cursor top_id r \<and> py_id r \<notin> set pins)) (pd_events db)"
  using assms
proof (induction env now_ms top_id faults cursor cleared db rule: gc_events.induct)
  case (1 env now_ms top_id faults cursor cleared db)
  let ?rows = "gc_candidates now_ms cursor top_id (pd_events db)"
  let ?db = "foldl (gc_row env now_ms pins) db ?rows"
  let ?l = "py_id (last ?rows)"
  let ?n = "length (filter (\<lambda>r. py_id r \<notin> set pins) ?rows)"
  have f: "\<nexists>e fs. faults = Some e # fs" using "1.prems"(4) by (cases faults) auto
  note step = gc_events_step[OF f "1.prems"(1) refl, of now_ms top_id cursor cleared]
  note batch = gc_batch[OF "1.prems"(2), of now_ms cursor top_id]
  show ?case
  proof (cases "length ?rows < GC_BATCH \<or> ?l = i64_max")
    case True
    have s: "set ?rows = {r \<in> set (pd_events db). gc_candidate now_ms cursor top_id r}"
      using True batch(1,2) "1.prems"(3) by (cases "length ?rows < GC_BATCH") (auto simp: list_all_iff)
    have "gc_events env now_ms top_id faults cursor cleared db = (Inr (cleared + ?n), ?db)" using True step by auto
    then show ?thesis using batch_clears[OF "1.prems"(2) s] batch_count[OF "1.prems"(2) batch(3) s] by auto
  next
    case False
    let ?C = "\<lambda>r. gc_candidate now_ms cursor top_id r \<and> py_id r \<le> ?l"
    have s: "set ?rows = {r \<in> set (pd_events db). ?C r}" using False batch(2) by blast
    have lc: "cursor \<le> ?l" using gc_batch_last(2)[OF refl] False by blast
    let ?f = "swept (\<lambda>r. ?C r \<and> py_id r \<notin> set pins)"
    have ev: "pd_events ?db = map ?f (pd_events db)" by (rule batch_clears[OF "1.prems"(2) s])
    have n: "?n = length (filter (\<lambda>r. ?C r \<and> py_id r \<notin> set pins) (pd_events db))" by (rule batch_count[OF "1.prems"(2) batch(3) s])
    have f': "list_all (\<lambda>f. f = None) (tl faults)" using "1.prems"(4) by (cases faults) auto
    have d': "distinct (map py_id (pd_events ?db))" "list_all (\<lambda>r. py_id r \<le> i64_max) (pd_events ?db)"
      using "1.prems"(2,3) by (simp_all add: ev comp_def list_all_iff)
    have p': "event_payload_pins env ?db = Inr pins" using "1.prems"(1) by simp
    obtain db' where ih: "gc_events env now_ms top_id (tl faults) (?l + 1) (cleared + ?n) ?db =
        (Inr (cleared + ?n + length (filter (\<lambda>r. gc_candidate now_ms (?l + 1) top_id r \<and> py_id r \<notin> set pins) (pd_events ?db))), db')"
      "pd_events db' = map (swept (\<lambda>r. gc_candidate now_ms (?l + 1) top_id r \<and> py_id r \<notin> set pins)) (pd_events ?db)"
      using "1.IH"(1)[OF _ "1.prems"(1) refl refl refl] "1.IH"(2)[OF _ _ "1.prems"(1) refl refl refl] False p' d' f' f
      by (cases faults) auto
    have "length (filter (\<lambda>r. gc_candidate now_ms (?l + 1) top_id r \<and> py_id r \<notin> set pins) (pd_events ?db))
        = length (filter (\<lambda>r. gc_candidate now_ms (?l + 1) top_id r \<and> py_id r \<notin> set pins) (pd_events db))"
      unfolding ev by (rule candidate_after) (simp_all add: swept_def)
    moreover have "?n + length (filter (\<lambda>r. gc_candidate now_ms (?l + 1) top_id r \<and> py_id r \<notin> set pins) (pd_events db))
        = length (filter (\<lambda>r. gc_candidate now_ms cursor top_id r \<and> py_id r \<notin> set pins) (pd_events db))"
      unfolding n by (rule count_split) (use lc in \<open>auto simp: gc_candidate_def\<close>)
    moreover have "swept (\<lambda>r. gc_candidate now_ms (?l + 1) top_id r \<and> py_id r \<notin> set pins) (?f r)
        = swept (\<lambda>r. gc_candidate now_ms cursor top_id r \<and> py_id r \<notin> set pins) r" for r
      using lc by (auto simp: swept_def gc_candidate_def)
    ultimately show ?thesis using step False ih ev by (simp add: comp_def add.assoc)
  qed
qed

subsection \<open>The evaluation tables\<close>

lemma clear_texts_simps [simp]:
  "ey_key (clear_texts r) = ey_key r" "ey_finding_id (clear_texts r) = ey_finding_id r" "ey_payload_expiry (clear_texts r) = ey_payload_expiry r"
  "\<not> list_ex (\<lambda>t. snd t \<noteq> None) (ey_texts (clear_texts r))" "clear_texts (clear_texts r) = clear_texts r"
  by (auto simp: clear_texts_def list_ex_iff comp_def)

definition eval_candidate :: "int \<Rightarrow> string option \<Rightarrow> 'a eval_row_scheme \<Rightarrow> bool" where
  "eval_candidate now_ms cursor r \<longleftrightarrow> after_key cursor r \<and> ey_payload_expiry r \<le> now_ms \<and> list_ex (\<lambda>t. snd t \<noteq> None) (ey_texts r)"

definition eval_swept :: "('a eval_row_scheme \<Rightarrow> bool) \<Rightarrow> 'a eval_row_scheme \<Rightarrow> 'a eval_row_scheme" where
  "eval_swept P r = (if P r then clear_texts r else r)"

lemma eval_swept_fixed [simp]: "ey_key (eval_swept P r) = ey_key r" "ey_finding_id (eval_swept P r) = ey_finding_id r"
  by (simp_all add: eval_swept_def)

lemma eval_rows_texts:
  "fst (foldl (eval_gc_row env now_ms table pins) st rows) =
    map (\<lambda>e. if \<exists>r \<in> set rows. ey_key r = ey_key e \<and> ey_finding_id r \<notin> set pins then clear_texts e else e) (fst st)"
proof (induction rows arbitrary: st)
  case (Cons r rows)
  then show ?case by (auto simp: eval_gc_row_def)
qed simp

lemma eval_batch:
  assumes "distinct (map ey_key es)"
  shows "length (eval_candidates now_ms cursor es) < GC_BATCH \<Longrightarrow> set (eval_candidates now_ms cursor es) = {r \<in> set es. eval_candidate now_ms cursor r}"
    and "\<not> length (eval_candidates now_ms cursor es) < GC_BATCH \<Longrightarrow> set (eval_candidates now_ms cursor es) =
      {r \<in> set es. eval_candidate now_ms cursor r \<and> ey_key r \<le> ey_key (last (eval_candidates now_ms cursor es))}"
proof -
  let ?xs = "sort_key ey_key (filter (eval_candidate now_ms cursor) es)"
  have c: "eval_candidates now_ms cursor es = take GC_BATCH ?xs" by (simp add: eval_candidates_def eval_candidate_def[abs_def] after_key_def)
  have d: "distinct (map ey_key ?xs)" using assms by (simp add: distinct_map inj_on_def)
  have xs: "set ?xs = {r \<in> set es. eval_candidate now_ms cursor r}" by auto
  show "length (eval_candidates now_ms cursor es) < GC_BATCH \<Longrightarrow> set (eval_candidates now_ms cursor es) = {r \<in> set es. eval_candidate now_ms cursor r}"
    unfolding c using xs by simp
  show "set (eval_candidates now_ms cursor es) = {r \<in> set es. eval_candidate now_ms cursor r \<and> ey_key r \<le> ey_key (last (eval_candidates now_ms cursor es))}"
    if "\<not> length (eval_candidates now_ms cursor es) < GC_BATCH"
  proof -
    have "length (take GC_BATCH ?xs) \<noteq> 0" using that unfolding c GC_BATCH_def by simp
    then have "take GC_BATCH ?xs \<noteq> []" by blast
    then show ?thesis using take_sorted[OF _ d, of GC_BATCH] xs unfolding c by auto
  qed
qed

lemma eval_batch_clears:
  assumes "distinct (map ey_key (fst st))" "set rows = {r \<in> set (fst st). C r}"
  shows "fst (foldl (eval_gc_row env now_ms table pins) st rows) = map (eval_swept (\<lambda>r. C r \<and> ey_finding_id r \<notin> set pins)) (fst st)"
  unfolding eval_rows_texts
proof (rule map_cong[OF refl])
  fix e assume e: "e \<in> set (fst st)"
  have "(\<exists>r \<in> set rows. ey_key r = ey_key e \<and> ey_finding_id r \<notin> set pins) \<longleftrightarrow> C e \<and> ey_finding_id e \<notin> set pins"
    using assms e unfolding distinct_map inj_on_def assms(2) by auto
  then show "(if \<exists>r \<in> set rows. ey_key r = ey_key e \<and> ey_finding_id r \<notin> set pins then clear_texts e else e)
      = eval_swept (\<lambda>r. C r \<and> ey_finding_id r \<notin> set pins) e" by (simp add: eval_swept_def)
qed

lemma gc_eval_all:
  assumes "distinct (map ey_key (fst st))" "list_all (\<lambda>f. f = None) faults" "pins_of (fst st) = pins"
    and "\<And>P rows. pins_of (map (eval_swept P) rows) = pins_of rows"
  shows "\<exists>n st'. gc_eval env now_ms table pins_of faults cursor cleared st = (Inr n, st')
    \<and> fst st' = map (eval_swept (\<lambda>r. eval_candidate now_ms cursor r \<and> ey_finding_id r \<notin> set pins)) (fst st)"
  using assms
proof (induction env now_ms table pins_of faults cursor cleared st rule: gc_eval.induct)
  case (1 env now_ms table pins_of faults cursor cleared st)
  let ?rows = "eval_candidates now_ms cursor (fst st)"
  let ?st = "foldl (eval_gc_row env now_ms table pins) st ?rows"
  let ?l = "ey_key (last ?rows)"
  let ?n = "length (filter (\<lambda>r. ey_finding_id r \<notin> set pins) ?rows)"
  have f: "\<nexists>e fs. faults = Some e # fs" using "1.prems"(2) by (cases faults) auto
  have step: "gc_eval env now_ms table pins_of faults cursor cleared st =
      (if length ?rows < GC_BATCH then (Inr (cleared + ?n), ?st)
       else gc_eval env now_ms table pins_of (tl faults) (Some ?l) (cleared + ?n) ?st)"
    using f "1.prems"(3) by (subst gc_eval.simps) (auto simp: Let_def split: list.split option.split)
  note batch = eval_batch[OF "1.prems"(1), of now_ms cursor]
  show ?case
  proof (cases "length ?rows < GC_BATCH")
    case True
    then show ?thesis using step eval_batch_clears[OF "1.prems"(1) batch(1)[OF True]] by auto
  next
    case False
    let ?C = "\<lambda>r. eval_candidate now_ms cursor r \<and> ey_key r \<le> ?l"
    have s: "set ?rows = {r \<in> set (fst st). ?C r}" by (rule batch(2)[OF False])
    have lc: "after_key cursor (last ?rows)" using eval_batch_last(2)[OF False] .
    let ?f = "eval_swept (\<lambda>r. ?C r \<and> ey_finding_id r \<notin> set pins)"
    have ev: "fst ?st = map ?f (fst st)" by (rule eval_batch_clears[OF "1.prems"(1) s])
    have f': "list_all (\<lambda>f. f = None) (tl faults)" using "1.prems"(2) by (cases faults) auto
    have d': "distinct (map ey_key (fst ?st))" "pins_of (fst ?st) = pins" using "1.prems"(1,3,4) by (simp_all add: ev comp_def)
    obtain n st' where ih: "gc_eval env now_ms table pins_of (tl faults) (Some ?l) (cleared + ?n) ?st = (Inr n, st')"
      "fst st' = map (eval_swept (\<lambda>r. eval_candidate now_ms (Some ?l) r \<and> ey_finding_id r \<notin> set pins)) (fst ?st)"
      using "1.IH"(1)[OF _ refl refl refl refl] "1.IH"(2)[OF _ _ refl refl refl refl] False "1.prems"(3,4) d' f' f
      by (cases faults) auto
    have "after_key cursor r" if "after_key (Some ?l) r" for r :: "'z eval_row_scheme" using that lc by (cases cursor) (auto simp: after_key_def)
    then have "eval_swept (\<lambda>r. eval_candidate now_ms (Some ?l) r \<and> ey_finding_id r \<notin> set pins) (?f r)
        = eval_swept (\<lambda>r. eval_candidate now_ms cursor r \<and> ey_finding_id r \<notin> set pins) r" for r
      by (auto simp: eval_swept_def eval_candidate_def after_key_def)
    then have "fst st' = map (eval_swept (\<lambda>r. eval_candidate now_ms cursor r \<and> ey_finding_id r \<notin> set pins)) (fst st)"
      unfolding ih(2) ev map_map comp_def by (intro map_cong refl) blast
    then show ?thesis using step False ih(1) by simp
  qed
qed

lemma clear_texts_none: "\<not> list_ex (\<lambda>t. snd t \<noteq> None) (ey_texts r) \<Longrightarrow> clear_texts r = r"
proof -
  assume "\<not> list_ex (\<lambda>t. snd t \<noteq> None) (ey_texts r)"
  then have "map (\<lambda>t. (fst t, None)) (ey_texts r) = ey_texts r" by (induction "ey_texts r" arbitrary: r) (auto simp: list_ex_iff intro!: map_idI prod_eqI)
  then show ?thesis by (simp add: clear_texts_def)
qed

lemma eval_swept_all:
  "eval_swept (\<lambda>r. eval_candidate now_ms None r \<and> ey_finding_id r \<notin> S) r =
    (if ey_payload_expiry r \<le> now_ms \<and> ey_finding_id r \<notin> S then clear_texts r else r)"
  using clear_texts_none[of r] by (auto simp: eval_swept_def eval_candidate_def after_key_def)

text \<open>Clearing notes changes no pin.\<close>

lemma verdict_swept [simp]:
  "vd_verdict (eval_swept P v) = vd_verdict v" "vd_auto (eval_swept P v) = vd_auto v" "vd_decided_at (eval_swept P v) = vd_decided_at v"
  by (simp_all add: eval_swept_def clear_texts_def)

lemma effective_swept: "effective_verdict (map (eval_swept P) rows) f = map_option (eval_swept P) (effective_verdict rows f)"
proof -
  have b: "verdict_before (eval_swept P v) (eval_swept P w) = verdict_before v w" for v w by (simp add: verdict_before_def)
  have "find (\<lambda>v. list_all (\<lambda>w. \<not> verdict_before w v) (map (eval_swept P) ys)) (map (eval_swept P) xs)
      = map_option (eval_swept P) (find (\<lambda>v. list_all (\<lambda>w. \<not> verdict_before w v) ys) xs)" for xs ys
    by (induction xs) (simp_all add: b list_all_iff)
  then show ?thesis by (simp add: effective_verdict_def Let_def filter_map comp_def)
qed

lemma eval_pins_swept: "eval_payload_pins (map (eval_swept P) rows) = eval_payload_pins rows"
  by (simp add: eval_payload_pins_def effective_swept comp_def option.case_eq_if option.map_sel cong: filter_cong)

text \<open>
  C13 (gc_exact): a sweep in which nothing fails clears exactly the events' payloads that are expired and not cited as evidence, and exactly the
  expired texts of findings whose effective verdict is not an acceptance, whatever their number and order: the batches neither skip a
  row nor stall on the pinned ones. The report counts the events cleared.
\<close>

theorem gc_exact:
  assumes "event_payload_pins env db = Inr pins" "distinct (map py_id (pd_events db))"
    and "list_all (\<lambda>r. i64_min \<le> py_id r \<and> py_id r \<le> i64_max) (pd_events db)"
    and "distinct (map ey_key (pd_findings db))" "distinct (map ey_key (pd_verdicts db))"
    and "gf_start fs = None" "list_all (\<lambda>f. f = None) (gf_events fs @ gf_findings fs @ gf_verdicts fs)"
  shows "case gc_event_payloads env now_ms True fs checkpoint db of
      (Inl e, db') \<Rightarrow> False
    | (Inr rep, db') \<Rightarrow>
        pd_events db' = map (\<lambda>r. if gc_due now_ms pins r then clear_payload r else r) (pd_events db)
        \<and> gr_events_cleared rep = length (filter (gc_due now_ms pins) (pd_events db))
        \<and> pd_findings db' = map (\<lambda>r. if ey_payload_expiry r \<le> now_ms \<and> ey_finding_id r \<notin> set (eval_payload_pins (pd_verdicts db))
             then clear_texts r else r) (pd_findings db)
        \<and> pd_verdicts db' = map (\<lambda>r. if ey_payload_expiry r \<le> now_ms \<and> ey_finding_id r \<notin> set (eval_payload_pins (pd_verdicts db))
             then clear_texts r else r) (pd_verdicts db)"
proof -
  let ?top = "unwrap_or (sql_max (map py_id (pd_events db))) 0"
  have top: "py_id r \<le> ?top" if r: "r \<in> set (pd_events db)" for r
  proof (cases "sql_max (map py_id (pd_events db))")
    case None
    then show ?thesis using r by (cases "pd_events db"; cases "sql_max (map py_id (tl (pd_events db)))") simp_all
  next
    case (Some m)
    then show ?thesis using sql_max_Some[OF Some] r by simp
  qed
  have c: "gc_candidate now_ms i64_min ?top r \<and> py_id r \<notin> set pins \<longleftrightarrow> gc_due now_ms pins r" if "r \<in> set (pd_events db)" for r
    using that top assms(3) by (auto simp: gc_candidate_def gc_due_def list_all_iff)
  obtain db1 where e: "gc_events env now_ms ?top (gf_events fs) i64_min 0 db = (Inr (length (filter (gc_due now_ms pins) (pd_events db))), db1)"
      "pd_events db1 = map (\<lambda>r. if gc_due now_ms pins r then clear_payload r else r) (pd_events db)"
    using gc_events_all[OF assms(1,2), of "gf_events fs" now_ms ?top i64_min 0] assms(3,7) c
    by (auto simp: list_all_iff swept_def cong: filter_cong)
  have frame: "pd_findings db1 = pd_findings db \<and> pd_verdicts db1 = pd_verdicts db"
    using gc_events_rule[of "\<lambda>d. pd_findings d = pd_findings db \<and> pd_verdicts d = pd_verdicts db" env now_ms ?top db "gf_events fs" i64_min 0]
    by (simp add: e(1) gc_rows_frame)
  let ?S = "set (eval_payload_pins (pd_verdicts db))"
  obtain n rows rcs where f: "gc_eval env now_ms ''eval_findings'' (\<lambda>_. eval_payload_pins (pd_verdicts db1)) (gf_findings fs) None 0
        (pd_findings db1, pd_receipts db1) = (Inr n, rows, rcs)"
      "rows = map (\<lambda>r. if ey_payload_expiry r \<le> now_ms \<and> ey_finding_id r \<notin> ?S then clear_texts r else r) (pd_findings db)"
    using gc_eval_all[of "(pd_findings db1, pd_receipts db1)" "gf_findings fs" "\<lambda>_. eval_payload_pins (pd_verdicts db1)" _ env now_ms "''eval_findings''" None 0]
      assms(4,7) frame by (auto simp: eval_swept_all)
  obtain n' vs rcs' where v: "gc_eval env now_ms ''eval_verdicts'' eval_payload_pins (gf_verdicts fs) None 0 (pd_verdicts db, rcs) = (Inr n', vs, rcs')"
      "vs = map (\<lambda>r. if ey_payload_expiry r \<le> now_ms \<and> ey_finding_id r \<notin> ?S then clear_texts r else r) (pd_verdicts db)"
    using gc_eval_all[of "(pd_verdicts db, rcs)" "gf_verdicts fs" eval_payload_pins _ env now_ms "''eval_verdicts''" None 0, OF _ _ refl eval_pins_swept]
      assms(5,7) by (auto simp: eval_swept_all)
  show ?thesis using assms(6) e f v frame by (simp add: gc_event_payloads_def Let_def)
qed

theorem gc_exact_witness:
  "case gc_event_payloads \<lparr>ge_sha256 = id, ge_parse_strings = \<lambda>t. Some [t]\<rparr> 9000000000 True
      \<lparr>gf_start = None, gf_events = [None], gf_findings = [], gf_verdicts = []\<rparr> (Inr (0, 4))
      \<lparr>pd_events = [\<lparr>py_id = 1, py_created_at = 0, py_payload_expiry = None, py_stdout = Some ''out'', py_stderr = None, py_env_snapshot_id = None\<rparr>,
                    \<lparr>py_id = 2, py_created_at = 0, py_payload_expiry = Some 5, py_stdout = Some ''kept'', py_stderr = None, py_env_snapshot_id = None\<rparr>],
       pd_snapshots = [], pd_receipts = [], pd_node_evidence = Some [(''shell'', ''2'')], pd_epitaphs = Some [None, Some ''browser-7''],
       pd_findings = [\<lparr>ey_key = ''f'', ey_finding_id = ''f'', ey_payload_expiry = 3, ey_texts = [(''claim'', Some ''c'')]\<rparr>], pd_verdicts = []\<rparr> of
      (Inl e, db') \<Rightarrow> False
    | (Inr rep, db') \<Rightarrow> gr_events_cleared rep = 1 \<and> map py_stdout (pd_events db') = [None, Some ''kept''] \<and> map ey_texts (pd_findings db') = [[(''claim'', None)]]"
  (is "case gc_event_payloads ?env _ _ ?fs ?cp ?db of (Inl e, db') \<Rightarrow> False | (Inr rep, db') \<Rightarrow> _ rep db'")
proof -
  have p: "event_payload_pins ?env ?db = Inr [2]" by code_simp
  have l: "list_all (\<lambda>r. i64_min \<le> py_id r \<and> py_id r \<le> i64_max) (pd_events ?db)" by code_simp
  have q: "eval_payload_pins [] = []" by code_simp
  show ?thesis
    using gc_exact[of ?env ?db "[2]" ?fs 9000000000 ?cp, OF p _ l]
    by (auto simp: q gc_due_def payload_expired_def has_payload_def PAYLOAD_TTL_MS_def clear_payload_def clear_texts_def split: prod.splits sum.splits)
qed

subsection \<open>Nothing disappears without a receipt\<close>

text \<open>The receipts the payloads of the database would get: the digest of each payload under its name.\<close>

definition snapshot_receipts :: "gc_env \<Rightarrow> int \<Rightarrow> snapshot_row \<Rightarrow> receipt list" where
  "snapshot_receipts env now_ms s = (if sn_env_json s = [] then []
     else [gc_receipt env now_ms (''env_snapshots/'' @ int_str (sn_id s) @ ''/env_json'') (sn_env_json s)])"

definition row_payloads :: "gc_env \<Rightarrow> int \<Rightarrow> payload_db \<Rightarrow> receipt set" where
  "row_payloads env now_ms db = \<Union> (set ` row_receipts env now_ms ` set (pd_events db)) \<union> \<Union> (set ` snapshot_receipts env now_ms ` set (pd_snapshots db))"

definition text_payloads :: "gc_env \<Rightarrow> int \<Rightarrow> string \<Rightarrow> 'a eval_row_scheme list \<Rightarrow> receipt set" where
  "text_payloads env now_ms table rows = \<Union> (set ` eval_receipts env now_ms table ` set rows)"

lemma drop_snapshot_receipts:
  assumes "distinct (map sn_id (pd_snapshots db))"
  shows "set (pd_receipts db) \<union> row_payloads env now_ms db
      \<subseteq> set (pd_receipts (drop_snapshot env now_ms i db)) \<union> row_payloads env now_ms (drop_snapshot env now_ms i db)"
    and "map sn_id (pd_snapshots (drop_snapshot env now_ms i db)) = map sn_id (pd_snapshots db)"
proof -
  show "map sn_id (pd_snapshots (drop_snapshot env now_ms i db)) = map sn_id (pd_snapshots db)"
    by (auto simp: drop_snapshot_def split: option.split)
  show "set (pd_receipts db) \<union> row_payloads env now_ms db
      \<subseteq> set (pd_receipts (drop_snapshot env now_ms i db)) \<union> row_payloads env now_ms (drop_snapshot env now_ms i db)"
  proof (cases "drop_snapshot env now_ms i db = db")
    case False
    then obtain j s where s: "i = Some j" "find (\<lambda>s. sn_id s = j \<and> sn_env_json s \<noteq> []) (pd_snapshots db) = Some s"
      "drop_snapshot env now_ms i db = db\<lparr>pd_receipts := pd_receipts db @ [gc_receipt env now_ms (''env_snapshots/'' @ int_str j @ ''/env_json'') (sn_env_json s)],
         pd_snapshots := map (\<lambda>s. if sn_id s = j then s\<lparr>sn_env_json := []\<rparr> else s) (pd_snapshots db)\<rparr>"
      by (auto simp: drop_snapshot_def split: option.splits if_splits)
    have m: "s \<in> set (pd_snapshots db)" "sn_id s = j" using s(2) by (auto simp: find_Some_iff)
    have u: "t = s" if "t \<in> set (pd_snapshots db)" "sn_id t = j" for t
      using assms that m by (auto simp: distinct_map inj_on_def)
    have "set (snapshot_receipts env now_ms t) \<subseteq> set (pd_receipts (drop_snapshot env now_ms i db)) \<union> row_payloads env now_ms (drop_snapshot env now_ms i db)"
      if t: "t \<in> set (pd_snapshots db)" for t
    proof (cases "sn_id t = j")
      case True
      then show ?thesis using u[OF t] m by (auto simp: snapshot_receipts_def s(3))
    next
      case False
      then show ?thesis using t by (auto simp: s(3) row_payloads_def)
    qed
    then show ?thesis by (auto simp: row_payloads_def s(3))
  qed simp
qed

lemma gc_row_receipts:
  assumes "distinct (map sn_id (pd_snapshots db))" "\<And>e. e \<in> set (pd_events db) \<Longrightarrow> py_id e = py_id r \<Longrightarrow> e = r"
  shows "set (pd_receipts db) \<union> row_payloads env now_ms db \<subseteq> set (pd_receipts (gc_row env now_ms pins db r)) \<union> row_payloads env now_ms (gc_row env now_ms pins db r)"
    and "map sn_id (pd_snapshots (gc_row env now_ms pins db r)) = map sn_id (pd_snapshots db)"
proof -
  let ?db = "db\<lparr>pd_receipts := pd_receipts db @ row_receipts env now_ms r,
    pd_events := map (\<lambda>e. if py_id e = py_id r then clear_payload e else e) (pd_events db)\<rparr>"
  have "set (row_receipts env now_ms e) \<subseteq> set (row_receipts env now_ms r) \<union> row_payloads env now_ms ?db" if e: "e \<in> set (pd_events db)" for e
    using assms(2)[OF e] e by (cases "py_id e = py_id r") (auto simp: row_payloads_def)
  then have "set (pd_receipts db) \<union> row_payloads env now_ms db \<subseteq> set (pd_receipts ?db) \<union> row_payloads env now_ms ?db"
    by (auto simp: row_payloads_def)
  then show "set (pd_receipts db) \<union> row_payloads env now_ms db \<subseteq> set (pd_receipts (gc_row env now_ms pins db r)) \<union> row_payloads env now_ms (gc_row env now_ms pins db r)"
    using drop_snapshot_receipts(1)[of ?db env now_ms "py_env_snapshot_id r"] assms(1) by (auto simp: gc_row_def)
  show "map sn_id (pd_snapshots (gc_row env now_ms pins db r)) = map sn_id (pd_snapshots db)"
    using drop_snapshot_receipts(2)[of ?db] assms(1) by (simp add: gc_row_def)
qed

text \<open>What is accounted for: what is there and what has a receipt.\<close>

definition accounted :: "gc_env \<Rightarrow> int \<Rightarrow> payload_db \<Rightarrow> receipt set" where
  "accounted env now_ms db = set (pd_receipts db) \<union> row_payloads env now_ms db"

lemma gc_rows_receipts:
  assumes "distinct (map sn_id (pd_snapshots db))" "distinct (map py_id (pd_events db))" "set rows \<subseteq> set (pd_events db)" "distinct rows"
  shows "accounted env now_ms db \<subseteq> accounted env now_ms (foldl (gc_row env now_ms pins) db rows)
    \<and> map sn_id (pd_snapshots (foldl (gc_row env now_ms pins) db rows)) = map sn_id (pd_snapshots db)"
  using assms
proof (induction rows arbitrary: db)
  case (Cons r rows)
  let ?db = "gc_row env now_ms pins db r"
  have one: "e = r" if "e \<in> set (pd_events db)" "py_id e = py_id r" for e
  proof -
    have "inj_on py_id (set (pd_events db))" "r \<in> set (pd_events db)" using Cons.prems(2,3) by (simp_all add: distinct_map)
    then show ?thesis using that by (blast dest: inj_onD)
  qed
  have row: "accounted env now_ms db \<subseteq> accounted env now_ms ?db" "map sn_id (pd_snapshots ?db) = map sn_id (pd_snapshots db)"
    unfolding accounted_def by (rule gc_row_receipts[OF Cons.prems(1) one]; assumption)+
  have "set rows \<subseteq> set (pd_events ?db)"
  proof
    fix x assume "x \<in> set rows"
    then have x: "x \<in> set (pd_events db)" "x \<noteq> r" using Cons.prems(3,4) by auto
    then have "py_id x \<noteq> py_id r" using one by blast
    then show "x \<in> set (pd_events ?db)" unfolding gc_row_events using x(1) by (auto simp: image_iff)
  qed
  moreover have "distinct (map sn_id (pd_snapshots ?db))" using row(2) Cons.prems(1) by simp
  moreover have "distinct (map py_id (pd_events ?db))" using Cons.prems(2) by (simp only: gc_row_ids)
  moreover have "distinct rows" using Cons.prems(4) by simp
  ultimately have "accounted env now_ms ?db \<subseteq> accounted env now_ms (foldl (gc_row env now_ms pins) ?db rows)
    \<and> map sn_id (pd_snapshots (foldl (gc_row env now_ms pins) ?db rows)) = map sn_id (pd_snapshots ?db)" by (intro Cons.IH)
  then have a: "accounted env now_ms ?db \<subseteq> accounted env now_ms (foldl (gc_row env now_ms pins) ?db rows)"
    and b: "map sn_id (pd_snapshots (foldl (gc_row env now_ms pins) ?db rows)) = map sn_id (pd_snapshots ?db)" by (rule conjunct1, rule conjunct2)
  show ?case unfolding foldl_Cons by (rule conjI[OF subset_trans[OF row(1) a] trans[OF b row(2)]])
qed simp

lemma gc_candidates_set: "set (gc_candidates now_ms cursor top_id es) \<subseteq> set es"
  unfolding gc_candidates_def using set_take_subset by fastforce

lemma gc_events_receipts:
  assumes "distinct (map sn_id (pd_snapshots db))" "distinct (map py_id (pd_events db))"
  shows "accounted env now_ms db \<subseteq> accounted env now_ms (snd (gc_events env now_ms top_id faults cursor cleared db))"
proof -
  let ?P = "\<lambda>d. distinct (map sn_id (pd_snapshots d)) \<and> distinct (map py_id (pd_events d)) \<and> accounted env now_ms db \<subseteq> accounted env now_ms d"
  have "?P (snd (gc_events env now_ms top_id faults cursor cleared db))"
  proof (rule gc_events_rule[where P = ?P])
    show "?P (foldl (gc_row env now_ms pins) d (gc_candidates now_ms c top_id (pd_events d)))" if P: "?P d" for c d pins
    proof -
      have r: "accounted env now_ms d \<subseteq> accounted env now_ms (foldl (gc_row env now_ms pins) d (gc_candidates now_ms c top_id (pd_events d)))
        \<and> map sn_id (pd_snapshots (foldl (gc_row env now_ms pins) d (gc_candidates now_ms c top_id (pd_events d)))) = map sn_id (pd_snapshots d)"
        by (rule gc_rows_receipts) (use P gc_candidates_set gc_batch(3) in blast)+
      then show ?thesis using P by (auto simp: gc_rows_ids)
    qed
  qed (use assms in simp)
  then show ?thesis by blast
qed

lemma eval_rows_receipts:
  assumes "distinct (map ey_key (fst st))" "set rows \<subseteq> set (fst st)" "distinct rows"
  shows "set (snd st) \<union> text_payloads env now_ms table (fst st)
    \<subseteq> set (snd (foldl (eval_gc_row env now_ms table pins) st rows)) \<union> text_payloads env now_ms table (fst (foldl (eval_gc_row env now_ms table pins) st rows))"
  using assms
proof (induction rows arbitrary: st)
  case (Cons r rows)
  let ?st = "eval_gc_row env now_ms table pins st r"
  have one: "e = r" if "e \<in> set (fst st)" "ey_key e = ey_key r" for e
  proof -
    have "inj_on ey_key (set (fst st))" "r \<in> set (fst st)" using Cons.prems(1,2) by (simp_all add: distinct_map)
    then show ?thesis using that by (blast dest: inj_onD)
  qed
  have "set (eval_receipts env now_ms table e) \<subseteq> set (snd ?st) \<union> text_payloads env now_ms table (fst ?st)" if e: "e \<in> set (fst st)" for e
  proof (cases "ey_key e = ey_key r \<and> ey_finding_id r \<notin> set pins")
    case True
    then show ?thesis using one[OF e] by (auto simp: eval_gc_row_def)
  next
    case False
    then have "e \<in> set (fst ?st)" using e by (auto simp: eval_gc_row_def image_iff)
    then show ?thesis unfolding text_payloads_def by blast
  qed
  moreover have "set (snd st) \<subseteq> set (snd ?st)" by (simp add: eval_gc_row_def)
  ultimately have row: "set (snd st) \<union> text_payloads env now_ms table (fst st) \<subseteq> set (snd ?st) \<union> text_payloads env now_ms table (fst ?st)"
    unfolding text_payloads_def[of _ _ _ "fst st"] by blast
  have "set rows \<subseteq> set (fst ?st)"
  proof
    fix x assume "x \<in> set rows"
    then have x: "x \<in> set (fst st)" "x \<noteq> r" using Cons.prems(2,3) by auto
    then have "ey_key x \<noteq> ey_key r" using one by blast
    then show "x \<in> set (fst ?st)" using x(1) by (auto simp: eval_gc_row_def image_iff)
  qed
  moreover have "distinct (map ey_key (fst ?st))" using Cons.prems(1) eval_rows_keys[of env now_ms table pins st "[r]"] by simp
  moreover have "distinct rows" using Cons.prems(3) by simp
  ultimately show ?case unfolding foldl_Cons using subset_trans[OF row] Cons.IH by blast
qed simp

lemma eval_candidates_set: "set (eval_candidates now_ms cursor es) \<subseteq> set es"
  unfolding eval_candidates_def using set_take_subset by fastforce

lemma eval_candidates_distinct: "distinct (map ey_key es) \<Longrightarrow> distinct (eval_candidates now_ms cursor es)"
  unfolding eval_candidates_def by (intro distinct_take) (simp add: distinct_map)

lemma gc_eval_receipts:
  assumes "distinct (map ey_key (fst st))"
  shows "set (snd st) \<union> text_payloads env now_ms table (fst st)
    \<subseteq> set (snd (snd (gc_eval env now_ms table pins_of faults cursor cleared st)))
      \<union> text_payloads env now_ms table (fst (snd (gc_eval env now_ms table pins_of faults cursor cleared st)))"
proof -
  let ?P = "\<lambda>s. distinct (map ey_key (fst s)) \<and> set (snd st) \<union> text_payloads env now_ms table (fst st) \<subseteq> set (snd s) \<union> text_payloads env now_ms table (fst s)"
  have "?P (snd (gc_eval env now_ms table pins_of faults cursor cleared st))"
  proof (rule gc_eval_rule[where P = ?P])
    show "?P (foldl (eval_gc_row env now_ms table (pins_of (fst s))) s (eval_candidates now_ms c (fst s)))" if P: "?P s" for c s
      using P subset_trans[OF _ eval_rows_receipts[OF _ eval_candidates_set eval_candidates_distinct]] by (simp only: eval_rows_keys simp_thms) blast
  qed (use assms in simp)
  then show ?thesis by blast
qed

subsection \<open>The whole sweep\<close>

text \<open>What its three loops keep, the sweep keeps, wherever it stops.\<close>

lemma gc_sweep_rule:
  assumes "P db" "\<And>top_id. P (snd (gc_events env now_ms top_id (gf_events fs) i64_min 0 db))"
    and "\<And>d rows rcs res. P d \<Longrightarrow> gc_eval env now_ms ''eval_findings'' (\<lambda>_. eval_payload_pins (pd_verdicts d)) (gf_findings fs) None 0
        (pd_findings d, pd_receipts d) = (res, rows, rcs) \<Longrightarrow> P (d\<lparr>pd_findings := rows, pd_receipts := rcs\<rparr>)"
    and "\<And>d rows rcs res. P d \<Longrightarrow> gc_eval env now_ms ''eval_verdicts'' eval_payload_pins (gf_verdicts fs) None 0
        (pd_verdicts d, pd_receipts d) = (res, rows, rcs) \<Longrightarrow> P (d\<lparr>pd_verdicts := rows, pd_receipts := rcs\<rparr>)"
  shows "P (snd (gc_event_payloads env now_ms autocommit fs checkpoint db))"
proof (cases "\<not> autocommit \<or> gf_start fs \<noteq> None")
  case True
  then show ?thesis using assms(1) by (auto simp: gc_event_payloads_def split: option.split)
next
  case False
  then have a: "autocommit" "gf_start fs = None" by simp_all
  obtain res1 db1 where e: "gc_events env now_ms (unwrap_or (sql_max (map py_id (pd_events db))) 0) (gf_events fs) i64_min 0 db = (res1, db1)"
    by fastforce
  have P1: "P db1" using assms(2)[of "unwrap_or (sql_max (map py_id (pd_events db))) 0"] by (simp only: e snd_conv)
  obtain res2 rows rcs where f: "gc_eval env now_ms ''eval_findings'' (\<lambda>_. eval_payload_pins (pd_verdicts db1)) (gf_findings fs) None 0
      (pd_findings db1, pd_receipts db1) = (res2, rows, rcs)" by (metis prod_cases3)
  let ?db2 = "db1\<lparr>pd_findings := rows, pd_receipts := rcs\<rparr>"
  have P2: "P ?db2" by (rule assms(3)[OF P1 f])
  obtain res3 vs rcs' where v: "gc_eval env now_ms ''eval_verdicts'' eval_payload_pins (gf_verdicts fs) None 0
      (pd_verdicts ?db2, pd_receipts ?db2) = (res3, vs, rcs')" by (metis prod_cases3)
  have P3: "P (?db2\<lparr>pd_verdicts := vs, pd_receipts := rcs'\<rparr>)" by (rule assms(4)[OF P2 v])
  show ?thesis
    using P1 P2 P3 v by (cases res1; cases res2; cases res3) (simp_all add: gc_event_payloads_def a e f)
qed

text \<open>The payloads of a database, each as the receipt it would get.\<close>

definition all_payloads :: "gc_env \<Rightarrow> int \<Rightarrow> payload_db \<Rightarrow> receipt set" where
  "all_payloads env now_ms db = row_payloads env now_ms db
     \<union> text_payloads env now_ms ''eval_findings'' (pd_findings db) \<union> text_payloads env now_ms ''eval_verdicts'' (pd_verdicts db)"

lemma eval_loop_keys: "map ey_key (fst (snd (gc_eval env now_ms table pins_of faults cursor cleared st))) = map ey_key (fst st)"
  by (rule gc_eval_rule[where P = "\<lambda>s. map ey_key (fst s) = map ey_key (fst st)"]) (simp_all only: eval_rows_keys)

text \<open>
  C11 (gc_receipts): every payload of the database (the output and the environment reference of an event, the bytes of a snapshot, a text of the
  evaluations) is, after the sweep, still there or has a receipt with the digest of its content and its name, and no receipt is lost. This
  holds whichever statement of whichever batch fails, and whatever the citations.
\<close>

theorem gc_receipts:
  assumes "distinct (map sn_id (pd_snapshots db))" "distinct (map py_id (pd_events db))"
    and "distinct (map ey_key (pd_findings db))" "distinct (map ey_key (pd_verdicts db))"
  shows "set (pd_receipts db) \<union> all_payloads env now_ms db
    \<subseteq> set (pd_receipts (snd (gc_event_payloads env now_ms autocommit fs checkpoint db)))
      \<union> all_payloads env now_ms (snd (gc_event_payloads env now_ms autocommit fs checkpoint db))"
proof -
  let ?P = "\<lambda>d. distinct (map ey_key (pd_findings d)) \<and> distinct (map ey_key (pd_verdicts d))
    \<and> set (pd_receipts db) \<union> all_payloads env now_ms db \<subseteq> set (pd_receipts d) \<union> all_payloads env now_ms d"
  have "?P (snd (gc_event_payloads env now_ms autocommit fs checkpoint db))"
  proof (rule gc_sweep_rule[where P = ?P])
    show "?P db" using assms(3,4) by blast
  next
    fix top_id
    let ?d = "snd (gc_events env now_ms top_id (gf_events fs) i64_min 0 db)"
    have "pd_findings ?d = pd_findings db \<and> pd_verdicts ?d = pd_verdicts db"
      by (rule gc_events_rule[where P = "\<lambda>d. pd_findings d = pd_findings db \<and> pd_verdicts d = pd_verdicts db"]) (simp_all add: gc_rows_frame)
    then show "?P ?d" using assms(3,4) gc_events_receipts[OF assms(1,2), of env now_ms top_id "gf_events fs" i64_min 0]
      by (auto simp: all_payloads_def accounted_def)
  next
    fix d rows rcs res
    assume P: "?P d" and g: "gc_eval env now_ms ''eval_findings'' (\<lambda>_. eval_payload_pins (pd_verdicts d)) (gf_findings fs) None 0
      (pd_findings d, pd_receipts d) = (res, rows, rcs)"
    have k: "map ey_key rows = map ey_key (pd_findings d)" using eval_loop_keys[where st = "(pd_findings d, pd_receipts d)"] g by (metis fst_conv snd_conv)
    have r: "set (pd_receipts d) \<union> text_payloads env now_ms ''eval_findings'' (pd_findings d) \<subseteq> set rcs \<union> text_payloads env now_ms ''eval_findings'' rows"
      using gc_eval_receipts[where st = "(pd_findings d, pd_receipts d)"] P g by (metis fst_conv snd_conv)
    show "?P (d\<lparr>pd_findings := rows, pd_receipts := rcs\<rparr>)" using P k r by (auto simp: all_payloads_def row_payloads_def)
  next
    fix d rows rcs res
    assume P: "?P d" and g: "gc_eval env now_ms ''eval_verdicts'' eval_payload_pins (gf_verdicts fs) None 0 (pd_verdicts d, pd_receipts d) = (res, rows, rcs)"
    have k: "map ey_key rows = map ey_key (pd_verdicts d)" using eval_loop_keys[where st = "(pd_verdicts d, pd_receipts d)"] g by (metis fst_conv snd_conv)
    have r: "set (pd_receipts d) \<union> text_payloads env now_ms ''eval_verdicts'' (pd_verdicts d) \<subseteq> set rcs \<union> text_payloads env now_ms ''eval_verdicts'' rows"
      using gc_eval_receipts[where st = "(pd_verdicts d, pd_receipts d)"] P g by (metis fst_conv snd_conv)
    show "?P (d\<lparr>pd_verdicts := rows, pd_receipts := rcs\<rparr>)" using P k r by (auto simp: all_payloads_def row_payloads_def)
  qed
  then show ?thesis by blast
qed

theorem gc_receipts_witness:
  "gc_receipt \<lparr>ge_sha256 = rev, ge_parse_strings = \<lambda>t. None\<rparr> 9000000000 ''events/1/stdout'' ''out''
    \<in> set (pd_receipts (snd (gc_event_payloads \<lparr>ge_sha256 = rev, ge_parse_strings = \<lambda>t. None\<rparr> 9000000000 True
        \<lparr>gf_start = None, gf_events = [], gf_findings = [Some ''disk full''], gf_verdicts = []\<rparr> (Inr (0, 4))
        \<lparr>pd_events = [\<lparr>py_id = 1, py_created_at = 0, py_payload_expiry = None, py_stdout = Some ''out'', py_stderr = None, py_env_snapshot_id = Some 4\<rparr>],
         pd_snapshots = [\<lparr>sn_id = 4, sn_env_json = ''{}''\<rparr>], pd_receipts = [], pd_node_evidence = None, pd_epitaphs = None, pd_findings = [], pd_verdicts = []\<rparr>)))
      \<union> all_payloads \<lparr>ge_sha256 = rev, ge_parse_strings = \<lambda>t. None\<rparr> 9000000000 (snd (gc_event_payloads \<lparr>ge_sha256 = rev, ge_parse_strings = \<lambda>t. None\<rparr> 9000000000 True
        \<lparr>gf_start = None, gf_events = [], gf_findings = [Some ''disk full''], gf_verdicts = []\<rparr> (Inr (0, 4))
        \<lparr>pd_events = [\<lparr>py_id = 1, py_created_at = 0, py_payload_expiry = None, py_stdout = Some ''out'', py_stderr = None, py_env_snapshot_id = Some 4\<rparr>],
         pd_snapshots = [\<lparr>sn_id = 4, sn_env_json = ''{}''\<rparr>], pd_receipts = [], pd_node_evidence = None, pd_epitaphs = None, pd_findings = [], pd_verdicts = []\<rparr>))"
proof -
  have "int_str 1 = ''1''" by code_simp
  then show ?thesis by (intro subsetD[OF gc_receipts]) (simp_all add: all_payloads_def row_payloads_def row_receipts_def opt_receipts_def event_field_def)
qed

subsection \<open>What is cited stays\<close>

lemma gc_events_kept:
  assumes "event_payload_pins env db = Inr pins" "r \<in> set (pd_events db)" "py_id r \<in> set pins"
  shows "r \<in> set (pd_events (snd (gc_events env now_ms top_id faults cursor cleared db)))"
proof -
  let ?P = "\<lambda>d. event_payload_pins env d = Inr pins \<and> r \<in> set (pd_events d)"
  have "?P (snd (gc_events env now_ms top_id faults cursor cleared db))"
  proof (rule gc_events_rule[where P = ?P])
    show "?P (foldl (gc_row env now_ms ps) d (gc_candidates now_ms c top_id (pd_events d)))" if "?P d" "event_payload_pins env d = Inr ps" for c d ps
    proof -
      have "ps = pins" using that by simp
      then show ?thesis using that(1) assms(3) by (auto simp: gc_rows_events image_iff)
    qed
  qed (use assms in simp)
  then show ?thesis by blast
qed

lemma gc_eval_kept:
  assumes "distinct (map ey_key (fst st))" "\<And>P rows. pins_of (map (eval_swept P) rows) = pins_of rows"
  shows "(\<forall>r \<in> set (fst st). ey_finding_id r \<in> set (pins_of (fst st))
        \<longrightarrow> r \<in> set (fst (snd (gc_eval env now_ms table pins_of faults cursor cleared st))))
    \<and> pins_of (fst (snd (gc_eval env now_ms table pins_of faults cursor cleared st))) = pins_of (fst st)"
proof -
  let ?K = "\<lambda>s. \<forall>r \<in> set (fst st). ey_finding_id r \<in> set (pins_of (fst st)) \<longrightarrow> r \<in> set (fst s)"
  let ?P = "\<lambda>s. distinct (map ey_key (fst s)) \<and> pins_of (fst s) = pins_of (fst st) \<and> ?K s"
  have "?P (snd (gc_eval env now_ms table pins_of faults cursor cleared st))"
  proof (rule gc_eval_rule[where P = ?P])
    show "?P (foldl (eval_gc_row env now_ms table (pins_of (fst s))) s (eval_candidates now_ms c (fst s)))" if P: "?P s" for c s
    proof -
      let ?s' = "foldl (eval_gc_row env now_ms table (pins_of (fst s))) s (eval_candidates now_ms c (fst s))"
      let ?Q = "\<lambda>e. \<exists>x \<in> set (eval_candidates now_ms c (fst s)). ey_key x = ey_key e \<and> ey_finding_id x \<notin> set (pins_of (fst s))"
      have s': "fst ?s' = map (eval_swept ?Q) (fst s)" by (simp add: eval_rows_texts eval_swept_def[abs_def])
      have inj: "inj_on ey_key (set (fst s))" using P by (simp add: distinct_map)
      have "r \<in> set (fst ?s')" if r: "r \<in> set (fst st)" "ey_finding_id r \<in> set (pins_of (fst st))" for r
      proof -
        have m: "r \<in> set (fst s)" using P r by blast
        then have "x = r" if "x \<in> set (eval_candidates now_ms c (fst s))" "ey_key x = ey_key r" for x
          using that inj eval_candidates_set by (blast dest: inj_onD)
        then have "\<not> ?Q r" using P r(2) by metis
        then show ?thesis unfolding s' using m by (auto simp: eval_swept_def image_iff)
      qed
      moreover have "pins_of (fst ?s') = pins_of (fst st)" unfolding s' using P assms(2) by simp
      moreover have "distinct (map ey_key (fst ?s'))" using P by (simp only: eval_rows_keys)
      ultimately show "?P ?s'" by blast
    qed
  qed (use assms(1) in simp)
  then show ?thesis by blast
qed

text \<open>
  C12 (gc_pins_kept): whatever statement of whichever batch fails, the sweep leaves every event that is cited as evidence exactly as it is, and every
  finding and verdict of a finding whose effective verdict is an acceptance: no sweep over the notes changes which findings those are.
  When a citation is not understood, nothing is changed at all.
\<close>

theorem gc_pins_kept:
  assumes "distinct (map ey_key (pd_findings db))" "distinct (map ey_key (pd_verdicts db))"
  shows "(case event_payload_pins env db of
        Inl e \<Rightarrow> snd (gc_event_payloads env now_ms autocommit fs checkpoint db) = db
      | Inr pins \<Rightarrow> \<forall>r \<in> set (pd_events db). py_id r \<in> set pins \<longrightarrow> r \<in> set (pd_events (snd (gc_event_payloads env now_ms autocommit fs checkpoint db))))
    \<and> (\<forall>r \<in> set (pd_findings db). ey_finding_id r \<in> set (eval_payload_pins (pd_verdicts db))
         \<longrightarrow> r \<in> set (pd_findings (snd (gc_event_payloads env now_ms autocommit fs checkpoint db))))
    \<and> (\<forall>v \<in> set (pd_verdicts db). ey_finding_id v \<in> set (eval_payload_pins (pd_verdicts db))
         \<longrightarrow> v \<in> set (pd_verdicts (snd (gc_event_payloads env now_ms autocommit fs checkpoint db))))"
    (is "?events \<and> ?findings \<and> ?verdicts")
proof -
  let ?fin = "snd (gc_event_payloads env now_ms autocommit fs checkpoint db)"
  let ?ps = "eval_payload_pins (pd_verdicts db)"
  let ?E = "\<lambda>d. \<forall>pins r. event_payload_pins env db = Inr pins \<longrightarrow> r \<in> set (pd_events db) \<longrightarrow> py_id r \<in> set pins \<longrightarrow> r \<in> set (pd_events d)"
  let ?F = "\<lambda>d. distinct (map ey_key (pd_findings d)) \<and> (\<forall>r \<in> set (pd_findings db). ey_finding_id r \<in> set ?ps \<longrightarrow> r \<in> set (pd_findings d))"
  let ?V = "\<lambda>d. distinct (map ey_key (pd_verdicts d)) \<and> eval_payload_pins (pd_verdicts d) = ?ps
    \<and> (\<forall>v \<in> set (pd_verdicts db). ey_finding_id v \<in> set ?ps \<longrightarrow> v \<in> set (pd_verdicts d))"
  let ?P = "\<lambda>d. ?E d \<and> ?F d \<and> ?V d"
  have "?P ?fin"
  proof (rule gc_sweep_rule[where P = ?P])
    show "?P db" using assms by blast
  next
    fix top_id
    let ?d = "snd (gc_events env now_ms top_id (gf_events fs) i64_min 0 db)"
    have "pd_findings ?d = pd_findings db \<and> pd_verdicts ?d = pd_verdicts db"
      by (rule gc_events_rule[where P = "\<lambda>d. pd_findings d = pd_findings db \<and> pd_verdicts d = pd_verdicts db"]) (simp_all add: gc_rows_frame)
    then show "?P ?d" using assms gc_events_kept by simp
  next
    fix d rows rcs res
    assume P: "?P d" and g: "gc_eval env now_ms ''eval_findings'' (\<lambda>_. eval_payload_pins (pd_verdicts d)) (gf_findings fs) None 0
      (pd_findings d, pd_receipts d) = (res, rows, rcs)"
    have e: "eval_payload_pins (pd_verdicts d) = ?ps" using P by blast
    have "distinct (map ey_key rows)" using eval_loop_keys[where st = "(pd_findings d, pd_receipts d)"] g P by (metis fst_conv snd_conv)
    moreover have "\<forall>r \<in> set (pd_findings d). ey_finding_id r \<in> set ?ps \<longrightarrow> r \<in> set rows"
      using gc_eval_kept[of "(pd_findings d, pd_receipts d)" "\<lambda>_. eval_payload_pins (pd_verdicts d)" env now_ms "''eval_findings''" "gf_findings fs" None 0] P
      by (simp add: g[unfolded e] e)
    ultimately have "?F (d\<lparr>pd_findings := rows, pd_receipts := rcs\<rparr>)" using P by simp
    then show "?P (d\<lparr>pd_findings := rows, pd_receipts := rcs\<rparr>)" using P by simp
  next
    fix d rows rcs res
    assume P: "?P d" and g: "gc_eval env now_ms ''eval_verdicts'' eval_payload_pins (gf_verdicts fs) None 0 (pd_verdicts d, pd_receipts d) = (res, rows, rcs)"
    have "distinct (map ey_key rows)" using eval_loop_keys[where st = "(pd_verdicts d, pd_receipts d)"] g P by (metis fst_conv snd_conv)
    moreover have "(\<forall>v \<in> set (pd_verdicts d). ey_finding_id v \<in> set ?ps \<longrightarrow> v \<in> set rows) \<and> eval_payload_pins rows = ?ps"
      using gc_eval_kept[of "(pd_verdicts d, pd_receipts d)" eval_payload_pins env now_ms "''eval_verdicts''" "gf_verdicts fs" None 0, OF _ eval_pins_swept] P
      by (simp add: g)
    ultimately have "?V (d\<lparr>pd_verdicts := rows, pd_receipts := rcs\<rparr>)" using P by simp
    then show "?P (d\<lparr>pd_verdicts := rows, pd_receipts := rcs\<rparr>)" using P by simp
  qed
  moreover have "?fin = db" if "event_payload_pins env db = Inl e" for e
    using that by (simp add: gc_event_payloads_def gc_events.simps[of env _ _ _ _ _ db] split: list.split option.split)
  ultimately show ?thesis by (auto split: sum.split)
qed

theorem gc_pins_kept_witness:
  "\<lparr>py_id = 1, py_created_at = 0, py_payload_expiry = None, py_stdout = Some ''out'', py_stderr = None, py_env_snapshot_id = None\<rparr>
      \<in> set (pd_events (snd (gc_event_payloads \<lparr>ge_sha256 = id, ge_parse_strings = \<lambda>t. Some [t]\<rparr> 9000000000 True
        \<lparr>gf_start = None, gf_events = [], gf_findings = [], gf_verdicts = [None, Some ''locked'']\<rparr> (Inl ''busy'')
        \<lparr>pd_events = [\<lparr>py_id = 1, py_created_at = 0, py_payload_expiry = None, py_stdout = Some ''out'', py_stderr = None, py_env_snapshot_id = None\<rparr>],
         pd_snapshots = [], pd_receipts = [], pd_node_evidence = None, pd_epitaphs = Some [Some ''shell-1''], pd_findings = [],
         pd_verdicts = [\<lparr>ey_key = ''v'', ey_finding_id = ''f'', ey_payload_expiry = 3, ey_texts = [(''note'', Some ''n'')], vd_verdict = ''accepted'', vd_auto = False, vd_decided_at = 1\<rparr>]\<rparr>)))
    \<and> \<lparr>ey_key = ''v'', ey_finding_id = ''f'', ey_payload_expiry = 3, ey_texts = [(''note'', Some ''n'')], vd_verdict = ''accepted'', vd_auto = False, vd_decided_at = 1\<rparr>
      \<in> set (pd_verdicts (snd (gc_event_payloads \<lparr>ge_sha256 = id, ge_parse_strings = \<lambda>t. Some [t]\<rparr> 9000000000 True
        \<lparr>gf_start = None, gf_events = [], gf_findings = [], gf_verdicts = [None, Some ''locked'']\<rparr> (Inl ''busy'')
        \<lparr>pd_events = [\<lparr>py_id = 1, py_created_at = 0, py_payload_expiry = None, py_stdout = Some ''out'', py_stderr = None, py_env_snapshot_id = None\<rparr>],
         pd_snapshots = [], pd_receipts = [], pd_node_evidence = None, pd_epitaphs = Some [Some ''shell-1''], pd_findings = [],
         pd_verdicts = [\<lparr>ey_key = ''v'', ey_finding_id = ''f'', ey_payload_expiry = 3, ey_texts = [(''note'', Some ''n'')], vd_verdict = ''accepted'', vd_auto = False, vd_decided_at = 1\<rparr>]\<rparr>)))"
  (is "?e \<in> set (pd_events (snd (gc_event_payloads ?env _ _ ?fs ?cp ?db))) \<and> ?v \<in> _")
proof -
  have e: "event_payload_pins ?env ?db = Inr [1]" by code_simp
  have q: "eval_payload_pins [?v] = [''f'']" by code_simp
  show ?thesis using gc_pins_kept[of ?db ?env 9000000000 True ?fs ?cp] by (simp add: e q)
qed

end
