(* ===== verification/Spec2Isabelle.thy ===== *)
theory Spec2Isabelle
  imports HealthProperties EnrichmentState Retention PageDiff Ship BackupRun Restore Framing ClaudeUsage
    ClaudeStore DaemonProperties WatchProperties ClaudeToolCalls NativeMessaging CodexProperties
    ShellCapture Backfill GhPoll AgentProperties OpencodeProperties PayloadProperties
begin

text \<open>
  Hippo captures what happens on a developer's machine (shell commands, browser pages, the sessions of
  coding agents) into one SQLite database, and a brain process reads that database to build knowledge.
  This development models the capture side, the Rust crates \<open>hippo-core\<close> and \<open>hippo-daemon\<close>, from
  the source under \<open>src/crates\<close>. It is organised by component, one theory each.

  \<^bold>\<open>The parts and how they interact.\<close> Clients (the shell hook, the browser's native messaging host, the
  probes) send length-prefixed frames over a socket. The daemon accepts an event into a bounded
  buffer, and a periodic flush redacts it, finds its session and inserts it with its queue entry in one
  transaction; what cannot be inserted is appended to a fallback file that the next start recovers.
  Importers tail the transcripts of Claude, Codex, Pi and Cursor sessions, split them into segments and store each with
  its facts and its queue entry; another polls the database of OpenCode, one row per session; the tool calls of a Claude transcript are sent to the daemon as shell events, and a
  backfill imports transcripts again. A poller copies the state of GitHub workflow runs into tables of its own and settles
  the commits that are watched. A watchdog looks at the per-source health rows that all of them update and
  keeps an alarm ledger, from which a health grade is computed. A backup run snapshots the database, writes a
  full artifact or a page delta against an earlier one, ships it, updates the manifest and prunes. A sweep clears expired payloads.

  \<^bold>\<open>The theories.\<close>
  \<^item> \<open>Prelude\<close>: results, 64-bit bounds, SQL aggregates, association lists, JSON values, and the locales
    \<open>invariant_run\<close>, \<open>monotone_run\<close>, \<open>settling\<close> (replay of a batch) and \<open>codec\<close>. \<open>RustText\<close>: the \<open>str\<close> operations.
  \<^item> \<open>Framing\<close>: \<open>framing.rs\<close>. \<open>EventStore\<close>: \<open>events.rs\<close>, \<open>primitives.rs\<close> and the event half of
    \<open>storage.rs\<close>; tables are lists of rows, in rowid order. \<open>Daemon\<close>: the request handler, the flush, the drain and
    the rolling counts of \<open>daemon.rs\<close>, and \<open>redact_shell_event\<close> of \<open>lib.rs\<close>; its state is \<open>daemon_state\<close>. \<open>DaemonProofs\<close> states the
    contract between the daemon and its tables as the locale \<open>event_tables\<close>; \<open>DaemonProperties\<close> interprets it twice.
  \<^item> \<open>SegmentUsage\<close> (\<open>segment_usage.rs\<close>), \<open>ClaudeSession\<close>, \<open>ClaudeSegments\<close>, \<open>ClaudeUsage\<close> and \<open>ClaudeStore\<close>:
    \<open>claude_session.rs\<close>, from the path of a transcript through its records and segments to the upsert,
    the enrichment queue, the facts and the repair of subagent identities. \<open>ClaudeWatch\<close>:
    \<open>watch_claude_sessions.rs\<close>, with \<open>process_file\<close> split where its blocking task starts and ends;
    \<open>WatchProperties\<close> runs it in a world where files, clock, tasks, restarts and other writers interleave.
  \<^item> \<open>ClaudeToolCalls\<close>: the tool calls of a transcript as shell events, and \<open>ingest_batch\<close>. \<open>Backfill\<close>: \<open>backfill.rs\<close>, over
    \<open>ClaudeStore\<close> and the offsets of \<open>ClaudeWatch\<close>. \<open>CodexSession\<close>, \<open>CodexStore\<close> and, for the proofs, \<open>CodexSegments\<close> and
    \<open>CodexProperties\<close>: \<open>codex_session.rs\<close>, rollouts, their storage, the poll and the coverage report; its locale \<open>covering\<close>
    says what a batch of independent files leaves behind.
  \<^item> \<open>PiSession\<close> and \<open>CursorSession\<close>: identity and segments of \<open>pi_session.rs\<close> and \<open>cursor_session.rs\<close>. \<open>AgentStore\<close> has what
    the Codex, Pi and Cursor importers share: the upsert of a segment and the poll, with the locale \<open>segment_rows\<close> (what an importer's rows
    satisfy) and its extension \<open>transcript_poller\<close> (how it extracts and numbers); \<open>AgentImport\<close> instantiates them for Pi and
    Cursor, \<open>AgentProperties\<close> has their theorems. \<open>OpencodeSession\<close>, \<open>OpencodeStore\<close> and \<open>OpencodeProperties\<close>:
    \<open>opencode_session.rs\<close> and \<open>agentic/render.rs\<close>, an importer that reads another program's database and keeps a watermark per session.
  \<^item> \<open>ShellCapture\<close>: \<open>handle_send_event_shell\<close> of \<open>commands.rs\<close>, what the shell hook runs; it calls the daemon model.
    \<open>NativeMessaging\<close>: \<open>native_messaging.rs\<close>, the browser's host. \<open>GitRepo\<close>: \<open>git_repo.rs\<close>.
  \<^item> \<open>GhApi\<close>: \<open>gh_api.rs\<close> and the token lookup of \<open>gh_poll.rs\<close>. \<open>GhPoll\<close>: \<open>run_once\<close>, the \<open>workflow_store\<close> of \<open>storage.rs\<close> and
    \<open>gh_annotations.rs\<close>; its locale \<open>workflow_law\<close> is the contract of the statements of a pass, interpreted for the
    keys and references, for redaction, and for what a pass never removes.
  \<^item> \<open>CaptureHealth\<close> (\<open>shell_health.rs\<close>, \<open>browser_health.rs\<close> and the liveness signal of \<open>lib.rs\<close>),
    \<open>EnrichmentState\<close> (\<open>enrichment_state.rs\<close>), \<open>Watchdog\<close> (the checks of \<open>watchdog.rs\<close>), \<open>Alarms\<close> (the ledger, the cycle,
    the alarm commands and \<open>health_score.rs\<close>); \<open>HealthProperties\<close> has their theorems.
  \<^item> \<open>BackupTypes\<close>, \<open>Retention\<close>, \<open>PageDiff\<close>, \<open>Ship\<close>, \<open>BackupRun\<close>, \<open>Artifact\<close>, \<open>Restore\<close>: the directory
    \<open>backup/\<close>. \<open>Restore\<close> runs the checkpoint of \<open>BackupRun\<close> before it replaces the live database.

  \<^item> \<open>PayloadGc\<close> and \<open>PayloadProperties\<close>: \<open>gc_event_payloads\<close> of \<open>storage.rs\<close>, the sweep over expired output, environments and
    evaluation texts, in batches of at most 100 rows (\<open>GC_BATCH\<close>).

  \<^bold>\<open>Conventions.\<close> A Rust struct is a record whose fields carry a short prefix, an enum a datatype, a
  \<open>Result\<close> a sum with the error on the left, a string the list of its UTF-8 bytes. Signed 64-bit values are
  \<open>int\<close>; every saturating, wrapping or narrowing operation of the source is written out. Calls that can
  fail take the outcome from an explicit list of faults in the state or from a fault argument, so every
  question mark and every ignored error of the source is a branch. Clocks, SHA-256, the redaction engine, JSON
  printing, age encryption, \<open>pgrep\<close> and the like are parameters. Error messages that quote a
  path or a library's message are shortened to their fixed part.

  \<^bold>\<open>What the lemmas show.\<close> Backups: shipping never loses an artifact's only copy and never clobbers a
  different file, an upload that failed stays pending, pruning keeps what a kept delta needs and a
  restorable full backup, the manifest lists only present files, a page delta applied to its base gives the new
  database, and the delta's own hashes are those of the result; a stored
  artifact restores to the snapshot it was made from, and a restore leaves the old database or the whole new one. Events: an accepted event is in its table or a
  fallback file once the daemon has drained, the queues name exactly the stored real events, and only
  redacted text is stored; the payload sweep clears exactly what is expired and not cited, with a receipt for all it clears. Transcripts: no content is stored without being queued for enrichment,
  reparsing is idempotent and resumable, the watcher never takes a transcript
  for done whose content is not stored and catches up after any failures, segments are numbered without gaps and redacted, and usage is
  neither lost nor counted twice; every tool call is reported once, a poll of the Codex rollouts or the Pi or Cursor transcripts covers each file that is due, a Pi transcript that grows
  keeps its closed segments, the working directory of a Cursor session is recovered exactly, an OpenCode session is
  not left behind unless its messages could not be read or the brain claimed it in the middle of a tick, and
  a backfill without errors has stored every matched transcript. Clients: a command is handed to the daemon or kept redacted in a
  fallback file, its output is cut to its budget so that the frame is accepted, a visit is answered ok only after it was sent or
  written. GitHub: a request ends after at most nine attempts, a pass keeps the tables consistent and redacted whatever fails,
  covers each listed run, and settles each watch as stated. Watchdog: alarms are spaced by the rate limit, each violation is alarmed, a
  violated invariant is never auto-resolved and a quiet one is after two clean ticks.

  \<^bold>\<open>Termination and bounds.\<close> No definition needs fuel. The loops that are not structural have a termination
  proof: \<open>read_pages\<close>, \<open>hash_loop\<close>, \<open>nm_loop\<close> and \<open>from_utf8_lossy\<close> consume their input, \<open>chunks\<close> and the \<open>str\<close> scans shorten
  theirs, as do \<open>whitespace_tokens\<close>, \<open>parent_pieces\<close> and \<open>trim_end_marker\<close>, \<open>drain\<close> shortens the buffer, \<open>gc_events\<close> and \<open>gc_eval\<close> move their cursor past rows, and \<open>get_json_loop\<close> counts its attempts.

  \<^bold>\<open>Not modelled.\<close> Process and socket handling, OpenTelemetry metrics, argument parsing and printing, the
  installer, schema migrations and other SQL text, the regular expressions of the redaction engine, age
  and zstd, the Python brain and the browser extension. The watcher's guarantee is for
  transcripts that grow or are replaced by a file with a fresh inode. Not modelled either: the schema handshake, the reports of the doctor and the evaluation commands, and the probes.
\<close>

end
